(* ===== verification/Ez4_Prelude.thy ===== *)
theory Ez4_Prelude
  imports Main
begin

text \<open>
  Shared vocabulary of the development: JavaScript objects and insertion ordered sets as
  lists, the enumeration order of object keys, the stable sort of \<open>Array.prototype.sort\<close>,
  the early exits of array iteration, and the graph search that several operations of
  the deployment engine perform. The lemmas here are the ones more than one component uses.
\<close>

section \<open>Collections of rewrite rules\<close>

named_theorems js_simps \<open>laws of JavaScript objects and ordered sets\<close>

section \<open>Object keys\<close>

text \<open>
  An object enumerates the keys that are array indices first, in ascending order, and the
  other keys in the order of their insertion. An array index is the canonical decimal
  spelling of a number below \<open>2 ^ 32 - 1\<close>.
\<close>

definition is_digit_char :: "char \<Rightarrow> bool" where
  "is_digit_char c = (48 \<le> (of_char c :: nat) \<and> (of_char c :: nat) \<le> 57)"

definition dec_value :: "string \<Rightarrow> nat" where
  "dec_value s = fold (\<lambda>c n. 10 * n + ((of_char c :: nat) - 48)) s 0"

text \<open>The decimal digits of a number.\<close>

fun digits_of :: "nat \<Rightarrow> string" where
  "digits_of n = (if n < 10 then [char_of (48 + n)] else digits_of (n div 10) @ [char_of (48 + n mod 10)])"

declare digits_of.simps [simp del]

lemma digits_of_unfold: "digits_of n = (if n < 10 then [] else digits_of (n div 10)) @ [char_of (48 + n mod 10)]"
  by (simp add: digits_of.simps [of n])

lemma digit_char: "is_digit_char (char_of (48 + k mod 10 :: nat))" "(of_char (char_of (48 + k mod 10 :: nat)) :: nat) - 48 = k mod 10"
proof -
  have "48 + k mod 10 < (256 :: nat)" using mod_less_divisor [of 10 k] by linarith
  then have "(of_char (char_of (48 + k mod 10 :: nat)) :: nat) = 48 + k mod 10" by simp
  then show "is_digit_char (char_of (48 + k mod 10 :: nat))" "(of_char (char_of (48 + k mod 10 :: nat)) :: nat) - 48 = k mod 10"
    using mod_less_divisor [of 10 k] by (simp_all add: is_digit_char_def)
qed

lemma digits_of_digit: "c \<in> set (digits_of n) \<Longrightarrow> is_digit_char c"
proof (induction n rule: less_induct)
  case (less n)
  show ?case
  proof (cases "n < 10")
    case True
    with less.prems digit_char(1) [of n] show ?thesis unfolding digits_of_unfold [of n] by auto
  next
    case False
    with less.prems have "c \<in> set (digits_of (n div 10)) \<or> c = char_of (48 + n mod 10 :: nat)"
      unfolding digits_of_unfold [of n] by auto
    with False less.IH [of "n div 10"] digit_char(1) [of n] show ?thesis by auto
  qed
qed

lemma dec_value_snoc: "dec_value (s @ [c]) = 10 * dec_value s + (of_char c - 48)"
  by (simp add: dec_value_def)

lemma digits_of_value: "dec_value (digits_of n) = n"
proof (induction n rule: less_induct)
  case (less n)
  have "dec_value (if n < 10 then [] else digits_of (n div 10)) = n div 10"
  proof (cases "n < 10")
    case True
    then show ?thesis by (simp add: dec_value_def)
  next
    case False
    then have "n div 10 < n" by simp
    from less.IH [OF this] False show ?thesis by (simp only: if_False)
  qed
  then have "dec_value (digits_of n) = 10 * (n div 10) + n mod 10"
    unfolding digits_of_unfold [of n] dec_value_snoc digit_char(2) by (simp only:)
  also have "\<dots> = n" by (rule mult_div_mod_eq)
  finally show ?case .
qed

definition is_array_index :: "string \<Rightarrow> bool" where
  "is_array_index s =
     (s = ''0'' \<or>
      (s \<noteq> [] \<and> hd s \<noteq> CHR ''0'' \<and> list_all is_digit_char s \<and> dec_value s < 2 ^ 32 - 1))"

type_synonym 'v js_object = "(string \<times> 'v) list"

definition obj_keys :: "'v js_object \<Rightarrow> string list" where
  "obj_keys m = map fst m"

definition obj_get :: "'v js_object \<Rightarrow> string \<Rightarrow> 'v option" where
  "obj_get m k = map_of m k"

text \<open>Assignment \<open>object[key] = value\<close>.\<close>

definition obj_set :: "string \<Rightarrow> 'v \<Rightarrow> 'v js_object \<Rightarrow> 'v js_object" where
  "obj_set k v m =
     (if k \<in> set (map fst m) then map (\<lambda>(k', v'). if k' = k then (k, v) else (k', v')) m
      else if is_array_index k then
        (let smaller = (\<lambda>(k', v'). is_array_index k' \<and> dec_value k' < dec_value k)
         in takeWhile smaller m @ (k, v) # dropWhile smaller m)
      else m @ [(k, v)])"

text \<open>\<open>delete object[key]\<close>.\<close>

definition obj_delete :: "string \<Rightarrow> 'v js_object \<Rightarrow> 'v js_object" where
  "obj_delete k m = filter (\<lambda>(k', v'). k' \<noteq> k) m"

text \<open>The spread \<open>{ ...target, ...source }\<close>: every property of the source is assigned.\<close>

definition obj_spread :: "'v js_object \<Rightarrow> 'v js_object \<Rightarrow> 'v js_object" where
  "obj_spread m n = fold (\<lambda>(k, v). obj_set k v) n m"

definition obj_ok :: "'v js_object \<Rightarrow> bool" where
  "obj_ok m = distinct (map fst m)"

lemma map_of_insert_middle:
  "k \<notin> fst ` set (xs @ ys) \<Longrightarrow> map_of (xs @ (k, v) # ys) = (map_of (xs @ ys))(k \<mapsto> v)"
  by (induction xs) (auto simp: fun_eq_iff map_add_def split: option.splits)

lemma map_of_replace:
  "k \<in> fst ` set m \<Longrightarrow>
   map_of (map (\<lambda>(k', v'). if k' = k then (k, v) else (k', v')) m) = (map_of m)(k \<mapsto> v)"
proof (induction m)
  case Nil
  then show ?case by simp
next
  case (Cons p m)
  obtain k' v' where p: "p = (k', v')" by fastforce
  show ?case
  proof (cases "k \<in> fst ` set m")
    case True
    with Cons.IH p show ?thesis by (auto simp: fun_eq_iff)
  next
    case False
    with Cons.prems p have "k' = k" by auto
    moreover have "map (\<lambda>(k', v'). if k' = k then (k, v) else (k', v')) m = m"
      using False by (intro map_idI) (auto simp: image_iff)
    ultimately show ?thesis using p by (simp add: fun_eq_iff)
  qed
qed

lemma map_of_obj_set: "map_of (obj_set k v m) = (map_of m)(k \<mapsto> v)"
proof (cases "k \<in> set (map fst m)")
  case True
  then show ?thesis by (simp add: obj_set_def map_of_replace)
next
  case False
  define smaller where
    "smaller = (\<lambda>(k' :: string, v' :: 'a). is_array_index k' \<and> dec_value k' < dec_value k)"
  have "k \<notin> fst ` set (takeWhile smaller m @ dropWhile smaller m)"
    using False by simp
  then have "map_of (takeWhile smaller m @ (k, v) # dropWhile smaller m) = (map_of m)(k \<mapsto> v)"
    using map_of_insert_middle [of k "takeWhile smaller m" "dropWhile smaller m" v] by simp
  moreover have "map_of (m @ [(k, v)]) = (map_of m)(k \<mapsto> v)"
    using False map_of_insert_middle [of k m "[]" v] by simp
  ultimately show ?thesis using False unfolding obj_set_def Let_def smaller_def [symmetric]
    by (simp only: if_False split: if_split) blast
qed

lemma obj_get_set [simp, js_simps]:
  "obj_get (obj_set k v m) k' = (if k' = k then Some v else obj_get m k')"
  by (simp add: obj_get_def map_of_obj_set)

lemma obj_get_empty [simp, js_simps]: "obj_get [] k = None"
  by (simp add: obj_get_def)

lemma obj_get_delete [simp, js_simps]:
  "obj_get (obj_delete k m) k' = (if k' = k then None else obj_get m k')"
  by (induction m) (auto simp: obj_get_def obj_delete_def)

lemma obj_get_in_keys: "obj_get m k = Some v \<Longrightarrow> k \<in> set (obj_keys m)"
  unfolding obj_get_def obj_keys_def by (force dest: map_of_SomeD simp: image_iff)

lemma obj_keys_get: "k \<in> set (obj_keys m) \<longleftrightarrow> obj_get m k \<noteq> None"
  by (simp add: obj_keys_def obj_get_def map_of_eq_None_iff)

lemma obj_get_mem: "obj_ok m \<Longrightarrow> obj_get m k = Some v \<longleftrightarrow> (k, v) \<in> set m"
  unfolding obj_get_def obj_ok_def by (rule map_of_eq_Some_iff)

lemma obj_keys_set [simp, js_simps]: "set (obj_keys (obj_set k v m)) = insert k (set (obj_keys m))"
  by (auto simp: obj_keys_get split: if_splits)

lemma obj_keys_delete [simp, js_simps]: "set (obj_keys (obj_delete k m)) = set (obj_keys m) - {k}"
  by (auto simp: obj_keys_get split: if_splits)

lemma obj_ok_empty [simp, js_simps]: "obj_ok []"
  by (simp add: obj_ok_def)

lemma distinct_insert_middle:
  "distinct (map fst (xs @ ys)) \<Longrightarrow> k \<notin> fst ` set (xs @ ys) \<Longrightarrow>
   distinct (map fst (xs @ (k, v) # ys))"
  by auto

lemma obj_ok_set [simp, js_simps]: "obj_ok m \<Longrightarrow> obj_ok (obj_set k v m)"
proof -
  assume ok: "obj_ok m"
  have middle: "distinct (map fst (takeWhile p m @ (k, v) # dropWhile p m))"
    if "k \<notin> set (map fst m)" for p
    using ok that by (intro distinct_insert_middle) (simp_all add: obj_ok_def)
  have "map fst (map (\<lambda>(k', v'). if k' = k then (k, v) else (k', v')) m) = map fst m"
    by (induction m) auto
  then show ?thesis
    using ok middle distinct_insert_middle [of m "[]" k v]
    unfolding obj_ok_def obj_set_def Let_def by (auto split: if_split simp del: map_map)
qed

lemma obj_ok_delete [simp, js_simps]: "obj_ok m \<Longrightarrow> obj_ok (obj_delete k m)"
  by (simp add: obj_ok_def obj_delete_def distinct_map_filter)

lemma obj_ok_spread [simp, js_simps]: "obj_ok m \<Longrightarrow> obj_ok (obj_spread m n)"
  unfolding obj_spread_def by (induction n arbitrary: m) auto

lemma obj_get_spread:
  "obj_ok n \<Longrightarrow>
   obj_get (obj_spread m n) k = (case obj_get n k of Some v \<Rightarrow> Some v | None \<Rightarrow> obj_get m k)"
proof (induction n arbitrary: m)
  case Nil
  then show ?case by (simp add: obj_spread_def)
next
  case (Cons p n)
  obtain k' v' where p: "p = (k', v')" by fastforce
  have ok: "obj_ok n" and new: "k' \<notin> set (map fst n)"
    using Cons.prems p by (auto simp: obj_ok_def)
  have "obj_get (obj_spread m (p # n)) k = obj_get (obj_spread (obj_set k' v' m) n) k"
    by (simp add: obj_spread_def p)
  also have "\<dots> = (case obj_get n k of Some v \<Rightarrow> Some v | None \<Rightarrow> obj_get (obj_set k' v' m) k)"
    using Cons.IH [OF ok] by simp
  finally have step: "obj_get (obj_spread m (p # n)) k = \<dots>" .
  have "obj_get n k' = None"
    using new by (simp add: obj_get_def map_of_eq_None_iff)
  then show ?case unfolding step
    by (simp add: p obj_get_def map_of_obj_set split: option.split)
qed

section \<open>Insertion ordered sets\<close>

text \<open>A JavaScript \<open>Set\<close> iterates in insertion order; adding a present element changes nothing.\<close>

definition set_add :: "'a \<Rightarrow> 'a list \<Rightarrow> 'a list" where
  "set_add x xs = (if x \<in> set xs then xs else xs @ [x])"

definition set_of_list :: "'a list \<Rightarrow> 'a list" where
  "set_of_list xs = fold set_add xs []"

lemma set_set_add [simp, js_simps]: "set (set_add x xs) = insert x (set xs)"
  by (auto simp: set_add_def)

lemma distinct_set_add [simp, js_simps]: "distinct xs \<Longrightarrow> distinct (set_add x xs)"
  by (auto simp: set_add_def)

lemma set_fold_set_add [simp, js_simps]: "set (fold set_add xs ys) = set xs \<union> set ys"
  by (induction xs arbitrary: ys) auto

lemma distinct_fold_set_add [simp, js_simps]: "distinct ys \<Longrightarrow> distinct (fold set_add xs ys)"
  by (induction xs arbitrary: ys) auto

lemma set_set_of_list [simp, js_simps]: "set (set_of_list xs) = set xs"
  by (simp add: set_of_list_def)

lemma distinct_set_of_list [simp, js_simps]: "distinct (set_of_list xs)"
  by (simp add: set_of_list_def)

lemma set_of_list_distinct: "distinct xs \<Longrightarrow> set_of_list xs = xs"
proof -
  have "distinct (ys @ xs) \<Longrightarrow> fold set_add xs ys = ys @ xs" for ys
    by (induction xs arbitrary: ys) (auto simp: set_add_def)
  from this [of "[]"] show "distinct xs \<Longrightarrow> set_of_list xs = xs"
    by (simp add: set_of_list_def)
qed

section \<open>Stable sorting with a comparison function\<close>

text \<open>
  \<open>Array.prototype.sort\<close> is stable; a comparator returns a negative number when its first
  argument comes first. For a consistent comparator the result is determined, and insertion
  sort computes it.
\<close>

fun insort_cmp :: "('a \<Rightarrow> 'a \<Rightarrow> int) \<Rightarrow> 'a \<Rightarrow> 'a list \<Rightarrow> 'a list" where
  "insort_cmp cmp x [] = [x]"
| "insort_cmp cmp x (y # ys) = (if cmp x y \<le> 0 then x # y # ys else y # insort_cmp cmp x ys)"

definition sort_cmp :: "('a \<Rightarrow> 'a \<Rightarrow> int) \<Rightarrow> 'a list \<Rightarrow> 'a list" where
  "sort_cmp cmp xs = foldr (insort_cmp cmp) xs []"

lemma set_insort_cmp [simp]: "set (insort_cmp cmp x xs) = insert x (set xs)"
  by (induction xs) auto

lemma distinct_insort_cmp [simp]: "distinct (insort_cmp cmp x xs) \<longleftrightarrow> x \<notin> set xs \<and> distinct xs"
  by (induction xs) auto

lemma set_sort_cmp [simp, js_simps]: "set (sort_cmp cmp xs) = set xs"
  unfolding sort_cmp_def by (induction xs) auto

lemma distinct_sort_cmp [simp, js_simps]: "distinct (sort_cmp cmp xs) = distinct xs"
  unfolding sort_cmp_def
proof (induction xs)
  case (Cons x xs)
  have "set (foldr (insort_cmp cmp) xs []) = set xs" by (induction xs) auto
  with Cons show ?case by simp
qed simp

section \<open>Counting what a search has not seen\<close>

definition unseen :: "'a list \<Rightarrow> 'a list \<Rightarrow> nat" where
  "unseen universe seen = card (set universe - set seen)"

lemma unseen_less:
  assumes "x \<in> set universe" and "x \<notin> set seen" and "insert x (set seen) \<subseteq> set seen'"
  shows "unseen universe seen' < unseen universe seen"
  unfolding unseen_def using assms by (intro psubset_card_mono) auto

section \<open>Texts\<close>

text \<open>\<open>Buffer.byteLength\<close>: the characters beyond ASCII have two bytes.\<close>

definition byteLength :: "string \<Rightarrow> nat" where
  "byteLength s = sum_list (map (\<lambda>c. if (of_char c :: nat) < 128 then 1 else 2) s)"

end
