(* ===== verification/Worklist_Search.thy ===== *)
theory Worklist_Search
  imports Ez4_Prelude
begin

text \<open>
  The depth first searches of the deployment engine: following the connections of an entry
  (\<open>getEntryConnections\<close>) and the dependents of an entry (\<open>checkAllDependentsSucceeded\<close>). Both
  keep the nodes they have seen and walk a list of pending nodes; one raises at a missing entry,
  the other gives up at a failed one. The interface states what such a walk does with the head
  of its pending nodes; its laws say which nodes the walk visits and when it is cut short.
\<close>

inductive reach :: "('a \<Rightarrow> bool) \<Rightarrow> ('a \<Rightarrow> 'a list) \<Rightarrow> 'a set \<Rightarrow> 'a \<Rightarrow> bool"
  for ok :: "'a \<Rightarrow> bool" and succs :: "'a \<Rightarrow> 'a list" and roots :: "'a set" where
  root: "x \<in> roots \<Longrightarrow> ok x \<Longrightarrow> reach ok succs roots x"
| next_node: "reach ok succs roots x \<Longrightarrow> y \<in> set (succs x) \<Longrightarrow> ok y \<Longrightarrow> reach ok succs roots y"

lemma reach_ok: "reach ok succs roots x \<Longrightarrow> ok x"
  by (induction rule: reach.induct) auto

lemma reach_mono:
  assumes "reach ok succs roots x" and "roots \<subseteq> roots'"
  shows "reach ok succs roots' x"
  using assms by (induction rule: reach.induct) (auto intro: reach.intros)

lemma reach_expand:
  assumes "reach ok succs (set (succs c) \<union> roots) x" and "ok c"
  shows "reach ok succs (insert c roots) x"
  using assms by (induction rule: reach.induct) (auto intro: reach.intros)

lemma reach_closed:
  assumes "reach ok succs roots x" and "\<And>r. r \<in> roots \<Longrightarrow> ok r \<Longrightarrow> r \<in> S"
    and "\<And>z y. z \<in> S \<Longrightarrow> y \<in> set (succs z) \<Longrightarrow> ok y \<Longrightarrow> y \<in> S"
  shows "x \<in> S"
  using assms by (induction rule: reach.induct) blast+

locale worklist_search =
  fixes universe :: "'a list"
    and visitable :: "'a \<Rightarrow> bool"
    and stop :: "'a \<Rightarrow> bool"
    and succs :: "'a \<Rightarrow> 'a list"
    and search :: "'a list \<Rightarrow> 'a list \<Rightarrow> 'a list option"
  assumes search_Nil: "search [] seen = Some seen"
    and search_stop: "stop x \<Longrightarrow> x \<notin> set seen \<Longrightarrow> search (x # work) seen = None"
    and search_skip: "\<not> stop x \<Longrightarrow> \<not> visitable x \<or> x \<in> set seen \<Longrightarrow>
      search (x # work) seen = search work seen"
    and search_visit: "\<not> stop x \<Longrightarrow> visitable x \<Longrightarrow> x \<notin> set seen \<Longrightarrow>
      search (x # work) seen = search (succs x @ work) (seen @ [x])"
    and visitable_universe: "visitable x \<Longrightarrow> \<not> stop x \<Longrightarrow> x \<in> set universe"
begin

definition ok :: "'a \<Rightarrow> bool" where
  "ok x = (visitable x \<and> \<not> stop x)"

lemma search_induct:
  assumes nil: "\<And>seen. P [] seen"
    and stopped: "\<And>x work seen. stop x \<Longrightarrow> P (x # work) seen"
    and skip: "\<And>x work seen. \<not> stop x \<Longrightarrow> \<not> visitable x \<or> x \<in> set seen \<Longrightarrow> P work seen \<Longrightarrow>
      P (x # work) seen"
    and visit: "\<And>x work seen. \<not> stop x \<Longrightarrow> visitable x \<Longrightarrow> x \<notin> set seen \<Longrightarrow>
      P (succs x @ work) (seen @ [x]) \<Longrightarrow> P (x # work) seen"
  shows "P work seen"
proof (induction "(work, seen)" arbitrary: work seen
    rule: wf_induct_rule [OF wf_measures [of "[\<lambda>(w, s). unseen universe s, \<lambda>(w, s). length w]"]])
  case 1
  show ?case
  proof (cases work)
    case Nil
    then show ?thesis by (simp add: nil)
  next
    case (Cons x rest)
    consider "stop x" | "\<not> stop x" "\<not> visitable x \<or> x \<in> set seen"
      | "\<not> stop x" "visitable x" "x \<notin> set seen" by blast
    then show ?thesis
    proof cases
      case 1
      then show ?thesis by (simp add: Cons stopped)
    next
      case 2
      then show ?thesis using 1 by (auto simp: Cons intro: skip)
    next
      case 3
      then have "unseen universe (seen @ [x]) < unseen universe seen"
        by (intro unseen_less [of x]) (auto intro: visitable_universe)
      then show ?thesis using 1 3 by (auto simp: Cons intro: visit)
    qed
  qed
qed

lemma search_result:
  assumes "search work seen = Some result" and "\<forall>x \<in> set seen. \<not> stop x"
  shows "set seen \<subseteq> set result \<and> (\<forall>x \<in> set work. ok x \<longrightarrow> x \<in> set result) \<and>
    (\<forall>x \<in> set result - set seen. \<forall>y \<in> set (succs x). ok y \<longrightarrow> y \<in> set result) \<and>
    (\<forall>x \<in> set result. x \<in> set seen \<or> reach ok succs (set work) x) \<and>
    (distinct seen \<longrightarrow> distinct result)"
  using assms
proof (induction work seen rule: search_induct)
  case (1 seen)
  then show ?case by (simp add: search_Nil)
next
  case (2 x work seen)
  then show ?case using search_stop [of x seen work] by auto
next
  case (3 x work seen)
  have "search work seen = Some result"
    using 3(1,2,4) by (simp add: search_skip)
  from 3(3) [OF this 3(5)] have IH: "set seen \<subseteq> set result \<and> (\<forall>y \<in> set work. ok y \<longrightarrow> y \<in> set result) \<and>
    (\<forall>y \<in> set result - set seen. \<forall>z \<in> set (succs y). ok z \<longrightarrow> z \<in> set result) \<and>
    (\<forall>y \<in> set result. y \<in> set seen \<or> reach ok succs (set work) y) \<and>
    (distinct seen \<longrightarrow> distinct result)" .
  then have sub: "set seen \<subseteq> set result" and roots: "\<forall>y \<in> set work. ok y \<longrightarrow> y \<in> set result"
    and sound: "\<forall>y \<in> set result. y \<in> set seen \<or> reach ok succs (set work) y" by simp_all
  have "reach ok succs (set (x # work)) y" if "reach ok succs (set work) y" for y
    by (rule reach_mono [OF that]) auto
  then have "\<forall>y \<in> set result. y \<in> set seen \<or> reach ok succs (set (x # work)) y"
    using sound by metis
  moreover have "\<forall>y \<in> set (x # work). ok y \<longrightarrow> y \<in> set result"
    using 3(2) sub roots by (auto simp: ok_def)
  ultimately show ?case using IH by (elim conjE, intro conjI) assumption+
next
  case (4 x work seen)
  have found: "search (succs x @ work) (seen @ [x]) = Some result"
    using 4(1,2,3,5) by (simp add: search_visit)
  have "\<forall>y \<in> set (seen @ [x]). \<not> stop y" using 4(1,6) by simp
  from 4(4) [OF found this]
  have sub: "set (seen @ [x]) \<subseteq> set result"
    and roots: "\<forall>y \<in> set (succs x @ work). ok y \<longrightarrow> y \<in> set result"
    and closed: "\<forall>y \<in> set result - set (seen @ [x]). \<forall>z \<in> set (succs y). ok z \<longrightarrow> z \<in> set result"
    and sound: "\<forall>y \<in> set result. y \<in> set (seen @ [x]) \<or> reach ok succs (set (succs x @ work)) y"
    and dist: "distinct (seen @ [x]) \<longrightarrow> distinct result"
    by simp_all
  have okx: "ok x" using 4(1,2) by (simp add: ok_def)
  have rx: "reach ok succs (set (x # work)) x"
    by (rule reach.root) (simp_all add: okx)
  have expand: "reach ok succs (set (x # work)) y" if "reach ok succs (set (succs x @ work)) y" for y
    using reach_expand [of ok succs x "set work" y] okx that by simp
  have "\<forall>y \<in> set result. y \<in> set seen \<or> reach ok succs (set (x # work)) y"
  proof
    fix y assume "y \<in> set result"
    then have "y \<in> set (seen @ [x]) \<or> reach ok succs (set (succs x @ work)) y" using sound by metis
    then show "y \<in> set seen \<or> reach ok succs (set (x # work)) y" using rx expand by auto
  qed
  moreover have "\<forall>y \<in> set result - set seen. \<forall>z \<in> set (succs y). ok z \<longrightarrow> z \<in> set result"
  proof (intro ballI impI)
    fix y z assume y: "y \<in> set result - set seen" and z: "z \<in> set (succs y)" "ok z"
    show "z \<in> set result"
    proof (cases "y = x")
      case True
      with roots z show ?thesis by simp
    next
      case False
      with y have "y \<in> set result - set (seen @ [x])" by simp
      with closed z show ?thesis by metis
    qed
  qed
  moreover have "set seen \<subseteq> set result" "\<forall>y \<in> set (x # work). ok y \<longrightarrow> y \<in> set result"
    "distinct seen \<longrightarrow> distinct result"
    using sub roots dist 4(3) by simp_all
  ultimately show ?case by (intro conjI) assumption+
qed

lemma search_visits_reachable:
  assumes "search work [] = Some result"
  shows "set result = {x. reach ok succs (set work) x}" and "distinct result"
proof -
  have roots: "\<And>x. x \<in> set work \<Longrightarrow> ok x \<Longrightarrow> x \<in> set result"
    and closed: "\<And>x y. x \<in> set result \<Longrightarrow> y \<in> set (succs x) \<Longrightarrow> ok y \<Longrightarrow> y \<in> set result"
    and sound: "\<And>x. x \<in> set result \<Longrightarrow> reach ok succs (set work) x"
    and dist: "distinct result"
    using search_result [OF assms] by simp_all
  have "x \<in> set result" if "reach ok succs (set work) x" for x
    by (rule reach_closed [OF that]) (erule (1) roots, erule (2) closed)
  with sound show "set result = {x. reach ok succs (set work) x}" by blast
  from dist show "distinct result" .
qed

definition cut_node :: "'a list \<Rightarrow> 'a \<Rightarrow> bool" where
  "cut_node work x = (stop x \<and>
     (x \<in> set work \<or> (\<exists>y. reach ok succs (set work) y \<and> x \<in> set (succs y))))"

lemma cut_node_mono: "cut_node work x \<Longrightarrow> set work \<subseteq> set work' \<Longrightarrow> cut_node work' x"
  unfolding cut_node_def by (blast intro: reach_mono)

lemma cut_node_expand: "cut_node (succs c @ work) x \<Longrightarrow> ok c \<Longrightarrow> cut_node (c # work) x"
proof -
  assume cut: "cut_node (succs c @ work) x" and c: "ok c"
  have "reach ok succs (set (c # work)) c"
    by (rule reach.root) (simp_all add: c)
  moreover have "reach ok succs (set (c # work)) y" if "reach ok succs (set (succs c @ work)) y" for y
    using reach_expand [of ok succs c "set work" y] c that by simp
  ultimately show "cut_node (c # work) x"
    using cut unfolding cut_node_def by auto
qed

lemma search_cut_short_aux:
  assumes "search work seen = None" and "\<forall>x \<in> set seen. \<not> stop x"
  shows "\<exists>x. cut_node work x"
  using assms
proof (induction work seen rule: search_induct)
  case (1 seen)
  then show ?case by (simp add: search_Nil)
next
  case (2 x work seen)
  then show ?case by (auto simp: cut_node_def)
next
  case (3 x work seen)
  then obtain z where "cut_node work z" by (auto simp: search_skip)
  then have "cut_node (x # work) z" by (rule cut_node_mono) auto
  then show ?case ..
next
  case (4 x work seen)
  then obtain z where "cut_node (succs x @ work) z" by (auto simp: search_visit)
  then have "cut_node (x # work) z" by (rule cut_node_expand) (simp add: ok_def 4)
  then show ?case ..
qed

lemma search_complete_aux:
  assumes "search work seen = Some result" and "\<forall>x \<in> set seen. \<not> stop x"
  shows "(\<forall>x \<in> set work. \<not> stop x) \<and> (\<forall>x \<in> set result - set seen. \<forall>y \<in> set (succs x). \<not> stop y)"
  using assms
proof (induction work seen rule: search_induct)
  case (1 seen)
  then show ?case by (simp add: search_Nil)
next
  case (2 x work seen)
  then show ?case using search_stop [of x seen work] by auto
next
  case (3 x work seen)
  have "search work seen = Some result" using 3(1,2,4) by (simp add: search_skip)
  from 3(3) [OF this 3(5)] 3(1) show ?case by simp
next
  case (4 x work seen)
  have found: "search (succs x @ work) (seen @ [x]) = Some result"
    using 4(1,2,3,5) by (simp add: search_visit)
  have "\<forall>y \<in> set (seen @ [x]). \<not> stop y" using 4(1,6) by simp
  note IH = 4(4) [OF found this]
  have "\<forall>y \<in> set result - set seen. \<forall>z \<in> set (succs y). \<not> stop z"
  proof (intro ballI)
    fix y z assume "y \<in> set result - set seen" "z \<in> set (succs y)"
    then show "\<not> stop z" using IH by (cases "y = x") auto
  qed
  then show ?case using IH 4(1) by simp
qed

lemma search_cut_short: "search work [] = None \<longleftrightarrow> (\<exists>x. cut_node work x)"
proof
  assume "search work [] = None"
  then show "\<exists>x. cut_node work x" by (rule search_cut_short_aux) simp
next
  assume "\<exists>x. cut_node work x"
  then obtain x where x: "cut_node work x" ..
  show "search work [] = None"
  proof (rule ccontr)
    assume "search work [] \<noteq> None"
    then obtain result where result: "search work [] = Some result" by auto
    have "(\<forall>x \<in> set work. \<not> stop x) \<and> (\<forall>x \<in> set result. \<forall>y \<in> set (succs x). \<not> stop y)"
      using search_complete_aux [OF result] by simp
    then show False
      using x search_visits_reachable(1) [OF result] unfolding cut_node_def by blast
  qed
qed

end

end
