(* ===== verification/Entry_State.thy ===== *)
theory Entry_State
  imports Worklist_Search
begin

text \<open>
  The entry maps of the deployment engine: \<open>foundation/state/src/types/entry.ts\<close>,
  \<open>state/entry.ts\<close>, \<open>state/errors.ts\<close> and \<open>state/hydrate.ts\<close>. An entry map is an object from
  identifiers to entries, where a property may hold \<open>undefined\<close>. Identifiers are sorted with
  \<open>localeCompare\<close>, whose collation comes with the runtime: it is the parameter \<open>cmp\<close>. The
  parameters and the result of an entry are opaque, hence the type variables.
\<close>

section \<open>Entries and errors\<close>

record ('p, 'r) entry_state =
  entry_type :: string
  entryId :: string
  dependencies :: "string list"
  connections :: "string list option"
  entry_partial :: "bool option"
  parameters :: 'p
  entry_result :: "'r option"

type_synonym ('p, 'r) entry_states = "(string \<times> ('p, 'r) entry_state option) list"

datatype state_error =
    EntriesNotFoundError
  | EntryNotFoundError string
  | HandlerNotFoundError string string
  | DependencyNotFoundError string string
  | ConnectionNotFoundError string string
  | CircularDependencyError string string
  | DuplicateEntryError string
  | CorruptedEntryMapError string string
  | CorruptedStateReferences nat nat
  | SkipFailedEntryError string
  | SkipFailedEntryDependencyError string
  | SkipFailedEntryDependentError string
  | HandlerError string
  | RangeError

text \<open>\<open>entryMap[entryId]\<close>: absent and \<open>undefined\<close> read the same.\<close>

definition entry_at :: "('p, 'r) entry_states \<Rightarrow> string \<Rightarrow> ('p, 'r) entry_state option" where
  "entry_at m k = (case obj_get m k of Some (Some e) \<Rightarrow> Some e | _ \<Rightarrow> None)"

lemma entry_at_empty [simp]: "entry_at [] k = None"
  by (simp add: entry_at_def)

lemma entry_at_set [simp]: "entry_at (obj_set k (Some e) m) k' = (if k' = k then Some e else entry_at m k')"
  by (simp add: entry_at_def)

lemma entry_at_delete [simp]: "entry_at (obj_delete k m) k' = (if k' = k then None else entry_at m k')"
  by (simp add: entry_at_def)

lemma entry_at_keys: "entry_at m k = Some e \<Longrightarrow> k \<in> set (obj_keys m)"
  by (auto simp: entry_at_def intro: obj_get_in_keys split: option.splits)

lemma entry_at_mem: "obj_ok m \<Longrightarrow> entry_at m k = Some e \<longleftrightarrow> (k, Some e) \<in> set m"
  by (auto simp: entry_at_def obj_get_mem [symmetric] split: option.splits)

section \<open>Operations on entry maps\<close>

definition getEntry :: "('p, 'r) entry_states \<Rightarrow> string \<Rightarrow> state_error + ('p, 'r) entry_state" where
  "getEntry m k = (case entry_at m k of None \<Rightarrow> Inl (EntryNotFoundError k) | Some e \<Rightarrow> Inr e)"

text \<open>The new map and the attached entry, whose dependencies are sorted in place.\<close>

definition attachEntry ::
  "(string \<Rightarrow> string \<Rightarrow> int) \<Rightarrow> ('p, 'r) entry_states \<Rightarrow> ('p, 'r) entry_state \<Rightarrow>
   state_error + ('p, 'r) entry_states \<times> ('p, 'r) entry_state" where
  "attachEntry cmp m e =
     (if entry_at m (entryId e) \<noteq> None then Inl (DuplicateEntryError (entryId e))
      else let e' = e\<lparr>dependencies := sort_cmp cmp (dependencies e)\<rparr>
           in Inr (obj_set (entryId e) (Some e') m, e'))"

fun validate_dependencies ::
  "('p, 'r) entry_states \<Rightarrow> string \<Rightarrow> string list \<Rightarrow> state_error + unit" where
  "validate_dependencies m k [] = Inr ()"
| "validate_dependencies m k (d # ds) =
     (if entry_at m d = None then Inl (DependencyNotFoundError k d) else validate_dependencies m k ds)"

fun validate_entries_from ::
  "('p, 'r) entry_states \<Rightarrow> ('p, 'r) entry_states \<Rightarrow> state_error + unit" where
  "validate_entries_from m [] = Inr ()"
| "validate_entries_from m ((k, entry) # rest) =
     (case entry of
        None \<Rightarrow> Inl (EntryNotFoundError k)
      | Some e \<Rightarrow>
          if k \<noteq> entryId e then Inl (CorruptedEntryMapError (entryId e) k)
          else (case validate_dependencies m k (dependencies e) of
                  Inl err \<Rightarrow> Inl err
                | Inr _ \<Rightarrow> validate_entries_from m rest))"

definition validateEntries :: "('p, 'r) entry_states \<Rightarrow> state_error + unit" where
  "validateEntries m = validate_entries_from m m"

definition linkEntryDependency ::
  "(string \<Rightarrow> string \<Rightarrow> int) \<Rightarrow> ('p, 'r) entry_states \<Rightarrow> string \<Rightarrow> string \<Rightarrow>
   state_error + ('p, 'r) entry_states" where
  "linkEntryDependency cmp m targetId sourceId =
     (case entry_at m targetId of
        None \<Rightarrow> Inl (EntryNotFoundError targetId)
      | Some target \<Rightarrow>
          (case entry_at m sourceId of
             None \<Rightarrow> Inl (EntryNotFoundError sourceId)
           | Some source \<Rightarrow>
               if targetId \<in> set (dependencies source) then Inl (CircularDependencyError targetId sourceId)
               else if sourceId \<in> set (dependencies target) then Inl (DuplicateEntryError sourceId)
               else Inr (obj_set targetId
                 (Some (target\<lparr>dependencies := sort_cmp cmp (dependencies target @ [sourceId])\<rparr>)) m)))"

definition tryLinkEntryDependency ::
  "(string \<Rightarrow> string \<Rightarrow> int) \<Rightarrow> ('p, 'r) entry_states \<Rightarrow> string \<Rightarrow> string \<Rightarrow>
   state_error + ('p, 'r) entry_states" where
  "tryLinkEntryDependency cmp m targetId sourceId =
     (case linkEntryDependency cmp m targetId sourceId of
        Inl (DuplicateEntryError _) \<Rightarrow> Inr m
      | r \<Rightarrow> r)"

definition linkEntryConnection ::
  "(string \<Rightarrow> string \<Rightarrow> int) \<Rightarrow> ('p, 'r) entry_states \<Rightarrow> string \<Rightarrow> string \<Rightarrow>
   state_error + ('p, 'r) entry_states" where
  "linkEntryConnection cmp m targetId sourceId =
     (case entry_at m targetId of
        None \<Rightarrow> Inl (EntryNotFoundError targetId)
      | Some target \<Rightarrow>
          (case entry_at m sourceId of
             None \<Rightarrow> Inl (EntryNotFoundError sourceId)
           | Some source \<Rightarrow>
               let current = (case connections target of None \<Rightarrow> [] | Some cs \<Rightarrow> cs);
                   updated = (if sourceId \<in> set current then current
                              else sort_cmp cmp (current @ [sourceId]))
               in Inr (obj_set targetId (Some (target\<lparr>connections := Some updated\<rparr>)) m)))"

text \<open>\<open>!type || entry.type === type\<close>\<close>

definition isEntryType :: "('p, 'r) entry_state \<Rightarrow> string option \<Rightarrow> bool" where
  "isEntryType e ty = (ty = None \<or> ty = Some [] \<or> ty = Some (entry_type e))"

fun dependencies_from ::
  "('p, 'r) entry_states \<Rightarrow> string \<Rightarrow> string option \<Rightarrow> string list \<Rightarrow>
   state_error + ('p, 'r) entry_state list" where
  "dependencies_from m k ty [] = Inr []"
| "dependencies_from m k ty (d # ds) =
     (case entry_at m d of
        None \<Rightarrow> Inl (DependencyNotFoundError k d)
      | Some dependency \<Rightarrow>
          (case dependencies_from m k ty ds of
             Inl err \<Rightarrow> Inl err
           | Inr rest \<Rightarrow> Inr (if isEntryType dependency ty then dependency # rest else rest)))"

definition getEntryDependencies ::
  "('p, 'r) entry_states \<Rightarrow> ('p, 'r) entry_state \<Rightarrow> string option \<Rightarrow>
   state_error + ('p, 'r) entry_state list" where
  "getEntryDependencies m e ty = dependencies_from m (entryId e) ty (dependencies e)"

fun dependents_from ::
  "string \<Rightarrow> string option \<Rightarrow> ('p, 'r) entry_states \<Rightarrow> state_error + ('p, 'r) entry_state list" where
  "dependents_from k ty [] = Inr []"
| "dependents_from k ty ((dependentId, entry) # rest) =
     (case entry of
        None \<Rightarrow> Inl (EntryNotFoundError dependentId)
      | Some dependent \<Rightarrow>
          (case dependents_from k ty rest of
             Inl err \<Rightarrow> Inl err
           | Inr found \<Rightarrow>
               Inr (if isEntryType dependent ty \<and> k \<in> set (dependencies dependent)
                    then dependent # found else found)))"

definition getEntryDependents ::
  "('p, 'r) entry_states \<Rightarrow> ('p, 'r) entry_state \<Rightarrow> string option \<Rightarrow>
   state_error + ('p, 'r) entry_state list" where
  "getEntryDependents m e ty = dependents_from (entryId e) ty m"

text \<open>
  \<open>getEntryConnections\<close> follows the connections depth first and keeps the entries it has
  collected, so that cyclic connections end. The pending connections, each with the identifier
  its error would report, are the frames of the recursive \<open>buildConnections\<close>, innermost first.
  An entry is stored under one key, so the cache of references is a set of keys.
\<close>

definition connections_of :: "('p, 'r) entry_state \<Rightarrow> string list" where
  "connections_of e = (case connections e of None \<Rightarrow> [] | Some cs \<Rightarrow> cs)"

lemma build_connections_less:
  assumes "entry_at m c = Some e" and "c \<notin> set collected"
  shows "unseen (obj_keys m) (collected @ [c]) < unseen (obj_keys m) collected"
  using assms by (intro unseen_less [of c]) (auto dest: entry_at_keys)

function buildConnections ::
  "('p, 'r) entry_states \<Rightarrow> string option \<Rightarrow> (string \<times> string) list \<Rightarrow> string list \<Rightarrow>
   state_error + string list" where
  "buildConnections m ty [] collected = Inr collected"
| "buildConnections m ty ((owner, c) # pending) collected =
     (case entry_at m c of
        None \<Rightarrow> Inl (ConnectionNotFoundError owner c)
      | Some e \<Rightarrow>
          if isEntryType e ty \<and> c \<notin> set collected
          then buildConnections m ty (map (Pair (entryId e)) (connections_of e) @ pending) (collected @ [c])
          else buildConnections m ty pending collected)"
  by pat_completeness auto
termination
  by (relation "measures [\<lambda>(m, ty, pending, collected). unseen (obj_keys m) collected,
      \<lambda>(m, ty, pending, collected). length pending]")
    (auto intro: build_connections_less)

definition getEntryConnections ::
  "('p, 'r) entry_states \<Rightarrow> ('p, 'r) entry_state \<Rightarrow> string option \<Rightarrow>
   state_error + ('p, 'r) entry_state list" where
  "getEntryConnections m e ty =
     (case buildConnections m ty (map (Pair (entryId e)) (connections_of e)) [] of
        Inl err \<Rightarrow> Inl err
      | Inr ids \<Rightarrow> Inr (List.map_filter (entry_at m) ids))"

section \<open>Hydration\<close>

text \<open>An entry with the identifiers of the entries that depend on it.\<close>

record ('p, 'r) hydrated_entry_state = "('p, 'r) entry_state" +
  dependents :: "string list"

definition hydrated :: "('p, 'r) entry_state \<Rightarrow> string list \<Rightarrow> ('p, 'r) hydrated_entry_state" where
  "hydrated e ds = entry_state.extend e (hydrated_entry_state.fields ds)"

type_synonym ('p, 'r) hydrated_entries = "(string \<times> ('p, 'r) hydrated_entry_state) list"

fun hydrate_dependencies ::
  "('p, 'r) entry_states \<Rightarrow> string \<Rightarrow> string list \<Rightarrow> ('p, 'r) hydrated_entries \<Rightarrow>
   state_error + ('p, 'r) hydrated_entries" where
  "hydrate_dependencies m k [] tmp = Inr tmp"
| "hydrate_dependencies m k (d # ds) tmp =
     (case obj_get tmp d of
        Some dependency \<Rightarrow>
          hydrate_dependencies m k ds
            (obj_set d (dependency\<lparr>dependents := dependents dependency @ [k]\<rparr>) tmp)
      | None \<Rightarrow>
          (case entry_at m d of
             None \<Rightarrow> Inl (DependencyNotFoundError k d)
           | Some e \<Rightarrow> hydrate_dependencies m k ds (obj_set d (hydrated e [k]) tmp)))"

fun hydrate_from ::
  "('p, 'r) entry_states \<Rightarrow> ('p, 'r) entry_states \<Rightarrow> ('p, 'r) hydrated_entries \<Rightarrow>
   state_error + ('p, 'r) hydrated_entries" where
  "hydrate_from m [] tmp = Inr tmp"
| "hydrate_from m ((k, entry) # rest) tmp =
     (case entry of
        None \<Rightarrow> Inl (EntryNotFoundError k)
      | Some e \<Rightarrow>
          (case hydrate_dependencies m k (dependencies e)
                  (if obj_get tmp k = None then obj_set k (hydrated e []) tmp else tmp) of
             Inl err \<Rightarrow> Inl err
           | Inr tmp' \<Rightarrow> hydrate_from m rest tmp'))"

definition hydrateState :: "('p, 'r) entry_states \<Rightarrow> state_error + ('p, 'r) hydrated_entries" where
  "hydrateState m = hydrate_from m m []"

section \<open>Valid entry maps\<close>

definition closed_entry :: "('p, 'r) entry_states \<Rightarrow> string \<Rightarrow> ('p, 'r) entry_state \<Rightarrow> bool" where
  "closed_entry m k e = (entryId e = k \<and> (\<forall>d \<in> set (dependencies e). entry_at m d \<noteq> None))"

lemma validate_dependencies_iff:
  "validate_dependencies m k ds = Inr u \<longleftrightarrow> (\<forall>d \<in> set ds. entry_at m d \<noteq> None)"
  by (induction ds) auto

lemma validate_entries_from_iff:
  "validate_entries_from m rest = Inr u \<longleftrightarrow>
   (\<forall>(k, entry) \<in> set rest. \<exists>e. entry = Some e \<and> closed_entry m k e)"
proof (induction rest)
  case Nil
  then show ?case by simp
next
  case (Cons p rest)
  obtain k entry where p: "p = (k, entry)" by fastforce
  show ?case
  proof (cases entry)
    case None
    then show ?thesis by (simp add: p)
  next
    case (Some e)
    have "validate_dependencies m k (dependencies e) = Inr () \<longleftrightarrow>
        (\<forall>d \<in> set (dependencies e). entry_at m d \<noteq> None)"
      by (rule validate_dependencies_iff)
    with Cons Some show ?thesis
      by (cases "validate_dependencies m k (dependencies e)") (auto simp: p closed_entry_def)
  qed
qed

lemmas validateEntries_iff = validate_entries_from_iff [where m = m and rest = m for m,
  folded validateEntries_def]

definition valid_map :: "('p, 'r) entry_states \<Rightarrow> bool" where
  "valid_map m = (obj_ok m \<and> validateEntries m = Inr ())"

lemma valid_map_alt:
  "valid_map m \<longleftrightarrow> obj_ok m \<and> (\<forall>k \<in> set (obj_keys m). entry_at m k \<noteq> None) \<and>
     (\<forall>k e. entry_at m k = Some e \<longrightarrow> closed_entry m k e)"
proof (cases "obj_ok m")
  case True
  have "(\<forall>(k, entry) \<in> set m. \<exists>e. entry = Some e \<and> closed_entry m k e) \<longleftrightarrow>
      (\<forall>k \<in> set (obj_keys m). entry_at m k \<noteq> None) \<and>
      (\<forall>k e. entry_at m k = Some e \<longrightarrow> closed_entry m k e)" (is "?L \<longleftrightarrow> ?R")
  proof
    assume L: ?L
    have "entry_at m k \<noteq> None" if "k \<in> set (obj_keys m)" for k
    proof -
      from that obtain entry where "(k, entry) \<in> set m" by (auto simp: obj_keys_def)
      moreover with L obtain e where "entry = Some e" by blast
      ultimately show ?thesis using entry_at_mem [OF True, of k e] by simp
    qed
    moreover have "closed_entry m k e" if "entry_at m k = Some e" for k e
      using that L entry_at_mem [OF True, of k e] by blast
    ultimately show ?R by blast
  next
    assume R: ?R
    show ?L
    proof (clarify)
      fix k entry assume mem: "(k, entry) \<in> set m"
      then have "k \<in> set (obj_keys m)" by (force simp: obj_keys_def)
      with R obtain e where e: "entry_at m k = Some e" by blast
      with entry_at_mem [OF True, of k e] have "(k, Some e) \<in> set m" by blast
      with mem True have "entry = Some e" by (auto simp: obj_ok_def dest: eq_key_imp_eq_value)
      with e R show "\<exists>e. entry = Some e \<and> closed_entry m k e" by blast
    qed
  qed
  then show ?thesis using True by (simp add: valid_map_def validateEntries_iff)
next
  case False
  then show ?thesis by (simp add: valid_map_def)
qed

lemma valid_map_entryId: "valid_map m \<Longrightarrow> entry_at m k = Some e \<Longrightarrow> entryId e = k"
  by (auto simp: valid_map_alt closed_entry_def)

lemma valid_map_dependency:
  "valid_map m \<Longrightarrow> entry_at m k = Some e \<Longrightarrow> d \<in> set (dependencies e) \<Longrightarrow> \<exists>f. entry_at m d = Some f"
  by (fastforce simp: valid_map_alt closed_entry_def)

lemma valid_map_set:
  assumes "valid_map m" and "entryId e = k"
    and "\<And>d. d \<in> set (dependencies e) \<Longrightarrow> d = k \<or> entry_at m d \<noteq> None"
  shows "valid_map (obj_set k (Some e) m)"
proof -
  have ok: "obj_ok m" and keys: "\<forall>k \<in> set (obj_keys m). entry_at m k \<noteq> None"
    and closed: "\<And>j f. entry_at m j = Some f \<Longrightarrow> closed_entry m j f"
    using assms(1) by (auto simp: valid_map_alt)
  have "closed_entry (obj_set k (Some e) m) j f" if "entry_at (obj_set k (Some e) m) j = Some f" for j f
    using that closed [of j f] assms(2,3) by (auto simp: closed_entry_def split: if_splits)
  then show ?thesis using ok keys unfolding valid_map_alt by simp
qed

lemma link_cases:
  assumes "linkEntryDependency cmp m t s = Inr m'"
  obtains target source where "entry_at m t = Some target" "entry_at m s = Some source"
    "t \<notin> set (dependencies source)" "s \<notin> set (dependencies target)"
    "m' = obj_set t (Some (target\<lparr>dependencies := sort_cmp cmp (dependencies target @ [s])\<rparr>)) m"
  using assms by (auto simp: linkEntryDependency_def split: option.splits if_splits)

lemma valid_map_link:
  assumes "valid_map m" and "linkEntryDependency cmp m t s = Inr m'"
  shows "valid_map m'"
  using assms(2)
proof (cases rule: link_cases)
  case (1 target source)
  then show ?thesis
    using assms(1) valid_map_entryId [OF assms(1) 1(1)] valid_map_dependency [OF assms(1) 1(1)]
    by (auto intro!: valid_map_set)
qed

text \<open>
  Linking keeps the map loadable: on a map that \<open>validateEntries\<close> accepts, a successful
  \<open>linkEntryDependency\<close> gives a map that \<open>validateEntries\<close> accepts again, in which the target
  depends on exactly the sources it had and the new one, without duplicates when it had none,
  and every other entry is untouched; a link that would close a cycle of two is refused.
\<close>

theorem link_keeps_map_valid:
  assumes "valid_map m" and "entry_at m t = Some target" and "entry_at m s = Some source"
  shows "case linkEntryDependency cmp m t s of
      Inl err \<Rightarrow>
        (err = CircularDependencyError t s \<and> t \<in> set (dependencies source)) \<or>
        (err = DuplicateEntryError s \<and> s \<in> set (dependencies target))
    | Inr m' \<Rightarrow> validateEntries m' = Inr () \<and> t \<notin> set (dependencies source) \<and>
        (\<forall>k. k \<noteq> t \<longrightarrow> entry_at m' k = entry_at m k) \<and>
        (\<exists>target'. entry_at m' t = Some target' \<and>
           set (dependencies target') = insert s (set (dependencies target)) \<and>
           distinct (dependencies target') = distinct (dependencies target))"
proof (cases "linkEntryDependency cmp m t s")
  case (Inl err)
  then show ?thesis
    using assms(2,3) by (auto simp: linkEntryDependency_def split: if_splits)
next
  case (Inr m')
  then have "validateEntries m' = Inr ()"
    using valid_map_link [OF assms(1) Inr] by (simp add: valid_map_def)
  moreover from Inr assms(2,3)
  have "m' = obj_set t (Some (target\<lparr>dependencies := sort_cmp cmp (dependencies target @ [s])\<rparr>)) m"
    and "t \<notin> set (dependencies source)" and "s \<notin> set (dependencies target)"
    by (auto elim!: link_cases)
  ultimately show ?thesis using Inr by simp
qed

section \<open>Following connections\<close>

definition connection_ok :: "('p, 'r) entry_states \<Rightarrow> string option \<Rightarrow> string \<Rightarrow> bool" where
  "connection_ok m ty c = (\<exists>e. entry_at m c = Some e \<and> isEntryType e ty)"

definition connection_succs :: "('p, 'r) entry_states \<Rightarrow> string \<Rightarrow> string list" where
  "connection_succs m c = (case entry_at m c of None \<Rightarrow> [] | Some e \<Rightarrow> connections_of e)"

definition connection_search ::
  "('p, 'r) entry_states \<Rightarrow> string option \<Rightarrow> string list \<Rightarrow> string list \<Rightarrow> string list option" where
  "connection_search m ty work seen =
     (case buildConnections m ty (map (Pair []) work) seen of Inl _ \<Rightarrow> None | Inr r \<Rightarrow> Some r)"

text \<open>The owner of a pending connection matters for the error only.\<close>

lemma buildConnections_owner:
  assumes "map snd pending = map snd pending'"
  shows "(case buildConnections m ty pending seen of Inl _ \<Rightarrow> None | Inr r \<Rightarrow> Some r) =
    (case buildConnections m ty pending' seen of Inl _ \<Rightarrow> None | Inr r \<Rightarrow> Some r)"
  using assms
proof (induction m ty pending seen arbitrary: pending' rule: buildConnections.induct)
  case (1 m ty seen)
  then show ?case by simp
next
  case (2 m ty owner c pending seen)
  from 2(3) obtain owner' rest where p': "pending' = (owner', c) # rest"
    "map snd pending = map snd rest"
    by (cases pending') auto
  show ?case
  proof (cases "entry_at m c")
    case None
    then show ?thesis by (simp add: p')
  next
    case (Some e)
    then show ?thesis using 2(1,2) p' by (simp add: comp_def)
  qed
qed

lemma connection_search_pairs:
  "connection_search m ty work seen =
   (case buildConnections m ty (map (Pair owner) work) seen of Inl _ \<Rightarrow> None | Inr r \<Rightarrow> Some r)"
  unfolding connection_search_def by (rule buildConnections_owner) (simp add: comp_def)

lemma connection_search_append:
  "connection_search m ty (work @ rest) seen =
   (case buildConnections m ty (map (Pair owner) work @ map (Pair []) rest) seen of
      Inl _ \<Rightarrow> None | Inr r \<Rightarrow> Some r)"
  unfolding connection_search_def by (rule buildConnections_owner) (simp add: comp_def)

interpretation conn: worklist_search "obj_keys m" "connection_ok m ty" "\<lambda>c. entry_at m c = None"
  "connection_succs m" "connection_search m ty"
  for m :: "('p, 'r) entry_states" and ty :: "string option"
proof
  show "connection_search m ty [] seen = Some seen" for seen
    by (simp add: connection_search_def)
  show "connection_search m ty (x # work) seen = None" if "entry_at m x = None" for x seen work
    using that by (simp add: connection_search_def)
  show "connection_search m ty (x # work) seen = connection_search m ty work seen"
    if "entry_at m x \<noteq> None" and "\<not> connection_ok m ty x \<or> x \<in> set seen" for x seen work
    using that by (auto simp: connection_search_def connection_ok_def)
  show "connection_search m ty (x # work) seen =
      connection_search m ty (connection_succs m x @ work) (seen @ [x])"
    if "entry_at m x \<noteq> None" and ok: "connection_ok m ty x" and "x \<notin> set seen" for x seen work
  proof -
    from ok obtain e where e: "entry_at m x = Some e" "isEntryType e ty"
      by (auto simp: connection_ok_def)
    then show ?thesis
      using that connection_search_append [of m ty "connections_of e" work "seen @ [x]" "entryId e"]
      by (simp add: connection_search_def connection_succs_def)
  qed
  show "x \<in> set (obj_keys m)" if "connection_ok m ty x" for x
    using that by (auto simp: connection_ok_def dest: entry_at_keys)
qed

lemma conn_ok:
  "worklist_search.ok (connection_ok m ty) (\<lambda>c. entry_at m c = None) = connection_ok m ty"
  by (auto simp: conn.ok_def connection_ok_def fun_eq_iff)

lemma map_filter_entries:
  "(\<And>c. c \<in> set ids \<Longrightarrow> entry_at m c \<noteq> None) \<Longrightarrow>
   List.map_filter (entry_at m) ids = map (\<lambda>c. the (entry_at m c)) ids"
  by (induction ids) (auto simp: List.map_filter_def)

text \<open>
  \<open>getEntryConnections\<close> ends on every map, cyclic connections included. It answers the
  entries of the wanted type that are reachable through connections of such entries, each one
  once, and it raises exactly when a connection on the way names an entry that does not exist.
\<close>

theorem connections_are_reachable_entries:
  "case getEntryConnections m e ty of
     Inr es \<Rightarrow> (\<exists>ids. distinct ids \<and> es = map (\<lambda>c. the (entry_at m c)) ids \<and>
       set ids = {c. reach (connection_ok m ty) (connection_succs m) (set (connections_of e)) c})
   | Inl err \<Rightarrow> (\<exists>c. entry_at m c = None \<and> (c \<in> set (connections_of e) \<or>
       (\<exists>y. reach (connection_ok m ty) (connection_succs m) (set (connections_of e)) y \<and>
            c \<in> set (connection_succs m y))))"
proof (cases "buildConnections m ty (map (Pair (entryId e)) (connections_of e)) []")
  case (Inl err)
  then have "connection_search m ty (connections_of e) [] = None"
    by (simp add: connection_search_pairs [where owner = "entryId e"])
  then show ?thesis
    using Inl unfolding conn.search_cut_short conn.cut_node_def conn_ok
    by (simp add: getEntryConnections_def)
next
  case (Inr ids)
  then have "connection_search m ty (connections_of e) [] = Some ids"
    by (simp add: connection_search_pairs [where owner = "entryId e"])
  note r = conn.search_visits_reachable [OF this, unfolded conn_ok]
  have "entry_at m c \<noteq> None" if "c \<in> set ids" for c
  proof -
    from that r(1) have "reach (connection_ok m ty) (connection_succs m) (set (connections_of e)) c"
      by simp
    from reach_ok [OF this] show ?thesis by (auto simp: connection_ok_def)
  qed
  then have "List.map_filter (entry_at m) ids = map (\<lambda>c. the (entry_at m c)) ids"
    by (rule map_filter_entries)
  then show ?thesis
    using Inr r by (auto simp: getEntryConnections_def intro!: exI [of _ ids])
qed

section \<open>Dependents after hydration\<close>

text \<open>
  The links of a map, in the order the entries and their dependencies are read, as pairs of the
  dependent and its dependency.
\<close>

fun entry_links :: "('p, 'r) entry_states \<Rightarrow> (string \<times> string) list" where
  "entry_links [] = []"
| "entry_links ((k, None) # rest) = entry_links rest"
| "entry_links ((k, Some e) # rest) = map (Pair k) (dependencies e) @ entry_links rest"

definition dependents_in :: "(string \<times> string) list \<Rightarrow> string \<Rightarrow> string list" where
  "dependents_in links k = map fst (filter (\<lambda>(i, d). d = k) links)"

lemma dependents_in_append [simp]:
  "dependents_in (xs @ ys) k = dependents_in xs k @ dependents_in ys k"
  by (simp add: dependents_in_def)

lemma dependents_in_single [simp]: "dependents_in [(i, d)] k = (if d = k then [i] else [])"
  by (simp add: dependents_in_def)

lemma set_dependents_in: "set (dependents_in links k) = {i. (i, k) \<in> set links}"
  by (force simp: dependents_in_def)

definition hydration_inv ::
  "('p, 'r) entry_states \<Rightarrow> string set \<Rightarrow> (string \<times> string) list \<Rightarrow> ('p, 'r) hydrated_entries \<Rightarrow> bool" where
  "hydration_inv m seen links tmp =
     (\<forall>k. if k \<in> seen \<or> k \<in> snd ` set links
          then (\<exists>e. entry_at m k = Some e \<and> obj_get tmp k = Some (hydrated e (dependents_in links k)))
          else obj_get tmp k = None)"

lemma hydrated_dependents [simp]: "dependents (hydrated e ds) = ds"
  by (simp add: hydrated_def entry_state.defs hydrated_entry_state.defs)

lemma hydrated_update [simp]: "(hydrated e ds)\<lparr>dependents := ds'\<rparr> = hydrated e ds'"
  by (simp add: hydrated_def entry_state.defs hydrated_entry_state.defs)

lemma hydrated_entryId [simp]: "entryId (hydrated e ds) = entryId e"
  by (simp add: hydrated_def entry_state.defs)

lemma hydration_inv_add_link:
  assumes "hydration_inv m seen links tmp" and "entry_at m d = Some e"
  shows "hydration_inv m seen (links @ [(k, d)])
    (case obj_get tmp d of
       Some h \<Rightarrow> obj_set d (h\<lparr>dependents := dependents h @ [k]\<rparr>) tmp
     | None \<Rightarrow> obj_set d (hydrated e [k]) tmp)"
proof -
  have d: "if d \<in> seen \<or> d \<in> snd ` set links
      then obj_get tmp d = Some (hydrated e (dependents_in links d)) else obj_get tmp d = None"
    using assms unfolding hydration_inv_def by (metis option.inject)
  have "dependents_in links d = []" if "d \<notin> snd ` set links"
    using that by (force simp: dependents_in_def filter_empty_conv)
  with d assms show ?thesis unfolding hydration_inv_def by (auto split: option.splits if_splits)
qed

lemma hydrate_dependencies_result:
  assumes "hydration_inv m seen links tmp"
  shows "case hydrate_dependencies m k ds tmp of
      Inr tmp' \<Rightarrow> (\<forall>d \<in> set ds. entry_at m d \<noteq> None) \<and>
        hydration_inv m seen (links @ map (Pair k) ds) tmp'
    | Inl err \<Rightarrow> \<exists>d \<in> set ds. entry_at m d = None \<and> err = DependencyNotFoundError k d"
  using assms
proof (induction ds arbitrary: links tmp)
  case Nil
  then show ?case by simp
next
  case (Cons d ds)
  show ?case
  proof (cases "entry_at m d")
    case None
    then have "obj_get tmp d = None"
      using Cons.prems unfolding hydration_inv_def by (metis option.distinct(1))
    with None show ?thesis by simp
  next
    case (Some e)
    note inv = hydration_inv_add_link [OF Cons.prems Some, of k]
    show ?thesis
      using Cons.IH [OF inv] Some by (cases "obj_get tmp d") (auto split: sum.splits)
  qed
qed

lemma hydration_inv_add_entry:
  assumes "hydration_inv m seen links tmp" and "entry_at m k = Some e"
  shows "hydration_inv m (insert k seen) links
    (if obj_get tmp k = None then obj_set k (hydrated e []) tmp else tmp)"
proof -
  have k: "if k \<in> seen \<or> k \<in> snd ` set links
      then obj_get tmp k = Some (hydrated e (dependents_in links k)) else obj_get tmp k = None"
    using assms unfolding hydration_inv_def by (metis option.inject)
  have fresh: "dependents_in links k = []" if "k \<notin> snd ` set links"
    using that by (force simp: dependents_in_def filter_empty_conv)
  show ?thesis
  proof (cases "k \<in> seen \<or> k \<in> snd ` set links")
    case True
    with k have "obj_get tmp k \<noteq> None" by (metis option.distinct(1))
    moreover have "hydration_inv m (insert k seen) links tmp"
      unfolding hydration_inv_def
    proof
      fix j
      show "if j \<in> insert k seen \<or> j \<in> snd ` set links
          then \<exists>e. entry_at m j = Some e \<and> obj_get tmp j = Some (hydrated e (dependents_in links j))
          else obj_get tmp j = None"
        using assms True k unfolding hydration_inv_def by (cases "j = k") auto
    qed
    ultimately show ?thesis by (simp only: if_False)
  next
    case False
    with k have "obj_get tmp k = None" by simp
    with assms False fresh show ?thesis unfolding hydration_inv_def by (auto split: if_splits)
  qed
qed

definition broken :: "('p, 'r) entry_states \<Rightarrow> (string \<times> ('p, 'r) entry_state option) list \<Rightarrow> bool" where
  "broken m entries = (\<exists>(k, entry) \<in> set entries.
     entry = None \<or> (\<exists>d \<in> set (dependencies (the entry)). entry_at m d = None))"

lemma hydrate_from_result:
  assumes "hydration_inv m seen links tmp" and "obj_ok m" and "set rest \<subseteq> set m"
  shows "case hydrate_from m rest tmp of
      Inr tmp' \<Rightarrow> \<not> broken m rest \<and>
        hydration_inv m (seen \<union> fst ` set rest) (links @ entry_links rest) tmp'
    | Inl err \<Rightarrow> broken m rest"
  using assms
proof (induction rest arbitrary: seen links tmp)
  case Nil
  then show ?case by (simp add: broken_def)
next
  case (Cons p rest)
  obtain k entry where p: "p = (k, entry)" by fastforce
  show ?case
  proof (cases entry)
    case None
    then show ?thesis by (simp add: p broken_def)
  next
    case (Some e)
    have at: "entry_at m k = Some e"
      using Cons.prems(2,3) by (simp add: entry_at_mem p Some)
    define start where "start = (if obj_get tmp k = None then obj_set k (hydrated e []) tmp else tmp)"
    have inv: "hydration_inv m (insert k seen) links start"
      unfolding start_def by (rule hydration_inv_add_entry [OF Cons.prems(1) at])
    note deps = hydrate_dependencies_result [OF inv, where k = k and ds = "dependencies e"]
    show ?thesis
    proof (cases "hydrate_dependencies m k (dependencies e) start")
      case (Inl err)
      with deps show ?thesis by (auto simp: p Some start_def broken_def)
    next
      case (Inr tmp')
      with deps have closed: "\<forall>d \<in> set (dependencies e). entry_at m d \<noteq> None"
        and next_inv: "hydration_inv m (insert k seen) (links @ map (Pair k) (dependencies e)) tmp'"
        by simp_all
      note rec = Cons.IH [OF next_inv Cons.prems(2)]
      show ?thesis
        using rec Cons.prems(3) closed Inr
        by (auto simp: p Some start_def [symmetric] broken_def split: sum.splits)
    qed
  qed
qed

lemma obj_ok_hydrate_dependencies:
  "obj_ok tmp \<Longrightarrow> hydrate_dependencies m k ds tmp = Inr tmp' \<Longrightarrow> obj_ok tmp'"
  by (induction ds arbitrary: tmp) (auto split: option.splits intro: obj_ok_set)

lemma obj_ok_hydrate_from:
  "obj_ok tmp \<Longrightarrow> hydrate_from m rest tmp = Inr tmp' \<Longrightarrow> obj_ok tmp'"
proof (induction m rest tmp rule: hydrate_from.induct)
  case (2 m k entry rest tmp)
  from "2.prems"(2) obtain e t where e: "entry = Some e"
    and t: "hydrate_dependencies m k (dependencies e)
      (if obj_get tmp k = None then obj_set k (hydrated e []) tmp else tmp) = Inr t"
    and r: "hydrate_from m rest t = Inr tmp'"
    by (auto split: option.splits sum.splits if_splits)
  have "obj_ok t" by (rule obj_ok_hydrate_dependencies [OF _ t]) (simp add: "2.prems"(1))
  then show ?case by (rule "2.IH" [OF e t _ r])
qed simp

lemma set_entry_links:
  "obj_ok m \<Longrightarrow> (i, d) \<in> set (entry_links m) \<longleftrightarrow> (\<exists>e. entry_at m i = Some e \<and> d \<in> set (dependencies e))"
  unfolding entry_at_mem by (induction m rule: entry_links.induct) (auto simp: obj_ok_def entry_at_mem)

lemma hydrateState_result:
  assumes "obj_ok m"
  shows "case hydrateState m of
      Inr h \<Rightarrow> obj_ok h \<and> \<not> broken m m \<and> 
        (\<forall>k. obj_get h k = map_option (\<lambda>e. hydrated e (dependents_in (entry_links m) k)) (entry_at m k))
    | Inl err \<Rightarrow> broken m m"
proof -
  have start: "hydration_inv m {} [] []" by (simp add: hydration_inv_def)
  show ?thesis
  proof (cases "hydrateState m")
    case (Inl err)
    with hydrate_from_result [OF start assms subset_refl] show ?thesis by (simp add: hydrateState_def)
  next
    case (Inr h)
    with hydrate_from_result [OF start assms subset_refl]
    have ok: "\<not> broken m m" and inv: "hydration_inv m (fst ` set m) (entry_links m) h"
      by (simp_all add: hydrateState_def)
    have "obj_ok h" using Inr obj_ok_hydrate_from [of "[]" m m h] by (simp add: hydrateState_def)
    moreover have "obj_get h k = map_option (\<lambda>e. hydrated e (dependents_in (entry_links m) k)) (entry_at m k)" for k
    proof (cases "entry_at m k")
      case (Some e)
      then have "k \<in> fst ` set m" by (auto dest: entry_at_keys simp: obj_keys_def)
      with inv Some have "obj_get h k = Some (hydrated e (dependents_in (entry_links m) k))"
        unfolding hydration_inv_def by (metis option.inject)
      with Some show ?thesis by simp
    next
      case None
      then have "\<not> (k \<in> fst ` set m \<or> k \<in> snd ` set (entry_links m))"
        using inv unfolding hydration_inv_def by (metis option.distinct(1))
      with inv None show ?thesis unfolding hydration_inv_def by (metis option.map_disc_iff)
    qed
    ultimately show ?thesis using Inr ok by simp
  qed
qed

lemma broken_iff:
  assumes "obj_ok m"
  shows "broken m m \<longleftrightarrow> (\<exists>k \<in> set (obj_keys m). entry_at m k = None) \<or>
    (\<exists>k e. entry_at m k = Some e \<and> (\<exists>d \<in> set (dependencies e). entry_at m d = None))"
proof -
  have none: "(k, None) \<in> set m \<longleftrightarrow> k \<in> set (obj_keys m) \<and> entry_at m k = None" for k
    unfolding obj_get_mem [OF assms, symmetric] obj_keys_get entry_at_def
    by (simp split: option.split)
  have "broken m m \<longleftrightarrow> (\<exists>k. (k, None) \<in> set m) \<or>
      (\<exists>k e. (k, Some e) \<in> set m \<and> (\<exists>d \<in> set (dependencies e). entry_at m d = None))"
    unfolding broken_def Bex_def split_paired_Ex split_option_ex by auto
  then show ?thesis unfolding none entry_at_mem [OF assms, symmetric] by blast
qed

text \<open>
  C5. Hydration inverts the dependencies. On any entry map \<open>hydrateState\<close> succeeds exactly when
  no property is \<open>undefined\<close> and every dependency exists; the result then has the same entries,
  each with the identifiers of precisely the entries that depend on it, one per occurrence.
\<close>

theorem hydration_lists_dependents:
  assumes "obj_ok m"
  shows "case hydrateState m of
      Inl err \<Rightarrow> (\<exists>k \<in> set (obj_keys m). entry_at m k = None) \<or>
        (\<exists>k e. entry_at m k = Some e \<and> (\<exists>d \<in> set (dependencies e). entry_at m d = None))
    | Inr h \<Rightarrow> (\<forall>k \<in> set (obj_keys m). entry_at m k \<noteq> None) \<and>
        (\<forall>k e. entry_at m k = Some e \<longrightarrow> (\<forall>d \<in> set (dependencies e). entry_at m d \<noteq> None)) \<and>
        (\<forall>k. case entry_at m k of
           None \<Rightarrow> obj_get h k = None
         | Some e \<Rightarrow> \<exists>ds. obj_get h k = Some (hydrated e ds) \<and>
             set ds = {i. \<exists>f. entry_at m i = Some f \<and> k \<in> set (dependencies f)})"
  using hydrateState_result [OF assms] broken_iff [OF assms] set_entry_links [OF assms]
  by (simp split: sum.splits option.splits) (force simp: set_dependents_in)

definition sample_entry :: "string \<Rightarrow> string list \<Rightarrow> (nat, nat) entry_state" where
  "sample_entry k ds = \<lparr>entry_type = ''service'', entryId = k, dependencies = ds,
     connections = None, entry_partial = None, parameters = 0, entry_result = None\<rparr>"

definition sample_map :: "(nat, nat) entry_states" where
  "sample_map = [(''a'', Some (sample_entry ''a'' [])), (''b'', Some (sample_entry ''b'' [''a''])),
     (''c'', Some (sample_entry ''c'' [''a'']))]"

lemma sample_map_valid: "valid_map sample_map"
  by (simp add: valid_map_def obj_ok_def sample_map_def validateEntries_def sample_entry_def
      entry_at_def obj_get_def)

theorem hydration_lists_dependents_witness:
  "obj_ok sample_map \<and>
   (\<exists>h e ds. hydrateState sample_map = Inr h \<and> obj_get h ''a'' = Some (hydrated e ds) \<and>
     set ds = {i. \<exists>f. entry_at sample_map i = Some f \<and> ''a'' \<in> set (dependencies f)})"
proof -
  have ok: "obj_ok sample_map" using sample_map_valid by (simp add: valid_map_def)
  have at: "entry_at sample_map ''a'' = Some (sample_entry ''a'' [])"
    by (simp add: entry_at_def obj_get_def sample_map_def)
  have "isl (hydrateState sample_map) = False" by code_simp
  then obtain h where h: "hydrateState sample_map = Inr h" by (cases "hydrateState sample_map") auto
  from hydration_lists_dependents [OF ok] h at ok show ?thesis
    by (force split: option.splits)
qed

theorem link_keeps_map_valid_witness:
  "\<exists>m'. linkEntryDependency (\<lambda>x y. if x = y then 0 else 1) sample_map ''c'' ''b'' = Inr m' \<and>
     validateEntries m' = Inr ()"
proof -
  have c: "entry_at sample_map ''c'' = Some (sample_entry ''c'' [''a''])"
    and b: "entry_at sample_map ''b'' = Some (sample_entry ''b'' [''a''])"
    by (simp_all add: entry_at_def obj_get_def sample_map_def)
  show ?thesis
    using link_keeps_map_valid [OF sample_map_valid c b, of "\<lambda>x y. if x = y then 0 else 1"]
    by (auto simp: sample_entry_def split: sum.splits)
qed

end
