(* ===== verification/Layered_Order.thy ===== *)
theory Layered_Order
  imports Ez4_Prelude
begin

text \<open>
  Layered topological ordering, the contract of the two loops of \<open>planSteps\<close>. Each round takes
  every node that is not visited and whose needs are visited, gives the whole round one order
  number, and marks it visited. What a round must return is the law of the locale \<open>layering\<close>;
  the lemmas in it say which nodes the rounds reach and in which order.
\<close>

section \<open>Rounds\<close>

definition ready :: "('n \<Rightarrow> 'k) \<Rightarrow> ('n \<Rightarrow> 'k list) \<Rightarrow> 'n list \<Rightarrow> 'k set \<Rightarrow> 'n list" where
  "ready key needs ns v = filter (\<lambda>n. key n \<notin> v \<and> set (needs n) \<subseteq> v) ns"

fun layers :: "('n \<Rightarrow> 'k) \<Rightarrow> ('n \<Rightarrow> 'k list) \<Rightarrow> 'n list \<Rightarrow> 'k set \<Rightarrow> 'n list list \<Rightarrow> bool" where
  "layers key needs ns v [] = (ready key needs ns v = [])"
| "layers key needs ns v (l # ls) =
     (l = ready key needs ns v \<and> l \<noteq> [] \<and> layers key needs ns (v \<union> key ` set l) ls)"

text \<open>The keys of the rounds with the order number of their round.\<close>

fun numbered :: "('n \<Rightarrow> 'k) \<Rightarrow> nat \<Rightarrow> 'n list list \<Rightarrow> ('k \<times> nat) list" where
  "numbered key i [] = []"
| "numbered key i (l # ls) = map (\<lambda>n. (key n, i)) l @ numbered key (Suc i) ls"

definition need_edges :: "('n \<Rightarrow> 'k) \<Rightarrow> ('n \<Rightarrow> 'k list) \<Rightarrow> 'n list \<Rightarrow> ('k \<times> 'k) set" where
  "need_edges key needs ns = {(d, key n) | d n. n \<in> set ns \<and> d \<in> set (needs n)}"

lemma map_fst_numbered: "map fst (numbered key i ls) = map key (concat ls)"
  by (induction ls arbitrary: i) (simp_all add: comp_def)

lemma numbered_bounds: "(k, j) \<in> set (numbered key i ls) \<Longrightarrow> i \<le> j \<and> j < i + length ls"
  by (induction ls arbitrary: i) fastforce+

lemma layers_distinct:
  assumes "distinct (map key ns)" and "layers key needs ns v ls"
  shows "distinct (map key (concat ls)) \<and> key ` set (concat ls) \<inter> v = {} \<and> set (concat ls) \<subseteq> set ns"
  using assms(2)
proof (induction ls arbitrary: v)
  case Nil
  then show ?case by simp
next
  case (Cons l ls)
  have "distinct (map key l)" "key ` set l \<inter> v = {}" "set l \<subseteq> set ns"
    using Cons.prems assms(1) by (auto simp: ready_def distinct_map_filter)
  moreover have "layers key needs ns (v \<union> key ` set l) ls" using Cons.prems by auto
  note Cons.IH [OF this]
  ultimately show ?case by (simp add: image_Un) blast
qed

lemma numbered_layers_orders:
  "layers key needs ns v ls \<Longrightarrow> snd ` set (numbered key i ls) = {i..<i + length ls}"
proof (induction ls arbitrary: v i)
  case (Cons l ls)
  have "layers key needs ns (v \<union> key ` set l) ls" and "l \<noteq> []" using Cons.prems by auto
  moreover from Cons.IH [OF this(1)] have "snd ` set (numbered key (Suc i) ls) = {Suc i..<Suc i + length ls}" .
  ultimately have "snd ` set (numbered key i (l # ls)) = insert i {Suc i..<Suc i + length ls}"
    by (simp add: image_Un image_image image_constant_conv)
  then show ?case by auto
qed simp

lemma layers_ordered:
  assumes "layers key needs ns v ls" and "distinct (map key ns)"
    and "n \<in> set ns" and "(key n, i) \<in> set (numbered key ord ls)" and "d \<in> set (needs n)"
  shows "d \<in> v \<or> (\<exists>j < i. (d, j) \<in> set (numbered key ord ls))"
  using assms
proof (induction ls arbitrary: v ord)
  case Nil
  then show ?case by simp
next
  case (Cons l ls)
  have l: "l = ready key needs ns v" and rest: "layers key needs ns (v \<union> key ` set l) ls"
    using Cons.prems(1) by auto
  show ?case
  proof (cases "key n \<in> key ` set l")
    case True
    then obtain n' where "n' \<in> set l" "key n' = key n" by auto
    with Cons.prems(2,3) l have "n \<in> set l"
      by (metis (no_types, lifting) distinct_map filter_is_subset inj_onD ready_def subsetD)
    then show ?thesis using Cons.prems(5) l by (auto simp: ready_def)
  next
    case False
    then have at: "(key n, i) \<in> set (numbered key (Suc ord) ls)" using Cons.prems(4) by auto
    from Cons.IH [OF rest Cons.prems(2,3) at Cons.prems(5)]
    consider "d \<in> v" | n' where "n' \<in> set l" "d = key n'" 
      | j where "j < i" "(d, j) \<in> set (numbered key (Suc ord) ls)" by auto
    then show ?thesis
    proof cases
      case 2
      then have "(d, ord) \<in> set (numbered key ord (l # ls))" by auto
      moreover have "ord < i" using numbered_bounds [OF at] by simp
      ultimately show ?thesis by blast
    qed auto
  qed
qed

text \<open>The nodes that no round takes block each other.\<close>

lemma layers_stuck:
  assumes "layers key needs ns v ls" and "n \<in> set ns" and "key n \<notin> v \<union> key ` set (concat ls)"
  shows "\<not> set (needs n) \<subseteq> v \<union> key ` set (concat ls)"
  using assms
proof (induction ls arbitrary: v)
  case Nil
  then show ?case by (auto simp: ready_def filter_empty_conv)
next
  case (Cons l ls)
  have "layers key needs ns (v \<union> key ` set l) ls" using Cons.prems(1) by auto
  from Cons.IH [OF this Cons.prems(2)] Cons.prems(3) show ?case by (simp add: image_Un Un_assoc)
qed

lemma layers_complete:
  assumes "layers key needs ns v ls" and "wf (need_edges key needs ns)"
    and "\<forall>n \<in> set ns. set (needs n) \<subseteq> v \<union> key ` set ns"
  shows "key ` set ns \<subseteq> v \<union> key ` set (concat ls)"
proof -
  have "\<forall>n \<in> set ns. key n = k \<longrightarrow> k \<in> v \<union> key ` set (concat ls)" for k
    using assms(2)
  proof (induction k rule: wf_induct_rule)
    case (less k)
    show ?case
    proof (intro ballI impI)
      fix n assume n: "n \<in> set ns" "key n = k"
      have "d \<in> v \<union> key ` set (concat ls)" if "d \<in> set (needs n)" for d
      proof -
        have "(d, k) \<in> need_edges key needs ns" using n that by (auto simp: need_edges_def)
        with less have "\<forall>n \<in> set ns. key n = d \<longrightarrow> d \<in> v \<union> key ` set (concat ls)" by blast
        with assms(3) n that show ?thesis by blast
      qed
      then show "k \<in> v \<union> key ` set (concat ls)"
        using layers_stuck [OF assms(1) n(1)] n(2) by blast
    qed
  qed
  then show ?thesis by blast
qed

lemma layers_acyclic:
  assumes "layers key needs ns {} ls" and "distinct (map key ns)"
    and "key ` set ns \<subseteq> key ` set (concat ls)"
  shows "acyclic (need_edges key needs ns)"
proof -
  define rank where "rank k = (THE i. (k, i) \<in> set (numbered key 0 ls))" for k
  have dist: "distinct (map fst (numbered key 0 ls))"
    using layers_distinct [OF assms(2,1)] by (simp add: map_fst_numbered)
  have rank: "rank k = i" if "(k, i) \<in> set (numbered key 0 ls)" for k i
    unfolding rank_def using that eq_key_imp_eq_value [OF dist] by blast
  have "rank d < rank k" if "(d, k) \<in> need_edges key needs ns" for d k
  proof -
    from that obtain n where n: "n \<in> set ns" "k = key n" "d \<in> set (needs n)"
      by (auto simp: need_edges_def)
    with assms(3) have "k \<in> set (map fst (numbered key 0 ls))" by (auto simp: map_fst_numbered)
    then obtain i where i: "(key n, i) \<in> set (numbered key 0 ls)" using n by auto
    from layers_ordered [OF assms(1,2) n(1) i n(3)]
    obtain j where "j < i" "(d, j) \<in> set (numbered key 0 ls)" by auto
    with rank i n(2) show ?thesis by metis
  qed
  then have "need_edges key needs ns \<subseteq> measure rank" by auto
  then show ?thesis by (meson acyclic_subset wf_acyclic wf_measure)
qed

lemma layers_unique: "layers key needs ns v ls \<Longrightarrow> layers key needs ns v ls' \<Longrightarrow> ls = ls'"
proof (induction ls arbitrary: v ls')
  case Nil
  then show ?case by (cases ls') auto
next
  case (Cons l ls)
  then show ?case by (cases ls') auto
qed

section \<open>The contract of a round\<close>

locale layering =
  fixes key :: "'n \<Rightarrow> string" and needs :: "'n \<Rightarrow> string list"
    and pending :: "'n list \<Rightarrow> string list \<Rightarrow> 'n list"
  assumes pending_ready: "pending ns visit = ready key needs ns (set visit)"
begin

lemma pending_less:
  assumes "pending ns visit \<noteq> []" and "set visit' = set visit \<union> key ` set (pending ns visit)"
  shows "unseen (map key ns) visit' < unseen (map key ns) visit"
proof -
  from assms(1) obtain n where "n \<in> set (pending ns visit)" by (cases "pending ns visit") auto
  then show ?thesis
    using assms(2) by (intro unseen_less [of "key n"]) (auto simp: pending_ready ready_def)
qed

lemma layers_next:
  assumes "pending ns visit \<noteq> []" and "set visit' = set visit \<union> key ` set (pending ns visit)"
    and "layers key needs ns (set visit') ls"
  shows "layers key needs ns (set visit) (pending ns visit # ls)"
  using assms by (simp add: pending_ready)

lemma layers_stop: "pending ns visit = [] \<Longrightarrow> layers key needs ns (set visit) []"
  by (simp add: pending_ready)

end

end
