(* ===== verification/Js_Value.thy ===== *)
theory Js_Value
  imports Complex_Main Ez4_Prelude
begin

text \<open>
  The JavaScript values the utility functions inspect, and the type checks of
  \<open>foundation/utils/src\<close> (\<open>object/check.ts\<close>, \<open>array/check.ts\<close>, \<open>common/check.ts\<close>,
  \<open>number/check.ts\<close>, \<open>string/check.ts\<close>, \<open>boolean/check.ts\<close>).

  An array, an object or a function carries the identity of its reference, so that the strict
  equality of the source, which compares references, is the strict equality of the model. A
  number is NaN, an infinity or a rational (every finite double is one); strings are lists of
  characters. An object records whether its prototype is \<open>Object.prototype\<close>; its properties
  are listed in enumeration order. Sparse arrays, accessors and symbols are left out.
\<close>

datatype js_number = NaN | PosInfinity | NegInfinity | Fin rat

datatype js_value =
    Undefined
  | Null
  | Bool bool
  | Num js_number
  | Str string
  | Arr nat "js_value list"
  | Obj nat bool "(string \<times> js_value) list"
  | Fun nat

section \<open>Reading properties and elements\<close>

definition js_prop :: "(string \<times> js_value) list \<Rightarrow> string \<Rightarrow> js_value" where
  "js_prop fields k = (case obj_get fields k of None \<Rightarrow> Undefined | Some v \<Rightarrow> v)"

definition js_elem :: "js_value list \<Rightarrow> nat \<Rightarrow> js_value" where
  "js_elem xs i = (if i < length xs then xs ! i else Undefined)"

section \<open>Strict equality\<close>

fun strict_equal :: "js_value \<Rightarrow> js_value \<Rightarrow> bool" where
  "strict_equal Undefined Undefined = True"
| "strict_equal Null Null = True"
| "strict_equal (Bool a) (Bool b) = (a = b)"
| "strict_equal (Num a) (Num b) = (a \<noteq> NaN \<and> a = b)"
| "strict_equal (Str a) (Str b) = (a = b)"
| "strict_equal (Arr i _) (Arr j _) = (i = j)"
| "strict_equal (Obj i _ _) (Obj j _ _) = (i = j)"
| "strict_equal (Fun i) (Fun j) = (i = j)"
| "strict_equal _ _ = False"

section \<open>Type checks\<close>

fun isAnyObject :: "js_value \<Rightarrow> bool" where
  "isAnyObject (Obj _ _ _) = True"
| "isAnyObject _ = False"

fun isPlainObject :: "js_value \<Rightarrow> bool" where
  "isPlainObject (Obj _ plain _) = plain"
| "isPlainObject _ = False"

fun isAnyArray :: "js_value \<Rightarrow> bool" where
  "isAnyArray (Arr _ _) = True"
| "isAnyArray _ = False"

definition isNullish :: "js_value \<Rightarrow> bool" where
  "isNullish v = (v = Undefined \<or> v = Null)"

definition isNotNullish :: "js_value \<Rightarrow> bool" where
  "isNotNullish v = (v \<noteq> Undefined \<and> v \<noteq> Null)"

fun isAnyNumber :: "js_value \<Rightarrow> bool" where
  "isAnyNumber (Num n) = (n \<noteq> NaN)"
| "isAnyNumber _ = False"

fun isAnyString :: "js_value \<Rightarrow> bool" where
  "isAnyString (Str _) = True"
| "isAnyString _ = False"

fun isAnyBoolean :: "js_value \<Rightarrow> bool" where
  "isAnyBoolean (Bool _) = True"
| "isAnyBoolean _ = False"

fun is_function :: "js_value \<Rightarrow> bool" where
  "is_function (Fun _) = True"
| "is_function _ = False"

text \<open>Truthiness: \<open>undefined\<close>, \<open>null\<close>, \<open>false\<close>, \<open>0\<close>, \<open>NaN\<close> and \<open>''\<close> are falsy.\<close>

fun truthy :: "js_value \<Rightarrow> bool" where
  "truthy Undefined = False"
| "truthy Null = False"
| "truthy (Bool b) = b"
| "truthy (Num n) = (n \<noteq> NaN \<and> n \<noteq> Fin 0)"
| "truthy (Str s) = (s \<noteq> [])"
| "truthy (Arr _ _) = True"
| "truthy (Obj _ _ _) = True"
| "truthy (Fun _) = True"

section \<open>Sizes and subterms\<close>

lemma js_prop_size:
  "js_prop fields k \<noteq> Undefined \<Longrightarrow> size (js_prop fields k) < size_list (size_prod (\<lambda>_. 0) size) fields + 1"
proof -
  assume "js_prop fields k \<noteq> Undefined"
  then obtain v where v: "obj_get fields k = Some v" "js_prop fields k = v"
    by (auto simp: js_prop_def split: option.splits)
  then have "(k, v) \<in> set fields" by (auto simp: obj_get_def dest: map_of_SomeD)
  then have "size_prod (\<lambda>_. 0) size (k, v) \<le> size_list (size_prod (\<lambda>_. 0) size) fields"
    by (rule size_list_estimation') simp
  then show ?thesis using v by simp
qed

text \<open>All the values below a value, itself included.\<close>

fun subvalues :: "js_value \<Rightarrow> js_value list" where
  "subvalues (Arr i xs) = Arr i xs # concat (map subvalues xs)"
| "subvalues (Obj i p fs) = Obj i p fs # concat (map (\<lambda>f. subvalues (snd f)) fs)"
| "subvalues v = [v]"

lemma subvalues_self [simp]: "v \<in> set (subvalues v)"
  by (cases v) auto

lemma subvalues_trans: "w \<in> set (subvalues v) \<Longrightarrow> set (subvalues w) \<subseteq> set (subvalues v)"
  by (induction v rule: subvalues.induct) fastforce+

lemma subvalues_elem: "x \<in> set xs \<Longrightarrow> x \<in> set (subvalues (Arr i xs))"
  using subvalues_self by fastforce

lemma subvalues_field: "(k, x) \<in> set fs \<Longrightarrow> x \<in> set (subvalues (Obj i p fs))"
  using subvalues_self by fastforce

end
