(* ===== verification/Object_Equal.thy ===== *)
theory Object_Equal
  imports Js_Value
begin

text \<open>
  Deep equality of \<open>foundation/utils/src/object/equal.ts\<close>, \<open>array/equal.ts\<close> and
  \<open>common/object.ts\<close>, with the property selection (\<open>include\<close> and \<open>exclude\<close> trees and the
  depth limit) that the deep operations on objects share.
\<close>

section \<open>Selecting properties\<close>

text \<open>\<open>PartialProperties\<close>: a flag per property, or a tree of flags for a nested object.\<close>

datatype partial_properties = Flag bool | Props "(string \<times> partial_properties) list"

type_synonym states = "(string \<times> partial_properties) list"

record select_options =
  sel_depth :: "int option"
  sel_exclude :: "states option"
  sel_include :: "states option"

definition no_options :: select_options where
  "no_options = \<lparr>sel_depth = None, sel_exclude = None, sel_include = None\<rparr>"

datatype js_error = TypeError string | Thrown js_value

definition isInclude :: "select_options \<Rightarrow> bool" where
  "isInclude opts = (sel_include opts \<noteq> None)"

definition allStates :: "select_options \<Rightarrow> states" where
  "allStates opts =
     (case sel_include opts of Some st \<Rightarrow> st
      | None \<Rightarrow> (case sel_exclude opts of Some st \<Rightarrow> st | None \<Rightarrow> []))"

text \<open>\<open>(isInclude && !keyState) || (!isInclude && keyState === true)\<close>\<close>

definition skipped :: "bool \<Rightarrow> partial_properties option \<Rightarrow> bool" where
  "skipped incl keyState =
     (if incl then keyState = None \<or> keyState = Some (Flag False) else keyState = Some (Flag True))"

text \<open>The selection handed to a nested call: the tree of the key, or none.\<close>

definition nested_selection :: "bool \<Rightarrow> partial_properties option \<Rightarrow> bool \<times> states" where
  "nested_selection incl keyState =
     (case keyState of Some (Props st) \<Rightarrow> (incl, st) | _ \<Rightarrow> (False, []))"

definition depth_left :: "int option \<Rightarrow> bool" where
  "depth_left d = (case d of None \<Rightarrow> True | Some n \<Rightarrow> n > 0)"

definition depth_pred :: "int option \<Rightarrow> int option" where
  "depth_pred d = map_option (\<lambda>n. n - 1) d"

definition all_keys :: "(string \<times> js_value) list \<Rightarrow> (string \<times> js_value) list \<Rightarrow> string list" where
  "all_keys target source = set_of_list (obj_keys target @ obj_keys source)"

section \<open>Equality\<close>

abbreviation fields_size :: "(string \<times> js_value) list \<Rightarrow> nat" where
  "fields_size fs \<equiv> size_list (size_prod (\<lambda>_. 0) size) fs"

fun equal_measure ::
  "(js_value list \<times> js_value list + js_value \<times> js_value) +
   (bool \<times> states \<times> int option \<times> (string \<times> js_value) list \<times> (string \<times> js_value) list +
    bool \<times> partial_properties option \<times> int option \<times> js_value \<times> js_value) \<Rightarrow> nat"
where
  "equal_measure (Inl (Inl (ts, ss))) = 2 * (size_list size ts + size_list size ss) + 1"
| "equal_measure (Inl (Inr (t, s))) = 2 * (size t + size s)"
| "equal_measure (Inr (Inl (_, _, _, tf, sf))) = 2 * (fields_size tf + fields_size sf) + 1"
| "equal_measure (Inr (Inr (_, _, _, t, s))) = 2 * (size t + size s)"

lemma js_prop_size_le: "size (js_prop fs k) \<le> fields_size fs"
  using js_prop_size [of fs k] by (cases "js_prop fs k = Undefined") auto

function (sequential)
  equalArray :: "js_value list \<Rightarrow> js_value list \<Rightarrow> bool" and
  equalElement :: "js_value \<Rightarrow> js_value \<Rightarrow> bool" and
  equalFields :: "bool \<Rightarrow> states \<Rightarrow> int option \<Rightarrow>
    (string \<times> js_value) list \<Rightarrow> (string \<times> js_value) list \<Rightarrow> bool" and
  equalProperty :: "bool \<Rightarrow> partial_properties option \<Rightarrow> int option \<Rightarrow> js_value \<Rightarrow> js_value \<Rightarrow> bool"
where
  "equalArray [] [] = True"
| "equalArray (t # ts) (s # ss) = (equalElement t s \<and> equalArray ts ss)"
| "equalArray (t # ts) [] = (equalElement t Undefined \<and> equalArray ts [])"
| "equalArray [] (s # ss) = (equalElement Undefined s \<and> equalArray [] ss)"
| "equalElement t s =
     (case (t, s) of
        (Arr _ xs, Arr _ ys) \<Rightarrow> equalArray xs ys
      | (Obj _ _ tf, Obj _ _ sf) \<Rightarrow> equalFields False [] None tf sf
      | _ \<Rightarrow> strict_equal t s)"
| "equalFields incl st d tf sf =
     list_all (\<lambda>k. skipped incl (obj_get st k) \<or>
        equalProperty incl (obj_get st k) d (js_prop tf k) (js_prop sf k)) (all_keys tf sf)"
| "equalProperty incl keyState d t s =
     (if is_function t \<or> is_function s then True
      else if depth_left d then
        (case (t, s) of
           (Arr _ xs, Arr _ ys) \<Rightarrow> equalArray xs ys
         | (Obj _ _ tf, Obj _ _ sf) \<Rightarrow>
             equalFields (fst (nested_selection incl keyState)) (snd (nested_selection incl keyState))
               (depth_pred d) tf sf
         | _ \<Rightarrow> strict_equal t s)
      else strict_equal t s)"
  by pat_completeness auto

termination
proof (relation "measure equal_measure")
  fix incl :: bool and st :: states and d :: "int option"
    and tf sf :: "(string \<times> js_value) list" and k :: string
  show "(Inr (Inr (incl, obj_get st k, d, js_prop tf k, js_prop sf k)),
         Inr (Inl (incl, st, d, tf, sf))) \<in> measure equal_measure"
    using js_prop_size_le [of tf k] js_prop_size_le [of sf k] by simp
qed auto

text \<open>
  \<open>deepEqualArray\<close> walks the indices up to the longer length, reading \<open>undefined\<close> past the end
  of the shorter array; \<open>deepEqualObject\<close> refuses \<open>include\<close> and \<open>exclude\<close> together.
\<close>

definition deepEqualArray :: "js_value list \<Rightarrow> js_value list \<Rightarrow> bool" where
  "deepEqualArray target source = equalArray target source"

definition deepEqualObject ::
  "(string \<times> js_value) list \<Rightarrow> (string \<times> js_value) list \<Rightarrow> select_options \<Rightarrow> js_error + bool" where
  "deepEqualObject target source opts =
     (if sel_include opts \<noteq> None \<and> sel_exclude opts \<noteq> None
      then Inl (TypeError ''Can't specify include and exclude for equality options together.'')
      else Inr (equalFields (isInclude opts) (allStates opts) (sel_depth opts) target source))"

text \<open>\<open>deepEqual\<close> throws the value \<open>false\<close> for operands of different kinds.\<close>

definition deepEqual :: "js_value \<Rightarrow> js_value \<Rightarrow> select_options \<Rightarrow> js_error + bool" where
  "deepEqual target source opts =
     (case (target, source) of
        (Arr _ xs, Arr _ ys) \<Rightarrow> Inr (deepEqualArray xs ys)
      | (Obj _ _ tf, Obj _ _ sf) \<Rightarrow> deepEqualObject tf sf opts
      | _ \<Rightarrow> Inl (Thrown (Bool False)))"

declare equalElement.simps [simp del] equalFields.simps [simp del] equalProperty.simps [simp del]

section \<open>Plain data\<close>

text \<open>Values without functions and without NaN, the ones that compare equal to themselves.\<close>

fun plain_data :: "js_value \<Rightarrow> bool" where
  "plain_data (Arr _ xs) = list_all plain_data xs"
| "plain_data (Obj _ _ fs) = list_all (\<lambda>f. plain_data (snd f)) fs"
| "plain_data (Num n) = (n \<noteq> NaN)"
| "plain_data (Fun _) = False"
| "plain_data _ = True"

lemma plain_data_prop: "list_all (\<lambda>f. plain_data (snd f)) fs \<Longrightarrow> plain_data (js_prop fs k)"
  by (auto simp: js_prop_def obj_get_def list_all_iff split: option.splits dest!: map_of_SomeD)

lemma plain_data_not_function: "plain_data v \<Longrightarrow> \<not> is_function v"
  by (cases v) auto

lemma strict_equal_refl: "plain_data v \<Longrightarrow> strict_equal v v"
  by (cases v) auto

lemma equal_refl_aux:
  shows "ts = ss \<Longrightarrow> list_all plain_data ts \<Longrightarrow> equalArray ts ss"
    and "t = s \<Longrightarrow> plain_data t \<Longrightarrow> equalElement t s"
    and "tf = sf \<Longrightarrow> list_all (\<lambda>f. plain_data (snd f)) tf \<Longrightarrow> equalFields incl st d tf sf"
    and "v = w \<Longrightarrow> plain_data v \<Longrightarrow> equalProperty incl ks d v w"
proof (induction ts ss and t s and incl st d tf sf and incl ks d v w
    rule: equalArray_equalElement_equalFields_equalProperty.induct)
  case (5 t s)
  then show ?case
    by (cases t) (auto simp: equalElement.simps intro: strict_equal_refl)
next
  case (6 incl st d tf sf)
  then show ?case
    by (auto simp: equalFields.simps list_all_iff plain_data_prop [unfolded list_all_iff])
next
  case (7 incl keyState d t s)
  then show ?case
    by (cases t) (auto simp: equalProperty.simps intro: strict_equal_refl)
qed auto

lemmas equal_refl = equal_refl_aux [OF refl]

end
