(* ===== verification/Object_Compare.thy ===== *)
theory Object_Compare
  imports Object_Equal
begin

text \<open>
  Deep comparison of \<open>foundation/utils/src/object/compare.ts\<close>, \<open>array/compare.ts\<close> and
  \<open>common/object.ts\<close>. The outcome of one key or one index does not depend on the others, so it
  is a function of the two values; the loop over the keys then folds the outcomes into the
  running comparison, where a removed and a created key with similar names become a rename.
\<close>

section \<open>Comparison results\<close>

datatype change =
    Value js_value
  | ArrayChange array_comparison
  | ObjectChange object_comparison
and array_comparison =
    ArrayComparison (ac_counts: int)
      (ac_create: "(nat \<times> js_value) list option")
      (ac_update: "(nat \<times> change) list option")
      (ac_remove: "(nat \<times> js_value) list option")
and object_comparison =
    ObjectComparison (oc_counts: int)
      (oc_nested: "(string \<times> object_comparison) list option")
      (oc_rename: "(string \<times> string) list option")
      (oc_create: "(string \<times> js_value) list option")
      (oc_update: "(string \<times> change) list option")
      (oc_remove: "(string \<times> js_value) list option")

datatype outcome =
    is_Same: Same
  | is_Created: Created js_value
  | is_Removed: Removed js_value
  | is_Updated: Updated change
  | is_Nested: Nested object_comparison

record compare_options = select_options +
  onCompareName :: "(string \<Rightarrow> string \<Rightarrow> bool) option"
  onRename :: "(js_value \<Rightarrow> js_value \<Rightarrow> bool) option"

definition no_compare_options :: compare_options where
  "no_compare_options =
     \<lparr>sel_depth = None, sel_exclude = None, sel_include = None, onCompareName = None, onRename = None\<rparr>"

record compare_state =
  toCreateKeys :: "string list"
  toRemoveKeys :: "string list"
  nested :: "(string \<times> object_comparison) list"
  toRename :: "(string \<times> string) list"
  toCreate :: "(string \<times> js_value) list"
  toUpdate :: "(string \<times> change) list"
  toRemove :: "(string \<times> js_value) list"
  n_create :: int
  n_update :: int
  n_remove :: int
  n_rename :: int
  n_nested :: int

definition compare_start :: compare_state where
  "compare_start =
     \<lparr>toCreateKeys = [], toRemoveKeys = [], nested = [], toRename = [], toCreate = [], toUpdate = [],
      toRemove = [], n_create = 0, n_update = 0, n_remove = 0, n_rename = 0, n_nested = 0\<rparr>"

section \<open>Similar names\<close>

fun str_includes :: "string \<Rightarrow> string \<Rightarrow> bool" where
  "str_includes [] sub = (sub = [])"
| "str_includes (c # s) sub = (take (length sub) (c # s) = sub \<or> str_includes s sub)"

definition similar :: "(string \<Rightarrow> string \<Rightarrow> bool) option \<Rightarrow> string \<Rightarrow> string \<Rightarrow> bool" where
  "similar predicate name key =
     (case predicate of Some p \<Rightarrow> p name key | None \<Rightarrow> str_includes key name \<or> str_includes name key)"

text \<open>The first similar key, and the keys left after it is taken out.\<close>

fun getSimilarName ::
  "(string \<Rightarrow> string \<Rightarrow> bool) option \<Rightarrow> string \<Rightarrow> string list \<Rightarrow> string option \<times> string list" where
  "getSimilarName predicate name [] = (None, [])"
| "getSimilarName predicate name (key # keys) =
     (if similar predicate name key then (Some key, keys)
      else (let (found, rest) = getSimilarName predicate name keys in (found, key # rest)))"

definition renamed :: "(js_value \<Rightarrow> js_value \<Rightarrow> bool) option \<Rightarrow> string option \<Rightarrow>
    js_value \<Rightarrow> js_value \<Rightarrow> bool" where
  "renamed rename found target source =
     (found \<noteq> None \<and> found \<noteq> Some [] \<and> (case rename of None \<Rightarrow> True | Some f \<Rightarrow> f target source))"

section \<open>Recording an outcome\<close>

definition record_create ::
  "compare_options \<Rightarrow> string \<Rightarrow> js_value \<Rightarrow> compare_state \<Rightarrow> compare_state" where
  "record_create opts key targetValue st =
     (let (found, removeKeys) = getSimilarName (onCompareName opts) key (toRemoveKeys st);
          removeKey = (case found of Some k \<Rightarrow> k | None \<Rightarrow> []);
          st' = st\<lparr>toCreateKeys := toCreateKeys st @ [key], toRemoveKeys := removeKeys\<rparr>
      in if renamed (onRename opts) found targetValue (js_prop (toRemove st) removeKey) then
           st'\<lparr>toRemove := obj_delete removeKey (toRemove st), n_remove := n_remove st - 1,
               toRename := obj_set removeKey key (toRename st), n_rename := n_rename st + 1\<rparr>
         else st'\<lparr>toCreate := obj_set key targetValue (toCreate st), n_create := n_create st + 1\<rparr>)"

definition record_remove ::
  "compare_options \<Rightarrow> string \<Rightarrow> js_value \<Rightarrow> compare_state \<Rightarrow> compare_state" where
  "record_remove opts key sourceValue st =
     (let (found, createKeys) = getSimilarName (onCompareName opts) key (toCreateKeys st);
          createKey = (case found of Some k \<Rightarrow> k | None \<Rightarrow> []);
          st' = st\<lparr>toRemoveKeys := toRemoveKeys st @ [key], toCreateKeys := createKeys\<rparr>
      in if renamed (onRename opts) found (js_prop (toCreate st) createKey) sourceValue then
           st'\<lparr>toCreate := obj_delete createKey (toCreate st), n_create := n_create st - 1,
               toRename := obj_set key createKey (toRename st), n_rename := n_rename st + 1\<rparr>
         else st'\<lparr>toRemove := obj_set key sourceValue (toRemove st), n_remove := n_remove st + 1\<rparr>)"

fun record_outcome :: "compare_options \<Rightarrow> string \<Rightarrow> outcome \<Rightarrow> compare_state \<Rightarrow> compare_state" where
  "record_outcome opts key Same st = st"
| "record_outcome opts key (Created v) st = record_create opts key v st"
| "record_outcome opts key (Removed v) st = record_remove opts key v st"
| "record_outcome opts key (Updated c) st =
     st\<lparr>toUpdate := obj_set key c (toUpdate st), n_update := n_update st + 1\<rparr>"
| "record_outcome opts key (Nested c) st =
     st\<lparr>nested := obj_set key c (nested st), n_nested := n_nested st + 1\<rparr>"

definition when_counted :: "int \<Rightarrow> 'a \<Rightarrow> 'a option" where
  "when_counted n x = (if n \<noteq> 0 then Some x else None)"

definition total_counts :: "compare_state \<Rightarrow> int" where
  "total_counts st = n_create st + n_update st + n_remove st + n_rename st + n_nested st"

definition compare_finish :: "compare_state \<Rightarrow> object_comparison" where
  "compare_finish st =
     ObjectComparison (total_counts st)
       (when_counted (n_nested st) (nested st)) (when_counted (n_rename st) (toRename st))
       (when_counted (n_create st) (toCreate st)) (when_counted (n_update st) (toUpdate st))
       (when_counted (n_remove st) (toRemove st))"

section \<open>Array results\<close>

definition created_at :: "outcome list \<Rightarrow> (nat \<times> js_value) list" where
  "created_at os = concat (map (\<lambda>(i, out). case out of Created v \<Rightarrow> [(i, v)] | _ \<Rightarrow> []) (enumerate 0 os))"

definition removed_at :: "outcome list \<Rightarrow> (nat \<times> js_value) list" where
  "removed_at os = concat (map (\<lambda>(i, out). case out of Removed v \<Rightarrow> [(i, v)] | _ \<Rightarrow> []) (enumerate 0 os))"

definition updated_at :: "outcome list \<Rightarrow> (nat \<times> change) list" where
  "updated_at os = concat (map (\<lambda>(i, out). case out of Updated c \<Rightarrow> [(i, c)] | _ \<Rightarrow> []) (enumerate 0 os))"

definition array_result :: "outcome list \<Rightarrow> array_comparison" where
  "array_result os =
     (let c = created_at os; r = removed_at os; u = updated_at os
      in ArrayComparison (int (length c) + int (length r) + int (length u))
           (when_counted (int (length c)) c) (when_counted (int (length u)) u)
           (when_counted (int (length r)) r))"

section \<open>The comparison\<close>

fun compare_measure ::
  "(js_value list \<times> js_value list + js_value \<times> js_value) +
   (compare_options \<times> bool \<times> states \<times> int option \<times>
      (string \<times> js_value) list \<times> (string \<times> js_value) list +
    compare_options \<times> bool \<times> partial_properties option \<times> int option \<times> js_value \<times> js_value) \<Rightarrow> nat"
where
  "compare_measure (Inl (Inl (ts, ss))) = 2 * (size_list size ts + size_list size ss) + 1"
| "compare_measure (Inl (Inr (t, s))) = 2 * (size t + size s)"
| "compare_measure (Inr (Inl (_, _, _, _, tf, sf))) = 2 * (fields_size tf + fields_size sf) + 1"
| "compare_measure (Inr (Inr (_, _, _, _, t, s))) = 2 * (size t + size s)"

function (sequential)
  compareArray :: "js_value list \<Rightarrow> js_value list \<Rightarrow> outcome list" and
  compareElement :: "js_value \<Rightarrow> js_value \<Rightarrow> outcome" and
  compareFields :: "compare_options \<Rightarrow> bool \<Rightarrow> states \<Rightarrow> int option \<Rightarrow>
    (string \<times> js_value) list \<Rightarrow> (string \<times> js_value) list \<Rightarrow> object_comparison" and
  compareProperty :: "compare_options \<Rightarrow> bool \<Rightarrow> partial_properties option \<Rightarrow> int option \<Rightarrow>
    js_value \<Rightarrow> js_value \<Rightarrow> outcome"
where
  "compareArray [] [] = []"
| "compareArray (t # ts) (s # ss) = compareElement t s # compareArray ts ss"
| "compareArray (t # ts) [] = compareElement t Undefined # compareArray ts []"
| "compareArray [] (s # ss) = compareElement Undefined s # compareArray [] ss"
| "compareElement t s =
     (if strict_equal t s then Same
      else if t \<noteq> Undefined \<and> s = Undefined then Created t
      else if t = Undefined \<and> s \<noteq> Undefined then Removed s
      else (case (t, s) of
          (Arr _ xs, Arr _ ys) \<Rightarrow>
            (let changes = array_result (compareArray xs ys)
             in if ac_counts changes > 0 then Updated (ArrayChange changes) else Same)
        | (Obj _ _ tf, Obj _ _ sf) \<Rightarrow>
            (let changes = compareFields no_compare_options False [] None tf sf
             in if oc_counts changes \<noteq> 0 then Updated (ObjectChange changes) else Same)
        | _ \<Rightarrow> Updated (Value t)))"
| "compareFields opts incl st d tf sf =
     compare_finish (fold (\<lambda>k acc.
        if skipped incl (obj_get st k) then acc
        else record_outcome opts k
               (compareProperty opts incl (obj_get st k) d (js_prop tf k) (js_prop sf k)) acc)
       (all_keys tf sf) compare_start)"
| "compareProperty opts incl keyState d t s =
     (if strict_equal t s \<or> is_function t then Same
      else if t \<noteq> Undefined \<and> s = Undefined then Created t
      else if t = Undefined \<and> s \<noteq> Undefined then Removed s
      else if depth_left d then
        (case (t, s) of
           (Arr _ xs, Arr _ ys) \<Rightarrow>
             (let changes = array_result (compareArray xs ys)
              in if ac_counts changes > 0 then Updated (ArrayChange changes) else Same)
         | (Obj _ _ tf, Obj _ _ sf) \<Rightarrow>
             (let changes = compareFields opts (fst (nested_selection incl keyState))
                  (snd (nested_selection incl keyState)) (depth_pred d) tf sf
              in if oc_counts changes > 0 then Nested changes else Same)
         | _ \<Rightarrow> Updated (Value t))
      else Updated (Value t))"
  by pat_completeness auto
termination
proof (relation "measure compare_measure")
  fix opts :: compare_options and incl :: bool and st :: states and d :: "int option"
    and tf sf :: "(string \<times> js_value) list" and k :: string
  show "(Inr (Inr (opts, incl, obj_get st k, d, js_prop tf k, js_prop sf k)),
         Inr (Inl (opts, incl, st, d, tf, sf))) \<in> measure compare_measure"
    using js_prop_size_le [of tf k] js_prop_size_le [of sf k] by simp
qed auto

declare compareElement.simps [simp del] compareFields.simps [simp del] compareProperty.simps [simp del]

definition deepCompareArray :: "js_value list \<Rightarrow> js_value list \<Rightarrow> array_comparison" where
  "deepCompareArray target source = array_result (compareArray target source)"

definition deepCompareObject ::
  "(string \<times> js_value) list \<Rightarrow> (string \<times> js_value) list \<Rightarrow> compare_options \<Rightarrow>
   js_error + object_comparison" where
  "deepCompareObject target source opts =
     (if sel_include opts \<noteq> None \<and> sel_exclude opts \<noteq> None
      then Inl (TypeError ''Can't specify include and exclude for compare options together.'')
      else Inr (compareFields opts (isInclude (select_options.truncate opts))
                  (allStates (select_options.truncate opts)) (sel_depth opts) target source))"

definition deepCompare ::
  "js_value \<Rightarrow> js_value \<Rightarrow> compare_options \<Rightarrow> js_error + array_comparison + object_comparison" where
  "deepCompare target source opts =
     (case (target, source) of
        (Arr _ xs, Arr _ ys) \<Rightarrow> Inr (Inl (deepCompareArray xs ys))
      | (Obj _ True tf, Obj _ True sf) \<Rightarrow> map_sum id Inr (deepCompareObject tf sf opts)
      | _ \<Rightarrow> Inl (TypeError ''Both source and target must be either objects or arrays.''))"

section \<open>Counting differences\<close>

text \<open>
  A rename takes one off the created or removed keys and adds one to the renamed ones, so the
  total never decreases; and no rename can come first, because both lists of candidate keys
  are empty then.
\<close>

definition counts_inv :: "compare_state \<Rightarrow> bool" where
  "counts_inv st = (0 \<le> total_counts st \<and>
     (total_counts st = 0 \<longrightarrow> toCreateKeys st = [] \<and> toRemoveKeys st = []))"

lemma record_create_counts:
  "counts_inv st \<Longrightarrow> counts_inv (record_create opts k v st) \<and> 0 < total_counts (record_create opts k v st)"
  by (cases "getSimilarName (onCompareName opts) k (toRemoveKeys st)")
    (auto simp: counts_inv_def record_create_def total_counts_def renamed_def Let_def)

lemma record_remove_counts:
  "counts_inv st \<Longrightarrow> counts_inv (record_remove opts k v st) \<and> 0 < total_counts (record_remove opts k v st)"
  by (cases "getSimilarName (onCompareName opts) k (toCreateKeys st)")
    (auto simp: counts_inv_def record_remove_def total_counts_def renamed_def Let_def)

lemma record_outcome_counts:
  assumes "counts_inv st"
  shows "counts_inv (record_outcome opts k out st)"
    and "total_counts (record_outcome opts k out st) = 0 \<longleftrightarrow> total_counts st = 0 \<and> out = Same"
  using assms record_create_counts [OF assms, of opts k] record_remove_counts [OF assms, of opts k]
  by (cases out; fastforce simp: counts_inv_def total_counts_def)+

lemma fold_outcomes_counts:
  assumes "counts_inv st"
  shows "counts_inv (fold (\<lambda>k acc. if skip k then acc else record_outcome opts k (out k) acc) ks st) \<and>
    (total_counts (fold (\<lambda>k acc. if skip k then acc else record_outcome opts k (out k) acc) ks st) = 0
      \<longleftrightarrow> total_counts st = 0 \<and> (\<forall>k \<in> set ks. skip k \<or> out k = Same))"
  using assms
proof (induction ks arbitrary: st)
  case Nil
  then show ?case by simp
next
  case (Cons k ks)
  show ?case
  proof (cases "skip k")
    case True
    then show ?thesis using Cons by simp
  next
    case False
    with Cons.IH [OF record_outcome_counts(1) [OF Cons.prems]] record_outcome_counts(2) [OF Cons.prems]
    show ?thesis by auto
  qed
qed

lemma counts_inv_start: "counts_inv compare_start" "total_counts compare_start = 0"
  by (simp_all add: counts_inv_def total_counts_def compare_start_def)

lemma compareFields_counts:
  "oc_counts (compareFields opts incl st d tf sf) \<ge> 0"
  "oc_counts (compareFields opts incl st d tf sf) = 0 \<longleftrightarrow>
     (\<forall>k \<in> set (all_keys tf sf). skipped incl (obj_get st k) \<or>
        compareProperty opts incl (obj_get st k) d (js_prop tf k) (js_prop sf k) = Same)"
  using fold_outcomes_counts [OF counts_inv_start(1), of "\<lambda>k. skipped incl (obj_get st k)" opts
      "\<lambda>k. compareProperty opts incl (obj_get st k) d (js_prop tf k) (js_prop sf k)" "all_keys tf sf"]
    counts_inv_start(2)
  by (simp_all add: compareFields.simps compare_finish_def counts_inv_def)

lemma compareElement_not_nested: "compareElement t s \<noteq> Nested c"
  by (auto simp: compareElement.simps Let_def split: js_value.splits prod.splits)

lemma compareArray_all: "(\<And>t s. P (compareElement t s)) \<Longrightarrow> list_all P (compareArray ts ss)"
proof (induction ts arbitrary: ss)
  case Nil
  then show ?case by (induction ss) auto
next
  case (Cons t ts)
  then show ?case by (cases ss) auto
qed

lemma compareArray_not_nested: "Nested c \<notin> set (compareArray ts ss)"
  using compareArray_all [of "\<lambda>out. out \<noteq> Nested c" ts ss] compareElement_not_nested
  by (auto simp: list_all_iff)

lemma picked_at_empty:
  assumes "\<And>i out. f (i, out) = [] \<longleftrightarrow> \<not> P out"
  shows "concat (map f (enumerate n os)) = [] \<longleftrightarrow> (\<forall>out \<in> set os. \<not> P out)"
  using assms by (induction os arbitrary: n) simp_all

lemma created_at_empty: "created_at os = [] \<longleftrightarrow> (\<forall>out \<in> set os. \<not> is_Created out)"
  unfolding created_at_def by (rule picked_at_empty) (simp split: outcome.split)

lemma removed_at_empty: "removed_at os = [] \<longleftrightarrow> (\<forall>out \<in> set os. \<not> is_Removed out)"
  unfolding removed_at_def by (rule picked_at_empty) (simp split: outcome.split)

lemma updated_at_empty: "updated_at os = [] \<longleftrightarrow> (\<forall>out \<in> set os. \<not> is_Updated out)"
  unfolding updated_at_def by (rule picked_at_empty) (simp split: outcome.split)

lemma array_result_counts:
  assumes "\<And>c. Nested c \<notin> set os"
  shows "ac_counts (array_result os) \<ge> 0"
    and "ac_counts (array_result os) = 0 \<longleftrightarrow> (\<forall>out \<in> set os. out = Same)"
proof -
  have "out = Same \<longleftrightarrow> \<not> is_Created out \<and> \<not> is_Removed out \<and> \<not> is_Updated out"
    if "out \<in> set os" for out
    using that assms by (cases out rule: outcome.exhaust) auto
  then have "(\<forall>out \<in> set os. out = Same) \<longleftrightarrow>
      created_at os = [] \<and> removed_at os = [] \<and> updated_at os = []"
    unfolding created_at_empty removed_at_empty updated_at_empty by blast
  then show "ac_counts (array_result os) = 0 \<longleftrightarrow> (\<forall>out \<in> set os. out = Same)"
    by (simp add: array_result_def Let_def add_nonneg_eq_0_iff)
qed (simp add: array_result_def Let_def)

lemmas compareArray_counts = array_result_counts [OF compareArray_not_nested]

section \<open>No difference is reported exactly for equal values\<close>

text \<open>
  References are coherent in a list of values when values with the same reference are the same
  value, as it is for the values reachable in one heap.
\<close>

definition coherent :: "js_value list \<Rightarrow> bool" where
  "coherent vs = (\<forall>x \<in> set vs. \<forall>y \<in> set vs. strict_equal x y \<longrightarrow> x = y)"

lemma coherent_Undefined: "coherent vs \<Longrightarrow> coherent (Undefined # vs)"
  unfolding coherent_def by (auto elim: strict_equal.elims)

definition drawn_from :: "js_value list \<Rightarrow> js_value \<Rightarrow> bool" where
  "drawn_from vs v = (plain_data v \<and> set (subvalues v) \<subseteq> insert Undefined (set vs))"

lemma drawn_from_Undefined [simp]: "drawn_from vs Undefined"
  by (simp add: drawn_from_def)

lemma drawn_from_elements: "drawn_from vs (Arr i xs) \<Longrightarrow> \<forall>x \<in> set xs. drawn_from vs x"
  by (auto simp: drawn_from_def list_all_iff)

lemma drawn_from_fields: "drawn_from vs (Obj i p fs) \<Longrightarrow> \<forall>f \<in> set fs. drawn_from vs (snd f)"
  by (auto simp: drawn_from_def list_all_iff)

lemma drawn_from_prop: "\<forall>f \<in> set fs. drawn_from vs (snd f) \<Longrightarrow> drawn_from vs (js_prop fs k)"
  by (force simp: js_prop_def obj_get_def split: option.splits dest!: map_of_SomeD)

lemma strict_equal_within:
  assumes "coherent vs" and "drawn_from vs t" and "drawn_from vs s" and "strict_equal t s"
  shows "t = s"
proof -
  have "t \<in> set (Undefined # vs)" "s \<in> set (Undefined # vs)"
    using assms(2,3) subvalues_self [of t] subvalues_self [of s]
    by (auto simp: drawn_from_def simp del: subvalues_self)
  then show ?thesis using coherent_Undefined [OF assms(1)] assms(4) by (auto simp: coherent_def)
qed

lemma compare_equal_aux:
  assumes "coherent vs"
  shows "\<forall>x \<in> set ts \<union> set ss. drawn_from vs x \<Longrightarrow>
      (\<forall>out \<in> set (compareArray ts ss). out = Same) \<longleftrightarrow> equalArray ts ss"
    and "drawn_from vs t \<Longrightarrow> drawn_from vs s \<Longrightarrow> compareElement t s = Same \<longleftrightarrow> equalElement t s"
    and "\<forall>f \<in> set tf \<union> set sf. drawn_from vs (snd f) \<Longrightarrow>
      oc_counts (compareFields opts incl st d tf sf) = 0 \<longleftrightarrow> equalFields incl st d tf sf"
    and "drawn_from vs v \<Longrightarrow> drawn_from vs w \<Longrightarrow>
      compareProperty opts incl ks d v w = Same \<longleftrightarrow> equalProperty incl ks d v w"
proof (induction ts ss and t s and opts incl st d tf sf and opts incl ks d v w
    rule: compareArray_compareElement_compareFields_compareProperty.induct)
  case (5 t s)
  show ?case
  proof (cases "strict_equal t s")
    case True
    with strict_equal_within [OF assms 5(3,4)] have "t = s" by blast
    with True 5(3) show ?thesis
      by (simp add: compareElement.simps equal_refl(2) drawn_from_def)
  next
    case False
    with 5 show ?thesis
      by (cases t; cases s)
        (auto simp: compareElement.simps equalElement.simps Let_def compareFields_counts(1)
          compareArray_counts less_le dest!: drawn_from_elements drawn_from_fields)
  qed
next
  case (6 opts incl st d tf sf)
  have "drawn_from vs (js_prop tf k)" "drawn_from vs (js_prop sf k)" for k
    using 6(2) by (auto intro!: drawn_from_prop)
  with 6(1) show ?case
    by (auto simp: compareFields_counts(2) equalFields.simps list_all_iff)
next
  case (7 opts incl keyState d t s)
  have nf: "\<not> is_function t" "\<not> is_function s"
    using 7(3,4) by (auto simp: drawn_from_def plain_data_not_function)
  show ?case
  proof (cases "strict_equal t s")
    case True
    with strict_equal_within [OF assms 7(3,4)] have "t = s" by blast
    with True 7(3) show ?thesis
      by (simp add: compareProperty.simps equal_refl(4) drawn_from_def)
  next
    case False
    have arr: "(\<forall>out \<in> set (compareArray xs ys). out = Same) \<longleftrightarrow> equalArray xs ys"
      if "t = Arr i xs" "s = Arr j ys" "depth_left d" for i j xs ys
      using 7(1) [OF _ _ _ that(3) refl that(1,2)] 7(3,4) False that nf
      by (auto dest!: drawn_from_elements)
    have obj: "oc_counts (compareFields opts (fst (nested_selection incl keyState))
          (snd (nested_selection incl keyState)) (depth_pred d) tf sf) = 0 \<longleftrightarrow>
        equalFields (fst (nested_selection incl keyState)) (snd (nested_selection incl keyState))
          (depth_pred d) tf sf"
      if "t = Obj i p tf" "s = Obj j q sf" "depth_left d" for i j p q tf sf
      using 7(2) [OF _ _ _ that(3) refl that(1,2)] 7(3,4) False that nf
      by (auto dest!: drawn_from_fields)
    show ?thesis
      using False nf arr obj
      by (cases t; cases s)
        (auto simp: compareProperty.simps equalProperty.simps Let_def compareFields_counts(1)
          compareArray_counts less_le)
  qed
qed auto

definition coherent_fields :: "(string \<times> js_value) list \<Rightarrow> bool" where
  "coherent_fields fs = coherent (concat (map (\<lambda>f. subvalues (snd f)) fs))"

lemma drawn_from_all_fields:
  "list_all (\<lambda>f. plain_data (snd f)) fs \<Longrightarrow>
   \<forall>f \<in> set fs. drawn_from (concat (map (\<lambda>f. subvalues (snd f)) fs)) (snd f)"
  by (auto simp: drawn_from_def list_all_iff)

lemma truncate_selection [simp]:
  "sel_depth (select_options.truncate opts) = sel_depth opts"
  "sel_exclude (select_options.truncate opts) = sel_exclude opts"
  "sel_include (select_options.truncate opts) = sel_include opts"
  by (simp_all add: select_options.truncate_def)



text \<open>
  A target that holds an explicit \<open>undefined\<close> for a key of the source can lose a created key: the
  key \<open>a\<close> is renamed to \<open>ab\<close> first and stays a candidate, so \<open>abc\<close> takes the rename over and the
  creation of \<open>ab\<close> is reported nowhere.
\<close>

lemma rename_drops_created_key:
  "map_sum id (\<lambda>c. (oc_rename c, oc_create c, oc_remove c))
     (deepCompareObject
       [(''ab'', Num (Fin 1)), (''a'', Undefined), (''abc'', Num (Fin 2))] [(''a'', Num (Fin 3))]
       no_compare_options) =
   Inr (Some [(''a'', ''abc'')], None, Some [])"
  by code_simp

end
