(* ===== verification/Plan_Steps.thy ===== *)
theory Plan_Steps
  imports Entry_State Layered_Order Object_Compare
begin

text \<open>
  Planning a deployment: \<open>foundation/state/src/types/step.ts\<close>, \<open>state/step.ts\<close> and
  \<open>state/plan.ts\<close>. The step handlers come from the providers: they are an argument of the
  operations, and may fail. Every theorem holds for all handlers.
\<close>

section \<open>Steps and handlers\<close>

datatype step_action = Create | Replace | Update | Delete

record step_state =
  action :: step_action
  step_preview :: "object_comparison option"
  step_entryId :: string
  order :: nat

text \<open>\<open>handler.equals\<close> returns a boolean or a promise of one; a promise is truthy.\<close>

datatype equals_result = Answer bool | Promised bool

fun equals_truthy :: "equals_result \<Rightarrow> bool" where
  "equals_truthy (Answer b) = b"
| "equals_truthy (Promised b) = True"

record ('p, 'r) step_options =
  step_force :: bool
  opt_getDependencies :: "string option \<Rightarrow> state_error + ('p, 'r) entry_state list"

record ('p, 'r) step_handler =
  equals :: "('p, 'r) entry_state \<Rightarrow> ('p, 'r) entry_state \<Rightarrow> state_error + equals_result"
  preview :: "('p, 'r) entry_state \<Rightarrow> ('p, 'r) entry_state \<Rightarrow> ('p, 'r) step_options \<Rightarrow>
    state_error + object_comparison option"

type_synonym ('p, 'r, 'h) step_handlers = "string \<Rightarrow> ('p, 'r, 'h) step_handler_scheme option"

section \<open>Planning changes\<close>

definition findPendingChanges ::
  "('p, 'r) entry_state list \<Rightarrow> string list \<Rightarrow> ('p, 'r) entry_state list" where
  "findPendingChanges entryList visitSet =
     filter (\<lambda>e. entryId e \<notin> set visitSet \<and> list_all (\<lambda>d. d \<in> set visitSet) (dependencies e)) entryList"

definition findPendingRemoval ::
  "('p, 'r) hydrated_entry_state list \<Rightarrow> string list \<Rightarrow> ('p, 'r) hydrated_entry_state list" where
  "findPendingRemoval entryList visitSet =
     filter (\<lambda>e. entryId e \<notin> set visitSet \<and> list_all (\<lambda>d. d \<in> set visitSet) (dependents e)) entryList"

definition getPreviewEntries :: "('p, 'r) entry_states \<Rightarrow> string list \<Rightarrow> ('p, 'r) entry_states" where
  "getPreviewEntries newEntries rewrittenSet =
     fold (\<lambda>k m. case entry_at m k of
             None \<Rightarrow> m
           | Some e \<Rightarrow> obj_set k (Some (e\<lparr>entry_result := None\<rparr>)) m) rewrittenSet newEntries"

definition current_entry :: "('p, 'r) entry_states option \<Rightarrow> string \<Rightarrow> ('p, 'r) entry_state option" where
  "current_entry oldEntries k = (case oldEntries of None \<Rightarrow> None | Some m \<Rightarrow> entry_at m k)"

text \<open>
  The step planned for one candidate, and whether the candidate is rewritten: the body of the
  loop of \<open>planPendingChanges\<close>.
\<close>

definition plan_candidate ::
  "('p, 'r) entry_states \<Rightarrow> ('p, 'r) entry_states option \<Rightarrow> ('p, 'r, 'h) step_handlers \<Rightarrow> nat \<Rightarrow> bool \<Rightarrow>
   string list \<Rightarrow> ('p, 'r) entry_state \<Rightarrow> state_error + step_state \<times> string list" where
  "plan_candidate newEntries oldEntries handlers ord force rewrittenSet candidate =
     (case handlers (entry_type candidate) of
        None \<Rightarrow> Inl (HandlerNotFoundError (entry_type candidate) (entryId candidate))
      | Some handler \<Rightarrow>
          let step = (\<lambda>a p. \<lparr>action = a, step_preview = p, step_entryId = entryId candidate, order = ord\<rparr>);
              rewritten = set_add (entryId candidate) rewrittenSet
          in (case current_entry oldEntries (entryId candidate) of
                None \<Rightarrow> Inr (step Create None, rewritten)
              | Some current \<Rightarrow>
                  if entry_type candidate \<noteq> entry_type current then Inr (step Replace None, rewritten)
                  else (case preview handler candidate current
                               \<lparr>step_force = force,
                                opt_getDependencies = (\<lambda>ty. getEntryDependencies
                                  (getPreviewEntries newEntries rewrittenSet) candidate ty)\<rparr> of
                          Inl err \<Rightarrow> Inl err
                        | Inr p \<Rightarrow>
                            (case equals handler candidate current of
                               Inl err \<Rightarrow> Inl err
                             | Inr same \<Rightarrow>
                                 if equals_truthy same then Inr (step Update p, rewrittenSet)
                                 else Inr (step Replace p, rewritten)))))"

fun planPendingChanges ::
  "('p, 'r) entry_state list \<Rightarrow> string list \<Rightarrow> string list \<Rightarrow> ('p, 'r) entry_states \<Rightarrow>
   ('p, 'r) entry_states option \<Rightarrow> ('p, 'r, 'h) step_handlers \<Rightarrow> nat \<Rightarrow> bool \<Rightarrow>
   state_error + step_state list \<times> string list \<times> string list" where
  "planPendingChanges [] visitSet rewrittenSet newEntries oldEntries handlers ord force =
     Inr ([], visitSet, rewrittenSet)"
| "planPendingChanges (candidate # rest) visitSet rewrittenSet newEntries oldEntries handlers ord force =
     (case plan_candidate newEntries oldEntries handlers ord force rewrittenSet candidate of
        Inl err \<Rightarrow> Inl err
      | Inr (step, rewritten) \<Rightarrow>
          (case planPendingChanges rest (set_add (entryId candidate) visitSet) rewritten
                  newEntries oldEntries handlers ord force of
             Inl err \<Rightarrow> Inl err
           | Inr (steps, visited, rewritten') \<Rightarrow> Inr (step # steps, visited, rewritten')))"

definition planPendingRemoval ::
  "('p, 'r) hydrated_entry_state list \<Rightarrow> string list \<Rightarrow> nat \<Rightarrow> step_state list \<times> string list" where
  "planPendingRemoval entryList visitSet ord =
     (map (\<lambda>e. \<lparr>action = Delete, step_preview = None, step_entryId = entryId e, order = ord\<rparr>) entryList,
      fold set_add (map entryId entryList) visitSet)"

definition combineEntryMaps ::
  "('p, 'r) entry_states \<Rightarrow> ('p, 'r) entry_states \<Rightarrow> ('p, 'r) entry_states" where
  "combineEntryMaps targetMap sourceMap =
     fold (\<lambda>k tmp. case entry_at targetMap k of
             Some e \<Rightarrow> obj_set k (Some e) tmp
           | None \<Rightarrow> (case entry_at sourceMap k of
                        Some e \<Rightarrow> obj_set k (Some e) tmp
                      | None \<Rightarrow> tmp))
       (set_of_list (obj_keys targetMap @ obj_keys sourceMap)) []"

section \<open>The contracts of the rounds\<close>

interpretation changes: layering entryId dependencies findPendingChanges
  by unfold_locales (auto simp: findPendingChanges_def ready_def list_all_iff subset_iff intro!: filter_cong)

interpretation removals: layering entryId dependents findPendingRemoval
  by unfold_locales (auto simp: findPendingRemoval_def ready_def list_all_iff subset_iff intro!: filter_cong)

lemma plan_candidate_step:
  assumes "plan_candidate n old h ord force rw c = Inr (step, rw')"
  shows "step_entryId step = entryId c \<and> order step = ord \<and> action step \<noteq> Delete \<and>
    (action step = Create \<longleftrightarrow> current_entry old (entryId c) = None)"
  using assms unfolding plan_candidate_def Let_def
  by (auto split: option.splits if_splits sum.splits)

definition step_key :: "step_state \<Rightarrow> string \<times> nat" where
  "step_key s = (step_entryId s, order s)"

lemma planPendingChanges_result:
  assumes "planPendingChanges es visit rw n old h ord force = Inr (steps, visit', rw')"
  shows "map step_key steps = map (\<lambda>e. (entryId e, ord)) es \<and>
    visit' = fold set_add (map entryId es) visit \<and> list_all (\<lambda>s. action s \<noteq> Delete) steps"
  using assms
proof (induction es arbitrary: visit rw steps)
  case Nil
  then show ?case by simp
next
  case (Cons c es)
  then obtain step rw1 steps' where step: "plan_candidate n old h ord force rw c = Inr (step, rw1)"
    and rest: "planPendingChanges es (set_add (entryId c) visit) rw1 n old h ord force = Inr (steps', visit', rw')"
    and "steps = step # steps'"
    by (auto split: sum.splits prod.splits)
  with Cons.IH [OF rest] plan_candidate_step [OF step] show ?case by (simp add: step_key_def)
qed

section \<open>The two loops\<close>

text \<open>
  The loop over the pending changes: it ends because every round visits a new entry. The state
  is the visited and the rewritten identifiers, the next order number and the steps so far.
\<close>

function plan_changes ::
  "('p, 'r) entry_state list \<Rightarrow> ('p, 'r) entry_states \<Rightarrow> ('p, 'r) entry_states option \<Rightarrow>
   ('p, 'r, 'h) step_handlers \<Rightarrow> bool \<Rightarrow> string list \<Rightarrow> string list \<Rightarrow> nat \<Rightarrow> step_state list \<Rightarrow>
   state_error + step_state list \<times> string list \<times> nat" where
  "plan_changes newEntryList newEntries oldEntries handlers force visitSet rewrittenSet actionOrder steps =
     (let entries = findPendingChanges newEntryList visitSet
      in if entries = [] then Inr (steps, visitSet, actionOrder)
         else (case planPendingChanges entries visitSet rewrittenSet newEntries oldEntries handlers actionOrder force of
                 Inl err \<Rightarrow> Inl err
               | Inr (nextSteps, visited, rewritten) \<Rightarrow>
                   plan_changes newEntryList newEntries oldEntries handlers force visited rewritten
                     (Suc actionOrder) (steps @ nextSteps)))"
  by pat_completeness auto
termination
  by (relation "measure (\<lambda>(ns, n, old, h, f, visit, rw, ord, steps). unseen (map entryId ns) visit)")
    (auto dest!: planPendingChanges_result intro!: changes.pending_less)

declare plan_changes.simps [simp del]

function plan_removals ::
  "('p, 'r) hydrated_entry_state list \<Rightarrow> string list \<Rightarrow> nat \<Rightarrow> step_state list \<Rightarrow>
   step_state list \<times> string list \<times> nat" where
  "plan_removals oldEntryList visitSet actionOrder steps =
     (let entries = findPendingRemoval oldEntryList visitSet
      in if entries = [] then (steps, visitSet, actionOrder)
         else (case planPendingRemoval entries visitSet actionOrder of
                 (nextSteps, visited) \<Rightarrow>
                   plan_removals oldEntryList visited (Suc actionOrder) (steps @ nextSteps)))"
  by pat_completeness auto
termination
  by (relation "measure (\<lambda>(ns, visit, ord, steps). unseen (map entryId ns) visit)")
    (auto simp: planPendingRemoval_def intro!: removals.pending_less)

declare plan_removals.simps [simp del]

section \<open>Planning\<close>

text \<open>\<open>Object.values(entries).filter((entry) => !!entry)\<close>\<close>

definition entry_list :: "('p, 'r) entry_states \<Rightarrow> ('p, 'r) entry_state list" where
  "entry_list m = List.map_filter snd m"

definition plan_creation ::
  "('p, 'r) entry_states option \<Rightarrow> ('p, 'r) entry_states option \<Rightarrow> ('p, 'r, 'h) step_handlers \<Rightarrow> bool \<Rightarrow>
   state_error + step_state list \<times> string list \<times> nat" where
  "plan_creation newEntries oldEntries handlers force =
     (case newEntries of
        None \<Rightarrow> Inr ([], [], 0)
      | Some m \<Rightarrow>
          (case plan_changes (entry_list m) m oldEntries handlers force [] [] 0 [] of
             Inl err \<Rightarrow> Inl err
           | Inr (steps, newEntrySet, actionOrder) \<Rightarrow>
               if length (entry_list m) \<noteq> length newEntrySet
               then Inl (CorruptedStateReferences (length (entry_list m)) (length newEntrySet))
               else Inr (steps, newEntrySet, actionOrder)))"

definition plan_deletion ::
  "('p, 'r) entry_states option \<Rightarrow> ('p, 'r) entry_states option \<Rightarrow> string list \<Rightarrow> nat \<Rightarrow>
   state_error + step_state list" where
  "plan_deletion newEntries oldEntries newEntrySet actionOrder =
     (case oldEntries of
        None \<Rightarrow> Inr []
      | Some old \<Rightarrow>
          (case hydrateState (case newEntries of Some m \<Rightarrow> combineEntryMaps m old | None \<Rightarrow> old) of
             Inl err \<Rightarrow> Inl err
           | Inr hydratedEntryMap \<Rightarrow>
               let oldEntryList = filter (\<lambda>e. entryId e \<notin> set newEntrySet) (map snd hydratedEntryMap)
               in (case plan_removals oldEntryList [] actionOrder [] of
                     (steps, oldEntrySet, ord) \<Rightarrow>
                       if length oldEntryList \<noteq> length oldEntrySet
                       then Inl (CorruptedStateReferences (length oldEntryList) (length oldEntrySet))
                       else Inr steps)))"

definition planSteps ::
  "('p, 'r) entry_states option \<Rightarrow> ('p, 'r) entry_states option \<Rightarrow> ('p, 'r, 'h) step_handlers \<Rightarrow> bool \<Rightarrow>
   state_error + step_state list" where
  "planSteps newEntries oldEntries handlers force =
     (if newEntries = None \<and> oldEntries = None then Inl EntriesNotFoundError
      else (case plan_creation newEntries oldEntries handlers force of
              Inl err \<Rightarrow> Inl err
            | Inr (creationSteps, newEntrySet, actionOrder) \<Rightarrow>
                (case plan_deletion newEntries oldEntries newEntrySet actionOrder of
                   Inl err \<Rightarrow> Inl err
                 | Inr deletionSteps \<Rightarrow> Inr (creationSteps @ deletionSteps))))"

section \<open>What the loops return\<close>

definition rewritten_by :: "step_state list \<Rightarrow> string set" where
  "rewritten_by steps = {step_entryId s | s. s \<in> set steps \<and> action s \<in> {Create, Replace}}"

lemma rewritten_by_append [simp]: "rewritten_by (xs @ ys) = rewritten_by xs \<union> rewritten_by ys"
  by (auto simp: rewritten_by_def)

lemma rewritten_by_Nil [simp]: "rewritten_by [] = {}"
  by (simp add: rewritten_by_def)

lemma rewritten_by_Cons: "rewritten_by (s # ss) = rewritten_by [s] \<union> rewritten_by ss"
  by (auto simp: rewritten_by_def)

lemma plan_candidate_rewritten:
  assumes "plan_candidate n old h ord force rw c = Inr (step, rw')"
  shows "set rw' = set rw \<union> rewritten_by [step]"
  using assms unfolding plan_candidate_def Let_def
  by (auto simp: rewritten_by_def split: option.splits if_splits sum.splits)

text \<open>
  Each step comes from a candidate, planned when the identifiers rewritten before it are known
  up to its own round.
\<close>

definition planned_in ::
  "('p, 'r) entry_state list \<Rightarrow> ('p, 'r) entry_states \<Rightarrow> ('p, 'r) entry_states option \<Rightarrow>
   ('p, 'r, 'h) step_handlers \<Rightarrow> bool \<Rightarrow> string set \<Rightarrow> string set \<Rightarrow> step_state \<Rightarrow> bool" where
  "planned_in es n old h force before after s =
     (\<exists>c \<in> set es. \<exists>rw rw'. plan_candidate n old h (order s) force rw c = Inr (s, rw') \<and>
        before \<subseteq> set rw \<and> set rw \<subseteq> after)"

lemma planned_in_mono:
  "planned_in es n old h force b a s \<Longrightarrow> set es \<subseteq> set es' \<Longrightarrow> b' \<subseteq> b \<Longrightarrow> a \<subseteq> a' \<Longrightarrow>
   planned_in es' n old h force b' a' s"
  unfolding planned_in_def by blast

lemma planPendingChanges_planned:
  assumes "planPendingChanges es visit rw n old h ord force = Inr (steps, visit', rw')"
  shows "set rw' = set rw \<union> rewritten_by steps \<and>
    (\<forall>s \<in> set steps. planned_in es n old h force (set rw) (set rw') s)"
  using assms
proof (induction es arbitrary: visit rw steps)
  case Nil
  then show ?case by simp
next
  case (Cons c es)
  then obtain step rw1 steps' where step: "plan_candidate n old h ord force rw c = Inr (step, rw1)"
    and rest: "planPendingChanges es (set_add (entryId c) visit) rw1 n old h ord force = Inr (steps', visit', rw')"
    and steps: "steps = step # steps'"
    by (auto split: sum.splits prod.splits)
  note ih = Cons.IH [OF rest] and rw1 = plan_candidate_rewritten [OF step]
  have "planned_in (c # es) n old h force (set rw) (set rw') step"
    unfolding planned_in_def using step plan_candidate_step [OF step] ih rw1
    by (intro bexI [of _ c] exI [of _ rw] exI [of _ rw1]) auto
  moreover have "planned_in (c # es) n old h force (set rw) (set rw') s" if "s \<in> set steps'" for s
    by (rule planned_in_mono [of es n old h force "set rw1" "set rw'"]) (use ih that rw1 in auto)
  moreover have "set rw' = set rw \<union> rewritten_by steps"
    using ih rw1 unfolding steps rewritten_by_Cons [of step steps'] by auto
  ultimately show ?case by (simp add: steps)
qed

lemma planPendingChanges_error:
  assumes "planPendingChanges es visit rw n old h ord force = Inl err"
  shows "\<exists>c \<in> set es. \<exists>rw0. plan_candidate n old h ord force rw0 c = Inl err"
  using assms
proof (induction es arbitrary: visit rw)
  case (Cons c es)
  then show ?case by (fastforce split: sum.splits prod.splits)
qed simp

lemma plan_changes_error:
  "plan_changes ns n old h force visit rw ord steps = Inl err \<Longrightarrow>
   \<exists>c \<in> set ns. \<exists>o' rw0. plan_candidate n old h o' force rw0 c = Inl err"
proof (induction ns n old h force visit rw ord steps rule: plan_changes.induct)
  case (1 ns n old h force visit rw ord steps)
  have sub: "set (findPendingChanges ns visit) \<subseteq> set ns" by (auto simp: findPendingChanges_def)
  show ?case
  proof (cases "planPendingChanges (findPendingChanges ns visit) visit rw n old h ord force")
    case (Inl e)
    then show ?thesis
      using "1.prems" planPendingChanges_error [OF Inl] sub
      by (subst (asm) plan_changes.simps) (auto simp: Let_def split: if_splits)
  next
    case (Inr r)
    obtain s v w where r: "r = (s, v, w)" by (cases r)
    show ?thesis
      using "1.prems" "1.IH" [OF refl _ Inr r [symmetric] refl] Inr r
      by (subst (asm) plan_changes.simps) (auto simp: Let_def split: if_splits)
  qed
qed

lemma plan_changes_result:
  "plan_changes ns n old h force visit rw ord steps = Inr (steps', visit', ord') \<Longrightarrow>
   \<exists>ls news. layers entryId dependencies ns (set visit) ls \<and> steps' = steps @ news \<and>
     map step_key news = numbered entryId ord ls \<and>
     visit' = fold set_add (map entryId (concat ls)) visit \<and> ord' = ord + length ls \<and>
     list_all (\<lambda>s. action s \<noteq> Delete) news \<and>
     (\<forall>s \<in> set news. planned_in ns n old h force
        (set rw \<union> rewritten_by (filter (\<lambda>t. order t < order s) news))
        (set rw \<union> rewritten_by news) s)"
proof (induction ns n old h force visit rw ord steps rule: plan_changes.induct)
  case (1 ns n old h force visit rw ord steps)
  show ?case
  proof (cases "findPendingChanges ns visit = []")
    case True
    then show ?thesis
      using "1.prems" changes.layers_stop [OF True]
      by (subst (asm) plan_changes.simps) (auto simp: Let_def intro!: exI [of _ "[]"])
  next
    case False
    then obtain s v w where round: "planPendingChanges (findPendingChanges ns visit) visit rw n old h ord force = Inr (s, v, w)"
      and rec: "plan_changes ns n old h force v w (Suc ord) (steps @ s) = Inr (steps', visit', ord')"
      using "1.prems" by (subst (asm) plan_changes.simps) (auto simp: Let_def split: sum.splits)
    note res = planPendingChanges_result [OF round] and pl = planPendingChanges_planned [OF round]
    from "1.IH" [OF refl False round refl refl rec]
    obtain ls news where ls: "layers entryId dependencies ns (set v) ls"
      and steps': "steps' = steps @ s @ news" and keys: "map step_key news = numbered entryId (Suc ord) ls"
      and visit': "visit' = fold set_add (map entryId (concat ls)) v" and ord': "ord' = Suc ord + length ls"
      and acts: "list_all (\<lambda>s. action s \<noteq> Delete) news"
      and planned: "\<forall>t \<in> set news. planned_in ns n old h force
        (set w \<union> rewritten_by (filter (\<lambda>u. order u < order t) news))
        (set w \<union> rewritten_by news) t" by auto
    let ?es = "findPendingChanges ns visit"
    have layer: "layers entryId dependencies ns (set visit) (?es # ls)"
      by (rule changes.layers_next [OF False _ ls]) (auto simp: res)
    have keys': "map step_key (s @ news) = numbered entryId ord (?es # ls)"
      using res keys by simp
    have sub: "set ?es \<subseteq> set ns" by (auto simp: findPendingChanges_def)
    have first: "planned_in ns n old h force
        (set rw \<union> rewritten_by (filter (\<lambda>u. order u < order t) (s @ news)))
        (set rw \<union> rewritten_by (s @ news)) t" if t: "t \<in> set s" for t
    proof -
      have "ord \<le> order u" if "u \<in> set (s @ news)" for u
        using that keys' numbered_bounds [of _ _ entryId ord "?es # ls"]
        by (metis image_eqI image_set step_key_def)
      moreover have "step_key t \<in> set (map step_key s)" using t by simp
      then have "order t = ord" unfolding conjunct1 [OF res] by (auto simp: step_key_def)
      ultimately have none: "filter (\<lambda>u. order u < order t) (s @ news) = []"
        by (metis (no_types, lifting) filter_False linorder_not_less)
      show ?thesis unfolding none using pl t sub by (auto intro: planned_in_mono)
    qed
    have later: "planned_in ns n old h force
        (set rw \<union> rewritten_by (filter (\<lambda>u. order u < order t) (s @ news)))
        (set rw \<union> rewritten_by (s @ news)) t" if t: "t \<in> set news" for t
    proof (rule planned_in_mono [OF bspec [OF planned t]])
      show "set rw \<union> rewritten_by (filter (\<lambda>u. order u < order t) (s @ news))
        \<subseteq> set w \<union> rewritten_by (filter (\<lambda>u. order u < order t) news)"
        using pl by (auto simp: rewritten_by_def)
    qed (use pl in auto)
    show ?thesis
      using layer steps' keys' visit' ord' acts res first later
      by (intro exI [of _ "?es # ls"] exI [of _ "s @ news"]) auto
  qed
qed

lemma plan_removals_result:
  "plan_removals ns visit ord steps = (steps', visit', ord') \<Longrightarrow>
   \<exists>ls news. layers entryId dependents ns (set visit) ls \<and> steps' = steps @ news \<and>
     map step_key news = numbered entryId ord ls \<and>
     visit' = fold set_add (map entryId (concat ls)) visit \<and>
     list_all (\<lambda>s. action s = Delete) news"
proof (induction ns visit ord steps rule: plan_removals.induct)
  case (1 ns visit ord steps)
  let ?es = "findPendingRemoval ns visit"
  show ?case
  proof (cases "?es = []")
    case True
    then show ?thesis
      using "1.prems" removals.layers_stop [OF True]
      by (subst (asm) plan_removals.simps) (auto simp: Let_def intro!: exI [of _ "[]"])
  next
    case False
    obtain t v where round: "planPendingRemoval ?es visit ord = (t, v)" by fastforce
    then have v: "v = fold set_add (map entryId ?es) visit"
      and t: "map step_key t = map (\<lambda>e. (entryId e, ord)) ?es" "list_all (\<lambda>s. action s = Delete) t"
      by (auto simp: planPendingRemoval_def step_key_def list_all_iff)
    have rec: "plan_removals ns v (Suc ord) (steps @ t) = (steps', visit', ord')"
      using "1.prems" False round by (subst (asm) plan_removals.simps) (simp add: Let_def)
    from "1.IH" [OF refl False round [symmetric] rec]
    obtain ls news where ls: "layers entryId dependents ns (set v) ls"
      and res: "steps' = steps @ t @ news" "map step_key news = numbered entryId (Suc ord) ls"
        "visit' = fold set_add (map entryId (concat ls)) v" "list_all (\<lambda>s. action s = Delete) news"
      by auto
    have "layers entryId dependents ns (set visit) (?es # ls)"
      by (rule removals.layers_next [OF False _ ls]) (auto simp: v)
    then show ?thesis
      using res v t by (intro exI [of _ "?es # ls"] exI [of _ "t @ news"]) auto
  qed
qed

section \<open>Entry lists and combined maps\<close>

lemma entry_list_valid:
  assumes "valid_map m"
  shows "map entryId (entry_list m) = obj_keys m" and "distinct (map entryId (entry_list m))"
    and "e \<in> set (entry_list m) \<longleftrightarrow> entry_at m (entryId e) = Some e"
proof -
  have all: "\<forall>(k, entry) \<in> set m. \<exists>e. entry = Some e \<and> closed_entry m k e"
    using assms by (auto simp: valid_map_def validateEntries_iff)
  have "map entryId (entry_list ps) = obj_keys ps"
    if "\<forall>(k, entry) \<in> set ps. \<exists>e. entry = Some e \<and> closed_entry m k e" for ps
    using that by (induction ps) (auto simp: entry_list_def obj_keys_def closed_entry_def map_filter_simps)
  with all show ids: "map entryId (entry_list m) = obj_keys m" by blast
  then show "distinct (map entryId (entry_list m))"
    using assms by (simp add: valid_map_def obj_ok_def obj_keys_def)
  have ok: "obj_ok m" using assms by (simp add: valid_map_def)
  have "e \<in> set (entry_list m) \<longleftrightarrow> (\<exists>k. (k, Some e) \<in> set m)"
    by (force simp: entry_list_def map_filter_def)
  also have "\<dots> \<longleftrightarrow> (\<exists>k. entry_at m k = Some e)" by (simp add: entry_at_mem [OF ok])
  also have "\<dots> \<longleftrightarrow> entry_at m (entryId e) = Some e" using valid_map_entryId [OF assms] by blast
  finally show "e \<in> set (entry_list m) \<longleftrightarrow> entry_at m (entryId e) = Some e" .
qed

definition combined_entry ::
  "('p, 'r) entry_states \<Rightarrow> ('p, 'r) entry_states \<Rightarrow> string \<Rightarrow> ('p, 'r) entry_state option" where
  "combined_entry t s k = (case entry_at t k of Some e \<Rightarrow> Some e | None \<Rightarrow> entry_at s k)"

lemma combineEntryMaps_fold:
  "combineEntryMaps t s = fold (\<lambda>k tmp. case combined_entry t s k of None \<Rightarrow> tmp | Some e \<Rightarrow> obj_set k (Some e) tmp)
     (set_of_list (obj_keys t @ obj_keys s)) []"
  unfolding combineEntryMaps_def combined_entry_def
  by (intro arg_cong [where f = "\<lambda>f. fold f _ _"] ext) (simp split: option.split)

lemma combine_fold:
  fixes f :: "string \<Rightarrow> ('p, 'r) entry_state option"
  defines "g \<equiv> \<lambda>k tmp. case f k of None \<Rightarrow> tmp | Some e \<Rightarrow> obj_set k (Some e) tmp"
  shows "entry_at (fold g ks tmp) k = (if k \<in> set ks \<and> f k \<noteq> None then f k else entry_at tmp k)"
    and "obj_ok tmp \<Longrightarrow> obj_ok (fold g ks tmp)"
    and "set (obj_keys (fold g ks tmp)) = set (obj_keys tmp) \<union> {k \<in> set ks. f k \<noteq> None}"
  by (induction ks arbitrary: tmp) (auto simp: g_def split: option.splits)

lemma entry_at_combine: "entry_at (combineEntryMaps t s) k = combined_entry t s k"
  unfolding combineEntryMaps_fold combine_fold(1)
  using entry_at_keys [of t k] entry_at_keys [of s k]
  by (cases "entry_at t k"; cases "entry_at s k") (auto simp: combined_entry_def)

lemma valid_map_combine:
  assumes "valid_map t" and "valid_map s"
  shows "valid_map (combineEntryMaps t s)"
proof -
  have "obj_ok (combineEntryMaps t s)"
    unfolding combineEntryMaps_fold by (intro combine_fold(2)) simp
  moreover have "\<forall>k \<in> set (obj_keys (combineEntryMaps t s)). entry_at (combineEntryMaps t s) k \<noteq> None"
    unfolding entry_at_combine unfolding combineEntryMaps_fold combine_fold(3) by (auto simp: obj_keys_def)
  moreover have "closed_entry (combineEntryMaps t s) k e" if "entry_at (combineEntryMaps t s) k = Some e" for k e
    using that assms valid_map_entryId valid_map_dependency
    unfolding entry_at_combine closed_entry_def combined_entry_def
    by (fastforce split: option.splits)
  ultimately show ?thesis by (simp add: valid_map_alt)
qed

section \<open>The shape of a plan\<close>

definition entries_of :: "('p, 'r) entry_states option \<Rightarrow> ('p, 'r) entry_states" where
  "entries_of m = (case m of None \<Rightarrow> [] | Some m \<Rightarrow> m)"

definition has_entry :: "('p, 'r) entry_states \<Rightarrow> string \<Rightarrow> bool" where
  "has_entry m k = (entry_at m k \<noteq> None)"

definition depends_on :: "('p, 'r) entry_states \<Rightarrow> string \<Rightarrow> string \<Rightarrow> bool" where
  "depends_on m k d = (\<exists>e. entry_at m k = Some e \<and> d \<in> set (dependencies e))"

lemma valid_map_keys: "valid_map m \<Longrightarrow> k \<in> set (obj_keys m) \<longleftrightarrow> has_entry m k"
  by (auto simp: valid_map_alt has_entry_def dest: entry_at_keys)

lemma valid_map_depends: "valid_map m \<Longrightarrow> depends_on m k d \<Longrightarrow> has_entry m k \<and> has_entry m d"
  by (auto simp: depends_on_def has_entry_def dest: valid_map_dependency)

lemma hydrateState_valid:
  assumes "valid_map m"
  obtains h where "hydrateState m = Inr h"
proof -
  have ok: "obj_ok m" using assms by (simp add: valid_map_def)
  have "\<not> broken m m"
    using assms valid_map_dependency [OF assms] unfolding broken_iff [OF ok] valid_map_alt by fastforce
  then show ?thesis
    using hydrateState_result [OF ok] that by (cases "hydrateState m") auto
qed

lemma removal_nodes:
  assumes "valid_map n" and "valid_map old" and "valid_map c"
    and c: "\<And>k. entry_at c k = combined_entry n old k" and "hydrateState c = Inr h"
  defines "ns \<equiv> filter (\<lambda>e. \<not> has_entry n (entryId e)) (map snd h)"
  shows "distinct (map entryId ns)"
    and "entryId ` set ns = {k. has_entry old k \<and> \<not> has_entry n k}"
    and "e \<in> set ns \<Longrightarrow> set (dependents e) =
      {i. \<not> has_entry n i \<and> depends_on old i (entryId e)}"
proof -
  have ok: "obj_ok c" using assms(3) by (simp add: valid_map_def)
  have hok: "obj_ok h" and get: "\<And>k. obj_get h k = map_option (\<lambda>e. hydrated e (dependents_in (entry_links c) k)) (entry_at c k)"
    using hydrateState_result [OF ok] assms(5) by auto
  have mem: "(k, e) \<in> set h \<longleftrightarrow> (\<exists>f. entry_at c k = Some f \<and> e = hydrated f (dependents_in (entry_links c) k))" for k e
    unfolding obj_get_mem [OF hok, symmetric] get by auto
  have key: "entryId e = k" if "(k, e) \<in> set h" for k e
    using that valid_map_entryId [OF assms(3)] by (auto simp: mem)
  have ids: "map entryId (map snd h) = map fst h"
    using key by (auto simp: comp_def intro!: map_cong)
  have "distinct (map entryId (map snd h))" unfolding ids using hok by (simp add: obj_ok_def)
  then show "distinct (map entryId ns)" unfolding ns_def by (rule distinct_map_filter)
  have nodes: "e \<in> set ns \<longleftrightarrow> \<not> has_entry n (entryId e) \<and> (entryId e, e) \<in> set h" for e
  proof
    show "e \<in> set ns \<Longrightarrow> \<not> has_entry n (entryId e) \<and> (entryId e, e) \<in> set h"
      unfolding ns_def using key by auto
    show "\<not> has_entry n (entryId e) \<and> (entryId e, e) \<in> set h \<Longrightarrow> e \<in> set ns"
      unfolding ns_def by (auto intro: image_eqI [of _ _ "(entryId e, e)"])
  qed
  show "entryId ` set ns = {k. has_entry old k \<and> \<not> has_entry n k}" (is "?A = ?B")
  proof
    show "?A \<subseteq> ?B" by (auto simp: nodes mem c combined_entry_def has_entry_def)
    show "?B \<subseteq> ?A"
    proof
      fix k assume "k \<in> ?B"
      then obtain f where f: "entry_at old k = Some f" and new: "\<not> has_entry n k" by (auto simp: has_entry_def)
      let ?e = "hydrated f (dependents_in (entry_links c) k)"
      have "(k, ?e) \<in> set h" using f new by (auto simp: mem c combined_entry_def has_entry_def)
      moreover have "entryId ?e = k" using valid_map_entryId [OF assms(2) f] by simp
      ultimately show "k \<in> ?A" using new nodes [of ?e] by force
    qed
  qed
  show "set (dependents e) = {i. \<not> has_entry n i \<and> depends_on old i (entryId e)}" if e: "e \<in> set ns"
  proof -
    from e have new: "\<not> has_entry n (entryId e)" by (simp add: nodes)
    from e obtain f where "e = hydrated f (dependents_in (entry_links c) (entryId e))" by (auto simp: nodes mem)
    then have "dependents e = dependents_in (entry_links c) (entryId e)" by (metis hydrated_dependents)
    then have deps: "set (dependents e) = {i. \<exists>f. combined_entry n old i = Some f \<and> entryId e \<in> set (dependencies f)}"
      by (simp add: set_dependents_in set_entry_links [OF ok] c)
    have "\<not> depends_on n i (entryId e)" for i using valid_map_depends [OF assms(1)] new by blast
    then show ?thesis unfolding deps depends_on_def combined_entry_def has_entry_def
      by (auto split: option.splits)
  qed
qed

lemma set_visit_complete:
  assumes "distinct (map key ns)" and "layers key needs ns {} ls"
    and "length ns = length (fold set_add (map key (concat ls)) [])"
  shows "key ` set (concat ls) = key ` set ns"
proof -
  have "distinct (map key (concat ls))" and sub: "set (concat ls) \<subseteq> set ns"
    using layers_distinct [OF assms(1,2)] by auto
  then have "fold set_add (map key (concat ls)) [] = map key (concat ls)"
    using set_of_list_distinct by (auto simp: set_of_list_def)
  with assms(3) have "card (key ` set ns) = card (key ` set (concat ls))"
    using assms(1) \<open>distinct (map key (concat ls))\<close> by (metis distinct_card length_map set_map)
  then show ?thesis using sub by (metis List.finite_set card_subset_eq finite_imageI image_mono)
qed

text \<open>
  A plan is the rounds of the changes followed by the rounds of the removals, and its rounds
  reach every entry.
\<close>

definition plan_shape ::
  "('p, 'r) entry_states option \<Rightarrow> ('p, 'r) entry_states option \<Rightarrow> ('p, 'r, 'h) step_handlers \<Rightarrow> bool \<Rightarrow>
   step_state list \<Rightarrow> ('p, 'r) entry_state list list \<Rightarrow> bool" where
  "plan_shape new old h force cs lc =
     (layers entryId dependencies (entry_list (entries_of new)) {} lc \<and>
      map step_key cs = numbered entryId 0 lc \<and> list_all (\<lambda>s. action s \<noteq> Delete) cs \<and>
      (\<forall>s \<in> set cs. planned_in (entry_list (entries_of new)) (entries_of new) old h force
         (rewritten_by (filter (\<lambda>t. order t < order s) cs)) (rewritten_by cs) s))"

lemma plan_changes_shape:
  assumes "plan_changes (entry_list n) n old h force [] [] 0 [] = Inr (cs, visit, ord)"
  shows "\<exists>lc. plan_shape (Some n) old h force cs lc \<and> ord = length lc \<and>
    visit = fold set_add (map entryId (concat lc)) []"
  using plan_changes_result [OF assms] by (auto simp: plan_shape_def entries_of_def)

lemma plan_creation_shape:
  assumes "valid_map (entries_of new)" and "plan_creation new old h force = Inr (cs, visit, ord)"
  shows "\<exists>lc. plan_shape new old h force cs lc \<and> ord = length lc \<and>
    set visit = {k. has_entry (entries_of new) k} \<and>
    entryId ` set (concat lc) = {k. has_entry (entries_of new) k}"
proof (cases new)
  case None
  with assms show ?thesis
    by (auto simp: plan_creation_def plan_shape_def entries_of_def entry_list_def has_entry_def
        ready_def map_filter_simps intro!: exI [of _ "[]"])
next
  case (Some n)
  then have valid: "valid_map n" using assms(1) by (simp add: entries_of_def)
  have loop: "plan_changes (entry_list n) n old h force [] [] 0 [] = Inr (cs, visit, ord)"
    and len: "length (entry_list n) = length visit"
    using assms(2) Some by (auto simp: plan_creation_def split: sum.splits if_splits)
  from plan_changes_shape [OF loop]
  obtain lc where lc: "plan_shape (Some n) old h force cs lc" "ord = length lc"
    and visit: "visit = fold set_add (map entryId (concat lc)) []" by blast
  have "entryId ` set (concat lc) = entryId ` set (entry_list n)"
    using entry_list_valid(2) [OF valid] lc(1) len visit
    by (intro set_visit_complete) (auto simp: plan_shape_def entries_of_def)
  moreover have "entryId ` set (entry_list n) = {k. has_entry n k}"
    using entry_list_valid(1) [OF valid] valid_map_keys [OF valid] by (metis Collect_cong Collect_mem_eq set_map)
  ultimately show ?thesis using lc visit Some by (auto simp: entries_of_def)
qed

definition removal_shape ::
  "('p, 'r) entry_states \<Rightarrow> ('p, 'r) entry_states \<Rightarrow> ('p, 'r) hydrated_entry_state list \<Rightarrow> bool" where
  "removal_shape n old ns = (distinct (map entryId ns) \<and>
     entryId ` set ns = {k. has_entry old k \<and> \<not> has_entry n k} \<and>
     (\<forall>e \<in> set ns. set (dependents e) = {i. \<not> has_entry n i \<and> depends_on old i (entryId e)}))"

text \<open>The removal loop runs on the entries of the old map that are not in the new one.\<close>

lemma plan_deletion_loop:
  assumes "valid_map (entries_of new)" and "valid_map (entries_of old)"
    and "set visit = {k. has_entry (entries_of new) k}"
  shows "\<exists>ns ld ds. removal_shape (entries_of new) (entries_of old) ns \<and>
    layers entryId dependents ns {} ld \<and>
    map step_key ds = numbered entryId ord ld \<and> list_all (\<lambda>s. action s = Delete) ds \<and>
    plan_deletion new old visit ord =
      (if length ns \<noteq> length (concat ld)
       then Inl (CorruptedStateReferences (length ns) (length (concat ld))) else Inr ds)"
proof (cases old)
  case None
  then show ?thesis
    by (intro exI [of _ "[]"]) (simp add: plan_deletion_def removal_shape_def entries_of_def has_entry_def ready_def)
next
  case (Some m)
  define c where "c = (case new of Some n \<Rightarrow> combineEntryMaps n m | None \<Rightarrow> m)"
  have c: "valid_map c" "\<And>k. entry_at c k = combined_entry (entries_of new) m k"
    using assms(1,2) Some
    by (auto simp: c_def entries_of_def entry_at_combine combined_entry_def split: option.splits
        intro: valid_map_combine)
  obtain h where h: "hydrateState c = Inr h" by (rule hydrateState_valid [OF c(1)])
  let ?ns = "filter (\<lambda>e. \<not> has_entry (entries_of new) (entryId e)) (map snd h)"
  have m: "valid_map m" using assms(2) Some by (simp add: entries_of_def)
  have shape: "removal_shape (entries_of new) (entries_of old) ?ns"
    unfolding removal_shape_def using removal_nodes [OF assms(1) m c h] Some by (simp add: entries_of_def)
  obtain ds v o' where loop: "plan_removals ?ns [] ord [] = (ds, v, o')" by (cases "plan_removals ?ns [] ord []")
  from plan_removals_result [OF this] obtain ld where ld: "layers entryId dependents ?ns {} ld"
    "map step_key ds = numbered entryId ord ld" "list_all (\<lambda>s. action s = Delete) ds"
    and v: "v = fold set_add (map entryId (concat ld)) []" by auto
  have "distinct (map entryId (concat ld))"
    using shape layers_distinct [OF _ ld(1)] by (simp add: removal_shape_def)
  then have "length v = length (concat ld)"
    using set_of_list_distinct [of "map entryId (concat ld)"] v by (simp add: set_of_list_def)
  then show ?thesis
    using shape ld loop h Some assms(3)
    by (intro exI [of _ ?ns] exI [of _ ld] exI [of _ ds]) (simp add: plan_deletion_def c_def [symmetric])
qed

lemma planSteps_shape:
  assumes "valid_map (entries_of new)" and "valid_map (entries_of old)"
    and "planSteps new old h force = Inr steps"
  obtains cs ds lc ns ld where "steps = cs @ ds" and "plan_shape new old h force cs lc"
    and "entryId ` set (concat lc) = {k. has_entry (entries_of new) k}"
    and "removal_shape (entries_of new) (entries_of old) ns" and "layers entryId dependents ns {} ld"
    and "map step_key ds = numbered entryId (length lc) ld" and "list_all (\<lambda>s. action s = Delete) ds"
    and "entryId ` set (concat ld) = {k. has_entry (entries_of old) k \<and> \<not> has_entry (entries_of new) k}"
proof -
  from assms(3) obtain cs visit ord ds where cr: "plan_creation new old h force = Inr (cs, visit, ord)"
    and del: "plan_deletion new old visit ord = Inr ds" and steps: "steps = cs @ ds"
    by (auto simp: planSteps_def split: if_splits sum.splits)
  from plan_creation_shape [OF assms(1) cr] obtain lc where lc: "plan_shape new old h force cs lc"
    "ord = length lc" "set visit = {k. has_entry (entries_of new) k}"
    "entryId ` set (concat lc) = {k. has_entry (entries_of new) k}" by blast
  from plan_deletion_loop [OF assms(1,2) lc(3), of ord] del
  obtain ns ld where ns: "removal_shape (entries_of new) (entries_of old) ns"
    and ld: "layers entryId dependents ns {} ld" "map step_key ds = numbered entryId ord ld"
      "list_all (\<lambda>s. action s = Delete) ds" "length ns = length (concat ld)"
    by (auto split: if_splits)
  have dist: "distinct (map entryId ns)" using ns by (simp add: removal_shape_def)
  then have "distinct (map entryId (concat ld))" using layers_distinct [OF _ ld(1)] by simp
  then have "length (fold set_add (map entryId (concat ld)) []) = length ns"
    using set_of_list_distinct [of "map entryId (concat ld)"] ld(4) by (simp add: set_of_list_def)
  then have "entryId ` set (concat ld) = entryId ` set ns"
    using set_visit_complete [OF dist ld(1)] by simp
  with that [OF steps lc(1,4) ns ld(1) _ ld(3)] ld(2) lc(2) ns show ?thesis
    by (simp add: removal_shape_def)
qed

lemma step_key_images:
  assumes "map step_key ss = numbered key i ls"
  shows "map step_entryId ss = map key (concat ls)" and "map order ss = map snd (numbered key i ls)"
proof -
  have "map fst (map step_key ss) = map key (concat ls)" unfolding assms by (rule map_fst_numbered)
  then show "map step_entryId ss = map key (concat ls)" by (simp add: comp_def step_key_def)
  have "map snd (map step_key ss) = map snd (numbered key i ls)" unfolding assms ..
  then show "map order ss = map snd (numbered key i ls)" by (simp add: comp_def step_key_def)
qed

lemma step_key_mem:
  "map step_key ss = ks \<Longrightarrow> s \<in> set ss \<Longrightarrow> (step_entryId s, order s) \<in> set ks"
  by (metis image_eqI image_set step_key_def)

section \<open>Properties of plans\<close>

lemma planSteps_complete:
  assumes "valid_map (entries_of new)" and "valid_map (entries_of old)"
    and "planSteps new old handlers force = Inr steps"
  shows "distinct (map step_entryId steps)"
    and "step_entryId ` {s \<in> set steps. action s \<noteq> Delete} = {k. has_entry (entries_of new) k}"
    and "step_entryId ` {s \<in> set steps. action s = Delete} =
      {k. has_entry (entries_of old) k \<and> \<not> has_entry (entries_of new) k}"
    and "\<exists>n. order ` set steps = {..<n}"
proof -
  from planSteps_shape [OF assms] obtain cs ds lc ns ld where steps: "steps = cs @ ds"
    and lc: "plan_shape new old handlers force cs lc"
      "entryId ` set (concat lc) = {k. has_entry (entries_of new) k}"
    and ns: "removal_shape (entries_of new) (entries_of old) ns" and ld: "layers entryId dependents ns {} ld"
      "map step_key ds = numbered entryId (length lc) ld" "list_all (\<lambda>s. action s = Delete) ds"
      "entryId ` set (concat ld) = {k. has_entry (entries_of old) k \<and> \<not> has_entry (entries_of new) k}" .
  have lay: "layers entryId dependencies (entry_list (entries_of new)) {} lc"
    and key: "map step_key cs = numbered entryId 0 lc" and act: "list_all (\<lambda>s. action s \<noteq> Delete) cs"
    using lc(1) by (auto simp: plan_shape_def)
  note c = step_key_images [OF key] and d = step_key_images [OF ld(2)]
  have "distinct (map entryId (concat lc))" "distinct (map entryId (concat ld))"
    using layers_distinct [OF entry_list_valid(2) [OF assms(1)] lay] layers_distinct [OF _ ld(1)] ns
    by (simp_all add: removal_shape_def)
  moreover have "set (map entryId (concat lc)) \<inter> set (map entryId (concat ld)) = {}"
    unfolding set_map lc(2) ld(4) by auto
  ultimately show "distinct (map step_entryId steps)"
    unfolding steps map_append c(1) d(1) by (simp only: distinct_append)
  have "{s \<in> set steps. action s \<noteq> Delete} = set cs" "{s \<in> set steps. action s = Delete} = set ds"
    using act ld(3) by (auto simp: steps list_all_iff)
  then show "step_entryId ` {s \<in> set steps. action s \<noteq> Delete} = {k. has_entry (entries_of new) k}"
    "step_entryId ` {s \<in> set steps. action s = Delete} =
      {k. has_entry (entries_of old) k \<and> \<not> has_entry (entries_of new) k}"
    using arg_cong [OF c(1), of set] arg_cong [OF d(1), of set] lc(2) ld(4)
    by (simp_all only: set_map)
  have "order ` set cs = {0..<length lc}" "order ` set ds = {length lc..<length lc + length ld}"
    using arg_cong [OF c(2), of set] arg_cong [OF d(2), of set]
      numbered_layers_orders [OF lay] numbered_layers_orders [OF ld(1)]
    by (simp_all only: set_map add_0)
  then have "order ` set steps = {..<length lc + length ld}"
    unfolding steps set_append image_Un by auto
  then show "\<exists>n. order ` set steps = {..<n}" by blast
qed

text \<open>
  C1. A plan is complete: for maps that \<open>validateEntries\<close> accepts, the plan has exactly one step
  per entry, a change for each new entry and a deletion for each entry of the old map only, and
  its order numbers have no gap, so that \<open>applySteps\<close>, which stops at the first order without
  steps, runs all of them.
\<close>

theorem plan_is_complete:
  assumes "valid_map (entries_of new)" and "valid_map (entries_of old)"
    and "planSteps new old handlers force = Inr steps"
  shows "distinct (map step_entryId steps) \<and>
    step_entryId ` {s \<in> set steps. action s \<noteq> Delete} = {k. has_entry (entries_of new) k} \<and>
    step_entryId ` {s \<in> set steps. action s = Delete} =
      {k. has_entry (entries_of old) k \<and> \<not> has_entry (entries_of new) k} \<and>
    (\<exists>n. order ` set steps = {..<n})"
  using planSteps_complete [OF assms] by blast

lemma numbered_step:
  assumes "map step_key ss = numbered key i ls" and "(k, j) \<in> set (numbered key i ls)"
  obtains u where "u \<in> set ss" "step_entryId u = k" "order u = j"
  using assms(2) that unfolding assms(1) [symmetric] by (auto simp: step_key_def)

lemma removal_step_id:
  "map step_key ss = numbered key i ls \<Longrightarrow> u \<in> set ss \<Longrightarrow> step_entryId u \<in> key ` set (concat ls)"
  using step_key_images(1) [of ss key i ls] by (metis image_eqI image_set)

lemma creation_rounds_ordered:
  assumes "valid_map n" and "layers entryId dependencies (entry_list n) {} lc"
    and "map step_key cs = numbered entryId 0 lc" and "s \<in> set cs" and "depends_on n (step_entryId s) d"
  obtains u where "u \<in> set cs" "step_entryId u = d" "order u < order s"
proof -
  from assms(5) obtain e where e: "entry_at n (step_entryId s) = Some e" "d \<in> set (dependencies e)"
    by (auto simp: depends_on_def)
  then have id: "entryId e = step_entryId s" using valid_map_entryId [OF assms(1)] by blast
  with e entry_list_valid(3) [OF assms(1)] have mem: "e \<in> set (entry_list n)" by simp
  have "(entryId e, order s) \<in> set (numbered entryId 0 lc)"
    using step_key_mem [OF assms(3,4)] id by simp
  from layers_ordered [OF assms(2) entry_list_valid(2) [OF assms(1)] mem this e(2)]
  obtain j where j: "j < order s" "(d, j) \<in> set (numbered entryId 0 lc)" by auto
  from numbered_step [OF assms(3) j(2)] j(1) that show ?thesis by blast
qed

lemma removal_rounds_ordered:
  assumes "removal_shape n old ns" and "layers entryId dependents ns {} ld"
    and "map step_key ds = numbered entryId i ld" and "t \<in> set ds"
    and "depends_on old k (step_entryId t)" and "\<not> has_entry n k"
  obtains u where "u \<in> set ds" "step_entryId u = k" "order u < order t"
proof -
  have dist: "distinct (map entryId ns)" using assms(1) by (simp add: removal_shape_def)
  have "set (concat ld) \<subseteq> set ns" using layers_distinct [OF dist assms(2)] by blast
  with removal_step_id [OF assms(3,4)] obtain e where e: "e \<in> set ns" "entryId e = step_entryId t" by auto
  have need: "k \<in> set (dependents e)" using assms(1,5,6) e by (simp add: removal_shape_def)
  have "(entryId e, order t) \<in> set (numbered entryId i ld)"
    using step_key_mem [OF assms(3,4)] e by simp
  from layers_ordered [OF assms(2) dist e(1) this need]
  obtain j where j: "j < order t" "(k, j) \<in> set (numbered entryId i ld)" by auto
  from numbered_step [OF assms(3) j(2)] j(1) that show ?thesis by blast
qed

lemma planSteps_ordered:
  assumes "valid_map (entries_of new)" and "valid_map (entries_of old)"
    and "planSteps new old handlers force = Inr steps" and "s \<in> set steps" and "t \<in> set steps"
  shows "action s \<noteq> Delete \<Longrightarrow> depends_on (entries_of new) (step_entryId s) (step_entryId t) \<Longrightarrow> order t < order s"
    and "action s = Delete \<Longrightarrow> action t = Delete \<Longrightarrow>
      depends_on (entries_of old) (step_entryId s) (step_entryId t) \<Longrightarrow> order s < order t"
    and "action s \<noteq> Delete \<Longrightarrow> action t = Delete \<Longrightarrow> order s < order t"
proof -
  from planSteps_shape [OF assms(1-3)] obtain cs ds lc ns ld where steps: "steps = cs @ ds"
    and lc: "plan_shape new old handlers force cs lc"
    and ns: "removal_shape (entries_of new) (entries_of old) ns" and ld: "layers entryId dependents ns {} ld"
      "map step_key ds = numbered entryId (length lc) ld" "list_all (\<lambda>s. action s = Delete) ds"
    and ids: "entryId ` set (concat ld) = {k. has_entry (entries_of old) k \<and> \<not> has_entry (entries_of new) k}" .
  have lay: "layers entryId dependencies (entry_list (entries_of new)) {} lc"
    and key: "map step_key cs = numbered entryId 0 lc" and act: "list_all (\<lambda>s. action s \<noteq> Delete) cs"
    using lc by (auto simp: plan_shape_def)
  have unique: "u = v" if "u \<in> set steps" "v \<in> set steps" "step_entryId u = step_entryId v" for u v
    using planSteps_complete(1) [OF assms(1-3)] that by (meson distinct_map inj_onD)
  have split: "u \<in> set cs \<longleftrightarrow> action u \<noteq> Delete" "u \<in> set ds \<longleftrightarrow> action u = Delete" if "u \<in> set steps" for u
    using that ld(3) act by (auto simp: steps list_all_iff)
  show "order t < order s" if s: "action s \<noteq> Delete"
    and dep: "depends_on (entries_of new) (step_entryId s) (step_entryId t)"
  proof -
    have "s \<in> set cs" using s split(1) [OF assms(4)] by blast
    from creation_rounds_ordered [OF assms(1) lay key this dep]
    obtain u where "u \<in> set cs" "step_entryId u = step_entryId t" "order u < order s" .
    with unique [of u t] assms(5) steps show ?thesis by simp
  qed
  show "order s < order t" if st: "action s = Delete" "action t = Delete"
    and dep: "depends_on (entries_of old) (step_entryId s) (step_entryId t)"
  proof -
    have s: "s \<in> set ds" and t: "t \<in> set ds" using st split(2) assms(4,5) by blast+
    have "\<not> has_entry (entries_of new) (step_entryId s)"
      using removal_step_id [OF ld(2) s] unfolding ids by simp
    from removal_rounds_ordered [OF ns ld(1,2) t dep this]
    obtain u where "u \<in> set ds" "step_entryId u = step_entryId s" "order u < order t" .
    with unique [of u s] assms(4) steps show ?thesis by simp
  qed
  show "order s < order t" if st: "action s \<noteq> Delete" "action t = Delete"
  proof -
    have s: "s \<in> set cs" and t: "t \<in> set ds" using st split assms(4,5) by blast+
    from numbered_bounds [OF step_key_mem [OF key s]] numbered_bounds [OF step_key_mem [OF ld(2) t]]
    show ?thesis by simp
  qed
qed

text \<open>
  C2. A plan is a topological order: an entry is changed only after every new entry it depends
  on, an entry is deleted before every deleted entry it depends on, and no deletion runs before
  or with a change.
\<close>

theorem plan_is_topological:
  assumes "valid_map (entries_of new)" and "valid_map (entries_of old)"
    and "planSteps new old handlers force = Inr steps" and "s \<in> set steps" and "t \<in> set steps"
  shows "(action s \<noteq> Delete \<and> depends_on (entries_of new) (step_entryId s) (step_entryId t) \<longrightarrow> order t < order s) \<and>
    (action s = Delete \<and> action t = Delete \<and>
      depends_on (entries_of old) (step_entryId s) (step_entryId t) \<longrightarrow> order s < order t) \<and>
    (action s \<noteq> Delete \<and> action t = Delete \<longrightarrow> order s < order t)"
  using planSteps_ordered [OF assms] by blast

section \<open>When planning succeeds\<close>

definition dependency_edges :: "('p, 'r) entry_states \<Rightarrow> (string \<Rightarrow> bool) \<Rightarrow> (string \<times> string) set" where
  "dependency_edges m among = {(d, k). depends_on m k d \<and> among d \<and> among k}"

lemma finite_dependency_edges: "valid_map m \<Longrightarrow> finite (dependency_edges m among)"
proof (rule finite_subset)
  assume valid: "valid_map m"
  show "dependency_edges m among \<subseteq> set (obj_keys m) \<times> set (obj_keys m)"
    using valid_map_depends [OF valid] valid_map_keys [OF valid] by (auto simp: dependency_edges_def)
qed simp

lemma change_edges:
  assumes "valid_map m"
  shows "need_edges entryId dependencies (entry_list m) = dependency_edges m (\<lambda>k. True)"
proof -
  have "(\<exists>e. k = entryId e \<and> e \<in> set (entry_list m) \<and> d \<in> set (dependencies e)) \<longleftrightarrow> depends_on m k d" for d k
    unfolding entry_list_valid(3) [OF assms] depends_on_def using valid_map_entryId [OF assms] by blast
  then show ?thesis unfolding need_edges_def dependency_edges_def by auto
qed

lemma removal_edges:
  assumes "removal_shape n old ns" and "valid_map old"
  shows "need_edges entryId dependents ns = (dependency_edges old (\<lambda>k. \<not> has_entry n k))\<inverse>"
proof -
  have "(i, k) \<in> need_edges entryId dependents ns \<longleftrightarrow>
      k \<in> entryId ` set ns \<and> \<not> has_entry n i \<and> depends_on old i k" for i k
    using assms(1) unfolding need_edges_def removal_shape_def by blast
  then show ?thesis
    using assms(1) valid_map_depends [OF assms(2)]
    unfolding removal_shape_def dependency_edges_def by (auto 4 3)
qed

definition handlers_total :: "('p, 'r) entry_states \<Rightarrow> ('p, 'r, 'h) step_handlers \<Rightarrow> bool" where
  "handlers_total m handlers = (\<forall>k e. entry_at m k = Some e \<longrightarrow>
     (\<exists>hd. handlers (entry_type e) = Some hd \<and>
        (\<forall>current options. \<exists>p. preview hd e current options = Inr p) \<and>
        (\<forall>current. \<exists>same. equals hd e current = Inr same)))"

lemma plan_candidate_total:
  assumes "handlers_total m h" and "entry_at m k = Some c"
  shows "\<exists>r. plan_candidate n old h ord force rw c = Inr r"
proof -
  from assms obtain hd where "h (entry_type c) = Some hd"
    "\<And>current options. \<exists>p. preview hd c current options = Inr p"
    "\<And>current. \<exists>same. equals hd c current = Inr same"
    unfolding handlers_total_def by blast
  then show ?thesis
    unfolding plan_candidate_def Let_def by (auto split: option.split sum.split) (metis Inl_Inr_False)+
qed

lemma layers_length_le:
  assumes "distinct (map key ns)" and "layers key needs ns {} ls"
  shows "length (concat ls) \<le> length ns"
proof -
  have d: "distinct (map key (concat ls))" and "set (concat ls) \<subseteq> set ns"
    using layers_distinct [OF assms] by auto
  then have "card (set (concat ls)) \<le> card (set ns)" by (intro card_mono) auto
  moreover have "distinct (concat ls)" "distinct ns" using d assms(1) by (simp_all only: distinct_map)
  ultimately show ?thesis by (simp only: distinct_card)
qed

text \<open>The rounds reach every node exactly when the needs, which lie among the nodes, are acyclic.\<close>

lemma layers_length_iff:
  assumes "distinct (map key ns)" and "layers key needs ns {} ls"
    and "\<forall>n \<in> set ns. set (needs n) \<subseteq> key ` set ns"
  shows "length (concat ls) = length ns \<longleftrightarrow> acyclic (need_edges key needs ns)"
proof
  have d: "distinct (map key (concat ls))" and sub: "set (concat ls) \<subseteq> set ns"
    using layers_distinct [OF assms(1,2)] by auto
  then have fold: "length (fold set_add (map key (concat ls)) []) = length (concat ls)"
    using set_of_list_distinct [of "map key (concat ls)"] by (simp add: set_of_list_def)
  show "acyclic (need_edges key needs ns)" if "length (concat ls) = length ns"
    using set_visit_complete [OF assms(1,2)] fold that layers_acyclic [OF assms(2,1)] by simp
  show "length (concat ls) = length ns" if "acyclic (need_edges key needs ns)"
  proof -
    have "need_edges key needs ns = (\<Union>n \<in> set ns. (\<lambda>d. (d, key n)) ` set (needs n))"
      by (auto simp: need_edges_def)
    then have "finite (need_edges key needs ns)" by simp
    with that have "wf (need_edges key needs ns)" by (rule finite_acyclic_wf [rotated, OF _ ])
    from layers_complete [OF assms(2) this] assms(3)
    have "card (key ` set ns) \<le> card (key ` set (concat ls))" by (intro card_mono) auto
    then have "length ns \<le> length (concat ls)"
      using assms(1) d by (metis distinct_card length_map set_map)
    with layers_length_le [OF assms(1,2)] show ?thesis by simp
  qed
qed

lemma plan_creation_total:
  assumes "valid_map (entries_of new)" and "handlers_total (entries_of new) h"
  shows "if acyclic (dependency_edges (entries_of new) (\<lambda>k. True))
    then \<exists>r. plan_creation new old h force = Inr r
    else \<exists>a b. plan_creation new old h force = Inl (CorruptedStateReferences a b) \<and> b < a"
proof (cases new)
  case None
  then show ?thesis
    by (auto simp: plan_creation_def entries_of_def dependency_edges_def depends_on_def acyclic_def)
next
  case (Some n)
  then have valid: "valid_map n" and total: "handlers_total n h" using assms by (simp_all add: entries_of_def)
  have "\<exists>r. plan_candidate n old h o' force rw c = Inr r" if "c \<in> set (entry_list n)" for c o' rw
    using that entry_list_valid(3) [OF valid] plan_candidate_total [OF total] by blast
  then have "\<nexists>err. plan_changes (entry_list n) n old h force [] [] 0 [] = Inl err"
    using plan_changes_error by (metis Inl_Inr_False)
  then obtain cs visit ord where loop: "plan_changes (entry_list n) n old h force [] [] 0 [] = Inr (cs, visit, ord)"
    by (cases "plan_changes (entry_list n) n old h force [] [] 0 []") auto
  from plan_changes_shape [OF this] obtain lc where
    lc: "layers entryId dependencies (entry_list n) {} lc" and visit: "visit = fold set_add (map entryId (concat lc)) []"
    by (auto simp: plan_shape_def entries_of_def)
  note dist = entry_list_valid(2) [OF valid]
  have "length visit = length (concat lc)"
    using layers_distinct [OF dist lc] set_of_list_distinct [of "map entryId (concat lc)"]
    by (simp add: visit set_of_list_def)
  moreover have "\<forall>e \<in> set (entry_list n). set (dependencies e) \<subseteq> entryId ` set (entry_list n)"
  proof (intro ballI subsetI)
    fix e d assume e: "e \<in> set (entry_list n)" "d \<in> set (dependencies e)"
    then have "has_entry n d" using entry_list_valid(3) [OF valid] valid_map_dependency [OF valid] by (force simp: has_entry_def)
    then show "d \<in> entryId ` set (entry_list n)"
      using entry_list_valid(1) [OF valid] valid_map_keys [OF valid] by (metis set_map)
  qed
  ultimately show ?thesis
    using layers_length_iff [OF dist lc] layers_length_le [OF dist lc] loop Some
    unfolding change_edges [OF valid] by (auto simp: plan_creation_def entries_of_def)
qed

lemma plan_deletion_total:
  assumes "valid_map (entries_of new)" and "valid_map (entries_of old)"
    and "set visit = {k. has_entry (entries_of new) k}"
  shows "if acyclic (dependency_edges (entries_of old) (\<lambda>k. \<not> has_entry (entries_of new) k))
    then \<exists>ds. plan_deletion new old visit ord = Inr ds
    else \<exists>a b. plan_deletion new old visit ord = Inl (CorruptedStateReferences a b) \<and> b < a"
proof -
  from plan_deletion_loop [OF assms, of ord]
  obtain ns ld ds where ns: "removal_shape (entries_of new) (entries_of old) ns"
    and ld: "layers entryId dependents ns {} ld"
    and res: "plan_deletion new old visit ord =
      (if length ns \<noteq> length (concat ld)
       then Inl (CorruptedStateReferences (length ns) (length (concat ld))) else Inr ds)" by blast
  have dist: "distinct (map entryId ns)" using ns by (simp add: removal_shape_def)
  have "\<forall>e \<in> set ns. set (dependents e) \<subseteq> entryId ` set ns"
    using ns valid_map_depends [OF assms(2)] unfolding removal_shape_def by auto
  from layers_length_iff [OF dist ld this] layers_length_le [OF dist ld]
  show ?thesis unfolding res removal_edges [OF ns assms(2)] by auto
qed

text \<open>
  C3. Planning succeeds exactly on acyclic maps. When \<open>validateEntries\<close> accepts both maps and
  the handlers of the new entries exist and do not fail, \<open>planSteps\<close> returns a plan if and only
  if the dependencies of the new map, and those of the old map among the entries to be deleted,
  have no cycle; otherwise it throws \<open>CorruptedStateReferences\<close> with fewer entries reached than
  given. Both loops end in every case.
\<close>

theorem plan_succeeds_iff_acyclic:
  assumes "valid_map (entries_of new)" and "valid_map (entries_of old)"
    and "handlers_total (entries_of new) handlers" and "new \<noteq> None \<or> old \<noteq> None"
  shows "if acyclic (dependency_edges (entries_of new) (\<lambda>k. True)) \<and>
       acyclic (dependency_edges (entries_of old) (\<lambda>k. \<not> has_entry (entries_of new) k))
    then \<exists>steps. planSteps new old handlers force = Inr steps
    else \<exists>a b. planSteps new old handlers force = Inl (CorruptedStateReferences a b) \<and> b < a"
proof (cases "plan_creation new old handlers force")
  case (Inl err)
  with plan_creation_total [OF assms(1,3), of old force] assms(4) show ?thesis
    by (auto simp: planSteps_def split: if_splits)
next
  case (Inr r)
  obtain cs visit ord where r: "r = (cs, visit, ord)" by (cases r)
  have "set visit = {k. has_entry (entries_of new) k}"
    using plan_creation_shape [OF assms(1)] Inr r by blast
  from plan_deletion_total [OF assms(1,2) this, of ord] plan_creation_total [OF assms(1,3), of old force]
  show ?thesis using assms(4) by (auto simp: planSteps_def Inr r split: if_splits)
qed

section \<open>Actions and previews\<close>

text \<open>A dependency as a preview sees it: without result when the plan creates or replaces it.\<close>

definition previewed :: "('p, 'r) entry_states \<Rightarrow> step_state list \<Rightarrow> string \<Rightarrow> ('p, 'r) entry_state option" where
  "previewed m steps k = (case entry_at m k of
     None \<Rightarrow> None
   | Some e \<Rightarrow> Some (if k \<in> rewritten_by steps then e\<lparr>entry_result := None\<rparr> else e))"

lemma entry_at_getPreviewEntries:
  fixes m :: "('p, 'r) entry_states"
  shows "entry_at (getPreviewEntries m rw) k =
   map_option (\<lambda>e. if k \<in> set rw then e\<lparr>entry_result := None\<rparr> else e) (entry_at m k)"
proof -
  define f where "f = (\<lambda>k (m :: ('p, 'r) entry_states). case entry_at m k of None \<Rightarrow> m
    | Some e \<Rightarrow> obj_set k (Some (e\<lparr>entry_result := None\<rparr>)) m)"
  have "entry_at (fold f rw m) k =
      map_option (\<lambda>e. if k \<in> set rw then e\<lparr>entry_result := None\<rparr> else e) (entry_at m k)" for m :: "('p, 'r) entry_states"
  proof (induction rw arbitrary: m)
    case Nil
    then show ?case by (simp add: option.map_ident)
  next
    case (Cons j rw)
    have "entry_at (f j m) k = map_option (\<lambda>e. if k = j then e\<lparr>entry_result := None\<rparr> else e) (entry_at m k)"
      by (cases "k = j") (auto simp: f_def option.map_ident split: option.split)
    with Cons show ?case by (cases "entry_at m k") auto
  qed
  then show ?thesis unfolding getPreviewEntries_def f_def by blast
qed

lemma dependencies_from_ok:
  assumes "\<forall>d \<in> set ds. entry_at m d \<noteq> None"
  shows "dependencies_from m k ty ds = Inr (filter (\<lambda>e. isEntryType e ty) (List.map_filter (entry_at m) ds))"
  using assms by (induction ds) (auto simp: map_filter_simps)

lemma preview_dependencies:
  assumes "\<forall>d \<in> set (dependencies c). entry_at n d \<noteq> None \<and> (d \<in> set rw \<longleftrightarrow> d \<in> rewritten_by steps)"
  shows "getEntryDependencies (getPreviewEntries n rw) c ty =
    Inr (filter (\<lambda>e. isEntryType e ty) (List.map_filter (previewed n steps) (dependencies c)))"
proof -
  have at: "entry_at (getPreviewEntries n rw) d = previewed n steps d" if "d \<in> set (dependencies c)" for d
    using assms that by (auto simp: entry_at_getPreviewEntries previewed_def split: option.split)
  have "List.map_filter (entry_at (getPreviewEntries n rw)) (dependencies c) =
      List.map_filter (previewed n steps) (dependencies c)"
    using at by (simp add: map_filter_def cong: filter_cong)
  moreover have "\<forall>d \<in> set (dependencies c). entry_at (getPreviewEntries n rw) d \<noteq> None"
    using assms by (simp add: entry_at_getPreviewEntries)
  ultimately show ?thesis by (simp add: getEntryDependencies_def dependencies_from_ok)
qed

text \<open>What \<open>planPendingChanges\<close> decides for a candidate, given the dependencies its preview sees.\<close>

definition planned_action ::
  "('p, 'r) entry_state \<Rightarrow> ('p, 'r) entry_state option \<Rightarrow> ('p, 'r, 'h) step_handler_scheme \<Rightarrow> bool \<Rightarrow>
   (string option \<Rightarrow> state_error + ('p, 'r) entry_state list) \<Rightarrow> step_state \<Rightarrow> bool" where
  "planned_action c current handler force deps s =
     (case current of
        None \<Rightarrow> action s = Create \<and> step_preview s = None
      | Some cur \<Rightarrow>
          if entry_type c \<noteq> entry_type cur then action s = Replace \<and> step_preview s = None
          else preview handler c cur \<lparr>step_force = force, opt_getDependencies = deps\<rparr> = Inr (step_preview s) \<and>
            (\<exists>same. equals handler c cur = Inr same \<and> action s = (if equals_truthy same then Update else Replace)))"

lemma plan_candidate_action:
  assumes "plan_candidate n old h ord force rw c = Inr (s, rw')"
  shows "\<exists>hd. h (entry_type c) = Some hd \<and>
    planned_action c (current_entry old (entryId c)) hd force
      (getEntryDependencies (getPreviewEntries n rw) c) s"
  using assms unfolding plan_candidate_def planned_action_def Let_def
  by (auto split: option.splits if_splits sum.splits)

lemma rewritten_before:
  assumes "valid_map (entries_of new)" and "plan_shape new old h force cs lc"
    and "distinct (map step_entryId cs)" and "s \<in> set cs" 
    and "depends_on (entries_of new) (step_entryId s) d" and "d \<in> rewritten_by cs"
  shows "d \<in> rewritten_by (filter (\<lambda>t. order t < order s) cs)"
proof -
  from assms(6) obtain t where t: "t \<in> set cs" "step_entryId t = d" "action t \<in> {Create, Replace}"
    by (auto simp: rewritten_by_def)
  obtain u where u: "u \<in> set cs" "step_entryId u = d" "order u < order s"
    using creation_rounds_ordered [OF assms(1) _ _ assms(4,5)] assms(2) by (auto simp: plan_shape_def)
  with assms(3) t have "u = t" by (metis distinct_map inj_onD)
  with t u show ?thesis by (auto simp: rewritten_by_def)
qed

text \<open>
  Each change is classified as documented. For every planned change of an entry of the new
  map: without a current entry it is a creation; with a current entry of another type a
  replacement; otherwise the handler previews it and decides between update and replacement.
  The preview reads the dependencies of the entry from the new map, and precisely those that
  this same plan creates or replaces come without a result.
\<close>

theorem plan_actions:
  assumes "valid_map (entries_of new)" and "valid_map (entries_of old)"
    and "planSteps new old handlers force = Inr steps" and "s \<in> set steps" and "action s \<noteq> Delete"
  shows "\<exists>e handler. entry_at (entries_of new) (step_entryId s) = Some e \<and>
    handlers (entry_type e) = Some handler \<and>
    planned_action e (current_entry old (step_entryId s)) handler force
      (\<lambda>ty. Inr (filter (\<lambda>d. isEntryType d ty)
         (List.map_filter (previewed (entries_of new) steps) (dependencies e)))) s"
proof -
  from planSteps_shape [OF assms(1-3)] obtain cs ds lc where steps: "steps = cs @ ds"
    and lc: "plan_shape new old handlers force cs lc" and ds: "list_all (\<lambda>s. action s = Delete) ds" .
  have s: "s \<in> set cs" using assms(4,5) ds by (auto simp: steps list_all_iff)
  have rewritten: "rewritten_by steps = rewritten_by cs"
    using ds by (auto simp: steps rewritten_by_def list_all_iff)
  have dist: "distinct (map step_entryId cs)"
    using planSteps_complete(1) [OF assms(1-3)] by (simp add: steps)
  from lc s obtain e rw rw' where e: "e \<in> set (entry_list (entries_of new))"
    and cand: "plan_candidate (entries_of new) old handlers (order s) force rw e = Inr (s, rw')"
    and rw: "rewritten_by (filter (\<lambda>t. order t < order s) cs) \<subseteq> set rw" "set rw \<subseteq> rewritten_by cs"
    unfolding plan_shape_def planned_in_def by blast
  have id: "entryId e = step_entryId s" using plan_candidate_step [OF cand] by simp
  then have at: "entry_at (entries_of new) (step_entryId s) = Some e"
    using e entry_list_valid(3) [OF assms(1)] by simp
  have "\<forall>d \<in> set (dependencies e). entry_at (entries_of new) d \<noteq> None \<and> (d \<in> set rw \<longleftrightarrow> d \<in> rewritten_by steps)"
  proof
    fix d assume d: "d \<in> set (dependencies e)"
    then have dep: "depends_on (entries_of new) (step_entryId s) d" using at by (auto simp: depends_on_def)
    from rewritten_before [OF assms(1) lc dist s dep] rw
    show "entry_at (entries_of new) d \<noteq> None \<and> (d \<in> set rw \<longleftrightarrow> d \<in> rewritten_by steps)"
      using valid_map_dependency [OF assms(1) at d] rewritten by auto
  qed
  then have deps: "getEntryDependencies (getPreviewEntries (entries_of new) rw) e =
      (\<lambda>ty. Inr (filter (\<lambda>d. isEntryType d ty)
         (List.map_filter (previewed (entries_of new) steps) (dependencies e))))"
    by (intro ext preview_dependencies)
  from plan_candidate_action [OF cand] at id show ?thesis unfolding deps by auto
qed

section \<open>The properties on a concrete plan\<close>

definition sample_handler :: "(nat, nat) step_handler" where
  "sample_handler = \<lparr>equals = (\<lambda>c cur. Inr (Answer True)), preview = (\<lambda>c cur options. Inr None)\<rparr>"

definition sample_handlers :: "(nat, nat, unit) step_handlers" where
  "sample_handlers ty = (if ty = ''service'' then Some sample_handler else None)"

definition sample_old :: "(nat, nat) entry_states" where
  "sample_old = [(''a'', Some (sample_entry ''a'' [])), (''x'', Some (sample_entry ''x'' [''a''])),
     (''y'', Some (sample_entry ''y'' [''x'']))]"

definition sample_plan :: "step_state list" where
  "sample_plan =
    [\<lparr>action = Update, step_preview = None, step_entryId = ''a'', order = 0\<rparr>,
     \<lparr>action = Create, step_preview = None, step_entryId = ''b'', order = 1\<rparr>,
     \<lparr>action = Create, step_preview = None, step_entryId = ''c'', order = 1\<rparr>,
     \<lparr>action = Delete, step_preview = None, step_entryId = ''y'', order = 2\<rparr>,
     \<lparr>action = Delete, step_preview = None, step_entryId = ''x'', order = 3\<rparr>]"

lemma sample_old_valid: "valid_map sample_old"
  by (simp add: valid_map_def obj_ok_def sample_old_def validateEntries_def sample_entry_def
      entry_at_def obj_get_def)

lemma sample_planSteps: "planSteps (Some sample_map) (Some sample_old) sample_handlers False = Inr sample_plan"
  by code_simp

theorem plan_is_complete_witness:
  "planSteps (Some sample_map) (Some sample_old) sample_handlers False = Inr sample_plan \<and>
   distinct (map step_entryId sample_plan) \<and> (\<exists>n. order ` set sample_plan = {..<n})"
  using plan_is_complete [OF _ _ sample_planSteps] sample_map_valid sample_old_valid sample_planSteps
  by (simp add: entries_of_def)

theorem plan_is_topological_witness:
  "depends_on sample_map ''b'' ''a'' \<and> order (sample_plan ! 0) < order (sample_plan ! 1)"
proof -
  have "depends_on sample_map ''b'' ''a''"
    by (simp add: depends_on_def sample_map_def entry_at_def obj_get_def sample_entry_def)
  then show ?thesis
    using plan_is_topological [OF _ _ sample_planSteps, of "sample_plan ! 1" "sample_plan ! 0"]
      sample_map_valid sample_old_valid
    by (simp add: entries_of_def sample_plan_def)
qed

theorem plan_actions_witness:
  "action (sample_plan ! 1) \<noteq> Delete \<and> current_entry (Some sample_old) ''b'' = None \<and>
   (\<exists>e handler. entry_at sample_map ''b'' = Some e \<and> sample_handlers (entry_type e) = Some handler)"
proof -
  have "action (sample_plan ! 1) \<noteq> Delete" "sample_plan ! 1 \<in> set sample_plan" "step_entryId (sample_plan ! 1) = ''b''"
    by (simp_all add: sample_plan_def)
  moreover have "current_entry (Some sample_old) ''b'' = None"
    by (simp add: current_entry_def sample_old_def entry_at_def obj_get_def)
  ultimately show ?thesis
    using plan_actions [OF _ _ sample_planSteps, of "sample_plan ! 1"] sample_map_valid sample_old_valid
    by (auto simp: entries_of_def)
qed

theorem plan_succeeds_iff_acyclic_witness:
  "handlers_total sample_map sample_handlers \<and>
   acyclic (dependency_edges sample_map (\<lambda>k. True)) \<and>
   acyclic (dependency_edges sample_old (\<lambda>k. \<not> has_entry sample_map k))"
proof -
  have total: "handlers_total sample_map sample_handlers"
    by (auto simp: handlers_total_def sample_map_def sample_handlers_def sample_handler_def
        entry_at_def obj_get_def sample_entry_def split: if_splits)
  then show ?thesis
    using plan_succeeds_iff_acyclic [of "Some sample_map" "Some sample_old" sample_handlers False]
      sample_map_valid sample_old_valid sample_planSteps
    by (auto simp: entries_of_def split: if_splits)
qed

end
