(* ===== verification/Apply_Steps.thy ===== *)
theory Apply_Steps
  imports Plan_Steps
begin

text \<open>
  Applying a deployment plan: \<open>foundation/state/src/state/apply.ts\<close>. The handlers of the
  providers are an argument. What a handler does is recorded in a \<open>handler_run\<close>: the value it
  resolves to or the error it rejects with, the warnings it adds and the post actions it
  registers, each with its own outcome and the post actions it registers in turn. As every step
  runs its handler at most once, any behaviour of the outside world is some such argument.

  The steps of one order run concurrently but read maps that only change between orders, so the
  first phase is a function. Post actions read and write the shared maps while others run: the
  second phase is a step relation over all their interleavings.
\<close>

section \<open>Handlers and their runs\<close>

datatype post_callback = Callback "state_error option" "(post_callback \<times> bool) list"

record 'v handler_run =
  run_outcome :: "state_error + 'v"
  run_warnings :: "string list"
  run_registered :: "(post_callback \<times> bool) list"

record ('p, 'r) step_context =
  ctx_force :: bool
  ctx_getDependencies :: "string option \<Rightarrow> state_error + ('p, 'r) entry_state list"
  ctx_getConnections :: "string option \<Rightarrow> state_error + ('p, 'r) entry_state list"
  ctx_getDependents :: "string option \<Rightarrow> state_error + ('p, 'r) entry_state list"

record ('p, 'r) apply_handler = "('p, 'r) step_handler" +
  handler_create :: "('p, 'r) entry_state \<Rightarrow> ('p, 'r) step_context \<Rightarrow> 'r option handler_run"
  handler_replace :: "('p, 'r) entry_state \<Rightarrow> ('p, 'r) entry_state \<Rightarrow> ('p, 'r) step_context \<Rightarrow> 'r option handler_run"
  handler_update :: "('p, 'r) entry_state \<Rightarrow> ('p, 'r) entry_state \<Rightarrow> ('p, 'r) step_context \<Rightarrow> 'r option handler_run"
  handler_delete :: "('p, 'r) entry_state \<Rightarrow> ('p, 'r) step_context \<Rightarrow> unit handler_run"

type_synonym ('p, 'r) apply_handlers = "string \<Rightarrow> ('p, 'r) apply_handler option"

record ('p, 'r) post_action_entry =
  post_callback :: post_callback
  requireDependents :: bool
  post_step_action :: step_action
  post_entry :: "('p, 'r) entry_state"

text \<open>The second component of a step result: nothing, the warnings, or the error.\<close>

datatype issues = NoIssues | Warnings "string list" | Failure state_error

type_synonym ('p, 'r) step_result = "('p, 'r) entry_state option \<times> issues"

section \<open>Checking dependencies and dependents\<close>

text \<open>
  \<open>checkAllSucceeded\<close> recurses over the dependencies of succeeded entries without remembering
  them. On cyclic entries the recursion ends with the call stack, as the \<open>RangeError\<close> the engine
  throws; \<open>stack\<close> is the number of frames available.
\<close>

fun checkAllSucceeded :: "nat \<Rightarrow> string list \<Rightarrow> ('p, 'r) entry_states \<Rightarrow> state_error + bool" where
  "checkAllSucceeded 0 ds succeeded = Inl RangeError"
| "checkAllSucceeded (Suc stack) [] succeeded = Inr True"
| "checkAllSucceeded (Suc stack) (d # ds) succeeded =
     (case entry_at succeeded d of
        None \<Rightarrow> Inr False
      | Some e \<Rightarrow>
          (case checkAllSucceeded stack (dependencies e) succeeded of
             Inl err \<Rightarrow> Inl err
           | Inr ok \<Rightarrow> if ok then checkAllSucceeded (Suc stack) ds succeeded else Inr False))"

text \<open>
  The walk of \<open>checkAllDependentsSucceeded\<close>: the pending dependents are the frames of the
  recursion, innermost first; the visited identifiers are shared by all of them. The result is
  the visited identifiers, or \<open>None\<close> at the first failed dependent.
\<close>

lemma set_entry_ids: "set (map entryId (entry_list m)) = {entryId e | e k. (k, Some e) \<in> set m}"
  by (force simp: entry_list_def List.map_filter_def)

lemma dependents_from_mem:
  "dependents_from k ty m = Inr ds \<Longrightarrow> e \<in> set ds \<longleftrightarrow>
   (\<exists>j. (j, Some e) \<in> set m) \<and> isEntryType e ty \<and> k \<in> set (dependencies e)"
proof (induction m arbitrary: ds)
  case (Cons p m)
  obtain j entry where p: "p = (j, entry)" by fastforce
  with Cons.prems obtain f found where "entry = Some f" "dependents_from k ty m = Inr found"
    "ds = (if isEntryType f ty \<and> k \<in> set (dependencies f) then f # found else found)"
    by (auto split: option.splits sum.splits if_splits)
  with Cons.IH [of found] show ?case by (auto simp: p)
qed simp

lemma getEntryDependents_ids:
  "getEntryDependents m e ty = Inr ds \<Longrightarrow> set (map entryId ds) \<subseteq> set (map entryId (entry_list m))"
  unfolding getEntryDependents_def set_entry_ids by (auto simp: dependents_from_mem)

lemma visit_dependents_less:
  assumes "entryId e \<notin> set visited" and "getEntryDependents m e None = Inr ds"
  shows "unseen (map entryId (entry_list m) @ map entryId (ds @ pending)) (visited @ [entryId e]) <
    unseen (map entryId (entry_list m) @ map entryId (e # pending)) visited"
  unfolding unseen_def using assms getEntryDependents_ids [OF assms(2)]
  by (intro psubset_card_mono) auto

function visit_dependents ::
  "('p, 'r) entry_states \<Rightarrow> ('p, 'r) entry_states \<Rightarrow> ('p, 'r) entry_state list \<Rightarrow> string list \<Rightarrow>
   state_error + string list option" where
  "visit_dependents allEntries failed [] visitedIds = Inr (Some visitedIds)"
| "visit_dependents allEntries failed (dependentEntry # pending) visitedIds =
     (if entryId dependentEntry \<in> set visitedIds then visit_dependents allEntries failed pending visitedIds
      else if entry_at failed (entryId dependentEntry) \<noteq> None then Inr None
      else (case getEntryDependents allEntries dependentEntry None of
              Inl err \<Rightarrow> Inl err
            | Inr ds \<Rightarrow> visit_dependents allEntries failed (ds @ pending) (visitedIds @ [entryId dependentEntry])))"
  by pat_completeness auto
termination
proof (relation "measures [\<lambda>(m, f, pending, visited). unseen (map entryId (entry_list m) @ map entryId pending) visited,
    \<lambda>(m, f, pending, visited). length pending]", goal_cases)
  case (2 m f e pending visited)
  then have "unseen (map entryId (entry_list m) @ map entryId (e # pending)) visited =
      unseen (map entryId (entry_list m) @ map entryId pending) visited"
    unfolding unseen_def by (intro arg_cong [where f = card]) auto
  then show ?case by simp
next
  case (3 m f e pending visited ds)
  then show ?case using visit_dependents_less [of e visited m ds pending] by simp
qed simp

definition checkAllDependentsSucceeded ::
  "('p, 'r) entry_state \<Rightarrow> ('p, 'r) entry_states \<Rightarrow> ('p, 'r) entry_states \<Rightarrow> state_error + bool" where
  "checkAllDependentsSucceeded entry allEntries failed =
     (case getEntryDependents allEntries entry None of
        Inl err \<Rightarrow> Inl err
      | Inr ds \<Rightarrow>
          (case visit_dependents allEntries failed ds [] of
             Inl err \<Rightarrow> Inl err
           | Inr visited \<Rightarrow> Inr (visited \<noteq> None)))"

section \<open>Applying one step\<close>

definition getEntryHandler ::
  "('p, 'r) apply_handlers \<Rightarrow> ('p, 'r) entry_state \<Rightarrow> state_error + ('p, 'r) apply_handler" where
  "getEntryHandler handlers e =
     (case handlers (entry_type e) of
        None \<Rightarrow> Inl (HandlerNotFoundError (entry_type e) (entryId e))
      | Some handler \<Rightarrow> Inr handler)"

definition build_context ::
  "bool \<Rightarrow> ('p, 'r) entry_states \<Rightarrow> ('p, 'r) entry_states \<Rightarrow> ('p, 'r) entry_state \<Rightarrow> ('p, 'r) step_context" where
  "build_context force processed completed e =
     \<lparr>ctx_force = force,
      ctx_getDependencies = getEntryDependencies processed e,
      ctx_getConnections = getEntryConnections completed e,
      ctx_getDependents = getEntryDependents completed e\<rparr>"

text \<open>The post actions a run registers for an entry, as the entry is when the step has ended.\<close>

definition post_entries ::
  "step_action \<Rightarrow> ('p, 'r) entry_state \<Rightarrow> (post_callback \<times> bool) list \<Rightarrow> ('p, 'r) post_action_entry list" where
  "post_entries a e registered =
     map (\<lambda>(callback, required). \<lparr>post_callback = callback, requireDependents = required,
        post_step_action = a, post_entry = e\<rparr>) registered"

definition with_warnings :: "string list \<Rightarrow> issues" where
  "with_warnings ws = (if ws = [] then NoIssues else Warnings ws)"

text \<open>
  The end of a change: a resolved handler gives the entry with its result, a rejected one the
  old entry with the error. \<open>keep\<close> tells what the entry holds when the handler resolves to
  nothing.
\<close>

definition finish_change ::
  "step_action \<Rightarrow> ('p, 'r) entry_state \<Rightarrow> ('p, 'r) entry_state option \<Rightarrow> 'r option \<Rightarrow> 'r option handler_run \<Rightarrow>
   ('p, 'r) step_result \<times> ('p, 'r) post_action_entry list" where
  "finish_change a e oldEntry keep run =
     (case run_outcome run of
        Inl err \<Rightarrow> ((oldEntry, Failure err), post_entries a e (run_registered run))
      | Inr result \<Rightarrow>
          let e' = e\<lparr>entry_result := (case result of None \<Rightarrow> keep | Some r \<Rightarrow> Some r)\<rparr>
          in ((Some e', with_warnings (run_warnings run)), post_entries a e' (run_registered run)))"

definition applyCreate ::
  "nat \<Rightarrow> bool \<Rightarrow> ('p, 'r) entry_states \<Rightarrow> ('p, 'r) entry_states \<Rightarrow> ('p, 'r) entry_states \<Rightarrow>
   ('p, 'r) apply_handler \<Rightarrow> string \<Rightarrow> ('p, 'r) entry_state \<Rightarrow> ('p, 'r) step_result \<times> ('p, 'r) post_action_entry list" where
  "applyCreate stack force newEntries oldEntries succeeded handler k e =
     (case checkAllSucceeded stack (dependencies e) succeeded of
        Inl err \<Rightarrow> ((entry_at oldEntries k, Failure err), [])
      | Inr ok \<Rightarrow>
          if \<not> ok then ((entry_at oldEntries k, Failure (SkipFailedEntryDependencyError k)), [])
          else finish_change Create e (entry_at oldEntries k) None
                 (handler_create handler e (build_context force succeeded newEntries e)))"

definition applyUpdate ::
  "nat \<Rightarrow> bool \<Rightarrow> ('p, 'r) entry_states \<Rightarrow> ('p, 'r) entry_states \<Rightarrow> ('p, 'r) entry_states \<Rightarrow>
   ('p, 'r) apply_handler \<Rightarrow> object_comparison option \<Rightarrow> string \<Rightarrow> ('p, 'r) entry_state \<Rightarrow>
   ('p, 'r) step_result \<times> ('p, 'r) post_action_entry list" where
  "applyUpdate stack force newEntries oldEntries succeeded handler changes k e =
     (case checkAllSucceeded stack (dependencies e) succeeded of
        Inl err \<Rightarrow> ((entry_at oldEntries k, Failure err), [])
      | Inr ok \<Rightarrow>
          if \<not> ok then ((entry_at oldEntries k, Failure (SkipFailedEntryDependencyError k)), [])
          else (case getEntry oldEntries k of
                  Inl err \<Rightarrow> ((entry_at oldEntries k, Failure err), [])
                | Inr old \<Rightarrow>
                    if \<not> force \<and> (case changes of None \<Rightarrow> True | Some c \<Rightarrow> oc_counts c \<le> 0)
                    then ((Some (old\<lparr>dependencies := dependencies e, connections := connections e\<rparr>), NoIssues), [])
                    else finish_change Update e (entry_at oldEntries k) (entry_result e)
                           (handler_update handler e old (build_context force succeeded newEntries e))))"

definition applyReplace ::
  "nat \<Rightarrow> bool \<Rightarrow> ('p, 'r) entry_states \<Rightarrow> ('p, 'r) entry_states \<Rightarrow> ('p, 'r) entry_states \<Rightarrow>
   ('p, 'r) apply_handler \<Rightarrow> string \<Rightarrow> ('p, 'r) entry_state \<Rightarrow> ('p, 'r) step_result \<times> ('p, 'r) post_action_entry list" where
  "applyReplace stack force newEntries oldEntries succeeded handler k e =
     (case checkAllSucceeded stack (dependencies e) succeeded of
        Inl err \<Rightarrow> ((entry_at oldEntries k, Failure err), [])
      | Inr ok \<Rightarrow>
          if \<not> ok then ((entry_at oldEntries k, Failure (SkipFailedEntryDependencyError k)), [])
          else (case getEntry oldEntries k of
                  Inl err \<Rightarrow> ((entry_at oldEntries k, Failure err), [])
                | Inr old \<Rightarrow> finish_change Replace e (entry_at oldEntries k) (entry_result e)
                    (handler_replace handler e old (build_context force succeeded newEntries e))))"

definition applyDelete ::
  "bool \<Rightarrow> ('p, 'r) entry_states \<Rightarrow> ('p, 'r) entry_states \<Rightarrow> ('p, 'r) entry_states \<Rightarrow>
   ('p, 'r) apply_handler \<Rightarrow> string \<Rightarrow> ('p, 'r) entry_state \<Rightarrow> ('p, 'r) step_result \<times> ('p, 'r) post_action_entry list" where
  "applyDelete force newEntries oldEntries failed handler k e =
     (case getEntryDependents failed e None of
        Inl err \<Rightarrow> ((entry_at oldEntries k, Failure err), [])
      | Inr (_ # _) \<Rightarrow> ((entry_at oldEntries k, Failure (SkipFailedEntryDependencyError k)), [])
      | Inr [] \<Rightarrow>
          let run = handler_delete handler e (build_context force oldEntries oldEntries e)
          in (case run_outcome run of
                Inl err \<Rightarrow> ((entry_at oldEntries k, Failure err), post_entries Delete e (run_registered run))
              | Inr _ \<Rightarrow>
                  if run_warnings run = [] then ((None, NoIssues), post_entries Delete e (run_registered run))
                  else let e' = e\<lparr>dependencies := filter (\<lambda>d. entry_at newEntries d \<noteq> None) (dependencies e),
                                  connections := None\<rparr>
                       in ((Some e', Warnings (run_warnings run)), post_entries Delete e' (run_registered run))))"

text \<open>
  The maps of a running deployment: the new entries, updated by every result, the succeeded and
  the failed ones, and what was reported.
\<close>

record ('p, 'r) apply_state =
  allNewEntries :: "('p, 'r) entry_states"
  succeededEntries :: "('p, 'r) entry_states"
  failedEntries :: "('p, 'r) entry_states"
  warningList :: "string list"
  errorList :: "state_error list"

definition applyPendingStep ::
  "nat \<Rightarrow> bool \<Rightarrow> ('p, 'r) apply_handlers \<Rightarrow> ('p, 'r) entry_states \<Rightarrow> ('p, 'r) apply_state \<Rightarrow> step_state \<Rightarrow>
   state_error + ('p, 'r) step_result \<times> ('p, 'r) post_action_entry list" where
  "applyPendingStep stack force handlers oldEntries st s =
     (case getEntry (if action s \<noteq> Delete then allNewEntries st else oldEntries) (step_entryId s) of
        Inl err \<Rightarrow> Inl err
      | Inr candidate \<Rightarrow>
          (case getEntryHandler handlers candidate of
             Inl err \<Rightarrow> Inl err
           | Inr handler \<Rightarrow> Inr
               (case action s of
                  Create \<Rightarrow> applyCreate stack force (allNewEntries st) oldEntries (succeededEntries st) handler (step_entryId s) candidate
                | Update \<Rightarrow> applyUpdate stack force (allNewEntries st) oldEntries (succeededEntries st) handler
                    (step_preview s) (step_entryId s) candidate
                | Replace \<Rightarrow> applyReplace stack force (allNewEntries st) oldEntries (succeededEntries st) handler (step_entryId s) candidate
                | Delete \<Rightarrow> applyDelete force (allNewEntries st) oldEntries (failedEntries st) handler (step_entryId s) candidate)))"

section \<open>Applying the steps in order\<close>

definition findPendingByOrder :: "step_state list \<Rightarrow> nat \<Rightarrow> step_state list" where
  "findPendingByOrder stepList i = filter (\<lambda>s. order s = i) stepList"

text \<open>\<open>Tasks.run\<close> over the steps of one order: their results, or the error of the first that throws.\<close>

fun run_steps ::
  "nat \<Rightarrow> bool \<Rightarrow> ('p, 'r) apply_handlers \<Rightarrow> ('p, 'r) entry_states \<Rightarrow> ('p, 'r) apply_state \<Rightarrow> step_state list \<Rightarrow>
   state_error + ('p, 'r) step_result list \<times> ('p, 'r) post_action_entry list" where
  "run_steps stack force handlers oldEntries st [] = Inr ([], [])"
| "run_steps stack force handlers oldEntries st (s # ss) =
     (case applyPendingStep stack force handlers oldEntries st s of
        Inl err \<Rightarrow> Inl err
      | Inr (result, posts) \<Rightarrow>
          (case run_steps stack force handlers oldEntries st ss of
             Inl err \<Rightarrow> Inl err
           | Inr (results, posts') \<Rightarrow> Inr (result # results, posts @ posts')))"

text \<open>The loop over the results of one order.\<close>

fun record_result :: "('p, 'r) step_result \<Rightarrow> ('p, 'r) apply_state \<Rightarrow> ('p, 'r) apply_state" where
  "record_result (entry, issues) st =
     (let st1 = (case entry of
                   None \<Rightarrow> st
                 | Some e \<Rightarrow>
                     let st' = st\<lparr>allNewEntries := obj_set (entryId e) (Some e) (allNewEntries st)\<rparr>
                     in if issues = NoIssues
                        then st'\<lparr>succeededEntries := obj_set (entryId e) (Some e) (succeededEntries st)\<rparr>
                        else st'\<lparr>failedEntries := obj_set (entryId e) (Some e) (failedEntries st)\<rparr>)
      in (case issues of
            NoIssues \<Rightarrow> st1
          | Warnings ws \<Rightarrow> st1\<lparr>warningList := warningList st1 @ ws\<rparr>
          | Failure err \<Rightarrow> st1\<lparr>errorList := errorList st1 @ [err]\<rparr>))"

lemma remaining_less:
  "findPendingByOrder steps i \<noteq> [] \<Longrightarrow>
   length (filter (\<lambda>s. Suc i \<le> order s) steps) < length (filter (\<lambda>s. i \<le> order s) steps)"
proof (induction steps)
  case (Cons s steps)
  have le: "length (filter (\<lambda>s. Suc i \<le> order s) steps) \<le> length (filter (\<lambda>s. i \<le> order s) steps)"
    by (induction steps) auto
  with Cons show ?case by (cases "order s = i") (auto simp: findPendingByOrder_def)
qed (simp add: findPendingByOrder_def)

text \<open>
  The loop over the orders, from order \<open>i\<close>. It collects the post actions of each order that has
  some, and ends at the first order without steps.
\<close>

function apply_orders ::
  "nat \<Rightarrow> bool \<Rightarrow> ('p, 'r) apply_handlers \<Rightarrow> ('p, 'r) entry_states \<Rightarrow> step_state list \<Rightarrow> nat \<Rightarrow>
   ('p, 'r) apply_state \<Rightarrow> ('p, 'r) post_action_entry list list \<Rightarrow>
   state_error + ('p, 'r) apply_state \<times> ('p, 'r) post_action_entry list list" where
  "apply_orders stack force handlers oldEntries steps i st allPostActions =
     (if findPendingByOrder steps i = [] then Inr (st, allPostActions)
      else (case run_steps stack force handlers oldEntries st (findPendingByOrder steps i) of
              Inl err \<Rightarrow> Inl err
            | Inr (results, postActions) \<Rightarrow>
                apply_orders stack force handlers oldEntries steps (Suc i) (fold record_result results st)
                  (if postActions = [] then allPostActions else allPostActions @ [postActions])))"
  by pat_completeness auto
termination
  by (relation "measure (\<lambda>(stack, force, h, old, steps, i, st, posts). length (filter (\<lambda>s. i \<le> order s) steps))")
    (simp_all add: remaining_less)

declare apply_orders.simps [simp del]

definition apply_start :: "('p, 'r) entry_states option \<Rightarrow> ('p, 'r) apply_state" where
  "apply_start newEntries = \<lparr>allNewEntries = entries_of newEntries, succeededEntries = [],
     failedEntries = [], warningList = [], errorList = []\<rparr>"

section \<open>Post actions\<close>

text \<open>The result map \<open>{ ...succeededEntries, ...failedEntries }\<close>.\<close>

definition result_entries :: "('p, 'r) apply_state \<Rightarrow> ('p, 'r) entry_states" where
  "result_entries st = obj_spread (succeededEntries st) (failedEntries st)"

text \<open>
  What \<open>applyPostAction\<close> checks before it invokes the callback: the error it throws, if any.
\<close>

definition post_guard :: "nat \<Rightarrow> ('p, 'r) post_action_entry \<Rightarrow> ('p, 'r) apply_state \<Rightarrow> state_error option" where
  "post_guard stack pa st =
     (let e = post_entry pa; k = entryId e
      in if entry_at (failedEntries st) k \<noteq> None \<or>
            (entry_at (succeededEntries st) k = None \<and> post_step_action pa \<noteq> Delete)
         then Some (SkipFailedEntryError k)
         else (case (if entry_at (succeededEntries st) k = None then Inr True
                     else checkAllSucceeded stack (dependencies e) (succeededEntries st)) of
                 Inl err \<Rightarrow> Some err
               | Inr False \<Rightarrow> Some (SkipFailedEntryDependencyError k)
               | Inr True \<Rightarrow>
                   if \<not> requireDependents pa then None
                   else (case checkAllDependentsSucceeded e (result_entries st) (failedEntries st) of
                           Inl err \<Rightarrow> Some err
                         | Inr ok \<Rightarrow> if ok then None else Some (SkipFailedEntryDependentError k))))"

definition post_failed :: "('p, 'r) post_action_entry \<Rightarrow> state_error \<Rightarrow> ('p, 'r) apply_state \<Rightarrow> ('p, 'r) apply_state" where
  "post_failed pa err st = st\<lparr>errorList := errorList st @ [err],
     succeededEntries := obj_delete (entryId (post_entry pa)) (succeededEntries st),
     failedEntries := obj_set (entryId (post_entry pa))
       (Some ((post_entry pa)\<lparr>entry_partial := Some True\<rparr>)) (failedEntries st)\<rparr>"

fun callback_error :: "post_callback \<Rightarrow> state_error option" where
  "callback_error (Callback err registered) = err"

fun callback_registers :: "post_callback \<Rightarrow> (post_callback \<times> bool) list" where
  "callback_registers (Callback err registered) = registered"

definition registered_by :: "('p, 'r) post_action_entry \<Rightarrow> post_callback \<times> bool \<Rightarrow> ('p, 'r) post_action_entry" where
  "registered_by pa c = pa\<lparr>post_callback := fst c, requireDependents := snd c\<rparr>"

text \<open>
  The loop over the batches of post actions while \<open>Tasks.run\<close> works on one of them: the
  batches to come, the actions of the current batch that no worker has taken, those that run,
  with the post actions each has still to register, and the registered ones, which become a
  batch of their own.
\<close>

record ('p, 'r) post_state =
  ps_state :: "('p, 'r) apply_state"
  ps_batches :: "('p, 'r) post_action_entry list list"
  ps_waiting :: "('p, 'r) post_action_entry list"
  ps_running :: "(('p, 'r) post_action_entry \<times> (post_callback \<times> bool) list) list"
  ps_registered :: "('p, 'r) post_action_entry list"

definition post_start :: "('p, 'r) apply_state \<Rightarrow> ('p, 'r) post_action_entry list list \<Rightarrow> ('p, 'r) post_state" where
  "post_start st batches = \<lparr>ps_state = st, ps_batches = batches, ps_waiting = [], ps_running = [], ps_registered = []\<rparr>"

definition post_done :: "('p, 'r) post_state \<Rightarrow> bool" where
  "post_done ps = (ps_batches ps = [] \<and> ps_waiting ps = [] \<and> ps_running ps = [] \<and> ps_registered ps = [])"

text \<open>
  A step of the second phase. The handlers of one order register their post actions in whatever
  order they happen to run, so a free worker may take any waiting action. The checks and the
  invocation of the callback are one step, as nothing is awaited between them.
\<close>

inductive post_step :: "nat \<Rightarrow> nat \<Rightarrow> ('p, 'r) post_state \<Rightarrow> ('p, 'r) post_state \<Rightarrow> bool"
  for concurrency stack :: nat where
  next_batch: "ps_waiting ps = [] \<Longrightarrow> ps_running ps = [] \<Longrightarrow> ps_registered ps = [] \<Longrightarrow> ps_batches ps = b # bs \<Longrightarrow>
    post_step concurrency stack ps (ps\<lparr>ps_batches := bs, ps_waiting := b\<rparr>)"
| end_batch: "ps_waiting ps = [] \<Longrightarrow> ps_running ps = [] \<Longrightarrow> ps_registered ps \<noteq> [] \<Longrightarrow>
    post_step concurrency stack ps (ps\<lparr>ps_batches := ps_batches ps @ [ps_registered ps], ps_registered := []\<rparr>)"
| skip: "ps_waiting ps = xs @ pa # ys \<Longrightarrow> length (ps_running ps) < concurrency \<Longrightarrow>
    post_guard stack pa (ps_state ps) = Some err \<Longrightarrow>
    post_step concurrency stack ps (ps\<lparr>ps_waiting := xs @ ys, ps_state := post_failed pa err (ps_state ps)\<rparr>)"
| start: "ps_waiting ps = xs @ pa # ys \<Longrightarrow> length (ps_running ps) < concurrency \<Longrightarrow>
    post_guard stack pa (ps_state ps) = None \<Longrightarrow>
    post_step concurrency stack ps (ps\<lparr>ps_waiting := xs @ ys,
      ps_running := ps_running ps @ [(pa, callback_registers (post_callback pa))]\<rparr>)"
| register: "ps_running ps = xs @ (pa, c # cs) # ys \<Longrightarrow>
    post_step concurrency stack ps (ps\<lparr>ps_running := xs @ (pa, cs) # ys,
      ps_registered := ps_registered ps @ [registered_by pa c]\<rparr>)"
| finish: "ps_running ps = xs @ (pa, []) # ys \<Longrightarrow> callback_error (post_callback pa) = None \<Longrightarrow>
    post_step concurrency stack ps (ps\<lparr>ps_running := xs @ ys\<rparr>)"
| reject: "ps_running ps = xs @ (pa, []) # ys \<Longrightarrow> callback_error (post_callback pa) = Some err \<Longrightarrow>
    post_step concurrency stack ps (ps\<lparr>ps_running := xs @ ys, ps_state := post_failed pa err (ps_state ps)\<rparr>)"

text \<open>The first phase, from the checks of the arguments to the last order.\<close>

definition apply_changes ::
  "nat \<Rightarrow> bool \<Rightarrow> ('p, 'r) apply_handlers \<Rightarrow> step_state list \<Rightarrow> ('p, 'r) entry_states option \<Rightarrow>
   ('p, 'r) entry_states option \<Rightarrow> state_error + ('p, 'r) apply_state \<times> ('p, 'r) post_action_entry list list" where
  "apply_changes stack force handlers steps newEntries oldEntries =
     (if newEntries = None \<and> oldEntries = None then Inl EntriesNotFoundError
      else apply_orders stack force handlers (entries_of oldEntries) steps 0 (apply_start newEntries) [])"

text \<open>
  \<open>applySteps\<close> returns \<open>st\<close>: the first phase succeeds and some run of the second ends in \<open>st\<close>.
\<close>

definition applySteps ::
  "nat \<Rightarrow> nat \<Rightarrow> bool \<Rightarrow> ('p, 'r) apply_handlers \<Rightarrow> step_state list \<Rightarrow> ('p, 'r) entry_states option \<Rightarrow>
   ('p, 'r) entry_states option \<Rightarrow> ('p, 'r) apply_state \<Rightarrow> bool" where
  "applySteps concurrency stack force handlers steps newEntries oldEntries st =
     (\<exists>st0 posts ps. apply_changes stack force handlers steps newEntries oldEntries = Inr (st0, posts) \<and>
        (post_step concurrency stack)\<^sup>*\<^sup>* (post_start st0 posts) ps \<and> post_done ps \<and> ps_state ps = st)"

section \<open>Post actions come to an end\<close>

fun callback_weight :: "post_callback \<Rightarrow> nat" where
  "callback_weight (Callback err registered) = 4 + sum_list (map (\<lambda>c. 3 + callback_weight (fst c)) registered)"

definition posts_weight :: "('p, 'r) post_action_entry list \<Rightarrow> nat" where
  "posts_weight pas = sum_list (map (\<lambda>pa. callback_weight (post_callback pa)) pas)"

definition children_weight :: "(post_callback \<times> bool) list \<Rightarrow> nat" where
  "children_weight cs = sum_list (map (\<lambda>c. 3 + callback_weight (fst c)) cs)"

definition post_weight :: "('p, 'r) post_state \<Rightarrow> nat" where
  "post_weight ps = sum_list (map (\<lambda>b. 1 + posts_weight b) (ps_batches ps)) + posts_weight (ps_waiting ps) +
     sum_list (map (\<lambda>(pa, cs). 1 + children_weight cs) (ps_running ps)) +
     (if ps_registered ps = [] then 0 else 2 + posts_weight (ps_registered ps))"

lemma callback_weight_registers: "callback_weight c = 4 + children_weight (callback_registers c)"
  by (cases c) (simp add: children_weight_def)

lemma posts_weight_simps [simp]: "posts_weight [] = 0"
  "posts_weight (pa # pas) = callback_weight (post_callback pa) + posts_weight pas"
  "posts_weight (xs @ ys) = posts_weight xs + posts_weight ys"
  by (simp_all add: posts_weight_def)

lemma post_step_weight: "post_step concurrency stack ps ps' \<Longrightarrow> post_weight ps' < post_weight ps"
  by (induction rule: post_step.induct)
    (auto simp: post_weight_def registered_by_def callback_weight_registers [of "post_callback _"]
      children_weight_def)

lemma post_step_progress:
  assumes "0 < concurrency" and "\<not> post_done ps"
  shows "\<exists>ps'. post_step concurrency stack ps ps'"
proof (cases "ps_running ps")
  case (Cons r rs)
  obtain pa cs where r: "r = (pa, cs)" by fastforce
  show ?thesis
  proof (cases cs)
    case Nil
    then show ?thesis
      using Cons r post_step.finish [of ps "[]" pa rs] post_step.reject [of ps "[]" pa rs]
      by (cases "callback_error (post_callback pa)") auto
  next
    case (Cons c cs')
    then show ?thesis
      using \<open>ps_running ps = r # rs\<close> r post_step.register [of ps "[]" pa c cs' rs] by auto
  qed
next
  case Nil
  show ?thesis
  proof (cases "ps_waiting ps")
    case (Cons pa rest)
    then show ?thesis
      using assms(1) Nil post_step.skip [of ps "[]" pa rest concurrency stack]
        post_step.start [of ps "[]" pa rest concurrency stack]
      by (cases "post_guard stack pa (ps_state ps)") auto
  next
    case empty: Nil
    show ?thesis
      using assms(2) Nil empty post_step.end_batch [of ps concurrency stack]
        post_step.next_batch [of ps _ _ concurrency stack]
      by (cases "ps_registered ps"; cases "ps_batches ps") (auto simp: post_done_def)
  qed
qed

lemma post_steps_end:
  assumes "0 < concurrency"
  shows "\<exists>ps'. (post_step concurrency stack)\<^sup>*\<^sup>* ps ps' \<and> post_done ps'"
proof (induction "post_weight ps" arbitrary: ps rule: less_induct)
  case less
  show ?case
  proof (cases "post_done ps")
    case True
    then show ?thesis by blast
  next
    case False
    then obtain ps1 where step: "post_step concurrency stack ps ps1"
      using post_step_progress [OF assms] by blast
    with less post_step_weight [OF step] show ?thesis by (meson converse_rtranclp_into_rtranclp)
  qed
qed

section \<open>What one step returns\<close>

lemma checkAllSucceeded_direct:
  "checkAllSucceeded stack ds m = Inr True \<Longrightarrow> d \<in> set ds \<Longrightarrow> has_entry m d"
proof (induction stack ds m rule: checkAllSucceeded.induct)
  case (3 stack d' ds m)
  then show ?case by (auto simp: has_entry_def split: option.splits sum.splits if_splits)
qed auto

definition all_in :: "('p, 'r) entry_states \<Rightarrow> ('p, 'r) entry_state \<Rightarrow> bool" where
  "all_in m e = (\<forall>d \<in> set (dependencies e). has_entry m d)"

text \<open>The result of a change: the entry with its new dependencies, all succeeded, or the old entry.\<close>

definition change_outcome ::
  "('p, 'r) entry_states \<Rightarrow> ('p, 'r) entry_states \<Rightarrow> string \<Rightarrow>
   ('p, 'r) step_result \<times> ('p, 'r) post_action_entry list \<Rightarrow> bool" where
  "change_outcome old succeeded k r =
     ((if snd (fst r) = NoIssues \<or> fst (fst r) \<noteq> entry_at old k
       then \<exists>e. fst (fst r) = Some e \<and> entryId e = k \<and> all_in succeeded e else True) \<and>
      (\<forall>pa \<in> set (snd r). post_step_action pa \<noteq> Delete \<and> entryId (post_entry pa) = k \<and>
         all_in succeeded (post_entry pa)))"

lemma finish_change_outcome:
  assumes "all_in succeeded e" and "entryId e = k" and "a \<noteq> Delete"
  shows "change_outcome old succeeded k (finish_change a e (entry_at old k) keep run)"
  using assms
  by (auto simp: change_outcome_def finish_change_def post_entries_def all_in_def with_warnings_def Let_def
      split: sum.splits option.splits)

lemma failure_outcome: "change_outcome old succeeded k ((entry_at old k, Failure err), [])"
  by (simp add: change_outcome_def)

lemma checked_outcome:
  assumes "checkAllSucceeded stack (dependencies e) succeeded = Inr True \<Longrightarrow> change_outcome old succeeded k r"
  shows "change_outcome old succeeded k
    (case checkAllSucceeded stack (dependencies e) succeeded of
       Inl err \<Rightarrow> ((entry_at old k, Failure err), [])
     | Inr ok \<Rightarrow> if \<not> ok then ((entry_at old k, Failure (SkipFailedEntryDependencyError k)), []) else r)"
  using assms by (auto simp: failure_outcome split: sum.split)

lemma checked_all_in: "checkAllSucceeded stack (dependencies e) succeeded = Inr True \<Longrightarrow> all_in succeeded e"
  by (auto simp: all_in_def dest: checkAllSucceeded_direct)

lemma applyCreate_outcome:
  "entryId e = k \<Longrightarrow> change_outcome old succeeded k (applyCreate stack force n old succeeded handler k e)"
  unfolding applyCreate_def
  by (rule checked_outcome) (auto intro: finish_change_outcome checked_all_in)

lemma applyUpdate_outcome:
  assumes "entryId e = k" and "\<And>f. entry_at old k = Some f \<Longrightarrow> entryId f = k"
  shows "change_outcome old succeeded k (applyUpdate stack force n old succeeded handler p k e)"
  unfolding applyUpdate_def
proof (rule checked_outcome)
  assume "checkAllSucceeded stack (dependencies e) succeeded = Inr True"
  then have ok: "all_in succeeded e" by (rule checked_all_in)
  have unchanged: "change_outcome old succeeded k
      ((Some (f\<lparr>dependencies := dependencies e, connections := connections e\<rparr>), NoIssues), [])"
    if "entry_at old k = Some f" for f
    using assms(2) [OF that] ok by (simp add: change_outcome_def all_in_def)
  show "change_outcome old succeeded k
    (case getEntry old k of
       Inl err \<Rightarrow> ((entry_at old k, Failure err), [])
     | Inr f \<Rightarrow>
         if \<not> force \<and> (case p of None \<Rightarrow> True | Some c \<Rightarrow> oc_counts c \<le> 0)
         then ((Some (f\<lparr>dependencies := dependencies e, connections := connections e\<rparr>), NoIssues), [])
         else finish_change Update e (entry_at old k) (entry_result e)
                (handler_update handler e f (build_context force succeeded n e)))"
  proof (cases "entry_at old k")
    case None
    then show ?thesis using failure_outcome [of old succeeded k] by (simp add: getEntry_def)
  next
    case (Some f)
    then show ?thesis
      using unchanged [OF Some] finish_change_outcome [OF ok assms(1), of Update old]
      by (simp add: getEntry_def)
  qed
qed

lemma applyReplace_outcome:
  assumes "entryId e = k"
  shows "change_outcome old succeeded k (applyReplace stack force n old succeeded handler k e)"
  unfolding applyReplace_def
proof (rule checked_outcome)
  assume "checkAllSucceeded stack (dependencies e) succeeded = Inr True"
  then have ok: "all_in succeeded e" by (rule checked_all_in)
  show "change_outcome old succeeded k
    (case getEntry old k of
       Inl err \<Rightarrow> ((entry_at old k, Failure err), [])
     | Inr f \<Rightarrow> finish_change Replace e (entry_at old k) (entry_result e)
                 (handler_replace handler e f (build_context force succeeded n e)))"
    using failure_outcome [of old succeeded k] finish_change_outcome [OF ok assms, of Replace old]
    by (cases "entry_at old k") (simp_all add: getEntry_def)
qed

text \<open>
  The result of a deletion: the entry is gone and no failed entry depends on it, or it stays,
  unchanged or with those of its dependencies that still exist.
\<close>

definition delete_outcome ::
  "('p, 'r) entry_states \<Rightarrow> ('p, 'r) entry_states \<Rightarrow> ('p, 'r) entry_state \<Rightarrow>
   ('p, 'r) step_result \<times> ('p, 'r) post_action_entry list \<Rightarrow> bool" where
  "delete_outcome n failed e r =
     ((case fst (fst r) of
         None \<Rightarrow> snd (fst r) = NoIssues \<and> getEntryDependents failed e None = Inr [] 
       | Some f \<Rightarrow> snd (fst r) \<noteq> NoIssues \<and> entryId f = entryId e \<and> set (dependencies f) \<subseteq> set (dependencies e) \<and>
           (f = e \<or> all_in n f)) \<and>
      (\<forall>pa \<in> set (snd r). post_step_action pa = Delete \<and> entryId (post_entry pa) = entryId e \<and>
         (\<forall>f. fst (fst r) = Some f \<longrightarrow> dependencies (post_entry pa) = dependencies f)))"

lemma applyDelete_outcome:
  assumes "entry_at old k = Some e"
  shows "delete_outcome n failed e (applyDelete force n old failed handler k e)"
proof (cases "getEntryDependents failed e None = Inr []")
  case False
  then show ?thesis
    using assms by (auto simp: applyDelete_def delete_outcome_def split: sum.splits list.splits)
next
  case True
  have posts: "post_step_action pa = Delete \<and> post_entry pa = f"
    if "pa \<in> set (post_entries Delete f cs)" for pa cs and f :: "('a, 'b) entry_state"
    using that by (auto simp: post_entries_def)
  show ?thesis
    using True assms posts
    by (auto simp: applyDelete_def delete_outcome_def all_in_def has_entry_def Let_def split: sum.splits)
qed

section \<open>The state stays loadable during the steps\<close>

text \<open>What the first phase relies on of a plan; \<open>planSteps\<close> provides it.\<close>

definition sound_plan :: "('p, 'r) entry_states \<Rightarrow> ('p, 'r) entry_states \<Rightarrow> step_state list \<Rightarrow> bool" where
  "sound_plan n old steps =
     (valid_map n \<and> valid_map old \<and> distinct (map step_entryId steps) \<and>
      (\<forall>s \<in> set steps. if action s = Delete then has_entry old (step_entryId s) \<and> \<not> has_entry n (step_entryId s)
                       else has_entry n (step_entryId s)) \<and>
      (\<forall>k. has_entry n k \<or> has_entry old k \<longrightarrow> k \<in> step_entryId ` set steps) \<and>
      (\<forall>s \<in> set steps. \<forall>t \<in> set steps. action t = Delete \<longrightarrow>
         action s \<noteq> Delete \<or> depends_on old (step_entryId s) (step_entryId t) \<longrightarrow> order s < order t) \<and>
      (\<exists>m. order ` set steps = {..<m}))"

lemma planSteps_sound:
  assumes "valid_map (entries_of new)" and "valid_map (entries_of old)"
    and "planSteps new old handlers force = Inr steps"
  shows "sound_plan (entries_of new) (entries_of old) steps"
proof -
  note c = planSteps_complete [OF assms] and o = planSteps_ordered [OF assms]
  have "if action s = Delete then has_entry (entries_of old) (step_entryId s) \<and> \<not> has_entry (entries_of new) (step_entryId s)
      else has_entry (entries_of new) (step_entryId s)" if "s \<in> set steps" for s
    using c(2,3) that by auto
  moreover have "k \<in> step_entryId ` set steps" if "has_entry (entries_of new) k \<or> has_entry (entries_of old) k" for k
    using c(2,3) that by blast
  moreover have "order s < order t" if "s \<in> set steps" "t \<in> set steps" "action t = Delete"
    "action s \<noteq> Delete \<or> depends_on (entries_of old) (step_entryId s) (step_entryId t)" for s t
    using o(2,3) that by blast
  ultimately show ?thesis unfolding sound_plan_def using assms(1,2) c(1,4) by blast
qed

definition has_result :: "('p, 'r) apply_state \<Rightarrow> string \<Rightarrow> bool" where
  "has_result st k = (has_entry (succeededEntries st) k \<or> has_entry (failedEntries st) k)"

definition defined_map :: "('p, 'r) entry_states \<Rightarrow> bool" where
  "defined_map m = (obj_ok m \<and> (\<forall>k \<in> set (obj_keys m). has_entry m k) \<and>
     (\<forall>k e. entry_at m k = Some e \<longrightarrow> entryId e = k))"

text \<open>
  The invariant of the first phase, for the identifiers \<open>D\<close> of the steps applied so far. An entry
  that failed keeps dependencies of its old version; those have succeeded, have a step to come or
  have a result of their own.
\<close>

definition apply_inv ::
  "('p, 'r) entry_states \<Rightarrow> ('p, 'r) entry_states \<Rightarrow> string set \<Rightarrow> ('p, 'r) apply_state \<Rightarrow> bool" where
  "apply_inv n old D st =
     (defined_map (succeededEntries st) \<and> defined_map (failedEntries st) \<and>
      (\<forall>k e. entry_at (succeededEntries st) k = Some e \<longrightarrow> all_in (succeededEntries st) e) \<and>
      (\<forall>k e. entry_at (failedEntries st) k = Some e \<longrightarrow> (\<forall>d \<in> set (dependencies e).
         has_entry (succeededEntries st) d \<or> (depends_on old k d \<and> (d \<in> D \<longrightarrow> has_result st d)))) \<and>
      (\<forall>k \<in> D. has_entry n k \<and> has_entry old k \<longrightarrow> has_result st k) \<and>
      (\<forall>k. has_result st k \<longrightarrow> k \<in> D) \<and>
      (\<forall>k. has_entry (allNewEntries st) k \<longrightarrow> has_entry n k \<or> has_entry (failedEntries st) k) \<and>
      (\<forall>k. k \<notin> D \<longrightarrow> entry_at (allNewEntries st) k = entry_at n k))"

lemma has_entry_set [simp]: "has_entry (obj_set k (Some e) m) k' \<longleftrightarrow> k' = k \<or> has_entry m k'"
  by (simp add: has_entry_def)

lemma has_entry_delete [simp]: "has_entry (obj_delete k m) k' \<longleftrightarrow> k' \<noteq> k \<and> has_entry m k'"
  by (simp add: has_entry_def)

lemma defined_map_set: "defined_map m \<Longrightarrow> entryId e = k \<Longrightarrow> defined_map (obj_set k (Some e) m)"
  by (auto simp: defined_map_def)

lemma defined_map_delete: "defined_map m \<Longrightarrow> defined_map (obj_delete k m)"
  by (auto simp: defined_map_def split: if_splits)

lemma all_in_mono: "all_in m e \<Longrightarrow> (\<And>d. has_entry m d \<Longrightarrow> has_entry m' d) \<Longrightarrow> all_in m' e"
  by (auto simp: all_in_def)

lemma record_result_maps [simp]:
  "succeededEntries (record_result (entry, issues) st) =
     (case entry of Some e \<Rightarrow> if issues = NoIssues then obj_set (entryId e) (Some e) (succeededEntries st)
                              else succeededEntries st | None \<Rightarrow> succeededEntries st)"
  "failedEntries (record_result (entry, issues) st) =
     (case entry of Some e \<Rightarrow> if issues = NoIssues then failedEntries st
                              else obj_set (entryId e) (Some e) (failedEntries st) | None \<Rightarrow> failedEntries st)"
  "allNewEntries (record_result (entry, issues) st) =
     (case entry of Some e \<Rightarrow> obj_set (entryId e) (Some e) (allNewEntries st) | None \<Rightarrow> allNewEntries st)"
  by (simp_all add: Let_def split: option.split issues.split)

declare record_result.simps [simp del]

lemma apply_invD:
  assumes "apply_inv n old D st"
  shows "defined_map (succeededEntries st)" and "defined_map (failedEntries st)"
    and "entry_at (succeededEntries st) k = Some e \<Longrightarrow> all_in (succeededEntries st) e"
    and "entry_at (failedEntries st) k = Some e \<Longrightarrow> d \<in> set (dependencies e) \<Longrightarrow>
      has_entry (succeededEntries st) d \<or> (depends_on old k d \<and> (d \<in> D \<longrightarrow> has_result st d))"
    and "k \<in> D \<Longrightarrow> has_entry n k \<Longrightarrow> has_entry old k \<Longrightarrow> has_result st k"
    and "has_result st k \<Longrightarrow> k \<in> D"
    and "has_entry (allNewEntries st) k \<Longrightarrow> has_entry n k \<or> has_entry (failedEntries st) k"
    and "k \<notin> D \<Longrightarrow> entry_at (allNewEntries st) k = entry_at n k"
  using assms unfolding apply_inv_def by blast+

lemma apply_invI:
  assumes "defined_map (succeededEntries st)" and "defined_map (failedEntries st)"
    and "\<And>k e. entry_at (succeededEntries st) k = Some e \<Longrightarrow> all_in (succeededEntries st) e"
    and "\<And>k e d. entry_at (failedEntries st) k = Some e \<Longrightarrow> d \<in> set (dependencies e) \<Longrightarrow>
      has_entry (succeededEntries st) d \<or> (depends_on old k d \<and> (d \<in> D \<longrightarrow> has_result st d))"
    and "\<And>k. k \<in> D \<Longrightarrow> has_entry n k \<Longrightarrow> has_entry old k \<Longrightarrow> has_result st k"
    and "\<And>k. has_result st k \<Longrightarrow> k \<in> D"
    and "\<And>k. has_entry (allNewEntries st) k \<Longrightarrow> has_entry n k \<or> has_entry (failedEntries st) k"
    and "\<And>k. k \<notin> D \<Longrightarrow> entry_at (allNewEntries st) k = entry_at n k"
  shows "apply_inv n old D st"
  unfolding apply_inv_def using assms by blast

text \<open>Recording a succeeded change.\<close>

lemma apply_inv_success:
  assumes "apply_inv n old D st" and "entryId e = k" and "k \<notin> D" and "has_entry n k"
    and "all_in (succeededEntries st) e"
  shows "apply_inv n old (insert k D) (record_result (Some e, NoIssues) st)"
proof (rule apply_invI)
  let ?st = "record_result (Some e, NoIssues) st"
  note inv = apply_invD [OF assms(1)]
  have succ: "succeededEntries ?st = obj_set k (Some e) (succeededEntries st)"
    and fail: "failedEntries ?st = failedEntries st"
    and new: "allNewEntries ?st = obj_set k (Some e) (allNewEntries st)" using assms(2) by simp_all
  have res: "has_result ?st d \<longleftrightarrow> d = k \<or> has_result st d" for d
    unfolding has_result_def succ fail by auto
  show "defined_map (succeededEntries ?st)" "defined_map (failedEntries ?st)"
    unfolding succ fail using inv(1,2) assms(2) by (auto intro: defined_map_set)
  show "all_in (succeededEntries ?st) f" if "entry_at (succeededEntries ?st) j = Some f" for j f
    using that inv(3) assms(5) unfolding succ by (auto simp: all_in_def split: if_splits)
  show "has_entry (succeededEntries ?st) d \<or> (depends_on old j d \<and> (d \<in> insert k D \<longrightarrow> has_result ?st d))"
    if "entry_at (failedEntries ?st) j = Some f" "d \<in> set (dependencies f)" for j f d
    using inv(4) [of j f d] that unfolding succ fail res by auto
  show "has_result ?st j" if "j \<in> insert k D" "has_entry n j" "has_entry old j" for j
    using inv(5) [of j] that unfolding res by blast
  show "j \<in> insert k D" if "has_result ?st j" for j using inv(6) [of j] that unfolding res by blast
  show "has_entry n j \<or> has_entry (failedEntries ?st) j" if "has_entry (allNewEntries ?st) j" for j
    using inv(7) [of j] that assms(4) unfolding new fail by auto
  show "entry_at (allNewEntries ?st) j = entry_at n j" if "j \<notin> insert k D" for j
    using inv(8) [of j] that unfolding new by auto
qed

text \<open>Recording an entry that failed or was kept with warnings.\<close>

lemma apply_inv_failure:
  assumes "apply_inv n old D st" and "entryId e = k" and "k \<notin> D" and "issues \<noteq> NoIssues"
    and "\<And>d. d \<in> set (dependencies e) \<Longrightarrow> has_entry (succeededEntries st) d \<or>
      (depends_on old k d \<and> (d \<in> D \<longrightarrow> has_result st d))"
  shows "apply_inv n old (insert k D) (record_result (Some e, issues) st)"
proof (rule apply_invI)
  let ?st = "record_result (Some e, issues) st"
  note inv = apply_invD [OF assms(1)]
  have succ: "succeededEntries ?st = succeededEntries st"
    and fail: "failedEntries ?st = obj_set k (Some e) (failedEntries st)"
    and new: "allNewEntries ?st = obj_set k (Some e) (allNewEntries st)" using assms(2,4) by simp_all
  have res: "has_result ?st d \<longleftrightarrow> d = k \<or> has_result st d" for d
    unfolding has_result_def succ fail by auto
  show "defined_map (succeededEntries ?st)" "defined_map (failedEntries ?st)"
    unfolding succ fail using inv(1,2) assms(2) by (auto intro: defined_map_set)
  show "all_in (succeededEntries ?st) f" if "entry_at (succeededEntries ?st) j = Some f" for j f
    using that inv(3) unfolding succ by blast
  show "has_entry (succeededEntries ?st) d \<or> (depends_on old j d \<and> (d \<in> insert k D \<longrightarrow> has_result ?st d))"
    if "entry_at (failedEntries ?st) j = Some f" "d \<in> set (dependencies f)" for j f d
    using inv(4) [of j f d] assms(5) [of d] that unfolding succ fail res by (auto split: if_splits)
  show "has_result ?st j" if "j \<in> insert k D" "has_entry n j" "has_entry old j" for j
    using inv(5) [of j] that unfolding res by blast
  show "j \<in> insert k D" if "has_result ?st j" for j using inv(6) [of j] that unfolding res by blast
  show "has_entry n j \<or> has_entry (failedEntries ?st) j" if "has_entry (allNewEntries ?st) j" for j
    using inv(7) [of j] that unfolding new fail by auto
  show "entry_at (allNewEntries ?st) j = entry_at n j" if "j \<notin> insert k D" for j
    using inv(8) [of j] that unfolding new by auto
qed

text \<open>Recording a step that leaves no entry.\<close>

lemma apply_inv_nothing:
  assumes "apply_inv n old D st" and "\<not> (has_entry n k \<and> has_entry old k)" and "k \<notin> D"
    and "\<And>x e. entry_at (failedEntries st) x = Some e \<Longrightarrow> depends_on old x k \<Longrightarrow> k \<notin> set (dependencies e)"
  shows "apply_inv n old (insert k D) (record_result (None, issues) st)"
proof (rule apply_invI)
  let ?st = "record_result (None, issues) st"
  note inv = apply_invD [OF assms(1)]
  have same: "succeededEntries ?st = succeededEntries st" "failedEntries ?st = failedEntries st"
    "allNewEntries ?st = allNewEntries st" by simp_all
  have res: "has_result ?st d \<longleftrightarrow> has_result st d" for d by (auto simp: has_result_def same)
  show "defined_map (succeededEntries ?st)" "defined_map (failedEntries ?st)"
    unfolding same by (fact inv)+
  show "all_in (succeededEntries ?st) f" if "entry_at (succeededEntries ?st) j = Some f" for j f
    using that inv(3) unfolding same by blast
  show "has_entry (succeededEntries ?st) d \<or> (depends_on old j d \<and> (d \<in> insert k D \<longrightarrow> has_result ?st d))"
    if "entry_at (failedEntries ?st) j = Some f" "d \<in> set (dependencies f)" for j f d
    using inv(4) [of j f d] assms(4) [of j f] that unfolding same res by blast
  show "has_result ?st j" if "j \<in> insert k D" "has_entry n j" "has_entry old j" for j
    using inv(5) [of j] that assms(2) unfolding res by blast
  show "j \<in> insert k D" if "has_result ?st j" for j using inv(6) [of j] that unfolding res by blast
  show "has_entry n j \<or> has_entry (failedEntries ?st) j" if "has_entry (allNewEntries ?st) j" for j
    using inv(7) [of j] that unfolding same by blast
  show "entry_at (allNewEntries ?st) j = entry_at n j" if "j \<notin> insert k D" for j
    using inv(8) [of j] that unfolding same by blast
qed

text \<open>What holds of a registered post action when its step has been recorded.\<close>

definition post_inv :: "('p, 'r) entry_states \<Rightarrow> ('p, 'r) apply_state \<Rightarrow> ('p, 'r) post_action_entry \<Rightarrow> bool" where
  "post_inv n st pa =
     ((post_step_action pa = Delete \<longleftrightarrow> \<not> has_entry n (entryId (post_entry pa))) \<and>
     (if post_step_action pa = Delete
      then \<not> has_entry (succeededEntries st) (entryId (post_entry pa)) \<and>
        (\<forall>e. entry_at (failedEntries st) (entryId (post_entry pa)) = Some e \<longrightarrow>
           dependencies (post_entry pa) = dependencies e)
      else all_in (succeededEntries st) (post_entry pa)))"

text \<open>
  The second state is the first one with results recorded for some steps of the same order; the
  entries of earlier orders are as they were.
\<close>

definition grown :: "string set \<Rightarrow> ('p, 'r) apply_state \<Rightarrow> ('p, 'r) apply_state \<Rightarrow> bool" where
  "grown D0 st0 st =
     ((\<forall>k. has_entry (succeededEntries st0) k \<longrightarrow> has_entry (succeededEntries st) k) \<and>
      (\<forall>k. has_entry (failedEntries st0) k \<longrightarrow> has_entry (failedEntries st) k) \<and>
      (\<forall>k \<in> D0. entry_at (failedEntries st) k = entry_at (failedEntries st0) k))"

lemma grown_refl: "grown D0 st st"
  by (simp add: grown_def)

lemma grown_record:
  assumes "grown D0 st0 st" and "\<And>e. entry = Some e \<Longrightarrow> entryId e \<notin> D0"
  shows "grown D0 st0 (record_result (entry, issues) st)"
  using assms by (auto simp: grown_def split: option.splits)

lemma getEntryDependents_Nil:
  assumes "getEntryDependents failed e None = Inr []" and "entry_at failed x = Some f" and "obj_ok failed"
  shows "entryId e \<notin> set (dependencies f)"
proof -
  have "(x, Some f) \<in> set failed" using assms(2,3) by (simp add: entry_at_mem)
  then show ?thesis
    using dependents_from_mem [of "entryId e" None failed "[]" f] assms(1)
    by (auto simp: getEntryDependents_def isEntryType_def)
qed

lemma applyPendingStep_outcome:
  assumes "applyPendingStep stack force handlers old st s = Inr r"
    and "valid_map old"
    and "\<And>e. entry_at (allNewEntries st) (step_entryId s) = Some e \<Longrightarrow> entryId e = step_entryId s"
  shows "if action s = Delete
    then \<exists>e. entry_at old (step_entryId s) = Some e \<and> delete_outcome (allNewEntries st) (failedEntries st) e r
    else change_outcome old (succeededEntries st) (step_entryId s) r"
proof -
  from assms(1) obtain e handler where
    e: "entry_at (if action s \<noteq> Delete then allNewEntries st else old) (step_entryId s) = Some e"
    and handler: "handlers (entry_type e) = Some handler"
    and r: "r = (case action s of
      Create \<Rightarrow> applyCreate stack force (allNewEntries st) old (succeededEntries st) handler (step_entryId s) e
    | Update \<Rightarrow> applyUpdate stack force (allNewEntries st) old (succeededEntries st) handler (step_preview s) (step_entryId s) e
    | Replace \<Rightarrow> applyReplace stack force (allNewEntries st) old (succeededEntries st) handler (step_entryId s) e
    | Delete \<Rightarrow> applyDelete force (allNewEntries st) old (failedEntries st) handler (step_entryId s) e)"
    by (auto simp: applyPendingStep_def getEntry_def getEntryHandler_def split: option.splits sum.splits)
  show ?thesis
  proof (cases "action s")
    case Delete
    then show ?thesis using e r applyDelete_outcome by simp
  next
    case Create
    then show ?thesis using e r assms(3) applyCreate_outcome by auto
  next
    case Replace
    then show ?thesis using e r assms(3) applyReplace_outcome by auto
  next
    case Update
    then show ?thesis
      using e r assms(3) valid_map_entryId [OF assms(2)] by (auto intro!: applyUpdate_outcome)
  qed
qed

lemma sound_planD:
  assumes "sound_plan n old steps"
  shows "valid_map n" and "valid_map old" and "distinct (map step_entryId steps)"
    and "s \<in> set steps \<Longrightarrow> action s = Delete \<Longrightarrow> has_entry old (step_entryId s) \<and> \<not> has_entry n (step_entryId s)"
    and "s \<in> set steps \<Longrightarrow> action s \<noteq> Delete \<Longrightarrow> has_entry n (step_entryId s)"
    and "has_entry n k \<or> has_entry old k \<Longrightarrow> \<exists>s \<in> set steps. step_entryId s = k"
    and "s \<in> set steps \<Longrightarrow> t \<in> set steps \<Longrightarrow> action t = Delete \<Longrightarrow>
      action s \<noteq> Delete \<or> depends_on old (step_entryId s) (step_entryId t) \<Longrightarrow> order s < order t"
    and "\<exists>m. order ` set steps = {..<m}"
  using assms unfolding sound_plan_def by (auto split: if_splits)

text \<open>The identifiers \<open>D\<close> belong to steps of order at most \<open>i\<close>.\<close>

definition up_to :: "step_state list \<Rightarrow> nat \<Rightarrow> string set \<Rightarrow> bool" where
  "up_to steps i D = (\<forall>k \<in> D. \<exists>s \<in> set steps. step_entryId s = k \<and> order s \<le> i)"

lemma up_to_order:
  "up_to steps i D \<Longrightarrow> distinct (map step_entryId steps) \<Longrightarrow> s \<in> set steps \<Longrightarrow> step_entryId s \<in> D \<Longrightarrow> order s \<le> i"
  unfolding up_to_def by (metis distinct_map inj_onD)

text \<open>A dependency of an old entry has a result once its step is recorded.\<close>

lemma old_dependency_result:
  assumes "sound_plan n old steps" and "apply_inv n old D st" and "up_to steps (order s) D"
    and "s \<in> set steps" and "depends_on old (step_entryId s) d" and "d \<in> D"
  shows "has_result st d"
proof (cases "has_entry n d")
  case True
  moreover have "has_entry old d" using valid_map_depends [OF sound_planD(2) [OF assms(1)] assms(5)] by simp
  ultimately show ?thesis using apply_invD(5) [OF assms(2,6)] by blast
next
  case False
  obtain t where t: "t \<in> set steps" "step_entryId t = d" "order t \<le> order s"
    using assms(3,6) unfolding up_to_def by blast
  have "action t = Delete" using False t(1,2) sound_planD(5) [OF assms(1) t(1)] by auto
  with sound_planD(7) [OF assms(1,4) t(1)] t assms(5) show ?thesis by simp
qed

lemma record_change:
  assumes "sound_plan n old steps" and "s \<in> set steps" and "action s \<noteq> Delete"
    and "change_outcome old (succeededEntries st0) (step_entryId s) ((entry, issues), posts)"
    and "apply_inv n old D st" and "grown D0 st0 st" and "up_to steps (order s) D" and "step_entryId s \<notin> D"
  shows "apply_inv n old (insert (step_entryId s) D) (record_result (entry, issues) st)"
proof -
  let ?k = "step_entryId s"
  have up: "all_in (succeededEntries st) e" if "all_in (succeededEntries st0) e" for e
    using that assms(6) by (auto simp: grown_def all_in_def)
  consider e where "entry = Some e" "issues = NoIssues" "entryId e = ?k" "all_in (succeededEntries st0) e"
    | e where "entry = Some e" "issues \<noteq> NoIssues" "entryId e = ?k" "all_in (succeededEntries st0) e"
    | "issues \<noteq> NoIssues" "entry = entry_at old ?k"
    using assms(4) unfolding change_outcome_def by (auto split: if_splits)
  then show ?thesis
  proof cases
    case (1 e)
    then show ?thesis
      using apply_inv_success [OF assms(5) 1(3) assms(8) sound_planD(5) [OF assms(1-3)] up [OF 1(4)]] by simp
  next
    case (2 e)
    then show ?thesis
      using apply_inv_failure [OF assms(5) 2(3) assms(8) 2(2)] up [OF 2(4)] by (simp add: all_in_def)
  next
    case 3
    show ?thesis
    proof (cases entry)
      case None
      have "\<not> depends_on old x ?k" for x
        using valid_map_depends [OF sound_planD(2) [OF assms(1)], of x ?k] 3(2) None by (auto simp: has_entry_def)
      then show ?thesis
        using apply_inv_nothing [OF assms(5) _ assms(8)] 3(2) None by (simp add: has_entry_def)
    next
      case (Some e)
      have "depends_on old ?k d" if "d \<in> set (dependencies e)" for d
        using that Some 3(2) by (simp add: depends_on_def)
      moreover have "entryId e = ?k" using Some 3(2) valid_map_entryId [OF sound_planD(2) [OF assms(1)]] by simp
      ultimately show ?thesis
        using apply_inv_failure [OF assms(5) _ assms(8) 3(1)] Some
          old_dependency_result [OF assms(1,5,7,2)] by simp
    qed
  qed
qed

lemma record_delete:
  assumes "sound_plan n old steps" and "s \<in> set steps" and "action s = Delete"
    and "entry_at old (step_entryId s) = Some e"
    and "delete_outcome m (failedEntries st0) e ((entry, issues), posts)" and "defined_map (failedEntries st0)"
    and "apply_inv n old D st" and "grown D0 st0 st" and "up_to steps (order s) D" and "step_entryId s \<notin> D"
    and "\<And>t. t \<in> set steps \<Longrightarrow> order t < order s \<Longrightarrow> step_entryId t \<in> D0"
  shows "apply_inv n old (insert (step_entryId s) D) (record_result (entry, issues) st)"
proof -
  let ?k = "step_entryId s"
  have k: "entryId e = ?k" using valid_map_entryId [OF sound_planD(2) [OF assms(1)] assms(4)] .
  show ?thesis
  proof (cases entry)
    case None
    then have free: "getEntryDependents (failedEntries st0) e None = Inr []"
      using assms(5) by (simp add: delete_outcome_def)
    have "?k \<notin> set (dependencies f)"
      if x: "entry_at (failedEntries st) x = Some f" and dep: "depends_on old x ?k" for x f
    proof -
      have "has_result st x" using x by (simp add: has_result_def has_entry_def)
      then have "x \<in> D" by (rule apply_invD(6) [OF assms(7)])
      then obtain t where t: "t \<in> set steps" "step_entryId t = x" using assms(9) by (auto simp: up_to_def)
      then have "order t < order s" using sound_planD(7) [OF assms(1) t(1) assms(2,3)] dep by simp
      then have "x \<in> D0" using assms(11) t by auto
      then have "entry_at (failedEntries st0) x = Some f" using assms(8) x by (simp add: grown_def)
      from getEntryDependents_Nil [OF free this] assms(6) k show ?thesis by (simp add: defined_map_def)
    qed
    then show ?thesis
      using apply_inv_nothing [OF assms(7) _ assms(10)] sound_planD(4) [OF assms(1-3)] None by blast
  next
    case (Some f)
    then have f: "issues \<noteq> NoIssues" "entryId f = ?k" "set (dependencies f) \<subseteq> set (dependencies e)"
      using assms(5) k by (auto simp: delete_outcome_def)
    have "depends_on old ?k d" if "d \<in> set (dependencies f)" for d
      using that f(3) assms(4) by (auto simp: depends_on_def)
    then show ?thesis
      using apply_inv_failure [OF assms(7) f(2) assms(10) f(1)] Some
        old_dependency_result [OF assms(1,7,9,2)] by simp
  qed
qed

lemma record_posts:
  assumes "if action s = Delete
      then \<exists>e. entry_at old (step_entryId s) = Some e \<and> entryId e = step_entryId s \<and>
        delete_outcome m failed e ((entry, issues), posts)
      else change_outcome old (succeededEntries st0) (step_entryId s) ((entry, issues), posts)"
    and "grown D0 st0 st" and "\<not> has_result st (step_entryId s)" and "pa \<in> set posts"
    and "action s = Delete \<longleftrightarrow> \<not> has_entry n (step_entryId s)"
  shows "post_inv n (record_result (entry, issues) st) pa \<and> entryId (post_entry pa) = step_entryId s"
proof (cases "action s = Delete")
  case True
  with assms(1,4) have pa: "post_step_action pa = Delete" "entryId (post_entry pa) = step_entryId s"
    and deps: "\<And>f. entry = Some f \<Longrightarrow> dependencies (post_entry pa) = dependencies f \<and> entryId f = step_entryId s \<and> issues \<noteq> NoIssues"
    by (auto simp: delete_outcome_def)
  have "entry_at (failedEntries st) (step_entryId s) = None" "\<not> has_entry (succeededEntries st) (step_entryId s)"
    using assms(3) by (simp_all add: has_result_def has_entry_def)
  with pa deps assms(5) True show ?thesis by (auto simp: post_inv_def split: option.splits)
next
  case False
  with assms(1,4) have pa: "post_step_action pa \<noteq> Delete" "entryId (post_entry pa) = step_entryId s"
    "all_in (succeededEntries st0) (post_entry pa)" by (auto simp: change_outcome_def)
  then have "all_in (succeededEntries (record_result (entry, issues) st)) (post_entry pa)"
    using assms(2) by (auto simp: grown_def all_in_def split: option.split)
  with pa assms(5) False show ?thesis by (simp add: post_inv_def)
qed

lemma post_inv_record:
  assumes "post_inv n st pa" and "\<And>e. entry = Some e \<Longrightarrow> entryId e \<noteq> entryId (post_entry pa)"
  shows "post_inv n (record_result (entry, issues) st) pa"
  using assms by (auto simp: post_inv_def all_in_def split: option.splits if_splits)

lemma outcome_entryId:
  assumes "if action s = Delete
      then \<exists>e. entry_at old (step_entryId s) = Some e \<and> delete_outcome m failed e ((entry, issues), posts)
      else change_outcome old succeeded (step_entryId s) ((entry, issues), posts)"
    and "valid_map old" and "entry = Some e"
  shows "entryId e = step_entryId s"
  using assms valid_map_entryId [OF assms(2)]
  by (auto simp: delete_outcome_def change_outcome_def split: if_splits)

text \<open>One order: from the state before it to the state with all its results recorded.\<close>

lemma run_steps_inv:
  assumes plan: "sound_plan n old steps"
    and start: "apply_inv n old D0 st0" "up_to steps i D0"
    and earlier: "\<And>t. t \<in> set steps \<Longrightarrow> order t < i \<Longrightarrow> step_entryId t \<in> D0"
    and "run_steps stack force handlers old st0 ss = Inr (results, posts)"
    and "apply_inv n old D st" and "grown D0 st0 st" and "D0 \<subseteq> D" and "up_to steps i D"
    and "set ss \<subseteq> set steps" and "\<forall>s \<in> set ss. order s = i" and "distinct (map step_entryId ss)"
    and "step_entryId ` set ss \<inter> D = {}"
    and "\<forall>pa \<in> set earlier_posts. post_inv n st pa \<and> entryId (post_entry pa) \<in> D"
  shows "apply_inv n old (D \<union> step_entryId ` set ss) (fold record_result results st) \<and>
    (\<forall>pa \<in> set (earlier_posts @ posts). post_inv n (fold record_result results st) pa \<and>
       entryId (post_entry pa) \<in> D \<union> step_entryId ` set ss)"
  using assms(5-)
proof (induction ss arbitrary: results posts D st earlier_posts)
  case Nil
  then show ?case by simp
next
  case (Cons s ss)
  from Cons.prems(1) obtain entry issues ps rs ps' where
    step: "applyPendingStep stack force handlers old st0 s = Inr ((entry, issues), ps)"
    and rest: "run_steps stack force handlers old st0 ss = Inr (rs, ps')"
    and res: "results = (entry, issues) # rs" "posts = ps @ ps'"
    by (auto split: sum.splits)
  let ?k = "step_entryId s" and ?st = "record_result (entry, issues) st"
  have s: "s \<in> set steps" "order s = i" "?k \<notin> D" using Cons.prems by auto
  have old: "valid_map old" using sound_planD(2) [OF plan] .
  have "?k \<notin> D0" using s Cons.prems(4) by blast
  then have "entryId e = ?k" if "entry_at (allNewEntries st0) ?k = Some e" for e
    using that apply_invD(8) [OF start(1)] valid_map_entryId [OF sound_planD(1) [OF plan]] by metis
  note out = applyPendingStep_outcome [OF step old this]
  note entry_id = outcome_entryId [OF out old]
  have inv: "apply_inv n old (insert ?k D) ?st"
  proof (cases "action s = Delete")
    case True
    with out obtain e where e: "entry_at old ?k = Some e"
      "delete_outcome (allNewEntries st0) (failedEntries st0) e ((entry, issues), ps)" by auto
    show ?thesis
      using record_delete [OF plan s(1) True e apply_invD(2) [OF start(1)] Cons.prems(2,3)] Cons.prems(5) s earlier
      by simp
  next
    case False
    with out record_change [OF plan s(1) False _ Cons.prems(2,3)] Cons.prems(5) s show ?thesis by simp
  qed
  have grow: "grown D0 st0 ?st" using Cons.prems(3) \<open>?k \<notin> D0\<close> entry_id by (intro grown_record) auto
  have out': "if action s = Delete
      then \<exists>e. entry_at old ?k = Some e \<and> entryId e = ?k \<and>
        delete_outcome (allNewEntries st0) (failedEntries st0) e ((entry, issues), ps)
      else change_outcome old (succeededEntries st0) ?k ((entry, issues), ps)"
    using out valid_map_entryId [OF old] by auto
  have new: "\<not> has_result st ?k" using apply_invD(6) [OF Cons.prems(2)] s(3) by blast
  have "\<forall>pa \<in> set (earlier_posts @ ps). post_inv n ?st pa \<and> entryId (post_entry pa) \<in> insert ?k D"
  proof
    fix pa assume "pa \<in> set (earlier_posts @ ps)"
    then consider "pa \<in> set earlier_posts" | "pa \<in> set ps" by auto
    then show "post_inv n ?st pa \<and> entryId (post_entry pa) \<in> insert ?k D"
    proof cases
      case 1
      with Cons.prems(10) have "post_inv n st pa" "entryId (post_entry pa) \<in> D" by auto
      then show ?thesis using entry_id s(3) by (auto intro!: post_inv_record)
    next
      case 2
      have "action s = Delete \<longleftrightarrow> \<not> has_entry n ?k"
        using sound_planD(4,5) [OF plan s(1)] by blast
      with 2 show ?thesis using record_posts [OF out' Cons.prems(3) new] by blast
    qed
  qed
  moreover have "up_to steps i (insert ?k D)" using Cons.prems(5) s by (auto simp: up_to_def)
  ultimately show ?case
    using Cons.IH [OF rest inv grow, of "earlier_posts @ ps"] Cons.prems(4,6-9)
    by (auto simp: res)
qed

definition ids_below :: "step_state list \<Rightarrow> nat \<Rightarrow> string set" where
  "ids_below steps i = step_entryId ` {s \<in> set steps. order s < i}"

lemma ids_below_Suc: "ids_below steps (Suc i) = ids_below steps i \<union> step_entryId ` set (findPendingByOrder steps i)"
  by (auto simp: ids_below_def findPendingByOrder_def less_Suc_eq)

lemma up_to_ids_below: "up_to steps i (ids_below steps i)"
  by (force simp: up_to_def ids_below_def)

lemma pending_disjoint:
  assumes "distinct (map step_entryId steps)"
  shows "step_entryId ` set (findPendingByOrder steps i) \<inter> ids_below steps i = {}"
proof -
  have "False" if "s \<in> set steps" "t \<in> set steps" "order s = i" "order t < i" "step_entryId s = step_entryId t" for s t
    using that assms by (metis distinct_map inj_onD less_irrefl)
  then show ?thesis by (auto simp: ids_below_def findPendingByOrder_def)
qed

lemma apply_order_inv:
  assumes "sound_plan n old steps" and "apply_inv n old (ids_below steps i) st"
    and "run_steps stack force handlers old st (findPendingByOrder steps i) = Inr (results, pas)"
    and "\<forall>pa \<in> set earlier_posts. post_inv n st pa \<and> entryId (post_entry pa) \<in> ids_below steps i"
  shows "apply_inv n old (ids_below steps (Suc i)) (fold record_result results st) \<and>
    (\<forall>pa \<in> set (earlier_posts @ pas). post_inv n (fold record_result results st) pa \<and>
       entryId (post_entry pa) \<in> ids_below steps (Suc i))"
proof -
  have dist: "distinct (map step_entryId (findPendingByOrder steps i))"
    using sound_planD(3) [OF assms(1)] by (simp add: findPendingByOrder_def distinct_map_filter)
  show ?thesis unfolding ids_below_Suc
    by (rule run_steps_inv [OF assms(1,2) up_to_ids_below _ assms(3,2) grown_refl subset_refl
          up_to_ids_below _ _ dist pending_disjoint [OF sound_planD(3) [OF assms(1)]] assms(4)])
      (auto simp: ids_below_def findPendingByOrder_def)
qed

lemma apply_orders_inv:
  assumes "sound_plan n old steps"
    and "apply_orders stack force handlers old steps i st posts = Inr (st', posts')"
    and "apply_inv n old (ids_below steps i) st"
    and "\<forall>pa \<in> set (concat posts). post_inv n st pa \<and> entryId (post_entry pa) \<in> ids_below steps i"
  shows "\<exists>j. findPendingByOrder steps j = [] \<and> i \<le> j \<and> (\<forall>m. i \<le> m \<and> m < j \<longrightarrow> findPendingByOrder steps m \<noteq> []) \<and>
    apply_inv n old (ids_below steps j) st' \<and> (\<forall>pa \<in> set (concat posts'). post_inv n st' pa)"
  using assms
proof (induction stack force handlers old steps i st posts rule: apply_orders.induct)
  case (1 stack force handlers old steps i st posts)
  let ?ss = "findPendingByOrder steps i"
  show ?case
  proof (cases "?ss = []")
    case True
    with "1.prems"(2) have "st' = st" "posts' = posts" by (simp_all add: apply_orders.simps)
    with True "1.prems"(3,4) show ?thesis by (intro exI [of _ i]) auto
  next
    case False
    with "1.prems"(2) obtain results pas where run: "run_steps stack force handlers old st ?ss = Inr (results, pas)"
      and rest: "apply_orders stack force handlers old steps (Suc i) (fold record_result results st)
        (if pas = [] then posts else posts @ [pas]) = Inr (st', posts')"
      by (subst (asm) apply_orders.simps) (auto split: sum.splits)
    from apply_order_inv [OF "1.prems"(1,3) run "1.prems"(4)]
    have inv: "apply_inv n old (ids_below steps (Suc i)) (fold record_result results st)"
      and pinv: "\<forall>pa \<in> set (concat (if pas = [] then posts else posts @ [pas])).
        post_inv n (fold record_result results st) pa \<and> entryId (post_entry pa) \<in> ids_below steps (Suc i)"
      by (simp_all add: ball_Un)
    from "1.IH" [OF False run refl "1.prems"(1) rest inv pinv]
    obtain j where "findPendingByOrder steps j = []" "Suc i \<le> j"
      "\<forall>m. Suc i \<le> m \<and> m < j \<longrightarrow> findPendingByOrder steps m \<noteq> []"
      "apply_inv n old (ids_below steps j) st'" "\<forall>pa \<in> set (concat posts'). post_inv n st' pa" by blast
    moreover from this(3) False have "\<forall>m. i \<le> m \<and> m < j \<longrightarrow> findPendingByOrder steps m \<noteq> []"
      by (metis le_antisym not_less_eq_eq)
    ultimately show ?thesis by (meson Suc_leD)
  qed
qed

lemma all_orders_done:
  assumes "sound_plan n old steps" and "findPendingByOrder steps j = []"
  shows "ids_below steps j = step_entryId ` set steps"
proof -
  obtain m where m: "order ` set steps = {..<m}" using sound_planD(8) [OF assms(1)] by blast
  have "j \<notin> order ` set steps" using assms(2) by (auto simp: findPendingByOrder_def filter_empty_conv)
  then have "order s < j" if "s \<in> set steps" for s
    using m that by (metis image_eqI lessThan_iff linorder_not_less order_le_less_trans)
  then show ?thesis by (auto simp: ids_below_def)
qed

text \<open>A state whose entries have all their dependencies in the result.\<close>

definition closed_state :: "('p, 'r) apply_state \<Rightarrow> bool" where
  "closed_state st = (defined_map (succeededEntries st) \<and> defined_map (failedEntries st) \<and>
     (\<forall>k e. entry_at (succeededEntries st) k = Some e \<or> entry_at (failedEntries st) k = Some e \<longrightarrow>
        (\<forall>d \<in> set (dependencies e). has_result st d)))"

lemma apply_start_inv: "apply_inv (entries_of new) old (ids_below steps 0) (apply_start new)"
  by (simp add: apply_inv_def apply_start_def ids_below_def defined_map_def has_result_def has_entry_def obj_keys_def)

lemma apply_changes_closed:
  assumes "sound_plan (entries_of new) (entries_of old) steps"
    and "apply_changes stack force handlers steps new old = Inr (st, posts)"
  shows "closed_state st \<and> (\<forall>pa \<in> set (concat posts). post_inv (entries_of new) st pa)"
proof -
  from apply_start_inv [of new "entries_of old" steps] apply_orders_inv [OF assms(1), of stack force handlers 0 "apply_start new" "[]" st posts] assms(2)
  obtain j where j: "findPendingByOrder steps j = []" "apply_inv (entries_of new) (entries_of old) (ids_below steps j) st"
    and posts: "\<forall>pa \<in> set (concat posts). post_inv (entries_of new) st pa"
    by (auto simp: apply_changes_def split: if_splits)
  note inv = apply_invD [OF j(2)]
  have "has_result st d" if "entry_at (failedEntries st) k = Some e" "d \<in> set (dependencies e)" for k e d
  proof -
    from inv(4) [OF that] consider "has_entry (succeededEntries st) d"
      | "depends_on (entries_of old) k d" "d \<in> ids_below steps j \<longrightarrow> has_result st d" by blast
    then show ?thesis
    proof cases
      case 1
      then show ?thesis by (simp add: has_result_def)
    next
      case 2
      then have "has_entry (entries_of old) d" using valid_map_depends [OF sound_planD(2) [OF assms(1)]] by blast
      then have "d \<in> ids_below steps j"
        using all_orders_done [OF assms(1) j(1)] sound_planD(6) [OF assms(1), of d] by auto
      with 2 show ?thesis by blast
    qed
  qed
  moreover have "has_result st d" if "entry_at (succeededEntries st) k = Some e" "d \<in> set (dependencies e)" for k e d
    using inv(3) [OF that(1)] that(2) by (auto simp: all_in_def has_result_def)
  ultimately show ?thesis using inv(1,2) posts by (auto simp: closed_state_def)
qed

fun callback_safe :: "post_callback \<Rightarrow> bool" where
  "callback_safe (Callback err registered) = (err = None \<and> list_all (\<lambda>c. callback_safe (fst c)) registered)"

definition deletes_safely :: "('p, 'r) apply_handlers \<Rightarrow> bool" where
  "deletes_safely handlers = (\<forall>ty handler e ctx. handlers ty = Some handler \<longrightarrow>
     list_all (\<lambda>c. callback_safe (fst c)) (run_registered (handler_delete handler e ctx)))"

section \<open>The state stays loadable during the post actions\<close>

definition deps_result :: "('p, 'r) apply_state \<Rightarrow> ('p, 'r) entry_state \<Rightarrow> bool" where
  "deps_result st e = (\<forall>d \<in> set (dependencies e). has_result st d)"

definition post_ok :: "('p, 'r) entry_states \<Rightarrow> ('p, 'r) apply_state \<Rightarrow> ('p, 'r) post_action_entry \<Rightarrow> bool" where
  "post_ok n st pa =
     ((post_step_action pa = Delete \<longleftrightarrow> \<not> has_entry n (entryId (post_entry pa))) \<and>
      (if post_step_action pa = Delete
       then callback_safe (post_callback pa) \<and> \<not> has_entry (succeededEntries st) (entryId (post_entry pa)) \<and>
         (has_entry (failedEntries st) (entryId (post_entry pa)) \<longrightarrow> deps_result st (post_entry pa))
       else deps_result st (post_entry pa)))"

lemma closed_stateD:
  assumes "closed_state st"
  shows "defined_map (succeededEntries st)" and "defined_map (failedEntries st)"
    and "entry_at (succeededEntries st) k = Some e \<Longrightarrow> deps_result st e"
    and "entry_at (failedEntries st) k = Some e \<Longrightarrow> deps_result st e"
  using assms by (auto simp: closed_state_def deps_result_def)

lemma post_inv_ok:
  assumes c: "closed_state st" and inv: "post_inv n st pa"
    and safe: "post_step_action pa = Delete \<Longrightarrow> callback_safe (post_callback pa)"
  shows "post_ok n st pa"
proof -
  have "deps_result st (post_entry pa)"
    if "entry_at (failedEntries st) (entryId (post_entry pa)) = Some e" "dependencies (post_entry pa) = dependencies e" for e
    using closed_stateD(4) [OF c that(1)] that(2) by (simp add: deps_result_def)
  moreover have "deps_result st e" if "all_in (succeededEntries st) e" for e
    using that by (auto simp: deps_result_def all_in_def has_result_def)
  ultimately show ?thesis
    using inv safe unfolding post_ok_def post_inv_def by (auto simp: has_entry_def)
qed

lemma has_result_post_failed:
  "has_result (post_failed pa err st) k \<longleftrightarrow> k = entryId (post_entry pa) \<or> has_result st k"
  by (auto simp: has_result_def post_failed_def)

lemma closed_state_post_failed:
  assumes "closed_state st" and "deps_result st (post_entry pa)"
  shows "closed_state (post_failed pa err st)"
proof -
  note c = closed_stateD [OF assms(1)]
  have "defined_map (succeededEntries (post_failed pa err st))"
    using c(1) by (simp add: post_failed_def defined_map_delete)
  moreover have "defined_map (failedEntries (post_failed pa err st))"
    using c(2) by (simp add: post_failed_def defined_map_set)
  moreover have "deps_result st e"
    if "entry_at (succeededEntries (post_failed pa err st)) k = Some e \<or>
      entry_at (failedEntries (post_failed pa err st)) k = Some e" for k e
    using that c(3,4) assms(2) by (auto simp: post_failed_def deps_result_def split: if_splits)
  ultimately show ?thesis by (auto simp: closed_state_def deps_result_def has_result_post_failed)
qed

lemma post_ok_post_failed:
  assumes "post_ok n st pa'" and "post_ok n st pa"
    and "post_step_action pa = Delete \<Longrightarrow> has_entry (failedEntries st) (entryId (post_entry pa))"
  shows "post_ok n (post_failed pa err st) pa'"
proof -
  have mono: "deps_result st e \<Longrightarrow> deps_result (post_failed pa err st) e" for e
    by (auto simp: deps_result_def has_result_post_failed)
  have "has_entry (failedEntries st) (entryId (post_entry pa'))"
    if "post_step_action pa' = Delete" "has_entry (failedEntries (post_failed pa err st)) (entryId (post_entry pa'))"
    using that assms by (auto simp: post_failed_def post_ok_def split: if_splits)
  then show ?thesis
    using assms(1) mono unfolding post_ok_def by (auto simp: post_failed_def)
qed

lemma dependents_from_none:
  assumes "\<forall>(j, entry) \<in> set m. \<exists>f. entry = Some f \<and> k \<notin> set (dependencies f)"
  shows "dependents_from k ty m = Inr []"
  using assms by (induction m) auto

lemma getEntryDependents_none:
  assumes "defined_map m" and "\<And>x f. entry_at m x = Some f \<Longrightarrow> entryId e \<notin> set (dependencies f)"
  shows "getEntryDependents m e ty = Inr []"
  unfolding getEntryDependents_def
proof (rule dependents_from_none, clarify)
  fix j entry assume mem: "(j, entry) \<in> set m"
  then have "j \<in> set (obj_keys m)" by (force simp: obj_keys_def)
  then obtain f where f: "entry_at m j = Some f" using assms(1) by (auto simp: defined_map_def has_entry_def)
  then have "(j, Some f) \<in> set m" using assms(1) entry_at_mem [of m j f] by (simp add: defined_map_def)
  with mem assms(1) have "entry = Some f" by (auto simp: defined_map_def obj_ok_def dest: eq_key_imp_eq_value)
  with f assms(2) show "\<exists>f. entry = Some f \<and> entryId e \<notin> set (dependencies f)" by blast
qed

lemma entry_at_result:
  assumes "defined_map (succeededEntries st)" and "defined_map (failedEntries st)"
  shows "entry_at (result_entries st) k = (case entry_at (failedEntries st) k of
    Some e \<Rightarrow> Some e | None \<Rightarrow> entry_at (succeededEntries st) k)"
proof -
  have ok: "obj_ok (failedEntries st)" using assms(2) by (simp add: defined_map_def)
  have "obj_get (failedEntries st) k = None \<or> (\<exists>e. obj_get (failedEntries st) k = Some (Some e))"
    using assms(2) obj_get_in_keys [of "failedEntries st" k]
    unfolding defined_map_def has_entry_def entry_at_def
    by (cases "obj_get (failedEntries st) k") (force split: option.splits)+
  then show ?thesis
    unfolding result_entries_def entry_at_def obj_get_spread [OF ok] by (auto split: option.split)
qed

lemma defined_result:
  assumes "defined_map (succeededEntries st)" and "defined_map (failedEntries st)"
  shows "defined_map (result_entries st)"
proof -
  have ok: "obj_ok (failedEntries st)" "obj_ok (succeededEntries st)" using assms by (simp_all add: defined_map_def)
  have "has_entry (result_entries st) k" if "k \<in> set (obj_keys (result_entries st))" for k
  proof -
    have "k \<in> set (obj_keys (failedEntries st)) \<or> k \<in> set (obj_keys (succeededEntries st))"
      using that by (auto simp: result_entries_def obj_get_spread [OF ok(1)] obj_keys_get split: option.splits)
    then have "has_entry (failedEntries st) k \<or> has_entry (succeededEntries st) k"
      using assms unfolding defined_map_def by blast
    then show ?thesis by (auto simp: has_entry_def entry_at_result [OF assms] split: option.split)
  qed
  moreover have "entryId e = k" if "entry_at (result_entries st) k = Some e" for k e
    using that assms by (auto simp: entry_at_result [OF assms] defined_map_def split: option.splits)
  moreover have "obj_ok (result_entries st)" using ok by (simp add: result_entries_def)
  ultimately show ?thesis by (auto simp: defined_map_def)
qed

text \<open>An entry without a result has no dependents left in the state.\<close>

lemma no_dependents_left:
  assumes "closed_state st" and "\<not> has_result st (entryId e)"
  shows "getEntryDependents (result_entries st) e ty = Inr []"
proof (rule getEntryDependents_none)
  note c = closed_stateD [OF assms(1)]
  show "defined_map (result_entries st)" by (rule defined_result [OF c(1,2)])
  show "entryId e \<notin> set (dependencies f)" if "entry_at (result_entries st) x = Some f" for x f
    using that c(3) [of x f] c(4) [of x f] assms(2)
    by (auto simp: entry_at_result [OF c(1,2)] deps_result_def split: option.splits)
qed

lemma delete_guard:
  assumes "closed_state st" and "post_ok n st pa" and "post_step_action pa = Delete"
    and "post_guard stack pa st = Some err"
  shows "has_entry (failedEntries st) (entryId (post_entry pa))"
proof (rule ccontr)
  assume free: "\<not> has_entry (failedEntries st) (entryId (post_entry pa))"
  moreover have "\<not> has_entry (succeededEntries st) (entryId (post_entry pa))"
    using assms(2,3) by (simp add: post_ok_def)
  ultimately have "\<not> has_result st (entryId (post_entry pa))" by (simp add: has_result_def)
  from no_dependents_left [OF assms(1) this]
  have "checkAllDependentsSucceeded (post_entry pa) (result_entries st) (failedEntries st) = Inr True"
    by (simp add: checkAllDependentsSucceeded_def)
  with free \<open>\<not> has_entry (succeededEntries st) _\<close> assms(3,4) show False
    by (auto simp: post_guard_def has_entry_def Let_def split: if_splits)
qed

definition all_posts :: "('p, 'r) post_state \<Rightarrow> ('p, 'r) post_action_entry set" where
  "all_posts ps = set (concat (ps_batches ps)) \<union> set (ps_waiting ps) \<union> fst ` set (ps_running ps) \<union>
     set (ps_registered ps)"

definition phase_inv :: "('p, 'r) entry_states \<Rightarrow> ('p, 'r) post_state \<Rightarrow> bool" where
  "phase_inv n ps = (closed_state (ps_state ps) \<and> (\<forall>pa \<in> all_posts ps. post_ok n (ps_state ps) pa) \<and>
     (\<forall>(pa, cs) \<in> set (ps_running ps). post_step_action pa = Delete \<longrightarrow> list_all (\<lambda>c. callback_safe (fst c)) cs))"

lemma callback_safe_parts:
  "callback_safe c \<Longrightarrow> callback_error c = None \<and> list_all (\<lambda>c. callback_safe (fst c)) (callback_registers c)"
  by (cases c) simp

lemma post_ok_registered:
  "post_ok n st pa \<Longrightarrow> (post_step_action pa = Delete \<Longrightarrow> callback_safe (fst c)) \<Longrightarrow> post_ok n st (registered_by pa c)"
  by (auto simp: post_ok_def registered_by_def split: if_splits)

lemma phase_inv_fail:
  assumes "phase_inv n ps" and "post_ok n (ps_state ps) pa"
    and "post_step_action pa = Delete \<Longrightarrow> has_entry (failedEntries (ps_state ps)) (entryId (post_entry pa))"
    and "ps_state ps' = post_failed pa err (ps_state ps)" and "all_posts ps' \<subseteq> all_posts ps"
    and "set (ps_running ps') \<subseteq> set (ps_running ps)"
  shows "phase_inv n ps'"
proof -
  have "deps_result (ps_state ps) (post_entry pa)" using assms(2,3) by (auto simp: post_ok_def split: if_splits)
  then have "closed_state (ps_state ps')"
    unfolding assms(4) using assms(1) by (intro closed_state_post_failed) (simp_all add: phase_inv_def)
  moreover have "\<forall>pa' \<in> all_posts ps'. post_ok n (ps_state ps') pa'"
    unfolding assms(4) using assms(1,2,3,5) by (auto simp: phase_inv_def intro!: post_ok_post_failed)
  ultimately show ?thesis using assms(1,6) by (auto simp: phase_inv_def)
qed

lemma phase_inv_step:
  assumes "post_step concurrency stack ps ps'" and "phase_inv n ps"
  shows "phase_inv n ps'"
  using assms
proof (induction rule: post_step.induct)
  case (next_batch ps b bs)
  then show ?case by (auto simp: phase_inv_def all_posts_def)
next
  case (end_batch ps)
  then show ?case by (auto simp: phase_inv_def all_posts_def)
next
  case (skip ps xs pa ys err)
  then have ok: "post_ok n (ps_state ps) pa" and "closed_state (ps_state ps)"
    by (auto simp: phase_inv_def all_posts_def)
  with skip show ?case
    by (intro phase_inv_fail [OF skip.prems ok]) (auto simp: all_posts_def intro: delete_guard)
next
  case (start ps xs pa ys)
  then have "post_ok n (ps_state ps) pa" by (auto simp: phase_inv_def all_posts_def)
  then have "post_step_action pa = Delete \<longrightarrow> list_all (\<lambda>c. callback_safe (fst c)) (callback_registers (post_callback pa))"
    by (auto simp: post_ok_def dest: callback_safe_parts)
  with start show ?case by (auto simp: phase_inv_def all_posts_def)
next
  case (register ps xs pa c cs ys)
  then have "post_ok n (ps_state ps) pa" "post_step_action pa = Delete \<longrightarrow> callback_safe (fst c)"
    by (auto simp: phase_inv_def all_posts_def)
  then have "post_ok n (ps_state ps) (registered_by pa c)" by (auto intro: post_ok_registered)
  with register show ?case by (auto simp: phase_inv_def all_posts_def)
next
  case (finish ps xs pa ys)
  then show ?case by (auto simp: phase_inv_def all_posts_def)
next
  case (reject ps xs pa ys err)
  then have ok: "post_ok n (ps_state ps) pa" by (auto simp: phase_inv_def all_posts_def)
  with reject have "post_step_action pa \<noteq> Delete"
    using callback_safe_parts [of "post_callback pa"] by (auto simp: post_ok_def)
  with reject show ?case
    by (intro phase_inv_fail [OF reject.prems ok]) (auto simp: all_posts_def)
qed

lemma post_entries_safe:
  "list_all (\<lambda>c. callback_safe (fst c)) cs \<Longrightarrow> pa \<in> set (post_entries a e cs) \<Longrightarrow> callback_safe (post_callback pa)"
  by (auto simp: post_entries_def list_all_iff)

lemma applyPendingStep_safe:
  assumes "deletes_safely handlers" and "applyPendingStep stack force handlers old st s = Inr (r, posts)"
    and "pa \<in> set posts" and "post_step_action pa = Delete"
  shows "callback_safe (post_callback pa)"
proof -
  have kind: "post_step_action pa = a" if "finish_change a e oldEntry keep run = (r, posts)" for a e oldEntry keep run
    using that assms(3) by (auto simp: finish_change_def post_entries_def Let_def split: sum.splits)
  from assms(2-4) obtain e handler where "handlers (entry_type e) = Some handler"
    and "pa \<in> set (snd (applyDelete force (allNewEntries st) old (failedEntries st) handler (step_entryId s) e))"
    by (auto dest!: kind simp: applyPendingStep_def getEntryHandler_def applyCreate_def applyUpdate_def applyReplace_def
        split: sum.splits option.splits step_action.splits if_splits)
  moreover from this(1) assms(1) have "list_all (\<lambda>c. callback_safe (fst c)) (run_registered (handler_delete handler e ctx))" for ctx
    unfolding deletes_safely_def by blast
  ultimately show ?thesis
    by (auto simp: applyDelete_def Let_def intro: post_entries_safe split: sum.splits list.splits if_splits)
qed

lemma run_steps_safe:
  "deletes_safely handlers \<Longrightarrow> run_steps stack force handlers old st ss = Inr (rs, posts) \<Longrightarrow>
   \<forall>pa \<in> set posts. post_step_action pa = Delete \<longrightarrow> callback_safe (post_callback pa)"
proof (induction ss arbitrary: rs posts)
  case (Cons s ss)
  then show ?case by (auto split: sum.splits prod.splits dest: applyPendingStep_safe)
qed simp

lemma apply_orders_safe:
  "apply_orders stack force handlers old steps i st posts = Inr (st', posts') \<Longrightarrow> deletes_safely handlers \<Longrightarrow>
   \<forall>pa \<in> set (concat posts). post_step_action pa = Delete \<longrightarrow> callback_safe (post_callback pa) \<Longrightarrow>
   \<forall>pa \<in> set (concat posts'). post_step_action pa = Delete \<longrightarrow> callback_safe (post_callback pa)"
proof (induction stack force handlers old steps i st posts rule: apply_orders.induct)
  case (1 stack force handlers old steps i st posts)
  show ?case
  proof (cases "findPendingByOrder steps i = []")
    case True
    with 1 show ?thesis by (simp add: apply_orders.simps)
  next
    case False
    with "1.prems"(1) obtain results pas where
      run: "run_steps stack force handlers old st (findPendingByOrder steps i) = Inr (results, pas)"
      and rest: "apply_orders stack force handlers old steps (Suc i) (fold record_result results st)
        (if pas = [] then posts else posts @ [pas]) = Inr (st', posts')"
      by (subst (asm) apply_orders.simps) (auto split: sum.splits)
    have "\<forall>pa \<in> set (concat (if pas = [] then posts else posts @ [pas])).
        post_step_action pa = Delete \<longrightarrow> callback_safe (post_callback pa)"
      using run_steps_safe [OF "1.prems"(2) run] "1.prems"(3) by auto
    from "1.IH" [OF False run refl rest "1.prems"(2) this] show ?thesis .
  qed
qed

lemma valid_result:
  assumes "closed_state st"
  shows "valid_map (result_entries st)"
proof -
  note c = closed_stateD [OF assms]
  have has: "has_entry (result_entries st) d \<longleftrightarrow> has_result st d" for d
    by (auto simp: has_entry_def entry_at_result [OF c(1,2)] has_result_def split: option.split)
  have "deps_result st e" if "entry_at (result_entries st) k = Some e" for k e
    using that c(3,4) by (auto simp: entry_at_result [OF c(1,2)] split: option.splits)
  then show ?thesis
    using defined_result [OF c(1,2)]
    by (auto simp: valid_map_alt closed_entry_def defined_map_def deps_result_def has [symmetric] has_entry_def)
qed

text \<open>
  C6. A deployment never leaves a state that cannot be loaded. For maps that \<open>validateEntries\<close>
  accepts and the plan \<open>planSteps\<close> makes of them, whatever the handlers do, whichever of them
  fail, add warnings or register post actions, and however the post actions interleave,
  \<open>validateEntries\<close> accepts the resulting map: no entry depends on one that is gone. The only
  assumption on the handlers is that post actions registered by a deletion do not fail.
\<close>

theorem apply_leaves_loadable_state:
  assumes "valid_map (entries_of new)" and "valid_map (entries_of old)"
    and "planSteps new old handlers planForce = Inr steps" and "deletes_safely handlers"
    and "applySteps concurrency stack force handlers steps new old st"
  shows "validateEntries (result_entries st) = Inr ()"
proof -
  from assms(5) obtain st0 posts ps where
    ch: "apply_changes stack force handlers steps new old = Inr (st0, posts)"
    and run: "(post_step concurrency stack)\<^sup>*\<^sup>* (post_start st0 posts) ps" and st: "ps_state ps = st"
    by (auto simp: applySteps_def)
  note plan = planSteps_sound [OF assms(1-3)]
  have closed: "closed_state st0" and posts: "\<forall>pa \<in> set (concat posts). post_inv (entries_of new) st0 pa"
    using apply_changes_closed [OF plan ch] by simp_all
  have "\<forall>pa \<in> set (concat posts). post_step_action pa = Delete \<longrightarrow> callback_safe (post_callback pa)"
    using ch apply_orders_safe [OF _ assms(4)] by (force simp: apply_changes_def split: if_splits)
  then have "phase_inv (entries_of new) (post_start st0 posts)"
    using closed posts post_inv_ok [OF closed] by (auto simp: phase_inv_def post_start_def all_posts_def)
  with run have "phase_inv (entries_of new) ps" by (induction rule: rtranclp_induct) (auto intro: phase_inv_step)
  then have "valid_map (result_entries st)" using st by (auto simp: phase_inv_def intro: valid_result)
  then show ?thesis by (simp add: valid_map_def)
qed

section \<open>Which dependents hold a post action back\<close>

text \<open>
  The walk over the dependents as a search of identifiers. A map that is not keyed by its
  entries cannot be a result of this phase; the search is empty there.
\<close>

definition keyed :: "('p, 'r) entry_states \<Rightarrow> ('p, 'r) entry_states" where
  "keyed m = (if defined_map m then m else [])"

definition dependent_ids :: "('p, 'r) entry_states \<Rightarrow> string \<Rightarrow> string list" where
  "dependent_ids m k = map entryId (filter (\<lambda>e. k \<in> set (dependencies e)) (entry_list (keyed m)))"

definition dependents_search ::
  "('p, 'r) entry_states \<Rightarrow> ('p, 'r) entry_states \<Rightarrow> string list \<Rightarrow> string list \<Rightarrow> string list option" where
  "dependents_search m failed work seen =
     (case visit_dependents (keyed m) failed (List.map_filter (entry_at (keyed m)) work) seen of
        Inl err \<Rightarrow> None | Inr r \<Rightarrow> r)"

lemma defined_keyed: "defined_map (keyed m)"
  by (simp add: keyed_def defined_map_def obj_keys_def has_entry_def)

lemma dependents_from_defined:
  "\<forall>(j, entry) \<in> set m. entry \<noteq> None \<Longrightarrow>
   dependents_from k None m = Inr (filter (\<lambda>e. k \<in> set (dependencies e)) (entry_list m))"
  by (induction m) (auto simp: entry_list_def map_filter_simps isEntryType_def split: option.splits)

lemma defined_entries:
  assumes "defined_map m"
  shows "\<forall>(j, entry) \<in> set m. entry \<noteq> None"
proof -
  have False if "(j, None) \<in> set m" for j
  proof -
    have "obj_get m j = Some None" using that assms by (simp add: obj_get_mem defined_map_def)
    moreover have "has_entry m j" using that assms by (force simp: defined_map_def obj_keys_def)
    ultimately show False by (simp add: has_entry_def entry_at_def)
  qed
  then have "entry \<noteq> None" if "(j, entry) \<in> set m" for j entry using that by (cases entry) auto
  then show ?thesis by blast
qed

lemma getEntryDependents_defined:
  "defined_map m \<Longrightarrow> getEntryDependents m e None = Inr (filter (\<lambda>f. entryId e \<in> set (dependencies f)) (entry_list m))"
  unfolding getEntryDependents_def by (intro dependents_from_defined defined_entries)

lemma entry_list_defined:
  assumes "defined_map m" and "e \<in> set (entry_list m)"
  shows "entry_at m (entryId e) = Some e"
proof -
  from assms(2) obtain k where "(k, Some e) \<in> set m" by (force simp: entry_list_def List.map_filter_def)
  then have "entry_at m k = Some e" using assms(1) by (simp add: entry_at_mem defined_map_def)
  with assms(1) show ?thesis by (auto simp: defined_map_def)
qed

lemma map_filter_ids:
  assumes "defined_map m" and "set es \<subseteq> set (entry_list m)"
  shows "List.map_filter (entry_at m) (map entryId es) = es"
  using assms(2) entry_list_defined [OF assms(1)] by (induction es) (auto simp: map_filter_simps)

lemma map_filter_append: "List.map_filter f (xs @ ys) = List.map_filter f xs @ List.map_filter f ys"
  by (simp add: List.map_filter_def)

interpretation deps: worklist_search "obj_keys (keyed m)" "has_entry (keyed m)"
  "\<lambda>k. has_entry (keyed m) k \<and> has_entry failed k" "dependent_ids m" "dependents_search m failed"
  for m failed :: "('p, 'r) entry_states"
proof
  show "dependents_search m failed [] seen = Some seen" for seen
    by (simp add: dependents_search_def map_filter_simps)
  show "dependents_search m failed (x # work) seen = None"
    if x: "has_entry (keyed m) x \<and> has_entry failed x" and "x \<notin> set seen" for x seen work
  proof -
    from x obtain e where e: "entry_at (keyed m) x = Some e" by (auto simp: has_entry_def)
    then have "entryId e = x" using defined_keyed [of m] by (auto simp: defined_map_def)
    with e x that(2) show ?thesis by (simp add: dependents_search_def map_filter_simps has_entry_def)
  qed
  show "dependents_search m failed (x # work) seen = dependents_search m failed work seen"
    if "\<not> (has_entry (keyed m) x \<and> has_entry failed x)" and seen: "\<not> has_entry (keyed m) x \<or> x \<in> set seen" for x seen work
  proof (cases "entry_at (keyed m) x")
    case None
    then show ?thesis by (simp add: dependents_search_def map_filter_simps)
  next
    case (Some e)
    then have "entryId e = x" using defined_keyed [of m] by (auto simp: defined_map_def)
    with Some seen show ?thesis by (simp add: dependents_search_def map_filter_simps has_entry_def)
  qed
  show "dependents_search m failed (x # work) seen = dependents_search m failed (dependent_ids m x @ work) (seen @ [x])"
    if free: "\<not> (has_entry (keyed m) x \<and> has_entry failed x)" and x: "has_entry (keyed m) x" and "x \<notin> set seen" for x seen work
  proof -
    from x obtain e where e: "entry_at (keyed m) x = Some e" by (auto simp: has_entry_def)
    then have id: "entryId e = x" using defined_keyed [of m] by (auto simp: defined_map_def)
    let ?ds = "filter (\<lambda>f. x \<in> set (dependencies f)) (entry_list (keyed m))"
    have "getEntryDependents (keyed m) e None = Inr ?ds" by (simp add: getEntryDependents_defined [OF defined_keyed] id)
    moreover have "List.map_filter (entry_at (keyed m)) (dependent_ids m x) = ?ds"
      unfolding dependent_ids_def by (rule map_filter_ids [OF defined_keyed]) auto
    ultimately show ?thesis
      using e id free x that(3)
      by (simp add: dependents_search_def map_filter_simps map_filter_append has_entry_def)
  qed
  show "x \<in> set (obj_keys (keyed m))" if "has_entry (keyed m) x" for x
    using that by (auto simp: has_entry_def dest: entry_at_keys)
qed

text \<open>
  The identifiers that depend on \<open>k\<close>, directly or over other entries, up to the first that
  failed on each path.
\<close>

definition held_back :: "('p, 'r) entry_states \<Rightarrow> ('p, 'r) entry_states \<Rightarrow> string \<Rightarrow> bool" where
  "held_back m failed k = (\<exists>x. (k, x) \<in> {(a, b). depends_on m b a}\<^sup>+ \<and> has_entry failed x)"

lemma dependent_ids_iff:
  assumes "defined_map m"
  shows "x \<in> set (dependent_ids m k) \<longleftrightarrow> depends_on m x k"
proof -
  have "x \<in> set (dependent_ids m k) \<longleftrightarrow> (\<exists>e \<in> set (entry_list m). k \<in> set (dependencies e) \<and> entryId e = x)"
    using assms by (auto simp: dependent_ids_def keyed_def)
  also have "\<dots> \<longleftrightarrow> depends_on m x k"
  proof
    assume "depends_on m x k"
    then obtain e where e: "entry_at m x = Some e" "k \<in> set (dependencies e)" by (auto simp: depends_on_def)
    then have "(x, Some e) \<in> set m" using assms by (simp add: entry_at_mem defined_map_def)
    then have "e \<in> set (entry_list m)" by (force simp: entry_list_def List.map_filter_def)
    moreover have "entryId e = x" using assms e(1) by (auto simp: defined_map_def)
    ultimately show "\<exists>e \<in> set (entry_list m). k \<in> set (dependencies e) \<and> entryId e = x" using e(2) by blast
  next
    assume "\<exists>e \<in> set (entry_list m). k \<in> set (dependencies e) \<and> entryId e = x"
    then show "depends_on m x k" using entry_list_defined [OF assms] by (auto simp: depends_on_def)
  qed
  finally show ?thesis .
qed

lemma reach_dependents:
  assumes "defined_map m"
  shows "reach ok (dependent_ids m) (set (dependent_ids m k)) y \<Longrightarrow> (k, y) \<in> {(a, b). depends_on m b a}\<^sup>+"
  by (induction rule: reach.induct) (auto simp: dependent_ids_iff [OF assms] intro: trancl.intros)

lemma cut_held_back:
  assumes "defined_map m"
  shows "(\<exists>x. worklist_search.cut_node (has_entry (keyed m)) (\<lambda>k. has_entry (keyed m) k \<and> has_entry failed k)
      (dependent_ids m) (dependent_ids m k) x) \<longleftrightarrow> held_back m failed k"
proof
  let ?E = "{(a, b). depends_on m b a}"
  let ?stop = "\<lambda>k. has_entry (keyed m) k \<and> has_entry failed k"
  let ?cut = "worklist_search.cut_node (has_entry (keyed m)) ?stop (dependent_ids m) (dependent_ids m k)"
  have m: "keyed m = m" using assms by (simp add: keyed_def)
  assume "\<exists>x. ?cut x"
  then obtain x where x: "has_entry failed x" "x \<in> set (dependent_ids m k) \<or>
      (\<exists>y. (k, y) \<in> ?E\<^sup>+ \<and> x \<in> set (dependent_ids m y))"
    unfolding deps.cut_node_def using reach_dependents [OF assms] by blast
  then have "(k, x) \<in> ?E\<^sup>+" by (auto simp: dependent_ids_iff [OF assms] intro: trancl_into_trancl)
  with x show "held_back m failed k" unfolding held_back_def by blast
next
  let ?E = "{(a, b). depends_on m b a}"
  let ?stop = "\<lambda>k. has_entry (keyed m) k \<and> has_entry failed k"
  let ?cut = "worklist_search.cut_node (has_entry (keyed m)) ?stop (dependent_ids m) (dependent_ids m k)"
  have m: "keyed m = m" using assms by (simp add: keyed_def)
  have dep: "has_entry (keyed m) b" if "depends_on m b a" for a b
    using that unfolding m by (auto simp: depends_on_def has_entry_def)
  let ?ok = "worklist_search.ok (has_entry (keyed m)) ?stop"
  let ?reach = "reach ?ok (dependent_ids m) (set (dependent_ids m k))"
  have cutI: "?cut z" if "has_entry failed z" "has_entry (keyed m) z"
    "z \<in> set (dependent_ids m k) \<or> (\<exists>y. ?reach y \<and> z \<in> set (dependent_ids m y))" for z
    unfolding deps.cut_node_def using that by blast
  have okI: "?ok z" if "\<not> has_entry failed z" "has_entry (keyed m) z" for z
    unfolding deps.ok_def using that by blast
  have walk: "(\<exists>x. ?cut x) \<or> ?reach z" if "(k, z) \<in> ?E\<^sup>+" for z
    using that
  proof (induction rule: trancl_induct)
    case (base z)
    then have z: "z \<in> set (dependent_ids m k)" "has_entry (keyed m) z"
      using dep by (auto simp: dependent_ids_iff [OF assms])
    show ?case
    proof (cases "has_entry failed z")
      case True
      with z cutI show ?thesis by blast
    next
      case False
      with z okI show ?thesis by (blast intro: reach.root)
    qed
  next
    case (step y z)
    then have z: "z \<in> set (dependent_ids m y)" "has_entry (keyed m) z"
      using dep by (auto simp: dependent_ids_iff [OF assms])
    show ?case
    proof (cases "has_entry failed z")
      case True
      with z cutI step.IH show ?thesis by blast
    next
      case False
      with z okI step.IH show ?thesis by (blast intro: reach.next_node)
    qed
  qed
  assume "held_back m failed k"
  then obtain z where z: "(k, z) \<in> ?E\<^sup>+" "has_entry failed z" unfolding held_back_def by blast
  have "has_entry (keyed m) z" using z(1) dep by (cases rule: tranclE) auto
  moreover have "\<not> ?reach z" if "has_entry (keyed m) z"
    using reach_ok [of ?ok _ _ z] z(2) that unfolding deps.ok_def by blast
  ultimately show "\<exists>x. ?cut x" using walk [OF z(1)] by blast
qed

lemma visit_dependents_returns:
  "defined_map m \<Longrightarrow> \<exists>r. visit_dependents m failed pending visited = Inr r"
  by (induction m failed pending visited rule: visit_dependents.induct)
    (auto simp: getEntryDependents_defined)

lemma checkAllDependentsSucceeded_iff:
  assumes "defined_map m"
  shows "checkAllDependentsSucceeded e m failed = Inr (\<not> held_back m failed (entryId e))"
proof -
  have m: "keyed m = m" using assms by (simp add: keyed_def)
  let ?ds = "filter (\<lambda>f. entryId e \<in> set (dependencies f)) (entry_list m)"
  have ids: "List.map_filter (entry_at m) (dependent_ids m (entryId e)) = ?ds"
    unfolding dependent_ids_def m by (rule map_filter_ids [OF assms]) auto
  obtain r where r: "visit_dependents m failed ?ds [] = Inr r" using visit_dependents_returns [OF assms] by blast
  then have "dependents_search m failed (dependent_ids m (entryId e)) [] = r"
    by (simp add: dependents_search_def m ids)
  then have "r = None \<longleftrightarrow> held_back m failed (entryId e)"
    using deps.search_cut_short [of m failed "dependent_ids m (entryId e)"] cut_held_back [OF assms] by simp
  then show ?thesis
    using r by (simp add: checkAllDependentsSucceeded_def getEntryDependents_defined [OF assms])
qed

section \<open>Which dependencies hold a step back\<close>

definition needs_edges :: "('p, 'r) entry_states \<Rightarrow> (string \<times> string) set" where
  "needs_edges m = {(k, d). depends_on m k d}"

definition needed :: "('p, 'r) entry_states \<Rightarrow> string list \<Rightarrow> string set" where
  "needed m ds = (needs_edges m)\<^sup>* `` set ds"

definition needs_of :: "('p, 'r) entry_states \<Rightarrow> string \<Rightarrow> string list" where
  "needs_of m d = (case entry_at m d of None \<Rightarrow> [] | Some e \<Rightarrow> dependencies e)"

lemma needs_of_iff: "(d, y) \<in> needs_edges m \<longleftrightarrow> y \<in> set (needs_of m d)"
  by (cases "entry_at m d") (simp_all add: needs_edges_def depends_on_def needs_of_def)

lemma needed_Cons: "needed m (d # ds) = insert d (needed m (needs_of m d)) \<union> needed m ds"
proof -
  have "(d, x) \<in> (needs_edges m)\<^sup>* \<longleftrightarrow> x = d \<or> (\<exists>y. (d, y) \<in> needs_edges m \<and> (y, x) \<in> (needs_edges m)\<^sup>*)" for x
    by (auto elim: converse_rtranclE intro: converse_rtrancl_into_rtrancl)
  then have "(needs_edges m)\<^sup>* `` {d} = insert d (needed m (needs_of m d))"
    unfolding needed_def needs_of_iff by blast
  moreover have "needed m (d # ds) = (needs_edges m)\<^sup>* `` {d} \<union> needed m ds" by (auto simp: needed_def)
  ultimately show ?thesis by simp
qed

lemma needed_Nil [simp]: "needed m [] = {}"
  by (simp add: needed_def)

text \<open>When it returns, \<open>checkAllSucceeded\<close> has looked at everything that is needed.\<close>

lemma checkAllSucceeded_sound:
  "checkAllSucceeded stack ds m = Inr b \<Longrightarrow> b \<longleftrightarrow> (\<forall>d \<in> needed m ds. has_entry m d)"
proof (induction stack ds m arbitrary: b rule: checkAllSucceeded.induct)
  case (3 stack d ds m)
  show ?case
  proof (cases "entry_at m d")
    case None
    with "3.prems" show ?thesis by (auto simp: needed_Cons has_entry_def)
  next
    case (Some e)
    with "3.prems" obtain c where c: "checkAllSucceeded stack (dependencies e) m = Inr c"
      by (auto split: sum.splits)
    note ih = "3.IH"(1) [OF Some c]
    show ?thesis
    proof (cases c)
      case True
      with "3.prems" Some c have "checkAllSucceeded (Suc stack) ds m = Inr b" by simp
      from "3.IH"(2) [OF Some c True this] ih True Some show ?thesis by (auto simp: needed_Cons has_entry_def needs_of_def)
    next
      case False
      with "3.prems" Some c have "\<not> b" by simp
      moreover from ih False Some have "\<exists>x \<in> needed m (d # ds). \<not> has_entry m x"
        by (auto simp: needed_Cons needs_of_def)
      ultimately show ?thesis by blast
    qed
  qed
qed auto

lemma finite_needs: "finite (needs_edges m)"
proof (rule finite_subset)
  show "needs_edges m \<subseteq> (\<Union>k \<in> set (obj_keys m). \<Union>e \<in> set (entry_list m). Pair k ` set (dependencies e))"
  proof (clarsimp simp: needs_edges_def depends_on_def)
    fix k d e assume e: "entry_at m k = Some e" "d \<in> set (dependencies e)"
    then have "k \<in> set (obj_keys m)" by (simp add: entry_at_keys)
    moreover from e have "(k, Some e) \<in> set m"
      by (auto simp: entry_at_def obj_get_def split: option.splits dest: map_of_SomeD)
    then have "e \<in> set (entry_list m)" by (force simp: entry_list_def List.map_filter_def)
    ultimately show "\<exists>j \<in> set (obj_keys m). \<exists>f \<in> set (entry_list m). (k, d) \<in> Pair j ` set (dependencies f)"
      using e(2) by blast
  qed
qed simp

lemma finite_needed: "finite (needed m ds)"
proof -
  have "needed m ds \<subseteq> set ds \<union> Range (needs_edges m)"
    unfolding needed_def by (auto elim: rtranclE)
  then show ?thesis using finite_needs finite_subset by (metis List.finite_set finite_Range finite_UnI)
qed

text \<open>On acyclic entries the recursion is no deeper than the number of needed entries.\<close>

lemma checkAllSucceeded_returns:
  "acyclic (needs_edges m) \<Longrightarrow> card (needed m ds) < stack \<Longrightarrow> \<exists>b. checkAllSucceeded stack ds m = Inr b"
proof (induction stack ds m rule: checkAllSucceeded.induct)
  case (3 stack d ds m)
  show ?case
  proof (cases "entry_at m d")
    case None
    then show ?thesis by auto
  next
    case (Some e)
    have sub: "needed m (dependencies e) \<subseteq> needed m (d # ds)" "needed m ds \<subseteq> needed m (d # ds)"
      and d: "d \<in> needed m (d # ds)" using Some by (auto simp: needed_Cons needs_of_def)
    have "d \<notin> needed m (dependencies e)"
    proof
      assume "d \<in> needed m (dependencies e)"
      then obtain y where "y \<in> set (dependencies e)" "(y, d) \<in> (needs_edges m)\<^sup>*" by (auto simp: needed_def)
      moreover have "(d, y) \<in> needs_edges m" using Some \<open>y \<in> _\<close> by (auto simp: needs_edges_def depends_on_def)
      ultimately have "(d, d) \<in> (needs_edges m)\<^sup>+" by (simp add: rtrancl_into_trancl2)
      with "3.prems"(1) show False by (simp add: acyclic_def)
    qed
    with sub d have "card (needed m (dependencies e)) < card (needed m (d # ds))"
      by (intro psubset_card_mono finite_needed) blast
    with "3.prems"(2) have "card (needed m (dependencies e)) < stack" by simp
    from "3.IH"(1) [OF Some "3.prems"(1) this] obtain c where c: "checkAllSucceeded stack (dependencies e) m = Inr c" ..
    have "card (needed m ds) \<le> card (needed m (d # ds))" using sub by (intro card_mono finite_needed)
    with "3.prems"(2) have "card (needed m ds) < Suc stack" by simp
    with "3.IH"(2) [OF Some c _ "3.prems"(1)] c Some show ?thesis by (cases c) auto
  qed
qed auto

text \<open>
  A post action runs exactly when it may: its entry has not failed; the entry succeeded and
  everything it needs, directly or not, succeeded, or it was deleted; and, for an action that
  requires its dependents, no entry that depends on it, directly or not, failed.
\<close>

theorem post_action_runs_iff:
  assumes "closed_state st" and "acyclic (needs_edges (succeededEntries st))"
    and "card (needed (succeededEntries st) (dependencies (post_entry pa))) < stack"
  shows "post_guard stack pa st = None \<longleftrightarrow>
    \<not> has_entry (failedEntries st) (entryId (post_entry pa)) \<and>
    (if has_entry (succeededEntries st) (entryId (post_entry pa))
     then \<forall>d \<in> needed (succeededEntries st) (dependencies (post_entry pa)). has_entry (succeededEntries st) d
     else post_step_action pa = Delete) \<and>
    (requireDependents pa \<longrightarrow> \<not> held_back (result_entries st) (failedEntries st) (entryId (post_entry pa)))"
proof -
  obtain b where b: "checkAllSucceeded stack (dependencies (post_entry pa)) (succeededEntries st) = Inr b"
    using checkAllSucceeded_returns [OF assms(2,3)] by blast
  note sound = checkAllSucceeded_sound [OF b]
  note c = closed_stateD [OF assms(1)]
  have dep: "checkAllDependentsSucceeded (post_entry pa) (result_entries st) (failedEntries st) =
      Inr (\<not> held_back (result_entries st) (failedEntries st) (entryId (post_entry pa)))"
    by (rule checkAllDependentsSucceeded_iff [OF defined_result [OF c(1,2)]])
  show ?thesis
    using sound unfolding post_guard_def Let_def dep b
    by (cases b) (auto simp: has_entry_def split: if_splits)
qed

section \<open>Applying a plan returns\<close>

definition handlers_present :: "('p, 'r) entry_states \<Rightarrow> ('p, 'r) entry_states \<Rightarrow> ('p, 'r) apply_handlers \<Rightarrow> bool" where
  "handlers_present n old handlers = (\<forall>k e. entry_at n k = Some e \<or> entry_at old k = Some e \<longrightarrow>
     handlers (entry_type e) \<noteq> None)"

lemma run_steps_returns:
  assumes "\<And>s. s \<in> set ss \<Longrightarrow> \<exists>r. applyPendingStep stack force handlers old st s = Inr r"
  shows "\<exists>r. run_steps stack force handlers old st ss = Inr r"
  using assms by (induction ss) (force split: sum.splits)+

lemma applyPendingStep_returns:
  assumes "sound_plan n old steps" and "handlers_present n old handlers" and "s \<in> set steps"
    and "entry_at (allNewEntries st) (step_entryId s) = entry_at n (step_entryId s)"
  shows "\<exists>r. applyPendingStep stack force handlers old st s = Inr r"
proof -
  obtain e where e: "entry_at (if action s \<noteq> Delete then allNewEntries st else old) (step_entryId s) = Some e"
    using sound_planD(4,5) [OF assms(1,3)] assms(4) by (cases "action s = Delete") (auto simp: has_entry_def)
  moreover have "handlers (entry_type e) \<noteq> None"
    using e assms(2,4) by (auto simp: handlers_present_def split: if_splits)
  ultimately show ?thesis
    by (auto simp: applyPendingStep_def getEntry_def getEntryHandler_def simp del: split_paired_Ex)
qed

lemma apply_orders_returns:
  assumes "sound_plan n old steps" and "handlers_present n old handlers"
    and "apply_inv n old (ids_below steps i) st"
  shows "\<exists>r. apply_orders stack force handlers old steps i st posts = Inr r"
  using assms
proof (induction stack force handlers old steps i st posts rule: apply_orders.induct)
  case (1 stack force handlers old steps i st posts)
  show ?case
  proof (cases "findPendingByOrder steps i = []")
    case True
    then show ?thesis by (simp add: apply_orders.simps)
  next
    case False
    have "\<exists>r. applyPendingStep stack force handlers old st s = Inr r" if "s \<in> set (findPendingByOrder steps i)" for s
    proof (rule applyPendingStep_returns [OF "1.prems"(1,2)])
      show "s \<in> set steps" using that by (simp add: findPendingByOrder_def)
      show "entry_at (allNewEntries st) (step_entryId s) = entry_at n (step_entryId s)"
        using that pending_disjoint [OF sound_planD(3) [OF "1.prems"(1)], of i]
        by (intro apply_invD(8) [OF "1.prems"(3)]) blast
    qed
    from run_steps_returns [OF this] obtain results pas where
      run: "run_steps stack force handlers old st (findPendingByOrder steps i) = Inr (results, pas)" by fastforce
    have "apply_inv n old (ids_below steps (Suc i)) (fold record_result results st)"
      using apply_order_inv [OF "1.prems"(1,3) run, of "[]"] by simp
    from "1.IH" [OF False run refl "1.prems"(1,2) this] False run show ?thesis
      by (subst apply_orders.simps) simp
  qed
qed

lemma no_infinite_run: "\<not> (\<exists>f. \<forall>i. post_step concurrency stack (f i) (f (Suc i)))"
proof
  assume "\<exists>f. \<forall>i. post_step concurrency stack (f i) (f (Suc i) :: ('a, 'b) post_state)"
  then obtain f :: "nat \<Rightarrow> ('a, 'b) post_state" where "\<And>i. post_step concurrency stack (f i) (f (Suc i))" by blast
  then have "\<And>i. (post_weight (f (Suc i)), post_weight (f i)) \<in> less_than" by (auto intro: post_step_weight)
  then have "\<exists>g. \<forall>i. (g (Suc i), g i) \<in> less_than" by (intro exI [of _ "\<lambda>i. post_weight (f i)"]) blast
  then show False using wf_less_than unfolding wf_iff_no_infinite_down_chain by blast
qed


section \<open>The properties on a concrete deployment\<close>

text \<open>
  A service \<open>x\<close> that depends on a kept service \<open>a\<close>, and \<open>y\<close> that depends on \<open>x\<close>, are removed. The
  handlers succeed at once, or the deletions register a post action that fails.
\<close>

definition quiet_run :: "'v \<Rightarrow> 'v handler_run" where
  "quiet_run v = \<lparr>run_outcome = Inr v, run_warnings = [], run_registered = []\<rparr>"

definition sample_apply_handler :: "(string \<Rightarrow> (post_callback \<times> bool) list) \<Rightarrow> (nat, nat) apply_handler" where
  "sample_apply_handler posts = \<lparr>equals = (\<lambda>c cur. Inr (Answer True)), preview = (\<lambda>c cur options. Inr None),
     handler_create = (\<lambda>e ctx. quiet_run (Some 1)), handler_replace = (\<lambda>e cur ctx. quiet_run None),
     handler_update = (\<lambda>e cur ctx. quiet_run None),
     handler_delete = (\<lambda>e ctx. (quiet_run ())\<lparr>run_registered := posts (entryId e)\<rparr>)\<rparr>"

definition sample_apply_handlers :: "(string \<Rightarrow> (post_callback \<times> bool) list) \<Rightarrow> (nat, nat) apply_handlers" where
  "sample_apply_handlers posts ty = (if ty = ''service'' then Some (sample_apply_handler posts) else None)"

definition failing_posts :: "string \<Rightarrow> (post_callback \<times> bool) list" where
  "failing_posts k = (if k = ''y'' then [(Callback (Some (HandlerError ''timeout'')) [], False)] else [])"

definition sample_final :: "(nat, nat) apply_state" where
  "sample_final = (case apply_changes 10 False (sample_apply_handlers (\<lambda>k. [])) sample_plan (Some sample_map) (Some sample_old) of
     Inr (st, posts) \<Rightarrow> st | Inl err \<Rightarrow> apply_start None)"

lemma sample_apply_plan:
  "planSteps (Some sample_map) (Some sample_old) (sample_apply_handlers (\<lambda>k. [])) False = Inr sample_plan"
  by code_simp

lemma sample_changes_posts:
  "(case apply_changes 10 False (sample_apply_handlers (\<lambda>k. [])) sample_plan (Some sample_map) (Some sample_old) of
     Inr (st, posts) \<Rightarrow> posts = [] | Inl err \<Rightarrow> False)"
  by code_simp

lemma sample_applied:
  "applySteps 5 10 False (sample_apply_handlers (\<lambda>k. [])) sample_plan (Some sample_map) (Some sample_old) sample_final"
  using sample_changes_posts
  by (auto simp: applySteps_def sample_final_def post_done_def post_start_def split: sum.splits intro!: exI)

theorem apply_leaves_loadable_state_witness:
  "deletes_safely (sample_apply_handlers (\<lambda>k. [])) \<and>
   applySteps 5 10 False (sample_apply_handlers (\<lambda>k. [])) sample_plan (Some sample_map) (Some sample_old) sample_final \<and>
   validateEntries (result_entries sample_final) = Inr ()"
proof -
  have safe: "deletes_safely (sample_apply_handlers (\<lambda>k. []))"
    by (auto simp: deletes_safely_def sample_apply_handlers_def sample_apply_handler_def quiet_run_def split: if_splits)
  then show ?thesis
    using apply_leaves_loadable_state [OF _ _ sample_apply_plan safe sample_applied]
      sample_map_valid sample_old_valid sample_applied by (simp add: entries_of_def)
qed


definition kept_state :: "(nat, nat) apply_state" where
  "kept_state = (apply_start None)\<lparr>succeededEntries := [(''a'', Some (sample_entry ''a'' []))]\<rparr>"

definition kept_post :: "(nat, nat) post_action_entry" where
  "kept_post = \<lparr>post_callback = Callback None [], requireDependents = False, post_step_action = Update,
     post_entry = sample_entry ''a'' []\<rparr>"

theorem post_action_runs_iff_witness: "post_guard 1 kept_post kept_state = None"
proof -
  have at: "entry_at (succeededEntries kept_state) k = (if k = ''a'' then Some (sample_entry ''a'' []) else None)" for k
    by (simp add: kept_state_def entry_at_def obj_get_def)
  have no_failed: "failedEntries kept_state = []" by (simp add: kept_state_def apply_start_def)
  have "closed_state kept_state"
    by (auto simp: closed_state_def defined_map_def at no_failed has_entry_def sample_entry_def
        kept_state_def [unfolded apply_start_def] obj_keys_def obj_ok_def entry_at_def obj_get_def split: if_splits)
  moreover have "acyclic (needs_edges (succeededEntries kept_state))"
  proof -
    have "needs_edges (succeededEntries kept_state) = {}"
      by (auto simp: needs_edges_def depends_on_def at sample_entry_def split: if_splits)
    then show ?thesis by (simp add: acyclic_def)
  qed
  moreover have none: "dependencies (post_entry kept_post) = []" by (simp add: kept_post_def sample_entry_def)
  ultimately show ?thesis
    using post_action_runs_iff [of kept_state kept_post 1] at no_failed
    by (simp add: has_entry_def kept_post_def sample_entry_def)
qed

lemma failing_plan:
  "planSteps (Some sample_map) (Some sample_old) (sample_apply_handlers failing_posts) False = Inr sample_plan"
  by code_simp

definition failing_pa :: "(nat, nat) post_action_entry" where
  "failing_pa = \<lparr>post_callback = Callback (Some (HandlerError ''timeout'')) [], requireDependents = False,
     post_step_action = Delete, post_entry = sample_entry ''y'' [''x'']\<rparr>"

lemma failing_changes:
  "(case apply_changes 10 False (sample_apply_handlers failing_posts) sample_plan (Some sample_map) (Some sample_old) of
     Inr (st, posts) \<Rightarrow> posts = [[failing_pa]] \<and> post_guard 10 failing_pa st = None \<and>
       validateEntries (result_entries (post_failed failing_pa (HandlerError ''timeout'') st)) =
         Inl (DependencyNotFoundError ''y'' ''x'')
   | Inl err \<Rightarrow> False)"
  by code_simp

lemma single_post_rejected:
  assumes "0 < concurrency" and "post_guard stack pa st = None" and "post_callback pa = Callback (Some err) []"
  shows "(post_step concurrency stack)\<^sup>*\<^sup>* (post_start st [[pa]]) (post_start (post_failed pa err st) [])"
proof -
  have "post_step concurrency stack (post_start st [[pa]]) ((post_start st [])\<lparr>ps_waiting := [pa]\<rparr>)"
    using post_step.next_batch [of "post_start st [[pa]]" "[pa]" "[]" concurrency stack] by (simp add: post_start_def)
  moreover have "post_step concurrency stack ((post_start st [])\<lparr>ps_waiting := [pa]\<rparr>) ((post_start st [])\<lparr>ps_running := [(pa, [])]\<rparr>)"
    using assms post_step.start [of "(post_start st [])\<lparr>ps_waiting := [pa]\<rparr>" "[]" pa "[]" concurrency stack]
    by (simp add: post_start_def)
  moreover have "post_step concurrency stack ((post_start st [])\<lparr>ps_running := [(pa, [])]\<rparr>) (post_start (post_failed pa err st) [])"
    using assms post_step.reject [of "(post_start st [])\<lparr>ps_running := [(pa, [])]\<rparr>" "[]" pa "[]" err concurrency stack]
    by (simp add: post_start_def)
  ultimately show ?thesis by (meson rtranclp.rtrancl_into_rtrancl rtranclp.rtrancl_refl)
qed


end
