(* ===== verification/Task_Pool.thy ===== *)
theory Task_Pool
  imports Ez4_Prelude
begin

text \<open>
  The task runner of \<open>foundation/utils/src/system/tasks.ts\<close>: \<open>Tasks.run\<close> and \<open>Tasks.safeRun\<close>
  start a number of workers that share the index of the next task. A worker takes the next task,
  awaits it, stores what became of it and goes on until no task is left; in \<open>run\<close> a rejected
  task rejects its worker, which takes no further task, while the others go on. The runs are the
  interleavings of a step relation. What a task does is the argument \<open>outcome\<close>, which gives for
  each index the error or the value it settles with.
\<close>

section \<open>Workers\<close>

datatype ('e, 'v) task_result = TaskSuccess 'v | TaskFailure 'e

record 'w pool =
  nextTask :: nat
  busy :: "nat list"
  rejected :: nat
  results :: "'w option list"
  completedTasks :: nat

text \<open>\<open>Array.from({ length: Math.min(tasks.length, concurrency) })\<close> has no element for a negative length.\<close>

definition pool_workers :: "nat \<Rightarrow> int \<Rightarrow> nat" where
  "pool_workers totalTasks concurrency = nat (min (int totalTasks) concurrency)"

definition pool_start :: "nat \<Rightarrow> 'w pool" where
  "pool_start totalTasks = \<lparr>nextTask = 0, busy = [], rejected = 0, results = replicate totalTasks None, completedTasks = 0\<rparr>"

text \<open>What a worker stores of a settled task; \<open>None\<close> when the worker itself rejects.\<close>

fun run_settle :: "'e + 'v \<Rightarrow> 'v option" where
  "run_settle (Inl e) = None"
| "run_settle (Inr v) = Some v"

fun safeRun_settle :: "'e + 'v \<Rightarrow> ('e, 'v) task_result option" where
  "safeRun_settle (Inl e) = Some (TaskFailure e)"
| "safeRun_settle (Inr v) = Some (TaskSuccess v)"

inductive pool_step ::
  "('e + 'v \<Rightarrow> 'w option) \<Rightarrow> (nat \<Rightarrow> 'e + 'v) \<Rightarrow> nat \<Rightarrow> nat \<Rightarrow> 'w pool \<Rightarrow> 'w pool \<Rightarrow> bool"
  for settle outcome totalTasks workers where
  take_task: "nextTask p < totalTasks \<Longrightarrow> length (busy p) + rejected p < workers \<Longrightarrow>
    pool_step settle outcome totalTasks workers p (p\<lparr>nextTask := Suc (nextTask p), busy := busy p @ [nextTask p]\<rparr>)"
| settled: "busy p = xs @ i # ys \<Longrightarrow> settle (outcome i) = Some w \<Longrightarrow>
    pool_step settle outcome totalTasks workers p (p\<lparr>busy := xs @ ys, results := (results p)[i := Some w],
      completedTasks := Suc (completedTasks p)\<rparr>)"
| worker_rejected: "busy p = xs @ i # ys \<Longrightarrow> settle (outcome i) = None \<Longrightarrow>
    pool_step settle outcome totalTasks workers p (p\<lparr>busy := xs @ ys, rejected := Suc (rejected p)\<rparr>)"

definition pool_done :: "nat \<Rightarrow> nat \<Rightarrow> 'w pool \<Rightarrow> bool" where
  "pool_done totalTasks workers p = (busy p = [] \<and> (nextTask p = totalTasks \<or> workers \<le> rejected p))"

text \<open>The runs of \<open>Tasks.run\<close> and \<open>Tasks.safeRun\<close> over \<open>totalTasks\<close> tasks.\<close>

definition run :: "(nat \<Rightarrow> 'e + 'v) \<Rightarrow> nat \<Rightarrow> int \<Rightarrow> 'v pool \<Rightarrow> bool" where
  "run outcome totalTasks concurrency =
     (pool_step run_settle outcome totalTasks (pool_workers totalTasks concurrency))\<^sup>*\<^sup>* (pool_start totalTasks)"

definition safeRun :: "(nat \<Rightarrow> 'e + 'v) \<Rightarrow> nat \<Rightarrow> int \<Rightarrow> ('e, 'v) task_result pool \<Rightarrow> bool" where
  "safeRun outcome totalTasks concurrency =
     (pool_step safeRun_settle outcome totalTasks (pool_workers totalTasks concurrency))\<^sup>*\<^sup>* (pool_start totalTasks)"

section \<open>The invariant of a pool\<close>

definition finished :: "'w pool \<Rightarrow> nat set" where
  "finished p = {i. i < nextTask p \<and> i \<notin> set (busy p)}"

definition pool_inv :: "('e + 'v \<Rightarrow> 'w option) \<Rightarrow> (nat \<Rightarrow> 'e + 'v) \<Rightarrow> nat \<Rightarrow> nat \<Rightarrow> 'w pool \<Rightarrow> bool" where
  "pool_inv settle outcome totalTasks workers p =
     (nextTask p \<le> totalTasks \<and> distinct (busy p) \<and> (\<forall>i \<in> set (busy p). i < nextTask p) \<and>
      length (busy p) + rejected p \<le> workers \<and> length (results p) = totalTasks \<and>
      (\<forall>i < totalTasks. results p ! i = (if i \<in> finished p then settle (outcome i) else None)) \<and>
      completedTasks p = card {i \<in> finished p. settle (outcome i) \<noteq> None} \<and>
      rejected p = card {i \<in> finished p. settle (outcome i) = None})"

lemma finite_finished [simp]: "finite {i \<in> finished p. P i}"
  by (simp add: finished_def)

lemma finished_take: "finished (p\<lparr>nextTask := Suc (nextTask p), busy := busy p @ [nextTask p]\<rparr>) = finished p"
  by (auto simp: finished_def less_Suc_eq)

lemma finished_remove:
  assumes "busy p = xs @ i # ys" and "distinct (busy p)" and "i < nextTask p"
  shows "{j. j < nextTask p \<and> j \<notin> set (xs @ ys)} = insert i (finished p)" and "i \<notin> finished p"
  using assms by (auto simp: finished_def)

lemma card_insert_filter:
  assumes "finite A" and "i \<notin> A"
  shows "card {j \<in> insert i A. P j} = (if P i then Suc (card {j \<in> A. P j}) else card {j \<in> A. P j})"
proof -
  have "{j \<in> insert i A. P j} = (if P i then insert i {j \<in> A. P j} else {j \<in> A. P j})" by auto
  with assms show ?thesis by simp
qed

lemma pool_inv_start: "pool_inv settle outcome totalTasks workers (pool_start totalTasks)"
  by (simp add: pool_inv_def pool_start_def finished_def)

lemma pool_inv_remove:
  assumes "pool_inv settle outcome totalTasks workers p" and "busy p = xs @ i # ys"
    and "busy p' = xs @ ys" and "nextTask p' = nextTask p"
    and "results p' = (case settle (outcome i) of Some w \<Rightarrow> (results p)[i := Some w] | None \<Rightarrow> results p)"
    and "completedTasks p' = completedTasks p + (if settle (outcome i) = None then 0 else 1)"
    and "rejected p' = rejected p + (if settle (outcome i) = None then 1 else 0)"
  shows "pool_inv settle outcome totalTasks workers p'"
proof -
  have i: "i < nextTask p" "distinct (busy p)" "i < totalTasks" using assms(1,2) by (auto simp: pool_inv_def)
  note rem = finished_remove [OF assms(2) i(2,1)]
  have fin: "finished p' = insert i (finished p)" unfolding finished_def [of p'] assms(3,4) by (rule rem(1))
  have "finite (finished p)" by (simp add: finished_def)
  note cards = card_insert_filter [OF this rem(2)]
  have "results p' ! j = (if j \<in> finished p' then settle (outcome j) else None)" if "j < totalTasks" for j
    using assms(1,5) that i(3) rem(2) by (auto simp: pool_inv_def fin nth_list_update split: option.splits)
  then show ?thesis
    using assms cards by (auto simp: pool_inv_def fin split: option.splits)
qed

lemma pool_inv_step:
  assumes "pool_step settle outcome totalTasks workers p p'" and "pool_inv settle outcome totalTasks workers p"
  shows "pool_inv settle outcome totalTasks workers p'"
  using assms
proof (induction rule: pool_step.induct)
  case (take_task p)
  then show ?case by (auto simp: pool_inv_def finished_take)
next
  case (settled p xs i ys w)
  then show ?case by (intro pool_inv_remove [OF settled.prems]) auto
next
  case (worker_rejected p xs i ys)
  then show ?case by (intro pool_inv_remove [OF worker_rejected.prems]) auto
qed

lemma pool_inv_reachable:
  "(pool_step settle outcome totalTasks workers)\<^sup>*\<^sup>* (pool_start totalTasks) p \<Longrightarrow> pool_inv settle outcome totalTasks workers p"
  by (induction rule: rtranclp_induct) (auto intro: pool_inv_start pool_inv_step)

section \<open>Every run ends\<close>

lemma pool_step_measure:
  assumes "pool_step settle outcome totalTasks workers p p'"
  shows "2 * (totalTasks - nextTask p') + length (busy p') < 2 * (totalTasks - nextTask p) + length (busy p)"
  using assms by (induction rule: pool_step.induct) auto

lemma pool_progress:
  assumes "pool_inv settle outcome totalTasks workers p" and "\<not> pool_done totalTasks workers p"
  shows "\<exists>p'. pool_step settle outcome totalTasks workers p p'"
proof (cases "busy p")
  case Nil
  with assms have "nextTask p < totalTasks" "rejected p < workers" by (auto simp: pool_inv_def pool_done_def)
  with Nil show ?thesis using pool_step.take_task [of p totalTasks workers] by fastforce
next
  case (Cons i ys)
  then show ?thesis
    using pool_step.settled [of p "[]" i ys settle outcome] pool_step.worker_rejected [of p "[]" i ys settle outcome]
    by (cases "settle (outcome i)") auto
qed

lemma pool_ends:
  assumes "pool_inv settle outcome totalTasks workers p"
  shows "\<exists>p'. (pool_step settle outcome totalTasks workers)\<^sup>*\<^sup>* p p' \<and> pool_done totalTasks workers p'"
  using assms
proof (induction "2 * (totalTasks - nextTask p) + length (busy p)" arbitrary: p rule: less_induct)
  case less
  show ?case
  proof (cases "pool_done totalTasks workers p")
    case False
    then obtain p1 where step: "pool_step settle outcome totalTasks workers p p1"
      using pool_progress [OF less.prems] by blast
    with less.hyps [OF pool_step_measure [OF step] pool_inv_step [OF step less.prems]]
    show ?thesis by (meson converse_rtranclp_into_rtranclp)
  qed blast
qed

section \<open>Properties of the runner\<close>

text \<open>
  C26. Tasks start in order, once, and never more than allowed at a time: in every state of a
  run no more tasks are pending than the concurrency, and the started tasks, pending or settled,
  are precisely the first ones.
\<close>

theorem run_limits_concurrency:
  assumes "run outcome totalTasks concurrency p"
  shows "int (length (busy p)) \<le> max 0 concurrency \<and> distinct (busy p) \<and>
    set (busy p) \<union> finished p = {..<nextTask p} \<and> set (busy p) \<inter> finished p = {} \<and>
    nextTask p \<le> totalTasks \<and> completedTasks p + rejected p = card (finished p)"
proof -
  have inv: "pool_inv run_settle outcome totalTasks (pool_workers totalTasks concurrency) p"
    using assms unfolding run_def by (rule pool_inv_reachable)
  have "card (finished p) = card {i \<in> finished p. run_settle (outcome i) \<noteq> None} +
      card {i \<in> finished p. run_settle (outcome i) = None}"
    by (subst card_Un_disjoint [symmetric]) (auto intro: arg_cong [where f = card])
  with inv show ?thesis by (auto simp: pool_inv_def pool_workers_def finished_def)
qed

lemma pool_done_results:
  assumes "pool_inv settle outcome totalTasks (pool_workers totalTasks concurrency) p"
    and "pool_done totalTasks (pool_workers totalTasks concurrency) p" and "0 < concurrency" and "rejected p = 0"
  shows "results p = map (\<lambda>i. settle (outcome i)) [0..<totalTasks] \<and> completedTasks p = totalTasks \<and>
    (\<forall>i < totalTasks. settle (outcome i) \<noteq> None)"
proof -
  have "nextTask p = totalTasks"
    using assms by (auto simp: pool_done_def pool_workers_def pool_inv_def)
  then have fin: "finished p = {..<totalTasks}" using assms(2) by (auto simp: finished_def pool_done_def)
  have "card {i \<in> finished p. settle (outcome i) = None} = 0" using assms(1,4) by (simp add: pool_inv_def)
  then have all: "\<forall>i < totalTasks. settle (outcome i) \<noteq> None" by (auto simp: fin)
  then have "{i \<in> finished p. settle (outcome i) \<noteq> None} = {..<totalTasks}" by (auto simp: fin)
  with assms(1) all show ?thesis
    by (auto simp: pool_inv_def fin intro!: nth_equalityI)
qed

text \<open>
  \<open>Tasks.run\<close> with a positive concurrency comes to an end. It ends without a rejected
  worker exactly when every task resolves, and then the results are the values of all tasks in
  their order, and each has been counted as completed.
\<close>

theorem run_collects_results:
  assumes "0 < concurrency"
  shows "(\<exists>p. run outcome totalTasks concurrency p \<and> pool_done totalTasks (pool_workers totalTasks concurrency) p) \<and>
    (\<forall>p. run outcome totalTasks concurrency p \<and> pool_done totalTasks (pool_workers totalTasks concurrency) p \<longrightarrow>
       (rejected p = 0 \<longleftrightarrow> (\<forall>i < totalTasks. \<exists>v. outcome i = Inr v)) \<and>
       (rejected p = 0 \<longrightarrow> results p = map (\<lambda>i. run_settle (outcome i)) [0..<totalTasks] \<and> completedTasks p = totalTasks))"
proof (intro conjI allI impI)
  let ?step = "pool_step run_settle outcome totalTasks (pool_workers totalTasks concurrency)"
  show "\<exists>p. run outcome totalTasks concurrency p \<and> pool_done totalTasks (pool_workers totalTasks concurrency) p"
    using pool_ends [OF pool_inv_start] unfolding run_def by blast
  fix p assume p: "run outcome totalTasks concurrency p \<and> pool_done totalTasks (pool_workers totalTasks concurrency) p"
  then have inv: "pool_inv run_settle outcome totalTasks (pool_workers totalTasks concurrency) p"
    unfolding run_def by (blast intro: pool_inv_reachable)
  have settle: "run_settle r \<noteq> None \<longleftrightarrow> (\<exists>v. r = Inr v)" for r :: "'b + 'a" by (cases r) auto
  show "rejected p = 0 \<longleftrightarrow> (\<forall>i < totalTasks. \<exists>v. outcome i = Inr v)"
  proof
    show "rejected p = 0 \<Longrightarrow> \<forall>i < totalTasks. \<exists>v. outcome i = Inr v"
      using pool_done_results [OF inv _ assms] p settle by blast
    assume all: "\<forall>i < totalTasks. \<exists>v. outcome i = Inr v"
    have "i < totalTasks" if "i \<in> finished p" for i using that inv by (auto simp: finished_def pool_inv_def)
    then have "{i \<in> finished p. run_settle (outcome i) = None} = {}" using all by fastforce
    with inv show "rejected p = 0" by (simp add: pool_inv_def)
  qed
  show "results p = map (\<lambda>i. run_settle (outcome i)) [0..<totalTasks]" "completedTasks p = totalTasks" if "rejected p = 0"
    using pool_done_results [OF inv _ assms that] p by blast+
qed

text \<open>
  \<open>Tasks.safeRun\<close> never rejects: with a positive concurrency it ends, and whatever the tasks
  do the results are the success or the failure of every task in order, each counted once.
\<close>

theorem safe_run_collects_all:
  assumes "0 < concurrency"
  shows "(\<exists>p. safeRun outcome totalTasks concurrency p \<and> pool_done totalTasks (pool_workers totalTasks concurrency) p) \<and>
    (\<forall>p. safeRun outcome totalTasks concurrency p \<and> pool_done totalTasks (pool_workers totalTasks concurrency) p \<longrightarrow>
       results p = map (\<lambda>i. Some (case outcome i of Inr v \<Rightarrow> TaskSuccess v | Inl e \<Rightarrow> TaskFailure e)) [0..<totalTasks] \<and>
       completedTasks p = totalTasks)"
proof (intro conjI allI impI)
  show "\<exists>p. safeRun outcome totalTasks concurrency p \<and> pool_done totalTasks (pool_workers totalTasks concurrency) p"
    using pool_ends [OF pool_inv_start] unfolding safeRun_def by blast
  fix p assume p: "safeRun outcome totalTasks concurrency p \<and> pool_done totalTasks (pool_workers totalTasks concurrency) p"
  then have inv: "pool_inv safeRun_settle outcome totalTasks (pool_workers totalTasks concurrency) p"
    unfolding safeRun_def by (blast intro: pool_inv_reachable)
  have settle: "safeRun_settle (outcome i) = Some (case outcome i of Inr v \<Rightarrow> TaskSuccess v | Inl e \<Rightarrow> TaskFailure e)" for i
    by (cases "outcome i") auto
  have "{i \<in> finished p. safeRun_settle (outcome i) = None} = {}" by (simp add: settle)
  then have "rejected p = 0" using inv unfolding pool_inv_def by (metis card.empty)
  from pool_done_results [OF inv _ assms this] p
  show "results p = map (\<lambda>i. Some (case outcome i of Inr v \<Rightarrow> TaskSuccess v | Inl e \<Rightarrow> TaskFailure e)) [0..<totalTasks]"
    "completedTasks p = totalTasks" by (simp_all add: settle)
qed

theorem run_limits_concurrency_witness:
  "\<exists>p. run (\<lambda>i. Inr i :: nat + nat) 3 2 p \<and> length (busy p) = 2 \<and> int (length (busy p)) \<le> max 0 2"
proof -
  let ?step = "pool_step run_settle (\<lambda>i. Inr i :: nat + nat) 3 (pool_workers 3 2)"
  define p1 :: "nat pool" where "p1 = (pool_start 3)\<lparr>nextTask := 1, busy := [0]\<rparr>"
  define p2 where "p2 = p1\<lparr>nextTask := Suc 1, busy := [0, 1]\<rparr>"
  have "?step (pool_start 3) p1"
    using pool_step.take_task [of "pool_start 3 :: nat pool" 3 "pool_workers 3 2" run_settle "\<lambda>i. Inr i :: nat + nat"]
    by (simp add: p1_def pool_start_def pool_workers_def)
  moreover have "?step p1 p2"
    using pool_step.take_task [of p1 3 "pool_workers 3 2" run_settle "\<lambda>i. Inr i :: nat + nat"]
    by (simp add: p2_def p1_def pool_start_def pool_workers_def)
  ultimately have "run (\<lambda>i. Inr i :: nat + nat) 3 2 p2"
    unfolding run_def by (meson rtranclp.rtrancl_into_rtrancl rtranclp.rtrancl_refl)
  with run_limits_concurrency [OF this] show ?thesis by (intro exI [of _ p2]) (simp add: p2_def)
qed

theorem run_collects_results_witness:
  "\<exists>p. run (\<lambda>i. Inr (i + 7) :: nat + nat) 2 1 p \<and> results p = [Some 7, Some 8]"
  using run_collects_results [of 1 "\<lambda>i. Inr (i + 7) :: nat + nat" 2] by (auto simp: upt_rec)

theorem safe_run_collects_all_witness:
  "\<exists>p. safeRun (\<lambda>i. if i = 0 then Inl ''e'' else Inr i) 2 5 p \<and>
     results p = [Some (TaskFailure ''e''), Some (TaskSuccess 1)]"
  using safe_run_collects_all [of 5 "\<lambda>i. if i = 0 then Inl ''e'' else Inr i" 2] by (auto simp: upt_rec)

end
