(* ===== verification/Local_Claims.thy ===== *)
theory Local_Claims
  imports Complex_Main "HOL-Library.AList"
begin

text \<open>
  The claims of the idempotent subscriptions of a local queue:
  \<open>providers/local/local-queue/src/service/claims.ts\<close>. A JavaScript \<open>Map\<close> keeps insertion order
  and replaces in place, which is what \<open>AList.update\<close> does. The clock and the random owner are
  arguments of the operations; times are in milliseconds.
\<close>

section \<open>Claims\<close>

datatype claim_state = Running | Done | Unknown

record stored_claim =
  sc_state :: claim_state
  sc_owner :: string
  sc_expiresAt :: rat

record held_claim =
  hc_key :: string
  hc_owner :: string

datatype claim_result = Taken held_claim | AlreadyDone | Busy

type_synonym local_claims = "(string \<times> stored_claim) list"

definition SweepThreshold :: nat where
  "SweepThreshold = 10000"

definition sweepExpired :: "rat \<Rightarrow> local_claims \<Rightarrow> local_claims" where
  "sweepExpired now claims = filter (\<lambda>(k, c). \<not> sc_expiresAt c \<le> now) claims"

definition claim_take :: "rat \<Rightarrow> string \<Rightarrow> string \<Rightarrow> rat \<Rightarrow> local_claims \<Rightarrow> local_claims \<times> claim_result" where
  "claim_take now owner key lease claims0 =
     (let claims = (if SweepThreshold \<le> length claims0 then sweepExpired now claims0 else claims0);
          fresh = (AList.update key \<lparr>sc_state = Running, sc_owner = owner, sc_expiresAt = now + lease\<rparr> claims,
                   Taken \<lparr>hc_key = key, hc_owner = owner\<rparr>)
      in (case map_of claims key of
            None \<Rightarrow> fresh
          | Some current \<Rightarrow>
              if sc_expiresAt current > now
              then (claims, if sc_state current = Running then Busy else AlreadyDone)
              else fresh))"

definition claim_keep :: "rat \<Rightarrow> held_claim \<Rightarrow> claim_state \<Rightarrow> rat \<Rightarrow> local_claims \<Rightarrow> local_claims" where
  "claim_keep now claim state ttl claims =
     (case map_of claims (hc_key claim) of
        None \<Rightarrow> claims
      | Some current \<Rightarrow>
          if sc_owner current = hc_owner claim
          then AList.update (hc_key claim) (current\<lparr>sc_state := state, sc_expiresAt := now + ttl\<rparr>) claims
          else claims)"

definition claim_release :: "held_claim \<Rightarrow> local_claims \<Rightarrow> local_claims" where
  "claim_release claim claims =
     (case map_of claims (hc_key claim) of
        None \<Rightarrow> claims
      | Some current \<Rightarrow> if sc_owner current = hc_owner claim then AList.delete (hc_key claim) claims else claims)"

section \<open>Sequences of operations\<close>

datatype claim_op =
    OpTake rat string string rat
  | OpKeep rat held_claim claim_state rat
  | OpRelease rat held_claim

fun op_time :: "claim_op \<Rightarrow> rat" where
  "op_time (OpTake now owner key lease) = now"
| "op_time (OpKeep now claim state ttl) = now"
| "op_time (OpRelease now claim) = now"

fun op_claim :: "claim_op \<Rightarrow> held_claim option" where
  "op_claim (OpTake now owner key lease) = None"
| "op_claim (OpKeep now claim state ttl) = Some claim"
| "op_claim (OpRelease now claim) = Some claim"

fun apply_op :: "claim_op \<Rightarrow> local_claims \<Rightarrow> local_claims" where
  "apply_op (OpTake now owner key lease) claims = fst (claim_take now owner key lease claims)"
| "apply_op (OpKeep now claim state ttl) claims = claim_keep now claim state ttl claims"
| "apply_op (OpRelease now claim) claims = claim_release claim claims"

definition claims_ok :: "local_claims \<Rightarrow> bool" where
  "claims_ok claims = distinct (map fst claims)"

lemma map_of_filter_keep:
  "distinct (map fst claims) \<Longrightarrow> map_of claims k = Some c \<Longrightarrow> P (k, c) \<Longrightarrow> map_of (filter P claims) k = Some c"
  by (induction claims) (auto split: if_splits simp: rev_image_eqI)

lemma map_of_sweep: "claims_ok claims \<Longrightarrow> map_of claims k = Some c \<Longrightarrow> now < sc_expiresAt c \<Longrightarrow>
  map_of (sweepExpired now claims) k = Some c"
  unfolding claims_ok_def sweepExpired_def by (rule map_of_filter_keep) auto

lemma map_of_sweep_live: "claims_ok claims \<Longrightarrow> map_of (sweepExpired now claims) k = Some c \<Longrightarrow> map_of claims k = Some c"
  unfolding claims_ok_def sweepExpired_def
  by (auto dest!: map_of_SomeD intro: map_of_is_SomeI)

lemma claims_ok_ops:
  "claims_ok claims \<Longrightarrow> claims_ok (sweepExpired now claims)"
  "claims_ok claims \<Longrightarrow> claims_ok (AList.update k c claims)"
  "claims_ok claims \<Longrightarrow> claims_ok (AList.delete k claims)"
  by (simp_all add: claims_ok_def sweepExpired_def distinct_map_filter distinct_update distinct_delete)

lemma claims_ok_apply: "claims_ok claims \<Longrightarrow> claims_ok (apply_op p claims)"
  by (cases p) (auto simp: claim_take_def claim_keep_def claim_release_def Let_def intro: claims_ok_ops split: option.splits)

text \<open>A live claim, and what a take finds in its place.\<close>

definition live :: "rat \<Rightarrow> string \<Rightarrow> local_claims \<Rightarrow> stored_claim option" where
  "live now k claims = (case map_of claims k of Some c \<Rightarrow> if now < sc_expiresAt c then Some c else None | None \<Rightarrow> None)"

lemma live_sweep: "claims_ok claims \<Longrightarrow> live now k (sweepExpired now claims) = live now k claims"
proof (cases "live now k claims")
  case None
  assume ok: "claims_ok claims"
  have "live now k (sweepExpired now claims) \<noteq> Some c" for c
    using None map_of_sweep_live [OF ok, of now k c] by (auto simp: live_def split: option.splits if_splits)
  then show ?thesis using None by (metis option.exhaust)
next
  case (Some c)
  assume ok: "claims_ok claims"
  from Some have "map_of claims k = Some c" "now < sc_expiresAt c" by (auto simp: live_def split: option.splits if_splits)
  with map_of_sweep [OF ok this] Some show ?thesis by (simp add: live_def)
qed

lemma claim_take_cases:
  assumes "claims_ok claims"
  shows "snd (claim_take now owner key lease claims) =
    (case live now key claims of
       None \<Rightarrow> Taken \<lparr>hc_key = key, hc_owner = owner\<rparr>
     | Some c \<Rightarrow> if sc_state c = Running then Busy else AlreadyDone)"
  using live_sweep [OF assms, of now key]
  by (auto simp: claim_take_def Let_def live_def split: option.splits if_splits)

lemma claim_take_keeps:
  assumes "claims_ok claims" and "map_of claims k = Some c" and "now < sc_expiresAt c"
  shows "map_of (fst (claim_take now owner key lease claims)) k = Some c"
proof -
  have swept: "map_of (sweepExpired now claims) k = Some c" by (rule map_of_sweep [OF assms])
  show ?thesis
  proof (cases "key = k")
    case True
    with assms swept show ?thesis by (auto simp: claim_take_def Let_def split: option.split)
  next
    case False
    with assms swept show ?thesis by (auto simp: claim_take_def Let_def update_conv' split: option.split)
  qed
qed

lemma apply_op_keeps:
  assumes "claims_ok claims" and "map_of claims k = Some c" and "op_time p < sc_expiresAt c"
    and "op_claim p \<noteq> Some \<lparr>hc_key = k, hc_owner = sc_owner c\<rparr>"
  shows "map_of (apply_op p claims) k = Some c"
proof (cases p)
  case (OpTake now owner key lease)
  with claim_take_keeps [OF assms(1,2)] assms(3) show ?thesis by simp
next
  case (OpKeep now claim state ttl)
  with assms show ?thesis
    by (cases "hc_key claim = k") (auto simp: claim_keep_def update_conv' split: option.split)
next
  case (OpRelease now claim)
  with assms show ?thesis
    by (cases "hc_key claim = k") (auto simp: claim_release_def delete_conv' split: option.split)
qed

section \<open>Properties\<close>

lemma claim_survives:
  assumes "claims_ok claims" and "map_of claims k = Some c"
    and "\<forall>p \<in> set ops. op_time p < sc_expiresAt c \<and> op_claim p \<noteq> Some \<lparr>hc_key = k, hc_owner = sc_owner c\<rparr>"
  shows "claims_ok (fold apply_op ops claims) \<and> map_of (fold apply_op ops claims) k = Some c"
  using assms
proof (induction ops arbitrary: claims)
  case (Cons p ops)
  then show ?case using apply_op_keeps [of claims k c p] claims_ok_apply [of claims p] by simp
qed simp

text \<open>
  C25. A claim excludes every other execution. Once a take has the key, then whatever operations
  follow before the lease ends, on any keys and by any owner but the holder, a take of the key
  answers that it is busy; the holder alone can keep or release it.
\<close>

theorem claim_excludes_others:
  assumes "claims_ok claims" and "claim_take now owner key lease claims = (claims1, Taken held)"
    and "\<forall>p \<in> set ops. op_time p < now + lease \<and> op_claim p \<noteq> Some held" and "later < now + lease"
  shows "snd (claim_take later owner' key lease' (fold apply_op ops claims1)) = Busy"
proof -
  let ?c = "\<lparr>sc_state = Running, sc_owner = owner, sc_expiresAt = now + lease\<rparr>"
  have c: "map_of claims1 key = Some ?c" "held = \<lparr>hc_key = key, hc_owner = owner\<rparr>"
    using assms(2) by (auto simp: claim_take_def Let_def update_conv' split: option.splits if_splits)
  have ok: "claims_ok claims1" using claims_ok_apply [OF assms(1), of "OpTake now owner key lease"] assms(2) by simp
  have "claims_ok (fold apply_op ops claims1)" "map_of (fold apply_op ops claims1) key = Some ?c"
    using claim_survives [OF ok c(1), of ops] assms(3) c(2) by simp_all
  then show ?thesis using assms(4) by (simp add: claim_take_cases live_def)
qed

text \<open>
  A key that ran does not run again before its time to live ends: after the holder keeps
  the claim as done or unknown, every take of the key until then is answered with done, whatever
  stale executions try to keep or release in between.
\<close>

theorem kept_claim_is_done:
  assumes "claims_ok claims" and "map_of claims (hc_key held) = Some c" and "sc_owner c = hc_owner held"
    and "state \<noteq> Running"
    and "\<forall>p \<in> set ops. op_time p < now + ttl \<and> op_claim p \<noteq> Some held" and "later < now + ttl"
  shows "snd (claim_take later owner' (hc_key held) lease (fold apply_op ops (claim_keep now held state ttl claims))) = AlreadyDone"
proof -
  let ?c = "c\<lparr>sc_state := state, sc_expiresAt := now + ttl\<rparr>"
  have c: "map_of (claim_keep now held state ttl claims) (hc_key held) = Some ?c"
    using assms(2,3) by (simp add: claim_keep_def update_conv')
  have ok: "claims_ok (claim_keep now held state ttl claims)"
    using claims_ok_apply [OF assms(1), of "OpKeep now held state ttl"] by simp
  have held: "held = \<lparr>hc_key = hc_key held, hc_owner = sc_owner ?c\<rparr>" using assms(3) by simp
  have "claims_ok (fold apply_op ops (claim_keep now held state ttl claims))"
    "map_of (fold apply_op ops (claim_keep now held state ttl claims)) (hc_key held) = Some ?c"
    using claim_survives [OF ok c, of ops] assms(5) held by simp_all
  then show ?thesis using assms(4,6) by (simp add: claim_take_cases live_def)
qed

theorem claim_excludes_others_witness:
  "snd (claim_take 5 ''u2'' ''k'' 10 (fold apply_op [OpRelease 3 \<lparr>hc_key = ''k'', hc_owner = ''stale''\<rparr>]
     (fst (claim_take 0 ''u1'' ''k'' 10 [])))) = Busy"
proof -
  have take: "claim_take 0 ''u1'' ''k'' 10 [] =
      (fst (claim_take 0 ''u1'' ''k'' 10 []), Taken \<lparr>hc_key = ''k'', hc_owner = ''u1''\<rparr>)"
    by (simp add: claim_take_def SweepThreshold_def)
  show ?thesis
    by (rule claim_excludes_others [OF _ take]) (simp_all add: claims_ok_def)
qed

theorem kept_claim_is_done_witness:
  "snd (claim_take 50 ''u2'' ''k'' 10 (fold apply_op []
     (claim_keep 5 \<lparr>hc_key = ''k'', hc_owner = ''u1''\<rparr> Done 100 (fst (claim_take 0 ''u1'' ''k'' 10 []))))) = AlreadyDone"
proof -
  have "snd (claim_take 50 ''u2'' (hc_key \<lparr>hc_key = ''k'', hc_owner = ''u1''\<rparr>) 10 (fold apply_op []
     (claim_keep 5 \<lparr>hc_key = ''k'', hc_owner = ''u1''\<rparr> Done 100 (fst (claim_take 0 ''u1'' ''k'' 10 []))))) = AlreadyDone"
    by (rule kept_claim_is_done [where c = "\<lparr>sc_state = Running, sc_owner = ''u1'', sc_expiresAt = 10\<rparr>"])
      (simp_all add: claims_ok_def claim_take_def SweepThreshold_def)
  then show ?thesis by simp
qed

end
