(* ===== verification/Local_Queue.thy ===== *)
theory Local_Queue
  imports Complex_Main "HOL-Library.AList" "HOL-Library.Sublist" "HOL-Library.Multiset"
begin

text \<open>
  The local message queue: \<open>providers/local/local-queue/src/service/queue.ts\<close>. The clock is an
  argument of every operation, in milliseconds. Random identifiers come from a supply \<open>uuid\<close>; the
  queue counts how many it has drawn. The attributes of a message are opaque to the queue. The
  deduplication map is keyed by the group and the deduplication id, which the source joins with
  \<open>JSON.stringify\<close>, an injective spelling of the pair. Infinite times are \<open>None\<close>.
\<close>

section \<open>Messages and the queue\<close>

record dead_letter_parameters =
  dl_maxAttempts :: nat
  dl_retention :: rat

record queue_parameters =
  fifoMode :: bool
  visibilityTimeout :: rat
  retention :: rat
  delay :: rat
  polling :: rat
  deadLetter :: "dead_letter_parameters option"

record 'a outgoing_message =
  om_body :: string
  om_attributes :: 'a
  om_groupId :: "string option"
  om_deduplicationId :: "string option"
  om_delay :: "rat option"

record 'a stored_message =
  messageId :: string
  body :: string
  attributes :: 'a
  groupId :: "string option"
  deduplicationId :: "string option"
  sentAt :: rat
  visibleAt :: rat
  receiveCount :: nat
  receivedAt :: "rat option"
  receiptHandle :: "string option"

record 'a received_message =
  rm_messageId :: string
  rm_receiptHandle :: string
  rm_receiveCount :: nat
  rm_attributes :: 'a
  rm_groupId :: "string option"
  rm_body :: string

record stored_dead_letter =
  dlm_messageId :: string
  dlm_receiveCount :: nat
  dlm_body :: string
  dlm_expireTime :: rat

record 'a local_queue =
  messages :: "'a stored_message list"
  deadLetters :: "stored_dead_letter list"
  deduplications :: "((string option \<times> string) \<times> rat) list"
  wakeUpTime :: "rat option"
  wakeUpTimer :: "rat option"
  isNotifying :: bool
  isStopped :: bool
  drawn :: nat

definition DEDUPLICATION_INTERVAL :: rat where "DEDUPLICATION_INTERVAL = 300000"
definition MAX_VISIBILITY_TIMEOUT :: rat where "MAX_VISIBILITY_TIMEOUT = 43200"
definition MAX_RECEIVE_MESSAGES :: nat where "MAX_RECEIVE_MESSAGES = 10"
definition MAX_RECEIVE_WAIT :: rat where "MAX_RECEIVE_WAIT = 20"
definition MAX_TIMER_DELAY :: rat where "MAX_TIMER_DELAY = 2 ^ 31 - 1"

definition createLocalQueue :: "'a local_queue" where
  "createLocalQueue = \<lparr>messages = [], deadLetters = [], deduplications = [], wakeUpTime = None,
     wakeUpTimer = None, isNotifying = False, isStopped = False, drawn = 0\<rparr>"

definition getExpireTime :: "queue_parameters \<Rightarrow> 'a stored_message \<Rightarrow> rat" where
  "getExpireTime par m = sentAt m + retention par * 60000"

definition isInFlight :: "'a stored_message \<Rightarrow> rat \<Rightarrow> bool" where
  "isInFlight m now = (receiptHandle m \<noteq> None \<and> visibleAt m > now)"

section \<open>Wake up and expiry\<close>

text \<open>
  Listeners run in a microtask after the change; \<open>isNotifying\<close> tells that one is queued, and
  \<open>runListeners\<close> is what the microtask changes of the queue itself. What the listeners do then are
  further operations of the history.
\<close>

definition notify :: "'a local_queue \<Rightarrow> 'a local_queue" where
  "notify q = q\<lparr>isNotifying := True\<rparr>"

definition runListeners :: "'a local_queue \<Rightarrow> 'a local_queue" where
  "runListeners q = q\<lparr>isNotifying := False\<rparr>"

fun min_time :: "rat option \<Rightarrow> rat option \<Rightarrow> rat option" where
  "min_time None t = t"
| "min_time t None = t"
| "min_time (Some a) (Some b) = Some (min a b)"

definition next_time :: "queue_parameters \<Rightarrow> rat \<Rightarrow> 'a stored_message list \<Rightarrow> rat option" where
  "next_time par now ms =
     fold (\<lambda>m t. min_time (min_time t (if visibleAt m > now then Some (visibleAt m) else None))
             (Some (getExpireTime par m))) ms None"

text \<open>The timer is set for the next time, or for the longest delay a timer takes when that comes first.\<close>

definition scheduleWakeUp :: "queue_parameters \<Rightarrow> rat \<Rightarrow> 'a local_queue \<Rightarrow> 'a local_queue" where
  "scheduleWakeUp par now q =
     (if isStopped q then q
      else let nextTime = next_time par now (messages q)
           in if nextTime = wakeUpTime q then q
              else q\<lparr>wakeUpTime := nextTime,
                     wakeUpTimer := map_option (\<lambda>t. now + min (max 0 (t - now)) MAX_TIMER_DELAY) nextTime\<rparr>)"

definition dropExpiredMessages :: "queue_parameters \<Rightarrow> rat \<Rightarrow> 'a local_queue \<Rightarrow> 'a local_queue" where
  "dropExpiredMessages par now q =
     (let kept = filter (\<lambda>m. \<not> getExpireTime par m \<le> now) (messages q)
      in if length kept = length (messages q) then q else notify (q\<lparr>messages := kept\<rparr>))"

text \<open>The callback of the wake up timer.\<close>

definition wakeUp :: "queue_parameters \<Rightarrow> rat \<Rightarrow> 'a local_queue \<Rightarrow> 'a local_queue" where
  "wakeUp par now q =
     notify (scheduleWakeUp par now (dropExpiredMessages par now (q\<lparr>wakeUpTimer := None, wakeUpTime := None\<rparr>)))"

section \<open>Sending\<close>

definition duplicate :: "rat \<Rightarrow> string option \<Rightarrow> string \<Rightarrow> 'a local_queue \<Rightarrow> bool" where
  "duplicate now g d q =
     (map_of (filter (\<lambda>(k, t). \<not> t \<le> now) (deduplications q)) (g, d) \<noteq> None)"

definition new_message :: "queue_parameters \<Rightarrow> string \<Rightarrow> rat \<Rightarrow> 'a outgoing_message \<Rightarrow> 'a stored_message" where
  "new_message par i now msg =
     \<lparr>messageId = i, body = om_body msg, attributes = om_attributes msg,
      groupId = om_groupId msg, deduplicationId = om_deduplicationId msg, sentAt = now,
      visibleAt = now + (case om_delay msg of Some d \<Rightarrow> d | None \<Rightarrow> delay par) * 1000,
      receiveCount = 0, receivedAt = None, receiptHandle = None\<rparr>"

definition push_message ::
  "queue_parameters \<Rightarrow> (nat \<Rightarrow> string) \<Rightarrow> rat \<Rightarrow> 'a outgoing_message \<Rightarrow> 'a local_queue \<Rightarrow> 'a local_queue" where
  "push_message par uuid now msg q =
     notify (scheduleWakeUp par now (q\<lparr>
       messages := messages q @ [new_message par (uuid (drawn q)) now msg], drawn := Suc (drawn q)\<rparr>))"

definition sendMessage ::
  "queue_parameters \<Rightarrow> (nat \<Rightarrow> string) \<Rightarrow> rat \<Rightarrow> 'a outgoing_message \<Rightarrow> 'a local_queue \<Rightarrow> 'a local_queue" where
  "sendMessage par uuid now msg q =
     (case om_deduplicationId msg of
        Some d \<Rightarrow>
          if fifoMode par
          then let fresh = filter (\<lambda>(k, t). \<not> t \<le> now) (deduplications q)
               in if duplicate now (om_groupId msg) d q then q\<lparr>deduplications := fresh\<rparr>
                  else push_message par uuid now msg
                    (q\<lparr>deduplications := AList.update (om_groupId msg, d) (now + DEDUPLICATION_INTERVAL) fresh\<rparr>)
          else push_message par uuid now msg q
      | None \<Rightarrow> push_message par uuid now msg q)"

section \<open>Receiving\<close>

definition dead_letter_of :: "queue_parameters \<Rightarrow> rat \<Rightarrow> dead_letter_parameters \<Rightarrow> 'a stored_message \<Rightarrow> stored_dead_letter" where
  "dead_letter_of par now dl m =
     \<lparr>dlm_messageId = messageId m, dlm_receiveCount = receiveCount m, dlm_body = body m,
      dlm_expireTime = (if fifoMode par then now else sentAt m) + dl_retention dl * 60000\<rparr>"

definition deliver ::
  "queue_parameters \<Rightarrow> rat \<Rightarrow> string \<Rightarrow> 'a stored_message \<Rightarrow> 'a stored_message" where
  "deliver par now handle m = m\<lparr>receiveCount := Suc (receiveCount m), receiptHandle := Some handle,
     receivedAt := Some now, visibleAt := now + visibilityTimeout par * 1000\<rparr>"

definition received_of :: "string \<Rightarrow> 'a stored_message \<Rightarrow> 'a received_message" where
  "received_of handle m = \<lparr>rm_messageId = messageId m, rm_receiptHandle = handle, rm_receiveCount = receiveCount m,
     rm_attributes = attributes m, rm_groupId = groupId m, rm_body = body m\<rparr>"

definition ordered_group :: "queue_parameters \<Rightarrow> 'a stored_message \<Rightarrow> string option" where
  "ordered_group par m = (if fifoMode par then groupId m else None)"

text \<open>What the loop does with a message, given the groups blocked so far.\<close>

datatype disposition = Skip "string list" | Bury dead_letter_parameters | Deliver

definition disposition_of :: "queue_parameters \<Rightarrow> rat \<Rightarrow> string list \<Rightarrow> 'a stored_message \<Rightarrow> disposition" where
  "disposition_of par now blocked m =
     (case ordered_group par m of
        Some g \<Rightarrow>
          if g \<in> set blocked then Skip blocked
          else if visibleAt m > now then Skip (g # blocked)
          else (case deadLetter par of Some dl \<Rightarrow> if dl_maxAttempts dl \<le> receiveCount m then Bury dl else Deliver
                                     | None \<Rightarrow> Deliver)
      | None \<Rightarrow>
          if visibleAt m > now then Skip blocked
          else (case deadLetter par of Some dl \<Rightarrow> if dl_maxAttempts dl \<le> receiveCount m then Bury dl else Deliver
                                     | None \<Rightarrow> Deliver))"

text \<open>
  The loop over the messages: the messages that stay, the received ones, the dead letters and
  the number of identifiers drawn. \<open>quota\<close> is how many may still be received.
\<close>

fun receive_loop ::
  "queue_parameters \<Rightarrow> (nat \<Rightarrow> string) \<Rightarrow> rat \<Rightarrow> int \<Rightarrow> string list \<Rightarrow> nat \<Rightarrow> 'a stored_message list \<Rightarrow>
   'a stored_message list \<times> 'a received_message list \<times> stored_dead_letter list \<times> nat" where
  "receive_loop par uuid now quota blocked n [] = ([], [], [], n)"
| "receive_loop par uuid now quota blocked n (m # ms) =
     (if quota \<le> 0 then (m # ms, [], [], n)
      else (case disposition_of par now blocked m of
              Skip blocked' \<Rightarrow>
                (case receive_loop par uuid now quota blocked' n ms of
                   (kept, received, dead, n') \<Rightarrow> (m # kept, received, dead, n'))
            | Bury dl \<Rightarrow>
                (case receive_loop par uuid now quota blocked n ms of
                   (kept, received, dead, n') \<Rightarrow> (kept, received, dead_letter_of par now dl m # dead, n'))
            | Deliver \<Rightarrow>
                (case receive_loop par uuid now (quota - 1) blocked (Suc n) ms of
                   (kept, received, dead, n') \<Rightarrow>
                     (deliver par now (uuid n) m # kept,
                      received_of (uuid n) (deliver par now (uuid n) m) # received, dead, n'))))"

definition blocked_groups :: "queue_parameters \<Rightarrow> rat \<Rightarrow> 'a stored_message list \<Rightarrow> string list" where
  "blocked_groups par now ms =
     (if fifoMode par then List.map_filter groupId (filter (\<lambda>m. isInFlight m now) ms) else [])"

definition receiveMessages ::
  "queue_parameters \<Rightarrow> (nat \<Rightarrow> string) \<Rightarrow> rat \<Rightarrow> int \<Rightarrow> 'a local_queue \<Rightarrow> 'a local_queue \<times> 'a received_message list" where
  "receiveMessages par uuid now maxMessages q0 =
     (let q = dropExpiredMessages par now q0
      in (case receive_loop par uuid now maxMessages (blocked_groups par now (messages q)) (drawn q) (messages q) of
            (kept, received, dead, n) \<Rightarrow>
              (scheduleWakeUp par now
                 ((if dead = [] then (\<lambda>q. q) else notify)
                    (q\<lparr>messages := kept, deadLetters := deadLetters q @ dead, drawn := n\<rparr>)), received)))"

section \<open>The other operations\<close>

datatype queue_error = InvalidParameterValueError string

definition deleteMessage :: "queue_parameters \<Rightarrow> rat \<Rightarrow> string \<Rightarrow> 'a local_queue \<Rightarrow> 'a local_queue" where
  "deleteMessage par now handle q =
     (case filter (\<lambda>m. receiptHandle m = Some handle) (messages q) of
        [] \<Rightarrow> q
      | _ \<Rightarrow> notify (scheduleWakeUp par now (q\<lparr>messages :=
               takeWhile (\<lambda>m. receiptHandle m \<noteq> Some handle) (messages q) @
               tl (dropWhile (\<lambda>m. receiptHandle m \<noteq> Some handle) (messages q))\<rparr>)))"

fun update_first :: "('m \<Rightarrow> bool) \<Rightarrow> ('m \<Rightarrow> 'm) \<Rightarrow> 'm list \<Rightarrow> 'm list" where
  "update_first P f [] = []"
| "update_first P f (x # xs) = (if P x then f x # xs else x # update_first P f xs)"

definition changeVisibility ::
  "queue_parameters \<Rightarrow> rat \<Rightarrow> string \<Rightarrow> rat \<Rightarrow> 'a local_queue \<Rightarrow> queue_error + 'a local_queue \<times> bool" where
  "changeVisibility par now handle timeout q =
     (case find (\<lambda>m. receiptHandle m = Some handle) (messages q) of
        None \<Rightarrow> Inr (q, False)
      | Some m \<Rightarrow>
          if \<not> isInFlight m now then Inr (q, False)
          else let received = (case receivedAt m of Some t \<Rightarrow> t | None \<Rightarrow> now)
               in if timeout < 0 \<or> now + timeout * 1000 > received + MAX_VISIBILITY_TIMEOUT * 1000
                  then Inl (InvalidParameterValueError ''VisibilityTimeout'')
                  else Inr (notify (scheduleWakeUp par now (q\<lparr>messages :=
                         update_first (\<lambda>m. receiptHandle m = Some handle) (\<lambda>m. m\<lparr>visibleAt := now + timeout * 1000\<rparr>)
                           (messages q)\<rparr>)), True))"

definition getDeadLetterMessages :: "rat \<Rightarrow> 'a local_queue \<Rightarrow> 'a local_queue \<times> (string \<times> nat \<times> string) list" where
  "getDeadLetterMessages now q =
     (let kept = filter (\<lambda>d. \<not> dlm_expireTime d \<le> now) (deadLetters q)
      in (q\<lparr>deadLetters := kept\<rparr>, map (\<lambda>d. (dlm_messageId d, dlm_receiveCount d, dlm_body d)) kept))"

definition isEmpty :: "queue_parameters \<Rightarrow> rat \<Rightarrow> 'a local_queue \<Rightarrow> 'a local_queue \<times> bool" where
  "isEmpty par now q = (let q' = dropExpiredMessages par now q in (q', messages q' = []))"

text \<open>Shutting down answers whoever waits and schedules nothing else; the queue keeps its messages.\<close>

definition shutdown :: "'a local_queue \<Rightarrow> 'a local_queue" where
  "shutdown q = q\<lparr>isStopped := True, wakeUpTimer := None\<rparr>"

text \<open>
  \<open>pollMessages\<close> receives again after every change until it has something, the queue stops or the
  waiting time is over. The changes it wakes up for are the argument \<open>wakes\<close>: the time of each
  and the queue as other operations have left it.
\<close>

fun poll_loop ::
  "queue_parameters \<Rightarrow> (nat \<Rightarrow> string) \<Rightarrow> int \<Rightarrow> rat \<Rightarrow> (rat \<times> ('a local_queue \<Rightarrow> 'a local_queue)) list \<Rightarrow>
   'a local_queue \<times> 'a received_message list \<Rightarrow> rat \<Rightarrow> 'a local_queue \<times> 'a received_message list" where
  "poll_loop par uuid maxMessages endTime [] (q, received) now = (q, received)"
| "poll_loop par uuid maxMessages endTime ((t, change) # wakes) (q, received) now =
     (if received \<noteq> [] \<or> isStopped q \<or> \<not> now < endTime then (q, received)
      else poll_loop par uuid maxMessages endTime wakes (receiveMessages par uuid t maxMessages (change q)) t)"

definition pollMessages ::
  "queue_parameters \<Rightarrow> (nat \<Rightarrow> string) \<Rightarrow> rat \<Rightarrow> int \<Rightarrow> rat \<Rightarrow> (rat \<times> ('a local_queue \<Rightarrow> 'a local_queue)) list \<Rightarrow>
   'a local_queue \<Rightarrow> queue_error + 'a local_queue \<times> 'a received_message list" where
  "pollMessages par uuid now maxMessages waitTime wakes q =
     (if maxMessages < 1 \<or> maxMessages > int MAX_RECEIVE_MESSAGES then Inl (InvalidParameterValueError ''MaxNumberOfMessages'')
      else if waitTime < 0 \<or> waitTime > MAX_RECEIVE_WAIT then Inl (InvalidParameterValueError ''WaitTimeSeconds'')
      else Inr (poll_loop par uuid maxMessages (now + waitTime * 1000) wakes
             (receiveMessages par uuid now maxMessages q) now))"

section \<open>What one pass over the messages does\<close>

definition exhausted :: "queue_parameters \<Rightarrow> 'a stored_message \<Rightarrow> bool" where
  "exhausted par m = (case deadLetter par of None \<Rightarrow> False | Some dl \<Rightarrow> dl_maxAttempts dl \<le> receiveCount m)"

lemma disposition_cases:
  "case disposition_of par now blocked m of
     Skip blocked' \<Rightarrow> set blocked \<subseteq> set blocked' \<and>
       (visibleAt m > now \<or> (\<exists>g \<in> set blocked. ordered_group par m = Some g)) \<and>
       (\<forall>g. ordered_group par m = Some g \<longrightarrow> g \<in> set blocked')
   | Bury dl \<Rightarrow> deadLetter par = Some dl \<and> exhausted par m \<and> visibleAt m \<le> now \<and>
       (\<forall>g. ordered_group par m = Some g \<longrightarrow> g \<notin> set blocked)
   | Deliver \<Rightarrow> \<not> exhausted par m \<and> visibleAt m \<le> now \<and> (\<forall>g. ordered_group par m = Some g \<longrightarrow> g \<notin> set blocked)"
  by (auto simp: disposition_of_def exhausted_def split: option.split)

lemma receive_loop_induct [consumes 1, case_names empty full skip bury deliver]:
  assumes run: "receive_loop par uuid now quota blocked n ms = (kept, received, dead, n')"
    and empty: "\<And>quota blocked n. P quota blocked n [] [] [] [] n"
    and full: "\<And>quota blocked n m ms. quota \<le> 0 \<Longrightarrow> P quota blocked n (m # ms) (m # ms) [] [] n"
    and skip: "\<And>quota blocked blocked' n m ms kept received dead n'. quota > 0 \<Longrightarrow> set blocked \<subseteq> set blocked' \<Longrightarrow>
      visibleAt m > now \<or> (\<exists>g \<in> set blocked. ordered_group par m = Some g) \<Longrightarrow>
      (\<And>g. ordered_group par m = Some g \<Longrightarrow> g \<in> set blocked') \<Longrightarrow>
      P quota blocked' n ms kept received dead n' \<Longrightarrow> P quota blocked n (m # ms) (m # kept) received dead n'"
    and bury: "\<And>quota blocked n m ms kept received dead n' dl. quota > 0 \<Longrightarrow> deadLetter par = Some dl \<Longrightarrow>
      exhausted par m \<Longrightarrow> visibleAt m \<le> now \<Longrightarrow> (\<And>g. ordered_group par m = Some g \<Longrightarrow> g \<notin> set blocked) \<Longrightarrow>
      P quota blocked n ms kept received dead n' \<Longrightarrow>
      P quota blocked n (m # ms) kept received (dead_letter_of par now dl m # dead) n'"
    and deliver: "\<And>quota blocked n m ms kept received dead n'. quota > 0 \<Longrightarrow> \<not> exhausted par m \<Longrightarrow>
      visibleAt m \<le> now \<Longrightarrow> (\<And>g. ordered_group par m = Some g \<Longrightarrow> g \<notin> set blocked) \<Longrightarrow>
      P (quota - 1) blocked (Suc n) ms kept received dead n' \<Longrightarrow>
      P quota blocked n (m # ms) (deliver par now (uuid n) m # kept)
        (received_of (uuid n) (deliver par now (uuid n) m) # received) dead n'"
  shows "P quota blocked n ms kept received dead n'"
  using run
proof (induction ms arbitrary: quota blocked n kept received dead n')
  case Nil
  then show ?case using empty by simp
next
  case (Cons m ms)
  note d = disposition_cases [where par = par and now = now and blocked = blocked and m = m]
  show ?case
  proof (cases "quota \<le> 0")
    case True
    with Cons.prems full show ?thesis by auto
  next
    case pos: False
    show ?thesis
    proof (cases "disposition_of par now blocked m")
      case (Skip blocked')
      obtain k r e j where rest: "receive_loop par uuid now quota blocked' n ms = (k, r, e, j)" by (metis prod_cases4)
      with Cons.prems pos Skip have "kept = m # k" "received = r" "dead = e" "n' = j" by auto
      then show ?thesis using skip [OF _ _ _ _ Cons.IH [OF rest]] d Skip pos by auto
    next
      case (Bury dl)
      obtain k r e j where rest: "receive_loop par uuid now quota blocked n ms = (k, r, e, j)" by (metis prod_cases4)
      with Cons.prems pos Bury have "kept = k" "received = r" "dead = dead_letter_of par now dl m # e" "n' = j" by auto
      then show ?thesis using bury [OF _ _ _ _ _ Cons.IH [OF rest]] d Bury pos by auto
    next
      case Deliver
      obtain k r e j where rest: "receive_loop par uuid now (quota - 1) blocked (Suc n) ms = (k, r, e, j)" by (metis prod_cases4)
      with Cons.prems pos Deliver have "kept = deliver par now (uuid n) m # k"
        "received = received_of (uuid n) (deliver par now (uuid n) m) # r" "dead = e" "n' = j" by auto
      then show ?thesis using deliver [OF _ _ _ _ Cons.IH [OF rest]] d Deliver pos by auto
    qed
  qed
qed

lemma deliver_simps [simp]: "messageId (deliver par now h m) = messageId m" "groupId (deliver par now h m) = groupId m"
  "body (deliver par now h m) = body m" "receiveCount (deliver par now h m) = Suc (receiveCount m)"
  "receiptHandle (deliver par now h m) = Some h" "visibleAt (deliver par now h m) = now + visibilityTimeout par * 1000"
  "receivedAt (deliver par now h m) = Some now" "sentAt (deliver par now h m) = sentAt m"
  by (simp_all add: deliver_def)

lemma received_of_simps [simp]: "rm_messageId (received_of h m) = messageId m" "rm_groupId (received_of h m) = groupId m"
  "rm_receiptHandle (received_of h m) = h" "rm_receiveCount (received_of h m) = receiveCount m"
  by (simp_all add: received_of_def)

lemma dead_letter_of_simps [simp]: "dlm_messageId (dead_letter_of par now dl m) = messageId m"
  "dlm_receiveCount (dead_letter_of par now dl m) = receiveCount m"
  by (simp_all add: dead_letter_of_def)

lemma receive_loop_group:
  assumes "receive_loop par uuid now quota blocked n ms = (kept, received, dead, n')" and "fifoMode par"
  shows "(g \<in> set blocked \<longrightarrow> filter (\<lambda>r. rm_groupId r = Some g) received = []) \<and>
    prefix (map rm_messageId (filter (\<lambda>r. rm_groupId r = Some g) received))
      (map messageId (filter (\<lambda>m. groupId m = Some g \<and> \<not> exhausted par m) ms))"
  using assms
proof (induction rule: receive_loop_induct)
  case (skip quota blocked blocked' n m ms kept received dead n')
  then show ?case by (cases "groupId m = Some g") (auto simp: ordered_group_def)
next
  case (bury quota blocked n m ms kept received dead n' dl)
  then show ?case by auto
next
  case (deliver quota blocked n m ms kept received dead n')
  then show ?case by (cases "groupId m = Some g") (auto simp: ordered_group_def)
qed auto

lemma receive_loop_conserves:
  assumes "receive_loop par uuid now quota blocked n ms = (kept, received, dead, n')"
  shows "mset (map messageId kept) + mset (map dlm_messageId dead) = mset (map messageId ms) \<and>
    n' = n + length received \<and> int (length received) \<le> max 0 quota"
  using assms by (induction rule: receive_loop_induct) auto

lemma receive_loop_received:
  assumes "receive_loop par uuid now quota blocked n ms = (kept, received, dead, n')"
  shows "n \<le> n' \<and> (\<forall>r \<in> set received. \<exists>m \<in> set ms. messageId m = rm_messageId r \<and> visibleAt m \<le> now \<and> \<not> exhausted par m \<and>
    rm_receiveCount r = Suc (receiveCount m) \<and> (\<exists>j. n \<le> j \<and> j < n' \<and> rm_receiptHandle r = uuid j) \<and>
    deliver par now (rm_receiptHandle r) m \<in> set kept)"
  using assms
proof (induction rule: receive_loop_induct)
  case (skip quota blocked blocked' n m ms kept received dead n')
  then show ?case by fastforce
next
  case (bury quota blocked n m ms kept received dead n' dl)
  then show ?case by fastforce
next
  case (deliver quota blocked n m ms kept received dead n')
  let ?Q = "\<lambda>r m n kept. messageId m = rm_messageId r \<and> visibleAt m \<le> now \<and> \<not> exhausted par m \<and>
    rm_receiveCount r = Suc (receiveCount m) \<and> (\<exists>j. n \<le> j \<and> j < n' \<and> rm_receiptHandle r = uuid j) \<and>
    deliver par now (rm_receiptHandle r) m \<in> set kept"
  let ?h = "deliver par now (uuid n) m"
  have new: "?Q (received_of (uuid n) ?h) m n (?h # kept)" using deliver by auto
  have old: "\<exists>m' \<in> set (m # ms). ?Q r m' n (?h # kept)" if r: "r \<in> set received" for r
  proof -
    from deliver.IH r obtain m' where "m' \<in> set ms" "?Q r m' (Suc n) kept" by blast
    then show ?thesis by (intro bexI [of _ m']) (auto intro: Suc_leD)
  qed
  show ?case using deliver.IH new old by auto
qed auto

lemma receive_loop_kept:
  assumes "receive_loop par uuid now quota blocked n ms = (kept, received, dead, n')"
  shows "n \<le> n' \<and> (\<forall>k \<in> set kept. k \<in> set ms \<or>
    (\<exists>m \<in> set ms. \<exists>j. n \<le> j \<and> j < n' \<and> k = deliver par now (uuid j) m \<and> visibleAt m \<le> now \<and> \<not> exhausted par m))"
  using assms
proof (induction rule: receive_loop_induct)
  case (deliver quota blocked n m ms kept received dead n')
  let ?Q = "\<lambda>k m n. \<exists>j. n \<le> j \<and> j < n' \<and> k = deliver par now (uuid j) m \<and> visibleAt m \<le> now \<and> \<not> exhausted par m"
  have new: "?Q (deliver par now (uuid n) m) m n" using deliver by (intro exI [of _ n]) auto
  have old: "k \<in> set ms \<or> (\<exists>m' \<in> set (m # ms). ?Q k m' n)" if k: "k \<in> set kept" for k
  proof -
    from deliver.IH k consider "k \<in> set ms" | m' where "m' \<in> set ms" "?Q k m' (Suc n)" by blast
    then show ?thesis
    proof cases
      case 2
      then show ?thesis by (intro disjI2 bexI [of _ m']) (auto intro: Suc_leD)
    qed simp
  qed
  show ?case using deliver.IH new old by auto
qed fastforce+

section \<open>Sequences of operations\<close>

datatype 'a queue_op =
    SendOp rat "'a outgoing_message"
  | ReceiveOp rat int
  | DeleteOp rat string
  | ChangeOp rat string rat
  | LettersOp rat
  | EmptyOp rat
  | WakeUpOp rat
  | ListenersOp rat
  | ShutdownOp rat

fun queue_op_time :: "'a queue_op \<Rightarrow> rat" where
  "queue_op_time (SendOp now msg) = now"
| "queue_op_time (ReceiveOp now maxMessages) = now"
| "queue_op_time (DeleteOp now handle) = now"
| "queue_op_time (ChangeOp now handle timeout) = now"
| "queue_op_time (LettersOp now) = now"
| "queue_op_time (EmptyOp now) = now"
| "queue_op_time (WakeUpOp now) = now"
| "queue_op_time (ListenersOp now) = now"
| "queue_op_time (ShutdownOp now) = now"

fun queue_apply :: "queue_parameters \<Rightarrow> (nat \<Rightarrow> string) \<Rightarrow> 'a queue_op \<Rightarrow> 'a local_queue \<Rightarrow> 'a local_queue" where
  "queue_apply par uuid (SendOp now msg) q = sendMessage par uuid now msg q"
| "queue_apply par uuid (ReceiveOp now maxMessages) q = fst (receiveMessages par uuid now maxMessages q)"
| "queue_apply par uuid (DeleteOp now handle) q = deleteMessage par now handle q"
| "queue_apply par uuid (ChangeOp now handle timeout) q =
     (case changeVisibility par now handle timeout q of Inl err \<Rightarrow> q | Inr (q', b) \<Rightarrow> q')"
| "queue_apply par uuid (LettersOp now) q = fst (getDeadLetterMessages now q)"
| "queue_apply par uuid (EmptyOp now) q = fst (isEmpty par now q)"
| "queue_apply par uuid (WakeUpOp now) q = wakeUp par now q"
| "queue_apply par uuid (ListenersOp now) q = runListeners q"
| "queue_apply par uuid (ShutdownOp now) q = shutdown q"

text \<open>Notifying and scheduling touch neither the messages nor the identifiers.\<close>

lemma notify_simps [simp]: "messages (notify q) = messages q" "deadLetters (notify q) = deadLetters q"
  "deduplications (notify q) = deduplications q" "drawn (notify q) = drawn q" "isStopped (notify q) = isStopped q"
  "wakeUpTime (notify q) = wakeUpTime q" "wakeUpTimer (notify q) = wakeUpTimer q"
  by (simp_all add: notify_def)

lemma schedule_simps [simp]: "messages (scheduleWakeUp par now q) = messages q"
  "deadLetters (scheduleWakeUp par now q) = deadLetters q"
  "deduplications (scheduleWakeUp par now q) = deduplications q" "drawn (scheduleWakeUp par now q) = drawn q"
  "isStopped (scheduleWakeUp par now q) = isStopped q"
  by (simp_all add: scheduleWakeUp_def Let_def)

definition unexpired :: "queue_parameters \<Rightarrow> rat \<Rightarrow> 'a local_queue \<Rightarrow> 'a stored_message list" where
  "unexpired par now q = filter (\<lambda>m. \<not> getExpireTime par m \<le> now) (messages q)"

lemma filter_same_length: "length (filter P xs) = length xs \<Longrightarrow> filter P xs = xs"
  by (metis filter_True length_filter_less linorder_neq_iff)

lemma drop_simps [simp]: "messages (dropExpiredMessages par now q) = unexpired par now q"
  "deadLetters (dropExpiredMessages par now q) = deadLetters q"
  "deduplications (dropExpiredMessages par now q) = deduplications q" "drawn (dropExpiredMessages par now q) = drawn q"
  "isStopped (dropExpiredMessages par now q) = isStopped q"
  "wakeUpTime (dropExpiredMessages par now q) = wakeUpTime q" "wakeUpTimer (dropExpiredMessages par now q) = wakeUpTimer q"
proof -
  show "messages (dropExpiredMessages par now q) = unexpired par now q"
    using filter_same_length [of "\<lambda>m. \<not> getExpireTime par m \<le> now" "messages q"]
    by (auto simp: dropExpiredMessages_def Let_def unexpired_def)
qed (simp_all add: dropExpiredMessages_def Let_def)

lemma receiveMessages_result:
  assumes "receive_loop par uuid now maxMessages (blocked_groups par now (unexpired par now q)) (drawn q) (unexpired par now q)
    = (kept, received, dead, n)"
  shows "snd (receiveMessages par uuid now maxMessages q) = received"
    and "messages (fst (receiveMessages par uuid now maxMessages q)) = kept"
    and "deadLetters (fst (receiveMessages par uuid now maxMessages q)) = deadLetters q @ dead"
    and "drawn (fst (receiveMessages par uuid now maxMessages q)) = n"
    and "deduplications (fst (receiveMessages par uuid now maxMessages q)) = deduplications q"
    and "isStopped (fst (receiveMessages par uuid now maxMessages q)) = isStopped q"
  using assms by (simp_all add: receiveMessages_def Let_def)

section \<open>Properties of receiving\<close>

text \<open>
  C11. A FIFO queue keeps the order of each group. The messages of a group that one receive
  hands out are the first ones of the group in the order they were sent, apart from those that
  move to the dead letters, and a group with a message in flight hands out none.
\<close>

theorem receive_keeps_group_order:
  assumes "fifoMode par"
  shows "prefix (map rm_messageId (filter (\<lambda>r. rm_groupId r = Some g) (snd (receiveMessages par uuid now maxMessages q))))
      (map messageId (filter (\<lambda>m. groupId m = Some g \<and> \<not> exhausted par m) (unexpired par now q))) \<and>
    ((\<exists>m \<in> set (unexpired par now q). groupId m = Some g \<and> isInFlight m now) \<longrightarrow>
       filter (\<lambda>r. rm_groupId r = Some g) (snd (receiveMessages par uuid now maxMessages q)) = [])"
proof -
  obtain kept received dead n where run: "receive_loop par uuid now maxMessages
      (blocked_groups par now (unexpired par now q)) (drawn q) (unexpired par now q) = (kept, received, dead, n)"
    by (metis prod_cases4)
  have "g \<in> set (blocked_groups par now (unexpired par now q))"
    if "m \<in> set (unexpired par now q)" "groupId m = Some g" "isInFlight m now" for m
    using that assms by (force simp: blocked_groups_def List.map_filter_def)
  then show ?thesis
    using receive_loop_group [OF run assms, of g] unfolding receiveMessages_result(1) [OF run] by blast
qed

text \<open>
  Receiving loses nothing. Every message that has not expired either stays in the queue or
  is one of the new dead letters, each once; at most as many messages are received as asked for,
  each was visible, and it stays in the queue, invisible for the visibility timeout under the
  receipt handle that was handed out.
\<close>

theorem receive_loses_nothing:
  "\<exists>dead. deadLetters (fst (receiveMessages par uuid now maxMessages q)) = deadLetters q @ dead \<and>
    mset (map messageId (messages (fst (receiveMessages par uuid now maxMessages q)))) + mset (map dlm_messageId dead) =
      mset (map messageId (unexpired par now q)) \<and>
    int (length (snd (receiveMessages par uuid now maxMessages q))) \<le> max 0 maxMessages \<and>
    list_all (\<lambda>r. list_ex (\<lambda>m. messageId m = rm_messageId r \<and> visibleAt m \<le> now \<and>
        list_ex (\<lambda>k. messageId k = messageId m \<and> receiptHandle k = Some (rm_receiptHandle r) \<and>
          visibleAt k = now + visibilityTimeout par * 1000 \<and> receiveCount k = Suc (receiveCount m))
        (messages (fst (receiveMessages par uuid now maxMessages q))))
      (unexpired par now q)) (snd (receiveMessages par uuid now maxMessages q))"
proof -
  obtain kept received dead n where run: "receive_loop par uuid now maxMessages
      (blocked_groups par now (unexpired par now q)) (drawn q) (unexpired par now q) = (kept, received, dead, n)"
    by (metis prod_cases4)
  note res = receiveMessages_result [OF run]
  have "list_all (\<lambda>r. list_ex (\<lambda>m. messageId m = rm_messageId r \<and> visibleAt m \<le> now \<and>
        list_ex (\<lambda>k. messageId k = messageId m \<and> receiptHandle k = Some (rm_receiptHandle r) \<and>
          visibleAt k = now + visibilityTimeout par * 1000 \<and> receiveCount k = Suc (receiveCount m)) kept)
      (unexpired par now q)) received"
    unfolding list_all_iff list_ex_iff
  proof
    fix r assume "r \<in> set received"
    with receive_loop_received [OF run] obtain m where m: "m \<in> set (unexpired par now q)"
      "messageId m = rm_messageId r" "visibleAt m \<le> now" "deliver par now (rm_receiptHandle r) m \<in> set kept" by blast
    then show "\<exists>m \<in> set (unexpired par now q). messageId m = rm_messageId r \<and> visibleAt m \<le> now \<and>
        (\<exists>k \<in> set kept. messageId k = messageId m \<and> receiptHandle k = Some (rm_receiptHandle r) \<and>
          visibleAt k = now + visibilityTimeout par * 1000 \<and> receiveCount k = Suc (receiveCount m))"
      by (intro bexI [of _ m] conjI bexI [of _ "deliver par now (rm_receiptHandle r) m"]) auto
  qed
  with receive_loop_conserves [OF run] show ?thesis unfolding res by blast
qed

end
