(* ===== verification/Queue_History.thy ===== *)
theory Queue_History
  imports Local_Queue
begin

text \<open>
  Histories of the local queue: what holds after any sequence of the operations of
  \<open>providers/local/local-queue/src/service/queue.ts\<close>. The contract \<open>message_invariant\<close> reduces a
  property of every stored message to the three places where the code writes a message.
\<close>

section \<open>The invariant of a queue\<close>

definition handles :: "'a stored_message list \<Rightarrow> string list" where
  "handles ms = List.map_filter receiptHandle ms"

lemma handles_simps [simp]: "handles [] = []"
  "handles (m # ms) = (case receiptHandle m of Some h \<Rightarrow> h # handles ms | None \<Rightarrow> handles ms)"
  "handles (xs @ ys) = handles xs @ handles ys"
  by (simp_all add: handles_def List.map_filter_def split: option.split)

lemma set_handles: "h \<in> set (handles ms) \<longleftrightarrow> (\<exists>m \<in> set ms. receiptHandle m = Some h)"
  by (induction ms) (auto split: option.splits)

text \<open>Identifiers and receipt handles are drawn from the supply and unique.\<close>

definition queue_inv :: "(nat \<Rightarrow> string) \<Rightarrow> 'a local_queue \<Rightarrow> bool" where
  "queue_inv uuid q =
     (distinct (map messageId (messages q)) \<and> set (map messageId (messages q)) \<subseteq> uuid ` {..<drawn q} \<and>
      distinct (handles (messages q)) \<and> set (handles (messages q)) \<subseteq> uuid ` {..<drawn q})"

lemma handles_filter: "distinct (handles ms) \<Longrightarrow> distinct (handles (filter P ms))"
  "set (handles (filter P ms)) \<subseteq> set (handles ms)"
  by (induction ms) (auto split: option.splits simp: set_handles)

lemma queue_inv_subset:
  assumes "queue_inv uuid q" and "messages q' = filter P (messages q)" and "drawn q' = drawn q"
  shows "queue_inv uuid q'"
  using assms handles_filter(1) [of "messages q" P] handles_filter(2) [where P = P and ms = "messages q"]
  by (auto simp: queue_inv_def distinct_map_filter)

lemma receive_loop_handles:
  assumes "receive_loop par uuid now quota blocked n ms = (kept, received, dead, n')" and "inj uuid"
    and "distinct (handles ms)" and "set (handles ms) \<subseteq> uuid ` {..<n0}" and "n0 \<le> n"
  shows "n \<le> n' \<and> distinct (handles kept) \<and> set (handles kept) \<subseteq> set (handles ms) \<union> uuid ` {n..<n'}"
  using assms
proof (induction rule: receive_loop_induct)
  case (skip quota blocked blocked' n m ms kept received dead n')
  have fresh: "h \<notin> uuid ` {n..<n'}" if "receiptHandle m = Some h" for h
    using that skip.prems by (fastforce simp: inj_eq)
  from skip show ?case using fresh by (auto split: option.splits)
next
  case (bury quota blocked n m ms kept received dead n' dl)
  then show ?case by (auto split: option.splits)
next
  case (deliver quota blocked n m ms kept received dead n')
  then have ih: "Suc n \<le> n'" "distinct (handles kept)" "set (handles kept) \<subseteq> set (handles ms) \<union> uuid ` {Suc n..<n'}"
    by (auto split: option.splits)
  have "uuid n \<notin> set (handles ms)" "uuid n \<notin> uuid ` {Suc n..<n'}"
    using deliver.prems by (auto simp: inj_eq split: option.splits dest: subsetD)
  with ih show ?case by (auto split: option.splits)
qed auto

lemma messages_update_first:
  assumes "\<And>m. messageId (f m) = messageId m" and "\<And>m. receiptHandle (f m) = receiptHandle m"
  shows "map messageId (update_first P f ms) = map messageId ms" and "handles (update_first P f ms) = handles ms"
  using assms by (induction ms) (auto split: option.split)

lemma take_drop_filter:
  assumes "distinct (handles ms)"
  shows "takeWhile (\<lambda>m. receiptHandle m \<noteq> Some h) ms @ tl (dropWhile (\<lambda>m. receiptHandle m \<noteq> Some h) ms) =
    filter (\<lambda>m. receiptHandle m \<noteq> Some h) ms"
  using assms
proof (induction ms)
  case (Cons m ms)
  show ?case
  proof (cases "receiptHandle m = Some h")
    case True
    with Cons.prems have "h \<notin> set (handles ms)" by simp
    then have "filter (\<lambda>m. receiptHandle m \<noteq> Some h) ms = ms" by (auto simp: set_handles intro!: filter_True)
    with True show ?thesis by simp
  next
    case False
    with Cons show ?thesis by (auto split: option.splits)
  qed
qed simp

lemma deleteMessage_messages:
  assumes "queue_inv uuid q"
  shows "messages (deleteMessage par now h q) = filter (\<lambda>m. receiptHandle m \<noteq> Some h) (messages q)"
proof (cases "filter (\<lambda>m. receiptHandle m = Some h) (messages q)")
  case Nil
  then have "filter (\<lambda>m. receiptHandle m \<noteq> Some h) (messages q) = messages q"
    by (auto simp: filter_empty_conv intro!: filter_True)
  with Nil show ?thesis by (simp add: deleteMessage_def)
next
  case (Cons m ms)
  with take_drop_filter [of "messages q" h] assms show ?thesis by (simp add: deleteMessage_def queue_inv_def)
qed

lemma deleteMessage_subset: "set (messages (deleteMessage par now h q)) \<subseteq> set (messages q)"
proof -
  let ?P = "\<lambda>m. receiptHandle m \<noteq> Some h"
  have "set (takeWhile ?P xs) \<subseteq> set xs" "set (tl (dropWhile ?P xs)) \<subseteq> set xs" for xs
    by (meson set_takeWhileD subsetI) (induction xs, auto)
  from this [of "messages q"] show ?thesis by (simp add: deleteMessage_def split: list.split)
qed

lemma queue_inv_push:
  assumes "queue_inv uuid q" and "inj uuid"
  shows "queue_inv uuid (push_message par uuid now msg q)"
proof -
  have "uuid (drawn q) \<notin> uuid ` {..<drawn q}" using assms(2) by (auto simp: inj_eq)
  with assms(1) show ?thesis by (auto simp: queue_inv_def push_message_def new_message_def lessThan_Suc)
qed

lemma queue_inv_cong:
  "messages q' = messages q \<Longrightarrow> drawn q' = drawn q \<Longrightarrow> queue_inv uuid q \<Longrightarrow> queue_inv uuid q'"
  by (simp add: queue_inv_def)

lemma distinct_submultiset:
  assumes "mset xs \<subseteq># mset ys" and "distinct ys"
  shows "distinct xs \<and> set xs \<subseteq> set ys"
proof
  show "set xs \<subseteq> set ys" using set_mset_mono [OF assms(1)] by simp
  have "count (mset ys) x \<le> 1" for x using assms(2) by (simp add: distinct_count_atmost_1)
  then have "count (mset xs) x \<le> 1" for x using mset_subset_eq_count [OF assms(1), of x] order_trans by blast
  then show "distinct xs" by (auto simp: distinct_count_atmost_1 le_Suc_eq count_eq_zero_iff)
qed

lemma queue_inv_receive:
  assumes "queue_inv uuid q" and "inj uuid"
  shows "queue_inv uuid (fst (receiveMessages par uuid now maxMessages q))"
proof -
  obtain kept received dead n where run: "receive_loop par uuid now maxMessages
      (blocked_groups par now (unexpired par now q)) (drawn q) (unexpired par now q) = (kept, received, dead, n)"
    by (metis prod_cases4)
  note res = receiveMessages_result [OF run]
  have "queue_inv uuid (dropExpiredMessages par now q)"
    by (rule queue_inv_subset [OF assms(1)]) (simp_all add: unexpired_def)
  then have inv: "distinct (map messageId (unexpired par now q))"
    "set (map messageId (unexpired par now q)) \<subseteq> uuid ` {..<drawn q}"
    "distinct (handles (unexpired par now q))" "set (handles (unexpired par now q)) \<subseteq> uuid ` {..<drawn q}"
    unfolding queue_inv_def drop_simps by (rule conjunct1 conjunct2 [THEN conjunct1]
      conjunct2 [THEN conjunct2, THEN conjunct1] conjunct2 [THEN conjunct2, THEN conjunct2])+
  note h = receive_loop_handles [OF run assms(2) inv(3,4) order_refl]
  have ids: "mset (map messageId kept) \<subseteq># mset (map messageId (unexpired par now q))"
    using receive_loop_conserves [OF run] by (metis mset_subset_eq_add_left)
  note d = distinct_submultiset [OF ids inv(1)]
  have grow: "uuid ` {..<drawn q} \<subseteq> uuid ` {..<n}" "uuid ` {drawn q..<n} \<subseteq> uuid ` {..<n}"
    using h by auto
  from h inv(4) grow have "set (handles kept) \<subseteq> uuid ` {..<n}" by (meson Un_least order_trans)
  moreover from d inv(2) grow(1) have "set (map messageId kept) \<subseteq> uuid ` {..<n}" by (meson order_trans)
  ultimately show ?thesis unfolding queue_inv_def res using h d by blast
qed

text \<open>One operation on a queue keeps its identifiers unique.\<close>

lemma queue_inv_send: "queue_inv uuid q \<Longrightarrow> inj uuid \<Longrightarrow> queue_inv uuid (sendMessage par uuid now msg q)"
  by (auto simp: sendMessage_def Let_def split: option.split intro!: queue_inv_push intro: queue_inv_cong)

definition set_visible :: "string \<Rightarrow> rat \<Rightarrow> 'a stored_message list \<Rightarrow> 'a stored_message list" where
  "set_visible h t = update_first (\<lambda>m. receiptHandle m = Some h) (\<lambda>m. m\<lparr>visibleAt := t\<rparr>)"

lemma set_visible_simps [simp]: "map messageId (set_visible h t ms) = map messageId ms"
  "handles (set_visible h t ms) = handles ms"
  by (simp_all add: set_visible_def messages_update_first)

lemma changeVisibility_cases:
  assumes "changeVisibility par now h t q = Inr (q', b)"
  obtains "\<not> b" "q' = q"
  | m where "b" "find (\<lambda>m. receiptHandle m = Some h) (messages q) = Some m" "isInFlight m now" "0 \<le> t"
    "now + t * 1000 \<le> (case receivedAt m of Some t \<Rightarrow> t | None \<Rightarrow> now) + MAX_VISIBILITY_TIMEOUT * 1000"
    "q' = notify (scheduleWakeUp par now (q\<lparr>messages := set_visible h (now + t * 1000) (messages q)\<rparr>))"
  using assms by (auto simp: changeVisibility_def Let_def set_visible_def not_less split: option.splits if_splits)

lemma queue_inv_change:
  assumes "queue_inv uuid q" and "changeVisibility par now h t q = Inr (q', b)"
  shows "queue_inv uuid q'"
  using assms(2)
proof (cases rule: changeVisibility_cases)
  case (2 m)
  with assms(1) show ?thesis unfolding queue_inv_def
    by (simp del: set_map)
qed (use assms(1) in simp)

lemma queue_inv_apply:
  assumes "queue_inv uuid q" and "inj uuid"
  shows "queue_inv uuid (queue_apply par uuid p q)"
proof (cases p)
  case (ReceiveOp now maxMessages)
  with assms show ?thesis by (simp add: queue_inv_receive)
next
  case (SendOp now msg)
  with assms show ?thesis by (simp add: queue_inv_send)
next
  case (DeleteOp now h)
  have "queue_inv uuid (deleteMessage par now h q)"
  proof (rule queue_inv_subset [OF assms(1) deleteMessage_messages [OF assms(1)]])
    show "drawn (deleteMessage par now h q) = drawn q" by (simp add: deleteMessage_def split: list.split)
  qed
  with DeleteOp show ?thesis by simp
next
  case (ChangeOp now h t)
  with assms show ?thesis by (auto split: sum.split intro: queue_inv_change)
next
  case (EmptyOp now)
  have "queue_inv uuid (dropExpiredMessages par now q)"
    by (rule queue_inv_subset [OF assms(1)]) (simp_all add: unexpired_def)
  with EmptyOp show ?thesis by (simp add: isEmpty_def Let_def)
next
  case (WakeUpOp now)
  have "queue_inv uuid (wakeUp par now q)"
    by (rule queue_inv_subset [OF assms(1)]) (simp_all add: wakeUp_def unexpired_def)
  with WakeUpOp show ?thesis by simp
qed (use assms in \<open>simp_all add: queue_inv_def getDeadLetterMessages_def Let_def runListeners_def shutdown_def\<close>)

lemma queue_inv_history:
  assumes "inj uuid" and "queue_inv uuid q"
  shows "queue_inv uuid (fold (queue_apply par uuid) ops q)"
  using assms(2) by (induction ops arbitrary: q) (auto intro: queue_inv_apply [OF _ assms(1)])

lemma queue_inv_create: "queue_inv uuid createLocalQueue"
  by (simp add: queue_inv_def createLocalQueue_def)

text \<open>
  The identifiers of the messages of a queue and the receipt handles of its received messages
  stay unique through every history of operations, so that a receipt handle names one message.
\<close>

theorem queue_identifiers_stay_unique:
  assumes "inj uuid"
  shows "distinct (map messageId (messages (fold (queue_apply par uuid) ops createLocalQueue))) \<and>
    distinct (handles (messages (fold (queue_apply par uuid) ops createLocalQueue)))"
  using queue_inv_history [OF assms queue_inv_create, of par ops] unfolding queue_inv_def by blast

section \<open>Invariants of the stored messages\<close>

lemma drawn_grows: "drawn q \<le> drawn (queue_apply par uuid p q)"
proof (cases p)
  case (ReceiveOp now k)
  obtain kept received dead n where run: "receive_loop par uuid now k
      (blocked_groups par now (unexpired par now q)) (drawn q) (unexpired par now q) = (kept, received, dead, n)"
    by (metis prod_cases4)
  show ?thesis using ReceiveOp receive_loop_conserves [OF run] receiveMessages_result(4) [OF run] by simp
next
  case (ChangeOp now h t)
  then show ?thesis by (auto split: sum.split elim!: changeVisibility_cases)
qed (auto simp: sendMessage_def push_message_def deleteMessage_def isEmpty_def wakeUp_def getDeadLetterMessages_def
  runListeners_def shutdown_def Let_def split: option.split list.split)

text \<open>
  The code writes a stored message when it sends, receives or changes its visibility. A predicate
  that these three keep holds of every message after any history of allowed operations.
\<close>

locale message_invariant =
  fixes par :: queue_parameters and uuid :: "nat \<Rightarrow> string" and allowed :: "'a queue_op \<Rightarrow> bool"
    and used :: nat and P :: "'a stored_message \<Rightarrow> bool"
  assumes sent: "allowed (SendOp now msg) \<Longrightarrow> used \<le> n \<Longrightarrow> P (new_message par (uuid n) now msg)"
    and delivered: "allowed (ReceiveOp now k) \<Longrightarrow> P m \<Longrightarrow> visibleAt m \<le> now \<Longrightarrow> \<not> exhausted par m \<Longrightarrow>
      P (deliver par now h m)"
    and changed: "allowed (ChangeOp now h t) \<Longrightarrow> P m \<Longrightarrow> receiptHandle m = Some h \<Longrightarrow>
      P (m\<lparr>visibleAt := now + t * 1000\<rparr>)"
begin

lemma keeps_push:
  assumes "allowed (SendOp now msg)" and "used \<le> drawn q" and "\<forall>m \<in> set (messages q). P m"
  shows "\<forall>m \<in> set (messages (push_message par uuid now msg q)). P m"
  using assms sent by (auto simp: push_message_def)

lemma keeps_send:
  assumes "allowed (SendOp now msg)" and "used \<le> drawn q" and "\<forall>m \<in> set (messages q). P m"
  shows "\<forall>m \<in> set (messages (sendMessage par uuid now msg q)). P m"
proof -
  have "\<forall>m \<in> set (messages (push_message par uuid now msg (q\<lparr>deduplications := d\<rparr>))). P m" for d
    by (rule keeps_push) (use assms in simp_all)
  with keeps_push [OF assms] assms(3) show ?thesis by (simp add: sendMessage_def Let_def split: option.split)
qed

lemma keeps_receive:
  assumes "allowed (ReceiveOp now k)" and "\<forall>m \<in> set (messages q). P m"
  shows "\<forall>m \<in> set (messages (fst (receiveMessages par uuid now k q))). P m"
proof -
  obtain kept received dead n where run: "receive_loop par uuid now k
      (blocked_groups par now (unexpired par now q)) (drawn q) (unexpired par now q) = (kept, received, dead, n)"
    by (metis prod_cases4)
  have "\<forall>m \<in> set (unexpired par now q). P m" using assms(2) by (simp add: unexpired_def)
  then show ?thesis
    using receive_loop_kept [OF run] delivered [OF assms(1)] unfolding receiveMessages_result [OF run] by blast
qed

lemma keeps_change:
  assumes "allowed (ChangeOp now h t)" and "\<forall>m \<in> set ms. P m"
  shows "\<forall>m \<in> set (set_visible h (now + t * 1000) ms). P m"
  unfolding set_visible_def using assms changed [OF assms(1)] by (induction ms) auto

lemma keeps_apply:
  assumes "allowed p" and "used \<le> drawn q" and "\<forall>m \<in> set (messages q). P m"
  shows "\<forall>m \<in> set (messages (queue_apply par uuid p q)). P m"
proof (cases p)
  case (ChangeOp now h t)
  show ?thesis
  proof (cases "changeVisibility par now h t q")
    case (Inr r)
    then obtain q' b where r: "changeVisibility par now h t q = Inr (q', b)" by (cases r) auto
    then have "\<forall>m \<in> set (messages q'). P m"
    proof (cases rule: changeVisibility_cases)
      case 1
      with assms(3) show ?thesis by simp
    next
      case (2 m)
      show ?thesis using keeps_change [OF assms(1) [unfolded ChangeOp] assms(3)] 2(6) by simp
    qed
    with ChangeOp r show ?thesis by simp
  qed (use assms ChangeOp in simp)
next
  case (SendOp now msg)
  with keeps_send [OF _ assms(2,3)] assms(1) show ?thesis by simp
next
  case (ReceiveOp now k)
  with keeps_receive [OF _ assms(3)] assms(1) show ?thesis by simp
next
  case (DeleteOp now h)
  with deleteMessage_subset [of par now h q] assms(3) show ?thesis by (simp add: subset_iff)
qed (use assms(3) in \<open>simp_all add: isEmpty_def wakeUp_def unexpired_def
  getDeadLetterMessages_def runListeners_def shutdown_def Let_def\<close>)

lemma keeps_history:
  assumes "list_all allowed ops" and "used \<le> drawn q" and "\<forall>m \<in> set (messages q). P m"
  shows "\<forall>m \<in> set (messages (fold (queue_apply par uuid) ops q)). P m"
  using assms
proof (induction ops arbitrary: q)
  case (Cons p ops)
  from Cons.prems(1) have p: "allowed p" and ops: "list_all allowed ops" by simp_all
  have "\<forall>m \<in> set (messages (fold (queue_apply par uuid) ops (queue_apply par uuid p q))). P m"
    by (rule Cons.IH [OF ops order_trans [OF Cons.prems(2) drawn_grows] keeps_apply [OF p Cons.prems(2,3)]])
  then show ?case by (simp only: fold_simps)
qed (simp only: fold_simps)

end

section \<open>Attempts and dead letters\<close>

definition attempts_bounded :: "queue_parameters \<Rightarrow> 'a stored_message \<Rightarrow> bool" where
  "attempts_bounded par m = (case deadLetter par of None \<Rightarrow> True | Some dl \<Rightarrow> receiveCount m \<le> dl_maxAttempts dl)"

interpretation attempts: message_invariant par uuid "\<lambda>p. True" 0 "attempts_bounded par" for par uuid
  by unfold_locales (auto simp: attempts_bounded_def exhausted_def new_message_def split: option.splits)

lemma receive_loop_dead:
  assumes "receive_loop par uuid now quota blocked n ms = (kept, received, dead, n')"
    and "deadLetter par = Some dl" and "\<forall>m \<in> set ms. receiveCount m \<le> dl_maxAttempts dl"
  shows "\<forall>d \<in> set dead. dlm_receiveCount d = dl_maxAttempts dl"
  using assms by (induction rule: receive_loop_induct) (auto simp: exhausted_def)

definition letters_counted :: "dead_letter_parameters \<Rightarrow> 'a local_queue \<Rightarrow> bool" where
  "letters_counted dl q = (\<forall>d \<in> set (deadLetters q). dlm_receiveCount d = dl_maxAttempts dl)"

lemma letters_receive:
  assumes "deadLetter par = Some dl" and "letters_counted dl q" and "\<forall>m \<in> set (messages q). attempts_bounded par m"
  shows "letters_counted dl (fst (receiveMessages par uuid now k q))"
proof -
  obtain kept received dead n where run: "receive_loop par uuid now k
      (blocked_groups par now (unexpired par now q)) (drawn q) (unexpired par now q) = (kept, received, dead, n)"
    by (metis prod_cases4)
  have "\<forall>m \<in> set (unexpired par now q). receiveCount m \<le> dl_maxAttempts dl"
    using assms(1,3) by (simp add: attempts_bounded_def unexpired_def)
  from receive_loop_dead [OF run assms(1) this] assms(2) show ?thesis
    unfolding letters_counted_def receiveMessages_result [OF run] by auto
qed

lemma letters_apply:
  assumes "deadLetter par = Some dl" and "letters_counted dl q" and "\<forall>m \<in> set (messages q). attempts_bounded par m"
  shows "letters_counted dl (queue_apply par uuid p q)"
proof (cases p)
  case (ReceiveOp now k)
  with letters_receive [OF assms] show ?thesis by simp
next
  case (ChangeOp now h t)
  with assms(2) show ?thesis
    by (auto simp: letters_counted_def split: sum.split elim!: changeVisibility_cases)
qed (use assms(2) in \<open>auto simp: letters_counted_def sendMessage_def push_message_def deleteMessage_def isEmpty_def
  wakeUp_def getDeadLetterMessages_def runListeners_def shutdown_def Let_def split: option.split list.split\<close>)

lemma letters_history:
  assumes "deadLetter par = Some dl" and "letters_counted dl q" and "\<forall>m \<in> set (messages q). attempts_bounded par m"
  shows "letters_counted dl (fold (queue_apply par uuid) ops q)"
  using assms(2,3)
proof (induction ops arbitrary: q)
  case (Cons p ops)
  have "\<forall>m \<in> set (messages (queue_apply par uuid p q)). attempts_bounded par m"
    by (rule attempts.keeps_apply) (use Cons.prems(2) in auto)
  from Cons.IH [OF letters_apply [OF assms(1) Cons.prems] this] show ?case by simp
qed simp


section \<open>Visibility\<close>

text \<open>
  While a message is in flight under a receipt handle, only a change of visibility with that handle
  shortens the time it stays invisible.
\<close>

definition hidden_until :: "rat \<Rightarrow> string \<Rightarrow> 'a queue_op \<Rightarrow> bool" where
  "hidden_until T h p = (queue_op_time p < T \<and> (case p of ChangeOp now h' t \<Rightarrow> h' \<noteq> h | _ \<Rightarrow> True))"

definition held_message :: "(nat \<Rightarrow> string) \<Rightarrow> nat \<Rightarrow> string \<Rightarrow> string \<Rightarrow> rat \<Rightarrow> 'a stored_message \<Rightarrow> bool" where
  "held_message uuid used i h T m =
     (inj uuid \<and> i \<in> uuid ` {..<used} \<and> messageId m = i \<longrightarrow> receiptHandle m = Some h \<and> T \<le> visibleAt m)"

interpretation held: message_invariant par uuid "hidden_until T h" used "held_message uuid used i h T"
  for par uuid used i h T
  by unfold_locales (auto simp: held_message_def hidden_until_def new_message_def deliver_def inj_eq)

lemma received_held:
  assumes "inj uuid" and "queue_inv uuid q" and "r \<in> set (snd (receiveMessages par uuid now k q))"
  defines "q' \<equiv> fst (receiveMessages par uuid now k q)"
  shows "rm_messageId r \<in> uuid ` {..<drawn q'} \<and>
    (\<forall>m \<in> set (messages q'). held_message uuid (drawn q') (rm_messageId r) (rm_receiptHandle r)
       (now + visibilityTimeout par * 1000) m)"
proof -
  obtain kept received dead n where run: "receive_loop par uuid now k
      (blocked_groups par now (unexpired par now q)) (drawn q) (unexpired par now q) = (kept, received, dead, n)"
    by (metis prod_cases4)
  note res = receiveMessages_result [OF run]
  have inv: "queue_inv uuid q'" unfolding q'_def by (rule queue_inv_receive [OF assms(2,1)])
  from assms(3) receive_loop_received [OF run] obtain m where m: "messageId m = rm_messageId r"
    "deliver par now (rm_receiptHandle r) m \<in> set kept" unfolding res by blast
  from m(2) have mem: "deliver par now (rm_receiptHandle r) m \<in> set (messages q')" unfolding q'_def res .
  have same: "x = deliver par now (rm_receiptHandle r) m" if "x \<in> set (messages q')" "messageId x = rm_messageId r" for x
    using inv that mem m(1) unfolding queue_inv_def distinct_map
    by (metis deliver_simps(1) inj_onD)
  have "rm_messageId r \<in> uuid ` {..<drawn q'}"
    using inv mem m(1) unfolding queue_inv_def by (metis deliver_simps(1) image_eqI set_map subsetD)
  moreover have "held_message uuid (drawn q') (rm_messageId r) (rm_receiptHandle r) (now + visibilityTimeout par * 1000) x"
    if "x \<in> set (messages q')" for x
    using same [OF that] unfolding held_message_def by (metis deliver_simps(5,6) order_refl)
  ultimately show ?thesis by blast
qed

lemma receive_skips_hidden:
  assumes "\<And>m. m \<in> set (messages q) \<Longrightarrow> messageId m = i \<Longrightarrow> now < visibleAt m"
    and "r \<in> set (snd (receiveMessages par uuid now k q))"
  shows "rm_messageId r \<noteq> i"
proof -
  obtain kept received dead n where run: "receive_loop par uuid now k
      (blocked_groups par now (unexpired par now q)) (drawn q) (unexpired par now q) = (kept, received, dead, n)"
    by (metis prod_cases4)
  from assms(2) receive_loop_received [OF run] obtain m where "m \<in> set (unexpired par now q)"
    "messageId m = rm_messageId r" "visibleAt m \<le> now" unfolding receiveMessages_result [OF run] by blast
  with assms(1) [of m] show ?thesis by (auto simp: unexpired_def)
qed

text \<open>
  C9. A received message belongs to its receiver for the visibility timeout: until then no other
  receive of the history returns it, unless its visibility is changed through its receipt handle.
\<close>

theorem received_message_is_exclusive:
  assumes "inj uuid" and "r \<in> set (snd (receiveMessages par uuid now k (fold (queue_apply par uuid) before createLocalQueue)))"
    and "list_all (hidden_until (now + visibilityTimeout par * 1000) (rm_receiptHandle r)) ops"
    and "later < now + visibilityTimeout par * 1000"
  shows "rm_messageId r \<notin> rm_messageId ` set (snd (receiveMessages par uuid later j (fold (queue_apply par uuid) ops
    (fst (receiveMessages par uuid now k (fold (queue_apply par uuid) before createLocalQueue))))))"
proof -
  let ?q = "fst (receiveMessages par uuid now k (fold (queue_apply par uuid) before createLocalQueue))"
  note start = received_held [OF assms(1) queue_inv_history [OF assms(1) queue_inv_create] assms(2)]
  note kept = held.keeps_history [OF assms(3) order_refl, where q = ?q, OF start [THEN conjunct2]]
  have "later < visibleAt m"
    if "m \<in> set (messages (fold (queue_apply par uuid) ops ?q))" "messageId m = rm_messageId r" for m
    using kept [THEN bspec, OF that(1)] that(2) start [THEN conjunct1] assms(1,4) by (auto simp: held_message_def)
  then show ?thesis using receive_skips_hidden [where i = "rm_messageId r"] by fastforce
qed

text \<open>
  A change of visibility answers one of three ways. It fails for a negative timeout and for one
  past twelve hours from the receive, leaves the queue alone when the handle names no message in
  flight, and otherwise only moves the time its message becomes visible, never past twelve hours.
\<close>

theorem change_visibility_bounds:
  "(case changeVisibility par now h t q of
      Inl err \<Rightarrow> (\<exists>m \<in> set (messages q). receiptHandle m = Some h \<and> isInFlight m now \<and>
        (t < 0 \<or> now + t * 1000 > (case receivedAt m of Some r \<Rightarrow> r | None \<Rightarrow> now) + 43200 * 1000))
    | Inr (q', False) \<Rightarrow> q' = q \<and> \<not> list_ex (\<lambda>m. receiptHandle m = Some h \<and> isInFlight m now \<and>
        find (\<lambda>m. receiptHandle m = Some h) (messages q) = Some m) (messages q)
    | Inr (q', True) \<Rightarrow> messages q' = set_visible h (now + t * 1000) (messages q) \<and> 0 \<le> t \<and>
        (\<exists>m \<in> set (messages q). receiptHandle m = Some h \<and> isInFlight m now \<and>
          now + t * 1000 \<le> (case receivedAt m of Some r \<Rightarrow> r | None \<Rightarrow> now) + 43200 * 1000))"
proof (cases "find (\<lambda>m. receiptHandle m = Some h) (messages q)")
  case None
  then show ?thesis by (simp add: changeVisibility_def list_ex_iff)
next
  case (Some m)
  then have m: "m \<in> set (messages q)" "receiptHandle m = Some h"
    by (auto simp: find_Some_iff)
  show ?thesis
    using Some m by (auto simp: changeVisibility_def Let_def MAX_VISIBILITY_TIMEOUT_def set_visible_def list_ex_iff
        not_less split: bool.split intro!: bexI [of _ m])
qed

section \<open>Deduplication\<close>

lemma map_of_filter_first: "map_of xs k = Some v \<Longrightarrow> P (k, v) \<Longrightarrow> map_of (filter P xs) k = Some v"
  by (induction xs) (auto split: if_splits)

lemma dedup_send:
  assumes "map_of (deduplications q) key = Some e" and "now < e"
  shows "map_of (deduplications (sendMessage par uuid now msg q)) key = Some e"
proof -
  have fresh: "map_of (filter (\<lambda>(k, t). \<not> t \<le> now) (deduplications q)) key = Some e"
    using assms by (intro map_of_filter_first) auto
  then have "(om_groupId msg, d) \<noteq> key" if "\<not> duplicate now (om_groupId msg) d q" for d
    using that by (auto simp: duplicate_def)
  with fresh assms(1) show ?thesis
    by (auto simp: sendMessage_def push_message_def Let_def update_conv' split: option.split)
qed

lemma dedup_apply:
  assumes "map_of (deduplications q) key = Some e" and "queue_op_time p < e"
  shows "map_of (deduplications (queue_apply par uuid p q)) key = Some e"
proof (cases p)
  case (SendOp now msg)
  with dedup_send [OF assms(1)] assms(2) show ?thesis by simp
next
  case (ReceiveOp now k)
  obtain kept received dead n where run: "receive_loop par uuid now k
      (blocked_groups par now (unexpired par now q)) (drawn q) (unexpired par now q) = (kept, received, dead, n)"
    by (metis prod_cases4)
  show ?thesis using ReceiveOp assms(1) receiveMessages_result(5) [OF run] by simp
next
  case (ChangeOp now h t)
  with assms(1) show ?thesis by (auto split: sum.split elim!: changeVisibility_cases)
qed (use assms(1) in \<open>auto simp: deleteMessage_def isEmpty_def wakeUp_def getDeadLetterMessages_def
  runListeners_def shutdown_def Let_def split: list.split\<close>)

lemma dedup_history:
  assumes "map_of (deduplications q) key = Some e" and "list_all (\<lambda>p. queue_op_time p < e) ops"
  shows "map_of (deduplications (fold (queue_apply par uuid) ops q)) key = Some e"
  using assms by (induction ops arbitrary: q) (auto intro: dedup_apply)

text \<open>
  C12. For five minutes after a FIFO queue accepts a message, it delivers no other message of the same
  group with the same deduplication identifier, whatever happens to the queue in between: sending
  one adds no message.
\<close>

theorem duplicate_is_not_delivered:
  assumes "fifoMode par" and "om_deduplicationId msg = Some d" and "\<not> duplicate now (om_groupId msg) d q"
    and "list_all (\<lambda>p. queue_op_time p < now + DEDUPLICATION_INTERVAL) ops"
    and "om_deduplicationId msg' = Some d" and "om_groupId msg' = om_groupId msg" and "later < now + DEDUPLICATION_INTERVAL"
  shows "messages (sendMessage par uuid later msg' (fold (queue_apply par uuid) ops (sendMessage par uuid now msg q))) =
      messages (fold (queue_apply par uuid) ops (sendMessage par uuid now msg q)) \<and>
    messages (sendMessage par uuid now msg q) = messages q @ [new_message par (uuid (drawn q)) now msg]"
proof -
  let ?q = "fold (queue_apply par uuid) ops (sendMessage par uuid now msg q)"
  have "map_of (deduplications (sendMessage par uuid now msg q)) (om_groupId msg, d) = Some (now + DEDUPLICATION_INTERVAL)"
    using assms(1-3) by (simp add: sendMessage_def push_message_def Let_def update_conv')
  from map_of_filter_first [OF dedup_history [OF this assms(4)], of "\<lambda>(k, t). \<not> t \<le> later"]
  have "duplicate later (om_groupId msg) d ?q" using assms(7) by (simp add: duplicate_def not_le)
  with assms(1-3,5,6) show ?thesis by (simp add: sendMessage_def push_message_def Let_def)
qed

section \<open>The wake up timer\<close>

definition timer_ok :: "queue_parameters \<Rightarrow> rat \<Rightarrow> 'a local_queue \<Rightarrow> bool" where
  "timer_ok par now q = (isStopped q \<or>
     (\<forall>w. wakeUpTime q = Some w \<longrightarrow> (\<exists>x. wakeUpTimer q = Some x \<and> x \<le> max w now)) \<and>
     (\<forall>m \<in> set (messages q). \<exists>w. wakeUpTime q = Some w \<and> w \<le> getExpireTime par m \<and>
        (now < visibleAt m \<longrightarrow> w \<le> visibleAt m)))"

definition at_most :: "rat option \<Rightarrow> rat \<Rightarrow> bool" where
  "at_most t b = (case t of None \<Rightarrow> False | Some w \<Rightarrow> w \<le> b)"

lemma at_most_min [simp]: "at_most (min_time s t) b \<longleftrightarrow> at_most s b \<or> at_most t b"
  by (cases s; cases t) (auto simp: at_most_def)

lemma at_most_simps [simp]: "at_most (Some w) b \<longleftrightarrow> w \<le> b" "\<not> at_most None b"
  by (simp_all add: at_most_def)

lemma next_time_bound:
  "at_most (next_time par now ms) b \<longleftrightarrow>
    (\<exists>m \<in> set ms. getExpireTime par m \<le> b \<or> now < visibleAt m \<and> visibleAt m \<le> b)"
proof -
  have "at_most (fold (\<lambda>m t. min_time (min_time t (if visibleAt m > now then Some (visibleAt m) else None))
      (Some (getExpireTime par m))) ms t) b \<longleftrightarrow>
    at_most t b \<or> (\<exists>m \<in> set ms. getExpireTime par m \<le> b \<or> now < visibleAt m \<and> visibleAt m \<le> b)" for t
    by (induction ms arbitrary: t) auto
  then show ?thesis by (simp add: next_time_def)
qed

lemma next_time_covers:
  assumes "m \<in> set ms"
  obtains w where "next_time par now ms = Some w" "w \<le> getExpireTime par m" "now < visibleAt m \<Longrightarrow> w \<le> visibleAt m"
proof -
  have "at_most (next_time par now ms) (getExpireTime par m)"
    "now < visibleAt m \<Longrightarrow> at_most (next_time par now ms) (visibleAt m)"
    using assms by (auto simp: next_time_bound)
  then show thesis using that by (cases "next_time par now ms") auto
qed

text \<open>Armed: what scheduling at one time promises when the timer was in order before.\<close>

definition timer_armed :: "rat \<Rightarrow> 'a local_queue \<Rightarrow> bool" where
  "timer_armed now q = (isStopped q \<or> (\<forall>w. wakeUpTime q = Some w \<longrightarrow> (\<exists>x. wakeUpTimer q = Some x \<and> x \<le> max w now)))"

lemma schedule_timer:
  assumes "timer_armed now q"
  shows "timer_ok par now (scheduleWakeUp par now q)"
proof (cases "isStopped q")
  case False
  have time: "wakeUpTime (scheduleWakeUp par now q) = next_time par now (messages q)"
    using False by (simp add: scheduleWakeUp_def Let_def)
  have "\<exists>x. wakeUpTimer (scheduleWakeUp par now q) = Some x \<and> x \<le> max w now"
    if "next_time par now (messages q) = Some w" for w
  proof (cases "wakeUpTime q = Some w")
    case True
    with that False assms show ?thesis by (simp add: scheduleWakeUp_def timer_armed_def)
  next
    case set: False
    have "now + min (max 0 (w - now)) MAX_TIMER_DELAY \<le> max w now" by (simp add: max_def min_def)
    with set that False show ?thesis by (simp add: scheduleWakeUp_def)
  qed
  then show ?thesis unfolding timer_ok_def time using False by (auto elim: next_time_covers)
qed (simp add: timer_ok_def)

lemma timer_ok_armed: "timer_ok par now q \<Longrightarrow> now \<le> later \<Longrightarrow> timer_armed later q"
  by (fastforce simp: timer_ok_def timer_armed_def)

lemma timer_ok_later: "timer_ok par now q \<Longrightarrow> now \<le> later \<Longrightarrow> timer_ok par later q"
  unfolding timer_ok_def by (fastforce intro: order_trans)

lemma timer_ok_cong:
  assumes "timer_ok par now q" and "isStopped q' = isStopped q" and "wakeUpTime q' = wakeUpTime q"
    and "wakeUpTimer q' = wakeUpTimer q" and "set (messages q') \<subseteq> set (messages q)"
  shows "timer_ok par now q'"
  using assms unfolding timer_ok_def by auto

lemma timer_notify [simp]: "timer_ok par now (notify q) = timer_ok par now q" "timer_armed now (notify q) = timer_armed now q"
  by (simp_all add: timer_ok_def timer_armed_def)

lemma timer_armed_update [simp]: "timer_armed now (q\<lparr>messages := ms\<rparr>) = timer_armed now q"
  "timer_armed now (q\<lparr>drawn := n\<rparr>) = timer_armed now q"
  "timer_armed now (q\<lparr>deduplications := d\<rparr>) = timer_armed now q"
  "timer_armed now (q\<lparr>deadLetters := l\<rparr>) = timer_armed now q"
  "timer_armed now (dropExpiredMessages par now q) = timer_armed now q"
  by (simp_all add: timer_armed_def)

lemma timer_ok_update [simp]: "timer_ok par now (q\<lparr>deduplications := d\<rparr>) = timer_ok par now q"
  "timer_ok par now (q\<lparr>deadLetters := l\<rparr>) = timer_ok par now q"
  "timer_ok par now (q\<lparr>isNotifying := b\<rparr>) = timer_ok par now q"
  by (simp_all add: timer_ok_def)

lemma timer_apply:
  assumes "timer_ok par now q" and "now \<le> queue_op_time p"
  shows "timer_ok par (queue_op_time p) (queue_apply par uuid p q)"
proof -
  note armed = timer_ok_armed [OF assms] and ok = timer_ok_later [OF assms]
  show ?thesis
  proof (cases p)
    case (SendOp t msg)
    with armed ok show ?thesis
      by (auto simp: sendMessage_def push_message_def Let_def intro!: schedule_timer split: option.split)
  next
    case (ReceiveOp t k)
    with armed show ?thesis by (simp add: receiveMessages_def Let_def schedule_timer split: prod.split)
  next
    case (DeleteOp t h)
    with armed ok show ?thesis by (auto simp: deleteMessage_def intro!: schedule_timer split: list.split)
  next
    case (ChangeOp t h s)
    with armed ok show ?thesis by (auto intro!: schedule_timer elim!: changeVisibility_cases split: sum.split)
  next
    case (EmptyOp t)
    with ok show ?thesis
      by (auto simp: isEmpty_def Let_def unexpired_def intro: timer_ok_cong)
  next
    case (WakeUpOp t)
    then show ?thesis by (simp add: wakeUp_def schedule_timer timer_armed_def)
  next
    case (ShutdownOp t)
    then show ?thesis by (simp add: shutdown_def timer_ok_def)
  qed (use ok in \<open>simp_all add: getDeadLetterMessages_def runListeners_def Let_def\<close>)
qed

lemma timer_history:
  assumes "timer_ok par start q" and "sorted (start # map queue_op_time ops)" and "list_all (\<lambda>p. queue_op_time p \<le> now) ops"
    and "start \<le> now"
  shows "timer_ok par now (fold (queue_apply par uuid) ops q)"
  using assms
proof (induction ops arbitrary: q start)
  case Nil
  then show ?case by (simp add: timer_ok_later)
next
  case (Cons p ops)
  from Cons.prems have "timer_ok par (queue_op_time p) (queue_apply par uuid p q)" by (intro timer_apply) auto
  from Cons.IH [OF this] Cons.prems show ?case by simp
qed

text \<open>
  C10. No wake-up is lost. After any history of a queue that has not been shut down, a message that
  is not visible yet has the timer set for its time or earlier, and every message has it set for
  its expiry or earlier, or for the present.
\<close>

theorem wake_up_is_scheduled:
  assumes "sorted (map queue_op_time ops)" and "list_all (\<lambda>p. queue_op_time p \<le> now) ops"
    and "\<not> isStopped (fold (queue_apply par uuid) ops createLocalQueue)"
    and "m \<in> set (messages (fold (queue_apply par uuid) ops createLocalQueue))"
  shows "\<exists>x. wakeUpTimer (fold (queue_apply par uuid) ops createLocalQueue) = Some x \<and>
    x \<le> max now (getExpireTime par m) \<and> (now < visibleAt m \<longrightarrow> x \<le> visibleAt m)"
proof -
  let ?start = "if ops = [] then now else queue_op_time (hd ops)"
  have "timer_ok par ?start createLocalQueue" by (simp add: timer_ok_def createLocalQueue_def)
  then have ok: "timer_ok par now (fold (queue_apply par uuid) ops createLocalQueue)"
    by (rule timer_history) (use assms(1,2) in \<open>auto simp: neq_Nil_conv\<close>)
  from ok assms(3,4) obtain w x where "wakeUpTimer (fold (queue_apply par uuid) ops createLocalQueue) = Some x"
    "x \<le> max w now" "w \<le> getExpireTime par m" "now < visibleAt m \<longrightarrow> w \<le> visibleAt m"
    unfolding timer_ok_def by blast
  then show ?thesis by (auto simp: max_def split: if_splits)
qed

section \<open>A sample queue\<close>

definition tally :: "nat \<Rightarrow> string" where
  "tally n = replicate n (CHR ''x'')"

lemma inj_tally: "inj tally"
  by (rule injI) (metis length_replicate tally_def)

definition sample_queue :: queue_parameters where
  "sample_queue = \<lparr>fifoMode = True, visibilityTimeout = 30, retention = 60, delay = 0, polling = 20,
     deadLetter = Some \<lparr>dl_maxAttempts = 2, dl_retention = 60\<rparr>\<rparr>"

definition sample_message :: "string \<Rightarrow> string \<Rightarrow> unit outgoing_message" where
  "sample_message g d = \<lparr>om_body = d, om_attributes = (), om_groupId = Some g, om_deduplicationId = Some d, om_delay = None\<rparr>"

definition sample_history :: "unit queue_op list" where
  "sample_history = [SendOp 0 (sample_message ''g'' ''a''), SendOp 1000 (sample_message ''g'' ''b'')]"

lemmas sample_queue_defs = sample_queue_def sample_message_def sample_history_def createLocalQueue_def sendMessage_def
  push_message_def new_message_def duplicate_def notify_def scheduleWakeUp_def next_time_def getExpireTime_def
  receiveMessages_def dropExpiredMessages_def blocked_groups_def disposition_of_def ordered_group_def isInFlight_def
  deliver_def received_of_def unexpired_def exhausted_def tally_def DEDUPLICATION_INTERVAL_def MAX_TIMER_DELAY_def
  List.map_filter_def Let_def

lemma sample_received:
  "map rm_messageId (snd (receiveMessages sample_queue tally 2000 1 (fold (queue_apply sample_queue tally) sample_history createLocalQueue))) = [[]]"
  by (simp add: sample_queue_defs)

theorem receive_keeps_group_order_witness:
  "prefix (map rm_messageId (filter (\<lambda>r. rm_groupId r = Some ''g'')
      (snd (receiveMessages sample_queue tally 2000 1 (fold (queue_apply sample_queue tally) sample_history createLocalQueue)))))
    (map messageId (filter (\<lambda>m. groupId m = Some ''g'' \<and> \<not> exhausted sample_queue m)
      (unexpired sample_queue 2000 (fold (queue_apply sample_queue tally) sample_history createLocalQueue))))"
proof -
  have "fifoMode sample_queue" by (simp add: sample_queue_def)
  from receive_keeps_group_order [OF this] show ?thesis by blast
qed

theorem queue_identifiers_stay_unique_witness:
  "distinct (map messageId (messages (fold (queue_apply sample_queue tally) sample_history createLocalQueue)))"
  using queue_identifiers_stay_unique [OF inj_tally] by blast


theorem received_message_is_exclusive_witness:
  "[] \<notin> rm_messageId ` set (snd (receiveMessages sample_queue tally 31000 10 (fold (queue_apply sample_queue tally)
    [SendOp 3000 (sample_message ''h'' ''c''), WakeUpOp 4000]
    (fst (receiveMessages sample_queue tally 2000 1 (fold (queue_apply sample_queue tally) sample_history createLocalQueue))))))"
proof -
  obtain r where r: "r \<in> set (snd (receiveMessages sample_queue tally 2000 1 (fold (queue_apply sample_queue tally) sample_history createLocalQueue)))"
    "rm_messageId r = []" using sample_received by (auto simp: map_eq_Cons_conv)
  have "list_all (hidden_until (2000 + visibilityTimeout sample_queue * 1000) (rm_receiptHandle r))
    [SendOp 3000 (sample_message ''h'' ''c''), WakeUpOp 4000]" "31000 < 2000 + visibilityTimeout sample_queue * 1000"
    by (simp_all add: hidden_until_def sample_queue_def)
  from received_message_is_exclusive [OF inj_tally r(1) this] r(2) show ?thesis by simp
qed

theorem duplicate_is_not_delivered_witness:
  "messages (sendMessage sample_queue tally 299999 (sample_message ''g'' ''a'') (sendMessage sample_queue tally 0
     (sample_message ''g'' ''a'') createLocalQueue)) =
   messages (sendMessage sample_queue tally 0 (sample_message ''g'' ''a'') createLocalQueue)"
proof -
  have "fifoMode sample_queue" "om_deduplicationId (sample_message ''g'' ''a'') = Some ''a''"
    "\<not> duplicate 0 (om_groupId (sample_message ''g'' ''a'')) ''a'' (createLocalQueue :: unit local_queue)"
    "list_all (\<lambda>p. queue_op_time p < 0 + DEDUPLICATION_INTERVAL) ([] :: unit queue_op list)"
    "(299999 :: rat) < 0 + DEDUPLICATION_INTERVAL"
    by (simp_all add: sample_queue_def sample_message_def duplicate_def createLocalQueue_def DEDUPLICATION_INTERVAL_def)
  from duplicate_is_not_delivered [OF this(1-4,2) refl this(5)] show ?thesis by simp
qed

theorem wake_up_is_scheduled_witness:
  "\<exists>x. wakeUpTimer (queue_apply sample_queue tally (SendOp 0 ((sample_message ''g'' ''a'')\<lparr>om_delay := Some 5\<rparr>)) createLocalQueue)
    = Some x \<and> x \<le> 5000"
proof -
  let ?op = "SendOp 0 ((sample_message ''g'' ''a'')\<lparr>om_delay := Some 5\<rparr>)"
  let ?m = "new_message sample_queue (tally 0) 0 ((sample_message ''g'' ''a'')\<lparr>om_delay := Some 5\<rparr>)"
  have "sorted (map queue_op_time [?op])" "list_all (\<lambda>p. queue_op_time p \<le> 0) [?op]"
    "\<not> isStopped (fold (queue_apply sample_queue tally) [?op] createLocalQueue)"
    "?m \<in> set (messages (fold (queue_apply sample_queue tally) [?op] createLocalQueue))"
    by (simp_all add: sample_queue_defs)
  from wake_up_is_scheduled [OF this] show ?thesis by (auto simp: new_message_def)
qed

end
