(* ===== verification/Text_Case.thy ===== *)
theory Text_Case
  imports Ez4_Prelude
begin

text \<open>
  The naming conversions of \<open>foundation/utils/src/string/case.ts\<close> and \<open>capital.ts\<close>, which the
  schema, transform and database components use to rename properties. \<open>normalize\<close> keeps ASCII
  letters and digits only, so lower and upper case are those of ASCII on its pieces.

  The test of the character after an upper case one reads past the end of the text: the regular
  expression then sees the string \<open>undefined\<close>, which has a lower case letter.
\<close>

section \<open>Characters\<close>

definition is_lower :: "char \<Rightarrow> bool" where
  "is_lower c = (97 \<le> (of_char c :: nat) \<and> (of_char c :: nat) \<le> 122)"

definition is_upper :: "char \<Rightarrow> bool" where
  "is_upper c = (65 \<le> (of_char c :: nat) \<and> (of_char c :: nat) \<le> 90)"

definition is_separator :: "char \<Rightarrow> bool" where
  "is_separator c = (c = CHR ''-'' \<or> c = CHR ''_'' \<or> c = CHR '' '')"

definition is_plain :: "char \<Rightarrow> bool" where
  "is_plain c = (is_lower c \<or> is_digit_char c)"

definition lower_char :: "char \<Rightarrow> char" where
  "lower_char c = (if is_upper c then char_of (of_char c + 32 :: nat) else c)"

definition upper_char :: "char \<Rightarrow> char" where
  "upper_char c = (if is_lower c then char_of (of_char c - 32 :: nat) else c)"

definition capitalizeString :: "string \<Rightarrow> string" where
  "capitalizeString s = map upper_char (take 1 s) @ map lower_char (drop 1 s)"

section \<open>Splitting a text into words\<close>

fun next_is_lower :: "string \<Rightarrow> bool" where
  "next_is_lower [] = True"
| "next_is_lower (c # rest) = is_lower c"

text \<open>The loop: the finished words, the pieces of the current one, and the two counters.\<close>

fun normalize_from :: "string list \<Rightarrow> string \<Rightarrow> bool \<Rightarrow> nat \<Rightarrow> string \<Rightarrow> string list" where
  "normalize_from out pieces split uppercase [] = (if pieces \<noteq> [] then out @ [pieces] else out)"
| "normalize_from out pieces split uppercase (c # rest) =
     (if is_plain c then
        if split then normalize_from (out @ [pieces]) [c] False 0 rest
        else normalize_from out (pieces @ [c]) False 0 rest
      else if is_separator c then
        normalize_from out pieces (pieces \<noteq> [] \<and> rest \<noteq> []) 0 rest
      else if is_upper c then
        if pieces \<noteq> [] \<and> (uppercase = 0 \<or> uppercase > 1 \<and> next_is_lower rest)
        then normalize_from (out @ [pieces]) [c] False (Suc uppercase) rest
        else normalize_from out (pieces @ [c]) False (Suc uppercase) rest
      else normalize_from out pieces split uppercase rest)"

definition normalize_text :: "string \<Rightarrow> string list" where
  "normalize_text text = normalize_from [] [] False 0 text"

fun join :: "string \<Rightarrow> string list \<Rightarrow> string" where
  "join sep [] = []"
| "join sep [w] = w"
| "join sep (w # v # ws) = w @ sep @ join sep (v # ws)"

definition toKebabCase :: "string \<Rightarrow> string" where
  "toKebabCase text = join ''-'' (map (map lower_char) (normalize_text text))"

definition toSnakeCase :: "string \<Rightarrow> string" where
  "toSnakeCase text = join ''_'' (map (map lower_char) (normalize_text text))"

definition toCamelCase :: "string \<Rightarrow> string" where
  "toCamelCase text = concat (case normalize_text text of [] \<Rightarrow> [] | w # ws \<Rightarrow> map lower_char w # map capitalizeString ws)"

definition toPascalCase :: "string \<Rightarrow> string" where
  "toPascalCase text = concat (map capitalizeString (normalize_text text))"

section \<open>Words\<close>

text \<open>A word of a snake or kebab case name, and one that survives in camel case.\<close>

definition plain_word :: "string \<Rightarrow> bool" where
  "plain_word w = (w \<noteq> [] \<and> list_all is_plain w)"

definition camel_word :: "string \<Rightarrow> bool" where
  "camel_word w = (2 \<le> length w \<and> is_lower (hd w) \<and> list_all is_plain w)"

lemma lower_plain: "is_lower c \<Longrightarrow> is_plain c"
  by (simp add: is_plain_def)

lemma plain_lower_char [simp]: "is_plain c \<Longrightarrow> lower_char c = c"
  by (auto simp: is_plain_def is_lower_def is_upper_def is_digit_char_def lower_char_def)

lemma separator_classes [simp]: "is_separator c \<Longrightarrow> \<not> is_plain c"
  by (auto simp: is_separator_def is_plain_def is_lower_def is_digit_char_def)

lemma upper_classes [simp]: "is_upper c \<Longrightarrow> \<not> is_plain c" "is_upper c \<Longrightarrow> \<not> is_separator c"
  by (auto simp: is_separator_def is_plain_def is_lower_def is_upper_def is_digit_char_def)

lemma upper_char_code: "is_lower c \<Longrightarrow> of_char (upper_char c) = (of_char c - 32 :: nat)"
  by (auto simp: upper_char_def is_lower_def)

lemma upper_char_lower [simp]: "is_lower c \<Longrightarrow> is_upper (upper_char c)" "is_lower c \<Longrightarrow> lower_char (upper_char c) = c"
proof -
  assume c: "is_lower c"
  show up: "is_upper (upper_char c)" using c unfolding is_upper_def upper_char_code [OF c] by (auto simp: is_lower_def)
  have "lower_char (upper_char c) = char_of (of_char (upper_char c) + 32 :: nat)" using up by (simp add: lower_char_def)
  also have "\<dots> = c" using c unfolding upper_char_code [OF c] is_lower_def by simp
  finally show "lower_char (upper_char c) = c" .
qed

lemma lower_upper_plain: "is_upper c \<Longrightarrow> is_plain (lower_char c)"
proof -
  assume c: "is_upper c"
  then have "of_char (lower_char c) = (of_char c + 32 :: nat)" by (auto simp: lower_char_def is_upper_def)
  with c show ?thesis by (simp add: is_plain_def is_lower_def is_upper_def)
qed

lemma map_lower_plain: "list_all is_plain w \<Longrightarrow> map lower_char w = w"
  by (induction w) auto

section \<open>Splitting is stable\<close>

lemma normalize_plain:
  "list_all is_plain w \<Longrightarrow> normalize_from out pieces False 0 (w @ rest) = normalize_from out (pieces @ w) False 0 rest"
  by (induction w arbitrary: pieces) auto

lemma normalize_separated:
  assumes "pieces \<noteq> []" and "is_separator s" and "plain_word w"
  shows "normalize_from out pieces False 0 (s # w @ rest) = normalize_from (out @ [pieces]) w False 0 rest"
proof -
  obtain c v where w: "w = c # v" "is_plain c" "list_all is_plain v" using assms(3) by (cases w) (auto simp: plain_word_def)
  with assms(1,2) normalize_plain [OF w(3), of "out @ [pieces]" "[c]" rest] show ?thesis by simp
qed

lemma normalize_join_from:
  assumes "list_all plain_word (w # ws)" and "is_separator s"
  shows "normalize_from out [] False 0 (join [s] (w # ws)) = out @ w # ws"
proof -
  have "normalize_from out w False 0 (concat (map (\<lambda>v. s # v) ws)) = out @ w # ws"
    if "list_all plain_word (w # ws)" for out w ws
    using that
  proof (induction ws arbitrary: out w)
    case Nil
    then show ?case by (simp add: plain_word_def)
  next
    case (Cons v ws)
    then have "w \<noteq> []" "plain_word v" by (simp_all add: plain_word_def)
    from normalize_separated [OF this(1) assms(2) this(2), of out "concat (map (\<lambda>v. s # v) ws)"] Cons show ?case by simp
  qed
  moreover have "join [s] (w # ws) = w @ concat (map (\<lambda>v. s # v) ws)" by (induction ws arbitrary: w) auto
  ultimately show ?thesis
    using assms(1) normalize_plain [of w out "[]"] by (simp add: plain_word_def)
qed

lemma normalize_join:
  assumes "list_all plain_word ws" and "is_separator s"
  shows "normalize_text (join [s] ws) = ws"
  using assms normalize_join_from [of _ _ s "[]"] by (cases ws) (auto simp: normalize_text_def)

text \<open>The words of any text are made of letters and digits.\<close>

definition word_char :: "char \<Rightarrow> bool" where
  "word_char c = (is_plain c \<or> is_upper c)"

lemma normalize_from_words:
  assumes "list_all (\<lambda>w. w \<noteq> [] \<and> list_all word_char w) out" and "list_all word_char pieces" and "split \<longrightarrow> pieces \<noteq> []"
  shows "list_all (\<lambda>w. w \<noteq> [] \<and> list_all word_char w) (normalize_from out pieces split uppercase s)"
  using assms by (induction out pieces split uppercase s rule: normalize_from.induct) (auto simp: word_char_def)

lemma normalize_words: "list_all plain_word (map (map lower_char) (normalize_text text))"
proof -
  have "plain_word (map lower_char w)" if "w \<noteq> []" "list_all word_char w" for w
    using that by (auto simp: plain_word_def list_all_iff word_char_def lower_upper_plain)
  with normalize_from_words [where out = "[]" and pieces = "[]" and split = False and uppercase = 0 and s = "text"] show ?thesis by (auto simp: normalize_text_def list_all_iff)
qed

text \<open>
  Snake and kebab case names are fixed points of their conversions, so that renaming a name that
  is in the style already does nothing.
\<close>

theorem snake_and_kebab_are_stable:
  "toSnakeCase (toSnakeCase text) = toSnakeCase text \<and> toKebabCase (toKebabCase text) = toKebabCase text \<and>
   toSnakeCase (toKebabCase text) = toSnakeCase text \<and> toKebabCase (toSnakeCase text) = toKebabCase text"
proof -
  let ?ws = "map (map lower_char) (normalize_text text)"
  have "map (map lower_char) ?ws = ?ws"
    using normalize_words [of "text"] by (auto simp: list_all_iff plain_word_def)
  moreover have "normalize_text (join [s] ?ws) = ?ws" if "is_separator s" for s
    by (rule normalize_join [OF normalize_words that])
  then have "normalize_text (join ''_'' ?ws) = ?ws" "normalize_text (join ''-'' ?ws) = ?ws" by (simp_all add: is_separator_def)
  ultimately show ?thesis by (simp only: toSnakeCase_def toKebabCase_def)
qed

section \<open>Camel case and back\<close>

lemma camel_word_plain: "camel_word w \<Longrightarrow> plain_word w"
  by (auto simp: camel_word_def plain_word_def)

lemma camel_word_cases:
  assumes "camel_word w"
  obtains c d v where "w = c # d # v" "is_lower c" "is_plain d" "list_all is_plain v" "capitalizeString w = upper_char c # d # v"
proof -
  from assms obtain c d v where "w = c # d # v" "is_lower c" "is_plain d" "list_all is_plain v"
    by (cases w; cases "tl w") (auto simp: camel_word_def)
  with that show thesis by (simp add: capitalizeString_def map_lower_plain)
qed

lemma normalize_capital:
  assumes "camel_word w" and "pieces \<noteq> []"
  shows "normalize_from out pieces False 0 (capitalizeString w @ rest) =
    normalize_from (out @ [pieces]) (capitalizeString w) False 0 rest"
proof -
  from assms(1) obtain c d v where w: "w = c # d # v" "is_lower c" "is_plain d" "list_all is_plain v"
    "capitalizeString w = upper_char c # d # v" by (rule camel_word_cases)
  show ?thesis
    using assms(2) w normalize_plain [OF w(4), of "out @ [pieces]" "[upper_char c, d]" rest] by simp
qed

lemma normalize_capital_first:
  assumes "camel_word w"
  shows "normalize_from out [] False 0 (capitalizeString w @ rest) = normalize_from out (capitalizeString w) False 0 rest"
proof -
  from assms(1) obtain c d v where w: "w = c # d # v" "is_lower c" "is_plain d" "list_all is_plain v"
    "capitalizeString w = upper_char c # d # v" by (rule camel_word_cases)
  show ?thesis using w normalize_plain [OF w(4), of out "[upper_char c, d]" rest] by simp
qed

lemma normalize_capitals:
  assumes "list_all camel_word ws" and "w \<noteq> []"
  shows "normalize_from out w False 0 (concat (map capitalizeString ws)) = out @ w # map capitalizeString ws"
  using assms
proof (induction ws arbitrary: out w)
  case (Cons v ws)
  then have "camel_word v" "capitalizeString v \<noteq> []" by (auto elim: camel_word_cases)
  with Cons normalize_capital [OF \<open>camel_word v\<close> Cons.prems(2)] show ?case by simp
qed simp

lemma lower_capital: "camel_word w \<Longrightarrow> map lower_char (capitalizeString w) = w"
  by (erule camel_word_cases) (simp add: map_lower_plain)

lemma capital_twice: "camel_word w \<Longrightarrow> capitalizeString (capitalizeString w) = capitalizeString w"
proof (erule camel_word_cases)
  fix c d v assume w: "w = c # d # v" "is_lower c" "is_plain d" "list_all is_plain v" "capitalizeString w = upper_char c # d # v"
  have "upper_char (upper_char c) = upper_char c"
    using upper_char_lower(1) [OF w(2)] by (auto simp: upper_char_def is_lower_def is_upper_def split: if_splits)
  with w show ?thesis by (simp add: capitalizeString_def map_lower_plain)
qed

lemma normalize_camel:
  assumes "list_all camel_word (w # ws)"
  shows "normalize_text (concat (w # map capitalizeString ws)) = w # map capitalizeString ws"
    and "normalize_text (concat (map capitalizeString (w # ws))) = map capitalizeString (w # ws)"
proof -
  have w: "plain_word w" "w \<noteq> []" "capitalizeString w \<noteq> []"
    using assms camel_word_plain [of w] by (auto simp: plain_word_def elim: camel_word_cases)
  show "normalize_text (concat (w # map capitalizeString ws)) = w # map capitalizeString ws"
    using normalize_plain [of w "[]" "[]" "concat (map capitalizeString ws)"] normalize_capitals [of ws w "[]"] w assms
    by (simp add: normalize_text_def plain_word_def)
  show "normalize_text (concat (map capitalizeString (w # ws))) = map capitalizeString (w # ws)"
    using normalize_capital_first [of w "[]" "concat (map capitalizeString ws)"]
      normalize_capitals [of ws "capitalizeString w" "[]"] w assms by (simp add: normalize_text_def)
qed

text \<open>
  A snake case name whose words have at least two characters and start with a letter survives
  camel case and Pascal case: converting it there and back gives the name again.
\<close>

theorem snake_case_round_trip:
  assumes "list_all camel_word ws"
  shows "toSnakeCase (toCamelCase (join ''_'' ws)) = join ''_'' ws \<and> toSnakeCase (toPascalCase (join ''_'' ws)) = join ''_'' ws \<and>
    toKebabCase (toCamelCase (join ''-'' ws)) = join ''-'' ws \<and>
    toCamelCase (toPascalCase (join ''_'' ws)) = toCamelCase (join ''_'' ws)"
proof (cases ws)
  case Nil
  then show ?thesis by (simp add: toSnakeCase_def toCamelCase_def toPascalCase_def toKebabCase_def normalize_text_def)
next
  case (Cons w v)
  have plain: "list_all plain_word ws" using assms by (auto simp: list_all_iff camel_word_plain)
  have names: "normalize_text (join ''_'' ws) = ws" "normalize_text (join ''-'' ws) = ws"
    by (rule normalize_join [OF plain], simp add: is_separator_def)+
  have lower: "map lower_char w = w" "map (map lower_char) ws = ws"
    using plain Cons by (auto simp: plain_word_def list_all_iff map_idI)
  have restored: "map (map lower_char) (map capitalizeString ws) = ws" "map (\<lambda>x. map lower_char (capitalizeString x)) v = v"
    using assms Cons by (auto simp: list_all_iff lower_capital map_idI)
  have twice: "map (capitalizeString \<circ> capitalizeString) v = map capitalizeString v"
    "map lower_char (capitalizeString w) = w"
    using assms Cons by (auto simp: list_all_iff lower_capital capital_twice)
  note norm = normalize_camel [OF assms [unfolded Cons]]
  have camel: "toCamelCase (join ''_'' ws) = concat (w # map capitalizeString v)" "toCamelCase (join ''-'' ws) = concat (w # map capitalizeString v)"
    "toPascalCase (join ''_'' ws) = concat (map capitalizeString (w # v))"
    unfolding toCamelCase_def toPascalCase_def names using Cons lower(1) by simp_all
  show ?thesis unfolding camel toSnakeCase_def toKebabCase_def norm toCamelCase_def [of "concat (map capitalizeString (w # v))"]
    using Cons restored lower twice by (simp add: comp_def cong: map_cong)
qed

theorem snake_case_round_trip_witness:
  "toSnakeCase (toCamelCase ''created_at_utc'') = ''created_at_utc''"
proof -
  have "list_all camel_word [''created'', ''at'', ''utc'']"
    by (simp add: camel_word_def is_plain_def is_lower_def is_digit_char_def)
  from snake_case_round_trip [OF this] show ?thesis by simp
qed

text \<open>
  An acronym at the end of a text loses its last letter to a word of its own, and one character
  words do not survive camel case.
\<close>

lemma trailing_acronym_is_split: "toSnakeCase ''parseHTML'' = ''parse_htm_l''"
  by code_simp

lemma short_words_are_merged: "toSnakeCase (toCamelCase ''x_y_z'') = ''x_yz''"
  by code_simp

end
