(* ===== verification/Schema_Types.thy ===== *)
theory Schema_Types
  imports Js_Value Text_Case
begin

text \<open>
  The schemas of \<open>foundation/schema/src\<close>: their types (\<open>types/type-*.ts\<close>, \<open>types/common.ts\<close>,
  \<open>types/naming.ts\<close>) and the functions that derive one schema from another (\<open>utils/naming.ts\<close>,
  \<open>utils/optional.ts\<close>, \<open>utils/partial.ts\<close>, \<open>utils/custom.ts\<close>).

  A schema is a value of one datatype, with a constructor for each \<open>SchemaType\<close>. The fields every
  schema has are a record of their own; an absent flag is \<open>False\<close>, which is what the code reads
  from it, and an absent object of definitions is the one without any definition.
\<close>

section \<open>Types of schemas\<close>

datatype naming_style = Preserve | CamelCase | PascalCase | SnakeCase | KebabCase

record schema_info =
  optional :: bool
  nullable :: bool
  description :: "string option"
  alias_name :: "string option"

record schema_definitions =
  def_custom :: bool
  def_types :: "string list option"

record boolean_definitions = schema_definitions +
  bool_default :: "bool option"
  bool_value :: "bool option"

record number_definitions = schema_definitions +
  minValue :: "js_number option"
  maxValue :: "js_number option"
  num_default :: "js_number option"
  num_value :: "js_number option"

record string_definitions = schema_definitions +
  str_minLength :: "js_number option"
  str_maxLength :: "js_number option"
  trim :: bool
  lower :: bool
  upper :: bool
  pattern :: "string option"
  str_default :: "string option"
  str_value :: "string option"
  str_name :: "string option"

record array_definitions = schema_definitions +
  arr_minLength :: "js_number option"
  arr_maxLength :: "js_number option"
  arr_default :: "js_value option"
  arr_encoded :: bool

record object_definitions = schema_definitions +
  obj_encoded :: bool
  extensible :: bool
  preserve :: bool
  obj_default :: "js_value option"
  obj_value :: "js_value option"

record tuple_definitions = schema_definitions +
  tuple_default :: "js_value option"

datatype enum_value = NumberOption js_number | StringOption string

fun enum_js :: "enum_value \<Rightarrow> js_value" where
  "enum_js (NumberOption n) = Num n"
| "enum_js (StringOption s) = Str s"

record enum_definitions = schema_definitions +
  enum_default :: "enum_value option"

record enum_option =
  option_value :: enum_value
  option_description :: "string option"

datatype any_schema =
    BooleanSchema schema_info boolean_definitions
  | NumberSchema schema_info number_definitions "string option"
  | StringSchema schema_info string_definitions "string option"
  | ObjectSchema schema_info object_definitions "nat option" "(string \<times> any_schema) list" "(any_schema \<times> any_schema) option"
  | ReferenceSchema schema_info schema_definitions nat
  | UnionSchema schema_info schema_definitions "any_schema list"
  | ArraySchema schema_info array_definitions any_schema
  | TupleSchema schema_info tuple_definitions "any_schema list"
  | EnumSchema schema_info enum_definitions "enum_option list"

fun info :: "any_schema \<Rightarrow> schema_info" where
  "info (BooleanSchema i d) = i"
| "info (NumberSchema i d f) = i"
| "info (StringSchema i d f) = i"
| "info (ObjectSchema i d identity properties additional) = i"
| "info (ReferenceSchema i d identity) = i"
| "info (UnionSchema i d elements) = i"
| "info (ArraySchema i d element) = i"
| "info (TupleSchema i d elements) = i"
| "info (EnumSchema i d options) = i"

fun with_info :: "(schema_info \<Rightarrow> schema_info) \<Rightarrow> any_schema \<Rightarrow> any_schema" where
  "with_info f (BooleanSchema i d) = BooleanSchema (f i) d"
| "with_info f (NumberSchema i d fmt) = NumberSchema (f i) d fmt"
| "with_info f (StringSchema i d fmt) = StringSchema (f i) d fmt"
| "with_info f (ObjectSchema i d identity properties additional) = ObjectSchema (f i) d identity properties additional"
| "with_info f (ReferenceSchema i d identity) = ReferenceSchema (f i) d identity"
| "with_info f (UnionSchema i d elements) = UnionSchema (f i) d elements"
| "with_info f (ArraySchema i d element) = ArraySchema (f i) d element"
| "with_info f (TupleSchema i d elements) = TupleSchema (f i) d elements"
| "with_info f (EnumSchema i d options) = EnumSchema (f i) d options"

lemma info_with_info [simp]: "info (with_info f s) = f (info s)"
  by (cases s) auto

lemma enumerate_size: "p \<in> set (List.enumerate n xs) \<Longrightarrow> size (snd p) < Suc (size_list size xs)"
  by (induction xs arbitrary: n) fastforce+

lemma property_size: "p \<in> set properties \<Longrightarrow> size (snd p) < Suc (size_list (size_prod (\<lambda>_. 0) size) properties)"
  by (induction properties) auto

lemmas schema_size_intros = size_list_estimation' le_imp_less_Suc trans_le_add1 trans_le_add2

section \<open>Checks on schemas\<close>

fun isObjectSchema :: "any_schema \<Rightarrow> bool" where
  "isObjectSchema (ObjectSchema i d identity properties additional) = True"
| "isObjectSchema s = False"

fun isUnionSchema :: "any_schema \<Rightarrow> bool" where
  "isUnionSchema (UnionSchema i d elements) = True"
| "isUnionSchema s = False"

fun isArraySchema :: "any_schema \<Rightarrow> bool" where
  "isArraySchema (ArraySchema i d element) = True"
| "isArraySchema s = False"

fun isTupleSchema :: "any_schema \<Rightarrow> bool" where
  "isTupleSchema (TupleSchema i d elements) = True"
| "isTupleSchema s = False"

fun isEnumSchema :: "any_schema \<Rightarrow> bool" where
  "isEnumSchema (EnumSchema i d options) = True"
| "isEnumSchema s = False"

fun isReferenceSchema :: "any_schema \<Rightarrow> bool" where
  "isReferenceSchema (ReferenceSchema i d identity) = True"
| "isReferenceSchema s = False"

fun isBooleanSchema :: "any_schema \<Rightarrow> bool" where
  "isBooleanSchema (BooleanSchema i d) = True"
| "isBooleanSchema s = False"

fun isNumberSchema :: "any_schema \<Rightarrow> bool" where
  "isNumberSchema (NumberSchema i d f) = True"
| "isNumberSchema s = False"

fun isStringSchema :: "any_schema \<Rightarrow> bool" where
  "isStringSchema (StringSchema i d f) = True"
| "isStringSchema s = False"

definition isScalarSchema :: "any_schema \<Rightarrow> bool" where
  "isScalarSchema s = (isBooleanSchema s \<or> isNumberSchema s \<or> isStringSchema s)"

definition isNullishSchema :: "any_schema \<Rightarrow> bool" where
  "isNullishSchema s = (nullable (info s) \<or> optional (info s))"

fun isDynamicObjectSchema :: "any_schema \<Rightarrow> bool" where
  "isDynamicObjectSchema (ObjectSchema i d identity properties additional) = (extensible d \<or> additional \<noteq> None)"
| "isDynamicObjectSchema s = False"

fun isEmptyEnumSchema :: "any_schema \<Rightarrow> bool" where
  "isEmptyEnumSchema (EnumSchema i d options) = (options = [])"
| "isEmptyEnumSchema s = False"

fun getObjectSchemaProperty :: "any_schema \<Rightarrow> string \<Rightarrow> any_schema option" where
  "getObjectSchemaProperty (ObjectSchema i d identity properties additional) name =
     (case obj_get properties name of Some s \<Rightarrow> Some s | None \<Rightarrow> map_option snd additional)"
| "getObjectSchemaProperty s name = None"

fun hasSchemaProperty :: "any_schema \<Rightarrow> string \<Rightarrow> bool" where
  "hasSchemaProperty (ObjectSchema i d identity properties additional) name = (obj_get properties name \<noteq> None)"
| "hasSchemaProperty (UnionSchema i d elements) name = list_ex (\<lambda>s. hasSchemaProperty s name) elements"
| "hasSchemaProperty s name = False"

section \<open>Naming styles\<close>

definition getPropertyName :: "string \<Rightarrow> naming_style option \<Rightarrow> string" where
  "getPropertyName name style =
     (case style of
        Some CamelCase \<Rightarrow> toCamelCase name
      | Some PascalCase \<Rightarrow> toPascalCase name
      | Some SnakeCase \<Rightarrow> toSnakeCase name
      | Some KebabCase \<Rightarrow> toKebabCase name
      | _ \<Rightarrow> name)"

fun styled :: "naming_style \<Rightarrow> any_schema \<Rightarrow> any_schema" where
  "styled style (ObjectSchema i d identity properties additional) =
     ObjectSchema i d identity
       (fold (\<lambda>(k, s). obj_set (getPropertyName k (Some style)) s) (map (\<lambda>p. (fst p, styled style (snd p))) properties) [])
       additional"
| "styled style (UnionSchema i d elements) = UnionSchema i d (map (styled style) elements)"
| "styled style (ArraySchema i d element) = ArraySchema i d (styled style element)"
| "styled style (TupleSchema i d elements) = TupleSchema i d (map (styled style) elements)"
| "styled style s = s"

definition getWithNamingStyle :: "any_schema \<Rightarrow> naming_style option \<Rightarrow> any_schema" where
  "getWithNamingStyle s style = (case style of None \<Rightarrow> s | Some st \<Rightarrow> styled st s)"

section \<open>Optional schemas\<close>

fun getOptionalSchema :: "any_schema \<Rightarrow> any_schema" where
  "getOptionalSchema (ObjectSchema i d identity properties additional) =
     ObjectSchema i d identity
       (map (\<lambda>p. (fst p, if optional (info (snd p)) then snd p
                           else with_info (\<lambda>i. i\<lparr>optional := True\<rparr>) (getOptionalSchema (snd p)))) properties)
       additional"
| "getOptionalSchema (UnionSchema i d elements) = UnionSchema i d (map getOptionalSchema elements)"
| "getOptionalSchema (ArraySchema i d element) = ArraySchema i d (getOptionalSchema element)"
| "getOptionalSchema (TupleSchema i d elements) = TupleSchema i d (map getOptionalSchema elements)"
| "getOptionalSchema s = s"

section \<open>Partial schemas\<close>

datatype partial_state = Flag bool | Nested "(string \<times> partial_state) list"

definition plain_info :: schema_info where
  "plain_info = \<lparr>optional = False, nullable = False, description = None, alias_name = None\<rparr>"

definition no_object_definitions :: object_definitions where
  "no_object_definitions = \<lparr>def_custom = False, def_types = None, obj_encoded = False, extensible = False, preserve = False,
     obj_default = None, obj_value = None\<rparr>"

definition partial_skips :: "bool \<Rightarrow> partial_state option \<Rightarrow> bool" where
  "partial_skips isInclude st =
     (if isInclude then st = None \<or> st = Some (Flag False) else st = Some (Flag True))"

fun partial_properties_of ::
  "bool \<Rightarrow> (string \<times> partial_state) list \<Rightarrow> bool \<Rightarrow> any_schema \<Rightarrow> any_schema" where
  "partial_properties_of isInclude states ext (ObjectSchema i d identity properties additional) =
     ObjectSchema plain_info (no_object_definitions\<lparr>extensible := ext\<rparr>) (if identity = Some 0 then None else identity)
       (map (\<lambda>p. (fst p, case obj_get states (fst p) of
                            Some (Nested nested) \<Rightarrow> if isObjectSchema (snd p) then partial_properties_of isInclude nested ext (snd p) else snd p
                          | _ \<Rightarrow> snd p))
         (filter (\<lambda>p. \<not> partial_skips isInclude (obj_get states (fst p))) properties)) None"
| "partial_properties_of isInclude states ext s = s"

datatype partial_error = TypeError string

definition getPartialSchema ::
  "any_schema \<Rightarrow> (string \<times> partial_state) list option \<Rightarrow> (string \<times> partial_state) list option \<Rightarrow> bool \<Rightarrow> partial_error + any_schema" where
  "getPartialSchema s incl excl ext =
     (case (incl, excl) of
        (Some _, Some _) \<Rightarrow> Inl (TypeError ''Can't specify include and exclude options together.'')
      | (Some states, None) \<Rightarrow> Inr (partial_properties_of True states ext s)
      | (None, Some states) \<Rightarrow> Inr (partial_properties_of False states ext s)
      | (None, None) \<Rightarrow> Inr (partial_properties_of False [] ext s))"

section \<open>Custom validations\<close>

fun definition_types :: "any_schema \<Rightarrow> string list option" where
  "definition_types (BooleanSchema i d) = def_types d"
| "definition_types (NumberSchema i d f) = def_types d"
| "definition_types (StringSchema i d f) = def_types d"
| "definition_types (ObjectSchema i d identity properties additional) = def_types d"
| "definition_types (ReferenceSchema i d identity) = def_types d"
| "definition_types (UnionSchema i d elements) = def_types d"
| "definition_types (ArraySchema i d element) = def_types d"
| "definition_types (TupleSchema i d elements) = def_types d"
| "definition_types (EnumSchema i d options) = def_types d"

fun collectCustomValidation :: "any_schema \<Rightarrow> string list" where
  "collectCustomValidation (ObjectSchema i d identity properties additional) =
     (case def_types d of None \<Rightarrow> [] | Some ts \<Rightarrow> ts) @ concat (map (\<lambda>p. collectCustomValidation (snd p)) properties)"
| "collectCustomValidation (UnionSchema i d elements) =
     (case def_types d of None \<Rightarrow> [] | Some ts \<Rightarrow> ts) @ concat (map collectCustomValidation elements)"
| "collectCustomValidation (TupleSchema i d elements) =
     (case def_types d of None \<Rightarrow> [] | Some ts \<Rightarrow> ts) @ concat (map collectCustomValidation elements)"
| "collectCustomValidation (ArraySchema i d element) =
     (case def_types d of None \<Rightarrow> [] | Some ts \<Rightarrow> ts) @ collectCustomValidation element"
| "collectCustomValidation s = (case definition_types s of None \<Rightarrow> [] | Some ts \<Rightarrow> ts)"

definition getSchemaCustomValidation :: "any_schema \<Rightarrow> string list" where
  "getSchemaCustomValidation s = set_of_list (collectCustomValidation s)"

section \<open>The property of a schema\<close>

fun literal_value :: "any_schema \<Rightarrow> enum_value option" where
  "literal_value (StringSchema i d f) = map_option StringOption (str_value d)"
| "literal_value (NumberSchema i d f) = (case num_value d of None \<Rightarrow> None | Some n \<Rightarrow> if n = NaN then None else Some (NumberOption n))"
| "literal_value s = None"

text \<open>The literals and the other schemas a property has in the branches of a union, as one schema. Equal
  schemas are taken once.\<close>

definition combine_properties :: "any_schema list \<Rightarrow> any_schema option" where
  "combine_properties found =
     (let scalars = filter (\<lambda>p. literal_value p \<noteq> None) found;
          compounds = set_of_list (filter (\<lambda>p. literal_value p = None) found)
      in if length compounds > 1 then Some (UnionSchema plain_info \<lparr>def_custom = False, def_types = None\<rparr> (scalars @ compounds))
         else if length scalars > 1 then
           Some (EnumSchema plain_info \<lparr>def_custom = False, def_types = None, enum_default = None\<rparr>
             (map (\<lambda>p. \<lparr>option_value = the (literal_value p), option_description = None\<rparr>) scalars))
         else case compounds @ scalars of [] \<Rightarrow> None | p # _ \<Rightarrow> Some p)"

fun getSchemaProperty :: "any_schema \<Rightarrow> string \<Rightarrow> any_schema option" where
  "getSchemaProperty (ObjectSchema i d identity properties additional) name =
     getObjectSchemaProperty (ObjectSchema i d identity properties additional) name"
| "getSchemaProperty (UnionSchema i d elements) name =
     combine_properties (concat (map (\<lambda>s. case getSchemaProperty s name of None \<Rightarrow> [] | Some p \<Rightarrow> [p]) elements))"
| "getSchemaProperty s name = None"

end
