(* ===== verification/Validator.thy ===== *)
theory Validator
  imports Schema_Types
begin

text \<open>
  The validation of a value against a schema: \<open>foundation/validator/src\<close> (\<open>schema/*.ts\<close>,
  \<open>utils/*.ts\<close>, \<open>errors/*.ts\<close>, \<open>types/context.ts\<close>).

  What the code takes from the JavaScript engine and from Node is the record \<open>js_engine\<close>:
  \<open>Number\<close> of a value, the text of a number, and \<open>JSON.parse\<close> of a base64 text, which is \<open>None\<close>
  when it throws. The registered string formats are an argument as well. The references of the
  context are one object that every nested context shares, so they are threaded through the calls.
  Every call of \<open>validateAny\<close> takes a frame of the call stack; \<open>RangeError\<close> is what the engine
  throws when there is none left. The operations take the recursive call as the argument \<open>rec\<close>.
\<close>

section \<open>Engine, context and results\<close>

record js_engine =
  numberOf :: "js_value \<Rightarrow> js_number"
  stringOf :: "js_number \<Rightarrow> string"
  decodeJson :: "string \<Rightarrow> js_value option"

fun num_less :: "js_number \<Rightarrow> js_number \<Rightarrow> bool" where
  "num_less NaN b = False"
| "num_less a NaN = False"
| "num_less PosInfinity b = False"
| "num_less a PosInfinity = True"
| "num_less a NegInfinity = False"
| "num_less NegInfinity (Fin b) = True"
| "num_less (Fin a) (Fin b) = (a < b)"

definition isSafeInteger :: "js_number \<Rightarrow> bool" where
  "isSafeInteger n = (case n of Fin r \<Rightarrow> snd (quotient_of r) = 1 \<and> \<bar>r\<bar> \<le> 2 ^ 53 - 1 | _ \<Rightarrow> False)"

text \<open>The white space of \<open>String.prototype.trim\<close> among the characters of the model.\<close>

definition is_space :: "char \<Rightarrow> bool" where
  "is_space c = ((of_char c :: nat) \<in> {9, 10, 11, 12, 13, 32, 160})"

definition js_trim :: "string \<Rightarrow> string" where
  "js_trim s = rev (dropWhile is_space (rev (dropWhile is_space s)))"

datatype validation_error =
    ValidationError string "string option" js_value "string option"
  | UnexpectedPropertiesError "string list" "string option" js_value
  | ExpectedBooleanTypeError js_value "string option"
  | ExpectedNumberTypeError js_value "string option"
  | ExpectedIntegerTypeError js_value "string option"
  | ExpectedStringTypeError js_value "string option"
  | ExpectedObjectTypeError js_value "string option"
  | ExpectedArrayTypeError js_value "string option"
  | ExpectedTupleTypeError js_value "string option"
  | UnexpectedBooleanError js_value bool "string option"
  | UnexpectedNumberError js_value js_number "string option"
  | UnexpectedMinRangeError js_value js_number "string option"
  | UnexpectedMaxRangeError js_value js_number "string option"
  | UnexpectedStringError js_value string "string option"
  | UnexpectedMinLengthError js_value js_number "string option"
  | UnexpectedMaxLengthError js_value js_number "string option"
  | UnexpectedMinItemsError js_value js_number "string option"
  | UnexpectedMaxItemsError js_value js_number "string option"
  | UnexpectedEnumValueError js_value "js_value list" "string option"
  | FormatError string string string "string option" "string option" js_value

text \<open>What a custom handler throws: a value that is no error, an error of some class, a validation
  error, or several of them as one \<open>AggregateError\<close>.\<close>

datatype thrown =
    ThrownValue string
  | ThrownError string string
  | ThrownValidation validation_error
  | ThrownAggregate string "thrown list"

record validation_context =
  onCustomValidation :: "(js_value \<Rightarrow> any_schema \<Rightarrow> string option \<Rightarrow> string \<Rightarrow> thrown option) option"
  pathStyle :: "naming_style option"
  inputStyle :: "naming_style option"
  vc_property :: "string option"
  cast :: bool
  depth :: "int option"

definition createValidatorContext :: validation_context where
  "createValidatorContext = \<lparr>onCustomValidation = None, pathStyle = None, inputStyle = None, vc_property = None,
     cast = False, depth = None\<rparr>"

datatype schema_error = ReferenceNotFoundError nat "string option" | RangeError

type_synonym references = "nat \<Rightarrow> any_schema option"
type_synonym validation = "schema_error + validation_error list \<times> references"
type_synonym validator = "js_value \<Rightarrow> any_schema \<Rightarrow> validation_context \<Rightarrow> references \<Rightarrow> validation"
type_synonym format_handler = "string \<Rightarrow> any_schema \<Rightarrow> string option \<Rightarrow> validation_error list"

definition deep :: "validation_context \<Rightarrow> bool" where
  "deep ctx = (case depth ctx of None \<Rightarrow> True | Some d \<Rightarrow> d > 0)"

definition nested :: "string option \<Rightarrow> validation_context \<Rightarrow> validation_context" where
  "nested property ctx = ctx\<lparr>vc_property := property, depth := map_option (\<lambda>d. d - 1) (depth ctx)\<rparr>"

text \<open>A loop that awaits one validation after the other and collects their errors.\<close>

fun run_all :: "(references \<Rightarrow> validation) list \<Rightarrow> references \<Rightarrow> validation" where
  "run_all [] refs = Inr ([], refs)"
| "run_all (act # acts) refs =
     (case act refs of
        Inl e \<Rightarrow> Inl e
      | Inr (errs, refs') \<Rightarrow>
          (case run_all acts refs' of Inl e \<Rightarrow> Inl e | Inr (errs2, refs'') \<Rightarrow> Inr (errs @ errs2, refs'')))"

section \<open>Helpers\<close>

definition isNullishAllowed :: "js_value \<Rightarrow> schema_info \<Rightarrow> bool" where
  "isNullishAllowed v i = (v = Null \<and> nullable i \<or> v = Undefined \<and> optional i)"

definition isDefaultAllowed :: "js_value \<Rightarrow> js_value option \<Rightarrow> bool" where
  "isDefaultAllowed v dflt = (v = Undefined \<and> (case dflt of None \<Rightarrow> False | Some x \<Rightarrow> isNotNullish x))"

fun toValidationError :: "string option \<Rightarrow> js_value \<Rightarrow> thrown \<Rightarrow> validation_error" where
  "toValidationError property v (ThrownValue s) = ValidationError s property v None"
| "toValidationError property v (ThrownError c m) = ValidationError m property v (Some c)"
| "toValidationError property v (ThrownValidation e) = e"
| "toValidationError property v (ThrownAggregate m es) = ValidationError m property v (Some ''AggregateError'')"

fun first_some :: "('a \<Rightarrow> 'b option) \<Rightarrow> 'a list \<Rightarrow> 'b option" where
  "first_some f [] = None"
| "first_some f (x # xs) = (case f x of None \<Rightarrow> first_some f xs | Some y \<Rightarrow> Some y)"

definition useCustomValidation :: "js_value \<Rightarrow> any_schema \<Rightarrow> string list option \<Rightarrow> validation_context \<Rightarrow> validation_error list" where
  "useCustomValidation v s types ctx =
     (case (types, onCustomValidation ctx) of
        (Some ts, Some handler) \<Rightarrow>
          (case first_some (handler v s (vc_property ctx)) ts of
             None \<Rightarrow> []
           | Some (ThrownAggregate m es) \<Rightarrow> map (toValidationError (vc_property ctx) v) es
           | Some t \<Rightarrow> [toValidationError (vc_property ctx) v t])
      | _ \<Rightarrow> [])"

definition tryDecodeBase64Json :: "js_engine \<Rightarrow> js_value \<Rightarrow> js_value" where
  "tryDecodeBase64Json E v =
     (case v of Str s \<Rightarrow> (case decodeJson E s of None \<Rightarrow> Undefined | Some x \<Rightarrow> x) | _ \<Rightarrow> v)"

definition below_limit :: "js_number \<Rightarrow> js_number option \<Rightarrow> js_number option" where
  "below_limit n limit = (case limit of None \<Rightarrow> None | Some m \<Rightarrow> if num_less n m then Some m else None)"

definition above_limit :: "js_number \<Rightarrow> js_number option \<Rightarrow> js_number option" where
  "above_limit n limit = (case limit of None \<Rightarrow> None | Some m \<Rightarrow> if num_less m n then Some m else None)"

section \<open>Scalars and enumerations\<close>

definition boolean_input :: "js_value \<Rightarrow> validation_context \<Rightarrow> js_value" where
  "boolean_input v ctx =
     (if \<not> isAnyString v \<or> \<not> cast ctx then v
      else if v = Str ''true'' then Bool True else if v = Str ''false'' then Bool False else v)"

definition validateBoolean ::
  "js_value \<Rightarrow> schema_info \<Rightarrow> boolean_definitions \<Rightarrow> validation_context \<Rightarrow> validation_error list" where
  "validateBoolean v i d ctx =
     (if isNullishAllowed v i \<or> isDefaultAllowed v (map_option Bool (bool_default d)) then []
      else case boolean_input v ctx of
             Bool b \<Rightarrow>
               (case bool_value d of
                  Some x \<Rightarrow> if b \<noteq> x then [UnexpectedBooleanError v x (vc_property ctx)]
                             else useCustomValidation (Bool b) (BooleanSchema i d) (def_types d) ctx
                | None \<Rightarrow> useCustomValidation (Bool b) (BooleanSchema i d) (def_types d) ctx)
           | _ \<Rightarrow> [ExpectedBooleanTypeError v (vc_property ctx)])"

definition number_input :: "js_engine \<Rightarrow> js_value \<Rightarrow> validation_context \<Rightarrow> js_value" where
  "number_input E v ctx = (if isAnyString v \<and> cast ctx then Num (numberOf E v) else v)"

definition number_errors ::
  "js_value \<Rightarrow> js_number \<Rightarrow> schema_info \<Rightarrow> number_definitions \<Rightarrow> string option \<Rightarrow> validation_context \<Rightarrow> validation_error list" where
  "number_errors v n i d format ctx =
     (if format = Some ''integer'' \<and> \<not> isSafeInteger n then [ExpectedIntegerTypeError v (vc_property ctx)]
      else case num_value d of
        Some x \<Rightarrow>
          if x \<noteq> NaN \<and> n \<noteq> x then [UnexpectedNumberError v x (vc_property ctx)]
          else (case below_limit n (minValue d) of
                  Some m \<Rightarrow> [UnexpectedMinRangeError v m (vc_property ctx)]
                | None \<Rightarrow> (case above_limit n (maxValue d) of
                    Some m \<Rightarrow> [UnexpectedMaxRangeError v m (vc_property ctx)]
                  | None \<Rightarrow> useCustomValidation (Num n) (NumberSchema i d format) (def_types d) ctx))
      | None \<Rightarrow>
          (case below_limit n (minValue d) of
             Some m \<Rightarrow> [UnexpectedMinRangeError v m (vc_property ctx)]
           | None \<Rightarrow> (case above_limit n (maxValue d) of
               Some m \<Rightarrow> [UnexpectedMaxRangeError v m (vc_property ctx)]
             | None \<Rightarrow> useCustomValidation (Num n) (NumberSchema i d format) (def_types d) ctx)))"

definition validateNumber ::
  "js_engine \<Rightarrow> js_value \<Rightarrow> schema_info \<Rightarrow> number_definitions \<Rightarrow> string option \<Rightarrow> validation_context \<Rightarrow> validation_error list" where
  "validateNumber E v i d format ctx =
     (if isNullishAllowed v i \<or> isDefaultAllowed v (map_option Num (num_default d)) then []
      else case number_input E v ctx of
             Num n \<Rightarrow> if n = NaN then [ExpectedNumberTypeError v (vc_property ctx)] else number_errors v n i d format ctx
           | _ \<Rightarrow> [ExpectedNumberTypeError v (vc_property ctx)])"

definition string_input :: "js_engine \<Rightarrow> js_value \<Rightarrow> bool \<Rightarrow> validation_context \<Rightarrow> js_value" where
  "string_input E v trimmed ctx =
     (if cast ctx \<and> isAnyNumber v then (case v of Num n \<Rightarrow> Str (stringOf E n) | _ \<Rightarrow> v)
      else if cast ctx \<and> isAnyBoolean v then (case v of Bool b \<Rightarrow> Str (if b then ''true'' else ''false'') | _ \<Rightarrow> v)
      else case v of Str s \<Rightarrow> Str (if trimmed then js_trim s else s) | _ \<Rightarrow> v)"

definition registerStringFormat ::
  "string \<Rightarrow> format_handler \<Rightarrow> (string \<times> format_handler) list \<Rightarrow> string + (string \<times> format_handler) list" where
  "registerStringFormat format handler formats =
     (case obj_get formats format of
        Some _ \<Rightarrow> Inl (''String format '' @ format @ '' is already registered.'')
      | None \<Rightarrow> Inr (obj_set format handler formats))"

definition validateStringFormat ::
  "(string \<times> format_handler) list \<Rightarrow> string \<Rightarrow> any_schema \<Rightarrow> string option \<Rightarrow> string option \<Rightarrow> validation_error list" where
  "validateStringFormat formats value s format property =
     (case format of
        None \<Rightarrow> []
      | Some f \<Rightarrow> if f = [] then [] else (case obj_get formats f of None \<Rightarrow> [] | Some handler \<Rightarrow> handler value s property))"

definition string_errors ::
  "(string \<times> format_handler) list \<Rightarrow> js_value \<Rightarrow> string \<Rightarrow> schema_info \<Rightarrow> string_definitions \<Rightarrow> string option \<Rightarrow>
   validation_context \<Rightarrow> validation_error list" where
  "string_errors formats v text i d format ctx =
     (case below_limit (Fin (of_nat (length text))) (str_minLength d) of
        Some m \<Rightarrow> [UnexpectedMinLengthError v m (vc_property ctx)]
      | None \<Rightarrow> (case above_limit (Fin (of_nat (length text))) (str_maxLength d) of
          Some m \<Rightarrow> [UnexpectedMaxLengthError v m (vc_property ctx)]
        | None \<Rightarrow>
            (case validateStringFormat formats text (StringSchema i d format) format (vc_property ctx) of
               [] \<Rightarrow> useCustomValidation (Str text) (StringSchema i d format) (def_types d) ctx
             | errs \<Rightarrow> errs)))"

text \<open>A literal is compared when it is truthy: the empty string is not.\<close>

definition validateString ::
  "js_engine \<Rightarrow> (string \<times> format_handler) list \<Rightarrow> js_value \<Rightarrow> schema_info \<Rightarrow> string_definitions \<Rightarrow> string option \<Rightarrow>
   validation_context \<Rightarrow> validation_error list" where
  "validateString E formats v i d format ctx =
     (if isNullishAllowed v i \<or> isDefaultAllowed v (map_option Str (str_default d)) then []
      else case string_input E v (trim d) ctx of
             Str text \<Rightarrow>
               (case str_value d of
                  Some x \<Rightarrow> if x \<noteq> [] \<and> text \<noteq> x then [UnexpectedStringError v x (vc_property ctx)]
                             else string_errors formats v text i d format ctx
                | None \<Rightarrow> string_errors formats v text i d format ctx)
           | _ \<Rightarrow> [ExpectedStringTypeError v (vc_property ctx)])"

definition validateEnum ::
  "js_value \<Rightarrow> schema_info \<Rightarrow> enum_definitions \<Rightarrow> enum_option list \<Rightarrow> validation_context \<Rightarrow> validation_error list" where
  "validateEnum v i d options ctx =
     (if isNullishAllowed v i \<or> isDefaultAllowed v (map_option enum_js (enum_default d)) then []
      else if list_ex (\<lambda>x. strict_equal v (enum_js (option_value x))) options
           then useCustomValidation v (EnumSchema i d options) (def_types d) ctx
      else [UnexpectedEnumValueError v (map (\<lambda>x. enum_js (option_value x)) options) (vc_property ctx)])"

section \<open>Arrays, tuples and objects\<close>

definition property_text :: "string option \<Rightarrow> string" where
  "property_text property = (case property of None \<Rightarrow> ''undefined'' | Some p \<Rightarrow> p)"

definition element_property :: "string option \<Rightarrow> nat \<Rightarrow> string" where
  "element_property property index = property_text property @ ''.'' @ digits_of index"

text \<open>The end of a structured validation: its errors, or the custom validation when there are none.\<close>

definition finish_validation ::
  "js_value \<Rightarrow> any_schema \<Rightarrow> string list option \<Rightarrow> validation_context \<Rightarrow> validation_error list \<Rightarrow> validation \<Rightarrow> validation" where
  "finish_validation v s types ctx early result =
     (case result of
        Inl e \<Rightarrow> Inl e
      | Inr (errs, refs) \<Rightarrow>
          (case early @ errs of [] \<Rightarrow> Inr (useCustomValidation v s types ctx, refs) | all \<Rightarrow> Inr (all, refs)))"

definition item_errors :: "js_value \<Rightarrow> nat \<Rightarrow> array_definitions \<Rightarrow> string option \<Rightarrow> validation_error list" where
  "item_errors input n d property =
     (case below_limit (Fin (of_nat n)) (arr_minLength d) of Some m \<Rightarrow> [UnexpectedMinItemsError input m property] | None \<Rightarrow> []) @
     (case above_limit (Fin (of_nat n)) (arr_maxLength d) of Some m \<Rightarrow> [UnexpectedMaxItemsError input m property] | None \<Rightarrow> [])"

definition validateArray ::
  "js_engine \<Rightarrow> validator \<Rightarrow> js_value \<Rightarrow> schema_info \<Rightarrow> array_definitions \<Rightarrow> any_schema \<Rightarrow> validation_context \<Rightarrow>
   references \<Rightarrow> validation" where
  "validateArray E rec v i d element ctx refs =
     (if isNullishAllowed v i \<or> isDefaultAllowed v (arr_default d) then Inr ([], refs)
      else let input = (if arr_encoded d then tryDecodeBase64Json E v else v)
           in case input of
                Arr r xs \<Rightarrow>
                  finish_validation input (ArraySchema i d element) (def_types d) ctx
                    (item_errors input (length xs) d (vc_property ctx))
                    (if deep ctx
                     then run_all (map (\<lambda>(k, x). rec x element (nested (Some (element_property (vc_property ctx) k)) ctx))
                                    (List.enumerate 0 xs)) refs
                     else Inr ([], refs))
              | _ \<Rightarrow> Inr ([ExpectedArrayTypeError input (vc_property ctx)], refs))"

definition validateTuple ::
  "validator \<Rightarrow> js_value \<Rightarrow> schema_info \<Rightarrow> tuple_definitions \<Rightarrow> any_schema list \<Rightarrow> validation_context \<Rightarrow>
   references \<Rightarrow> validation" where
  "validateTuple rec v i d elements ctx refs =
     (if isNullishAllowed v i \<or> isDefaultAllowed v (tuple_default d) then Inr ([], refs)
      else case v of
             Arr r xs \<Rightarrow>
               finish_validation v (TupleSchema i d elements) (def_types d) ctx []
                 (if deep ctx
                  then run_all (map (\<lambda>(k, s). rec (js_elem xs k) s (nested (Some (element_property (vc_property ctx) k)) ctx))
                                 (List.enumerate 0 elements)) refs
                  else Inr ([], refs))
           | _ \<Rightarrow> Inr ([ExpectedTupleTypeError v (vc_property ctx)], refs))"

definition getPropertyPath :: "string \<Rightarrow> string option \<Rightarrow> string" where
  "getPropertyPath child parent = (case parent of None \<Rightarrow> child | Some p \<Rightarrow> if p = [] then child else p @ ''.'' @ child)"

definition path_style :: "validation_context \<Rightarrow> naming_style option" where
  "path_style ctx = (case pathStyle ctx of None \<Rightarrow> inputStyle ctx | Some st \<Rightarrow> Some st)"

definition property_context :: "validation_context \<Rightarrow> string \<Rightarrow> validation_context" where
  "property_context ctx name = (nested (Some (getPropertyPath name (vc_property ctx))) ctx)\<lparr>pathStyle := path_style ctx\<rparr>"

definition validate_properties ::
  "validator \<Rightarrow> (string \<times> js_value) list \<Rightarrow> (string \<times> any_schema) list \<Rightarrow> validation_context \<Rightarrow> references \<Rightarrow> validation" where
  "validate_properties rec fs properties ctx refs =
     (if deep ctx
      then run_all (map (\<lambda>(k, s). rec (js_prop fs (getPropertyName k (inputStyle ctx))) s
                                     (property_context ctx (getPropertyName k (path_style ctx)))) properties) refs
      else Inr ([], refs))"

text \<open>The context the name of an additional property is validated in.\<close>

definition name_context :: validation_context where
  "name_context = createValidatorContext\<lparr>cast := True, depth := Some 1\<rparr>"

text \<open>The loop over the remaining properties: those whose name is not accepted, and the errors of their values.\<close>

fun additional_loop ::
  "validator \<Rightarrow> (string \<times> js_value) list \<Rightarrow> bool \<Rightarrow> any_schema \<Rightarrow> any_schema \<Rightarrow> validation_context \<Rightarrow> string list \<Rightarrow>
   references \<Rightarrow> schema_error + string list \<times> validation_error list \<times> references" where
  "additional_loop rec fs kept nameSchema valueSchema ctx [] refs = Inr ([], [], refs)"
| "additional_loop rec fs kept nameSchema valueSchema ctx (k # ks) refs =
     (case rec (Str k) nameSchema name_context refs of
        Inl e \<Rightarrow> Inl e
      | Inr (nameErrs, refs1) \<Rightarrow>
          (case (if deep ctx
                 then rec (js_prop fs k) valueSchema
                        (property_context ctx (if kept then k else getPropertyName k (path_style ctx))) refs1
                 else Inr ([], refs1)) of
             Inl e \<Rightarrow> Inl e
           | Inr (errs, refs2) \<Rightarrow>
               (case additional_loop rec fs kept nameSchema valueSchema ctx ks refs2 of
                  Inl e \<Rightarrow> Inl e
                | Inr (rest, errs2, refs3) \<Rightarrow> Inr ((if nameErrs = [] then rest else k # rest), errs @ errs2, refs3))))"

definition register :: "any_schema \<Rightarrow> nat option \<Rightarrow> references \<Rightarrow> references" where
  "register s identity refs =
     (case identity of None \<Rightarrow> refs | Some n \<Rightarrow> if n = 0 then refs else refs(n \<mapsto> s))"

definition extra_properties_error ::
  "object_definitions \<Rightarrow> validation_context \<Rightarrow> js_value \<Rightarrow> string list \<Rightarrow> validation_error list" where
  "extra_properties_error d ctx input rest =
     (if extensible d \<or> rest = [] then []
      else [UnexpectedPropertiesError (map (\<lambda>k. if preserve d then k else getPropertyPath k (vc_property ctx)) rest)
              (vc_property ctx) input])"

definition validate_fields ::
  "validator \<Rightarrow> js_value \<Rightarrow> (string \<times> js_value) list \<Rightarrow> object_definitions \<Rightarrow> (string \<times> any_schema) list \<Rightarrow>
   (any_schema \<times> any_schema) option \<Rightarrow> validation_context \<Rightarrow> references \<Rightarrow> validation" where
  "validate_fields rec input fs d properties additional ctx refs =
     (case validate_properties rec fs properties ctx refs of
        Inl e \<Rightarrow> Inl e
      | Inr (errs, refs1) \<Rightarrow>
          let known = map (\<lambda>(k, s). getPropertyName k (inputStyle ctx)) properties;
              extra = filter (\<lambda>k. k \<notin> set known) (obj_keys fs)
          in (case additional of
                None \<Rightarrow> Inr (errs @ extra_properties_error d ctx input extra, refs1)
              | Some (nameSchema, valueSchema) \<Rightarrow>
                  (case additional_loop rec fs (preserve d) nameSchema valueSchema ctx extra refs1 of
                     Inl e \<Rightarrow> Inl e
                   | Inr (rest, errs2, refs2) \<Rightarrow> Inr (errs @ errs2 @ extra_properties_error d ctx input rest, refs2))))"

definition validateObject ::
  "js_engine \<Rightarrow> validator \<Rightarrow> js_value \<Rightarrow> schema_info \<Rightarrow> object_definitions \<Rightarrow> nat option \<Rightarrow> (string \<times> any_schema) list \<Rightarrow>
   (any_schema \<times> any_schema) option \<Rightarrow> validation_context \<Rightarrow> references \<Rightarrow> validation" where
  "validateObject E rec v i d identity properties additional ctx refs =
     (if isNullishAllowed v i \<or> isDefaultAllowed v (obj_default d) then Inr ([], refs)
      else let refs' = register (ObjectSchema i d identity properties additional) identity refs;
               input = (if obj_encoded d then tryDecodeBase64Json E v else v)
           in case input of
                Obj r plain fs \<Rightarrow>
                  finish_validation input (ObjectSchema i d identity properties additional) (def_types d) ctx []
                    (validate_fields rec input fs d properties additional ctx refs')
              | _ \<Rightarrow> Inr ([ExpectedObjectTypeError input (vc_property ctx)], refs'))"

section \<open>Unions\<close>

fun isPlainObjectSchema :: "any_schema \<Rightarrow> bool" where
  "isPlainObjectSchema (ObjectSchema i d identity properties additional) = (\<not> optional i \<and> \<not> nullable i)"
| "isPlainObjectSchema s = False"

fun schema_properties :: "any_schema \<Rightarrow> (string \<times> any_schema) list" where
  "schema_properties (ObjectSchema i d identity properties additional) = properties"
| "schema_properties s = []"

fun literal_of :: "any_schema \<Rightarrow> js_value option" where
  "literal_of (EnumSchema i d options) = (case options of [x] \<Rightarrow> Some (enum_js (option_value x)) | _ \<Rightarrow> None)"
| "literal_of (StringSchema i d f) = map_option Str (str_value d)"
| "literal_of (NumberSchema i d f) = map_option Num (num_value d)"
| "literal_of (BooleanSchema i d) = map_option Bool (bool_value d)"
| "literal_of s = None"

definition getLiteral :: "any_schema \<Rightarrow> js_value option" where
  "getLiteral s = (if optional (info s) \<or> nullable (info s) then None else literal_of s)"

definition property_schema :: "any_schema \<Rightarrow> string \<Rightarrow> any_schema" where
  "property_schema s k = the (obj_get (schema_properties s) k)"

definition shared_keys :: "any_schema list \<Rightarrow> string list" where
  "shared_keys elements =
     (case elements of [] \<Rightarrow> []
      | s # _ \<Rightarrow> filter (\<lambda>k. list_all (\<lambda>t. obj_get (schema_properties t) k \<noteq> None) elements) (obj_keys (schema_properties s)))"

definition shared_literals :: "any_schema list \<Rightarrow> string \<Rightarrow> js_value list option" where
  "shared_literals elements k =
     (let literals = map (\<lambda>s. getLiteral (property_schema s k)) elements
      in if list_all (\<lambda>l. l \<noteq> None) literals \<and> length (set_of_list literals) > 1 then Some (map the literals) else None)"

lemma first_some_cong [fundef_cong]:
  "xs = ys \<Longrightarrow> (\<And>x. x \<in> set ys \<Longrightarrow> f x = g x) \<Longrightarrow> first_some f xs = first_some g ys"
  by (induction ys arbitrary: xs) (auto split: option.split)

lemma property_schema_size:
  assumes "obj_get (schema_properties s) k \<noteq> None"
  shows "size (property_schema s k) < size s"
proof (cases s)
  case (ObjectSchema i d identity properties additional)
  from assms ObjectSchema obtain t where t: "obj_get properties k = Some t" by auto
  then have "(k, t) \<in> set properties" by (auto simp: obj_get_def dest: map_of_SomeD)
  then have "size_prod (\<lambda>_. 0) size (k, t) \<le> size_list (size_prod (\<lambda>_. 0) size) properties"
    by (rule size_list_estimation') simp
  with t ObjectSchema show ?thesis by (simp add: property_schema_def)
qed (use assms in auto)

lemma shared_keys_size:
  assumes "k \<in> set (shared_keys elements)"
  shows "sum_list (map (\<lambda>s. size (property_schema s k)) elements) < sum_list (map size elements)"
proof -
  from assms obtain s rest where e: "elements = s # rest" by (cases elements) (auto simp: shared_keys_def)
  have all: "size (property_schema t k) < size t" if "t \<in> set elements" for t
    using assms that by (intro property_schema_size) (auto simp: shared_keys_def list_all_iff split: list.splits)
  then have "sum_list (map (\<lambda>s. size (property_schema s k)) rest) \<le> sum_list (map size rest)"
    unfolding e by (intro sum_list_mono) (auto intro: less_imp_le)
  moreover have "size (property_schema s k) < size s" using all e by simp
  ultimately show ?thesis unfolding e by simp
qed

text \<open>The path of a discriminator and its literal in every branch.\<close>

function findDiscriminator :: "any_schema list \<Rightarrow> string list \<Rightarrow> (string list \<times> js_value list) option" where
  "findDiscriminator elements path =
     (if length elements < 2 \<or> \<not> list_all isPlainObjectSchema elements then None
      else case first_some (\<lambda>k. map_option (\<lambda>ls. (path @ [k], ls)) (shared_literals elements k)) (shared_keys elements) of
             Some found \<Rightarrow> Some found
           | None \<Rightarrow> first_some (\<lambda>k. findDiscriminator (map (\<lambda>s. property_schema s k) elements) (path @ [k])) (shared_keys elements))"
  by pat_completeness auto
termination
  by (relation "measure (\<lambda>(elements, path). sum_list (map size elements))") (auto simp: comp_def shared_keys_size)

declare findDiscriminator.simps [simp del]

fun readPath :: "js_value \<Rightarrow> string list \<Rightarrow> naming_style option \<Rightarrow> js_value option" where
  "readPath v [] style = Some v"
| "readPath v (k # ks) style =
     (case v of Obj r plain fs \<Rightarrow> readPath (js_prop fs (getPropertyName k style)) ks style | _ \<Rightarrow> None)"

definition literal_option :: "js_value \<Rightarrow> js_value" where
  "literal_option l = (case l of Bool b \<Rightarrow> Str (if b then ''true'' else ''false'') | _ \<Rightarrow> l)"

definition discriminator_property :: "validation_context \<Rightarrow> string list \<Rightarrow> string" where
  "discriminator_property ctx path =
     join ''.'' (filter (\<lambda>p. p \<noteq> []) ((case vc_property ctx of None \<Rightarrow> [] | Some p \<Rightarrow> [p]) @
       map (\<lambda>k. getPropertyName k (path_style ctx)) path))"

definition matching :: "any_schema list \<Rightarrow> js_value list \<Rightarrow> js_value \<Rightarrow> any_schema list" where
  "matching elements literals v = map fst (filter (\<lambda>(s, l). strict_equal l v) (zip elements literals))"

text \<open>Every discriminator has as many literals as branches, and at least two of them differ.\<close>

definition primitive :: "js_value \<Rightarrow> bool" where
  "primitive v = (case v of Bool b \<Rightarrow> True | Num n \<Rightarrow> True | Str s \<Rightarrow> True | _ \<Rightarrow> False)"

lemma getLiteral_primitive: "getLiteral s = Some l \<Longrightarrow> primitive l"
proof (cases s)
  case (EnumSchema i d options)
  assume "getLiteral s = Some l"
  with EnumSchema have "\<exists>x. l = enum_js x"
    by (auto simp: getLiteral_def split: if_splits list.splits)
  then obtain x where "l = enum_js x" ..
  then show ?thesis by (cases x) (auto simp: primitive_def)
qed (auto simp: getLiteral_def primitive_def split: if_splits)

lemma shared_literals_result:
  assumes "shared_literals elements k = Some ls"
  shows "length ls = length elements \<and> (\<exists>a \<in> set ls. \<exists>b \<in> set ls. a \<noteq> b) \<and> list_all primitive ls \<and>
    list_all (\<lambda>(s, l). getLiteral (property_schema s k) = Some l) (zip elements ls)"
proof -
  let ?opt = "map (\<lambda>s. getLiteral (property_schema s k)) elements"
  from assms have all: "list_all (\<lambda>l. l \<noteq> None) ?opt" and more: "length (set_of_list ?opt) > 1" and ls: "ls = map the ?opt"
    by (auto simp: shared_literals_def Let_def split: if_splits)
  have some: "?opt = map Some ls" using all by (auto simp: ls list_all_iff intro!: map_cong)
  from more obtain x y zs where "set_of_list ?opt = x # y # zs" by (cases "set_of_list ?opt"; cases "tl (set_of_list ?opt)") auto
  then have "x \<noteq> y" "x \<in> set ?opt" "y \<in> set ?opt"
    using distinct_set_of_list [of ?opt] set_set_of_list [of ?opt] by auto
  then have "\<exists>a \<in> set ls. \<exists>b \<in> set ls. a \<noteq> b" unfolding some by auto
  moreover have "list_all (\<lambda>(s, l). getLiteral (property_schema s k) = Some l) (zip elements ls)"
    using some by (auto simp: list_all_iff set_zip list_eq_iff_nth_eq)
  moreover have "list_all primitive ls"
  proof (unfold list_all_iff, rule ballI)
    fix l assume "l \<in> set ls"
    then have "Some l \<in> set ?opt" unfolding some by simp
    then obtain s where "getLiteral (property_schema s k) = Some l" by auto
    then show "primitive l" by (rule getLiteral_primitive)
  qed
  ultimately show ?thesis by (simp add: ls)
qed

lemma first_some_result: "first_some f xs = Some y \<Longrightarrow> \<exists>x \<in> set xs. f x = Some y"
  by (induction xs) (auto split: option.splits)

lemma findDiscriminator_literals:
  assumes "findDiscriminator elements path = Some (p, ls)"
  shows "length ls = length elements \<and> (\<exists>a \<in> set ls. \<exists>b \<in> set ls. a \<noteq> b) \<and> list_all primitive ls"
  using assms
proof (induction elements path arbitrary: p ls rule: findDiscriminator.induct)
  case (1 elements path)
  show ?case
  proof (cases "first_some (\<lambda>k. map_option (\<lambda>ls. (path @ [k], ls)) (shared_literals elements k)) (shared_keys elements)")
    case None
    with "1.prems" have guard: "\<not> (length elements < 2 \<or> \<not> list_all isPlainObjectSchema elements)"
      and found: "first_some (\<lambda>k. findDiscriminator (map (\<lambda>s. property_schema s k) elements) (path @ [k])) (shared_keys elements) = Some (p, ls)"
      by (auto simp: findDiscriminator.simps [of elements path] split: if_splits)
    from first_some_result [OF found] obtain k where "k \<in> set (shared_keys elements)"
      "findDiscriminator (map (\<lambda>s. property_schema s k) elements) (path @ [k]) = Some (p, ls)" by blast
    from "1.IH" [OF guard None this] show ?thesis by simp
  next
    case (Some r)
    with "1.prems" have "r = (p, ls)" by (auto simp: findDiscriminator.simps [of elements path] split: if_splits)
    with first_some_result [OF Some] obtain k where "shared_literals elements k = Some ls" by auto
    from shared_literals_result [OF this] show ?thesis by simp
  qed
qed

lemma matching_shorter:
  assumes "findDiscriminator elements [] = Some (p, ls)"
  shows "length (matching elements ls v) < length elements"
proof -
  from findDiscriminator_literals [OF assms] obtain a b where ls: "length ls = length elements" "a \<in> set ls" "b \<in> set ls" "a \<noteq> b"
    "primitive a" "primitive b" by (auto simp: list_all_iff)
  then have "\<not> strict_equal a v \<or> \<not> strict_equal b v"
    by (cases v; cases a; cases b) (auto simp: primitive_def)
  then obtain l where l: "l \<in> set ls" "\<not> strict_equal l v" using ls by blast
  then obtain j where j: "j < length ls" "ls ! j = l" by (auto simp: in_set_conv_nth)
  then have "(elements ! j, l) \<in> set (zip elements ls)" using ls(1) by (auto simp: set_zip)
  then have "length (filter (\<lambda>(s, l). strict_equal l v) (zip elements ls)) < length (zip elements ls)"
    using l(2) by (intro length_filter_less) auto
  then show ?thesis using ls(1) by (simp add: matching_def)
qed

function narrowByDiscriminators :: "js_value \<Rightarrow> any_schema list \<Rightarrow> validation_context \<Rightarrow> validation_error + any_schema list" where
  "narrowByDiscriminators v elements ctx =
     (case findDiscriminator elements [] of
        None \<Rightarrow> Inr elements
      | Some (path, literals) \<Rightarrow>
          (case readPath v path (inputStyle ctx) of
             None \<Rightarrow> Inr elements
           | Some x \<Rightarrow>
               if matching elements literals x = []
               then Inl (UnexpectedEnumValueError x (map literal_option (set_of_list literals))
                      (Some (discriminator_property ctx path)))
               else narrowByDiscriminators v (matching elements literals x) ctx))"
  by pat_completeness auto
termination
  by (relation "measure (\<lambda>(v, elements, ctx). length elements)") (auto simp: matching_shorter)

declare narrowByDiscriminators.simps [simp del]

section \<open>Messages\<close>

definition for_property :: "string \<Rightarrow> string option \<Rightarrow> string" where
  "for_property text property =
     (case property of None \<Rightarrow> text @ '' is expected.''
      | Some p \<Rightarrow> if p = [] then text @ '' is expected.'' else text @ '' for ['' @ p @ ''] is expected.'')"

definition value_message :: "string \<Rightarrow> string option \<Rightarrow> string" where
  "value_message formatted property = for_property (''Value '' @ formatted) property"

definition type_message :: "string \<Rightarrow> string option \<Rightarrow> string" where
  "type_message name property = for_property (''Type '' @ name) property"

definition properties_message :: "string list \<Rightarrow> string" where
  "properties_message names =
     (case names of
        [n] \<Rightarrow> ''Property ['' @ n @ ''] is not expected.''
      | _ \<Rightarrow> if length names < 15 then ''Properties ['' @ join '', '' names @ ''] are not expected.''
             else ''Remove all unexpected properties.'')"

definition format_message :: "string \<Rightarrow> string \<Rightarrow> string option \<Rightarrow> string option \<Rightarrow> string" where
  "format_message typeName formatName hint property =
     (case (property, hint) of
        (Some p, Some h) \<Rightarrow>
          if p \<noteq> [] \<and> h \<noteq> []
          then ''Type '' @ typeName @ '' with format '' @ formatName @ '' ('' @ h @ '') for ['' @ p @ ''] is expected.''
          else for_property (''Type '' @ typeName @ '' with format '' @ formatName) property
      | _ \<Rightarrow> for_property (''Type '' @ typeName @ '' with format '' @ formatName) property)"

definition quoted :: "string \<Rightarrow> string" where
  "quoted s = [CHR 39] @ s @ [CHR 39]"

fun getEnumOptions :: "js_engine \<Rightarrow> js_value \<Rightarrow> string" where
  "getEnumOptions E (Num n) = stringOf E n"
| "getEnumOptions E (Str s) = quoted s"
| "getEnumOptions E v = []"

fun message :: "js_engine \<Rightarrow> validation_error \<Rightarrow> string" where
  "message E (ValidationError m p v c) = m"
| "message E (UnexpectedPropertiesError names p v) = properties_message names"
| "message E (ExpectedBooleanTypeError v p) = type_message ''boolean'' p"
| "message E (ExpectedNumberTypeError v p) = type_message ''number'' p"
| "message E (ExpectedIntegerTypeError v p) = type_message ''integer'' p"
| "message E (ExpectedStringTypeError v p) = type_message ''string'' p"
| "message E (ExpectedObjectTypeError v p) = type_message ''object'' p"
| "message E (ExpectedArrayTypeError v p) = type_message ''array'' p"
| "message E (ExpectedTupleTypeError v p) = type_message ''tuple'' p"
| "message E (UnexpectedBooleanError v x p) = value_message (if x then ''true'' else ''false'') p"
| "message E (UnexpectedNumberError v x p) = value_message (stringOf E x) p"
| "message E (UnexpectedMinRangeError v m p) = value_message (''with min '' @ stringOf E m) p"
| "message E (UnexpectedMaxRangeError v m p) = value_message (''with max '' @ stringOf E m) p"
| "message E (UnexpectedStringError v x p) = value_message (quoted x) p"
| "message E (UnexpectedMinLengthError v m p) = value_message (''with min length ('' @ stringOf E m @ '')'') p"
| "message E (UnexpectedMaxLengthError v m p) = value_message (''with max length ('' @ stringOf E m @ '')'') p"
| "message E (UnexpectedMinItemsError v m p) = value_message (''with min '' @ stringOf E m @ '' item(s)'') p"
| "message E (UnexpectedMaxItemsError v m p) = value_message (''with max '' @ stringOf E m @ '' item(s)'') p"
| "message E (UnexpectedEnumValueError v options p) = value_message (join '', '' (map (getEnumOptions E) options)) p"
| "message E (FormatError c t f h p v) = format_message t f h p"

fun class_name :: "validation_error \<Rightarrow> string" where
  "class_name (ValidationError m p v c) = ''ValidationError''"
| "class_name (UnexpectedPropertiesError names p v) = ''UnexpectedPropertiesError''"
| "class_name (ExpectedBooleanTypeError v p) = ''ExpectedBooleanTypeError''"
| "class_name (ExpectedNumberTypeError v p) = ''ExpectedNumberTypeError''"
| "class_name (ExpectedIntegerTypeError v p) = ''ExpectedIntegerTypeError''"
| "class_name (ExpectedStringTypeError v p) = ''ExpectedStringTypeError''"
| "class_name (ExpectedObjectTypeError v p) = ''ExpectedObjectTypeError''"
| "class_name (ExpectedArrayTypeError v p) = ''ExpectedArrayTypeError''"
| "class_name (ExpectedTupleTypeError v p) = ''ExpectedTupleTypeError''"
| "class_name (UnexpectedBooleanError v x p) = ''UnexpectedBooleanError''"
| "class_name (UnexpectedNumberError v x p) = ''UnexpectedNumberError''"
| "class_name (UnexpectedMinRangeError v m p) = ''UnexpectedMinRangeError''"
| "class_name (UnexpectedMaxRangeError v m p) = ''UnexpectedMaxRangeError''"
| "class_name (UnexpectedStringError v x p) = ''UnexpectedStringError''"
| "class_name (UnexpectedMinLengthError v m p) = ''UnexpectedMinLengthError''"
| "class_name (UnexpectedMaxLengthError v m p) = ''UnexpectedMaxLengthError''"
| "class_name (UnexpectedMinItemsError v m p) = ''UnexpectedMinItemsError''"
| "class_name (UnexpectedMaxItemsError v m p) = ''UnexpectedMaxItemsError''"
| "class_name (UnexpectedEnumValueError v options p) = ''UnexpectedEnumValueError''"
| "class_name (FormatError c t f h p v) = c"

definition isSameError :: "js_engine \<Rightarrow> validation_error \<Rightarrow> validation_error \<Rightarrow> bool" where
  "isSameError E a b = (class_name a = class_name b \<and> message E a = message E b)"

section \<open>Unions and the dispatch\<close>

text \<open>The loop over the branches, with the shortest list of errors so far; its length starts infinite.\<close>

fun union_loop ::
  "js_engine \<Rightarrow> validator \<Rightarrow> js_value \<Rightarrow> validation_context \<Rightarrow> validation_error list \<Rightarrow> any_schema list \<Rightarrow>
   validation_error list \<Rightarrow> nat option \<Rightarrow> references \<Rightarrow> validation" where
  "union_loop E rec v ctx matched [] lastErrors lastSize refs = Inr (lastErrors, refs)"
| "union_loop E rec v ctx matched (s # ss) lastErrors lastSize refs =
     (case rec v s ctx refs of
        Inl e \<Rightarrow> Inl e
      | Inr (errs, refs') \<Rightarrow>
          if errs = [] then Inr (matched, refs')
          else if lastSize = Some (length errs)
          then union_loop E rec v ctx matched ss
                 (lastErrors @ filter (\<lambda>e. \<not> list_ex (\<lambda>l. isSameError E l e) lastErrors) errs) lastSize refs'
          else if (case lastSize of None \<Rightarrow> True | Some n \<Rightarrow> n > length errs)
          then union_loop E rec v ctx matched ss errs (Some (length errs)) refs'
          else union_loop E rec v ctx matched ss lastErrors lastSize refs')"

definition validateUnion ::
  "js_engine \<Rightarrow> validator \<Rightarrow> js_value \<Rightarrow> schema_info \<Rightarrow> schema_definitions \<Rightarrow> any_schema list \<Rightarrow> validation_context \<Rightarrow>
   references \<Rightarrow> validation" where
  "validateUnion E rec v i d elements ctx refs =
     (if isNullishAllowed v i then Inr ([], refs)
      else case narrowByDiscriminators v elements ctx of
             Inl e \<Rightarrow> Inr ([e], refs)
           | Inr narrowed \<Rightarrow>
               union_loop E rec v ctx (useCustomValidation v (UnionSchema i d elements) (def_types d) ctx) narrowed [] None refs)"

definition validateReference ::
  "js_engine \<Rightarrow> validator \<Rightarrow> js_value \<Rightarrow> schema_info \<Rightarrow> nat \<Rightarrow> validation_context \<Rightarrow> references \<Rightarrow> validation" where
  "validateReference E rec v i identity ctx refs =
     (if isNullishAllowed v i then Inr ([], refs)
      else case refs identity of
             Some (ObjectSchema i' d identity' properties additional) \<Rightarrow>
               validateObject E rec v i' d identity' properties additional ctx refs
           | _ \<Rightarrow> Inl (ReferenceNotFoundError identity (vc_property ctx)))"

definition validateScalar ::
  "js_engine \<Rightarrow> (string \<times> format_handler) list \<Rightarrow> js_value \<Rightarrow> any_schema \<Rightarrow> validation_context \<Rightarrow> validation_error list" where
  "validateScalar E formats v s ctx =
     (case s of
        BooleanSchema i d \<Rightarrow> validateBoolean v i d ctx
      | NumberSchema i d format \<Rightarrow> validateNumber E v i d format ctx
      | StringSchema i d format \<Rightarrow> validateString E formats v i d format ctx
      | _ \<Rightarrow> [])"

primrec validateAny :: "js_engine \<Rightarrow> (string \<times> format_handler) list \<Rightarrow> nat \<Rightarrow> validator" where
  "validateAny E formats 0 = (\<lambda>v s ctx refs. Inl RangeError)"
| "validateAny E formats (Suc stack) = (\<lambda>v s ctx refs.
     (case s of
        ObjectSchema i d identity properties additional \<Rightarrow>
          validateObject E (validateAny E formats stack) v i d identity properties additional ctx refs
      | ReferenceSchema i d identity \<Rightarrow> validateReference E (validateAny E formats stack) v i identity ctx refs
      | UnionSchema i d elements \<Rightarrow> validateUnion E (validateAny E formats stack) v i d elements ctx refs
      | ArraySchema i d element \<Rightarrow> validateArray E (validateAny E formats stack) v i d element ctx refs
      | TupleSchema i d elements \<Rightarrow> validateTuple (validateAny E formats stack) v i d elements ctx refs
      | EnumSchema i d options \<Rightarrow> Inr (validateEnum v i d options ctx, refs)
      | _ \<Rightarrow> Inr (validateScalar E formats v s ctx, refs)))"

section \<open>Error details\<close>

record expected_details =
  expected_value :: "js_value list option"
  expected_format :: "string option"
  expected_type :: "string option"

record error_details =
  detail_code :: string
  detail_path :: "string option"
  detail_message :: string
  detail_properties :: "string list option"
  detail_input :: js_value
  detail_expected :: "expected_details option"

text \<open>
  The input an error carries. \<open>UnexpectedNumberError\<close> passes its input where the expected value
  belongs. A single expected value is a list of one.
\<close>

fun error_path :: "validation_error \<Rightarrow> string option" where
  "error_path (ValidationError m p v c) = p"
| "error_path (UnexpectedPropertiesError names p v) = p"
| "error_path (ExpectedBooleanTypeError v p) = p"
| "error_path (ExpectedNumberTypeError v p) = p"
| "error_path (ExpectedIntegerTypeError v p) = p"
| "error_path (ExpectedStringTypeError v p) = p"
| "error_path (ExpectedObjectTypeError v p) = p"
| "error_path (ExpectedArrayTypeError v p) = p"
| "error_path (ExpectedTupleTypeError v p) = p"
| "error_path (UnexpectedBooleanError v x p) = p"
| "error_path (UnexpectedNumberError v x p) = p"
| "error_path (UnexpectedMinRangeError v m p) = p"
| "error_path (UnexpectedMaxRangeError v m p) = p"
| "error_path (UnexpectedStringError v x p) = p"
| "error_path (UnexpectedMinLengthError v m p) = p"
| "error_path (UnexpectedMaxLengthError v m p) = p"
| "error_path (UnexpectedMinItemsError v m p) = p"
| "error_path (UnexpectedMaxItemsError v m p) = p"
| "error_path (UnexpectedEnumValueError v options p) = p"
| "error_path (FormatError c t f h p v) = p"

fun error_input :: "validation_error \<Rightarrow> js_value" where
  "error_input (ValidationError m p v c) = v"
| "error_input (UnexpectedPropertiesError names p v) = v"
| "error_input (ExpectedBooleanTypeError v p) = v"
| "error_input (ExpectedNumberTypeError v p) = v"
| "error_input (ExpectedIntegerTypeError v p) = v"
| "error_input (ExpectedStringTypeError v p) = v"
| "error_input (ExpectedObjectTypeError v p) = v"
| "error_input (ExpectedArrayTypeError v p) = v"
| "error_input (ExpectedTupleTypeError v p) = v"
| "error_input (UnexpectedBooleanError v x p) = v"
| "error_input (UnexpectedNumberError v x p) = Undefined"
| "error_input (UnexpectedMinRangeError v m p) = v"
| "error_input (UnexpectedMaxRangeError v m p) = v"
| "error_input (UnexpectedStringError v x p) = v"
| "error_input (UnexpectedMinLengthError v m p) = v"
| "error_input (UnexpectedMaxLengthError v m p) = v"
| "error_input (UnexpectedMinItemsError v m p) = v"
| "error_input (UnexpectedMaxItemsError v m p) = v"
| "error_input (UnexpectedEnumValueError v options p) = v"
| "error_input (FormatError c t f h p v) = v"

definition expects_type :: "string \<Rightarrow> expected_details option" where
  "expects_type t = Some \<lparr>expected_value = None, expected_format = None, expected_type = Some t\<rparr>"

definition expects_values :: "js_value list \<Rightarrow> expected_details option" where
  "expects_values vs = Some \<lparr>expected_value = Some vs, expected_format = None, expected_type = None\<rparr>"

fun error_expected :: "validation_error \<Rightarrow> expected_details option" where
  "error_expected (ExpectedBooleanTypeError v p) = expects_type ''boolean''"
| "error_expected (ExpectedNumberTypeError v p) = expects_type ''number''"
| "error_expected (ExpectedIntegerTypeError v p) = expects_type ''integer''"
| "error_expected (ExpectedStringTypeError v p) = expects_type ''string''"
| "error_expected (ExpectedObjectTypeError v p) = expects_type ''object''"
| "error_expected (ExpectedArrayTypeError v p) = expects_type ''array''"
| "error_expected (ExpectedTupleTypeError v p) = expects_type ''tuple''"
| "error_expected (UnexpectedBooleanError v x p) = expects_values [Bool x]"
| "error_expected (UnexpectedNumberError v x p) = expects_values [v]"
| "error_expected (UnexpectedMinRangeError v m p) = expects_values [Num m]"
| "error_expected (UnexpectedMaxRangeError v m p) = expects_values [Num m]"
| "error_expected (UnexpectedStringError v x p) = expects_values [Str x]"
| "error_expected (UnexpectedMinLengthError v m p) = expects_values [Num m]"
| "error_expected (UnexpectedMaxLengthError v m p) = expects_values [Num m]"
| "error_expected (UnexpectedMinItemsError v m p) = expects_values [Num m]"
| "error_expected (UnexpectedMaxItemsError v m p) = expects_values [Num m]"
| "error_expected (UnexpectedEnumValueError v options p) = expects_values options"
| "error_expected (FormatError c t f h p v) = Some \<lparr>expected_value = None, expected_format = Some f, expected_type = Some t\<rparr>"
| "error_expected e = None"

definition error_code :: "validation_error \<Rightarrow> string" where
  "error_code e = (case e of ValidationError m p v (Some c) \<Rightarrow> c | _ \<Rightarrow> class_name e)"

definition details_of :: "js_engine \<Rightarrow> validation_error \<Rightarrow> error_details" where
  "details_of E e =
     \<lparr>detail_code = error_code e, detail_path = error_path e, detail_message = message E e,
      detail_properties = (case e of UnexpectedPropertiesError names p v \<Rightarrow> Some names | _ \<Rightarrow> None),
      detail_input = error_input e, detail_expected = error_expected e\<rparr>"

fun details_from :: "js_engine \<Rightarrow> string list \<Rightarrow> validation_error list \<Rightarrow> error_details list" where
  "details_from E seen [] = []"
| "details_from E seen (e # es) =
     (if message E e \<in> set seen then details_from E seen es
      else details_of E e # details_from E (seen @ [message E e]) es)"

definition getErrorDetails :: "js_engine \<Rightarrow> validation_error list \<Rightarrow> error_details list" where
  "getErrorDetails E errs = details_from E [] errs"

lemma details_from_messages:
  "distinct (map detail_message (details_from E seen errs)) \<and>
   set (map detail_message (details_from E seen errs)) = message E ` set errs - set seen \<and>
   set (map detail_message (details_from E seen errs)) \<inter> set seen = {}"
proof (induction errs arbitrary: seen)
  case (Cons e errs)
  then show ?case
    using Cons.IH [of seen] Cons.IH [of "seen @ [message E e]"] by (auto simp: details_of_def)
qed simp

text \<open>
  The details report every message of an error list once, and an empty list exactly for no error.
\<close>

theorem details_report_each_message_once:
  "distinct (map detail_message (getErrorDetails E errs)) \<and>
   set (map detail_message (getErrorDetails E errs)) = message E ` set errs \<and>
   (getErrorDetails E errs = [] \<longleftrightarrow> errs = [])"
proof -
  note d = details_from_messages [of E "[]" errs]
  have "getErrorDetails E errs = [] \<longleftrightarrow> errs = []" by (cases errs) (simp_all add: getErrorDetails_def)
  with d show ?thesis by (simp add: getErrorDetails_def)
qed

end
