(* ===== verification/Validator_Spec.thy ===== *)
theory Validator_Spec
  imports Validator
begin

text \<open>
  What it means for a value to conform to a schema, without error lists, paths, references or the
  narrowing of unions, and that the validator reports no error exactly for the values that conform.
\<close>

section \<open>Conforming values\<close>

definition absent_ok :: "js_value \<Rightarrow> schema_info \<Rightarrow> js_value option \<Rightarrow> bool" where
  "absent_ok v i dflt = (isNullishAllowed v i \<or> isDefaultAllowed v dflt)"

definition in_range :: "js_number \<Rightarrow> js_number option \<Rightarrow> js_number option \<Rightarrow> bool" where
  "in_range n low high = (below_limit n low = None \<and> above_limit n high = None)"

fun boolean_ok :: "boolean_definitions \<Rightarrow> js_value \<Rightarrow> bool" where
  "boolean_ok d (Bool b) = (case bool_value d of None \<Rightarrow> True | Some x \<Rightarrow> b = x)"
| "boolean_ok d v = False"

fun number_ok :: "number_definitions \<Rightarrow> string option \<Rightarrow> js_value \<Rightarrow> bool" where
  "number_ok d format (Num n) =
     (n \<noteq> NaN \<and> (format = Some ''integer'' \<longrightarrow> isSafeInteger n) \<and>
      (case num_value d of None \<Rightarrow> True | Some x \<Rightarrow> x = NaN \<or> n = x) \<and> in_range n (minValue d) (maxValue d))"
| "number_ok d format v = False"

fun string_ok :: "(string \<times> format_handler) list \<Rightarrow> schema_info \<Rightarrow> string_definitions \<Rightarrow> string option \<Rightarrow> string option \<Rightarrow> js_value \<Rightarrow> bool" where
  "string_ok formats i d format property (Str text) =
     ((case str_value d of None \<Rightarrow> True | Some x \<Rightarrow> x = [] \<or> text = x) \<and>
      in_range (Fin (of_nat (length text))) (str_minLength d) (str_maxLength d) \<and>
      validateStringFormat formats text (StringSchema i d format) format property = [])"
| "string_ok formats i d format property v = False"

text \<open>A format handler decides on the text and the definitions, whatever the path it reports.\<close>

definition formats_ok :: "(string \<times> format_handler) list \<Rightarrow> bool" where
  "formats_ok formats = (\<forall>(f, handler) \<in> set formats. \<forall>text i j d fmt p q.
     handler text (StringSchema i d fmt) p = [] \<longleftrightarrow> handler text (StringSchema j d fmt) q = [])"

definition casting :: "bool \<Rightarrow> validation_context" where
  "casting c = createValidatorContext\<lparr>cast := c\<rparr>"

definition decoded :: "js_engine \<Rightarrow> bool \<Rightarrow> js_value \<Rightarrow> js_value" where
  "decoded E encoded v = (if encoded then tryDecodeBase64Json E v else v)"

definition extra_keys :: "naming_style option \<Rightarrow> (string \<times> any_schema) list \<Rightarrow> (string \<times> js_value) list \<Rightarrow> string list" where
  "extra_keys st properties fs = filter (\<lambda>k. k \<notin> set (map (\<lambda>(k, s). getPropertyName k st) properties)) (obj_keys fs)"

function conforms ::
  "js_engine \<Rightarrow> (string \<times> format_handler) list \<Rightarrow> bool \<Rightarrow> naming_style option \<Rightarrow> any_schema \<Rightarrow> js_value \<Rightarrow> bool" where
  "conforms E F c st (BooleanSchema i d) v =
     (absent_ok v i (map_option Bool (bool_default d)) \<or> boolean_ok d (boolean_input v (casting c)))"
| "conforms E F c st (NumberSchema i d format) v =
     (absent_ok v i (map_option Num (num_default d)) \<or> number_ok d format (number_input E v (casting c)))"
| "conforms E F c st (StringSchema i d format) v =
     (absent_ok v i (map_option Str (str_default d)) \<or> string_ok F i d format None (string_input E v (trim d) (casting c)))"
| "conforms E F c st (EnumSchema i d options) v =
     (absent_ok v i (map_option enum_js (enum_default d)) \<or> list_ex (\<lambda>x. strict_equal v (enum_js (option_value x))) options)"
| "conforms E F c st (ReferenceSchema i d identity) v = False"
| "conforms E F c st (UnionSchema i d elements) v =
     (isNullishAllowed v i \<or> elements = [] \<or> list_ex (\<lambda>s. conforms E F c st s v) elements)"
| "conforms E F c st (ArraySchema i d element) v =
     (absent_ok v i (arr_default d) \<or>
      (case decoded E (arr_encoded d) v of
         Arr r xs \<Rightarrow> in_range (Fin (of_nat (length xs))) (arr_minLength d) (arr_maxLength d) \<and>
           list_all (\<lambda>x. conforms E F c st element x) xs
       | _ \<Rightarrow> False))"
| "conforms E F c st (TupleSchema i d elements) v =
     (absent_ok v i (tuple_default d) \<or>
      (case v of
         Arr r xs \<Rightarrow> list_all (\<lambda>p. conforms E F c st (snd p) (js_elem xs (fst p))) (List.enumerate 0 elements)
       | _ \<Rightarrow> False))"
| "conforms E F c st (ObjectSchema i d identity properties additional) v =
     (absent_ok v i (obj_default d) \<or>
      (case decoded E (obj_encoded d) v of
         Obj r plain fs \<Rightarrow>
           list_all (\<lambda>p. conforms E F c st (snd p) (js_prop fs (getPropertyName (fst p) st))) properties \<and>
           (case additional of
              None \<Rightarrow> extensible d \<or> extra_keys st properties fs = []
            | Some (nameSchema, valueSchema) \<Rightarrow>
                list_all (\<lambda>k. conforms E F c st valueSchema (js_prop fs k)) (extra_keys st properties fs) \<and>
                (extensible d \<or> list_all (\<lambda>k. conforms E F True None nameSchema (Str k)) (extra_keys st properties fs)))
       | _ \<Rightarrow> False))"
  by pat_completeness auto

termination
proof (relation "measure (\<lambda>(E, F, c, st, s, v). size s)")
qed (auto simp: less_Suc_eq_le dest: enumerate_size property_size intro: schema_size_intros)

section \<open>Schemas the comparison covers\<close>

text \<open>
  A literal that tells the branches of a union apart has to be enforced by its own validation: one
  with a default, an empty or a trimmed string, or a literal that is not a number accepts other
  values. Recursive schemas are left out.
\<close>

fun enforced :: "any_schema \<Rightarrow> bool" where
  "enforced (EnumSchema i d options) = (enum_default d = None)"
| "enforced (StringSchema i d f) = (str_value d \<noteq> Some [] \<and> \<not> trim d \<and> str_default d = None)"
| "enforced (NumberSchema i d f) = (num_value d \<noteq> Some NaN \<and> num_default d = None)"
| "enforced (BooleanSchema i d) = (bool_default d = None)"
| "enforced s = True"

definition literal_ok :: "any_schema \<Rightarrow> bool" where
  "literal_ok s = (getLiteral s \<noteq> None \<longrightarrow> enforced s)"

fun simple_name :: "any_schema \<Rightarrow> bool" where
  "simple_name (UnionSchema i d elements) = list_all simple_name elements"
| "simple_name s = (isScalarSchema s \<or> isEnumSchema s)"

fun regular :: "any_schema \<Rightarrow> bool" where
  "regular (ObjectSchema i d identity properties additional) =
     (list_all (\<lambda>p. regular (snd p)) properties \<and>
      (case additional of None \<Rightarrow> True | Some (n, v) \<Rightarrow> simple_name n \<and> regular v))"
| "regular (UnionSchema i d elements) = list_all regular elements"
| "regular (ArraySchema i d element) = regular element"
| "regular (TupleSchema i d elements) = list_all regular elements"
| "regular (ReferenceSchema i d identity) = False"
| "regular s = literal_ok s"

section \<open>Validations that decide a property\<close>

text \<open>A validation returns, whatever the references, and reports no error exactly when a property holds.\<close>

definition decides :: "(references \<Rightarrow> validation) \<Rightarrow> bool \<Rightarrow> bool" where
  "decides act P = (\<forall>refs. \<exists>errs refs'. act refs = Inr (errs, refs') \<and> (errs = [] \<longleftrightarrow> P))"

lemma decidesI: "(\<And>refs. \<exists>errs refs'. act refs = Inr (errs, refs') \<and> (errs = [] \<longleftrightarrow> P)) \<Longrightarrow> decides act P"
  by (simp add: decides_def)

lemma decidesE:
  assumes "decides act P"
  obtains errs refs' where "act refs = Inr (errs, refs')" "errs = [] \<longleftrightarrow> P"
  using assms unfolding decides_def by blast

lemma decides_pure: "(errs = [] \<longleftrightarrow> P) \<Longrightarrow> decides (\<lambda>refs. Inr (errs, f refs)) P"
  by (simp add: decides_def)

lemma decides_run_all:
  assumes "\<And>x. x \<in> set xs \<Longrightarrow> decides (act x) (P x)"
  shows "decides (run_all (map act xs)) (list_all P xs)"
  using assms
proof (induction xs)
  case Nil
  then show ?case by (simp add: decides_def)
next
  case (Cons x xs)
  show ?case
  proof (rule decidesI)
    fix refs
    obtain errs refs' where x: "act x refs = Inr (errs, refs')" "errs = [] \<longleftrightarrow> P x"
      using decidesE [OF Cons.prems [of x]] by (metis list.set_intros(1))
    have "decides (run_all (map act xs)) (list_all P xs)" using Cons by simp
    then obtain errs2 refs'' where "run_all (map act xs) refs' = Inr (errs2, refs'')" "errs2 = [] \<longleftrightarrow> list_all P xs"
      by (rule decidesE)
    with x show "\<exists>errs refs'. run_all (map act (x # xs)) refs = Inr (errs, refs') \<and> (errs = [] \<longleftrightarrow> list_all P (x # xs))"
      by simp
  qed
qed

lemma no_custom [simp]: "onCustomValidation ctx = None \<Longrightarrow> useCustomValidation v s types ctx = []"
  by (simp add: useCustomValidation_def split: option.split)

lemma decides_finish:
  assumes "decides act P" and "onCustomValidation ctx = None" and "early = [] \<longleftrightarrow> Q"
  shows "decides (\<lambda>refs. finish_validation v s types ctx early (act refs)) (Q \<and> P)"
proof (rule decidesI)
  fix refs
  obtain errs refs' where "act refs = Inr (errs, refs')" "errs = [] \<longleftrightarrow> P" using assms(1) by (rule decidesE)
  with assms(2,3) show "\<exists>errs refs'. finish_validation v s types ctx early (act refs) = Inr (errs, refs') \<and> (errs = [] \<longleftrightarrow> Q \<and> P)"
    by (auto simp: finish_validation_def split: list.split)
qed

section \<open>Scalars\<close>

lemma casting_input:
  "boolean_input v (casting (cast ctx)) = boolean_input v ctx" "number_input E v (casting (cast ctx)) = number_input E v ctx"
  "string_input E v t (casting (cast ctx)) = string_input E v t ctx"
  by (simp_all add: boolean_input_def number_input_def string_input_def casting_def)

lemma boolean_decided:
  assumes "onCustomValidation ctx = None"
  shows "validateBoolean v i d ctx = [] \<longleftrightarrow> conforms E F (cast ctx) st (BooleanSchema i d) v"
  using assms unfolding conforms.simps casting_input validateBoolean_def absent_ok_def
  by (auto split: js_value.split option.split)

lemma number_decided:
  assumes "onCustomValidation ctx = None"
  shows "validateNumber E v i d format ctx = [] \<longleftrightarrow> conforms E F (cast ctx) st (NumberSchema i d format) v"
  using assms unfolding conforms.simps casting_input validateNumber_def absent_ok_def
  by (auto simp: number_errors_def in_range_def split: js_value.split option.split)

lemma format_path:
  assumes "formats_ok F"
  shows "validateStringFormat F text (StringSchema i d fmt) format p = [] \<longleftrightarrow>
    validateStringFormat F text (StringSchema j d fmt) format q = []"
proof (cases "format")
  case (Some f)
  show ?thesis
  proof (cases "obj_get F f")
    case (Some handler)
    then have "(f, handler) \<in> set F" by (auto simp: obj_get_def dest: map_of_SomeD)
    with assms \<open>format = Some f\<close> Some show ?thesis by (fastforce simp: validateStringFormat_def formats_ok_def)
  qed (simp add: validateStringFormat_def \<open>format = Some f\<close>)
qed (simp add: validateStringFormat_def)

lemma string_errors_decided:
  assumes "onCustomValidation ctx = None" and "formats_ok F"
  shows "string_errors F v text i d format ctx = [] \<longleftrightarrow>
    in_range (Fin (of_nat (length text))) (str_minLength d) (str_maxLength d) \<and>
    validateStringFormat F text (StringSchema i d format) format None = []"
  unfolding format_path [OF assms(2), of "text" i d format format None i "vc_property ctx"]
  using assms(1) by (simp add: string_errors_def in_range_def split: option.split list.split)

lemma string_decided:
  assumes "onCustomValidation ctx = None" and "formats_ok F"
  shows "validateString E F v i d format ctx = [] \<longleftrightarrow> conforms E F (cast ctx) st (StringSchema i d format) v"
  unfolding conforms.simps casting_input validateString_def absent_ok_def
  by (auto simp: string_errors_decided [OF assms] split: js_value.split option.split)

lemma enum_decided:
  assumes "onCustomValidation ctx = None"
  shows "validateEnum v i d options ctx = [] \<longleftrightarrow> conforms E F (cast ctx) st (EnumSchema i d options) v"
  using assms by (auto simp: validateEnum_def absent_ok_def)

section \<open>Narrowing a union keeps the branches that accept the value\<close>

lemma strict_equal_sym: "strict_equal a b = strict_equal b a"
  by (cases a; cases b) auto

lemma not_nullish: "\<not> optional i \<Longrightarrow> \<not> nullable i \<Longrightarrow> \<not> isNullishAllowed v i"
  by (simp add: isNullishAllowed_def)

lemma literal_enforced:
  assumes "literal_ok s" and "getLiteral s = Some l" and "conforms E F False st s v"
  shows "strict_equal l v"
proof -
  have required: "\<not> optional (info s)" "\<not> nullable (info s)" "literal_of s = Some l" "enforced s"
    using assms(1,2) by (auto simp: getLiteral_def literal_ok_def split: if_splits)
  show ?thesis
  proof (cases s)
    case (EnumSchema i d options)
    with required obtain x where "options = [x]" "l = enum_js (option_value x)" by (auto split: list.splits)
    with EnumSchema required assms(3) show ?thesis
      by (simp add: absent_ok_def not_nullish isDefaultAllowed_def strict_equal_sym)
  next
    case (StringSchema i d f)
    with required assms(3) show ?thesis
      by (auto simp: absent_ok_def not_nullish isDefaultAllowed_def string_input_def casting_def createValidatorContext_def
          split: js_value.splits)
  next
    case (NumberSchema i d f)
    with required assms(3) show ?thesis
      by (auto simp: absent_ok_def not_nullish isDefaultAllowed_def number_input_def casting_def createValidatorContext_def
          elim!: number_ok.elims)
  next
    case (BooleanSchema i d)
    with required assms(3) show ?thesis
      by (auto simp: absent_ok_def not_nullish isDefaultAllowed_def boolean_input_def casting_def createValidatorContext_def
          elim!: boolean_ok.elims)
  qed (use required in auto)
qed

lemma plain_object_property:
  assumes "isPlainObjectSchema s" and "obj_get (schema_properties s) k \<noteq> None" and "conforms E F c st s (Obj r plain fs)"
  shows "conforms E F c st (property_schema s k) (js_prop fs (getPropertyName k st))"
    and "regular s \<Longrightarrow> regular (property_schema s k)"
proof -
  obtain i d identity properties additional where s: "s = ObjectSchema i d identity properties additional"
    using assms(1) by (cases s) auto
  from assms(2) s obtain t where t: "obj_get properties k = Some t" "property_schema s k = t"
    by (auto simp: property_schema_def)
  then have mem: "(k, t) \<in> set properties" by (auto simp: obj_get_def dest: map_of_SomeD)
  have "decoded E b (Obj r plain fs) = Obj r plain fs" for b by (simp add: decoded_def tryDecodeBase64Json_def)
  with assms(1,3) s have "list_all (\<lambda>p. conforms E F c st (snd p) (js_prop fs (getPropertyName (fst p) st))) properties"
    by (simp add: absent_ok_def not_nullish isDefaultAllowed_def)
  with mem t(2) show "conforms E F c st (property_schema s k) (js_prop fs (getPropertyName k st))"
    by (auto simp: list_all_iff)
  show "regular s \<Longrightarrow> regular (property_schema s k)" using s mem t(2) by (auto simp: list_all_iff)
qed

lemma shared_key_property:
  "k \<in> set (shared_keys elements) \<Longrightarrow> s \<in> set elements \<Longrightarrow> obj_get (schema_properties s) k \<noteq> None"
  by (auto simp: shared_keys_def list_all_iff split: list.splits)

definition tells_apart ::
  "js_engine \<Rightarrow> (string \<times> format_handler) list \<Rightarrow> naming_style option \<Rightarrow> any_schema list \<Rightarrow> string list \<Rightarrow> js_value list \<Rightarrow> bool" where
  "tells_apart E F st elements p ls =
     (\<forall>v x s l. readPath v p st = Some x \<longrightarrow> (s, l) \<in> set (zip elements ls) \<longrightarrow> regular s \<longrightarrow> conforms E F False st s v \<longrightarrow>
        strict_equal l x)"

lemma regular_literal: "regular s \<Longrightarrow> literal_ok s"
  by (cases s) (auto simp: literal_ok_def)

lemma tells_apart_step:
  assumes "list_all isPlainObjectSchema elements" and "k \<in> set (shared_keys elements)"
    and rest: "\<And>v x s l. readPath v p st = Some x \<Longrightarrow> (s, l) \<in> set (zip elements ls) \<Longrightarrow> regular (property_schema s k) \<Longrightarrow>
      conforms E F False st (property_schema s k) v \<Longrightarrow> strict_equal l x"
  shows "tells_apart E F st elements (k # p) ls"
  unfolding tells_apart_def
proof (intro allI impI)
  fix v x s l assume a: "readPath v (k # p) st = Some x" "(s, l) \<in> set (zip elements ls)" "regular s" "conforms E F False st s v"
  from a(1) obtain r plain fs where v: "v = Obj r plain fs" "readPath (js_prop fs (getPropertyName k st)) p st = Some x"
    by (auto split: js_value.splits)
  have s: "s \<in> set elements" using a(2) by (rule set_zip_leftD)
  with assms(1) have "isPlainObjectSchema s" by (simp add: list_all_iff)
  note property = plain_object_property [OF this shared_key_property [OF assms(2) s] a(4) [unfolded v(1)]]
  show "strict_equal l x" by (rule rest [OF v(2) a(2) property(2) [OF a(3)] property(1)])
qed

lemma zip_map_same: "(s, l) \<in> set (zip xs ls) \<Longrightarrow> (f s, l) \<in> set (zip (map f xs) ls)"
  by (auto simp: zip_map1 intro: rev_image_eqI)

lemma discriminator_tells_apart:
  assumes "findDiscriminator elements path = Some (full, ls)"
  shows "\<exists>p. full = path @ p \<and> p \<noteq> [] \<and> tells_apart E F st elements p ls"
  using assms
proof (induction elements path arbitrary: full ls rule: findDiscriminator.induct)
  case (1 elements path)
  show ?case
  proof (cases "first_some (\<lambda>k. map_option (\<lambda>ls. (path @ [k], ls)) (shared_literals elements k)) (shared_keys elements)")
    case None
    with "1.prems" have guard: "\<not> (length elements < 2 \<or> \<not> list_all isPlainObjectSchema elements)"
      and found: "first_some (\<lambda>k. findDiscriminator (map (\<lambda>s. property_schema s k) elements) (path @ [k])) (shared_keys elements) = Some (full, ls)"
      by (auto simp: findDiscriminator.simps [of elements path] split: if_splits)
    from first_some_result [OF found] obtain k where k: "k \<in> set (shared_keys elements)"
      "findDiscriminator (map (\<lambda>s. property_schema s k) elements) (path @ [k]) = Some (full, ls)" by blast
    from "1.IH" [OF guard None k] obtain p where p: "full = (path @ [k]) @ p"
      "tells_apart E F st (map (\<lambda>s. property_schema s k) elements) p ls" by blast
    have "tells_apart E F st elements (k # p) ls"
    proof (rule tells_apart_step [OF _ k(1)])
      show "list_all isPlainObjectSchema elements" using guard by simp
    qed (use p(2) zip_map_same [where f = "\<lambda>s. property_schema s k"] in \<open>fastforce simp: tells_apart_def\<close>)
    with p(1) show ?thesis by (intro exI [of _ "k # p"]) simp
  next
    case (Some r)
    with "1.prems" have r: "r = (full, ls)" and plain: "list_all isPlainObjectSchema elements"
      by (auto simp: findDiscriminator.simps [of elements path] split: if_splits)
    with first_some_result [OF Some] obtain k where k: "k \<in> set (shared_keys elements)"
      "shared_literals elements k = Some ls" "full = path @ [k]" by auto
    have lit: "getLiteral (property_schema s k) = Some l" if "(s, l) \<in> set (zip elements ls)" for s l
      using shared_literals_result [OF k(2)] that by (auto simp: list_all_iff)
    have "tells_apart E F st elements [k] ls"
    proof (rule tells_apart_step [OF plain k(1)])
      fix v x s l assume a: "readPath v [] st = Some x" "(s, l) \<in> set (zip elements ls)" "regular (property_schema s k)"
        "conforms E F False st (property_schema s k) v"
      show "strict_equal l x"
        using literal_enforced [OF regular_literal [OF a(3)] lit [OF a(2)] a(4)] a(1) by simp
    qed
    with k(3) show ?thesis by blast
  qed
qed

lemma matching_keeps:
  assumes "tells_apart E F st elements p ls" and "length ls = length elements" and "readPath v p st = Some x"
    and "list_all regular elements"
  shows "list_ex (\<lambda>s. conforms E F False st s v) (matching elements ls x) \<longleftrightarrow> list_ex (\<lambda>s. conforms E F False st s v) elements"
proof -
  have "\<exists>l. (s, l) \<in> set (zip elements ls)" if "s \<in> set elements" for s
    using that assms(2) by (metis in_set_impl_in_set_zip1)
  moreover have "strict_equal l x" if "(s, l) \<in> set (zip elements ls)" "conforms E F False st s v" for s l
    using assms(1,3,4) that set_zip_leftD [OF that(1)] by (auto simp: tells_apart_def list_all_iff)
  ultimately show ?thesis
    by (fastforce simp: matching_def list_ex_iff dest: set_zip_leftD)
qed

lemma matching_elements: "set (matching elements ls x) \<subseteq> set elements"
  by (auto simp: matching_def dest: set_zip_leftD)

lemma narrowing_exact:
  assumes "list_all regular elements" and "elements \<noteq> []"
  shows "case narrowByDiscriminators v elements ctx of
      Inl e \<Rightarrow> \<not> list_ex (\<lambda>s. conforms E F False (inputStyle ctx) s v) elements
    | Inr narrowed \<Rightarrow> narrowed \<noteq> [] \<and> set narrowed \<subseteq> set elements \<and>
        (list_ex (\<lambda>s. conforms E F False (inputStyle ctx) s v) narrowed \<longleftrightarrow>
         list_ex (\<lambda>s. conforms E F False (inputStyle ctx) s v) elements)"
  using assms
proof (induction v elements ctx rule: narrowByDiscriminators.induct)
  case (1 v elements ctx)
  show ?case
  proof (cases "findDiscriminator elements []")
    case None
    then show ?thesis using "1.prems" by (simp add: narrowByDiscriminators.simps [of v elements])
  next
    case (Some a)
    obtain p ls where a: "a = (p, ls)" by fastforce
    show ?thesis
    proof (cases "readPath v p (inputStyle ctx)")
      case None
      then show ?thesis using "1.prems" Some a by (simp add: narrowByDiscriminators.simps [of v elements])
    next
      case (Some x)
      note disc = \<open>findDiscriminator elements [] = Some a\<close> [unfolded a]
      have apart: "tells_apart E F (inputStyle ctx) elements p ls" using discriminator_tells_apart [OF disc] by auto
      have len: "length ls = length elements" using findDiscriminator_literals [OF disc] by simp
      note keeps = matching_keeps [OF apart len Some "1.prems"(1)]
      show ?thesis
      proof (cases "matching elements ls x = []")
        case True
        then show ?thesis using keeps disc Some by (simp add: narrowByDiscriminators.simps [of v elements])
      next
        case False
        have "list_all regular (matching elements ls x)"
          using "1.prems"(1) matching_elements [of elements ls x] by (auto simp: list_all_iff)
        from "1.IH" [OF disc refl Some False this False] show ?thesis
          using keeps disc Some False matching_elements [of elements ls x]
          by (auto simp: narrowByDiscriminators.simps [of v elements] split: sum.splits)
      qed
    qed
  qed
qed

section \<open>The validator decides conformance\<close>

lemma decides_union_loop:
  assumes "\<And>s. s \<in> set ss \<Longrightarrow> decides (rec v s ctx) (P s)" and "ss \<noteq> [] \<or> lastErrors \<noteq> []"
    and "lastErrors = [] \<longrightarrow> lastSize = None"
  shows "decides (union_loop E rec v ctx [] ss lastErrors lastSize) (list_ex P ss)"
  using assms
proof (induction ss arbitrary: lastErrors lastSize)
  case Nil
  then show ?case by (simp add: decides_def)
next
  case (Cons s ss)
  show ?case
  proof (rule decidesI)
    fix refs
    obtain errs refs' where s: "rec v s ctx refs = Inr (errs, refs')" "errs = [] \<longleftrightarrow> P s"
      using decidesE [OF Cons.prems(1) [of s]] by (metis list.set_intros(1))
    have goes_on: "\<exists>errs2 refs2. union_loop E rec v ctx [] ss last size refs' = Inr (errs2, refs2) \<and> (errs2 = [] \<longleftrightarrow> list_ex P ss)"
      if "last \<noteq> []" for last size
      using Cons.IH [of last size] Cons.prems(1) that by (auto simp: decides_def)
    show "\<exists>errs refs'. union_loop E rec v ctx [] (s # ss) lastErrors lastSize refs = Inr (errs, refs') \<and>
        (errs = [] \<longleftrightarrow> list_ex P (s # ss))"
      using s Cons.prems(3) goes_on [of errs "Some (length errs)"] goes_on [of lastErrors lastSize]
        goes_on [of "lastErrors @ filter (\<lambda>e. \<not> list_ex (\<lambda>l. isSameError E l e) lastErrors) errs" lastSize]
      by (cases "errs = []"; cases "lastErrors = []") (auto split: option.splits)
  qed
qed

lemma decides_union:
  assumes "\<And>s. s \<in> set elements \<Longrightarrow> decides (rec v s ctx) (conforms E F c st s v)" and "onCustomValidation ctx = None"
    and "elements \<noteq> [] \<Longrightarrow> (case narrowByDiscriminators v elements ctx of
      Inl e \<Rightarrow> \<not> list_ex (\<lambda>s. conforms E F c st s v) elements
    | Inr narrowed \<Rightarrow> narrowed \<noteq> [] \<and> set narrowed \<subseteq> set elements \<and>
        (list_ex (\<lambda>s. conforms E F c st s v) narrowed \<longleftrightarrow> list_ex (\<lambda>s. conforms E F c st s v) elements))"
  shows "decides (validateUnion E rec v i d elements ctx) (conforms E F c st (UnionSchema i d elements) v)"
proof (cases "elements = []")
  case True
  then show ?thesis
    by (simp add: decides_def validateUnion_def narrowByDiscriminators.simps findDiscriminator.simps assms(2))
next
  case False
  show ?thesis
  proof (cases "narrowByDiscriminators v elements ctx")
    case (Inl e)
    with assms(3) False show ?thesis by (simp add: decides_def validateUnion_def)
  next
    case (Inr narrowed)
    with assms(3) False have n: "narrowed \<noteq> []" "set narrowed \<subseteq> set elements"
      "list_ex (\<lambda>s. conforms E F c st s v) narrowed \<longleftrightarrow> list_ex (\<lambda>s. conforms E F c st s v) elements" by simp_all
    have "decides (union_loop E rec v ctx [] narrowed [] None) (list_ex (\<lambda>s. conforms E F c st s v) narrowed)"
      by (rule decides_union_loop) (use assms(1) n in auto)
    with Inr n False assms(2) show ?thesis by (simp add: decides_def validateUnion_def)
  qed
qed

lemma simple_name_decided:
  assumes "formats_ok F"
  shows "simple_name s \<Longrightarrow> size s < stack \<Longrightarrow> onCustomValidation ctx = None \<Longrightarrow>
    decides (validateAny E F stack v s ctx) (conforms E F (cast ctx) (inputStyle ctx) s v)"
proof (induction stack arbitrary: s)
  case (Suc stack)
  show ?case
  proof (cases s)
    case (UnionSchema i d elements)
    have none: "narrowByDiscriminators v elements ctx = Inr elements" if "elements \<noteq> []"
    proof -
      have "\<not> isPlainObjectSchema (hd elements)"
        using Suc.prems(1) UnionSchema that by (cases "hd elements"; cases elements) (auto simp: isScalarSchema_def)
      then have "findDiscriminator elements [] = None"
        using that by (cases elements) (auto simp: findDiscriminator.simps)
      then show ?thesis by (simp add: narrowByDiscriminators.simps)
    qed
    have "decides (validateUnion E (validateAny E F stack) v i d elements ctx)
        (conforms E F (cast ctx) (inputStyle ctx) (UnionSchema i d elements) v)"
    proof (rule decides_union)
      fix t assume "t \<in> set elements"
      with Suc.prems UnionSchema show "decides (validateAny E F stack v t ctx) (conforms E F (cast ctx) (inputStyle ctx) t v)"
        by (intro Suc.IH) (auto simp: list_all_iff dest: size_list_estimation' [where f = size, OF _ order_refl])
    qed (use Suc.prems(3) none in simp_all)
    with UnionSchema show ?thesis by simp
  qed (use Suc.prems in \<open>auto simp: isScalarSchema_def validateScalar_def intro!: decides_pure
      boolean_decided number_decided string_decided [OF _ assms] enum_decided simp del: conforms.simps\<close>)
qed simp

text \<open>The contexts of nested values read and cast the same way and stay deep.\<close>

definition value_context :: "naming_style option \<Rightarrow> validation_context \<Rightarrow> bool" where
  "value_context st ctx = (onCustomValidation ctx = None \<and> \<not> cast ctx \<and> depth ctx = None \<and> inputStyle ctx = st)"

lemma value_context_nested [simp]: "value_context st ctx \<Longrightarrow> value_context st (nested p ctx)"
  "value_context st ctx \<Longrightarrow> value_context st (property_context ctx name)" "value_context st ctx \<Longrightarrow> deep ctx"
  by (simp_all add: value_context_def nested_def property_context_def deep_def)

lemma item_errors_iff:
  "item_errors input n d property = [] \<longleftrightarrow> in_range (Fin (of_nat n)) (arr_minLength d) (arr_maxLength d)"
  by (simp add: item_errors_def in_range_def split: option.split)

lemma decides_array:
  assumes "\<And>x p. decides (rec x element (nested p ctx)) (conforms E F False st element x)" and "value_context st ctx"
  shows "decides (validateArray E rec v i d element ctx) (conforms E F False st (ArraySchema i d element) v)"
proof (cases "absent_ok v i (arr_default d)")
  case True
  then show ?thesis by (simp add: decides_def validateArray_def absent_ok_def)
next
  case False
  show ?thesis
  proof (cases "decoded E (arr_encoded d) v")
    case (Arr r xs)
    let ?act = "run_all (map (\<lambda>p. rec (snd p) element (nested (Some (element_property (vc_property ctx) (fst p))) ctx)) (List.enumerate 0 xs))"
    have "decides ?act (list_all (\<lambda>p. conforms E F False st element (snd p)) (List.enumerate 0 xs))"
      by (rule decides_run_all) (rule assms(1))
    moreover have "list_all (\<lambda>p. conforms E F False st element (snd p)) (List.enumerate 0 xs) = list_all (conforms E F False st element) xs"
      by (simp add: list_all_length nth_enumerate_eq)
    ultimately have acts: "decides ?act (list_all (conforms E F False st element) xs)" by simp
    have custom: "onCustomValidation ctx = None" "deep ctx" using assms(2) by (simp_all add: value_context_def)
    show ?thesis
      using False Arr custom(2) decides_finish [OF acts custom(1) item_errors_iff [of "Arr r xs" "length xs" d "vc_property ctx"],
          of "Arr r xs" "ArraySchema i d element" "def_types d"]
      by (simp add: decides_def validateArray_def absent_ok_def decoded_def [symmetric] case_prod_unfold Let_def)
  qed (use False in \<open>simp_all add: decides_def validateArray_def absent_ok_def decoded_def [symmetric] Let_def\<close>)
qed

lemma decides_tuple:
  assumes "\<And>s x p. s \<in> set elements \<Longrightarrow> decides (rec x s (nested p ctx)) (conforms E F False st s x)" and "value_context st ctx"
  shows "decides (validateTuple rec v i d elements ctx) (conforms E F False st (TupleSchema i d elements) v)"
proof (cases "absent_ok v i (tuple_default d)")
  case True
  then show ?thesis by (simp add: decides_def validateTuple_def absent_ok_def)
next
  case False
  show ?thesis
  proof (cases v)
    case (Arr r xs)
    let ?act = "run_all (map (\<lambda>p. rec (js_elem xs (fst p)) (snd p) (nested (Some (element_property (vc_property ctx) (fst p))) ctx))
      (List.enumerate 0 elements))"
    have acts: "decides ?act (list_all (\<lambda>p. conforms E F False st (snd p) (js_elem xs (fst p))) (List.enumerate 0 elements))"
      by (rule decides_run_all) (rule assms(1), auto simp: in_set_enumerate_eq)
    have custom: "onCustomValidation ctx = None" "deep ctx" using assms(2) by (simp_all add: value_context_def)
    show ?thesis
      using False Arr custom(2) decides_finish [OF acts custom(1), where Q = True and early = "[]" and v = v and s = "TupleSchema i d elements" and types = "def_types d"]
      by (simp add: decides_def validateTuple_def absent_ok_def case_prod_unfold)
  qed (use False in \<open>simp_all add: decides_def validateTuple_def absent_ok_def\<close>)
qed

lemma additional_loop_decided:
  assumes "\<And>k. k \<in> set ks \<Longrightarrow> decides (rec (Str k) nameSchema name_context) (N k)"
    and "\<And>k p. k \<in> set ks \<Longrightarrow> decides (rec (js_prop fs k) valueSchema (property_context ctx p)) (V k)" and "deep ctx"
  shows "\<exists>rest errs refs'. additional_loop rec fs kept nameSchema valueSchema ctx ks refs = Inr (rest, errs, refs') \<and>
    (rest = [] \<longleftrightarrow> list_all N ks) \<and> (errs = [] \<longleftrightarrow> list_all V ks)"
  using assms(1,2)
proof (induction ks arbitrary: refs)
  case (Cons k ks)
  obtain nameErrs refs1 where n: "rec (Str k) nameSchema name_context refs = Inr (nameErrs, refs1)" "nameErrs = [] \<longleftrightarrow> N k"
    using decidesE [OF Cons.prems(1) [of k]] by (metis list.set_intros(1))
  let ?ctx = "property_context ctx (if kept then k else getPropertyName k (path_style ctx))"
  obtain errs refs2 where e: "rec (js_prop fs k) valueSchema ?ctx refs1 = Inr (errs, refs2)" "errs = [] \<longleftrightarrow> V k"
    using decidesE [OF Cons.prems(2) [of k]] by (metis list.set_intros(1))
  have "\<exists>rest errs refs'. additional_loop rec fs kept nameSchema valueSchema ctx ks refs2 = Inr (rest, errs, refs') \<and>
      (rest = [] \<longleftrightarrow> list_all N ks) \<and> (errs = [] \<longleftrightarrow> list_all V ks)"
    by (rule Cons.IH) (use Cons.prems in auto)
  with n e assms(3) show ?case by auto
qed simp

lemma name_context_simps [simp]: "onCustomValidation name_context = None" "cast name_context" "inputStyle name_context = None"
  by (simp_all add: name_context_def createValidatorContext_def)

lemma decides_properties:
  assumes "\<And>s x p. s \<in> snd ` set properties \<Longrightarrow> decides (rec x s (property_context ctx p)) (conforms E F False st s x)"
    and "value_context st ctx"
  shows "decides (validate_properties rec fs properties ctx)
    (list_all (\<lambda>p. conforms E F False st (snd p) (js_prop fs (getPropertyName (fst p) st))) properties)"
proof -
  have "decides (run_all (map (\<lambda>p. rec (js_prop fs (getPropertyName (fst p) st)) (snd p)
      (property_context ctx (getPropertyName (fst p) (path_style ctx)))) properties))
    (list_all (\<lambda>p. conforms E F False st (snd p) (js_prop fs (getPropertyName (fst p) st))) properties)"
    by (rule decides_run_all) (rule assms(1), simp)
  moreover have "inputStyle ctx = st" "deep ctx" using assms(2) by (simp_all add: value_context_def)
  ultimately show ?thesis by (simp add: decides_def validate_properties_def case_prod_unfold)
qed

lemma decides_fields:
  assumes props: "\<And>s x p. s \<in> snd ` set properties \<Longrightarrow> decides (rec x s (property_context ctx p)) (conforms E F False st s x)"
    and names: "\<And>n s k. additional = Some (n, s) \<Longrightarrow> decides (rec (Str k) n name_context) (conforms E F True None n (Str k))"
    and vals: "\<And>n s x p. additional = Some (n, s) \<Longrightarrow> decides (rec x s (property_context ctx p)) (conforms E F False st s x)"
    and ctx: "value_context st ctx"
  shows "decides (validate_fields rec input fs d properties additional ctx)
    (list_all (\<lambda>p. conforms E F False st (snd p) (js_prop fs (getPropertyName (fst p) st))) properties \<and>
     (case additional of
        None \<Rightarrow> extensible d \<or> extra_keys st properties fs = []
      | Some (nameSchema, valueSchema) \<Rightarrow>
          list_all (\<lambda>k. conforms E F False st valueSchema (js_prop fs k)) (extra_keys st properties fs) \<and>
          (extensible d \<or> list_all (\<lambda>k. conforms E F True None nameSchema (Str k)) (extra_keys st properties fs))))"
proof (rule decidesI)
  fix refs
  have st: "inputStyle ctx = st" "deep ctx" using ctx by (simp_all add: value_context_def)
  have extra: "filter (\<lambda>k. k \<notin> set (map (\<lambda>(k, s). getPropertyName k (inputStyle ctx)) properties)) (obj_keys fs) = extra_keys st properties fs"
    by (simp add: extra_keys_def st)
  have err: "extra_properties_error d ctx input rest = [] \<longleftrightarrow> extensible d \<or> rest = []" for rest
    by (simp add: extra_properties_error_def)
  obtain errs refs1 where p: "validate_properties rec fs properties ctx refs = Inr (errs, refs1)"
    "errs = [] \<longleftrightarrow> list_all (\<lambda>p. conforms E F False st (snd p) (js_prop fs (getPropertyName (fst p) st))) properties"
    using decides_properties [where properties = properties and ctx = ctx and rec = rec, OF props ctx] by (rule decidesE)
  show "\<exists>errs refs'. validate_fields rec input fs d properties additional ctx refs = Inr (errs, refs') \<and> (errs = [] \<longleftrightarrow>
      list_all (\<lambda>p. conforms E F False st (snd p) (js_prop fs (getPropertyName (fst p) st))) properties \<and>
      (case additional of
        None \<Rightarrow> extensible d \<or> extra_keys st properties fs = []
      | Some (nameSchema, valueSchema) \<Rightarrow>
          list_all (\<lambda>k. conforms E F False st valueSchema (js_prop fs k)) (extra_keys st properties fs) \<and>
          (extensible d \<or> list_all (\<lambda>k. conforms E F True None nameSchema (Str k)) (extra_keys st properties fs))))"
  proof (cases additional)
    case None
    with p err show ?thesis unfolding validate_fields_def Let_def extra by simp
  next
    case (Some a)
    obtain n s where a: "a = (n, s)" by fastforce
    obtain rest errs2 refs2 where l: "additional_loop rec fs (preserve d) n s ctx (extra_keys st properties fs) refs1 = Inr (rest, errs2, refs2)"
      "rest = [] \<longleftrightarrow> list_all (\<lambda>k. conforms E F True None n (Str k)) (extra_keys st properties fs)"
      "errs2 = [] \<longleftrightarrow> list_all (\<lambda>k. conforms E F False st s (js_prop fs k)) (extra_keys st properties fs)"
      using additional_loop_decided [of "extra_keys st properties fs" rec n "\<lambda>k. conforms E F True None n (Str k)" fs s ctx
          "\<lambda>k. conforms E F False st s (js_prop fs k)" "preserve d" refs1] names vals Some a st(2) by auto
    with p err Some a show ?thesis unfolding validate_fields_def Let_def extra by auto
  qed
qed

lemma decides_object:
  assumes "\<And>s x p. s \<in> snd ` set properties \<Longrightarrow> decides (rec x s (property_context ctx p)) (conforms E F False st s x)"
    and "\<And>n s k. additional = Some (n, s) \<Longrightarrow> decides (rec (Str k) n name_context) (conforms E F True None n (Str k))"
    and "\<And>n s x p. additional = Some (n, s) \<Longrightarrow> decides (rec x s (property_context ctx p)) (conforms E F False st s x)"
    and "value_context st ctx"
  shows "decides (validateObject E rec v i d identity properties additional ctx)
    (conforms E F False st (ObjectSchema i d identity properties additional) v)"
proof (cases "absent_ok v i (obj_default d)")
  case True
  then show ?thesis by (simp add: decides_def validateObject_def absent_ok_def)
next
  case False
  show ?thesis
  proof (cases "decoded E (obj_encoded d) v")
    case (Obj r plain fs)
    note acts = decides_fields [where properties = properties and ctx = ctx and rec = rec and additional = additional
      and input = "decoded E (obj_encoded d) v" and fs = fs and d = d, OF assms]
    have custom: "onCustomValidation ctx = None" using assms(4) by (simp add: value_context_def)
    show ?thesis
      using False Obj decides_finish [OF acts custom, where early = "[]" and Q = True and v = "decoded E (obj_encoded d) v"
          and s = "ObjectSchema i d identity properties additional" and types = "def_types d"]
      by (simp add: decides_def validateObject_def absent_ok_def decoded_def [symmetric] Let_def)
  qed (use False in \<open>simp_all add: decides_def validateObject_def absent_ok_def decoded_def [symmetric] Let_def\<close>)
qed

lemma regular_decided:
  assumes "formats_ok F"
  shows "regular s \<Longrightarrow> size s < stack \<Longrightarrow> value_context st ctx \<Longrightarrow>
    decides (validateAny E F stack v s ctx) (conforms E F False st s v)"
proof (induction stack arbitrary: s v ctx)
  case (Suc stack)
  have st: "inputStyle ctx = st" "\<not> cast ctx" "onCustomValidation ctx = None"
    using Suc.prems(3) by (simp_all add: value_context_def)
  show ?case
  proof (cases s)
    case (ArraySchema i d element)
    with Suc have "decides (validateAny E F stack x element (nested p ctx)) (conforms E F False st element x)" for x p by simp
    from decides_array [where rec = "validateAny E F stack" and element = element, OF this Suc.prems(3)] ArraySchema
    show ?thesis by simp
  next
    case (TupleSchema i d elements)
    with Suc have "decides (validateAny E F stack x t (nested p ctx)) (conforms E F False st t x)" if "t \<in> set elements" for x p t
      using that size_list_estimation' [OF that order_refl, of size] by (intro Suc.IH) (auto simp: list_all_iff)
    from decides_tuple [where rec = "validateAny E F stack" and elements = elements, OF this Suc.prems(3)] TupleSchema
    show ?thesis by simp
  next
    case (UnionSchema i d elements)
    have "decides (validateUnion E (validateAny E F stack) v i d elements ctx) (conforms E F False st (UnionSchema i d elements) v)"
    proof (rule decides_union)
      fix t assume t: "t \<in> set elements"
      with Suc.prems UnionSchema show "decides (validateAny E F stack v t ctx) (conforms E F False st t v)"
        using size_list_estimation' [OF t order_refl, of size] by (intro Suc.IH) (auto simp: list_all_iff)
    qed (use st narrowing_exact [where elements = elements and v = v and ctx = ctx and E = E and F = F, unfolded st(1)] Suc.prems(1) UnionSchema in simp_all)
    with UnionSchema show ?thesis by simp
  next
    case (ObjectSchema i d identity properties additional)
    have "decides (validateObject E (validateAny E F stack) v i d identity properties additional ctx)
      (conforms E F False st (ObjectSchema i d identity properties additional) v)"
    proof (rule decides_object)
      fix t x p assume "t \<in> snd ` set properties"
      then show "decides (validateAny E F stack x t (property_context ctx p)) (conforms E F False st t x)"
        using Suc.prems ObjectSchema by (intro Suc.IH) (auto simp: list_all_iff dest: property_size)
    next
      fix n t k assume "additional = Some (n, t)"
      then show "decides (validateAny E F stack (Str k) n name_context) (conforms E F True None n (Str k))"
        using Suc.prems ObjectSchema simple_name_decided [OF assms, of n stack name_context E "Str k"] by simp
    next
      fix n t x p assume "additional = Some (n, t)"
      then show "decides (validateAny E F stack x t (property_context ctx p)) (conforms E F False st t x)"
        using Suc.prems ObjectSchema by (intro Suc.IH) auto
    qed (rule Suc.prems(3))
    with ObjectSchema show ?thesis by simp
  qed (use Suc.prems(1) st boolean_decided [of ctx] number_decided [of ctx] string_decided [of ctx, OF _ assms] enum_decided [of ctx] in
    \<open>auto simp: validateScalar_def intro!: decides_pure simp del: conforms.simps\<close>)
qed simp


section \<open>Optional schemas accept more\<close>

lemma absent_ok_optional: "absent_ok v i dflt \<Longrightarrow> absent_ok v (i\<lparr>optional := True\<rparr>) dflt"
  by (auto simp: absent_ok_def isNullishAllowed_def)

lemma conforms_with_optional:
  assumes "formats_ok F" and "conforms E F c st s v"
  shows "conforms E F c st (with_info (\<lambda>i. i\<lparr>optional := True\<rparr>) s) v"
proof (cases s)
  case (StringSchema i d format)
  have "string_ok F i d format None x \<Longrightarrow> string_ok F (i\<lparr>optional := True\<rparr>) d format None x" for x
    by (cases x) (use format_path [OF assms(1), of _ i d format format None "i\<lparr>optional := True\<rparr>" None] in auto)
  with StringSchema assms(2) show ?thesis by (auto intro: absent_ok_optional)
next
  case (UnionSchema i d elements)
  with assms(2) show ?thesis by (auto simp: isNullishAllowed_def)
qed (use assms(2) in \<open>auto intro: absent_ok_optional\<close>)

lemma conforms_undefined_optional: "optional (info s) \<Longrightarrow> \<not> isReferenceSchema s \<Longrightarrow> conforms E F c st s Undefined"
  by (cases s) (auto simp: absent_ok_def isNullishAllowed_def)

lemma optional_extra_keys:
  "extra_keys st (map (\<lambda>p. (fst p, f p)) properties) fs = extra_keys st properties fs"
  by (simp add: extra_keys_def case_prod_unfold comp_def image_image)

lemma conforms_optional:
  assumes "formats_ok F"
  shows "conforms E F c st s v \<Longrightarrow> conforms E F c st (getOptionalSchema s) v"
proof (induction s arbitrary: v rule: getOptionalSchema.induct)
  case (1 i d identity properties additional)
  have "list_all (\<lambda>p. conforms E F c st (snd p) (js_prop fs (getPropertyName (fst p) st)))
      (map (\<lambda>p. (fst p, if optional (info (snd p)) then snd p
        else with_info (\<lambda>i. i\<lparr>optional := True\<rparr>) (getOptionalSchema (snd p)))) properties)"
    if "list_all (\<lambda>p. conforms E F c st (snd p) (js_prop fs (getPropertyName (fst p) st))) properties" for fs
    using that 1(1) conforms_with_optional [OF assms] by (auto simp: list_all_iff)
  with 1(2) show ?case
    by (auto simp: optional_extra_keys split: js_value.splits option.splits)
next
  case (2 i d elements)
  then show ?case by (auto simp: list_ex_iff)
next
  case (3 i d element)
  then show ?case by (auto simp: list_all_iff split: js_value.splits)
next
  case (4 i d elements)
  have "List.enumerate 0 (map getOptionalSchema elements) = map (\<lambda>p. (fst p, getOptionalSchema (snd p))) (List.enumerate 0 elements)"
    by (simp add: list_eq_iff_nth_eq nth_enumerate_eq)
  with 4 show ?case
    by (auto simp: list_all_iff in_set_enumerate_eq split: js_value.splits)
qed simp_all

lemma regular_optional: "regular s \<Longrightarrow> regular (getOptionalSchema s)"
proof (induction s rule: getOptionalSchema.induct)
  case (1 i d identity properties additional)
  have "regular (with_info (\<lambda>i. i\<lparr>optional := True\<rparr>) t)" if "regular t" for t
    using that by (cases t) (auto simp: literal_ok_def getLiteral_def)
  with 1 show ?case by (auto simp: list_all_iff)
qed (auto simp: list_all_iff)


section \<open>A sample union\<close>

definition sample_engine :: js_engine where
  "sample_engine = \<lparr>numberOf = (\<lambda>v. NaN), stringOf = (\<lambda>n. []), decodeJson = (\<lambda>s. None)\<rparr>"

definition sample_literal :: "string \<Rightarrow> string option \<Rightarrow> any_schema" where
  "sample_literal l dflt = StringSchema plain_info
     \<lparr>def_custom = False, def_types = None, str_minLength = None, str_maxLength = None, trim = False, lower = False,
      upper = False, pattern = None, str_default = dflt, str_value = Some l, str_name = None\<rparr> None"

definition sample_flag :: any_schema where
  "sample_flag = BooleanSchema plain_info \<lparr>def_custom = False, def_types = None, bool_default = None, bool_value = None\<rparr>"

definition sample_branch :: "string \<Rightarrow> string \<Rightarrow> string option \<Rightarrow> any_schema" where
  "sample_branch l k dflt = ObjectSchema plain_info no_object_definitions None
     [(''type'', sample_literal l dflt), (k, sample_flag)] None"

definition sample_union :: "string option \<Rightarrow> any_schema" where
  "sample_union dflt = UnionSchema plain_info \<lparr>def_custom = False, def_types = None\<rparr>
     [sample_branch ''text'' ''bold'' dflt, sample_branch ''media'' ''video'' None]"

definition sample_text :: js_value where
  "sample_text = Obj 0 True [(''type'', Str ''text''), (''bold'', Bool True)]"

lemmas sample_union_defs = sample_union_def sample_branch_def sample_literal_def sample_flag_def plain_info_def no_object_definitions_def

lemma sample_regular: "regular (sample_union None)" "regular (getOptionalSchema (sample_union None))"
  by (simp_all add: sample_union_defs literal_ok_def getLiteral_def)

lemma sample_sizes: "size (sample_union None) < 100" "size (getOptionalSchema (sample_union None)) < 100"
  by (simp_all add: sample_union_defs)

lemma sample_context: "value_context None createValidatorContext"
  by (simp add: value_context_def createValidatorContext_def)

lemma sample_conforms: "conforms sample_engine [] False None (sample_union None) sample_text"
  by (simp add: sample_union_defs sample_text_def sample_engine_def absent_ok_def isNullishAllowed_def isDefaultAllowed_def
      decoded_def js_prop_def obj_get_def getPropertyName_def string_input_def boolean_input_def casting_def createValidatorContext_def
      in_range_def below_limit_def above_limit_def validateStringFormat_def extra_keys_def obj_keys_def)



text \<open>
  A discriminator with a default is not required, although narrowing takes it for required: the
  union rejects a value that leaves it out, which the branch alone accepts.
\<close>

lemma sample_discriminator:
  "findDiscriminator [sample_branch ''text'' ''bold'' (Some ''text''), sample_branch ''media'' ''video'' None] [] =
    Some ([''type''], [Str ''text'', Str ''media''])"
  by (subst findDiscriminator.simps)
    (simp add: sample_union_defs shared_keys_def shared_literals_def obj_keys_def obj_get_def
        property_schema_def getLiteral_def set_of_list_def set_add_def)

lemma sample_narrowing:
  "\<exists>e. narrowByDiscriminators (Obj 0 True [(''bold'', Bool True)])
     [sample_branch ''text'' ''bold'' (Some ''text''), sample_branch ''media'' ''video'' None] createValidatorContext = Inl e"
  by (subst narrowByDiscriminators.simps)
    (simp add: sample_discriminator js_prop_def obj_get_def getPropertyName_def createValidatorContext_def matching_def)

lemma default_discriminator_is_required:
  "\<exists>e refs'. validateAny sample_engine [] 100 (Obj 0 True [(''bold'', Bool True)]) (sample_union (Some ''text''))
     createValidatorContext (\<lambda>n. None) = Inr ([e], refs') \<and>
     conforms sample_engine [] False None (sample_branch ''text'' ''bold'' (Some ''text'')) (Obj 0 True [(''bold'', Bool True)])"
proof -
  from sample_narrowing obtain e where e: "narrowByDiscriminators (Obj 0 True [(''bold'', Bool True)])
     [sample_branch ''text'' ''bold'' (Some ''text''), sample_branch ''media'' ''video'' None] createValidatorContext = Inl e" ..
  have stack: "(100 :: nat) = Suc 99" by simp
  have "conforms sample_engine [] False None (sample_branch ''text'' ''bold'' (Some ''text'')) (Obj 0 True [(''bold'', Bool True)])"
    by (simp add: sample_union_defs sample_engine_def absent_ok_def isNullishAllowed_def isDefaultAllowed_def isNotNullish_def
      decoded_def js_prop_def obj_get_def getPropertyName_def boolean_input_def casting_def createValidatorContext_def
      extra_keys_def obj_keys_def)
  moreover have "validateAny sample_engine [] 100 (Obj 0 True [(''bold'', Bool True)]) (sample_union (Some ''text''))
     createValidatorContext (\<lambda>n. None) = Inr ([e], \<lambda>n. None)"
    unfolding stack validateAny.simps(2) sample_union_def any_schema.case validateUnion_def e by (simp add: isNullishAllowed_def)
  ultimately show ?thesis by blast
qed

text \<open>A literal that is the empty string accepts every string.\<close>

lemma empty_literal_accepts_everything:
  "validateString sample_engine [] (Str ''anything'') plain_info
     \<lparr>def_custom = False, def_types = None, str_minLength = None, str_maxLength = None, trim = False, lower = False,
      upper = False, pattern = None, str_default = None, str_value = Some [], str_name = None\<rparr> None createValidatorContext = []"
  by (simp add: validateString_def isNullishAllowed_def isDefaultAllowed_def string_input_def createValidatorContext_def
      string_errors_def below_limit_def above_limit_def validateStringFormat_def useCustomValidation_def)

text \<open>The path of an element of an array without a path of its own starts with \<open>undefined\<close>.\<close>

lemma element_path_of_root: "element_property None 0 = ''undefined.0''"
  by code_simp

end
