(* ===== verification/Transform.thy ===== *)
theory Transform
  imports Validator
begin

text \<open>
  The transformation of a value after a schema: \<open>foundation/transform/src\<close> (\<open>schema/*.ts\<close>,
  \<open>utils/*.ts\<close>, \<open>types/context.ts\<close>), with \<open>objectSize\<close> and \<open>arraySize\<close> of
  \<open>foundation/utils/src\<close>. The engine, the references and the call stack are those of the
  validation. A base64 text of a JSON value is written by \<open>encodeJson\<close> and read by \<open>decodeJson\<close>; upper
  and lower case are the engine's. The objects and arrays the transformation builds are never
  compared by reference, so all of them carry the reference 0.
\<close>

section \<open>Sizes of values\<close>

fun value_size :: "js_value \<Rightarrow> nat" where
  "value_size (Obj r plain fs) = sum_list (map (\<lambda>f. (if snd f \<noteq> Undefined then 1 else 0) + value_size (snd f)) fs)"
| "value_size (Arr r xs) = sum_list (map (\<lambda>x. (if x \<noteq> Undefined then 1 else 0) + value_size x) xs)"
| "value_size v = 0"

definition objectSize :: "(string \<times> js_value) list \<Rightarrow> nat" where
  "objectSize fs = value_size (Obj 0 True fs)"

definition arraySize :: "js_value list \<Rightarrow> nat" where
  "arraySize xs = value_size (Arr 0 xs)"

section \<open>Context and helpers\<close>

record transform_engine = js_engine +
  lowerCase :: "string \<Rightarrow> string"
  upperCase :: "string \<Rightarrow> string"
  encodeJson :: "js_value \<Rightarrow> string"

record transform_context =
  tc_inputStyle :: "naming_style option"
  tc_outputStyle :: "naming_style option"
  tc_convert :: bool
  tc_return :: bool

definition createTransformContext ::
  "naming_style option \<Rightarrow> naming_style option \<Rightarrow> bool option \<Rightarrow> bool option \<Rightarrow> transform_context" where
  "createTransformContext input outStyle conv ret =
     \<lparr>tc_inputStyle = input, tc_outputStyle = outStyle, tc_convert = (case conv of None \<Rightarrow> True | Some b \<Rightarrow> b),
      tc_return = (case ret of None \<Rightarrow> True | Some b \<Rightarrow> b)\<rparr>"

type_synonym transformation = "schema_error + js_value \<times> references"
type_synonym transformer = "js_value \<Rightarrow> any_schema \<Rightarrow> transform_context \<Rightarrow> references \<Rightarrow> transformation"

definition value_or_undefined :: "js_value option \<Rightarrow> js_value" where
  "value_or_undefined dflt = (case dflt of None \<Rightarrow> Undefined | Some d \<Rightarrow> d)"

definition unless_strict :: "transform_context \<Rightarrow> js_value \<Rightarrow> js_value" where
  "unless_strict ctx v = (if tc_return ctx then v else Undefined)"

definition decodeBase64Json :: "transform_engine \<Rightarrow> js_value \<Rightarrow> js_value" where
  "decodeBase64Json E v =
     (case v of Str s \<Rightarrow> (case decodeJson E s of None \<Rightarrow> Undefined | Some x \<Rightarrow> x) | _ \<Rightarrow> v)"

fun split_comma :: "string \<Rightarrow> string \<Rightarrow> string list" where
  "split_comma word [] = [word]"
| "split_comma word (c # s) = (if c = CHR '','' then word # split_comma [] s else split_comma (word @ [c]) s)"

definition stringToArray :: "string \<Rightarrow> string list" where
  "stringToArray s = filter (\<lambda>w. w \<noteq> []) (map js_trim (split_comma [] s))"

section \<open>Scalars and enumerations\<close>

text \<open>A literal rejects another result when the transformation is strict.\<close>

definition check_literal :: "transform_context \<Rightarrow> js_value option \<Rightarrow> js_value \<Rightarrow> js_value" where
  "check_literal ctx literal result =
     (case literal of None \<Rightarrow> result
      | Some l \<Rightarrow> if \<not> strict_equal l result \<and> \<not> tc_return ctx then Undefined else result)"

definition getBooleanValue :: "js_value \<Rightarrow> transform_context \<Rightarrow> js_value" where
  "getBooleanValue v ctx =
     (if isAnyBoolean v then v
      else if tc_convert ctx \<and> v = Str ''true'' then Bool True
      else if tc_convert ctx \<and> v = Str ''false'' then Bool False
      else unless_strict ctx v)"

definition transformBoolean :: "js_value \<Rightarrow> boolean_definitions \<Rightarrow> transform_context \<Rightarrow> js_value" where
  "transformBoolean v d ctx =
     (if v = Undefined then value_or_undefined (map_option Bool (bool_default d))
      else check_literal ctx (map_option Bool (bool_value d)) (getBooleanValue v ctx))"

definition getNumberValue :: "transform_engine \<Rightarrow> js_value \<Rightarrow> transform_context \<Rightarrow> js_value" where
  "getNumberValue E v ctx =
     (case v of
        Num n \<Rightarrow> v
      | Str s \<Rightarrow>
          (if tc_convert ctx then (case numberOf E v of Fin r \<Rightarrow> Num (Fin r) | _ \<Rightarrow> unless_strict ctx v)
           else unless_strict ctx v)
      | _ \<Rightarrow> unless_strict ctx v)"

definition transformNumber :: "transform_engine \<Rightarrow> js_value \<Rightarrow> number_definitions \<Rightarrow> transform_context \<Rightarrow> js_value" where
  "transformNumber E v d ctx =
     (if v = Undefined then value_or_undefined (map_option Num (num_default d))
      else check_literal ctx (map_option Num (num_value d)) (getNumberValue E v ctx))"

definition applyTransformations :: "transform_engine \<Rightarrow> string \<Rightarrow> string_definitions \<Rightarrow> string" where
  "applyTransformations E s d =
     (let s1 = (if trim d then js_trim s else s);
          s2 = (if lower d then lowerCase E s1 else s1)
      in if upper d then upperCase E s2 else s2)"

definition getStringValue :: "transform_engine \<Rightarrow> js_value \<Rightarrow> string_definitions \<Rightarrow> transform_context \<Rightarrow> js_value" where
  "getStringValue E v d ctx =
     (case v of
        Str s \<Rightarrow> Str (applyTransformations E s d)
      | Num n \<Rightarrow> if tc_convert ctx then Str (stringOf E n) else unless_strict ctx v
      | Bool b \<Rightarrow> if tc_convert ctx then Str (if b then ''true'' else ''false'') else unless_strict ctx v
      | _ \<Rightarrow> unless_strict ctx v)"

definition transformString :: "transform_engine \<Rightarrow> js_value \<Rightarrow> string_definitions \<Rightarrow> transform_context \<Rightarrow> js_value" where
  "transformString E v d ctx =
     (if v = Undefined then value_or_undefined (map_option Str (str_default d))
      else check_literal ctx (map_option Str (str_value d)) (getStringValue E v d ctx))"

definition transformScalar :: "transform_engine \<Rightarrow> js_value \<Rightarrow> any_schema \<Rightarrow> transform_context \<Rightarrow> js_value" where
  "transformScalar E v s ctx =
     (case s of
        BooleanSchema i d \<Rightarrow> transformBoolean v d ctx
      | NumberSchema i d format \<Rightarrow> transformNumber E v d ctx
      | StringSchema i d format \<Rightarrow> transformString E v d ctx
      | _ \<Rightarrow> Undefined)"

fun enum_matches :: "transform_engine \<Rightarrow> js_value \<Rightarrow> enum_value \<Rightarrow> bool" where
  "enum_matches E v (StringOption s) = (v = Str s)"
| "enum_matches E v (NumberOption n) = (n \<noteq> NaN \<and> numberOf E v = n)"

definition transformEnum :: "transform_engine \<Rightarrow> js_value \<Rightarrow> enum_definitions \<Rightarrow> enum_option list \<Rightarrow> transform_context \<Rightarrow> js_value" where
  "transformEnum E v d options ctx =
     (if v = Undefined then value_or_undefined (map_option enum_js (enum_default d))
      else case find (\<lambda>x. enum_matches E v (option_value x)) options of
             Some x \<Rightarrow> enum_js (option_value x)
           | None \<Rightarrow> unless_strict ctx v)"

section \<open>Arrays, tuples and objects\<close>

text \<open>A loop that transforms one value after the other.\<close>

fun run_each :: "(references \<Rightarrow> transformation) list \<Rightarrow> references \<Rightarrow> schema_error + js_value list \<times> references" where
  "run_each [] refs = Inr ([], refs)"
| "run_each (act # acts) refs =
     (case act refs of
        Inl e \<Rightarrow> Inl e
      | Inr (v, refs') \<Rightarrow>
          (case run_each acts refs' of Inl e \<Rightarrow> Inl e | Inr (vs, refs'') \<Rightarrow> Inr (v # vs, refs'')))"

definition array_elements ::
  "transform_engine \<Rightarrow> transformer \<Rightarrow> bool \<Rightarrow> js_value list \<Rightarrow> array_definitions \<Rightarrow> any_schema \<Rightarrow> transform_context \<Rightarrow>
   references \<Rightarrow> transformation" where
  "array_elements E rec given xs d element ctx refs =
     (let local = ctx\<lparr>tc_convert := (if arr_encoded d then False else tc_convert ctx)\<rparr>
      in case run_each (map (\<lambda>x. rec x element local) xs) refs of
           Inl e \<Rightarrow> Inl e
         | Inr (ys, refs') \<Rightarrow>
             Inr (if arr_encoded d \<and> tc_convert ctx \<and> given then Str (encodeJson E (Arr 0 ys)) else Arr 0 ys, refs'))"

text \<open>\<open>given\<close> tells that the value itself is an array, and not a text that holds one.\<close>

definition transformArray ::
  "transform_engine \<Rightarrow> transformer \<Rightarrow> js_value \<Rightarrow> array_definitions \<Rightarrow> any_schema \<Rightarrow> transform_context \<Rightarrow>
   references \<Rightarrow> transformation" where
  "transformArray E rec v d element ctx refs =
     (if v = Undefined then Inr (value_or_undefined (arr_default d), refs)
      else case (if arr_encoded d then decodeBase64Json E v else v) of
             Arr r xs \<Rightarrow> array_elements E rec (isAnyArray v) xs d element ctx refs
           | Str s \<Rightarrow>
               if tc_convert ctx then array_elements E rec True (map Str (stringToArray s)) d element ctx refs
               else Inr (unless_strict ctx v, refs)
           | _ \<Rightarrow> Inr (unless_strict ctx v, refs))"

definition tuple_elements ::
  "transformer \<Rightarrow> js_value list \<Rightarrow> any_schema list \<Rightarrow> transform_context \<Rightarrow> references \<Rightarrow> transformation" where
  "tuple_elements rec xs elements ctx refs =
     (case run_each (map (\<lambda>(k, s). rec (js_elem xs k) s ctx) (List.enumerate 0 elements)) refs of
        Inl e \<Rightarrow> Inl e
      | Inr (ys, refs') \<Rightarrow> Inr (Arr 0 ys, refs'))"

definition transformTuple ::
  "transformer \<Rightarrow> js_value \<Rightarrow> tuple_definitions \<Rightarrow> any_schema list \<Rightarrow> transform_context \<Rightarrow> references \<Rightarrow> transformation" where
  "transformTuple rec v d elements ctx refs =
     (if v = Undefined then Inr (value_or_undefined (tuple_default d), refs)
      else case v of
             Arr r xs \<Rightarrow> tuple_elements rec xs elements ctx refs
           | Str s \<Rightarrow>
               if tc_convert ctx then tuple_elements rec (map Str (stringToArray s)) elements ctx refs
               else Inr (unless_strict ctx v, refs)
           | _ \<Rightarrow> Inr (unless_strict ctx v, refs))"

text \<open>The loop over the properties of the schema: the object so far and whether it is complete.\<close>

fun property_loop ::
  "transformer \<Rightarrow> (string \<times> js_value) list \<Rightarrow> transform_context \<Rightarrow> (string \<times> any_schema) list \<Rightarrow> (string \<times> js_value) list \<Rightarrow> bool \<Rightarrow>
   references \<Rightarrow> schema_error + (string \<times> js_value) list \<times> bool \<times> references" where
  "property_loop rec fs ctx [] built full refs = Inr (built, full, refs)"
| "property_loop rec fs ctx ((k, s) # properties) built full refs =
     (let raw = js_prop fs (getPropertyName k (tc_inputStyle ctx));
          name = (case alias_name (info s) of Some a \<Rightarrow> a | None \<Rightarrow> getPropertyName k (tc_outputStyle ctx))
      in case rec raw s ctx refs of
           Inl e \<Rightarrow> Inl e
         | Inr (new, refs') \<Rightarrow>
             if new \<noteq> Undefined then property_loop rec fs ctx properties (obj_set name new built) full refs'
             else property_loop rec fs ctx properties built
                    (full \<and> \<not> (\<not> optional (info s) \<or> raw \<noteq> Undefined \<and> raw \<noteq> Null)) refs')"

definition extra_name :: "object_definitions \<Rightarrow> transform_context \<Rightarrow> string \<Rightarrow> string" where
  "extra_name d ctx k = (if preserve d then k else getPropertyName k (tc_outputStyle ctx))"

text \<open>The loop over the other properties when the schema has a type for them, with those that are left.\<close>

fun extra_loop ::
  "transformer \<Rightarrow> (string \<times> js_value) list \<Rightarrow> object_definitions \<Rightarrow> any_schema \<Rightarrow> transform_context \<Rightarrow> string list \<Rightarrow>
   (string \<times> js_value) list \<Rightarrow> references \<Rightarrow> schema_error + (string \<times> js_value) list \<times> string list \<times> references" where
  "extra_loop rec fs d valueSchema ctx [] built refs = Inr (built, [], refs)"
| "extra_loop rec fs d valueSchema ctx (k # ks) built refs =
     (case rec (js_prop fs k) valueSchema ctx refs of
        Inl e \<Rightarrow> Inl e
      | Inr (new, refs') \<Rightarrow>
          if new \<noteq> Undefined then extra_loop rec fs d valueSchema ctx ks (obj_set (extra_name d ctx k) new built) refs'
          else (case extra_loop rec fs d valueSchema ctx ks built refs' of
                  Inl e \<Rightarrow> Inl e
                | Inr (built', rest, refs'') \<Rightarrow> Inr (built', k # rest, refs'')))"

definition copy_extra ::
  "(string \<times> js_value) list \<Rightarrow> object_definitions \<Rightarrow> transform_context \<Rightarrow> string list \<Rightarrow> (string \<times> js_value) list \<Rightarrow> (string \<times> js_value) list" where
  "copy_extra fs d ctx rest built =
     (if extensible d then fold (\<lambda>k. obj_set (extra_name d ctx k) (js_prop fs k)) rest built else built)"

definition finish_object :: "transform_engine \<Rightarrow> js_value \<Rightarrow> object_definitions \<Rightarrow> (string \<times> js_value) list \<Rightarrow> js_value" where
  "finish_object E v d built =
     (if obj_encoded d \<and> isAnyObject v then Str (encodeJson E (Obj 0 True built)) else Obj 0 True built)"

definition transformObject ::
  "transform_engine \<Rightarrow> transformer \<Rightarrow> js_value \<Rightarrow> schema_info \<Rightarrow> object_definitions \<Rightarrow> nat option \<Rightarrow> (string \<times> any_schema) list \<Rightarrow>
   (any_schema \<times> any_schema) option \<Rightarrow> transform_context \<Rightarrow> references \<Rightarrow> transformation" where
  "transformObject E rec v i d identity properties additional ctx refs =
     (if v = Undefined then Inr (value_or_undefined (obj_default d), refs)
      else case (if obj_encoded d then decodeBase64Json E v else v) of
             Obj r plain fs \<Rightarrow>
               let local = ctx\<lparr>tc_convert := (if obj_encoded d then False else tc_convert ctx)\<rparr>;
                   known = map (\<lambda>(k, s). getPropertyName k (tc_inputStyle ctx)) properties;
                   extra = filter (\<lambda>k. k \<notin> set known) (obj_keys fs)
               in (case property_loop rec fs local properties [] True
                          (register (ObjectSchema i d identity properties additional) identity refs) of
                     Inl e \<Rightarrow> Inl e
                   | Inr (built, full, refs1) \<Rightarrow>
                       if \<not> full \<and> \<not> tc_return ctx then Inr (Undefined, refs1)
                       else case additional of
                              None \<Rightarrow> Inr (finish_object E v d (copy_extra fs d ctx extra built), refs1)
                            | Some (nameSchema, valueSchema) \<Rightarrow>
                                (case extra_loop rec fs d valueSchema local extra built refs1 of
                                   Inl e \<Rightarrow> Inl e
                                 | Inr (built', rest, refs2) \<Rightarrow>
                                     Inr (finish_object E v d (copy_extra fs d ctx rest built'), refs2)))
           | _ \<Rightarrow> Inr (unless_strict ctx v, refs))"

section \<open>Unions and the dispatch\<close>

definition result_weight :: "js_value \<Rightarrow> nat" where
  "result_weight r = (case r of Obj i plain fs \<Rightarrow> objectSize fs | Arr i xs \<Rightarrow> arraySize xs | _ \<Rightarrow> 1)"

text \<open>The loop over the branches with the last value and its size, at first below every size.\<close>

fun branch_loop ::
  "transformer \<Rightarrow> js_value \<Rightarrow> transform_context \<Rightarrow> any_schema list \<Rightarrow> js_value \<Rightarrow> nat option \<Rightarrow> references \<Rightarrow> transformation" where
  "branch_loop rec v ctx [] lastValue lastSize refs = Inr (lastValue, refs)"
| "branch_loop rec v ctx (s # ss) lastValue lastSize refs =
     (case rec v s ctx refs of
        Inl e \<Rightarrow> Inl e
      | Inr (r, refs') \<Rightarrow>
          if r = Undefined then branch_loop rec v ctx ss lastValue lastSize refs'
          else if (case lastSize of None \<Rightarrow> True | Some n \<Rightarrow> n < result_weight r)
          then branch_loop rec v ctx ss r (Some (result_weight r)) refs'
          else branch_loop rec v ctx ss lastValue lastSize refs')"

definition transformUnion ::
  "transformer \<Rightarrow> js_value \<Rightarrow> any_schema list \<Rightarrow> transform_context \<Rightarrow> references \<Rightarrow> transformation" where
  "transformUnion rec v elements ctx refs =
     (if v = Undefined then Inr (Undefined, refs)
      else case branch_loop rec v (ctx\<lparr>tc_return := False\<rparr>) elements Undefined None refs of
             Inl e \<Rightarrow> Inl e
           | Inr (lastValue, refs') \<Rightarrow> Inr (if lastValue = Undefined \<and> tc_return ctx then v else lastValue, refs'))"

definition transformReference ::
  "transform_engine \<Rightarrow> transformer \<Rightarrow> js_value \<Rightarrow> nat \<Rightarrow> transform_context \<Rightarrow> references \<Rightarrow> transformation" where
  "transformReference E rec v identity ctx refs =
     (if v = Undefined then Inr (Undefined, refs)
      else case refs identity of
             Some (ObjectSchema i d identity' properties additional) \<Rightarrow>
               transformObject E rec v i d identity' properties additional ctx refs
           | _ \<Rightarrow> Inl (ReferenceNotFoundError identity None))"

primrec transformAny :: "transform_engine \<Rightarrow> nat \<Rightarrow> transformer" where
  "transformAny E 0 = (\<lambda>v s ctx refs. Inl RangeError)"
| "transformAny E (Suc stack) = (\<lambda>v s ctx refs.
     if v = Null \<and> nullable (info s) then Inr (Null, refs)
     else (case s of
        ObjectSchema i d identity properties additional \<Rightarrow>
          transformObject E (transformAny E stack) v i d identity properties additional ctx refs
      | ReferenceSchema i d identity \<Rightarrow> transformReference E (transformAny E stack) v identity ctx refs
      | UnionSchema i d elements \<Rightarrow> transformUnion (transformAny E stack) v elements ctx refs
      | ArraySchema i d element \<Rightarrow> transformArray E (transformAny E stack) v d element ctx refs
      | TupleSchema i d elements \<Rightarrow> transformTuple (transformAny E stack) v d elements ctx refs
      | EnumSchema i d options \<Rightarrow> Inr (transformEnum E v d options ctx, refs)
      | _ \<Rightarrow> Inr (transformScalar E v s ctx, refs)))"

end
