(* ===== verification/Transform_Spec.thy ===== *)
theory Transform_Spec
  imports Transform
begin

text \<open>
  What the transformation guarantees: a strict transformation answers with a value of the shape its
  schema describes, and a union with the largest result of its branches.
\<close>

section \<open>The branch a union takes\<close>

definition results :: "js_value list \<Rightarrow> js_value list" where
  "results rs = filter (\<lambda>r. r \<noteq> Undefined) rs"

definition largest :: "js_value list \<Rightarrow> js_value" where
  "largest rs = (case filter (\<lambda>r. list_all (\<lambda>r'. result_weight r' \<le> result_weight r) (results rs)) (results rs) of
     [] \<Rightarrow> Undefined | r # _ \<Rightarrow> r)"

fun pick :: "js_value \<Rightarrow> js_value \<times> nat option \<Rightarrow> js_value \<times> nat option" where
  "pick r (lastValue, lastSize) =
     (if r \<noteq> Undefined \<and> (case lastSize of None \<Rightarrow> True | Some n \<Rightarrow> n < result_weight r)
      then (r, Some (result_weight r)) else (lastValue, lastSize))"

lemma branch_loop_pick:
  assumes "run_each (map (\<lambda>s. rec v s ctx) ss) refs = Inr (rs, refs')"
  shows "branch_loop rec v ctx ss lastValue lastSize refs = Inr (fst (fold pick rs (lastValue, lastSize)), refs')"
  using assms
proof (induction ss arbitrary: refs rs lastValue lastSize)
  case (Cons s ss)
  from Cons.prems obtain r refs1 rest where "rec v s ctx refs = Inr (r, refs1)"
    "run_each (map (\<lambda>s. rec v s ctx) ss) refs1 = Inr (rest, refs')" "rs = r # rest"
    by (auto split: sum.splits)
  with Cons.IH show ?case by simp
qed simp

lemma largest_exists:
  assumes "results rs \<noteq> []"
  obtains r where "r \<in> set (results rs)" "\<And>r'. r' \<in> set (results rs) \<Longrightarrow> result_weight r' \<le> result_weight r" "largest rs = r"
proof -
  let ?max = "filter (\<lambda>r. list_all (\<lambda>r'. result_weight r' \<le> result_weight r) (results rs)) (results rs)"
  have "Max (result_weight ` set (results rs)) \<in> result_weight ` set (results rs)" using assms by (intro Max_in) auto
  then obtain r where r: "r \<in> set (results rs)" "result_weight r = Max (result_weight ` set (results rs))" by (metis imageE)
  then have "r \<in> set ?max" by (simp add: list_all_iff)
  then obtain x xs where x: "?max = x # xs" by (cases ?max) auto
  then have "x \<in> set ?max" by simp
  then have "x \<in> set (results rs)" "\<And>r'. r' \<in> set (results rs) \<Longrightarrow> result_weight r' \<le> result_weight x"
    by (simp_all add: list_all_iff)
  moreover from x have "largest rs = x" by (simp add: largest_def)
  ultimately show thesis using that by blast
qed

lemma results_snoc: "results (rs @ [r]) = (if r = Undefined then results rs else results rs @ [r])"
  by (simp add: results_def)

lemma largest_snoc:
  assumes "r \<noteq> Undefined"
  shows "largest (rs @ [r]) = (if results rs = [] \<or> result_weight (largest rs) < result_weight r then r else largest rs)"
proof (cases "results rs = []")
  case True
  with assms show ?thesis by (simp add: largest_def results_snoc)
next
  case False
  then obtain b where b: "b \<in> set (results rs)" "\<And>x. x \<in> set (results rs) \<Longrightarrow> result_weight x \<le> result_weight b" "largest rs = b"
    by (rule largest_exists) blast
  show ?thesis
  proof (cases "result_weight b < result_weight r")
    case True
    then have "filter (\<lambda>x. list_all (\<lambda>r'. result_weight r' \<le> result_weight x) (results rs @ [r])) (results rs) = []"
      using b(2) by (fastforce simp: filter_empty_conv)
    moreover have "list_all (\<lambda>r'. result_weight r' \<le> result_weight r) (results rs)"
      using True b(2) by (force simp: list_all_iff)
    ultimately show ?thesis using True False b(3) assms by (simp add: largest_def results_snoc)
  next
    case smaller: False
    have "filter (\<lambda>x. list_all (\<lambda>r'. result_weight r' \<le> result_weight x) (results rs @ [r])) (results rs) =
        filter (\<lambda>x. list_all (\<lambda>r'. result_weight r' \<le> result_weight x) (results rs)) (results rs)"
      using smaller b(1,2) by (intro filter_cong) (auto simp: list_all_iff intro: order_trans)
    moreover have "filter (\<lambda>x. list_all (\<lambda>r'. result_weight r' \<le> result_weight x) (results rs)) (results rs) \<noteq> []"
      using b(1,2) by (auto simp: filter_empty_conv list_all_iff)
    ultimately show ?thesis using smaller False b(3) assms
      by (auto simp: largest_def results_snoc split: list.splits)
  qed
qed

lemma fold_pick:
  "fold pick rs (Undefined, None) = (largest rs, if results rs = [] then None else Some (result_weight (largest rs)))"
proof (induction rs rule: rev_induct)
  case Nil
  then show ?case by (simp add: results_def largest_def)
next
  case (snoc r rs)
  have undef: "largest (rs @ [r]) = largest rs" if "r = Undefined" using that by (simp add: largest_def results_snoc)
  show ?case
    by (cases "r = Undefined") (use snoc undef largest_snoc [of r rs] in \<open>auto simp: results_snoc\<close>)
qed

text \<open>
  A union takes the result of the branch that keeps most of the value: of the defined results of its
  branches, each transformed strictly, the first one of the greatest size. With none it keeps the
  value, or nothing when it is strict itself.
\<close>

theorem union_takes_largest_result:
  assumes "v \<noteq> Undefined" and "run_each (map (\<lambda>s. rec v s (ctx\<lparr>tc_return := False\<rparr>)) elements) refs = Inr (rs, refs')"
  shows "transformUnion rec v elements ctx refs = Inr (if largest rs = Undefined \<and> tc_return ctx then v else largest rs, refs')"
  using assms(1) branch_loop_pick [where rec = rec and ctx = "ctx\<lparr>tc_return := False\<rparr>" and v = v and ss = elements, OF assms(2), of Undefined None] by (simp add: transformUnion_def fold_pick)

section \<open>The shape of a result\<close>

fun reference_free :: "any_schema \<Rightarrow> bool" where
  "reference_free (ObjectSchema i d identity properties additional) =
     (list_all (\<lambda>p. reference_free (snd p)) properties \<and>
      (case additional of None \<Rightarrow> True | Some (n, s) \<Rightarrow> reference_free s))"
| "reference_free (UnionSchema i d elements) = list_all reference_free elements"
| "reference_free (ArraySchema i d element) = reference_free element"
| "reference_free (TupleSchema i d elements) = list_all reference_free elements"
| "reference_free (ReferenceSchema i d identity) = False"
| "reference_free s = True"

function shaped :: "any_schema \<Rightarrow> js_value \<Rightarrow> bool" where
  "shaped (BooleanSchema i d) r = (r = Null \<and> nullable i \<or> isAnyBoolean r)"
| "shaped (NumberSchema i d format) r = (r = Null \<and> nullable i \<or> (case r of Num n \<Rightarrow> True | _ \<Rightarrow> False))"
| "shaped (StringSchema i d format) r = (r = Null \<and> nullable i \<or> isAnyString r)"
| "shaped (EnumSchema i d options) r =
     (r = Null \<and> nullable i \<or> map_option enum_js (enum_default d) = Some r \<or> list_ex (\<lambda>x. r = enum_js (option_value x)) options)"
| "shaped (ReferenceSchema i d identity) r = True"
| "shaped (UnionSchema i d elements) r = (r = Null \<and> nullable i \<or> list_ex (\<lambda>s. shaped s r) elements)"
| "shaped (ArraySchema i d element) r =
     (r = Null \<and> nullable i \<or> arr_default d = Some r \<or>
      (case r of Arr a ys \<Rightarrow> list_all (\<lambda>y. y = Undefined \<or> shaped element y) ys | Str s \<Rightarrow> arr_encoded d | _ \<Rightarrow> False))"
| "shaped (TupleSchema i d elements) r =
     (r = Null \<and> nullable i \<or> tuple_default d = Some r \<or>
      (case r of Arr a ys \<Rightarrow> length ys = length elements \<and>
         list_all (\<lambda>p. js_elem ys (fst p) = Undefined \<or> shaped (snd p) (js_elem ys (fst p))) (List.enumerate 0 elements)
       | _ \<Rightarrow> False))"
| "shaped (ObjectSchema i d identity properties additional) r =
     (r = Null \<and> nullable i \<or> obj_default d = Some r \<or>
      (case r of
         Obj a plain fs \<Rightarrow> list_all (\<lambda>f. list_ex (\<lambda>p. shaped (snd p) (snd f)) properties \<or> extensible d \<or>
           (case additional of None \<Rightarrow> False | Some (n, s) \<Rightarrow> shaped s (snd f))) fs
       | Str s \<Rightarrow> obj_encoded d | _ \<Rightarrow> False))"
  by pat_completeness auto

termination
proof (relation "measure (\<lambda>(s, r). size s)")
qed (auto simp: less_Suc_eq_le dest: enumerate_size property_size intro: schema_size_intros)

definition produces :: "(references \<Rightarrow> transformation) \<Rightarrow> (js_value \<Rightarrow> bool) \<Rightarrow> bool" where
  "produces act Q = (\<forall>refs. \<exists>r refs'. act refs = Inr (r, refs') \<and> (r = Undefined \<or> Q r))"

lemma producesI: "(\<And>refs. \<exists>r refs'. act refs = Inr (r, refs') \<and> (r = Undefined \<or> Q r)) \<Longrightarrow> produces act Q"
  by (simp add: produces_def)

lemma producesE:
  assumes "produces act Q"
  obtains r refs' where "act refs = Inr (r, refs')" "r = Undefined \<or> Q r"
  using assms unfolding produces_def by blast

lemma run_each_produces:
  assumes "\<And>x. x \<in> set xs \<Longrightarrow> produces (act x) (Q x)"
  shows "\<exists>rs refs'. run_each (map act xs) refs = Inr (rs, refs') \<and> length rs = length xs \<and>
    (\<forall>j < length xs. rs ! j = Undefined \<or> Q (xs ! j) (rs ! j))"
  using assms
proof (induction xs arbitrary: refs)
  case (Cons x xs)
  obtain r refs1 where x: "act x refs = Inr (r, refs1)" "r = Undefined \<or> Q x r"
    using producesE [OF Cons.prems [of x]] by (metis list.set_intros(1))
  have "\<exists>rs refs'. run_each (map act xs) refs1 = Inr (rs, refs') \<and> length rs = length xs \<and>
      (\<forall>j < length xs. rs ! j = Undefined \<or> Q (xs ! j) (rs ! j))"
    by (rule Cons.IH) (use Cons.prems in simp)
  then obtain rs refs' where "run_each (map act xs) refs1 = Inr (rs, refs')" "length rs = length xs"
    "\<forall>j < length xs. rs ! j = Undefined \<or> Q (xs ! j) (rs ! j)" by blast
  with x show ?case by (intro exI [of _ "r # rs"] exI [of _ refs']) (auto simp: less_Suc_eq_0_disj nth_Cons split: nat.split)
qed simp

section \<open>Strict transformations keep the shape\<close>

lemma strict_value [simp]: "\<not> tc_return ctx \<Longrightarrow> unless_strict ctx v = Undefined"
  by (simp add: unless_strict_def)

lemma check_literal_cases: "check_literal ctx l r = r \<or> check_literal ctx l r = Undefined"
  by (simp add: check_literal_def split: option.split)

lemma scalar_shaped:
  assumes "\<not> tc_return ctx" and "isScalarSchema s"
  shows "transformScalar E v s ctx = Undefined \<or> shaped s (transformScalar E v s ctx)"
proof (cases s)
  case (BooleanSchema i d)
  have "getBooleanValue v ctx = Undefined \<or> isAnyBoolean (getBooleanValue v ctx)"
    using assms(1) by (simp add: getBooleanValue_def)
  with BooleanSchema check_literal_cases [of ctx "map_option Bool (bool_value d)" "getBooleanValue v ctx"] show ?thesis
    by (auto simp: transformScalar_def transformBoolean_def value_or_undefined_def split: option.split)
next
  case (NumberSchema i d f)
  have "getNumberValue E v ctx = Undefined \<or> (\<exists>n. getNumberValue E v ctx = Num n)"
    using assms(1) by (simp add: getNumberValue_def split: js_value.split js_number.split)
  with NumberSchema check_literal_cases [of ctx "map_option Num (num_value d)" "getNumberValue E v ctx"] show ?thesis
    by (auto simp: transformScalar_def transformNumber_def value_or_undefined_def split: option.split)
next
  case (StringSchema i d f)
  have "getStringValue E v d ctx = Undefined \<or> (\<exists>t. getStringValue E v d ctx = Str t)"
    using assms(1) by (simp add: getStringValue_def split: js_value.split)
  with StringSchema check_literal_cases [of ctx "map_option Str (str_value d)" "getStringValue E v d ctx"] show ?thesis
    by (auto simp: transformScalar_def transformString_def value_or_undefined_def split: option.split)
qed (use assms(2) in \<open>simp_all add: isScalarSchema_def\<close>)

lemma enum_shaped:
  assumes "\<not> tc_return ctx"
  shows "transformEnum E v d options ctx = Undefined \<or> shaped (EnumSchema i d options) (transformEnum E v d options ctx)"
  using assms by (auto simp: transformEnum_def value_or_undefined_def list_ex_iff find_Some_iff split: option.split)

lemma array_elements_shaped:
  assumes "\<And>x. produces (rec x element (ctx\<lparr>tc_convert := (if arr_encoded d then False else tc_convert ctx)\<rparr>)) (shaped element)"
  shows "produces (array_elements E rec given xs d element ctx) (shaped (ArraySchema i d element))"
proof (rule producesI)
  fix refs
  let ?local = "ctx\<lparr>tc_convert := (if arr_encoded d then False else tc_convert ctx)\<rparr>"
  obtain ys refs' where "run_each (map (\<lambda>x. rec x element ?local) xs) refs = Inr (ys, refs')" "length ys = length xs"
    "\<forall>j < length xs. ys ! j = Undefined \<or> shaped element (ys ! j)"
    using run_each_produces [of xs "\<lambda>x. rec x element ?local" "\<lambda>x. shaped element" refs] assms by blast
  then show "\<exists>r refs'. array_elements E rec given xs d element ctx refs = Inr (r, refs') \<and>
      (r = Undefined \<or> shaped (ArraySchema i d element) r)"
    by (auto simp: array_elements_def list_all_length)
qed

lemma array_shaped:
  assumes "\<And>x. produces (rec x element (ctx\<lparr>tc_convert := (if arr_encoded d then False else tc_convert ctx)\<rparr>)) (shaped element)"
    and "\<not> tc_return ctx"
  shows "produces (transformArray E rec v d element ctx) (shaped (ArraySchema i d element))"
proof -
  note elements = array_elements_shaped [where rec = rec and element = element and ctx = ctx and d = d, OF assms(1)]
  show ?thesis
  proof (cases "v = Undefined")
    case True
    then show ?thesis
      by (auto simp: produces_def transformArray_def value_or_undefined_def split: option.split)
  next
    case False
    then show ?thesis
      using assms(2) elements by (simp add: produces_def transformArray_def del: shaped.simps split: js_value.split)
  qed
qed

lemma tuple_elements_shaped:
  assumes "\<And>s x. s \<in> set elements \<Longrightarrow> produces (rec x s ctx) (shaped s)"
  shows "produces (tuple_elements rec xs elements ctx) (shaped (TupleSchema i d elements))"
proof (rule producesI)
  fix refs
  let ?act = "\<lambda>p. rec (js_elem xs (fst p)) (snd p) ctx"
  have "produces (?act p) (shaped (snd p))" if "p \<in> set (List.enumerate 0 elements)" for p
    using that nth_mem [of "fst p" elements] by (intro assms) (auto simp: in_set_enumerate_eq)
  from run_each_produces [of "List.enumerate 0 elements" ?act "\<lambda>p. shaped (snd p)", OF this, of refs]
  obtain ys refs' where "run_each (map ?act (List.enumerate 0 elements)) refs = Inr (ys, refs')"
    "length ys = length elements" "\<forall>j < length elements. ys ! j = Undefined \<or> shaped (elements ! j) (ys ! j)"
    by (auto simp: nth_enumerate_eq)
  then show "\<exists>r refs'. tuple_elements rec xs elements ctx refs = Inr (r, refs') \<and> (r = Undefined \<or> shaped (TupleSchema i d elements) r)"
    by (auto simp: tuple_elements_def case_prod_unfold list_all_iff in_set_enumerate_eq js_elem_def)
qed

lemma tuple_shaped:
  assumes "\<And>s x. s \<in> set elements \<Longrightarrow> produces (rec x s ctx) (shaped s)" and "\<not> tc_return ctx"
  shows "produces (transformTuple rec v d elements ctx) (shaped (TupleSchema i d elements))"
proof (cases "v = Undefined")
  case True
  then show ?thesis by (auto simp: produces_def transformTuple_def value_or_undefined_def split: option.split)
next
  case False
  note elements = tuple_elements_shaped [where rec = rec and elements = elements and ctx = ctx, OF assms(1)]
  from False show ?thesis
    using assms(2) elements by (simp add: produces_def transformTuple_def del: shaped.simps split: js_value.split)
qed

lemma union_shaped:
  assumes "\<And>s. s \<in> set elements \<Longrightarrow> produces (rec v s (ctx\<lparr>tc_return := False\<rparr>)) (shaped s)" and "\<not> tc_return ctx"
  shows "produces (transformUnion rec v elements ctx) (shaped (UnionSchema i d elements))"
proof (rule producesI)
  fix refs
  let ?act = "\<lambda>s. rec v s (ctx\<lparr>tc_return := False\<rparr>)"
  from run_each_produces [of elements ?act shaped, OF assms(1), of refs] obtain rs refs' where
    rs: "run_each (map ?act elements) refs = Inr (rs, refs')" "length rs = length elements"
    "\<forall>j < length elements. rs ! j = Undefined \<or> shaped (elements ! j) (rs ! j)" by blast
  have "largest rs = Undefined \<or> list_ex (\<lambda>s. shaped s (largest rs)) elements"
  proof (cases "results rs = []")
    case True
    then show ?thesis by (simp add: largest_def)
  next
    case False
    then obtain r where "r \<in> set rs" "r \<noteq> Undefined" "largest rs = r"
      by (rule largest_exists) (auto simp: results_def)
    then obtain j where "j < length elements" "rs ! j = largest rs" "largest rs \<noteq> Undefined"
      using rs(2) by (auto simp: in_set_conv_nth)
    with rs(3) show ?thesis by (metis list_ex_length)
  qed
  then show "\<exists>r refs'. transformUnion rec v elements ctx refs = Inr (r, refs') \<and> (r = Undefined \<or> shaped (UnionSchema i d elements) r)"
    using branch_loop_pick [where rec = rec and ctx = "ctx\<lparr>tc_return := False\<rparr>" and v = v and ss = elements, OF rs(1), of Undefined None]
      assms(2) by (auto simp: transformUnion_def fold_pick)
qed

text \<open>Every property of an object the loops build comes from a branch of the schema.\<close>

definition built_ok :: "(js_value \<Rightarrow> bool) \<Rightarrow> (string \<times> js_value) list \<Rightarrow> bool" where
  "built_ok Q built = (\<forall>f \<in> set built. Q (snd f))"

lemma built_ok_set: "built_ok Q built \<Longrightarrow> Q v \<Longrightarrow> built_ok Q (obj_set k v built)"
  by (auto simp: built_ok_def obj_set_def Let_def dest: set_takeWhileD set_dropWhileD split: if_splits)

lemma property_loop_shaped:
  assumes "\<And>s x. s \<in> snd ` set properties \<Longrightarrow> produces (rec x s ctx) (shaped s)"
    and "\<And>s r. s \<in> snd ` set properties \<Longrightarrow> shaped s r \<Longrightarrow> Q r" and "built_ok Q built"
  shows "\<exists>built' full' refs'. property_loop rec fs ctx properties built full refs = Inr (built', full', refs') \<and> built_ok Q built'"
  using assms
proof (induction properties arbitrary: built full refs)
  case (Cons p properties)
  obtain k s where p: "p = (k, s)" by fastforce
  let ?raw = "js_prop fs (getPropertyName k (tc_inputStyle ctx))"
  obtain r refs1 where r: "rec ?raw s ctx refs = Inr (r, refs1)" "r = Undefined \<or> shaped s r"
    using producesE [OF Cons.prems(1) [of s]] p by (metis image_eqI list.set_intros(1) snd_conv)
  have rest: "\<exists>built' full' refs'. property_loop rec fs ctx properties b full refs1 = Inr (built', full', refs') \<and> built_ok Q built'"
    if "built_ok Q b" for b full
  proof (rule Cons.IH [OF _ _ that])
    show "produces (rec x t ctx) (shaped t)" if "t \<in> snd ` set properties" for t x using that by (intro Cons.prems(1)) auto
    show "Q r" if "t \<in> snd ` set properties" "shaped t r" for t r using that by (intro Cons.prems(2) [of t]) auto
  qed
  have "built_ok Q (obj_set n r built)" if "r \<noteq> Undefined" for n
    using r(2) that Cons.prems(2) [of s r] Cons.prems(3) p by (auto intro: built_ok_set)
  with r rest Cons.prems(3) p show ?case by (simp add: Let_def)
qed simp

lemma extra_loop_shaped:
  assumes "\<And>x. produces (rec x s ctx) (shaped s)" and "\<And>r. shaped s r \<Longrightarrow> Q r" and "built_ok Q built"
  shows "\<exists>built' rest refs'. extra_loop rec fs d s ctx ks built refs = Inr (built', rest, refs') \<and> built_ok Q built'"
  using assms(3)
proof (induction ks arbitrary: built refs)
  case (Cons k ks)
  obtain r refs1 where r: "rec (js_prop fs k) s ctx refs = Inr (r, refs1)" "r = Undefined \<or> shaped s r"
    using assms(1) by (rule producesE)
  show ?case
  proof (cases "r = Undefined")
    case True
    with r Cons.IH [OF Cons.prems, of refs1] show ?thesis by auto
  next
    case False
    with r(2) assms(2) have "built_ok Q (obj_set (extra_name d ctx k) r built)" by (intro built_ok_set Cons.prems) auto
    from Cons.IH [OF this, of refs1] r(1) False show ?thesis by simp
  qed
qed simp

lemma copy_extra_shaped:
  assumes "built_ok Q built" and "extensible d \<Longrightarrow> Q = (\<lambda>r. True)"
  shows "built_ok Q (copy_extra fs d ctx rest built)"
  using assms by (auto simp: copy_extra_def built_ok_def)

lemma object_shaped:
  assumes props: "\<And>s x. s \<in> snd ` set properties \<Longrightarrow>
      produces (rec x s (ctx\<lparr>tc_convert := (if obj_encoded d then False else tc_convert ctx)\<rparr>)) (shaped s)"
    and extra: "\<And>n s x. additional = Some (n, s) \<Longrightarrow>
      produces (rec x s (ctx\<lparr>tc_convert := (if obj_encoded d then False else tc_convert ctx)\<rparr>)) (shaped s)"
    and strict: "\<not> tc_return ctx"
  shows "produces (transformObject E rec v i d identity properties additional ctx) (shaped (ObjectSchema i d identity properties additional))"
proof (rule producesI)
  fix refs
  let ?local = "ctx\<lparr>tc_convert := (if obj_encoded d then False else tc_convert ctx)\<rparr>"
  let ?s = "ObjectSchema i d identity properties additional"
  let ?Q = "\<lambda>r. list_ex (\<lambda>p. shaped (snd p) r) properties \<or> extensible d \<or>
    (case additional of None \<Rightarrow> False | Some (n, s) \<Rightarrow> shaped s r)"
  have finish: "finish_object E v d built = Undefined \<or> shaped ?s (finish_object E v d built)" if "built_ok ?Q built" for built
    using that by (auto simp: finish_object_def built_ok_def list_all_iff)
  have copy: "built_ok ?Q (copy_extra fs d ctx rest built)" if "built_ok ?Q built" for fs rest built
    using that by (rule copy_extra_shaped) simp
  have from_extra: "?Q r" if "additional = Some (n, s)" "shaped s r" for n s r using that by simp
  have from_props: "?Q r" if "s \<in> snd ` set properties" "shaped s r" for s r using that by (auto simp: list_ex_iff)
  show "\<exists>r refs'. transformObject E rec v i d identity properties additional ctx refs = Inr (r, refs') \<and> (r = Undefined \<or> shaped ?s r)"
  proof (cases "v = Undefined")
    case True
    then show ?thesis by (auto simp: transformObject_def value_or_undefined_def split: option.split)
  next
    case v: False
    show ?thesis
    proof (cases "if obj_encoded d then decodeBase64Json E v else v")
      case (Obj r plain fs)
      let ?extra = "filter (\<lambda>k. k \<notin> set (map (\<lambda>(k, s). getPropertyName k (tc_inputStyle ctx)) properties)) (obj_keys fs)"
      have from_loop: "\<exists>built full refs1. property_loop rec fs ?local properties [] True (register ?s identity refs) = Inr (built, full, refs1)
        \<and> built_ok ?Q built"
      proof (rule property_loop_shaped)
        show "produces (rec x s ?local) (shaped s)" if "s \<in> snd ` set properties" for s x by (rule props [OF that])
        show "?Q r" if "s \<in> snd ` set properties" "shaped s r" for s r by (rule from_props [OF that])
      qed (simp add: built_ok_def)
      obtain built full refs1 where b: "property_loop rec fs ?local properties [] True (register ?s identity refs) = Inr (built, full, refs1)"
        "built_ok ?Q built"
        using from_loop by blast
      show ?thesis
      proof (cases additional)
        case None
        with v Obj b finish [OF copy [OF b(2)]] show ?thesis
          unfolding transformObject_def by (auto simp: Let_def simp del: shaped.simps)
      next
        case (Some a)
        obtain n s where a: "additional = Some (n, s)" using Some by (cases a) auto
        obtain built' rest refs2 where e: "extra_loop rec fs d s ?local ?extra built refs1 = Inr (built', rest, refs2)" "built_ok ?Q built'"
          using extra_loop_shaped [of rec s ?local ?Q built fs d ?extra refs1, OF extra [OF a] from_extra [OF a] b(2)] by blast
        with v Obj b a finish [OF copy [OF e(2)]] show ?thesis
          unfolding transformObject_def by (auto simp: Let_def simp del: shaped.simps)
      qed
    qed (use v strict in \<open>simp_all add: transformObject_def\<close>)
  qed
qed

lemma transform_shaped:
  "reference_free s \<Longrightarrow> size s < stack \<Longrightarrow> \<not> tc_return ctx \<Longrightarrow> produces (transformAny E stack v s ctx) (shaped s)"
proof (induction stack arbitrary: s v ctx)
  case (Suc stack)
  show ?case
  proof (cases "v = Null \<and> nullable (info s)")
    case True
    then show ?thesis by (cases s) (simp_all add: produces_def)
  next
    case no_null: False
    show ?thesis
    proof (cases s)
      case (ArraySchema i d element)
      with Suc have "produces (transformAny E stack x element (ctx\<lparr>tc_convert := c\<rparr>)) (shaped element)" for x c by simp
      from array_shaped [where rec = "transformAny E stack" and element = element and ctx = ctx and d = d and i = i and v = v, OF this Suc.prems(3)] ArraySchema no_null
      show ?thesis by (auto simp: produces_def simp del: shaped.simps)
    next
      case (TupleSchema i d elements)
      have "produces (transformAny E stack x t ctx) (shaped t)" if "t \<in> set elements" for x t
        using that Suc.prems TupleSchema size_list_estimation' [OF that order_refl, of size] by (intro Suc.IH) (auto simp: list_all_iff)
      from tuple_shaped [where rec = "transformAny E stack" and elements = elements and ctx = ctx and d = d and i = i and v = v, OF this Suc.prems(3)] TupleSchema no_null
      show ?thesis by (auto simp: produces_def simp del: shaped.simps)
    next
      case (UnionSchema i d elements)
      have "produces (transformAny E stack v t (ctx\<lparr>tc_return := False\<rparr>)) (shaped t)" if "t \<in> set elements" for t
        using that Suc.prems UnionSchema size_list_estimation' [OF that order_refl, of size] by (intro Suc.IH) (auto simp: list_all_iff)
      from union_shaped [where rec = "transformAny E stack" and elements = elements and ctx = ctx and d = d and i = i and v = v, OF this Suc.prems(3)] UnionSchema no_null
      show ?thesis by (auto simp: produces_def simp del: shaped.simps)
    next
      case (ObjectSchema i d identity properties additional)
      have "produces (transformAny E stack x t (ctx\<lparr>tc_convert := c\<rparr>)) (shaped t)" if "t \<in> snd ` set properties" for x t c
        using that Suc.prems ObjectSchema by (intro Suc.IH) (auto simp: list_all_iff dest: property_size)
      moreover have "produces (transformAny E stack x t (ctx\<lparr>tc_convert := c\<rparr>)) (shaped t)" if "additional = Some (n, t)" for n x t c
        using that Suc.prems ObjectSchema by (intro Suc.IH) auto
      ultimately have "produces (transformObject E (transformAny E stack) v i d identity properties additional ctx) (shaped s)"
        unfolding ObjectSchema by (intro object_shaped Suc.prems(3))
      with ObjectSchema no_null show ?thesis by (auto simp: produces_def simp del: shaped.simps)
    qed (use Suc.prems no_null scalar_shaped [OF Suc.prems(3), of s E v] enum_shaped [OF Suc.prems(3)] in
      \<open>auto simp: produces_def isScalarSchema_def simp del: shaped.simps\<close>)
  qed
qed simp


section \<open>Samples\<close>

definition sample_conversions :: transform_engine where
  "sample_conversions = \<lparr>numberOf = (\<lambda>v. NaN), stringOf = (\<lambda>n. []), decodeJson = (\<lambda>s. None),
     lowerCase = (\<lambda>s. s), upperCase = (\<lambda>s. s), encodeJson = (\<lambda>v. [])\<rparr>"

definition sample_options :: "string list \<Rightarrow> any_schema" where
  "sample_options ks = ObjectSchema plain_info no_object_definitions None
     (map (\<lambda>k. (k, BooleanSchema plain_info \<lparr>def_custom = False, def_types = None, bool_default = None, bool_value = None\<rparr>)) ks) None"

definition sample_flags :: js_value where
  "sample_flags = Obj 0 True [(''on'', Bool True), (''off'', Str ''false'')]"

lemmas sample_option_defs = sample_options_def sample_flags_def plain_info_def no_object_definitions_def

lemma sample_transformed:
  "transformAny sample_conversions 2 sample_flags (sample_options [''on'']) (createTransformContext None None None (Some False)) refs =
     Inr (Obj 0 True [(''on'', Bool True)], refs)"
  "transformAny sample_conversions 2 sample_flags (sample_options [''on'', ''off'']) (createTransformContext None None None (Some False)) refs =
     Inr (Obj 0 True [(''on'', Bool True), (''off'', Bool False)], refs)"
  by (simp_all add: numeral_2_eq_2 sample_option_defs createTransformContext_def transformObject_def transformScalar_def
      transformBoolean_def getBooleanValue_def check_literal_def getPropertyName_def js_prop_def obj_get_def obj_set_def
      finish_object_def copy_extra_def register_def Let_def is_array_index_def is_digit_char_def obj_keys_def)

text \<open>The second branch keeps both flags and wins over the first one.\<close>

theorem union_takes_largest_result_witness:
  "transformUnion (transformAny sample_conversions 2) sample_flags [sample_options [''on''], sample_options [''on'', ''off'']]
     (createTransformContext None None None None) (\<lambda>n. None) =
   Inr (Obj 0 True [(''on'', Bool True), (''off'', Bool False)], \<lambda>n. None)"
proof -
  let ?strict = "createTransformContext None None None (Some False)"
  have strict: "(createTransformContext None None None None)\<lparr>tc_return := False\<rparr> = ?strict" by (simp add: createTransformContext_def)
  have each: "run_each (map (\<lambda>s. transformAny sample_conversions 2 sample_flags s ((createTransformContext None None None None)\<lparr>tc_return := False\<rparr>))
      [sample_options [''on''], sample_options [''on'', ''off'']]) (\<lambda>n. None) =
      Inr ([Obj 0 True [(''on'', Bool True)], Obj 0 True [(''on'', Bool True), (''off'', Bool False)]], \<lambda>n. None)"
    unfolding strict by (simp add: sample_transformed)
  have given: "sample_flags \<noteq> Undefined" by (simp add: sample_flags_def)
  have "largest [Obj 0 True [(''on'', Bool True)], Obj 0 True [(''on'', Bool True), (''off'', Bool False)]] =
      Obj 0 True [(''on'', Bool True), (''off'', Bool False)]"
    by (simp add: largest_def results_def result_weight_def objectSize_def)
  then show ?thesis 
    by (simp only: union_takes_largest_result [where rec = "transformAny sample_conversions 2" and
        ctx = "createTransformContext None None None None", OF given each]) simp
qed


end
