(* ===== verification/Queue_Records.thy ===== *)
theory Queue_Records
  imports Queue_History Local_Claims Js_Value
begin

text \<open>
  How a subscription of the local queue processes one message: \<open>processRecord\<close> and its helpers of
  \<open>providers/local/local-queue/src/handlers/lambda.ts\<close>, with \<open>utils/defer.ts\<close> and \<open>utils/idempotency.ts\<close> of
  \<open>contracts/queue\<close> and \<open>Wait.delay\<close> of \<open>foundation/utils\<close>. The record runs in steps between its awaits; what other
  records, deliveries and timers do in between is part of the execution, an argument, as are the clock, the random
  numbers, and how the handler and its listener answer. Handlers that run and the messages of the log are kept in the world.
\<close>

section \<open>Settings\<close>

record message_attributes =
  ma_traceId :: string
  ma_scope :: "string option"
  ma_defers :: "nat option"
  ma_deferUntil :: "rat option"

type_synonym delivery = "message_attributes received_message"

datatype acknowledge = AcknowledgeRecord | AcknowledgeBatch

record queue_service =
  sv_timeout :: "rat option"
  sv_maxAttempts :: "nat option"
  sv_minDelay :: "rat option"
  sv_maxDelay :: "rat option"

record queue_subscription =
  sb_handler :: string
  sb_idempotency :: "(string list \<times> rat) option"
  sb_keyConcurrency :: "(string list \<times> nat) option"
  sb_parallelism :: "rat option"
  sb_acknowledge :: "acknowledge option"

definition Defaults_Timeout :: rat where "Defaults_Timeout = 150"
definition Defaults_MaxAttempts :: nat where "Defaults_MaxAttempts = 3"
definition Defaults_MinBackoff :: rat where "Defaults_MinBackoff = 5"
definition Defaults_MaxBackoff :: rat where "Defaults_MaxBackoff = 30"
definition Defaults_Parallelism :: rat where "Defaults_Parallelism = 1"
definition Defaults_Acknowledge :: acknowledge where "Defaults_Acknowledge = AcknowledgeRecord"

definition or_default :: "'a \<Rightarrow> 'a option \<Rightarrow> 'a" where
  "or_default d x = (case x of None \<Rightarrow> d | Some v \<Rightarrow> v)"

text \<open>
  What a batch runs with: the queue and its identifiers, the service and the subscription, and the text \<open>JSON.stringify\<close>
  gives.
\<close>

record batch_context =
  cx_par :: queue_parameters
  cx_uuid :: "nat \<Rightarrow> string"
  cx_service :: queue_service
  cx_subscription :: queue_subscription
  cx_json :: "js_value \<Rightarrow> string"

definition batch_timeout :: "batch_context \<Rightarrow> rat" where
  "batch_timeout cx = or_default Defaults_Timeout (sv_timeout (cx_service cx)) * 1000"

definition batch_maxAttempts :: "batch_context \<Rightarrow> nat" where
  "batch_maxAttempts cx = or_default Defaults_MaxAttempts (sv_maxAttempts (cx_service cx))"

definition batch_acknowledge :: "batch_context \<Rightarrow> acknowledge" where
  "batch_acknowledge cx = or_default Defaults_Acknowledge (sb_acknowledge (cx_subscription cx))"

section \<open>The world of a record\<close>

datatype log_entry =
    HandlerRuns string js_value
  | AlreadyRan string
  | KeyBusy string
  | RecordFailed string nat "rat option"
  | ComesBack string rat

record world =
  wo_queue :: "message_attributes local_queue"
  wo_claims :: local_claims
  wo_abandoned :: bool
  wo_log :: "log_entry list"

definition logged :: "log_entry \<Rightarrow> world \<Rightarrow> world" where
  "logged e w = w\<lparr>wo_log := wo_log w @ [e]\<rparr>"

section \<open>Delays and keys\<close>

definition trunc :: "rat \<Rightarrow> int" where
  "trunc x = (if x < 0 then \<lceil>x\<rceil> else \<lfloor>x\<rfloor>)"

text \<open>\<open>r\<close> is what \<open>Math.random\<close> gives.\<close>

definition getRandomInteger :: "rat \<Rightarrow> rat \<Rightarrow> rat \<Rightarrow> int" where
  "getRandomInteger r low high = trunc (r * (high - low + 1) + low)"

definition wait_delay :: "rat \<Rightarrow> nat \<Rightarrow> nat \<Rightarrow> rat \<Rightarrow> rat \<Rightarrow> rat" where
  "wait_delay r attempt maxAttempts minDelay maxDelay =
     (let priorScale = (of_nat attempt - 1) / of_nat maxAttempts;
          newerScale = of_nat attempt / of_nat maxAttempts;
          range = maxDelay - minDelay;
          lower = range / 2 * priorScale;
          upper = range * newerScale
      in min maxDelay (minDelay + of_int (getRandomInteger r lower upper)))"

definition MaxDeferCount :: nat where "MaxDeferCount = 20"

definition MaxDeferDelay :: rat where "MaxDeferDelay = 900"

definition field_of :: "js_value \<Rightarrow> string \<Rightarrow> js_value" where
  "field_of message name = (case message of Obj _ _ fs \<Rightarrow> js_prop fs name | _ \<Rightarrow> Undefined)"

definition getIdempotencyKey :: "(js_value \<Rightarrow> string) \<Rightarrow> string \<Rightarrow> js_value \<Rightarrow> string list \<Rightarrow> string" where
  "getIdempotencyKey json handlerName message keyFields = json (Arr 0 (Str handlerName # map (field_of message) keyFields))"

definition getConcurrencySlotKey :: "(js_value \<Rightarrow> string) \<Rightarrow> string \<Rightarrow> js_value \<Rightarrow> string list \<Rightarrow> nat \<Rightarrow> string" where
  "getConcurrencySlotKey json handlerName message keyFields slot =
     json (Obj 0 True [(''handler'', Str handlerName), (''key'', Arr 0 (map (field_of message) keyFields)), (''slot'', Num (Fin (of_nat slot)))])"

definition getSlotWaitDelay :: "rat \<Rightarrow> int" where
  "getSlotWaitDelay r = getRandomInteger r 5 30"

section \<open>What a record does to the queue and to the claims\<close>

datatype failure = UnknownOutcomeError | OtherError

definition isUnknownOutcomeError :: "failure \<Rightarrow> bool" where
  "isUnknownOutcomeError e = (e = UnknownOutcomeError)"

definition ackMessage :: "batch_context \<Rightarrow> rat \<Rightarrow> delivery \<Rightarrow> world \<Rightarrow> world" where
  "ackMessage cx now m w =
     (if wo_abandoned w then w
      else w\<lparr>wo_queue := deleteMessage (cx_par cx) now (rm_receiptHandle m) (wo_queue w)\<rparr>)"

definition retryMessage :: "batch_context \<Rightarrow> rat \<Rightarrow> rat \<Rightarrow> delivery \<Rightarrow> rat option \<Rightarrow> world \<Rightarrow> rat option \<times> world" where
  "retryMessage cx now r m userDelay w =
     (if wo_abandoned w then (None, w)
      else let d = or_default (wait_delay r (rm_receiveCount m) (batch_maxAttempts cx)
                     (or_default Defaults_MinBackoff (sv_minDelay (cx_service cx)))
                     (or_default Defaults_MaxBackoff (sv_maxDelay (cx_service cx)))) userDelay
           in case changeVisibility (cx_par cx) now (rm_receiptHandle m) d (wo_queue w) of
                Inl e \<Rightarrow> (None, w)
              | Inr (q, changed_it) \<Rightarrow> (if changed_it then Some d else None, w\<lparr>wo_queue := q\<rparr>))"

definition take_claim :: "batch_context \<Rightarrow> rat \<Rightarrow> string \<Rightarrow> world \<Rightarrow> claim_result \<times> world" where
  "take_claim cx now key w =
     (case claim_take now (cx_uuid cx (drawn (wo_queue w))) key (batch_timeout cx) (wo_claims w) of
        (claims, result) \<Rightarrow> (result, w\<lparr>wo_claims := claims, wo_queue := (wo_queue w)\<lparr>drawn := Suc (drawn (wo_queue w))\<rparr>\<rparr>))"

definition release_claim :: "held_claim option \<Rightarrow> world \<Rightarrow> world" where
  "release_claim held w = (case held of None \<Rightarrow> w | Some claim \<Rightarrow> w\<lparr>wo_claims := claim_release claim (wo_claims w)\<rparr>)"

definition keep_claim :: "rat \<Rightarrow> held_claim \<Rightarrow> claim_state \<Rightarrow> rat \<Rightarrow> world \<Rightarrow> world" where
  "keep_claim now claim state ttl w = w\<lparr>wo_claims := claim_keep now claim state (ttl * 1000) (wo_claims w)\<rparr>"

definition deferred_wait :: "rat \<Rightarrow> rat" where
  "deferred_wait waiting = max 0 (of_int \<lceil>waiting\<rceil>)"

definition deferred_copy :: "rat \<Rightarrow> delivery \<Rightarrow> rat \<Rightarrow> nat \<Rightarrow> message_attributes outgoing_message" where
  "deferred_copy now m wait defers =
     (let queueWait = min wait MaxDeferDelay
      in \<lparr>om_body = rm_body m,
          om_attributes = \<lparr>ma_traceId = ma_traceId (rm_attributes m), ma_scope = ma_scope (rm_attributes m), ma_defers = Some defers,
            ma_deferUntil = (if wait > queueWait then Some (now + wait * 1000) else None)\<rparr>,
          om_groupId = None, om_deduplicationId = None, om_delay = Some queueWait\<rparr>)"

definition sendDeferredCopy :: "batch_context \<Rightarrow> rat \<Rightarrow> delivery \<Rightarrow> rat \<Rightarrow> bool \<Rightarrow> world \<Rightarrow> failure + world" where
  "sendDeferredCopy cx now m waiting counted w =
     (let previousCount = or_default 0 (ma_defers (rm_attributes m));
          defers = (if counted then previousCount + 1 else previousCount);
          wait = deferred_wait waiting
      in if defers > MaxDeferCount then Inl OtherError
         else if wo_abandoned w then Inr w
         else Inr (logged (ComesBack (rm_messageId m) wait)
           (w\<lparr>wo_queue := sendMessage (cx_par cx) (cx_uuid cx) now (deferred_copy now m wait defers) (wo_queue w)\<rparr>)))"

text \<open>The slots are tried from a random one on.\<close>

fun try_slots :: "batch_context \<Rightarrow> rat \<Rightarrow> (nat \<Rightarrow> string) \<Rightarrow> nat list \<Rightarrow> world \<Rightarrow> held_claim option \<times> world" where
  "try_slots cx now key [] w = (None, w)"
| "try_slots cx now key (slot # slots) w =
     (case take_claim cx now (key slot) w of
        (Taken claim, w') \<Rightarrow> (Some claim, w')
      | (_, w') \<Rightarrow> try_slots cx now key slots w')"

definition takeSlot :: "batch_context \<Rightarrow> rat \<Rightarrow> rat \<Rightarrow> js_value \<Rightarrow> world \<Rightarrow> held_claim option \<times> world" where
  "takeSlot cx now r safeMessage w =
     (case sb_keyConcurrency (cx_subscription cx) of
        None \<Rightarrow> (None, w)
      | Some (keyFields, slots) \<Rightarrow>
          (let firstSlot = nat (getRandomInteger r 0 (of_nat slots - 1))
           in try_slots cx now (getConcurrencySlotKey (cx_json cx) (sb_handler (cx_subscription cx)) safeMessage keyFields)
                (map (\<lambda>offset. (firstSlot + offset) mod slots) [0..<slots]) w))"

section \<open>A record\<close>

record record_state =
  rs_handedBack :: bool
  rs_holdsGroup :: bool
  rs_claim :: "held_claim option"
  rs_slot :: "held_claim option"
  rs_deferred :: bool
  rs_handled :: bool

definition fresh_record :: record_state where
  "fresh_record = \<lparr>rs_handedBack = False, rs_holdsGroup = False, rs_claim = None, rs_slot = None, rs_deferred = False, rs_handled = False\<rparr>"

datatype request_call = CallRetry "rat option" | CallDefer rat

text \<open>
  What the execution of a record meets: the clock and a random number at each of its steps and what others do before it, the
  message its body is read as, the calls its handler makes, each with its time, a random number and what others do
  before it, and whether the listener and the handler fail.
\<close>

record execution =
  ex_now :: "nat \<Rightarrow> rat"
  ex_random :: "nat \<Rightarrow> rat"
  ex_others :: "nat \<Rightarrow> world \<Rightarrow> world"
  ex_message :: "string \<Rightarrow> failure + js_value"
  ex_ready :: "failure option"
  ex_calls :: "(rat \<times> rat \<times> (world \<Rightarrow> world) \<times> request_call) list"
  ex_handler :: "failure option"
  ex_done :: "failure option"
  ex_error :: "failure option"

text \<open>How a step ends: the record is over, an error is thrown, or it goes on.\<close>

datatype progress = Over | Thrown failure | Going js_value

definition consumeMessage :: "batch_context \<Rightarrow> rat \<Rightarrow> delivery \<Rightarrow> bool \<Rightarrow> world \<Rightarrow> world" where
  "consumeMessage cx now m deleteEachRecord w = (if deleteEachRecord then ackMessage cx now m w else w)"

definition await_due :: "batch_context \<Rightarrow> execution \<Rightarrow> delivery \<Rightarrow> bool \<Rightarrow> world \<Rightarrow> progress \<times> world" where
  "await_due cx ex m deleteEachRecord w =
     (let now = ex_now ex 0; waitLeft = or_default 0 (ma_deferUntil (rm_attributes m)) - now
      in if waitLeft > 0
         then case sendDeferredCopy cx now m (waitLeft / 1000) True w of
                Inl e \<Rightarrow> (Thrown e, w)
              | Inr w' \<Rightarrow> (Over, consumeMessage cx now m deleteEachRecord w')
         else case ex_message ex (rm_body m) of
                Inl e \<Rightarrow> (Thrown e, ex_others ex 1 w)
              | Inr safeMessage \<Rightarrow> (Going safeMessage, ex_others ex 1 w))"

definition claim_key :: "batch_context \<Rightarrow> execution \<Rightarrow> delivery \<Rightarrow> bool \<Rightarrow> js_value \<Rightarrow> world \<Rightarrow> progress \<times> record_state \<times> world" where
  "claim_key cx ex m deleteEachRecord safeMessage w =
     (let now = ex_now ex 1
      in case sb_idempotency (cx_subscription cx) of
           None \<Rightarrow> (Going safeMessage, fresh_record, w)
         | Some (keyFields, ttl) \<Rightarrow>
             (case take_claim cx now (getIdempotencyKey (cx_json cx) (sb_handler (cx_subscription cx)) safeMessage keyFields) w of
                (AlreadyDone, w') \<Rightarrow> (Over, fresh_record, consumeMessage cx now m deleteEachRecord (logged (AlreadyRan (rm_messageId m)) w'))
              | (Busy, w') \<Rightarrow> (Over, fresh_record\<lparr>rs_handedBack := True, rs_holdsGroup := True\<rparr>,
                    snd (retryMessage cx now (ex_random ex 1) m None (logged (KeyBusy (rm_messageId m)) w')))
              | (Taken claim, w') \<Rightarrow> (Going safeMessage, fresh_record\<lparr>rs_claim := Some claim\<rparr>, w')))"

definition claim_slot ::
  "batch_context \<Rightarrow> execution \<Rightarrow> delivery \<Rightarrow> bool \<Rightarrow> js_value \<Rightarrow> record_state \<Rightarrow> world \<Rightarrow> progress \<times> record_state \<times> world" where
  "claim_slot cx ex m deleteEachRecord safeMessage rs w =
     (let now = ex_now ex 1
      in if sb_keyConcurrency (cx_subscription cx) = None then (Going safeMessage, rs, w)
         else case takeSlot cx now (ex_random ex 2) safeMessage w of
                (Some slot, w') \<Rightarrow> (Going safeMessage, rs\<lparr>rs_slot := Some slot\<rparr>, w')
              | (None, w') \<Rightarrow>
                  (case sendDeferredCopy cx now m (of_int (getSlotWaitDelay (ex_random ex 3))) False w' of
                     Inl e \<Rightarrow> (Thrown e, rs, w')
                   | Inr w'' \<Rightarrow> (Over, rs, consumeMessage cx now m deleteEachRecord (release_claim (rs_claim rs) w''))))"

text \<open>The calls of the handler; a call that is refused changes nothing.\<close>

definition request_call_step ::
  "batch_context \<Rightarrow> delivery \<Rightarrow> rat \<times> rat \<times> (world \<Rightarrow> world) \<times> request_call \<Rightarrow> record_state \<times> world \<Rightarrow> record_state \<times> world" where
  "request_call_step cx m step sw =
     (case (step, sw) of
        ((now, r, others, CallRetry userDelay), (rs, w)) \<Rightarrow>
          if rs_deferred rs then (rs, others w)
          else (rs\<lparr>rs_handedBack := True, rs_holdsGroup := True\<rparr>, snd (retryMessage cx now r m userDelay (others w)))
      | ((now, r, others, CallDefer waiting), (rs, w)) \<Rightarrow>
          if rm_groupId m \<noteq> None \<or> rs_handedBack rs \<or> rs_deferred rs then (rs, others w)
          else case sendDeferredCopy cx now m waiting True (others w) of
                 Inl e \<Rightarrow> (rs, others w)
               | Inr w' \<Rightarrow> (rs\<lparr>rs_deferred := True\<rparr>, w'))"

definition run_handler ::
  "batch_context \<Rightarrow> execution \<Rightarrow> delivery \<Rightarrow> js_value \<Rightarrow> record_state \<Rightarrow> world \<Rightarrow> progress \<times> record_state \<times> world" where
  "run_handler cx ex m safeMessage rs w =
     (case ex_ready ex of
        Some e \<Rightarrow> (Thrown e, rs, ex_others ex 2 w)
      | None \<Rightarrow>
          (case fold (request_call_step cx m) (ex_calls ex) (rs, logged (HandlerRuns (rm_messageId m) safeMessage) (ex_others ex 2 w)) of
             (rs', w') \<Rightarrow>
               (case ex_handler ex of
                  Some e \<Rightarrow> (Thrown e, rs', ex_others ex 3 w')
                | None \<Rightarrow> (Going safeMessage, rs', ex_others ex 3 w'))))"

definition settle_record :: "batch_context \<Rightarrow> execution \<Rightarrow> delivery \<Rightarrow> bool \<Rightarrow> record_state \<Rightarrow> world \<Rightarrow> progress \<times> record_state \<times> world" where
  "settle_record cx ex m deleteEachRecord rs w =
     (let now = ex_now ex 3;
          w1 = (case (rs_claim rs, sb_idempotency (cx_subscription cx)) of
                  (Some claim, Some (keyFields, ttl)) \<Rightarrow>
                    if rs_handedBack rs \<or> rs_deferred rs then release_claim (Some claim) w else keep_claim now claim Done ttl w
                | _ \<Rightarrow> w);
          w2 = ex_others ex 4 (consumeMessage cx now m (deleteEachRecord \<and> \<not> rs_handedBack rs) w1)
      in ((case ex_done ex of None \<Rightarrow> Over | Some e \<Rightarrow> Thrown e), rs\<lparr>rs_handled := True\<rparr>, w2))"

definition failRecord ::
  "batch_context \<Rightarrow> rat \<Rightarrow> rat \<Rightarrow> delivery \<Rightarrow> failure \<Rightarrow> bool \<Rightarrow> record_state \<Rightarrow> world \<Rightarrow> record_state \<times> world" where
  "failRecord cx now r m e deleteEachRecord rs w =
     (case (rs_claim rs, sb_idempotency (cx_subscription cx), isUnknownOutcomeError e) of
        (Some claim, Some (keyFields, ttl), True) \<Rightarrow> (rs, consumeMessage cx now m deleteEachRecord (keep_claim now claim Unknown ttl w))
      | _ \<Rightarrow> (case retryMessage cx now r m None (release_claim (rs_claim rs) w) of
               (d, w') \<Rightarrow> (rs\<lparr>rs_handedBack := True\<rparr>, logged (RecordFailed (rm_messageId m) (rm_receiveCount m) d) w')))"

definition catch_record ::
  "batch_context \<Rightarrow> execution \<Rightarrow> delivery \<Rightarrow> bool \<Rightarrow> failure \<Rightarrow> record_state \<Rightarrow> world \<Rightarrow> (failure + record_state) \<times> world" where
  "catch_record cx ex m deleteEachRecord e rs w0 =
     (let now = ex_now ex 5; w = ex_others ex 5 w0
      in case ex_error ex of
           Some e' \<Rightarrow> (Inl e', w)
         | None \<Rightarrow>
             (let rs' = rs\<lparr>rs_holdsGroup := True\<rparr>
              in if rs_deferred rs \<and> \<not> rs_handled rs
                 then (Inr rs', consumeMessage cx now m deleteEachRecord (release_claim (rs_claim rs) w))
                 else if \<not> rs_handled rs
                 then (case failRecord cx now (ex_random ex 5) m e deleteEachRecord rs' w of (rs'', w') \<Rightarrow> (Inr rs'', w'))
                 else (Inr rs', w)))"

text \<open>The steps of the try block, one after the other.\<close>

definition try_record :: "batch_context \<Rightarrow> execution \<Rightarrow> delivery \<Rightarrow> bool \<Rightarrow> world \<Rightarrow> progress \<times> record_state \<times> world" where
  "try_record cx ex m deleteEachRecord w =
     (case await_due cx ex m deleteEachRecord w of
        (Over, w1) \<Rightarrow> (Over, fresh_record, w1)
      | (Thrown e, w1) \<Rightarrow> (Thrown e, fresh_record, w1)
      | (Going safeMessage, w1) \<Rightarrow>
          (case claim_key cx ex m deleteEachRecord safeMessage w1 of
             (Going _, rs2, w2) \<Rightarrow>
               (case claim_slot cx ex m deleteEachRecord safeMessage rs2 w2 of
                  (Going _, rs3, w3) \<Rightarrow>
                    (case run_handler cx ex m safeMessage rs3 w3 of
                       (Going _, rs4, w4) \<Rightarrow> settle_record cx ex m deleteEachRecord rs4 w4
                     | stopped \<Rightarrow> stopped)
                | stopped \<Rightarrow> stopped)
           | stopped \<Rightarrow> stopped))"

definition processRecord ::
  "batch_context \<Rightarrow> execution \<Rightarrow> delivery \<Rightarrow> bool \<Rightarrow> world \<Rightarrow> (failure + bool \<times> bool) \<times> world" where
  "processRecord cx ex m deleteEachRecord w =
     (case try_record cx ex m deleteEachRecord w of
        (Thrown e, rs, w') \<Rightarrow>
          (case catch_record cx ex m deleteEachRecord e rs w' of
             (Inl e', w'') \<Rightarrow> (Inl e', release_claim (rs_slot rs) w'')
           | (Inr rs', w'') \<Rightarrow> (Inr (rs_handedBack rs', rs_holdsGroup rs'), release_claim (rs_slot rs) w''))
      | (_, rs, w') \<Rightarrow> (Inr (rs_handedBack rs, rs_holdsGroup rs), release_claim (rs_slot rs) w'))"

section \<open>What happens to the message\<close>

text \<open>
  A change of the world leaves a delivered message when it removes neither the message nor one with its body, gives none
  of them its receipt handle, and does not undo that the batch was abandoned.
\<close>

definition leaves :: "delivery \<Rightarrow> (world \<Rightarrow> world) \<Rightarrow> bool" where
  "leaves m f \<longleftrightarrow> (\<forall>w. drawn (wo_queue w) \<le> drawn (wo_queue (f w)) \<and> (wo_abandoned w \<longrightarrow> wo_abandoned (f w)) \<and>
     (\<forall>x \<in> set (messages (wo_queue w)). body x = rm_body m \<longrightarrow>
       (\<exists>x' \<in> set (messages (wo_queue (f w))). messageId x' = messageId x \<and> body x' = body x \<and>
         (receiptHandle x \<noteq> Some (rm_receiptHandle m) \<longrightarrow> receiptHandle x' \<noteq> Some (rm_receiptHandle m)))))"

definition holds_original :: "delivery \<Rightarrow> world \<Rightarrow> bool" where
  "holds_original m w \<longleftrightarrow> (\<exists>x \<in> set (messages (wo_queue w)). messageId x = rm_messageId m \<and> body x = rm_body m)"

text \<open>A copy of the message with an identifier drawn after the first \<open>n\<close> ones.\<close>

definition holds_copy :: "batch_context \<Rightarrow> nat \<Rightarrow> delivery \<Rightarrow> world \<Rightarrow> bool" where
  "holds_copy cx n m w \<longleftrightarrow> (\<exists>x \<in> set (messages (wo_queue w)). body x = rm_body m \<and> receiptHandle x \<noteq> Some (rm_receiptHandle m) \<and>
     (\<exists>j \<ge> n. messageId x = cx_uuid cx j))"

lemma leaves_keeps:
  assumes "leaves m f"
  shows "holds_original m w \<Longrightarrow> holds_original m (f w)" "holds_copy cx n m w \<Longrightarrow> holds_copy cx n m (f w)"
    "wo_abandoned w \<Longrightarrow> wo_abandoned (f w)" "drawn (wo_queue w) \<le> drawn (wo_queue (f w))"
  using assms unfolding leaves_def holds_original_def holds_copy_def by metis+

lemma leaves_same_queue:
  assumes "\<And>w. messages (wo_queue (f w)) = messages (wo_queue w)" and "\<And>w. drawn (wo_queue w) \<le> drawn (wo_queue (f w))"
    and "\<And>w. wo_abandoned (f w) = wo_abandoned w"
  shows "leaves m f"
  unfolding leaves_def using assms by auto

lemma leaves_own [simp]:
  "leaves m (logged e)" "leaves m (release_claim held)" "leaves m (keep_claim now claim state ttl)" "leaves m (\<lambda>w. snd (take_claim cx now key w))"
  by (rule leaves_same_queue;
      simp add: logged_def release_claim_def keep_claim_def take_claim_def split: option.split prod.split)+

lemma set_visible_finds:
  assumes "x \<in> set ms"
  shows "\<exists>x' \<in> set (set_visible h t ms). messageId x' = messageId x \<and> body x' = body x \<and> receiptHandle x' = receiptHandle x"
  using assms unfolding set_visible_def by (induction ms) auto

lemma changeVisibility_finds:
  assumes "changeVisibility par now h t q = Inr (q', b)" and "x \<in> set (messages q)"
  shows "\<exists>x' \<in> set (messages q'). messageId x' = messageId x \<and> body x' = body x \<and> receiptHandle x' = receiptHandle x" and "drawn q' = drawn q"
  using assms(1) by (cases rule: changeVisibility_cases; use assms(2) set_visible_finds [OF assms(2)] in auto)+

lemma leaves_retry [simp]: "leaves m (\<lambda>w. snd (retryMessage cx now r m' userDelay w))"
proof -
  have "drawn (wo_queue (snd (retryMessage cx now r m' userDelay w))) = drawn (wo_queue w)" for w
    by (auto simp: retryMessage_def Let_def split: sum.split elim!: changeVisibility_cases)
  moreover have "wo_abandoned (snd (retryMessage cx now r m' userDelay w)) = wo_abandoned w" for w
    by (auto simp: retryMessage_def Let_def split: sum.split)
  moreover have "\<exists>x' \<in> set (messages (wo_queue (snd (retryMessage cx now r m' userDelay w)))).
      messageId x' = messageId x \<and> body x' = body x \<and> receiptHandle x' = receiptHandle x" if "x \<in> set (messages (wo_queue w))" for w x
    using changeVisibility_finds(1) [OF _ that] that
    by (auto simp: retryMessage_def Let_def split: sum.split)
  ultimately show ?thesis unfolding leaves_def by (metis order_refl)
qed

lemma sendDeferredCopy_result:
  assumes "sendDeferredCopy cx now m waiting counted w = Inr w'"
  obtains "wo_abandoned w" "w' = w"
  | defers where "defers \<le> MaxDeferCount"
    "w' = logged (ComesBack (rm_messageId m) (deferred_wait waiting))
      (w\<lparr>wo_queue := push_message (cx_par cx) (cx_uuid cx) now (deferred_copy now m (deferred_wait waiting) defers) (wo_queue w)\<rparr>)"
  using assms by (auto simp: sendDeferredCopy_def Let_def sendMessage_def deferred_copy_def not_less split: if_splits)

lemma deferred_keeps:
  assumes "sendDeferredCopy cx now m waiting counted w = Inr w'" and "n \<le> drawn (wo_queue w)"
  shows "holds_original m w \<Longrightarrow> holds_original m w'" "holds_copy cx n m w' \<or> wo_abandoned w'" "drawn (wo_queue w) \<le> drawn (wo_queue w')"
    "set (wo_log w) \<subseteq> set (wo_log w')"
  using assms(1)
  by (cases rule: sendDeferredCopy_result;
      use assms(2) in \<open>auto simp: holds_original_def holds_copy_def push_message_def new_message_def deferred_copy_def logged_def Let_def\<close>)+

lemma delete_keeps_others:
  assumes "x \<in> set ms" and "P x"
  shows "x \<in> set (takeWhile P ms @ tl (dropWhile P ms))"
  using assms by (induction ms) auto

lemma ack_keeps:
  "holds_copy cx n m w \<Longrightarrow> holds_copy cx n m (ackMessage cx now m w)" "wo_abandoned (ackMessage cx now m w) = wo_abandoned w"
  "wo_log (ackMessage cx now m w) = wo_log w" "drawn (wo_queue (ackMessage cx now m w)) = drawn (wo_queue w)"
proof -
  assume "holds_copy cx n m w"
  then show "holds_copy cx n m (ackMessage cx now m w)"
    using delete_keeps_others [where P = "\<lambda>m'. receiptHandle m' \<noteq> Some (rm_receiptHandle m)"]
    by (fastforce simp: holds_copy_def ackMessage_def deleteMessage_def split: list.split)
qed (auto simp: ackMessage_def deleteMessage_def split: list.split)

lemma consume_keeps:
  "holds_copy cx n m w \<Longrightarrow> holds_copy cx n m (consumeMessage cx now m d w)" "wo_abandoned (consumeMessage cx now m d w) = wo_abandoned w"
  "wo_log (consumeMessage cx now m d w) = wo_log w" "drawn (wo_queue (consumeMessage cx now m d w)) = drawn (wo_queue w)"
  by (auto simp: consumeMessage_def ack_keeps)

text \<open>Why a message may leave the queue: a copy took its place, its key already ran, its handler finished, or nobody knows whether it did.\<close>

definition accounted :: "batch_context \<Rightarrow> execution \<Rightarrow> delivery \<Rightarrow> nat \<Rightarrow> world \<Rightarrow> bool" where
  "accounted cx ex m n w \<longleftrightarrow> holds_copy cx n m w \<or> AlreadyRan (rm_messageId m) \<in> set (wo_log w) \<or>
     (ex_handler ex = None \<and> (\<exists>v. HandlerRuns (rm_messageId m) v \<in> set (wo_log w))) \<or>
     (sb_idempotency (cx_subscription cx) \<noteq> None \<and> Some UnknownOutcomeError \<in> {ex_ready ex, ex_handler ex})"

definition undisturbed :: "delivery \<Rightarrow> execution \<Rightarrow> bool" where
  "undisturbed m ex \<longleftrightarrow> (\<forall>i. leaves m (ex_others ex i) \<and> (\<forall>w. wo_log (ex_others ex i w) = wo_log w)) \<and>
     (\<forall>(now, r, f, c) \<in> set (ex_calls ex). leaves m f \<and> (\<forall>w. wo_log (f w) = wo_log w))"

text \<open>A batch that was abandoned deletes nothing any more.\<close>

definition settled :: "batch_context \<Rightarrow> execution \<Rightarrow> delivery \<Rightarrow> nat \<Rightarrow> world \<Rightarrow> bool" where
  "settled cx ex m n w \<longleftrightarrow> accounted cx ex m n w \<or> wo_abandoned w \<and> holds_original m w"

lemma own_log [simp]:
  "wo_log (logged e w) = wo_log w @ [e]" "wo_log (release_claim held w) = wo_log w" "wo_log (keep_claim now claim state ttl w) = wo_log w"
  "wo_log (snd (take_claim cx now key w)) = wo_log w" "wo_log (snd (retryMessage cx now r m userDelay w)) = wo_log w"
  by (simp_all add: logged_def release_claim_def keep_claim_def take_claim_def retryMessage_def Let_def split: option.split prod.split sum.split)

lemma settled_keeps:
  assumes "leaves m f" and "set (wo_log w) \<subseteq> set (wo_log (f w))" and "settled cx ex m n w"
  shows "settled cx ex m n (f w)"
  using assms(2,3) leaves_keeps [OF assms(1)] unfolding settled_def accounted_def by blast

lemma settled_consume:
  assumes "settled cx ex m n w"
  shows "settled cx ex m n (consumeMessage cx now m d w)"
proof (cases "wo_abandoned w")
  case True
  then have "consumeMessage cx now m d w = w" by (simp add: consumeMessage_def ackMessage_def)
  with assms show ?thesis by simp
next
  case False
  with assms consume_keeps(1) [of cx n m w now d] show ?thesis
    by (auto simp: settled_def accounted_def consume_keeps(3))
qed

lemma settled_deferred:
  assumes "sendDeferredCopy cx now m waiting counted w = Inr w'" and "n \<le> drawn (wo_queue w)" and "holds_original m w"
  shows "settled cx ex m n w'"
  using deferred_keeps(1,2) [OF assms(1,2)] assms(3) unfolding settled_def accounted_def by blast

lemma try_slots_keeps:
  assumes "try_slots cx now key slots w = (held, w')"
  shows "messages (wo_queue w') = messages (wo_queue w) \<and> drawn (wo_queue w) \<le> drawn (wo_queue w') \<and> wo_abandoned w' = wo_abandoned w \<and> wo_log w' = wo_log w"
  using assms
proof (induction slots arbitrary: w)
  case (Cons slot slots)
  obtain result w1 where take: "take_claim cx now (key slot) w = (result, w1)" by fastforce
  then have "messages (wo_queue w1) = messages (wo_queue w) \<and> drawn (wo_queue w) \<le> drawn (wo_queue w1) \<and> wo_abandoned w1 = wo_abandoned w \<and> wo_log w1 = wo_log w"
    by (auto simp: take_claim_def split: prod.splits)
  with Cons.prems take Cons.IH [of w1] show ?case by (cases result) auto
qed simp

lemma takeSlot_keeps:
  assumes "takeSlot cx now r v w = (held, w')"
  shows "holds_original m w \<Longrightarrow> holds_original m w'" "drawn (wo_queue w) \<le> drawn (wo_queue w')" "set (wo_log w) \<subseteq> set (wo_log w')"
  using assms try_slots_keeps unfolding takeSlot_def holds_original_def
  by (auto simp: Let_def split: option.splits prod.splits)

text \<open>What is known of a record that goes on.\<close>

definition sound :: "batch_context \<Rightarrow> execution \<Rightarrow> delivery \<Rightarrow> nat \<Rightarrow> record_state \<Rightarrow> world \<Rightarrow> bool" where
  "sound cx ex m n rs w \<longleftrightarrow> n \<le> drawn (wo_queue w) \<and>
     (if rs_handled rs then settled cx ex m n w \<or> rs_handedBack rs \<and> holds_original m w
      else holds_original m w \<and> (rs_deferred rs \<longrightarrow> holds_copy cx n m w \<or> wo_abandoned w))"

lemma sound_keeps:
  assumes "leaves m f" and "set (wo_log w) \<subseteq> set (wo_log (f w))" and "sound cx ex m n rs w"
  shows "sound cx ex m n rs (f w)"
  using assms(3) leaves_keeps [OF assms(1)] settled_keeps [OF assms(1,2)] order_trans unfolding sound_def by (metis (full_types))

text \<open>How each of the steps ends.\<close>

definition ends_well :: "batch_context \<Rightarrow> execution \<Rightarrow> delivery \<Rightarrow> nat \<Rightarrow> progress \<times> record_state \<times> world \<Rightarrow> bool" where
  "ends_well cx ex m n result =
     (case result of
        (Over, rs, w) \<Rightarrow> settled cx ex m n w \<or> rs_handedBack rs \<and> holds_original m w
      | (Thrown e, rs, w) \<Rightarrow> sound cx ex m n rs w \<and>
          (\<not> rs_handled rs \<and> rs_claim rs \<noteq> None \<and> e = UnknownOutcomeError \<longrightarrow>
             sb_idempotency (cx_subscription cx) \<noteq> None \<and> Some UnknownOutcomeError \<in> {ex_ready ex, ex_handler ex})
      | (Going v, rs, w) \<Rightarrow> sound cx ex m n rs w \<and> \<not> rs_handled rs \<and> (rs_claim rs \<noteq> None \<longrightarrow> sb_idempotency (cx_subscription cx) \<noteq> None))"

lemma await_due_ends:
  assumes "undisturbed m ex" and "holds_original m w"
  shows "ends_well cx ex m (drawn (wo_queue w)) (case await_due cx ex m d w of (p, w') \<Rightarrow> (p, fresh_record, w'))"
proof -
  have "leaves m (ex_others ex 1)" using assms(1) by (simp add: undisturbed_def)
  note kept = leaves_keeps [OF this]
  have going: "sound cx ex m (drawn (wo_queue w)) fresh_record (ex_others ex 1 w)"
    using kept(1,4) assms(2) by (simp add: sound_def fresh_record_def)
  have "settled cx ex m (drawn (wo_queue w)) w'" if "sendDeferredCopy cx now m waiting counted w = Inr w'" for now waiting counted w'
    by (rule settled_deferred [OF that order_refl assms(2)])
  then show ?thesis
    using going assms(2) settled_consume
    by (auto simp: await_due_def Let_def ends_well_def fresh_record_def sound_def split: sum.split)
qed

lemma claim_key_ends:
  assumes "holds_original m w" and "n \<le> drawn (wo_queue w)"
  shows "ends_well cx ex m n (claim_key cx ex m d v w)"
proof (cases "sb_idempotency (cx_subscription cx)")
  case None
  with assms show ?thesis by (simp add: claim_key_def ends_well_def sound_def fresh_record_def)
next
  case (Some settings)
  obtain keyFields ttl where settings: "settings = (keyFields, ttl)" by (cases settings)
  let ?key = "getIdempotencyKey (cx_json cx) (sb_handler (cx_subscription cx)) v keyFields"
  obtain result w' where take: "take_claim cx (ex_now ex 1) ?key w = (result, w')" by fastforce
  have "leaves m (\<lambda>w. snd (take_claim cx (ex_now ex 1) ?key w))" by simp
  then have kept: "holds_original m w'" "n \<le> drawn (wo_queue w')"
    using leaves_keeps(1,4) [of m "\<lambda>w. snd (take_claim cx (ex_now ex 1) ?key w)" w] take assms by auto
  show ?thesis
  proof (cases result)
    case (Taken claim)
    with kept Some settings take show ?thesis by (simp add: claim_key_def ends_well_def sound_def fresh_record_def)
  next
    case AlreadyDone
    have "settled cx ex m n (logged (AlreadyRan (rm_messageId m)) w')" by (simp add: settled_def accounted_def)
    from settled_consume [OF this] AlreadyDone Some settings take show ?thesis
      by (auto simp: claim_key_def ends_well_def)
  next
    case Busy
    have "holds_original m (snd (retryMessage cx (ex_now ex 1) (ex_random ex 1) m None (logged (KeyBusy (rm_messageId m)) w')))"
      using kept leaves_keeps(1) [OF leaves_own(1)] leaves_keeps(1) [OF leaves_retry] by blast
    with Busy Some settings take show ?thesis by (simp add: claim_key_def ends_well_def)
  qed
qed

lemma claim_slot_ends:
  assumes "sound cx ex m n rs w" and "\<not> rs_handled rs" and "\<not> rs_deferred rs" and "rs_claim rs \<noteq> None \<longrightarrow> sb_idempotency (cx_subscription cx) \<noteq> None"
  shows "ends_well cx ex m n (claim_slot cx ex m d v rs w)"
proof (cases "sb_keyConcurrency (cx_subscription cx)")
  case None
  with assms show ?thesis by (simp add: claim_slot_def ends_well_def)
next
  case (Some settings)
  obtain held w' where slot: "takeSlot cx (ex_now ex 1) (ex_random ex 2) v w = (held, w')" by fastforce
  have kept: "holds_original m w'" "n \<le> drawn (wo_queue w')"
    using takeSlot_keeps [OF slot] assms(1,2) by (auto simp: sound_def)
  show ?thesis
  proof (cases held)
    case (Some claim)
    with kept \<open>sb_keyConcurrency (cx_subscription cx) = Some settings\<close> assms(2-4) slot show ?thesis
      by (simp add: claim_slot_def ends_well_def sound_def)
  next
    case None
    show ?thesis
    proof (cases "sendDeferredCopy cx (ex_now ex 1) m (of_int (getSlotWaitDelay (ex_random ex 3))) False w'")
      case (Inl e)
      then have "e = OtherError" by (auto simp: sendDeferredCopy_def Let_def split: if_splits)
      with Inl None \<open>sb_keyConcurrency (cx_subscription cx) = Some settings\<close> kept slot assms(2,3) show ?thesis
        by (simp add: claim_slot_def ends_well_def sound_def)
    next
      case (Inr w'')
      have "settled cx ex m n w''" by (rule settled_deferred [OF Inr kept(2,1)])
      then have "settled cx ex m n (release_claim (rs_claim rs) w'')"
        by (rule settled_keeps [OF leaves_own(2), rotated]) simp
      from settled_consume [OF this] show ?thesis
        using Inr None \<open>sb_keyConcurrency (cx_subscription cx) = Some settings\<close> slot by (auto simp: claim_slot_def ends_well_def)
    qed
  qed
qed

lemma request_call_sound:
  assumes "leaves m f \<and> (\<forall>w. wo_log (f w) = wo_log w)" and "sound cx ex m n rs w" and "\<not> rs_handled rs"
    and "request_call_step cx m (now, r, f, c) (rs, w) = (rs', w')"
  shows "sound cx ex m n rs' w' \<and> \<not> rs_handled rs' \<and> rs_claim rs' = rs_claim rs \<and> set (wo_log w) \<subseteq> set (wo_log w')"
proof -
  have before: "sound cx ex m n rs (f w)" by (rule sound_keeps) (use assms in auto)
  show ?thesis
  proof (cases c)
    case (CallRetry userDelay)
    have "sound cx ex m n rs (snd (retryMessage cx now r m userDelay (f w)))" by (rule sound_keeps [OF leaves_retry _ before]) simp
    with CallRetry assms before show ?thesis by (auto simp: request_call_step_def sound_def split: if_splits)
  next
    case (CallDefer waiting)
    show ?thesis
    proof (cases "sendDeferredCopy cx now m waiting True (f w)")
      case (Inr w1)
      have "n \<le> drawn (wo_queue (f w))" "holds_original m (f w)" using before assms(3) by (auto simp: sound_def)
      with deferred_keeps [OF Inr this(1)] have "sound cx ex m n (rs\<lparr>rs_deferred := True\<rparr>) w1" "set (wo_log w) \<subseteq> set (wo_log w1)"
        using assms(1,3) by (auto simp: sound_def)
      with Inr CallDefer assms before show ?thesis by (auto simp: request_call_step_def split: if_splits)
    qed (use CallDefer assms before in \<open>auto simp: request_call_step_def split: if_splits\<close>)
  qed
qed

lemma request_calls_sound:
  assumes "\<forall>(now, r, f, c) \<in> set calls. leaves m f \<and> (\<forall>w. wo_log (f w) = wo_log w)" and "sound cx ex m n rs w" and "\<not> rs_handled rs"
    and "fold (request_call_step cx m) calls (rs, w) = (rs', w')"
  shows "sound cx ex m n rs' w' \<and> \<not> rs_handled rs' \<and> rs_claim rs' = rs_claim rs \<and> set (wo_log w) \<subseteq> set (wo_log w')"
  using assms
proof (induction calls arbitrary: rs w)
  case (Cons call calls)
  obtain now r f c where call: "call = (now, r, f, c)" by (metis prod_cases4)
  obtain rs1 w1 where step: "request_call_step cx m call (rs, w) = (rs1, w1)" by fastforce
  have f: "leaves m f \<and> (\<forall>w. wo_log (f w) = wo_log w)" using Cons.prems(1) call by auto
  have one: "sound cx ex m n rs1 w1 \<and> \<not> rs_handled rs1 \<and> rs_claim rs1 = rs_claim rs \<and> set (wo_log w) \<subseteq> set (wo_log w1)"
    using request_call_sound [OF f Cons.prems(2,3)] step call by blast
  have rest: "fold (request_call_step cx m) calls (rs1, w1) = (rs', w')" using Cons.prems(4) step by simp
  have "\<forall>(now, r, f, c) \<in> set calls. leaves m f \<and> (\<forall>w. wo_log (f w) = wo_log w)" using Cons.prems(1) by simp
  from Cons.IH [OF this _ _ rest] one show ?case by auto
qed auto

lemma undisturbed_others:
  assumes "undisturbed m ex"
  shows "leaves m (ex_others ex i)" "wo_log (ex_others ex i w) = wo_log w"
    "sound cx ex' m n rs w \<Longrightarrow> sound cx ex' m n rs (ex_others ex i w)"
  using assms sound_keeps [of m "ex_others ex i" w cx ex' n rs] by (auto simp: undisturbed_def)

lemma run_handler_ends:
  assumes "undisturbed m ex" and "sound cx ex m n rs w" and "\<not> rs_handled rs" and "rs_claim rs \<noteq> None \<longrightarrow> sb_idempotency (cx_subscription cx) \<noteq> None"
  shows "ends_well cx ex m n (run_handler cx ex m v rs w)"
    and "run_handler cx ex m v rs w = (Going v', rs', w') \<Longrightarrow> ex_handler ex = None \<and> HandlerRuns (rm_messageId m) v \<in> set (wo_log w')"
proof -
  let ?w = "logged (HandlerRuns (rm_messageId m) v) (ex_others ex 2 w)"
  obtain rs1 w1 where calls: "fold (request_call_step cx m) (ex_calls ex) (rs, ?w) = (rs1, w1)" by fastforce
  have start: "sound cx ex m n rs (ex_others ex 2 w)" by (rule undisturbed_others(3) [OF assms(1,2)])
  have "sound cx ex m n rs ?w" by (rule sound_keeps [OF leaves_own(1) _ start]) auto
  moreover have "\<forall>(now, r, f, c) \<in> set (ex_calls ex). leaves m f \<and> (\<forall>w. wo_log (f w) = wo_log w)" using assms(1) by (simp add: undisturbed_def)
  ultimately have run: "sound cx ex m n rs1 w1" "\<not> rs_handled rs1" "rs_claim rs1 = rs_claim rs" "set (wo_log ?w) \<subseteq> set (wo_log w1)"
    using request_calls_sound [OF _ _ assms(3) calls] by auto
  have after: "sound cx ex m n rs1 (ex_others ex 3 w1)" by (rule undisturbed_others(3) [OF assms(1) run(1)])
  show "ends_well cx ex m n (run_handler cx ex m v rs w)"
    using start after run(2,3) calls assms(3,4) by (auto simp: run_handler_def ends_well_def split: option.split)
  show "ex_handler ex = None \<and> HandlerRuns (rm_messageId m) v \<in> set (wo_log w')" if "run_handler cx ex m v rs w = (Going v', rs', w')"
    using that calls run(4) undisturbed_others(2) [OF assms(1)] by (auto simp: run_handler_def split: option.splits)
qed

lemma settle_record_result:
  obtains w1 p b where "settle_record cx ex m d rs w = (p, rs\<lparr>rs_handled := True\<rparr>, ex_others ex 4 (consumeMessage cx (ex_now ex 3) m b w1))"
    "p = Over \<or> (\<exists>e. p = Thrown e)" "drawn (wo_queue w1) = drawn (wo_queue w)" "wo_log w1 = wo_log w"
proof -
  let ?w1 = "case (rs_claim rs, sb_idempotency (cx_subscription cx)) of
      (Some claim, Some (keyFields, ttl)) \<Rightarrow>
        if rs_handedBack rs \<or> rs_deferred rs then release_claim (Some claim) w else keep_claim (ex_now ex 3) claim Done ttl w
    | _ \<Rightarrow> w"
  have w1: "drawn (wo_queue ?w1) = drawn (wo_queue w)" "wo_log ?w1 = wo_log w"
    by (auto simp: release_claim_def keep_claim_def split: option.split)
  have "(case ex_done ex of None \<Rightarrow> Over | Some e \<Rightarrow> Thrown e) = Over \<or> (\<exists>e. (case ex_done ex of None \<Rightarrow> Over | Some e \<Rightarrow> Thrown e) = Thrown e)"
    by (simp split: option.split)
  then show ?thesis by (rule that [OF _ _ w1, rotated]) (simp add: settle_record_def Let_def)
qed

lemma settle_record_ends:
  assumes "undisturbed m ex" and "sound cx ex m n rs w" and "ex_handler ex = None" and "HandlerRuns (rm_messageId m) v \<in> set (wo_log w)"
  shows "ends_well cx ex m n (settle_record cx ex m d rs w)"
proof -
  obtain w1 p b where result: "settle_record cx ex m d rs w = (p, rs\<lparr>rs_handled := True\<rparr>, ex_others ex 4 (consumeMessage cx (ex_now ex 3) m b w1))"
    "p = Over \<or> (\<exists>e. p = Thrown e)" and w1: "drawn (wo_queue w1) = drawn (wo_queue w)" "wo_log w1 = wo_log w"
    by (rule settle_record_result)
  let ?w2 = "ex_others ex 4 (consumeMessage cx (ex_now ex 3) m b w1)"
  have "wo_log ?w2 = wo_log w" using w1(2) by (simp add: undisturbed_others(2) [OF assms(1)] consume_keeps)
  then have "settled cx ex m n ?w2" using assms(3,4) by (auto simp: settled_def accounted_def)
  moreover have "n \<le> drawn (wo_queue ?w2)"
    using leaves_keeps(4) [OF undisturbed_others(1) [OF assms(1)], of "consumeMessage cx (ex_now ex 3) m b w1" 4] w1(1) assms(2)
    by (simp add: consume_keeps sound_def)
  ultimately show ?thesis using result(2) unfolding result(1) by (auto simp: ends_well_def sound_def)
qed

lemma ends_going:
  "ends_well cx ex m n (Going v, rs, w) \<Longrightarrow>
   sound cx ex m n rs w \<and> \<not> rs_handled rs \<and> (rs_claim rs \<noteq> None \<longrightarrow> sb_idempotency (cx_subscription cx) \<noteq> None)"
  by (simp add: ends_well_def)

lemma try_record_ends:
  assumes "undisturbed m ex" and "holds_original m w"
  shows "ends_well cx ex m (drawn (wo_queue w)) (try_record cx ex m d w)"
proof -
  let ?n = "drawn (wo_queue w)"
  obtain p1 w1 where one: "await_due cx ex m d w = (p1, w1)" by fastforce
  have end1: "ends_well cx ex m ?n (p1, fresh_record, w1)" using await_due_ends [OF assms, of cx d] one by simp
  show ?thesis
  proof (cases p1)
    case (Going v)
    with end1 have "holds_original m w1" "?n \<le> drawn (wo_queue w1)" by (auto simp: ends_well_def sound_def fresh_record_def)
    note end2 = claim_key_ends [OF this, of cx ex d v]
    obtain p2 rs2 w2 where two: "claim_key cx ex m d v w1 = (p2, rs2, w2)" by (metis prod_cases3)
    show ?thesis
    proof (cases p2)
      case (Going v2)
      have fresh2: "\<not> rs_deferred rs2"
        using two by (auto simp: claim_key_def fresh_record_def Let_def split: option.splits prod.splits claim_result.splits)
      have "sound cx ex m ?n rs2 w2 \<and> \<not> rs_handled rs2 \<and> (rs_claim rs2 \<noteq> None \<longrightarrow> sb_idempotency (cx_subscription cx) \<noteq> None)"
        using end2 two Going by (simp add: ends_well_def)
      then have end3: "ends_well cx ex m ?n (claim_slot cx ex m d v rs2 w2)" using claim_slot_ends fresh2 by blast
      obtain p3 rs3 w3 where three: "claim_slot cx ex m d v rs2 w2 = (p3, rs3, w3)" by (metis prod_cases3)
      show ?thesis
      proof (cases p3)
        case (Going v3)
        with end3 three have s3: "sound cx ex m ?n rs3 w3" "\<not> rs_handled rs3" "rs_claim rs3 \<noteq> None \<longrightarrow> sb_idempotency (cx_subscription cx) \<noteq> None"
          by (auto simp: ends_well_def)
        note end4 = run_handler_ends [OF assms(1) s3, of v]
        obtain p4 rs4 w4 where four: "run_handler cx ex m v rs3 w3 = (p4, rs4, w4)" by (metis prod_cases3)
        have "ends_well cx ex m ?n (settle_record cx ex m d rs4 w4)" if "p4 = Going v4" for v4
          using settle_record_ends [OF assms(1)] ends_going end4 four that by metis
        then show ?thesis
          using one \<open>p1 = Going v\<close> two \<open>p2 = Going v2\<close> three Going four end4 by (cases p4) (auto simp: try_record_def)
      qed (use one \<open>p1 = Going v\<close> two \<open>p2 = Going v2\<close> three end3 in \<open>simp_all add: try_record_def\<close>)
    qed (use one Going two end2 in \<open>simp_all add: try_record_def\<close>)
  qed (use one end1 in \<open>simp_all add: try_record_def\<close>)
qed

lemma try_record_stops: "try_record cx ex m d w \<noteq> (Going v, rs, w')"
proof -
  have "settle_record cx ex m d rs w \<noteq> (Going v, rs', w')" for rs w rs' w'
    by (rule settle_record_result [of cx ex m d rs w]) auto
  then show ?thesis by (auto simp: try_record_def split: prod.splits progress.splits)
qed

lemma failRecord_ends:
  assumes "sound cx ex m n rs w" and "\<not> rs_handled rs"
    and "rs_claim rs \<noteq> None \<and> e = UnknownOutcomeError \<longrightarrow>
      sb_idempotency (cx_subscription cx) \<noteq> None \<and> Some UnknownOutcomeError \<in> {ex_ready ex, ex_handler ex}"
    and "failRecord cx now r m e d rs w = (rs', w')"
  shows "settled cx ex m n w' \<or> rs_handedBack rs' \<and> holds_original m w'"
proof -
  let ?kept = "\<lambda>claim ttl. keep_claim now claim Unknown ttl w"
  have unknown: "settled cx ex m n (consumeMessage cx now m d (?kept claim ttl))" if "rs_claim rs = Some claim" "e = UnknownOutcomeError" for claim ttl
    by (rule settled_consume) (use assms(3) that in \<open>simp add: settled_def accounted_def\<close>)
  have "holds_original m (release_claim (rs_claim rs) w)" by (rule leaves_keeps(1) [OF leaves_own(2)]) (use assms(1,2) in \<open>simp add: sound_def\<close>)
  then have "holds_original m (snd (retryMessage cx now r m None (release_claim (rs_claim rs) w)))" by (rule leaves_keeps(1) [OF leaves_retry])
  then have "holds_original m (logged l (snd (retryMessage cx now r m None (release_claim (rs_claim rs) w))))" for l by (rule leaves_keeps(1) [OF leaves_own(1)])
  then have failed: "rs_handedBack rs' \<and> holds_original m w'"
    if "(case retryMessage cx now r m None (release_claim (rs_claim rs) w) of
         (d, w') \<Rightarrow> (rs\<lparr>rs_handedBack := True\<rparr>, logged (RecordFailed (rm_messageId m) (rm_receiveCount m) d) w')) = (rs', w')"
    using that by (auto split: prod.splits)
  show ?thesis
    using assms(4) unknown failed unfolding failRecord_def
    by (auto simp: isUnknownOutcomeError_def split: option.splits bool.splits)
qed

lemma catch_record_ends:
  assumes "undisturbed m ex" and "ends_well cx ex m n (Thrown e, rs, w)" and "catch_record cx ex m d e rs w = (result, w')"
  shows "settled cx ex m n w' \<or> holds_original m w' \<and> (\<forall>rs'. result = Inr rs' \<longrightarrow> rs_handedBack rs')"
proof -
  have thrown: "sound cx ex m n rs (ex_others ex 5 w)"
    using undisturbed_others(3) [OF assms(1)] assms(2) by (simp add: ends_well_def)
  show ?thesis
  proof (cases "ex_error ex = None \<and> \<not> rs_handled rs")
    case True
    show ?thesis
    proof (cases "rs_deferred rs")
      case deferred: True
      have "settled cx ex m n (ex_others ex 5 w)" using thrown True deferred by (auto simp: sound_def settled_def accounted_def)
      then have "settled cx ex m n (release_claim (rs_claim rs) (ex_others ex 5 w))" by (rule settled_keeps [OF leaves_own(2), rotated]) simp
      from settled_consume [OF this] show ?thesis using assms(3) True deferred by (auto simp: catch_record_def Let_def)
    next
      case False
      have "sound cx ex m n (rs\<lparr>rs_holdsGroup := True\<rparr>) (ex_others ex 5 w)" using thrown by (simp add: sound_def)
      from failRecord_ends [OF this, of e "ex_now ex 5" "ex_random ex 5" d] show ?thesis
        using assms(2,3) True False by (auto simp: catch_record_def Let_def ends_well_def split: prod.splits)
    qed
  next
    case False
    with assms(3) thrown show ?thesis by (auto simp: catch_record_def Let_def sound_def split: option.splits if_splits)
  qed
qed


section \<open>A key runs once\<close>

definition claimed :: "string \<Rightarrow> stored_claim \<Rightarrow> world \<Rightarrow> bool" where
  "claimed key c w \<longleftrightarrow> claims_ok (wo_claims w) \<and> map_of (wo_claims w) key = Some c"

text \<open>Others leave a claim of the key that they find.\<close>

definition leaves_claim :: "string \<Rightarrow> (world \<Rightarrow> world) \<Rightarrow> bool" where
  "leaves_claim key f \<longleftrightarrow> (\<forall>w c. claimed key c w \<longrightarrow> claimed key c (f w))"

lemma own_claims [simp]:
  "wo_claims (logged e w) = wo_claims w" "wo_claims (consumeMessage cx now m d w) = wo_claims w"
  "wo_claims (snd (retryMessage cx now r m userDelay w)) = wo_claims w"
  by (simp_all add: logged_def consumeMessage_def ackMessage_def retryMessage_def Let_def split: sum.split)

lemma claimed_same [simp]: "claimed key c (logged e w) = claimed key c w" "claimed key c (consumeMessage cx now m d w) = claimed key c w"
  by (simp_all add: claimed_def)

lemma take_claim_keeps:
  assumes "claimed key c w" and "now < sc_expiresAt c"
  shows "claimed key c (snd (take_claim cx now key' w))"
proof -
  let ?owner = "cx_uuid cx (drawn (wo_queue w))"
  have "wo_claims (snd (take_claim cx now key' w)) = fst (claim_take now ?owner key' (batch_timeout cx) (wo_claims w))"
    by (simp add: take_claim_def split: prod.split)
  then show ?thesis
    using assms claim_take_keeps claims_ok_apply [of "wo_claims w" "OpTake now ?owner key' (batch_timeout cx)"] by (simp add: claimed_def)
qed

lemma try_slots_claim:
  assumes "claimed key c w" and "now < sc_expiresAt c" and "try_slots cx now slot_key slots w = (held, w')"
  shows "claimed key c w' \<and> (\<forall>claim. held = Some claim \<longrightarrow> hc_key claim \<in> range slot_key)"
  using assms(1,3)
proof (induction slots arbitrary: w)
  case (Cons slot slots)
  obtain result w1 where take: "take_claim cx now (slot_key slot) w = (result, w1)" by fastforce
  have w1: "claimed key c w1" using take_claim_keeps [OF Cons.prems(1) assms(2), of cx "slot_key slot"] take by simp
  show ?case
  proof (cases result)
    case (Taken claim)
    then have "hc_key claim = slot_key slot"
      using take by (auto simp: take_claim_def claim_take_def Let_def split: option.splits if_splits)
    with Taken take Cons.prems(2) w1 show ?thesis by auto
  qed (use take Cons.prems(2) w1 Cons.IH in auto)
qed simp

lemma release_keeps_claim: "claimed key c w \<Longrightarrow> (\<And>claim. held = Some claim \<Longrightarrow> hc_key claim \<noteq> key) \<Longrightarrow> claimed key c (release_claim held w)"
  by (auto simp: claimed_def release_claim_def claim_release_def delete_conv' claims_ok_ops split: option.split)

lemma keep_claim_claimed:
  assumes "claimed (hc_key held) c w" and "sc_owner c = hc_owner held"
  shows "claimed (hc_key held) (c\<lparr>sc_state := state, sc_expiresAt := now + ttl * 1000\<rparr>) (keep_claim now held state ttl w)"
  using assms by (simp add: claimed_def keep_claim_def claim_keep_def update_conv' claims_ok_ops)

lemma claim_key_taken:
  assumes "claims_ok (wo_claims w)" and "sb_idempotency (cx_subscription cx) = Some (keyFields, ttl)"
    and "claim_key cx ex m d v w = (Going v', rs, w')"
  shows "\<exists>owner. rs = fresh_record\<lparr>rs_claim := Some \<lparr>hc_key = getIdempotencyKey (cx_json cx) (sb_handler (cx_subscription cx)) v keyFields, hc_owner = owner\<rparr>\<rparr> \<and>
    claimed (getIdempotencyKey (cx_json cx) (sb_handler (cx_subscription cx)) v keyFields)
      \<lparr>sc_state = Running, sc_owner = owner, sc_expiresAt = ex_now ex 1 + batch_timeout cx\<rparr> w'"
proof -
  let ?key = "getIdempotencyKey (cx_json cx) (sb_handler (cx_subscription cx)) v keyFields" and ?owner = "cx_uuid cx (drawn (wo_queue w))"
  obtain result w1 where take: "take_claim cx (ex_now ex 1) ?key w = (result, w1)" by fastforce
  have "\<exists>claim. result = Taken claim \<and> rs = fresh_record\<lparr>rs_claim := Some claim\<rparr> \<and> w' = w1"
    using assms(2,3) take by (cases result) (auto simp: claim_key_def)
  moreover have "claims_ok (wo_claims w1)"
    using take claims_ok_apply [OF assms(1), of "OpTake (ex_now ex 1) ?owner ?key (batch_timeout cx)"] by (auto simp: take_claim_def split: prod.splits)
  ultimately show ?thesis
    using take by (auto simp: take_claim_def claim_take_def Let_def claimed_def update_conv' split: option.splits if_splits)
qed

text \<open>The runs of handlers in the log.\<close>

fun is_run :: "log_entry \<Rightarrow> bool" where
  "is_run (HandlerRuns i v) = True"
| "is_run _ = False"

definition runs_of :: "world \<Rightarrow> log_entry list" where
  "runs_of w = filter is_run (wo_log w)"

lemma runs_of_own [simp]:
  "runs_of (logged e w) = runs_of w @ (if is_run e then [e] else [])" "runs_of (release_claim held w) = runs_of w" "runs_of (keep_claim now claim st ttl w) = runs_of w"
  "runs_of (snd (take_claim cx now key w)) = runs_of w" "runs_of (snd (retryMessage cx now r m userDelay w)) = runs_of w"
  "runs_of (consumeMessage cx now m d w) = runs_of w"
  by (simp_all add: runs_of_def consume_keeps)

lemma runs_of_deferred: "sendDeferredCopy cx now m waiting counted w = Inr w' \<Longrightarrow> runs_of w' = runs_of w"
  by (erule sendDeferredCopy_result) (simp_all add: runs_of_def logged_def)

definition silent :: "execution \<Rightarrow> bool" where
  "silent ex \<longleftrightarrow> (\<forall>i w. wo_log (ex_others ex i w) = wo_log w)"

lemma silent_runs [simp]: "silent ex \<Longrightarrow> runs_of (ex_others ex i w) = runs_of w"
  by (simp add: silent_def runs_of_def)

lemma runs_of_claim_key:
  assumes "claim_key cx ex m d v w = (p, rs, w')"
  shows "runs_of w' = runs_of w"
proof (cases "sb_idempotency (cx_subscription cx)")
  case (Some settings)
  obtain keyFields ttl where settings: "settings = (keyFields, ttl)" by (cases settings)
  let ?key = "getIdempotencyKey (cx_json cx) (sb_handler (cx_subscription cx)) v keyFields"
  obtain result w1 where take: "take_claim cx (ex_now ex 1) ?key w = (result, w1)" by fastforce
  then have "runs_of w1 = runs_of w" using runs_of_own(4) [of cx "ex_now ex 1" ?key w] by simp
  with assms Some settings take show ?thesis by (cases result) (auto simp: claim_key_def)
qed (use assms in \<open>simp add: claim_key_def\<close>)

lemma runs_of_claim_slot:
  assumes "claim_slot cx ex m d v rs w = (p, rs', w')"
  shows "runs_of w' = runs_of w"
proof (cases "sb_keyConcurrency (cx_subscription cx) = None")
  case False
  obtain held w1 where slot: "takeSlot cx (ex_now ex 1) (ex_random ex 2) v w = (held, w1)" by fastforce
  then have "runs_of w1 = runs_of w"
    using try_slots_keeps by (auto simp: takeSlot_def runs_of_def Let_def split: option.splits prod.splits)
  with assms False slot runs_of_deferred show ?thesis
    by (cases held) (auto simp: claim_slot_def Let_def split: sum.splits)
qed (use assms in \<open>simp add: claim_slot_def\<close>)

lemma runs_of_await_due: "silent ex \<Longrightarrow> await_due cx ex m d w = (p, w') \<Longrightarrow> runs_of w' = runs_of w"
  using runs_of_deferred by (auto simp: await_due_def Let_def split: if_splits sum.splits)

lemma runs_of_catch:
  assumes "silent ex" and "catch_record cx ex m d e rs w = (result, w')"
  shows "runs_of w' = runs_of w"
proof -
  have retried: "runs_of w2 = runs_of (ex_others ex 5 w)"
    if "retryMessage cx now r m None (release_claim held (ex_others ex 5 w)) = (x, w2)" for now r held x w2
    using runs_of_own(5) [of cx now r m None "release_claim held (ex_others ex 5 w)"] that by simp
  show ?thesis
    using assms retried
    by (auto simp: catch_record_def Let_def failRecord_def split: option.splits if_splits prod.splits bool.splits)
qed

text \<open>A record whose handler ran has gone through the steps before.\<close>

lemma handler_ran_steps:
  assumes "silent ex" and "processRecord cx ex m d w = (result, w')" and "runs_of w' \<noteq> runs_of w"
  obtains v w1 v2 rs2 w2 v3 rs3 w3 where "await_due cx ex m d w = (Going v, w1)" "claim_key cx ex m d v w1 = (Going v2, rs2, w2)"
    "claim_slot cx ex m d v rs2 w2 = (Going v3, rs3, w3)" "ex_ready ex = None"
proof -
  obtain p rs wt where tried: "try_record cx ex m d w = (p, rs, wt)" by (metis prod_cases3)
  have "runs_of w' = runs_of wt"
  proof (cases p)
    case (Thrown e)
    with assms(2) tried runs_of_catch [OF assms(1)] show ?thesis by (auto simp: processRecord_def split: prod.splits sum.splits)
  qed (use assms(2) tried in \<open>auto simp: processRecord_def\<close>)
  with assms(3) have differs: "runs_of wt \<noteq> runs_of w" by simp
  obtain p1 w1 where one: "await_due cx ex m d w = (p1, w1)" by fastforce
  with differs tried runs_of_await_due [OF assms(1) one] obtain v where going1: "p1 = Going v" by (cases p1) (auto simp: try_record_def)
  obtain p2 rs2 w2 where two: "claim_key cx ex m d v w1 = (p2, rs2, w2)" by (metis prod_cases3)
  with differs tried one going1 runs_of_await_due [OF assms(1) one] runs_of_claim_key [OF two] obtain v2 where going2: "p2 = Going v2"
    by (cases p2) (auto simp: try_record_def)
  obtain p3 rs3 w3 where three: "claim_slot cx ex m d v rs2 w2 = (p3, rs3, w3)" by (metis prod_cases3)
  with differs tried one going1 two going2 runs_of_await_due [OF assms(1) one] runs_of_claim_key [OF two] runs_of_claim_slot [OF three]
  obtain v3 where going3: "p3 = Going v3" by (cases p3) (auto simp: try_record_def)
  have "ex_ready ex = None"
  proof (rule ccontr)
    assume "ex_ready ex \<noteq> None"
    with differs tried one going1 two going2 three going3 runs_of_await_due [OF assms(1) one] runs_of_claim_key [OF two] runs_of_claim_slot [OF three]
      silent_runs [OF assms(1)] show False by (auto simp: try_record_def run_handler_def)
  qed
  with one going1 two going2 three going3 show ?thesis by (auto intro: that)
qed

lemma claim_slot_claimed:
  assumes "claimed key c w" and "ex_now ex 1 < sc_expiresAt c" and "claim_slot cx ex m d v rs w = (Going v', rs', w')" and "rs_slot rs = None"
    and "\<And>keyFields slot. getConcurrencySlotKey (cx_json cx) (sb_handler (cx_subscription cx)) v keyFields slot \<noteq> key"
  shows "claimed key c w' \<and> (\<exists>slot. rs' = rs\<lparr>rs_slot := slot\<rparr> \<and> (\<forall>claim. slot = Some claim \<longrightarrow> hc_key claim \<noteq> key))"
proof (cases "sb_keyConcurrency (cx_subscription cx)")
  case None
  then have "rs' = rs\<lparr>rs_slot := None\<rparr>" "w' = w" using assms(3,4) by (auto simp: claim_slot_def)
  then show ?thesis using assms(1) by blast
next
  case (Some settings)
  obtain held w1 where slot: "takeSlot cx (ex_now ex 1) (ex_random ex 2) v w = (held, w1)" by fastforce
  with Some assms(3) have result: "\<exists>claim. held = Some claim" "rs' = rs\<lparr>rs_slot := held\<rparr>" "w' = w1"
    by (auto simp: claim_slot_def Let_def split: option.splits sum.splits)
  from slot Some have "claimed key c w1 \<and>
      (\<forall>claim. held = Some claim \<longrightarrow> (\<exists>keyFields. hc_key claim \<in> range (getConcurrencySlotKey (cx_json cx) (sb_handler (cx_subscription cx)) v keyFields)))"
    using try_slots_claim [OF assms(1,2)] by (fastforce simp: takeSlot_def Let_def split: prod.splits)
  with result assms(5) have "claimed key c w' \<and> rs' = rs\<lparr>rs_slot := held\<rparr> \<and> (\<forall>claim. held = Some claim \<longrightarrow> hc_key claim \<noteq> key)"
    by (metis rangeE)
  then show ?thesis by blast
qed

lemma completed_keeps_key:
  assumes "silent ex" and "0 < batch_timeout cx" and "\<And>xs fs. cx_json cx (Arr 0 xs) \<noteq> cx_json cx (Obj 0 True fs)"
    and idem: "sb_idempotency (cx_subscription cx) = Some (keyFields, ttl)" and "ex_message ex (rm_body m) = Inr v"
    and "claims_ok (wo_claims (ex_others ex 1 w))"
    and key: "key = getIdempotencyKey (cx_json cx) (sb_handler (cx_subscription cx)) v keyFields"
    and others: "\<And>i. 2 \<le> i \<Longrightarrow> leaves_claim key (ex_others ex i)" and "ex_calls ex = []" and "ex_handler ex = None"
    and "processRecord cx ex m d w = (result, w')" and "runs_of w' \<noteq> runs_of w"
  shows "\<exists>owner. claimed key \<lparr>sc_state = Done, sc_owner = owner, sc_expiresAt = ex_now ex 3 + ttl * 1000\<rparr> w'"
proof -
  obtain v0 w1 v2 rs2 w2 v3 rs3 w3 where steps: "await_due cx ex m d w = (Going v0, w1)" "claim_key cx ex m d v0 w1 = (Going v2, rs2, w2)"
    "claim_slot cx ex m d v0 rs2 w2 = (Going v3, rs3, w3)" "ex_ready ex = None"
    using handler_ran_steps [OF assms(1,11,12)] .
  then have v: "v0 = v" "w1 = ex_others ex 1 w" using assms(5) by (auto simp: await_due_def Let_def split: if_splits sum.splits)
  then obtain owner where rs2: "rs2 = fresh_record\<lparr>rs_claim := Some \<lparr>hc_key = key, hc_owner = owner\<rparr>\<rparr>"
    and c2: "claimed key \<lparr>sc_state = Running, sc_owner = owner, sc_expiresAt = ex_now ex 1 + batch_timeout cx\<rparr> w2"
    using claim_key_taken [OF assms(6) idem] steps(2) key by blast
  let ?running = "\<lparr>sc_state = Running, sc_owner = owner, sc_expiresAt = ex_now ex 1 + batch_timeout cx\<rparr>"
  let ?ran = "\<lparr>sc_state = Done, sc_owner = owner, sc_expiresAt = ex_now ex 3 + ttl * 1000\<rparr>"
  have apart: "getConcurrencySlotKey (cx_json cx) (sb_handler (cx_subscription cx)) v fields' slot \<noteq> key" for fields' slot
    unfolding key getConcurrencySlotKey_def getIdempotencyKey_def using assms(3) by metis
  have "ex_now ex 1 < sc_expiresAt ?running" "rs_slot rs2 = None" using rs2 assms(2) by (simp_all add: fresh_record_def)
  from claim_slot_claimed [OF c2 this(1) steps(3) [unfolded v(1)] this(2) apart]
  obtain slot where c3: "claimed key ?running w3" and rs3: "rs3 = rs2\<lparr>rs_slot := slot\<rparr>" and slot: "\<And>claim. slot = Some claim \<Longrightarrow> hc_key claim \<noteq> key"
    by blast
  let ?w4 = "ex_others ex 3 (logged (HandlerRuns (rm_messageId m) v) (ex_others ex 2 w3))"
  have run: "run_handler cx ex m v rs3 w3 = (Going v, rs3, ?w4)" using steps(4) assms(9,10) by (simp add: run_handler_def)
  have "claimed key ?running (ex_others ex 2 w3)" using others [of 2] c3 by (simp add: leaves_claim_def)
  then have "claimed key ?running ?w4" using others [of 3] by (simp add: leaves_claim_def)
  then have c4: "claimed key ?ran (keep_claim (ex_now ex 3) \<lparr>hc_key = key, hc_owner = owner\<rparr> Done ttl ?w4)"
    using keep_claim_claimed [of "\<lparr>hc_key = key, hc_owner = owner\<rparr>" ?running ?w4 "ex_now ex 3" ttl Done] by simp
  let ?w5 = "ex_others ex 4 (consumeMessage cx (ex_now ex 3) m d (keep_claim (ex_now ex 3) \<lparr>hc_key = key, hc_owner = owner\<rparr> Done ttl ?w4))"
  have c5: "claimed key ?ran ?w5" using others [of 4] c4 by (simp add: leaves_claim_def)
  have c6: "claimed key ?ran (ex_others ex 5 ?w5)" using others [of 5] c5 by (simp add: leaves_claim_def)
  have "try_record cx ex m d w = ((case ex_done ex of None \<Rightarrow> Over | Some e \<Rightarrow> Thrown e), rs3\<lparr>rs_handled := True\<rparr>, ?w5)"
    using steps v run rs2 rs3 idem by (simp add: try_record_def settle_record_def Let_def fresh_record_def)
  then have "w' = release_claim slot ?w5 \<or> w' = release_claim slot (ex_others ex 5 ?w5)"
    using assms(11) rs3 by (auto simp: processRecord_def catch_record_def Let_def split: option.splits)
  then show ?thesis using release_keeps_claim [OF c5 slot] release_keeps_claim [OF c6 slot] by blast
qed


section \<open>Delays\<close>

text \<open>
  The delay before a failed message comes back, with a random number below one, lies between the least and the
  greatest backoff.
\<close>

lemma retry_delay_bounds:
  assumes "0 \<le> r" and "r < 1" and "0 < attempt" and "minDelay \<le> maxDelay"
  shows "minDelay \<le> wait_delay r attempt maxAttempts minDelay maxDelay \<and> wait_delay r attempt maxAttempts minDelay maxDelay \<le> maxDelay"
proof -
  let ?range = "maxDelay - minDelay"
  let ?lower = "?range / 2 * ((of_nat attempt - 1) / of_nat maxAttempts)" and ?upper = "?range * (of_nat attempt / of_nat maxAttempts)"
  have scale: "0 \<le> (of_nat attempt - 1 :: rat) / of_nat maxAttempts" "(of_nat attempt - 1 :: rat) / of_nat maxAttempts \<le> of_nat attempt / of_nat maxAttempts"
    using assms(3) by (auto simp: divide_right_mono)
  have lower: "0 \<le> ?lower" using assms(4) scale(1) by (intro mult_nonneg_nonneg) auto
  have "?lower \<le> ?range * ((of_nat attempt - 1) / of_nat maxAttempts)" using assms(4) scale(1) by (intro mult_right_mono) auto
  also have "\<dots> \<le> ?upper" using assms(4) scale(2) by (intro mult_left_mono) auto
  finally have "0 \<le> r * (?upper - ?lower + 1)" using assms(1) by simp
  with lower have "0 \<le> getRandomInteger r ?lower ?upper" by (simp add: getRandomInteger_def trunc_def)
  with assms(4) show ?thesis by (simp add: wait_delay_def Let_def mult.commute)
qed

section \<open>An example\<close>

definition sample_attributes :: message_attributes where
  "sample_attributes = \<lparr>ma_traceId = ''t'', ma_scope = None, ma_defers = None, ma_deferUntil = None\<rparr>"

definition sample_stored :: "message_attributes stored_message" where
  "sample_stored = \<lparr>messageId = ''m'', body = ''b'', attributes = sample_attributes, groupId = None, deduplicationId = None, sentAt = 0,
     visibleAt = 200000, receiveCount = 1, receivedAt = Some 0, receiptHandle = Some ''h''\<rparr>"

definition sample_delivery :: delivery where
  "sample_delivery = received_of ''h'' sample_stored"

definition sample_world :: world where
  "sample_world = \<lparr>wo_queue = createLocalQueue\<lparr>messages := [sample_stored]\<rparr>, wo_claims = [], wo_abandoned = False, wo_log = []\<rparr>"

definition sample_json :: "js_value \<Rightarrow> string" where
  "sample_json v = (case v of Arr _ _ \<Rightarrow> ''[]'' | Obj _ _ _ \<Rightarrow> ''{}'' | _ \<Rightarrow> ''null'')"

definition sample_context :: batch_context where
  "sample_context = \<lparr>cx_par = sample_queue, cx_uuid = tally, cx_service = \<lparr>sv_timeout = None, sv_maxAttempts = None, sv_minDelay = None, sv_maxDelay = None\<rparr>,
     cx_subscription = \<lparr>sb_handler = ''f'', sb_idempotency = Some ([], 60), sb_keyConcurrency = None, sb_parallelism = None, sb_acknowledge = None\<rparr>,
     cx_json = sample_json\<rparr>"

definition sample_execution :: "failure option \<Rightarrow> execution" where
  "sample_execution fails = \<lparr>ex_now = (\<lambda>i. 1000 * of_nat i), ex_random = (\<lambda>i. 0), ex_others = (\<lambda>i w. w), ex_message = (\<lambda>b. Inr (Str b)),
     ex_ready = None, ex_calls = [], ex_handler = fails, ex_done = None, ex_error = None\<rparr>"

lemmas sample_record_defs = sample_attributes_def sample_stored_def sample_delivery_def sample_world_def sample_context_def sample_execution_def
  received_of_def createLocalQueue_def



end
