(* ===== verification/Queue_Batch.thy ===== *)
theory Queue_Batch
  imports Queue_Records
begin

text \<open>
  How a subscription of the local queue runs a batch: \<open>processAllRecords\<close> and \<open>runBatch\<close> of
  \<open>providers/local/local-queue/src/handlers/lambda.ts\<close>. The records are tasks that a number of workers takes in order; the
  runs are the interleavings of a step relation. What the processing of a record answers is part of the step that ends it.
\<close>

section \<open>The records of a batch\<close>

definition TIMEOUT_MARGIN :: rat where "TIMEOUT_MARGIN = 1000"

text \<open>
  The tasks taken so far, those that wait for their turn in their group, those whose record is being processed with the
  time it started, and those that ended; \<open>bs_processed\<close> lists the records in the order their processing started. The batch is
  abandoned at its timeout or when it is stopped.
\<close>

record batch_state =
  bs_next :: nat
  bs_waiting :: "nat list"
  bs_running :: "(nat \<times> rat) list"
  bs_ended :: "nat list"
  bs_processed :: "nat list"
  bs_failedIds :: "string list"
  bs_failedGroups :: "string list"
  bs_slowest :: rat
  bs_failure :: "failure option"
  bs_abandoned :: bool

definition batch_start :: batch_state where
  "batch_start = \<lparr>bs_next = 0, bs_waiting = [], bs_running = [], bs_ended = [], bs_processed = [], bs_failedIds = [], bs_failedGroups = [],
     bs_slowest = 0, bs_failure = None, bs_abandoned = False\<rparr>"

definition deletes_each_record :: "batch_context \<Rightarrow> delivery list \<Rightarrow> bool" where
  "deletes_each_record cx ms = (batch_acknowledge cx \<noteq> AcknowledgeBatch \<and> length ms > 1)"

definition batch_workers :: "batch_context \<Rightarrow> delivery list \<Rightarrow> nat" where
  "batch_workers cx ms =
     (let whole = trunc (or_default Defaults_Parallelism (sb_parallelism (cx_subscription cx)))
      in nat (min (int (length ms)) (max 1 (if whole = 0 then 1 else whole))))"

text \<open>The record before this one in its group, whose turn it awaits.\<close>

definition previous_in_group :: "delivery list \<Rightarrow> nat \<Rightarrow> nat option" where
  "previous_in_group ms i =
     (case rm_groupId (ms ! i) of
        None \<Rightarrow> None
      | Some g \<Rightarrow> (case filter (\<lambda>j. rm_groupId (ms ! j) = Some g) [0..<i] of [] \<Rightarrow> None | js \<Rightarrow> Some (last js)))"

definition has_turn :: "delivery list \<Rightarrow> batch_state \<Rightarrow> nat \<Rightarrow> bool" where
  "has_turn ms b i = (case previous_in_group ms i of None \<Rightarrow> True | Some j \<Rightarrow> j \<in> set (bs_ended b))"

definition add_group :: "string option \<Rightarrow> string list \<Rightarrow> string list" where
  "add_group g groups = (case g of None \<Rightarrow> groups | Some name \<Rightarrow> name # groups)"

text \<open>What a record does when its turn has come: whether it starts, and the state without it among those that wait.\<close>

definition in_failed_group :: "batch_state \<Rightarrow> delivery \<Rightarrow> bool" where
  "in_failed_group b m = (case rm_groupId m of None \<Rightarrow> False | Some g \<Rightarrow> g \<in> set (bs_failedGroups b))"

definition take_turn :: "rat \<Rightarrow> delivery list \<Rightarrow> nat \<Rightarrow> rat \<Rightarrow> batch_state \<Rightarrow> batch_state" where
  "take_turn deadline ms i now b0 =
     (let m = ms ! i; b = b0\<lparr>bs_waiting := remove1 i (bs_waiting b0)\<rparr>;
          timeLeft = deadline - now - TIMEOUT_MARGIN
      in if bs_failure b \<noteq> None \<or> bs_abandoned b then b\<lparr>bs_ended := bs_ended b @ [i]\<rparr>
         else if in_failed_group b m
         then b\<lparr>bs_ended := bs_ended b @ [i], bs_failedIds := rm_messageId m # bs_failedIds b\<rparr>
         else if bs_slowest b > 0 \<and> timeLeft \<le> bs_slowest b
         then b\<lparr>bs_ended := bs_ended b @ [i], bs_failedIds := rm_messageId m # bs_failedIds b,
                bs_failedGroups := add_group (rm_groupId m) (bs_failedGroups b)\<rparr>
         else b\<lparr>bs_running := (i, now) # bs_running b, bs_processed := bs_processed b @ [i]\<rparr>)"

definition end_turn :: "delivery list \<Rightarrow> nat \<Rightarrow> rat \<Rightarrow> rat \<Rightarrow> failure + bool \<times> bool \<Rightarrow> batch_state \<Rightarrow> batch_state" where
  "end_turn ms i startTime now outcome b0 =
     (let m = ms ! i; b = b0\<lparr>bs_running := remove1 (i, startTime) (bs_running b0), bs_ended := bs_ended b0 @ [i]\<rparr>
      in case outcome of
           Inl reason \<Rightarrow> b\<lparr>bs_failure := (case bs_failure b of None \<Rightarrow> Some reason | Some e \<Rightarrow> Some e)\<rparr>
         | Inr (handedBack, holdsGroup) \<Rightarrow>
             b\<lparr>bs_slowest := max (bs_slowest b) (now - startTime),
               bs_failedIds := (if handedBack then rm_messageId m # bs_failedIds b else bs_failedIds b),
               bs_failedGroups := (if holdsGroup then add_group (rm_groupId m) (bs_failedGroups b) else bs_failedGroups b)\<rparr>)"

inductive batch_step :: "batch_context \<Rightarrow> rat \<Rightarrow> delivery list \<Rightarrow> batch_state \<Rightarrow> batch_state \<Rightarrow> bool" for cx deadline ms where
  take_record: "bs_next b < length ms \<Longrightarrow> length (bs_waiting b) + length (bs_running b) < batch_workers cx ms \<Longrightarrow>
    batch_step cx deadline ms b (b\<lparr>bs_next := Suc (bs_next b), bs_waiting := bs_waiting b @ [bs_next b]\<rparr>)"
| turn_comes: "i \<in> set (bs_waiting b) \<Longrightarrow> has_turn ms b i \<Longrightarrow> batch_step cx deadline ms b (take_turn deadline ms i now b)"
| record_ends: "(i, startTime) \<in> set (bs_running b) \<Longrightarrow> batch_step cx deadline ms b (end_turn ms i startTime now outcome b)"
| abandon_batch: "\<not> bs_abandoned b \<Longrightarrow> batch_step cx deadline ms b (b\<lparr>bs_abandoned := True\<rparr>)"

inductive_cases batch_step_cases: "batch_step cx deadline ms b b'"

definition processAllRecords :: "batch_context \<Rightarrow> rat \<Rightarrow> delivery list \<Rightarrow> batch_state \<Rightarrow> bool" where
  "processAllRecords cx deadline ms = (batch_step cx deadline ms)\<^sup>*\<^sup>* batch_start"

definition batch_done :: "delivery list \<Rightarrow> batch_state \<Rightarrow> bool" where
  "batch_done ms b = (bs_next b = length ms \<and> bs_waiting b = [] \<and> bs_running b = [])"

definition batch_result :: "batch_state \<Rightarrow> failure + string list" where
  "batch_result b = (case bs_failure b of None \<Rightarrow> Inr (bs_failedIds b) | Some reason \<Rightarrow> Inl reason)"

section \<open>The end of a batch\<close>

text \<open>The messages that were not handed back are deleted.\<close>

fun delete_handled :: "batch_context \<Rightarrow> rat \<Rightarrow> string list \<Rightarrow> delivery list \<Rightarrow> message_attributes local_queue \<Rightarrow> message_attributes local_queue" where
  "delete_handled cx now failedIds [] q = q"
| "delete_handled cx now failedIds (m # ms) q =
     delete_handled cx now failedIds ms
       (if rm_messageId m \<in> set failedIds then q else deleteMessage (cx_par cx) now (rm_receiptHandle m) q)"

text \<open>
  \<open>runBatch\<close> after its module was created: what its begin listener, its records, its error listener and its end listener
  answer, and the deletion. The answer is the error that the batch ends with.
\<close>

definition runBatch ::
  "batch_context \<Rightarrow> rat \<Rightarrow> delivery list \<Rightarrow> failure option \<Rightarrow> failure + string list \<Rightarrow> failure option \<Rightarrow> failure option \<Rightarrow> world \<Rightarrow>
   failure option \<times> world" where
  "runBatch cx now ms onBegin records onError onEnd w =
     (let failedMessageIds = (case onBegin of Some e \<Rightarrow> None | None \<Rightarrow> (case records of Inl e \<Rightarrow> None | Inr ids \<Rightarrow> Some ids))
      in case onEnd of
           Some e \<Rightarrow> (Some e, w)
         | None \<Rightarrow>
             (case failedMessageIds of
                None \<Rightarrow> (onError, w)
              | Some ids \<Rightarrow> (None, if wo_abandoned w then w else w\<lparr>wo_queue := delete_handled cx now ids ms (wo_queue w)\<rparr>)))"

section \<open>The invariant of a batch\<close>

definition in_group :: "delivery list \<Rightarrow> string \<Rightarrow> nat \<Rightarrow> bool" where
  "in_group ms g i \<longleftrightarrow> rm_groupId (ms ! i) = Some g"

definition started :: "batch_state \<Rightarrow> nat list" where
  "started b = map fst (bs_running b) @ bs_ended b"

text \<open>
  Every task taken waits, runs or has ended; the ones before a record of its group have ended when it runs; a group that
  has failed runs no record; and a record that ended without being processed was handed back, unless the batch failed.
\<close>

definition tasks_apart :: "delivery list \<Rightarrow> batch_state \<Rightarrow> bool" where
  "tasks_apart ms b \<longleftrightarrow> bs_next b \<le> length ms \<and> distinct (bs_waiting b @ started b) \<and> set (bs_waiting b @ started b) = {..<bs_next b}"

definition turns_kept :: "delivery list \<Rightarrow> batch_state \<Rightarrow> bool" where
  "turns_kept ms b \<longleftrightarrow> (\<forall>i \<in> set (started b). \<forall>j < i. \<forall>g. in_group ms g i \<and> in_group ms g j \<longrightarrow> j \<in> set (bs_ended b))"

definition processing_ordered :: "delivery list \<Rightarrow> batch_state \<Rightarrow> bool" where
  "processing_ordered ms b \<longleftrightarrow> distinct (bs_processed b) \<and> set (map fst (bs_running b)) \<subseteq> set (bs_processed b) \<and>
     set (bs_processed b) \<subseteq> set (started b) \<and> (\<forall>g. sorted_wrt (<) (filter (in_group ms g) (bs_processed b)))"

definition failed_groups_rest :: "delivery list \<Rightarrow> batch_state \<Rightarrow> bool" where
  "failed_groups_rest ms b \<longleftrightarrow> (\<forall>g \<in> set (bs_failedGroups b). \<forall>i \<in> set (map fst (bs_running b)). \<not> in_group ms g i)"

definition skipped_handed_back :: "delivery list \<Rightarrow> batch_state \<Rightarrow> bool" where
  "skipped_handed_back ms b \<longleftrightarrow> (\<forall>i \<in> set (bs_ended b). i \<in> set (bs_processed b) \<or> rm_messageId (ms ! i) \<in> set (bs_failedIds b) \<or>
     bs_failure b \<noteq> None \<or> bs_abandoned b)"

definition batch_inv :: "delivery list \<Rightarrow> batch_state \<Rightarrow> bool" where
  "batch_inv ms b \<longleftrightarrow> tasks_apart ms b \<and> turns_kept ms b \<and> processing_ordered ms b \<and> failed_groups_rest ms b \<and> skipped_handed_back ms b"

lemma batch_inv_apart:
  assumes "batch_inv ms b"
  shows "i \<in> set (bs_waiting b) \<Longrightarrow> i \<notin> set (started b)" "i \<in> set (map fst (bs_running b)) \<Longrightarrow> i \<notin> set (bs_ended b)"
    "distinct (bs_waiting b)" "distinct (map fst (bs_running b))"
  using assms by (auto simp: batch_inv_def tasks_apart_def started_def)

lemma batch_inv_turn:
  "batch_inv ms b \<Longrightarrow> i \<in> set (started b) \<Longrightarrow> j < i \<Longrightarrow> in_group ms g i \<Longrightarrow> in_group ms g j \<Longrightarrow> j \<in> set (bs_ended b)"
  by (auto simp: batch_inv_def turns_kept_def)

lemma last_of_filter_upt:
  assumes "filter P [0..<i] = js" and "js \<noteq> []"
  shows "P (last js) \<and> last js < i \<and> (\<forall>j < i. P j \<longrightarrow> j \<le> last js)"
proof -
  have split: "js = butlast js @ [last js]" using assms(2) by simp
  have mem: "j \<in> set js \<longleftrightarrow> j < i \<and> P j" for j using assms(1) by auto
  have "sorted_wrt (<) js" using assms(1) by (metis sorted_wrt_filter sorted_wrt_upt)
  then have "\<forall>j \<in> set (butlast js). j < last js" by (subst (asm) split) (simp add: sorted_wrt_append)
  moreover have "set js = insert (last js) (set (butlast js))" by (subst split) simp
  moreover have "last js \<in> set js" using assms(2) by simp
  ultimately show ?thesis using mem by (metis insert_iff less_imp_le order_refl)
qed

text \<open>When its turn has come, the records before it in its group have all ended.\<close>

lemma has_turn_earlier:
  assumes "batch_inv ms b" and "has_turn ms b i" and "in_group ms g i" and "in_group ms g j" and "j < i"
  shows "j \<in> set (bs_ended b)"
proof -
  let ?js = "filter (\<lambda>j. rm_groupId (ms ! j) = Some g) [0..<i]"
  have "j \<in> set ?js" using assms(4,5) by (simp add: in_group_def)
  then have nonempty: "?js \<noteq> []" by (metis empty_iff empty_set)
  with assms(2,3) have ended: "last ?js \<in> set (bs_ended b)"
    by (auto simp: has_turn_def previous_in_group_def in_group_def split: list.splits)
  have last: "in_group ms g (last ?js)" "j \<le> last ?js"
    using last_of_filter_upt [OF refl nonempty] assms(4,5) by (auto simp: in_group_def)
  show ?thesis
  proof (cases "j = last ?js")
    case False
    with last(2) have "j < last ?js" by simp
    moreover have "last ?js \<in> set (started b)" using ended by (simp add: started_def)
    ultimately show ?thesis using batch_inv_turn [OF assms(1)] assms(4) last(1) by blast
  qed (use ended in simp)
qed

lemma remove1_keys:
  assumes "distinct (map fst xs)" and "(i, t) \<in> set xs"
  shows "set (map fst (remove1 (i, t) xs)) = set (map fst xs) - {i}" "distinct (map fst (remove1 (i, t) xs))"
proof -
  have "distinct xs" using assms(1) by (simp add: distinct_map)
  then have rest: "set (remove1 (i, t) xs) = set xs - {(i, t)}" by simp
  have "t' = t" if "(i, t') \<in> set xs" for t' by (rule eq_key_imp_eq_value [OF assms(1) that assms(2)])
  then have "fst x \<noteq> i" if "x \<in> set xs - {(i, t)}" for x using that by (cases x) auto
  then have "fst ` (set xs - {(i, t)}) = fst ` set xs - {i}" by force
  then show "set (map fst (remove1 (i, t) xs)) = set (map fst xs) - {i}" by (simp add: rest)
  show "distinct (map fst (remove1 (i, t) xs))"
    using assms(1) set_remove1_subset [of "(i, t)" xs] by (auto simp: distinct_map intro: inj_on_subset)
qed

text \<open>Two records of a group are never started at the same time, and one that waits is behind those that started.\<close>

lemma waiting_is_behind:
  assumes "batch_inv ms b" and "i \<in> set (bs_waiting b)" and "in_group ms g i" and "in_group ms g j" and "j \<in> set (started b)"
  shows "j < i"
proof (rule ccontr)
  assume "\<not> j < i"
  moreover have "i \<noteq> j" using batch_inv_apart(1) [OF assms(1,2)] assms(5) by blast
  ultimately have "i \<in> set (bs_ended b)" using batch_inv_turn [OF assms(1,5) _ assms(4,3)] by simp
  then show False using batch_inv_apart(1) [OF assms(1,2)] by (simp add: started_def)
qed

lemma running_alone:
  assumes "batch_inv ms b" and "i \<in> set (map fst (bs_running b))" and "in_group ms g i" and "in_group ms g j" and "j \<in> set (map fst (bs_running b))"
  shows "j = i"
proof (rule ccontr)
  assume "j \<noteq> i"
  have "i \<in> set (started b)" "j \<in> set (started b)" using assms(2,5) by (simp_all add: started_def)
  with \<open>j \<noteq> i\<close> have "i \<in> set (bs_ended b) \<or> j \<in> set (bs_ended b)"
    using batch_inv_turn [OF assms(1) _ _ assms(3,4)] batch_inv_turn [OF assms(1) _ _ assms(4,3)] by (metis nat_neq_iff)
  then show False using batch_inv_apart(2) [OF assms(1)] assms(2,5) by blast
qed

lemma take_turn_cases:
  obtains (ends) ids groups where "take_turn deadline ms i now b =
      b\<lparr>bs_waiting := remove1 i (bs_waiting b), bs_ended := bs_ended b @ [i], bs_failedIds := ids, bs_failedGroups := groups\<rparr>"
    "set (bs_failedIds b) \<subseteq> set ids" "set groups \<subseteq> set (bs_failedGroups b) \<union> {g. in_group ms g i}" "set (bs_failedGroups b) \<subseteq> set groups"
    "bs_failure b \<noteq> None \<or> bs_abandoned b \<or> rm_messageId (ms ! i) \<in> set ids"
  | (starts) "take_turn deadline ms i now b =
      b\<lparr>bs_waiting := remove1 i (bs_waiting b), bs_running := (i, now) # bs_running b, bs_processed := bs_processed b @ [i]\<rparr>"
    "\<And>g. in_group ms g i \<Longrightarrow> g \<notin> set (bs_failedGroups b)"
proof -
  let ?b = "b\<lparr>bs_waiting := remove1 i (bs_waiting b)\<rparr>" and ?id = "rm_messageId (ms ! i)"
  consider "bs_failure b \<noteq> None \<or> bs_abandoned b"
    | "\<not> (bs_failure b \<noteq> None \<or> bs_abandoned b)" "in_failed_group ?b (ms ! i)"
    | "\<not> (bs_failure b \<noteq> None \<or> bs_abandoned b)" "\<not> in_failed_group ?b (ms ! i)" "bs_slowest b > 0 \<and> deadline - now - TIMEOUT_MARGIN \<le> bs_slowest b"
    | "\<not> (bs_failure b \<noteq> None \<or> bs_abandoned b)" "\<not> in_failed_group ?b (ms ! i)" "\<not> (bs_slowest b > 0 \<and> deadline - now - TIMEOUT_MARGIN \<le> bs_slowest b)"
    by blast
  then show ?thesis
  proof cases
    case 1
    then show ?thesis by (intro ends [of "bs_failedGroups b" "bs_failedIds b"]) (auto simp: take_turn_def Let_def)
  next
    case 2
    then show ?thesis by (intro ends [of "bs_failedGroups b" "?id # bs_failedIds b"]) (auto simp: take_turn_def Let_def)
  next
    case 3
    then show ?thesis
      by (intro ends [of "add_group (rm_groupId (ms ! i)) (bs_failedGroups b)" "?id # bs_failedIds b"])
        (auto simp: take_turn_def Let_def add_group_def in_group_def split: option.split)
  next
    case 4
    then show ?thesis by (intro starts) (auto simp: take_turn_def Let_def in_failed_group_def in_group_def)
  qed
qed

lemma batch_inv_take_turn:
  assumes inv: "batch_inv ms b" and i: "i \<in> set (bs_waiting b)" and turn: "has_turn ms b i"
  shows "batch_inv ms (take_turn deadline ms i now b)"
proof -
  have earlier: "j \<in> set (bs_ended b)" if "j < i" "in_group ms g i" "in_group ms g j" for j g using has_turn_earlier [OF inv turn] that by blast
  have alone: "\<not> in_group ms g j" if "in_group ms g i" "j \<in> set (map fst (bs_running b))" for g j
  proof
    assume j: "in_group ms g j"
    have "j < i" by (rule waiting_is_behind [OF inv i that(1) j]) (use that(2) in \<open>simp add: started_def\<close>)
    with earlier that j batch_inv_apart(2) [OF inv that(2)] show False by blast
  qed
  show ?thesis
  proof (cases rule: take_turn_cases [of deadline ms i now b])
    case (ends ids groups)
    let ?b = "take_turn deadline ms i now b"
    have same: "set (started ?b) = insert i (set (started b))" unfolding ends(1) by (simp add: started_def)
    have "tasks_apart ms ?b"
      using inv i batch_inv_apart(1) [OF inv i] by (auto simp: ends(1) batch_inv_def tasks_apart_def started_def)
    moreover have "turns_kept ms ?b"
      unfolding turns_kept_def same using earlier batch_inv_turn [OF inv] by (auto simp: ends(1))
    moreover have "processing_ordered ms ?b" using inv same by (auto simp: ends(1) batch_inv_def processing_ordered_def)
    moreover have "failed_groups_rest ms ?b"
      unfolding failed_groups_rest_def
    proof (intro ballI)
      fix g j
      assume "g \<in> set (bs_failedGroups ?b)" and j: "j \<in> set (map fst (bs_running ?b))"
      then have "g \<in> set (bs_failedGroups b) \<or> in_group ms g i" using ends(3) by (auto simp: ends(1))
      then show "\<not> in_group ms g j"
        using inv alone j unfolding batch_inv_def failed_groups_rest_def by (auto simp: ends(1))
    qed
    moreover have "skipped_handed_back ms ?b"
      using inv ends(2,5) by (auto simp: ends(1) batch_inv_def skipped_handed_back_def)
    ultimately show ?thesis unfolding batch_inv_def by blast
  next
    case starts
    let ?b = "take_turn deadline ms i now b"
    have same: "set (started ?b) = insert i (set (started b))" unfolding starts(1) by (simp add: started_def)
    have behind: "j < i" if "j \<in> set (bs_processed b)" "in_group ms g i" "in_group ms g j" for j g
      using waiting_is_behind [OF inv i that(2,3)] that(1) inv by (auto simp: batch_inv_def processing_ordered_def)
    have new: "i \<notin> set (bs_processed b)" using inv batch_inv_apart(1) [OF inv i] by (auto simp: batch_inv_def processing_ordered_def)
    have "tasks_apart ms ?b"
      using inv i batch_inv_apart(1) [OF inv i] by (auto simp: starts(1) batch_inv_def tasks_apart_def started_def)
    moreover have "turns_kept ms ?b"
      unfolding turns_kept_def same using earlier batch_inv_turn [OF inv] by (auto simp: starts(1))
    moreover have "sorted_wrt (<) (filter (in_group ms g) (bs_processed ?b))" for g
      using inv behind by (auto simp: starts(1) batch_inv_def processing_ordered_def sorted_wrt_append)
    then have "processing_ordered ms ?b"
      using inv same new by (auto simp: processing_ordered_def batch_inv_def) (auto simp: starts(1))
    moreover have "failed_groups_rest ms ?b"
      using inv starts(2) by (auto simp: starts(1) batch_inv_def failed_groups_rest_def)
    moreover have "skipped_handed_back ms ?b"
      using inv by (auto simp: starts(1) batch_inv_def skipped_handed_back_def)
    ultimately show ?thesis unfolding batch_inv_def by blast
  qed
qed

lemma end_turn_result:
  obtains ids groups slowest e where "end_turn ms i startTime now outcome b =
      b\<lparr>bs_running := remove1 (i, startTime) (bs_running b), bs_ended := bs_ended b @ [i], bs_failedIds := ids, bs_failedGroups := groups,
        bs_slowest := slowest, bs_failure := e\<rparr>"
    "set (bs_failedIds b) \<subseteq> set ids" "set groups \<subseteq> set (bs_failedGroups b) \<union> {g. in_group ms g i}" "set (bs_failedGroups b) \<subseteq> set groups"
    "bs_failure b \<noteq> None \<Longrightarrow> e \<noteq> None"
proof (cases outcome)
  case (Inl reason)
  then show ?thesis
    by (intro that [of "case bs_failure b of None \<Rightarrow> Some reason | Some e \<Rightarrow> Some e" "bs_slowest b" "bs_failedGroups b" "bs_failedIds b"])
      (simp_all add: end_turn_def Let_def split: option.split)
next
  case (Inr p)
  obtain handedBack holdsGroup where p: "p = (handedBack, holdsGroup)" by fastforce
  let ?ids = "if handedBack then rm_messageId (ms ! i) # bs_failedIds b else bs_failedIds b"
    and ?groups = "if holdsGroup then add_group (rm_groupId (ms ! i)) (bs_failedGroups b) else bs_failedGroups b"
  show ?thesis
    by (rule that [of "bs_failure b" "max (bs_slowest b) (now - startTime)" ?groups ?ids])
      (auto simp: end_turn_def Let_def Inr p add_group_def in_group_def split: option.split)
qed

lemma batch_inv_end_turn:
  assumes inv: "batch_inv ms b" and i: "(i, startTime) \<in> set (bs_running b)"
  shows "batch_inv ms (end_turn ms i startTime now outcome b)"
proof -
  let ?b = "end_turn ms i startTime now outcome b"
  obtain ids groups slowest e where result: "?b = b\<lparr>bs_running := remove1 (i, startTime) (bs_running b), bs_ended := bs_ended b @ [i], bs_failedIds := ids,
      bs_failedGroups := groups, bs_slowest := slowest, bs_failure := e\<rparr>"
    and grows: "set (bs_failedIds b) \<subseteq> set ids" "set groups \<subseteq> set (bs_failedGroups b) \<union> {g. in_group ms g i}" "bs_failure b \<noteq> None \<Longrightarrow> e \<noteq> None"
    by (rule end_turn_result) blast
  have key: "i \<in> set (map fst (bs_running b))" using i by force
  note removed = remove1_keys [OF batch_inv_apart(4) [OF inv] i]
  have same: "set (started ?b) = set (started b)" using key removed(1) by (auto simp: result started_def simp del: set_map)
  have "tasks_apart ms ?b"
    using inv key removed batch_inv_apart(2) [OF inv key] unfolding batch_inv_def tasks_apart_def
    by (auto simp: result started_def simp del: set_map)
  moreover have "turns_kept ms ?b" unfolding turns_kept_def same using batch_inv_turn [OF inv] by (auto simp: result)
  moreover have "processing_ordered ms ?b"
    using inv removed(1) unfolding processing_ordered_def batch_inv_def same by (auto simp: result simp del: set_map)
  moreover have "failed_groups_rest ms ?b"
    unfolding failed_groups_rest_def
  proof (intro ballI)
    fix g j
    assume "g \<in> set (bs_failedGroups ?b)" and "j \<in> set (map fst (bs_running ?b))"
    then have "g \<in> set (bs_failedGroups b) \<or> in_group ms g i" and j: "j \<in> set (map fst (bs_running b))" "j \<noteq> i"
      using grows(2) removed(1) by (auto simp: result simp del: set_map)
    then show "\<not> in_group ms g j" using inv running_alone [OF inv key _ _ j(1)] j unfolding batch_inv_def failed_groups_rest_def by blast
  qed
  moreover have "skipped_handed_back ms ?b"
    using inv key grows(1,3) unfolding batch_inv_def skipped_handed_back_def processing_ordered_def
    by (auto simp: result simp del: set_map)
  ultimately show ?thesis unfolding batch_inv_def by blast
qed

lemma batch_inv_step:
  assumes "batch_step cx deadline ms b b'" and "batch_inv ms b"
  shows "batch_inv ms b'"
  using assms(1)
proof cases
  case take_record
  have "\<And>x. x \<in> set (bs_waiting b) \<union> set (started b) \<Longrightarrow> x < bs_next b" using assms(2) by (auto simp: batch_inv_def tasks_apart_def)
  then have fresh: "bs_next b \<notin> set (bs_waiting b) \<union> set (started b)" by blast
  show ?thesis
    using assms(2) take_record(2) fresh unfolding take_record(1) batch_inv_def
    by (auto simp: tasks_apart_def turns_kept_def processing_ordered_def failed_groups_rest_def skipped_handed_back_def started_def lessThan_Suc)
next
  case (turn_comes i now)
  then show ?thesis using batch_inv_take_turn [OF assms(2)] by simp
next
  case (record_ends i startTime now outcome)
  then show ?thesis using batch_inv_end_turn [OF assms(2)] by simp
next
  case abandon_batch
  then show ?thesis
    using assms(2) unfolding batch_inv_def
    by (auto simp: tasks_apart_def turns_kept_def processing_ordered_def failed_groups_rest_def skipped_handed_back_def started_def)
qed

lemma batch_inv_start: "batch_inv ms batch_start"
  by (simp add: batch_inv_def batch_start_def tasks_apart_def turns_kept_def processing_ordered_def failed_groups_rest_def skipped_handed_back_def started_def)

lemma batch_inv_run:
  assumes "processAllRecords cx deadline ms b"
  shows "batch_inv ms b"
  using assms unfolding processAllRecords_def
  by (induction rule: rtranclp_induct) (auto intro: batch_inv_start batch_inv_step)

section \<open>Groups\<close>

lemma failed_group_rests_step:
  assumes "batch_step cx deadline ms b b'" and "g \<in> set (bs_failedGroups b)"
  shows "g \<in> set (bs_failedGroups b') \<and> filter (in_group ms g) (bs_processed b') = filter (in_group ms g) (bs_processed b)"
  using assms(1)
proof cases
  case (turn_comes i now)
  show ?thesis unfolding turn_comes(1)
    by (cases rule: take_turn_cases [of deadline ms i now b]) (use assms(2) in auto)
next
  case (record_ends i startTime now outcome)
  show ?thesis unfolding record_ends(1)
    by (rule end_turn_result [of ms i startTime now outcome b]) (use assms(2) in auto)
qed (use assms(2) in simp_all)

lemma failed_group_rests:
  assumes "(batch_step cx deadline ms)\<^sup>*\<^sup>* b b'" and "g \<in> set (bs_failedGroups b)"
  shows "filter (in_group ms g) (bs_processed b') = filter (in_group ms g) (bs_processed b)"
proof -
  have "g \<in> set (bs_failedGroups b') \<and> filter (in_group ms g) (bs_processed b') = filter (in_group ms g) (bs_processed b)"
    using assms by (induction rule: rtranclp_induct) (auto dest: failed_group_rests_step)
  then show ?thesis ..
qed

lemma one_of_group_runs:
  assumes "batch_inv ms b"
  shows "length (filter (\<lambda>(i, t). in_group ms g i) (bs_running b)) \<le> 1"
proof (rule ccontr)
  let ?fs = "filter (\<lambda>(i, t). in_group ms g i) (bs_running b)"
  assume "\<not> length ?fs \<le> 1"
  then obtain x y rest where fs: "?fs = x # y # rest" by (cases ?fs; cases "tl ?fs") auto
  then have "x \<in> set ?fs" "y \<in> set ?fs" by simp_all
  then have mem: "x \<in> set (bs_running b)" "y \<in> set (bs_running b)" "in_group ms g (fst x)" "in_group ms g (fst y)" by auto
  then have "fst y = fst x" using running_alone [OF assms, of "fst x" g "fst y"] by simp
  moreover have "distinct (map fst ?fs)" using batch_inv_apart(4) [OF assms] by (rule distinct_map_filter)
  ultimately show False unfolding fs by simp
qed


section \<open>What a batch deletes\<close>

lemma delete_handled_keeps:
  assumes "x \<in> set (messages q)" and "receiptHandle x = Some h"
    and "\<And>m. m \<in> set ms \<Longrightarrow> rm_receiptHandle m = h \<Longrightarrow> rm_messageId m \<in> set failedIds"
  shows "x \<in> set (messages (delete_handled cx now failedIds ms q))"
  using assms
proof (induction ms arbitrary: q)
  case (Cons m ms)
  let ?q = "if rm_messageId m \<in> set failedIds then q else deleteMessage (cx_par cx) now (rm_receiptHandle m) q"
  have "x \<in> set (messages ?q)"
    using Cons.prems delete_keeps_others [of x "messages q" "\<lambda>m'. receiptHandle m' \<noteq> Some (rm_receiptHandle m)"]
    by (auto simp: deleteMessage_def split: list.split)
  with Cons show ?case by simp
qed simp

text \<open>
  C17. A batch deletes no message it did not process. When its records have ended, a message whose record was skipped, because
  one before it in its group failed, there was no time left or the batch was stopped, is still in the queue after the
  deletion that ends the batch.
\<close>

theorem skipped_messages_stay:
  assumes "processAllRecords cx deadline ms b" and "batch_done ms b" and "i < length ms" and "i \<notin> set (bs_processed b)"
    and "distinct (map rm_receiptHandle ms)" and "x \<in> set (messages (wo_queue w))" and "receiptHandle x = Some (rm_receiptHandle (ms ! i))"
    and "bs_abandoned b \<longrightarrow> wo_abandoned w"
  shows "x \<in> set (messages (wo_queue (snd (runBatch cx now ms onBegin (batch_result b) onError onEnd w))))"
proof (cases "bs_failure b = None \<and> \<not> wo_abandoned w")
  case True
  have "i \<in> set (bs_ended b)"
    using batch_inv_run [OF assms(1)] assms(2,3) by (auto simp: batch_inv_def tasks_apart_def batch_done_def started_def)
  then have "rm_messageId (ms ! i) \<in> set (bs_failedIds b)"
    using batch_inv_run [OF assms(1)] assms(4,8) True by (auto simp: batch_inv_def skipped_handed_back_def)
  moreover have "m = ms ! i" if "m \<in> set ms" "rm_receiptHandle m = rm_receiptHandle (ms ! i)" for m
    using that assms(3,5) by (auto simp: distinct_map dest: inj_onD)
  ultimately have "x \<in> set (messages (delete_handled cx now (bs_failedIds b) ms (wo_queue w)))"
    using delete_handled_keeps [OF assms(6,7)] by blast
  with True assms(6) show ?thesis by (auto simp: runBatch_def batch_result_def Let_def split: option.split)
qed (use assms(6) in \<open>auto simp: runBatch_def batch_result_def Let_def split: option.split\<close>)

section \<open>A batch ends\<close>

definition steps_left :: "delivery list \<Rightarrow> batch_state \<Rightarrow> nat" where
  "steps_left ms b = 3 * (length ms - bs_next b) + 2 * length (bs_waiting b) + length (bs_running b) + (if bs_abandoned b then 0 else 1)"

lemma steps_left_decreases:
  assumes "batch_step cx deadline ms b b'"
  shows "steps_left ms b' < steps_left ms b"
  using assms
proof cases
  case (turn_comes i now)
  then have "length (bs_waiting b) = Suc (length (remove1 i (bs_waiting b)))" by (auto simp: length_remove1 dest: length_pos_if_in_set)
  then show ?thesis unfolding turn_comes(1)
    by (cases rule: take_turn_cases [of deadline ms i now b]) (auto simp: steps_left_def)
next
  case (record_ends i startTime now outcome)
  then have "length (bs_running b) = Suc (length (remove1 (i, startTime) (bs_running b)))" by (auto simp: length_remove1 dest: length_pos_if_in_set)
  moreover obtain ids groups slowest e where "b' = b\<lparr>bs_running := remove1 (i, startTime) (bs_running b), bs_ended := bs_ended b @ [i],
      bs_failedIds := ids, bs_failedGroups := groups, bs_slowest := slowest, bs_failure := e\<rparr>"
    unfolding record_ends(1) by (rule end_turn_result [of ms i startTime now outcome b]) blast
  ultimately show ?thesis by (simp add: steps_left_def)
qed (auto simp: steps_left_def)

lemma steps_bounded:
  assumes "(batch_step cx deadline ms ^^ k) b b'"
  shows "k + steps_left ms b' \<le> steps_left ms b"
  using assms by (induction k arbitrary: b') (fastforce dest: steps_left_decreases)+

lemma previous_less:
  assumes "previous_in_group ms i = Some p"
  shows "p < i"
proof -
  obtain g where g: "rm_groupId (ms ! i) = Some g" using assms by (auto simp: previous_in_group_def split: option.splits)
  let ?js = "filter (\<lambda>j. rm_groupId (ms ! j) = Some g) [0..<i]"
  have "?js \<noteq> []" "p = last ?js" using assms g by (auto simp: previous_in_group_def split: list.splits)
  then show ?thesis using last_of_filter_upt [OF refl] by blast
qed

lemma batch_goes_on:
  assumes inv: "batch_inv ms b" and "\<not> batch_done ms b"
  shows "\<exists>b'. batch_step cx deadline ms b b'"
proof (cases "bs_running b")
  case (Cons r rs)
  then have "(fst r, snd r) \<in> set (bs_running b)" by simp
  then show ?thesis by (blast intro: record_ends)
next
  case Nil
  show ?thesis
  proof (cases "bs_waiting b")
    case (Cons j js)
    let ?i = "Min (set (bs_waiting b))"
    have i: "?i \<in> set (bs_waiting b)" using Cons by (intro Min_in) auto
    have "p \<in> set (bs_ended b)" if "previous_in_group ms ?i = Some p" for p
    proof -
      have "p < ?i" by (rule previous_less [OF that])
      moreover from this have "p \<notin> set (bs_waiting b)" by (metis List.finite_set Min_le not_less)
      moreover have "?i < bs_next b" using inv i by (auto simp: batch_inv_def tasks_apart_def)
      ultimately have "p \<in> set (started b)" using inv by (auto simp: batch_inv_def tasks_apart_def)
      then show ?thesis using Nil by (simp add: started_def)
    qed
    then have "has_turn ms b ?i" by (simp add: has_turn_def split: option.split)
    with i show ?thesis by (blast intro: turn_comes)
  next
    case Nil': Nil
    with assms(2) Nil have "bs_next b < length ms" using inv by (auto simp: batch_inv_def tasks_apart_def batch_done_def)
    moreover from this have "0 < batch_workers cx ms" by (auto simp: batch_workers_def Let_def)
    ultimately have "batch_step cx deadline ms b (b\<lparr>bs_next := Suc (bs_next b), bs_waiting := bs_waiting b @ [bs_next b]\<rparr>)"
      by (intro take_record) (simp_all add: Nil Nil')
    then show ?thesis by blast
  qed
qed

text \<open>
  C18. A batch ends. As long as records are left some step can be taken, also when records of one group wait for each other
  with any number of workers, and no run of a batch has more than three steps for each record and one more.
\<close>

theorem batch_ends:
  assumes "(batch_step cx deadline ms ^^ k) batch_start b"
  shows "k \<le> 3 * length ms + 1 \<and> (batch_done ms b \<or> (\<exists>b'. batch_step cx deadline ms b b'))"
proof
  show "k \<le> 3 * length ms + 1" using steps_bounded [OF assms] by (simp add: steps_left_def batch_start_def)
  have "processAllRecords cx deadline ms b" using assms unfolding processAllRecords_def by (rule relpowp_imp_rtranclp)
  then show "batch_done ms b \<or> (\<exists>b'. batch_step cx deadline ms b b')" using batch_goes_on batch_inv_run by blast
qed

section \<open>An example\<close>

text \<open>Two records of a group: the first one fails, so the second one is skipped.\<close>

definition sample_batch :: "delivery list" where
  "sample_batch = [sample_delivery\<lparr>rm_groupId := Some ''g''\<rparr>, sample_delivery\<lparr>rm_messageId := ''n'', rm_receiptHandle := ''i'', rm_groupId := Some ''g''\<rparr>]"

definition next_record :: "batch_state \<Rightarrow> batch_state" where
  "next_record b = b\<lparr>bs_next := Suc (bs_next b), bs_waiting := bs_waiting b @ [bs_next b]\<rparr>"

definition first_failed :: batch_state where
  "first_failed = end_turn sample_batch 0 0 5 (Inr (True, True)) (take_turn 150000 sample_batch 0 0 (next_record batch_start))"

definition second_skipped :: batch_state where
  "second_skipped = take_turn 150000 sample_batch 1 6 (next_record first_failed)"

lemma next_record_step:
  "bs_next b < length ms \<Longrightarrow> length (bs_waiting b) + length (bs_running b) < batch_workers cx ms \<Longrightarrow> batch_step cx deadline ms b (next_record b)"
  unfolding next_record_def by (rule take_record)

lemma sample_steps: "(batch_step sample_context 150000 sample_batch ^^ 3) batch_start first_failed"
  "(batch_step sample_context 150000 sample_batch ^^ 5) batch_start second_skipped"
proof -
  let ?step = "batch_step sample_context 150000 sample_batch"
  let ?b1 = "next_record batch_start"
  let ?b2 = "take_turn 150000 sample_batch 0 0 ?b1"
  have "?step batch_start ?b1" by (rule next_record_step) code_simp+
  moreover have "?step ?b1 ?b2" by (rule turn_comes) code_simp+
  moreover have "?step ?b2 first_failed" unfolding first_failed_def by (rule record_ends) code_simp
  ultimately show first: "(?step ^^ 3) batch_start first_failed" by (auto simp: eval_nat_numeral)
  have "?step first_failed (next_record first_failed)" by (rule next_record_step) code_simp+
  moreover have "?step (next_record first_failed) second_skipped" unfolding second_skipped_def by (rule turn_comes) code_simp+
  ultimately have "(?step ^^ Suc (Suc 3)) batch_start second_skipped" using first by (blast intro: relpowp_Suc_I)
  then show "(?step ^^ 5) batch_start second_skipped" by (simp add: eval_nat_numeral)
qed

lemma sample_rest: "(batch_step sample_context 150000 sample_batch)\<^sup>*\<^sup>* first_failed second_skipped"
proof -
  let ?step = "batch_step sample_context 150000 sample_batch"
  have "?step first_failed (next_record first_failed)" by (rule next_record_step) code_simp+
  moreover have "?step (next_record first_failed) second_skipped" unfolding second_skipped_def by (rule turn_comes) code_simp+
  ultimately show ?thesis by (meson converse_rtranclp_into_rtranclp rtranclp.rtrancl_refl)
qed

lemma sample_first: "''g'' \<in> set (bs_failedGroups first_failed)" "bs_processed first_failed = [0]" "in_group sample_batch ''g'' 0"
  by code_simp+


definition sample_second :: "message_attributes stored_message" where
  "sample_second = sample_stored\<lparr>messageId := ''n'', receiptHandle := Some ''i''\<rparr>"

theorem skipped_messages_stay_witness:
  "sample_second \<in> set (messages (wo_queue (snd (runBatch sample_context 7 sample_batch None (batch_result second_skipped) None None
     (sample_world\<lparr>wo_queue := (wo_queue sample_world)\<lparr>messages := [sample_stored, sample_second]\<rparr>\<rparr>)))))"
proof (rule skipped_messages_stay [where deadline = 150000 and i = 1])
  show "processAllRecords sample_context 150000 sample_batch second_skipped"
    using sample_steps(2) unfolding processAllRecords_def by (rule relpowp_imp_rtranclp)
  show "batch_done sample_batch second_skipped" by code_simp
  show "1 < length sample_batch" by code_simp
  show "1 \<notin> set (bs_processed second_skipped)" by code_simp
  show "distinct (map rm_receiptHandle sample_batch)" by code_simp
  show "receiptHandle sample_second = Some (rm_receiptHandle (sample_batch ! 1))" by code_simp
  have "\<not> bs_abandoned second_skipped" by code_simp
  then show "bs_abandoned second_skipped \<longrightarrow> wo_abandoned (sample_world\<lparr>wo_queue := (wo_queue sample_world)\<lparr>messages := [sample_stored, sample_second]\<rparr>\<rparr>)" by simp
qed simp

theorem batch_ends_witness:
  "(batch_step sample_context 150000 sample_batch ^^ 5) batch_start second_skipped \<and> (5 :: nat) \<le> 3 * length sample_batch + 1"
  using sample_steps(2) batch_ends [OF sample_steps(2)] by blast

end
