(* ===== verification/Queue_Poller.thy ===== *)
theory Queue_Poller
  imports Queue_Batch
begin

text \<open>
  How the local queue hands its messages to a subscription: \<open>providers/local/local-queue/src/service/poller.ts\<close>. The poller takes
  messages in batches up to a size, waits up to a window to fill one, and has at most a number of batches in flight. A
  batch that was dispatched is processed elsewhere; that it ended is an event.
\<close>

section \<open>The poller\<close>

record poller_parameters =
  pp_batchSize :: nat
  pp_batchWindow :: rat
  pp_concurrency :: "nat option"

record 'a poller =
  po_active :: "'a received_message list list"
  po_pending :: "'a received_message list"
  po_timer :: "rat option"
  po_stopped :: bool

definition new_poller :: "'a poller" where
  "new_poller = \<lparr>po_active = [], po_pending = [], po_timer = None, po_stopped = False\<rparr>"

definition hasCapacity :: "poller_parameters \<Rightarrow> 'a poller \<Rightarrow> bool" where
  "hasCapacity pp p = (case pp_concurrency pp of None \<Rightarrow> True | Some n \<Rightarrow> n = 0 \<or> length (po_active p) < n)"

definition dispatchBatch :: "'a received_message list \<Rightarrow> 'a poller \<Rightarrow> 'a poller" where
  "dispatchBatch ms p = p\<lparr>po_active := po_active p @ [ms]\<rparr>"

definition dispatchPending :: "'a poller \<Rightarrow> 'a poller" where
  "dispatchPending p = dispatchBatch (po_pending p) (p\<lparr>po_timer := None, po_pending := []\<rparr>)"

text \<open>A poll that never returns is \<open>None\<close>.\<close>

partial_function (option) pollQueue ::
  "poller_parameters \<Rightarrow> queue_parameters \<Rightarrow> (nat \<Rightarrow> string) \<Rightarrow> rat \<Rightarrow> 'a poller \<Rightarrow> 'a local_queue \<Rightarrow> ('a poller \<times> 'a local_queue) option" where
  "pollQueue pp par uuid now p q =
     (if po_stopped p \<or> \<not> hasCapacity pp p then Some (p, q)
      else let received = receiveMessages par uuid now (int (pp_batchSize pp) - int (length (po_pending p))) q;
               q' = fst received; ms = snd received
           in if ms = [] then Some (p, q')
              else if pp_batchWindow pp = 0 then pollQueue pp par uuid now (dispatchBatch ms p) q'
              else let p' = p\<lparr>po_pending := po_pending p @ ms\<rparr>
                   in if length (po_pending p') < pp_batchSize pp
                      then Some (if po_timer p' = None then p'\<lparr>po_timer := Some (now + pp_batchWindow pp * 1000)\<rparr> else p', q')
                      else pollQueue pp par uuid now (dispatchPending p') q')"

declare pollQueue.simps [code]

definition isIdle :: "'a poller \<Rightarrow> bool" where
  "isIdle p = (po_active p = [] \<and> po_pending p = [])"

text \<open>Stopping aborts the batches in flight, which then end; the messages that were pending are left to their visibility timeout.\<close>

definition stopPoller :: "'a poller \<Rightarrow> 'a poller" where
  "stopPoller p = p\<lparr>po_stopped := True, po_timer := None, po_pending := []\<rparr>"

definition batch_ended :: "nat \<Rightarrow> 'a poller \<Rightarrow> 'a poller" where
  "batch_ended i p = p\<lparr>po_active := List.take i (po_active p) @ drop (Suc i) (po_active p)\<rparr>"

section \<open>Events\<close>

text \<open>The queue calls the poller after a change, the window ends, a batch ends, the poller is stopped, or others change the queue.\<close>

datatype 'a poller_event =
    QueueChanged rat
  | WindowEnded
  | BatchEnded nat
  | Stopped
  | OthersChange "'a local_queue \<Rightarrow> 'a local_queue"

fun poller_event_step ::
  "poller_parameters \<Rightarrow> queue_parameters \<Rightarrow> (nat \<Rightarrow> string) \<Rightarrow> 'a poller_event \<Rightarrow> 'a poller \<times> 'a local_queue \<Rightarrow> ('a poller \<times> 'a local_queue) option" where
  "poller_event_step pp par uuid (QueueChanged now) (p, q) = (if po_stopped p then Some (p, q) else pollQueue pp par uuid now p q)"
| "poller_event_step pp par uuid WindowEnded (p, q) = (if po_timer p = None then Some (p, q) else Some (dispatchPending p, q))"
| "poller_event_step pp par uuid (BatchEnded i) (p, q) = Some (batch_ended i p, notify q)"
| "poller_event_step pp par uuid Stopped (p, q) = Some (stopPoller p, q)"
| "poller_event_step pp par uuid (OthersChange f) (p, q) = Some (p, f q)"

fun poller_history ::
  "poller_parameters \<Rightarrow> queue_parameters \<Rightarrow> (nat \<Rightarrow> string) \<Rightarrow> 'a poller_event list \<Rightarrow> 'a poller \<times> 'a local_queue \<Rightarrow> ('a poller \<times> 'a local_queue) option" where
  "poller_history pp par uuid [] s = Some s"
| "poller_history pp par uuid (e # es) s = Option.bind (poller_event_step pp par uuid e s) (poller_history pp par uuid es)"

section \<open>Polling returns\<close>

definition receivable :: "rat \<Rightarrow> 'a stored_message list \<Rightarrow> nat" where
  "receivable now ms = length (filter (\<lambda>m. visibleAt m \<le> now) ms)"

lemma receivable_filter: "receivable now (filter P ms) \<le> receivable now ms"
  by (induction ms) (auto simp: receivable_def)

lemma receive_loop_hides:
  assumes "receive_loop par uuid now quota blocked n ms = (kept, received, dead, n')" and "0 < visibilityTimeout par"
  shows "receivable now kept + length received \<le> receivable now ms"
  using assms by (induction rule: receive_loop_induct) (auto simp: receivable_def)

lemma receive_hides:
  assumes "0 < visibilityTimeout par"
  shows "receivable now (messages (fst (receiveMessages par uuid now quota q))) + length (snd (receiveMessages par uuid now quota q)) \<le> receivable now (messages q)"
proof -
  obtain kept received dead n where run: "receive_loop par uuid now quota
      (blocked_groups par now (unexpired par now q)) (drawn q) (unexpired par now q) = (kept, received, dead, n)"
    by (metis prod_cases4)
  have "receivable now kept + length received \<le> receivable now (unexpired par now q)" by (rule receive_loop_hides [OF run assms])
  also have "\<dots> \<le> receivable now (messages q)" unfolding unexpired_def by (rule receivable_filter)
  finally show ?thesis using receiveMessages_result [OF run] by simp
qed

lemma poll_total:
  assumes "0 < visibilityTimeout par"
  shows "\<exists>p' q'. pollQueue pp par uuid now p q = Some (p', q')"
proof (induction "receivable now (messages q)" arbitrary: p q rule: less_induct)
  case less
  let ?r = "receiveMessages par uuid now (int (pp_batchSize pp) - int (length (po_pending p))) q"
  have "receivable now (messages (fst ?r)) < receivable now (messages q)" if "snd ?r \<noteq> []"
    using receive_hides [OF assms, of now uuid "int (pp_batchSize pp) - int (length (po_pending p))" q] that
    by (cases "snd ?r") auto
  note rest = less [OF this]
  show ?case
    using rest by (subst pollQueue.simps) (simp add: Let_def)
qed

text \<open>
  C19. A poll returns: with a visibility timeout, every message it receives is out of sight for the rest of the poll, so the loop
  ends, also when the number of batches in flight is not bounded.
\<close>

theorem poll_returns:
  assumes "0 < visibilityTimeout par"
  shows "\<exists>p' q'. pollQueue pp par uuid now p q = Some (p', q')"
  using poll_total [OF assms] .

section \<open>The bounds of a poller\<close>

definition poller_ok :: "poller_parameters \<Rightarrow> 'a poller \<Rightarrow> bool" where
  "poller_ok pp p \<longleftrightarrow>
     (\<forall>n. pp_concurrency pp = Some n \<and> n \<noteq> 0 \<longrightarrow> length (po_active p) \<le> n \<and> (po_pending p \<noteq> [] \<longrightarrow> length (po_active p) < n)) \<and>
     (\<forall>ms \<in> set (po_active p). ms \<noteq> [] \<and> length ms \<le> pp_batchSize pp) \<and> length (po_pending p) < pp_batchSize pp \<and>
     (po_timer p = None \<longleftrightarrow> po_pending p = []) \<and> (pp_batchWindow pp = 0 \<longrightarrow> po_pending p = [])"

lemma receive_at_most: "length (snd (receiveMessages par uuid now quota q)) \<le> nat quota"
proof -
  obtain kept received dead n where run: "receive_loop par uuid now quota
      (blocked_groups par now (unexpired par now q)) (drawn q) (unexpired par now q) = (kept, received, dead, n)"
    by (metis prod_cases4)
  have "int (length received) \<le> max 0 quota" using receive_loop_conserves [OF run] by simp
  then have "length received \<le> nat quota" by (cases "0 \<le> quota") auto
  with receiveMessages_result(1) [OF run] show ?thesis by simp
qed

lemma poller_ok_dispatch:
  assumes "poller_ok pp p" and "hasCapacity pp p" and "po_pending p = []" and "ms \<noteq> []" and "length ms \<le> pp_batchSize pp"
  shows "poller_ok pp (dispatchBatch ms p)"
  using assms by (auto simp: poller_ok_def dispatchBatch_def hasCapacity_def split: option.splits)

lemma poller_ok_pending:
  assumes "poller_ok pp p" and "hasCapacity pp p" and "ms \<noteq> []" and "length (po_pending p) + length ms = pp_batchSize pp"
  shows "poller_ok pp (dispatchPending (p\<lparr>po_pending := po_pending p @ ms\<rparr>))"
proof -
  have result: "dispatchPending (p\<lparr>po_pending := po_pending p @ ms\<rparr>) =
      p\<lparr>po_active := po_active p @ [po_pending p @ ms], po_pending := [], po_timer := None\<rparr>"
    by (simp add: dispatchPending_def dispatchBatch_def)
  have "length (po_active p) < n" if "pp_concurrency pp = Some n" "n \<noteq> 0" for n using assms(2) that by (simp add: hasCapacity_def)
  moreover have "0 < pp_batchSize pp" using assms(3,4) by (cases ms) auto
  moreover have "\<forall>ms \<in> set (po_active p). ms \<noteq> [] \<and> length ms \<le> pp_batchSize pp" using assms(1) by (simp add: poller_ok_def)
  ultimately show ?thesis unfolding result poller_ok_def using assms(3,4) by (simp add: Suc_le_eq)
qed

text \<open>One round of the loop, with any poll in the place of the rounds that follow.\<close>

lemma poll_round:
  assumes ok: "poller_ok pp p" and IH: "\<And>p q s. poll p q = Some s \<Longrightarrow> poller_ok pp p \<Longrightarrow> poller_ok pp (fst s)"
    and round: "(if po_stopped p \<or> \<not> hasCapacity pp p then Some (p, q)
      else let received = receiveMessages par uuid now (int (pp_batchSize pp) - int (length (po_pending p))) q;
               q' = fst received; ms = snd received
           in if ms = [] then Some (p, q')
              else if pp_batchWindow pp = 0 then poll (dispatchBatch ms p) q'
              else let p' = p\<lparr>po_pending := po_pending p @ ms\<rparr>
                   in if length (po_pending p') < pp_batchSize pp
                      then Some (if po_timer p' = None then p'\<lparr>po_timer := Some (now + pp_batchWindow pp * 1000)\<rparr> else p', q')
                      else poll (dispatchPending p') q') = Some s"
  shows "poller_ok pp (fst s)"
proof -
  let ?r = "receiveMessages par uuid now (int (pp_batchSize pp) - int (length (po_pending p))) q"
  let ?ms = "snd ?r"
  let ?p = "p\<lparr>po_pending := po_pending p @ ?ms\<rparr>"
  have size: "length (po_pending p) + length ?ms \<le> pp_batchSize pp"
    using receive_at_most [of par uuid now "int (pp_batchSize pp) - int (length (po_pending p))" q] ok unfolding poller_ok_def by linarith
  show ?thesis
  proof (cases "po_stopped p \<or> \<not> hasCapacity pp p \<or> ?ms = []")
    case True
    then have "fst s = p" using round by (auto simp: Let_def split: if_splits)
    with ok show ?thesis by simp
  next
    case False
    then have capacity: "hasCapacity pp p" "?ms \<noteq> []" "\<not> po_stopped p" by auto
    show ?thesis
    proof (cases "pp_batchWindow pp = 0")
      case True
      then have "po_pending p = []" using ok by (simp add: poller_ok_def)
      moreover from this have "length ?ms \<le> pp_batchSize pp" using size by simp
      moreover have "poll (dispatchBatch ?ms p) (fst ?r) = Some s" using round capacity True by (simp add: Let_def)
      ultimately show ?thesis using IH poller_ok_dispatch [OF ok capacity(1) _ capacity(2)] by blast
    next
      case window: False
      show ?thesis
      proof (cases "length (po_pending ?p) < pp_batchSize pp")
        case True
        then have "fst s = (if po_timer ?p = None then ?p\<lparr>po_timer := Some (now + pp_batchWindow pp * 1000)\<rparr> else ?p)"
          using round capacity window by (auto simp: Let_def)
        moreover have "length (po_active p) < n" if "pp_concurrency pp = Some n" "n \<noteq> 0" for n using capacity(1) that by (simp add: hasCapacity_def)
        ultimately show ?thesis using ok True capacity(2) window by (cases "po_pending p") (simp_all add: poller_ok_def less_imp_le)
      next
        case full: False
        then have "length (po_pending p) + length ?ms = pp_batchSize pp" using size by simp
        moreover have "poll (dispatchPending ?p) (fst ?r) = Some s" using round capacity window full by (simp add: Let_def)
        ultimately show ?thesis using IH poller_ok_pending [OF ok capacity(1,2)] by blast
      qed
    qed
  qed
qed

lemma poll_keeps_ok:
  assumes "pollQueue pp par uuid now p q = Some s" and "poller_ok pp p"
  shows "poller_ok pp (fst s)"
proof -
  have "poller_ok pp p \<longrightarrow> poller_ok pp (fst s)"
  proof (rule pollQueue.raw_induct [where P = "\<lambda>pp par uuid now p q s. poller_ok pp p \<longrightarrow> poller_ok pp (fst s)", OF _ assms(1)], goal_cases)
    case (1 poll pp par uuid now p q s)
    show ?case using poll_round [OF _ _ 1(2)] 1(1) by blast
  qed
  with assms(2) show ?thesis by simp
qed

lemma poller_ok_event:
  assumes "poller_event_step pp par uuid e s = Some s'" and "poller_ok pp (fst s)"
  shows "poller_ok pp (fst s')"
proof (cases e)
  case (QueueChanged now)
  then show ?thesis using assms poll_keeps_ok [of pp par uuid now "fst s" "snd s" s'] by (cases s) (auto split: if_splits)
next
  case WindowEnded
  then show ?thesis
    using assms by (cases s) (auto simp: poller_ok_def dispatchPending_def dispatchBatch_def split: if_splits)
next
  case (BatchEnded i)
  then show ?thesis
    using assms by (cases s) (fastforce simp: poller_ok_def batch_ended_def dest: in_set_takeD in_set_dropD)
next
  case Stopped
  then show ?thesis using assms by (cases s) (auto simp: poller_ok_def stopPoller_def intro: le_less_trans)
next
  case (OthersChange f)
  then show ?thesis using assms by (cases s) auto
qed

text \<open>
  C20. Whatever events a poller meets, it has no more batches in flight than its concurrency allows, none of them is empty or
  larger than the batch size, and messages wait for their batch only while its window is open.
\<close>

theorem poller_stays_in_bounds:
  assumes "0 < pp_batchSize pp" and "poller_history pp par uuid es (new_poller, q) = Some (p, q')"
  shows "(\<forall>n. pp_concurrency pp = Some n \<and> n \<noteq> 0 \<longrightarrow> length (po_active p) \<le> n) \<and>
    (\<forall>ms \<in> set (po_active p). 0 < length ms \<and> length ms \<le> pp_batchSize pp) \<and> length (po_pending p) < pp_batchSize pp \<and>
    (po_pending p \<noteq> [] \<longrightarrow> po_timer p \<noteq> None)"
proof -
  have "poller_ok pp (fst s')" if "poller_history pp par uuid es s = Some s'" "poller_ok pp (fst s)" for es s s'
    using that
  proof (induction es arbitrary: s)
    case (Cons e es)
    then obtain s1 where "poller_event_step pp par uuid e s = Some s1" "poller_history pp par uuid es s1 = Some s'"
      by (auto simp: bind_eq_Some_conv)
    with Cons poller_ok_event show ?case by blast
  qed simp
  from this [OF assms(2)] have "poller_ok pp p" using assms(1) by (simp add: poller_ok_def new_poller_def)
  then show ?thesis by (auto simp: poller_ok_def)
qed

section \<open>An example\<close>

definition sample_poller :: poller_parameters where
  "sample_poller = \<lparr>pp_batchSize = 2, pp_batchWindow = 0, pp_concurrency = Some 1\<rparr>"

definition three_messages :: "unit local_queue" where
  "three_messages = fold (\<lambda>i. sendMessage sample_queue tally 0 (sample_message ''g'' i)) [''a'', ''b'', ''c''] createLocalQueue"

theorem poll_returns_witness: "\<exists>p q. pollQueue sample_poller sample_queue tally 1 new_poller three_messages = Some (p, q)"
proof (rule poll_returns)
  show "0 < visibilityTimeout sample_queue" by (simp add: sample_queue_def)
qed

theorem poller_stays_in_bounds_witness:
  "\<exists>p q. poller_history sample_poller sample_queue tally [QueueChanged 1] (new_poller, three_messages) = Some (p, q) \<and> length (po_active p) \<le> 1"
proof -
  obtain p q where "pollQueue sample_poller sample_queue tally 1 new_poller three_messages = Some (p, q)"
    using poll_total [of sample_queue sample_poller tally 1 new_poller three_messages] by (auto simp: sample_queue_def)
  then have run: "poller_history sample_poller sample_queue tally [QueueChanged 1] (new_poller, three_messages) = Some (p, q)"
    by (simp add: new_poller_def)
  have "length (po_active p) \<le> 1" using poller_stays_in_bounds [OF _ run] by (simp add: sample_poller_def)
  with run show ?thesis by blast
qed

end
