(* ===== verification/Queue_Messages.thy ===== *)
theory Queue_Messages
  imports Queue_Records Validator_Spec Transform_Spec
begin

text \<open>
  The messages a client sends to the local queue: \<open>providers/local/local-queue/src/utils/message.ts\<close> and \<open>utils/group.ts\<close>, with
  \<open>utils/message.ts\<close> and \<open>utils/errors.ts\<close> of \<open>contracts/queue\<close>. A message is transformed and validated after the schema of its
  queue before it is written. The texts of values, the text \<open>JSON.stringify\<close> gives, the hash of a body and fresh
  trace identifiers are parameters.
\<close>

section \<open>Reading a message after its schema\<close>

datatype send_error =
    SchemaFailed schema_error
  | MalformedMessageError "error_details list"
  | MissingMessageGroupError string
  | InvalidParameter "string option"

definition getJsonMessage ::
  "transform_engine \<Rightarrow> (string \<times> format_handler) list \<Rightarrow> nat \<Rightarrow> (js_value \<Rightarrow> any_schema \<Rightarrow> string option \<Rightarrow> string \<Rightarrow> thrown option) option \<Rightarrow>
   js_value \<Rightarrow> any_schema \<Rightarrow> send_error + js_value" where
  "getJsonMessage E F stack custom input schema =
     (case transformAny E stack input schema (createTransformContext None None (Some False) None) (\<lambda>n. None) of
        Inl e \<Rightarrow> Inl (SchemaFailed e)
      | Inr (payload, refs) \<Rightarrow>
          (case validateAny (js_engine.truncate E) F stack payload schema
              (createValidatorContext\<lparr>vc_property := Some ''$message'', onCustomValidation := custom\<rparr>) (\<lambda>n. None) of
             Inl e \<Rightarrow> Inl (SchemaFailed e)
           | Inr (errs, refs') \<Rightarrow>
               if errs \<noteq> [] then Inl (MalformedMessageError (getErrorDetails (js_engine.truncate E) errs)) else Inr payload))"

section \<open>Sending a message\<close>

text \<open>
  What a queue sends with: the engine, the formats and the depth of the stack of the validation, the text of a value in a
  template, the text of a value as JSON and the hash of a text, the schema of the queue, and its modes, each with the field of the group; a
  FIFO queue may have a field that makes a message unique.
\<close>

record send_context =
  sn_engine :: transform_engine
  sn_formats :: "(string \<times> format_handler) list"
  sn_stack :: nat
  sn_text :: "js_value \<Rightarrow> string"
  sn_json :: "js_value \<Rightarrow> string"
  sn_hash :: "string \<Rightarrow> string"
  sn_schema :: any_schema
  sn_fifoMode :: "(string \<times> string option) option"
  sn_fairMode :: "string option"

definition getJsonStringMessage :: "send_context \<Rightarrow> js_value \<Rightarrow> send_error + string" where
  "getJsonStringMessage sn input =
     (case getJsonMessage (sn_engine sn) (sn_formats sn) (sn_stack sn) None input (sn_schema sn) of
        Inl e \<Rightarrow> Inl e | Inr payload \<Rightarrow> Inr (sn_json sn payload))"

definition group_field :: "send_context \<Rightarrow> string option" where
  "group_field sn =
     (case (case sn_fifoMode sn of Some (field, uniqueId) \<Rightarrow> Some field | None \<Rightarrow> sn_fairMode sn) of
        None \<Rightarrow> None | Some name \<Rightarrow> if name = [] then None else Some name)"

definition getMessageGroupId :: "send_context \<Rightarrow> js_value \<Rightarrow> send_error + string option" where
  "getMessageGroupId sn input =
     (case group_field sn of
        None \<Rightarrow> Inr None
      | Some name \<Rightarrow>
          let groupValue = field_of input name
          in if truthy groupValue then Inr (Some (sn_text sn groupValue)) else Inl (MissingMessageGroupError name))"

definition getDeduplicationId :: "send_context \<Rightarrow> js_value \<Rightarrow> string option \<Rightarrow> string \<Rightarrow> string" where
  "getDeduplicationId sn input uniqueId content =
     (case uniqueId of
        None \<Rightarrow> sn_hash sn content
      | Some name \<Rightarrow> if name \<noteq> [] \<and> truthy (field_of input name) then sn_text sn (field_of input name) else sn_hash sn content)"

definition MAX_MESSAGE_SIZE :: nat where "MAX_MESSAGE_SIZE = 1048576"

definition MAX_MESSAGE_DELAY :: rat where "MAX_MESSAGE_DELAY = 900"

definition assertMessageDelay :: "js_number \<Rightarrow> bool \<Rightarrow> send_error + rat" where
  "assertMessageDelay waiting fifo =
     (if fifo then Inl (InvalidParameter (Some ''DelaySeconds''))
      else case waiting of
             Fin d \<Rightarrow> if d < 0 \<or> d > MAX_MESSAGE_DELAY then Inl (InvalidParameter (Some ''DelaySeconds'')) else Inr d
           | _ \<Rightarrow> Inl (InvalidParameter (Some ''DelaySeconds'')))"

text \<open>\<open>MESSAGE_ID_PATTERN\<close>: one to 128 printable characters but the space.\<close>

definition is_message_id :: "string \<Rightarrow> bool" where
  "is_message_id s = (1 \<le> length s \<and> length s \<le> 128 \<and> list_all (\<lambda>c. 33 \<le> (of_char c :: nat) \<and> (of_char c :: nat) \<le> 126) s)"

definition assertMessageId :: "string \<Rightarrow> string option \<Rightarrow> send_error + unit" where
  "assertMessageId parameterName v =
     (case v of None \<Rightarrow> Inr () | Some s \<Rightarrow> if is_message_id s then Inr () else Inl (InvalidParameter (Some parameterName)))"

definition getAttributeSize :: "string \<Rightarrow> string \<Rightarrow> nat" where
  "getAttributeSize name v = byteLength name + byteLength ''String'' + byteLength v"

definition getMessageSize :: "string \<Rightarrow> message_attributes \<Rightarrow> nat" where
  "getMessageSize content attrs =
     byteLength content + getAttributeSize ''EZ4.TRACE_ID'' (ma_traceId attrs) +
     (case ma_scope attrs of None \<Rightarrow> 0 | Some scope \<Rightarrow> getAttributeSize ''EZ4.SCOPE'' scope)"

text \<open>\<open>fresh\<close> is the identifier drawn when the trace has none.\<close>

definition getOutgoingMessage ::
  "send_context \<Rightarrow> string \<Rightarrow> js_value \<Rightarrow> string option \<Rightarrow> string option \<Rightarrow> js_number option \<Rightarrow> send_error + message_attributes outgoing_message" where
  "getOutgoingMessage sn fresh input traceId scope waiting =
     (case getJsonStringMessage sn input of
        Inl e \<Rightarrow> Inl e
      | Inr content \<Rightarrow>
     (case getMessageGroupId sn input of
        Inl e \<Rightarrow> Inl e
      | Inr groupId' \<Rightarrow>
          let deduplicationId' = (case sn_fifoMode sn of None \<Rightarrow> None | Some (g, uniqueId) \<Rightarrow> Some (getDeduplicationId sn input uniqueId content));
              attrs = \<lparr>ma_traceId = or_default fresh traceId, ma_scope = scope, ma_defers = None, ma_deferUntil = None\<rparr>
          in (case (case waiting of None \<Rightarrow> Inr None | Some d \<Rightarrow> map_sum id Some (assertMessageDelay d (sn_fifoMode sn \<noteq> None))) of
                Inl e \<Rightarrow> Inl e
              | Inr delay' \<Rightarrow>
             (case assertMessageId ''MessageGroupId'' groupId' of
                Inl e \<Rightarrow> Inl e
              | Inr _ \<Rightarrow>
             (case assertMessageId ''MessageDeduplicationId'' deduplicationId' of
                Inl e \<Rightarrow> Inl e
              | Inr _ \<Rightarrow>
                  if getMessageSize content attrs > MAX_MESSAGE_SIZE then Inl (InvalidParameter None)
                  else Inr \<lparr>om_body = content, om_attributes = attrs, om_groupId = groupId', om_deduplicationId = deduplicationId',
                            om_delay = delay'\<rparr>)))))"

section \<open>Sending several messages\<close>

fun send_from :: "('m \<Rightarrow> 'w \<Rightarrow> ('e + unit) \<times> 'w) \<Rightarrow> nat \<Rightarrow> 'm list \<Rightarrow> 'w \<Rightarrow> (nat \<times> 'm \<times> 'e) list \<times> 'w" where
  "send_from send index [] w = ([], w)"
| "send_from send index (m # ms) w =
     (case send m w of
        (result, w1) \<Rightarrow>
          (case send_from send (Suc index) ms w1 of
             (failures, w2) \<Rightarrow> (case result of Inl e \<Rightarrow> (index, m, e) # failures | Inr _ \<Rightarrow> failures, w2)))"

text \<open>The error carries the failures and the number of messages.\<close>

definition sendEachMessage :: "('m \<Rightarrow> 'w \<Rightarrow> ('e + unit) \<times> 'w) \<Rightarrow> 'm list \<Rightarrow> 'w \<Rightarrow> ((nat \<times> 'm \<times> 'e) list \<times> nat + unit) \<times> 'w" where
  "sendEachMessage send ms w =
     (case send_from send 0 ms w of (failures, w') \<Rightarrow> (if failures = [] then Inr () else Inl (failures, length ms), w'))"

section \<open>The delay as a header\<close>

definition DELAY_HEADER :: string where "DELAY_HEADER = ''x-ez4-delay''"

definition getMessageDelayHeaders :: "(js_number \<Rightarrow> string) \<Rightarrow> js_number option \<Rightarrow> (string \<times> string) list" where
  "getMessageDelayHeaders text_of waiting = (case waiting of None \<Rightarrow> [] | Some d \<Rightarrow> [(DELAY_HEADER, text_of d)])"

definition getMessageDelayFromHeaders :: "(js_value \<Rightarrow> js_number) \<Rightarrow> (string \<times> string) list option \<Rightarrow> js_number option" where
  "getMessageDelayFromHeaders number_of headers =
     (case headers of None \<Rightarrow> None | Some hs \<Rightarrow> map_option (\<lambda>s. number_of (Str s)) (obj_get hs DELAY_HEADER))"

section \<open>What is sent\<close>

lemma getJsonMessage_conforms:
  assumes "formats_ok F" and "regular schema" and "size schema < stack" and "getJsonMessage E F stack None input schema = Inr payload"
  shows "conforms (js_engine.truncate E) F False None schema payload"
proof -
  let ?ctx = "createValidatorContext\<lparr>vc_property := Some ''$message'', onCustomValidation := None\<rparr>"
  have "value_context None ?ctx" by (simp add: value_context_def createValidatorContext_def)
  then obtain errs refs' where run: "validateAny (js_engine.truncate E) F stack payload schema ?ctx (\<lambda>n. None) = Inr (errs, refs')"
    and decided: "errs = [] \<longleftrightarrow> conforms (js_engine.truncate E) F False None schema payload"
    using regular_decided [OF assms(1-3)] by (meson decidesE)
  have "errs = []"
    using assms(4) run by (auto simp: getJsonMessage_def split: sum.splits prod.splits if_splits)
  with decided show ?thesis by simp
qed

lemma assertMessageDelay_result: "assertMessageDelay waiting fifo = Inr d \<Longrightarrow> \<not> fifo \<and> 0 \<le> d \<and> d \<le> MAX_MESSAGE_DELAY \<and> waiting = Fin d"
  by (auto simp: assertMessageDelay_def split: if_splits js_number.splits)

lemma getOutgoingMessage_result:
  assumes "getOutgoingMessage sn fresh input traceId scope waiting = Inr om"
  shows "getJsonStringMessage sn input = Inr (om_body om) \<and> getMessageGroupId sn input = Inr (om_groupId om) \<and>
    (\<forall>d. om_delay om = Some d \<longrightarrow> sn_fifoMode sn = None \<and> 0 \<le> d \<and> d \<le> MAX_MESSAGE_DELAY) \<and>
    (\<forall>s. om_groupId om = Some s \<longrightarrow> is_message_id s) \<and> (\<forall>s. om_deduplicationId om = Some s \<longrightarrow> is_message_id s) \<and>
    (om_deduplicationId om = None \<longleftrightarrow> sn_fifoMode sn = None) \<and> getMessageSize (om_body om) (om_attributes om) \<le> MAX_MESSAGE_SIZE"
proof -
  obtain content where content: "getJsonStringMessage sn input = Inr content"
    using assms by (cases "getJsonStringMessage sn input") (auto simp: getOutgoingMessage_def)
  obtain g where g: "getMessageGroupId sn input = Inr g"
    using assms content by (cases "getMessageGroupId sn input") (auto simp: getOutgoingMessage_def)
  let ?dedup = "case sn_fifoMode sn of None \<Rightarrow> None | Some (g, uniqueId) \<Rightarrow> Some (getDeduplicationId sn input uniqueId content)"
  let ?waiting = "case waiting of None \<Rightarrow> Inr None | Some d \<Rightarrow> map_sum id Some (assertMessageDelay d (sn_fifoMode sn \<noteq> None))"
  obtain d where d: "?waiting = Inr d"
    using assms content g by (cases ?waiting) (auto simp: getOutgoingMessage_def Let_def)
  have ids: "assertMessageId ''MessageGroupId'' g = Inr ()" "assertMessageId ''MessageDeduplicationId'' ?dedup = Inr ()"
    using assms content g d by (auto simp: getOutgoingMessage_def Let_def split: sum.splits)
  have om: "om_body om = content" "om_groupId om = g" "om_deduplicationId om = ?dedup" "om_delay om = d"
    "getMessageSize content (om_attributes om) \<le> MAX_MESSAGE_SIZE"
    using assms content g d ids by (auto simp: getOutgoingMessage_def Let_def not_less split: if_splits)
  have "\<forall>x. d = Some x \<longrightarrow> sn_fifoMode sn = None \<and> 0 \<le> x \<and> x \<le> MAX_MESSAGE_DELAY"
    using d by (cases "sn_fifoMode sn") (auto dest: assertMessageDelay_result split: option.splits sum.splits simp: map_sum_def)
  moreover have "\<forall>s. v = Some s \<longrightarrow> is_message_id s" if "assertMessageId n v = Inr ()" for n v
    using that by (auto simp: assertMessageId_def split: if_splits)
  ultimately show ?thesis using om content g ids by (auto split: option.splits)
qed

text \<open>
  C21. A message that is accepted for sending is one the queue and its subscriptions take: it is the text of a value that conforms
  to the schema of the queue, it names a group exactly when the queue asks for one and is identified for deduplication
  exactly on a FIFO queue, its identifiers have the characters and lengths allowed, its delay is allowed, and
  with its attributes it is no longer than a message may be.
\<close>

theorem outgoing_message_is_valid:
  assumes "formats_ok (sn_formats sn)" and "regular (sn_schema sn)" and "size (sn_schema sn) < sn_stack sn"
    and "getOutgoingMessage sn fresh input traceId scope waiting = Inr om"
  shows "(\<exists>payload. conforms (js_engine.truncate (sn_engine sn)) (sn_formats sn) False None (sn_schema sn) payload \<and> om_body om = sn_json sn payload) \<and>
    (om_groupId om = None \<longleftrightarrow> group_field sn = None) \<and> (om_deduplicationId om = None \<longleftrightarrow> sn_fifoMode sn = None) \<and>
    (\<forall>s. s \<in> set_option (om_groupId om) \<union> set_option (om_deduplicationId om) \<longrightarrow> is_message_id s) \<and>
    (\<forall>d. om_delay om = Some d \<longrightarrow> sn_fifoMode sn = None \<and> 0 \<le> d \<and> d \<le> MAX_MESSAGE_DELAY) \<and>
    getMessageSize (om_body om) (om_attributes om) \<le> MAX_MESSAGE_SIZE"
proof -
  note result = getOutgoingMessage_result [OF assms(4)]
  obtain payload where read: "getJsonMessage (sn_engine sn) (sn_formats sn) (sn_stack sn) None input (sn_schema sn) = Inr payload" "om_body om = sn_json sn payload"
    using result by (auto simp: getJsonStringMessage_def split: sum.splits)
  moreover have "om_groupId om = None \<longleftrightarrow> group_field sn = None"
    using result by (cases "om_groupId om"; cases "group_field sn") (simp_all add: getMessageGroupId_def Let_def split: if_splits)
  ultimately show ?thesis using getJsonMessage_conforms [OF assms(1-3) read(1)] result by auto
qed

lemma send_from_failures:
  assumes "send_from send index ms w = (failures, w')"
  shows "set failures \<subseteq> {(i, m, e). index \<le> i \<and> i < index + length ms \<and> ms ! (i - index) = m} \<and> distinct (map fst failures)"
  using assms
proof (induction ms arbitrary: index w failures w')
  case (Cons m ms)
  obtain result w1 where one: "send m w = (result, w1)" by fastforce
  obtain rest w2 where more: "send_from send (Suc index) ms w1 = (rest, w2)" by fastforce
  have rest: "set rest \<subseteq> {(i, m, e). Suc index \<le> i \<and> i < Suc index + length ms \<and> ms ! (i - Suc index) = m}" "distinct (map fst rest)"
    using Cons.IH [OF more] by auto
  have "(i - index) = Suc (i - Suc index)" if "Suc index \<le> i" for i using that by simp
  then have "set rest \<subseteq> {(i, m', e). index \<le> i \<and> i < index + length (m # ms) \<and> (m # ms) ! (i - index) = m'}" "index \<notin> set (map fst rest)"
    using rest(1) by fastforce+
  with Cons.prems one more rest(2) show ?case by (auto split: sum.splits)
qed simp

section \<open>An example\<close>

definition sample_send :: send_context where
  "sample_send = \<lparr>sn_engine = sample_conversions, sn_formats = [], sn_stack = 100, sn_text = (\<lambda>v. ''g''), sn_json = (\<lambda>v. ''{}''), sn_hash = (\<lambda>s. ''h''),
     sn_schema = sample_options [''on''], sn_fifoMode = Some (''on'', None), sn_fairMode = None\<rparr>"

definition sample_input :: js_value where
  "sample_input = Obj 0 True [(''on'', Bool True)]"

lemma sample_sent: "\<exists>om. getOutgoingMessage sample_send ''t'' sample_input None None None = Inr om"
proof -
  have content: "getJsonStringMessage sample_send sample_input = Inr ''{}''" by code_simp
  have ids: "getMessageGroupId sample_send sample_input = Inr (Some ''g'')" "getDeduplicationId sample_send sample_input None ''{}'' = ''h''"
    "is_message_id ''g''" "is_message_id ''h''" "sn_fifoMode sample_send = Some (''on'', None)"
    by code_simp+
  have "getMessageSize ''{}'' \<lparr>ma_traceId = ''t'', ma_scope = None, ma_defers = None, ma_deferUntil = None\<rparr> = 21" by code_simp
  then show ?thesis using content ids by (simp add: getOutgoingMessage_def assertMessageId_def MAX_MESSAGE_SIZE_def or_default_def)
qed

theorem outgoing_message_is_valid_witness:
  "\<exists>om. getOutgoingMessage sample_send ''t'' sample_input None None None = Inr om \<and>
     (\<exists>payload. conforms (js_engine.truncate (sn_engine sample_send)) [] False None (sample_options [''on'']) payload \<and> om_body om = sn_json sample_send payload) \<and>
     om_deduplicationId om \<noteq> None"
proof -
  obtain om where om: "getOutgoingMessage sample_send ''t'' sample_input None None None = Inr om" using sample_sent by blast
  have schema: "sn_schema sample_send = sample_options [''on'']" "sn_formats sample_send = []" "sn_stack sample_send = 100" "sn_fifoMode sample_send \<noteq> None"
    by (simp_all add: sample_send_def)
  have "regular (sn_schema sample_send)" "size (sn_schema sample_send) < sn_stack sample_send"
    unfolding schema by (simp_all add: sample_option_defs literal_ok_def)
  moreover have "formats_ok (sn_formats sample_send)" unfolding schema by (simp add: formats_ok_def)
  ultimately show ?thesis
    using outgoing_message_is_valid [OF _ _ _ om] om unfolding schema by (metis schema(4))
qed

end
