(* ===== verification/Schedule_Expression.thy ===== *)
theory Schedule_Expression
  imports Validator Text_Case
begin

text \<open>
  The expressions of the local scheduler (\<open>local-scheduler/src/utils/expression.ts\<close> and \<open>utils/time.ts\<close>): rates, cron
  expressions and single dates, and the date each of them runs next.

  A regular expression of the source is a function that answers with its groups. The library that reads cron
  fields and dates of a time zone is a parameter, and so are the parsing of a date text and the conversions between
  numbers and texts. A time is in milliseconds; a date that is not valid is \<open>None\<close>.
\<close>

section \<open>Numbers of the language\<close>

fun num_add :: "js_number \<Rightarrow> js_number \<Rightarrow> js_number" where
  "num_add (Fin a) (Fin b) = Fin (a + b)"
| "num_add NaN b = NaN"
| "num_add a NaN = NaN"
| "num_add PosInfinity NegInfinity = NaN"
| "num_add NegInfinity PosInfinity = NaN"
| "num_add (Fin a) b = b"
| "num_add a b = a"

fun num_neg :: "js_number \<Rightarrow> js_number" where
  "num_neg NaN = NaN"
| "num_neg PosInfinity = NegInfinity"
| "num_neg NegInfinity = PosInfinity"
| "num_neg (Fin a) = Fin (- a)"

definition signed_infinity :: "rat \<Rightarrow> js_number" where
  "signed_infinity a = (if a = 0 then NaN else if a > 0 then PosInfinity else NegInfinity)"

fun num_mul :: "js_number \<Rightarrow> js_number \<Rightarrow> js_number" where
  "num_mul (Fin a) (Fin b) = Fin (a * b)"
| "num_mul NaN b = NaN"
| "num_mul a NaN = NaN"
| "num_mul PosInfinity (Fin b) = signed_infinity b"
| "num_mul NegInfinity (Fin b) = num_neg (signed_infinity b)"
| "num_mul (Fin a) PosInfinity = signed_infinity a"
| "num_mul (Fin a) NegInfinity = num_neg (signed_infinity a)"
| "num_mul PosInfinity b = b"
| "num_mul NegInfinity b = num_neg b"

text \<open>A division by zero; there is no negative zero in the model.\<close>

fun num_div :: "js_number \<Rightarrow> js_number \<Rightarrow> js_number" where
  "num_div (Fin a) (Fin b) = (if b = 0 then signed_infinity a else Fin (a / b))"
| "num_div NaN b = NaN"
| "num_div a NaN = NaN"
| "num_div (Fin a) b = Fin 0"
| "num_div PosInfinity (Fin b) = (if b < 0 then NegInfinity else PosInfinity)"
| "num_div NegInfinity (Fin b) = (if b < 0 then PosInfinity else NegInfinity)"
| "num_div a b = NaN"

fun num_floor :: "js_number \<Rightarrow> js_number" where
  "num_floor (Fin a) = Fin (of_int \<lfloor>a\<rfloor>)"
| "num_floor n = n"

definition num_max :: "js_number \<Rightarrow> js_number \<Rightarrow> js_number" where
  "num_max a b = (if a = NaN \<or> b = NaN then NaN else if num_less a b then b else a)"

definition num_le :: "js_number \<Rightarrow> js_number \<Rightarrow> bool" where
  "num_le a b = (a \<noteq> NaN \<and> b \<noteq> NaN \<and> \<not> num_less b a)"

section \<open>Dates\<close>

type_synonym js_date = "int option"

text \<open>\<open>new Date(time)\<close> takes whole milliseconds in a range of a hundred million days around the epoch.\<close>

definition new_Date :: "js_number \<Rightarrow> js_date" where
  "new_Date n = (case n of Fin r \<Rightarrow> if \<bar>r\<bar> \<le> 8640000000000000 then Some (if r < 0 then \<lceil>r\<rceil> else \<lfloor>r\<rfloor>) else None | _ \<Rightarrow> None)"

definition getTime :: "js_date \<Rightarrow> js_number" where
  "getTime d = (case d of None \<Rightarrow> NaN | Some t \<Rightarrow> Fin (of_int t))"

text \<open>The number of a day since the epoch, with months from 1 and any number of a day, and its day of the week from Sunday.\<close>

definition is_leap :: "int \<Rightarrow> bool" where
  "is_leap y = (4 dvd y \<and> (\<not> 100 dvd y \<or> 400 dvd y))"

definition day_of_year :: "int \<Rightarrow> int" where
  "day_of_year y = 365 * (y - 1970) + (y - 1969) div 4 - (y - 1901) div 100 + (y - 1601) div 400"

definition days_before :: "int \<Rightarrow> nat \<Rightarrow> int" where
  "days_before y m =
     [0, 31, 59, 90, 120, 151, 181, 212, 243, 273, 304, 334] ! (m - 1) + (if m > 2 \<and> is_leap y then 1 else 0)"

definition day_number :: "int \<Rightarrow> nat \<Rightarrow> int \<Rightarrow> int" where
  "day_number y m d =
     (let y' = y + int ((m - 1) div 12); m' = (m - 1) mod 12 + 1 in day_of_year y' + days_before y' m' + d - 1)"

definition day_of_week :: "int \<Rightarrow> nat \<Rightarrow> int \<Rightarrow> nat" where
  "day_of_week y m d = nat ((day_number y m d + 4) mod 7)"

text \<open>The day before the first of the next month, as a day of the month.\<close>

definition last_day :: "int \<Rightarrow> nat \<Rightarrow> int" where
  "last_day y m = day_number y (Suc m) 0 - day_number y m 1 + 1"

section \<open>Constants and types\<close>

datatype ExpressionType = Cron | Rate | At

record expression_options =
  eo_timezone :: "string option"
  eo_startDate :: "string option"
  eo_endDate :: "string option"

datatype schedule_error = UnsupportedExpression string | InvalidDate string | InvalidZonedDate

record expression_result =
  er_type :: ExpressionType
  er_value :: string
  er_getNextDate :: "js_date \<Rightarrow> schedule_error + js_date option"

datatype weekday_day = LastWeekday | NearDay nat

record cron_schedule =
  cs_value :: string
  cs_timezone :: string
  cs_years :: "nat list"
  cs_weekday :: "weekday_day option"
  cs_startTime :: "js_number option"
  cs_endTime :: "js_number option"

text \<open>A date of a time zone as the cron library gives it, and the library.\<close>

record cron_date =
  cd_time :: int
  cd_year :: nat
  cd_month :: nat
  cd_day :: nat

record schedule_library =
  sl_accepts :: "string \<Rightarrow> string \<Rightarrow> bool"
  sl_next :: "string \<Rightarrow> string \<Rightarrow> js_number \<Rightarrow> cron_date option"
  sl_zoned :: "string \<Rightarrow> string \<Rightarrow> int option"
  sl_parse :: "string \<Rightarrow> js_number"
  sl_number :: "string \<Rightarrow> js_number"
  sl_text :: "js_number \<Rightarrow> string"

definition DEFAULT_TIMEZONE :: string where "DEFAULT_TIMEZONE = ''UTC''"
definition MIN_YEAR :: nat where "MIN_YEAR = 1970"
definition MAX_YEAR :: nat where "MAX_YEAR = 2199"
definition MAX_CRON_STEPS :: nat where "MAX_CRON_STEPS = 1000"
definition DAY_OF_WEEK_NAMES :: "string list" where
  "DAY_OF_WEEK_NAMES = [''SUN'', ''MON'', ''TUE'', ''WED'', ''THU'', ''FRI'', ''SAT'']"

definition TimeUnits :: "(string \<times> rat) list" where
  "TimeUnits = [(''second'', 1000), (''seconds'', 1000), (''minute'', 60000), (''minutes'', 60000), (''hour'', 3600000), (''hours'', 3600000),
     (''day'', 86400000), (''days'', 86400000)]"

section \<open>Bounds\<close>

definition getOptionalTime :: "schedule_library \<Rightarrow> string option \<Rightarrow> schedule_error + js_number option" where
  "getOptionalTime lib date =
     (case date of
        None \<Rightarrow> Inr None
      | Some s \<Rightarrow> if s = [] then Inr None else if sl_parse lib s = NaN then Inl (InvalidDate s) else Inr (Some (sl_parse lib s)))"

definition getBoundedDate :: "js_number \<Rightarrow> js_number option \<Rightarrow> js_date option" where
  "getBoundedDate time endTime =
     (case endTime of None \<Rightarrow> Some (new_Date time) | Some e \<Rightarrow> if num_le time e then Some (new_Date time) else None)"

section \<open>Rates\<close>

text \<open>The groups of the regular expression of a rate: its number and its unit, in upper or lower case.\<close>

definition match_rate :: "string \<Rightarrow> (string \<times> string) option" where
  "match_rate input =
     (let s1 = dropWhile is_space (drop 5 input); number = takeWhile is_digit_char s1;
          s2 = dropWhile is_digit_char s1; s3 = dropWhile is_space s2;
          letter = (\<lambda>c. is_lower c \<or> is_upper c); unit = takeWhile letter s3; s4 = dropWhile is_space (dropWhile letter s3)
      in if map lower_char (List.take 5 input) = ''rate('' \<and> number \<noteq> [] \<and> s3 \<noteq> s2 \<and>
            map lower_char unit \<in> {''minute'', ''minutes'', ''hour'', ''hours'', ''day'', ''days''} \<and> s4 = '')''
         then Some (number, unit) else None)"

definition getNextRateTime :: "js_number \<Rightarrow> js_number \<Rightarrow> js_number option \<Rightarrow> js_number" where
  "getNextRateTime interval currentTime startTime =
     (case startTime of
        None \<Rightarrow> num_add currentTime interval
      | Some start \<Rightarrow>
          if num_less currentTime start then start
          else num_add start (num_mul (num_add (num_floor (num_div (num_add currentTime (num_neg start)) interval)) (Fin 1)) interval))"

definition rate_interval :: "string \<Rightarrow> string \<Rightarrow> js_number" where
  "rate_interval number unit =
     num_mul (Fin (of_nat (dec_value number))) (case map_of TimeUnits unit of None \<Rightarrow> NaN | Some n \<Rightarrow> Fin n)"

definition parseRateExpression :: "schedule_library \<Rightarrow> string \<Rightarrow> expression_options \<Rightarrow> schedule_error + expression_result option" where
  "parseRateExpression lib input options =
     (case match_rate input of
        None \<Rightarrow> Inr None
      | Some (number, unit) \<Rightarrow>
          (case getOptionalTime lib (eo_startDate options) of
             Inl e \<Rightarrow> Inl e
           | Inr startTime \<Rightarrow>
               (case getOptionalTime lib (eo_endDate options) of
                  Inl e \<Rightarrow> Inl e
                | Inr endTime \<Rightarrow>
                    Inr (Some \<lparr>er_type = Rate, er_value = digits_of (dec_value number) @ '' '' @ unit,
                      er_getNextDate = (\<lambda>currentDate.
                        Inr (getBoundedDate (getNextRateTime (rate_interval number unit) (getTime currentDate) startTime) endTime))\<rparr>))))"

section \<open>Fields of a cron expression\<close>

text \<open>The day nearest to a day of the month, or to its last day, that is no Saturday and no Sunday.\<close>

definition getNearestWeekday :: "nat \<Rightarrow> nat \<Rightarrow> weekday_day \<Rightarrow> int option" where
  "getNearestWeekday year month weekday =
     (let lastDay = last_day (int year) month; day = (case weekday of LastWeekday \<Rightarrow> lastDay | NearDay n \<Rightarrow> int n)
      in if day > lastDay then None
         else Some (case day_of_week (int year) month day of
                      0 \<Rightarrow> if day < lastDay then day + 1 else day - 2
                    | Suc w \<Rightarrow> if w = 5 then (if day > 1 then day - 1 else day + 2) else day))"

definition parseWeekdayDay :: "string \<Rightarrow> weekday_day option" where
  "parseWeekdayDay dayOfMonth =
     (if dayOfMonth = ''LW'' then Some LastWeekday
      else let number = takeWhile is_digit_char dayOfMonth;
               day = (if number \<noteq> [] \<and> length number \<le> 2 \<and> dropWhile is_digit_char dayOfMonth = ''W'' then dec_value number else 0)
           in if day \<ge> 1 \<and> day \<le> 31 then Some (NearDay day) else None)"

text \<open>\<open>text.split(',')\<close>.\<close>

fun split_at :: "char \<Rightarrow> string \<Rightarrow> string list" where
  "split_at c [] = [[]]"
| "split_at c (x # xs) = (if x = c then [] # split_at c xs else (case split_at c xs of p # ps \<Rightarrow> (x # p) # ps | [] \<Rightarrow> [[x]]))"

definition is_year :: "string \<Rightarrow> bool" where
  "is_year s = (length s = 4 \<and> list_all is_digit_char s)"

text \<open>The groups of the regular expression of a year: the wildcard, or the first and the last year, and the step.\<close>

definition match_year :: "string \<Rightarrow> ((string \<times> string option) option \<times> string option) option" where
  "match_year item =
     (let base = takeWhile (\<lambda>c. c \<noteq> CHR ''/'') item; rest = dropWhile (\<lambda>c. c \<noteq> CHR ''/'') item
      in if rest = ''/'' \<or> \<not> list_all is_digit_char (drop 1 rest) then None
         else let step = (if rest = [] then None else Some (drop 1 rest))
              in if base = ''*'' then Some (None, step)
                 else if is_year base then Some (Some (base, None), step)
                 else if is_year (List.take 4 base) \<and> List.take 1 (drop 4 base) = ''-'' \<and> is_year (drop 5 base)
                 then Some (Some (List.take 4 base, Some (drop 5 base)), step)
                 else None)"

text \<open>The loop over the years of an item; an increment is at least one.\<close>

function years_from :: "nat \<Rightarrow> nat \<Rightarrow> nat \<Rightarrow> nat list" where
  "years_from year end_year increment =
     (if year \<le> end_year \<and> increment > 0 then year # years_from (year + increment) end_year increment else [])"
  by pat_completeness auto
termination by (relation "measure (\<lambda>(year, end_year, increment). Suc end_year - year)") auto

declare years_from.simps [simp del]

definition item_years :: "string \<Rightarrow> nat list option" where
  "item_years item =
     (case match_year item of
        None \<Rightarrow> None
      | Some (years, step) \<Rightarrow>
          (let start = (case years of None \<Rightarrow> MIN_YEAR | Some (first, _) \<Rightarrow> dec_value first);
               final = (case years of
                          None \<Rightarrow> MAX_YEAR
                        | Some (first, None) \<Rightarrow> if step \<noteq> None then MAX_YEAR else dec_value first
                        | Some (first, Some final) \<Rightarrow> dec_value final);
               increment = (case step of None \<Rightarrow> 1 | Some s \<Rightarrow> dec_value s)
           in if start < MIN_YEAR \<or> final > MAX_YEAR \<or> start > final \<or> increment < 1 then None
              else Some (years_from start final increment)))"

definition parseYears :: "string \<Rightarrow> nat list option" where
  "parseYears field =
     (let items = map item_years (split_at (CHR '','') field)
      in if None \<in> set items then None else Some (sort (remdups (concat (map the items)))))"

section \<open>Days of the week\<close>

definition getDayOfWeekNumber :: "schedule_library \<Rightarrow> string \<Rightarrow> js_number" where
  "getDayOfWeekNumber lib day =
     (case find (\<lambda>(i, name). name = map upper_char day) (List.enumerate 0 DAY_OF_WEEK_NAMES) of
        Some (i, name) \<Rightarrow> Fin (of_nat (Suc i))
      | None \<Rightarrow> sl_number lib day)"

text \<open>The loop over the days; an increment is at least one.\<close>

function days_from :: "rat \<Rightarrow> rat \<Rightarrow> nat \<Rightarrow> rat list" where
  "days_from day end_day increment = (if day \<le> end_day \<and> increment > 0 then (day - 1) # days_from (day + of_nat increment) end_day increment else [])"
  by pat_completeness auto
termination
proof (relation "measure (\<lambda>(day, end_day, increment). nat (\<lfloor>end_day - day\<rfloor> + 1))")
  fix day end_day :: rat and increment :: nat
  assume step: "day \<le> end_day \<and> increment > 0"
  then have "\<lfloor>end_day - (day + of_nat increment)\<rfloor> < \<lfloor>end_day - day\<rfloor>" by linarith
  moreover have "0 \<le> \<lfloor>end_day - day\<rfloor>" using step by simp
  ultimately show "((day + of_nat increment, end_day, increment), day, end_day, increment) \<in> measure (\<lambda>(day, end_day, increment). nat (\<lfloor>end_day - day\<rfloor> + 1))"
    by simp
qed simp

declare days_from.simps [simp del]

definition getDayOfWeekStep :: "schedule_library \<Rightarrow> string option \<Rightarrow> string option \<Rightarrow> nat \<Rightarrow> string option" where
  "getDayOfWeekStep lib first final increment =
     (let start = (case first of None \<Rightarrow> Fin 1 | Some s \<Rightarrow> getDayOfWeekNumber lib s);
          end_day = (case final of None \<Rightarrow> Fin 7 | Some s \<Rightarrow> getDayOfWeekNumber lib s)
      in case (start, end_day) of
           (Fin a, Fin b) \<Rightarrow>
             if a \<ge> 1 \<and> a \<le> b \<and> b \<le> 7 \<and> increment \<ge> 1
             then Some (join '','' (map (\<lambda>d. sl_text lib (Fin d)) (days_from a b increment))) else None
         | _ \<Rightarrow> None)"

definition is_word_char :: "char \<Rightarrow> bool" where
  "is_word_char c = (is_lower c \<or> is_upper c \<or> is_digit_char c \<or> c = CHR ''_'')"

text \<open>The groups of the regular expression of a step: the first and the last day, and the step.\<close>

definition match_step :: "string \<Rightarrow> (string option \<times> string option \<times> string) option" where
  "match_step item =
     (let base = takeWhile (\<lambda>c. c \<noteq> CHR ''/'') item; step = drop 1 (dropWhile (\<lambda>c. c \<noteq> CHR ''/'') item);
          first = takeWhile is_word_char base; rest = dropWhile is_word_char base
      in if step = [] \<or> \<not> list_all is_digit_char step then None
         else if base = ''*'' then Some (None, None, step)
         else if first = [] then None
         else if rest = [] then Some (Some first, None, step)
         else if List.take 1 rest = ''-'' \<and> drop 1 rest \<noteq> [] \<and> list_all is_word_char (drop 1 rest) then Some (Some first, Some (drop 1 rest), step)
         else None)"

text \<open>
  The replacement of the numbers of an item: a run of digits that does not follow \<open>#\<close> or another digit becomes the number
  before it. The flag tells whether the character before is one of these.
\<close>

definition int_text :: "int \<Rightarrow> string" where
  "int_text n = (if n < 0 then ''-'' @ digits_of (nat (- n)) else digits_of (nat n))"

function shift_days :: "bool \<Rightarrow> string \<Rightarrow> string" where
  "shift_days kept [] = []"
| "shift_days kept (c # cs) =
     (if is_digit_char c \<and> \<not> kept
      then int_text (int (dec_value (c # takeWhile is_digit_char cs)) - 1) @ shift_days True (dropWhile is_digit_char cs)
      else c # shift_days (c = CHR ''#'' \<or> is_digit_char c) cs)"
  by pat_completeness auto
termination by (relation "measure (\<lambda>(kept, s). length s)") (auto simp: length_dropWhile_le less_Suc_eq_le)

definition getDayOfWeekItem :: "schedule_library \<Rightarrow> string \<Rightarrow> string" where
  "getDayOfWeekItem lib item =
     (if item = ''L'' then ''6''
      else case match_step item of
             Some (first, final, step) \<Rightarrow> (case getDayOfWeekStep lib first final (dec_value step) of Some days \<Rightarrow> days | None \<Rightarrow> item)
           | None \<Rightarrow> shift_days False item)"

definition getDayOfWeekField :: "schedule_library \<Rightarrow> string \<Rightarrow> string" where
  "getDayOfWeekField lib field = join '','' (map (getDayOfWeekItem lib) (split_at (CHR '','') field))"

section \<open>Dates of a time zone\<close>

definition two_digits :: "nat \<Rightarrow> string" where
  "two_digits n = replicate (2 - length (digits_of n)) (CHR ''0'') @ digits_of n"

definition midnight :: "nat \<Rightarrow> nat \<Rightarrow> nat \<Rightarrow> string" where
  "midnight year month day = digits_of year @ ''-'' @ two_digits month @ ''-'' @ two_digits day @ ''T00:00:00''"

definition getZonedTime :: "schedule_library \<Rightarrow> nat \<Rightarrow> nat \<Rightarrow> nat \<Rightarrow> string \<Rightarrow> int option" where
  "getZonedTime lib year month day timezone = sl_zoned lib (midnight year month day) timezone"

definition getZonedDate :: "schedule_library \<Rightarrow> string \<Rightarrow> string \<Rightarrow> int option" where
  "getZonedDate lib date timezone = sl_zoned lib date timezone"

section \<open>Cron expressions\<close>

definition getNextCronCandidate :: "schedule_library \<Rightarrow> string \<Rightarrow> string \<Rightarrow> js_number \<Rightarrow> cron_date option" where
  "getNextCronCandidate lib value timezone fromTime = sl_next lib value timezone fromTime"

text \<open>Where the search goes on from, when a candidate is not on the nearest weekday.\<close>

definition skip_to_weekday :: "schedule_library \<Rightarrow> cron_schedule \<Rightarrow> cron_date \<Rightarrow> weekday_day \<Rightarrow> (int option) option" where
  "skip_to_weekday lib schedule candidate weekday =
     (let year = cd_year candidate; month = cd_month candidate; day = int (cd_day candidate); timezone = cs_timezone schedule
      in case getNearestWeekday year month weekday of
           None \<Rightarrow> Some (if month < 12 then getZonedTime lib year (month + 1) 1 timezone else getZonedTime lib (year + 1) 1 1 timezone)
         | Some weekdayDay \<Rightarrow>
             if day > weekdayDay
             then Some (if month < 12 then getZonedTime lib year (month + 1) 1 timezone else getZonedTime lib (year + 1) 1 1 timezone)
             else if day < weekdayDay then Some (getZonedTime lib year month (nat weekdayDay) timezone) else None)"

fun cron_search :: "schedule_library \<Rightarrow> cron_schedule \<Rightarrow> nat \<Rightarrow> js_number \<Rightarrow> schedule_error + js_date option" where
  "cron_search lib schedule 0 fromTime = Inr None"
| "cron_search lib schedule (Suc steps) fromTime =
     (case getNextCronCandidate lib (cs_value schedule) (cs_timezone schedule) fromTime of
        None \<Rightarrow> Inr None
      | Some candidate \<Rightarrow>
          (let year = cd_year candidate;
               continue_from = (\<lambda>time. case time of None \<Rightarrow> Inl InvalidZonedDate | Some t \<Rightarrow> cron_search lib schedule steps (Fin (of_int (t - 1))));
               found = Inr (getBoundedDate (Fin (of_int (cd_time candidate))) (cs_endTime schedule))
           in case find (\<lambda>allowedYear. allowedYear \<ge> year) (cs_years schedule) of
                None \<Rightarrow> Inr None
              | Some nextYear \<Rightarrow>
                  if nextYear > year then continue_from (getZonedTime lib nextYear 1 1 (cs_timezone schedule))
                  else (case cs_weekday schedule of
                          None \<Rightarrow> found
                        | Some weekday \<Rightarrow> (case skip_to_weekday lib schedule candidate weekday of Some time \<Rightarrow> continue_from time | None \<Rightarrow> found))))"

definition getNextCronDate :: "schedule_library \<Rightarrow> cron_schedule \<Rightarrow> js_date \<Rightarrow> schedule_error + js_date option" where
  "getNextCronDate lib schedule currentDate =
     cron_search lib schedule MAX_CRON_STEPS
       (case cs_startTime schedule of
          Some startTime \<Rightarrow> num_max (getTime currentDate) (num_add startTime (Fin (- 1)))
        | None \<Rightarrow> getTime currentDate)"

function words_of :: "string \<Rightarrow> string list" where
  "words_of s =
     (let s' = dropWhile is_space s
      in if s' = [] then [] else takeWhile (\<lambda>c. \<not> is_space c) s' # words_of (dropWhile (\<lambda>c. \<not> is_space c) s'))"
  by pat_completeness auto
termination
proof (relation "measure length")
  fix s s' :: string
  assume s': "s' = dropWhile is_space s" "s' \<noteq> []"
  then have "\<not> is_space (hd s')" using hd_dropWhile by blast
  with s'(2) have "length (dropWhile (\<lambda>c. \<not> is_space c) s') < length s'"
    by (cases s') (simp_all add: length_dropWhile_le less_Suc_eq_le)
  also have "\<dots> \<le> length s" unfolding s'(1) by (rule length_dropWhile_le)
  finally show "(dropWhile (\<lambda>c. \<not> is_space c) s', s) \<in> measure length" by simp
qed simp

declare words_of.simps [simp del]

text \<open>The six groups of the regular expression of a cron expression.\<close>

definition match_cron :: "string \<Rightarrow> string list option" where
  "match_cron input =
     (let body = drop 5 input; words = words_of body
      in if map lower_char (List.take 5 input) = ''cron('' \<and> length words = 6 \<and> \<not> is_space (hd body) \<and> last body = CHR '')'' \<and> length (last words) > 1
         then Some (butlast words @ [butlast (last words)]) else None)"

definition timezone_of :: "expression_options \<Rightarrow> string" where
  "timezone_of options = (case eo_timezone options of None \<Rightarrow> DEFAULT_TIMEZONE | Some timezone \<Rightarrow> timezone)"

text \<open>The nearest weekday is looked for among the candidates, so the library gets any day of the month.\<close>

definition cron_value :: "schedule_library \<Rightarrow> string \<Rightarrow> string \<Rightarrow> string \<Rightarrow> string \<Rightarrow> string \<Rightarrow> string" where
  "cron_value lib minutes hours dayOfMonth month dayOfWeek =
     join '' '' [minutes, hours, if parseWeekdayDay dayOfMonth \<noteq> None then ''*'' else dayOfMonth, month, getDayOfWeekField lib dayOfWeek]"

definition parseCronExpression :: "schedule_library \<Rightarrow> string \<Rightarrow> expression_options \<Rightarrow> schedule_error + expression_result option" where
  "parseCronExpression lib input options =
     (case match_cron input of
        Some [minutes, hours, dayOfMonth, month, dayOfWeek, year] \<Rightarrow>
          (let value = cron_value lib minutes hours dayOfMonth month dayOfWeek
           in case parseYears year of
                None \<Rightarrow> Inr None
              | Some years \<Rightarrow>
                  if \<not> sl_accepts lib value (timezone_of options) then Inr None
                  else case getOptionalTime lib (eo_startDate options) of
                         Inl e \<Rightarrow> Inl e
                       | Inr startTime \<Rightarrow>
                           (case getOptionalTime lib (eo_endDate options) of
                              Inl e \<Rightarrow> Inl e
                            | Inr endTime \<Rightarrow>
                                Inr (Some \<lparr>er_type = Cron, er_value = join '' '' [minutes, hours, dayOfMonth, month, dayOfWeek, year],
                                  er_getNextDate = getNextCronDate lib \<lparr>cs_value = value, cs_timezone = timezone_of options, cs_years = years,
                                    cs_weekday = parseWeekdayDay dayOfMonth, cs_startTime = startTime, cs_endTime = endTime\<rparr>\<rparr>)))
      | _ \<Rightarrow> Inr None)"

section \<open>Single dates\<close>

text \<open>The regular expression of a date, where \<open>d\<close> stands for a digit.\<close>

definition match_at :: "string \<Rightarrow> string option" where
  "match_at input =
     (if list_all2 (\<lambda>p c. if p = CHR ''d'' then is_digit_char c else lower_char p = lower_char c) ''at(dddd-dd-ddTdd:dd:dd)'' input
      then Some (butlast (drop 3 input)) else None)"

definition parseAtExpression :: "schedule_library \<Rightarrow> string \<Rightarrow> expression_options \<Rightarrow> expression_result option" where
  "parseAtExpression lib input options =
     (case match_at input of
        None \<Rightarrow> None
      | Some value \<Rightarrow>
          (case getZonedDate lib value (timezone_of options) of
             None \<Rightarrow> None
           | Some date \<Rightarrow> Some \<lparr>er_type = At, er_value = value, er_getNextDate = (\<lambda>currentDate. Inr (Some (Some date)))\<rparr>))"

definition parseExpression :: "schedule_library \<Rightarrow> string \<Rightarrow> expression_options \<Rightarrow> schedule_error + expression_result" where
  "parseExpression lib input options =
     (case parseRateExpression lib input options of
        Inl e \<Rightarrow> Inl e
      | Inr (Some expression) \<Rightarrow> Inr expression
      | Inr None \<Rightarrow>
          (case parseCronExpression lib input options of
             Inl e \<Rightarrow> Inl e
           | Inr (Some expression) \<Rightarrow> Inr expression
           | Inr None \<Rightarrow>
               (case parseAtExpression lib input options of
                  Some expression \<Rightarrow> Inr expression
                | None \<Rightarrow> Inl (UnsupportedExpression input))))"

end
