(* ===== verification/Schedule_Runs.thy ===== *)
theory Schedule_Runs
  imports Schedule_Expression
begin

text \<open>
  What the expressions of a scheduler mean: the weekday nearest to a day, the runs of a rate, and the search for the next
  run of a cron expression, which finds the first date its fields, its years and its weekday allow.
\<close>

section \<open>The calendar\<close>

lemma div_step:
  assumes "0 < n"
  shows "(a + 1) div n - a div n = (if n dvd a + 1 then 1 else 0 :: int)"
proof (cases "a mod n + 1 = n")
  case True
  then have "a + 1 = n * (a div n + 1)" using mult_div_mod_eq [of n a] by (simp only: distrib_left mult_1_right)
  then show ?thesis using assms by (metis add_diff_cancel_left' dvd_triv_left nonzero_mult_div_cancel_left order_less_irrefl)
next
  case False
  moreover have "0 \<le> a mod n" "a mod n < n" using assms by simp_all
  ultimately have small: "0 \<le> a mod n + 1" "a mod n + 1 < n" by linarith+
  have split: "a + 1 = n * (a div n) + (a mod n + 1)" using mult_div_mod_eq [of n a] by simp
  have "(a + 1) div n = a div n" by (rule int_div_pos_eq [OF split small])
  moreover have "\<not> n dvd a + 1"
  proof
    assume "n dvd a + 1"
    then have "n dvd a mod n + 1" unfolding split by (simp only: dvd_add_right_iff [OF dvd_triv_left])
    with small \<open>0 \<le> a mod n\<close> show False using zdvd_not_zless [of "a mod n + 1" n] by linarith
  qed
  ultimately show ?thesis by simp
qed

lemma leap_step: "0 < n \<Longrightarrow> n dvd c \<Longrightarrow> (y + 1 - (c + 1)) div n - (y - (c + 1)) div n = (if n dvd y then 1 else 0 :: int)"
  using div_step [of n "y - (c + 1)"] dvd_diff_left_iff [of n c y] by (simp add: algebra_simps)

lemma year_difference:
  fixes y c p p' q q' r r' :: int
  shows "365 * (y + 1 - c) + p' - q' + r' - (365 * (y - c) + p - q + r) = 365 + (p' - p) - (q' - q) + (r' - r)"
  by (simp add: algebra_simps)

lemma leap_count:
  "(c \<Longrightarrow> b) \<Longrightarrow> (b \<Longrightarrow> a) \<Longrightarrow>
    365 + (if a then 1 else 0) - (if b then 1 else 0) + (if c then 1 else 0) = 365 + (if a \<and> (\<not> b \<or> c) then 1 else 0 :: int)"
  by auto

lemma year_length: "day_of_year (y + 1) - day_of_year y = 365 + (if is_leap y then 1 else 0)"
proof -
  have sums: "(1968 :: int) + 1 = 1969" "(1900 :: int) + 1 = 1901" "(1600 :: int) + 1 = 1601" by simp_all
  have "(y + 1 - 1969) div 4 - (y - 1969) div 4 = (if 4 dvd y then 1 else 0)"
    by (rule leap_step [of 4 1968 y, unfolded sums]) simp_all
  moreover have "(y + 1 - 1901) div 100 - (y - 1901) div 100 = (if 100 dvd y then 1 else 0)"
    by (rule leap_step [of 100 1900 y, unfolded sums]) simp_all
  moreover have "(y + 1 - 1601) div 400 - (y - 1601) div 400 = (if 400 dvd y then 1 else 0)"
    by (rule leap_step [of 400 1600 y, unfolded sums]) simp_all
  moreover have "400 dvd y \<Longrightarrow> 100 dvd y" by (erule dvd_trans [rotated]) simp
  moreover have "100 dvd y \<Longrightarrow> 4 dvd y" by (erule dvd_trans [rotated]) simp
  ultimately show ?thesis unfolding day_of_year_def year_difference is_leap_def by (simp only: leap_count)
qed

lemma month_cases: "1 \<le> m \<Longrightarrow> m \<le> 12 \<Longrightarrow> m = 1 \<or> m = 2 \<or> m = 3 \<or> m = 4 \<or> m = 5 \<or> m = 6 \<or> m = 7 \<or> m = 8 \<or> m = 9 \<or> m = 10 \<or> m = 11 \<or> m = (12 :: nat)"
  by presburger

lemma last_day_value:
  assumes "1 \<le> m" and "m \<le> 12"
  shows "last_day y m = [31, if is_leap y then 29 else 28, 31, 30, 31, 30, 31, 31, 30, 31, 30, 31] ! (m - 1)"
  using month_cases [OF assms] year_length [of y]
  by (elim disjE) (simp_all add: last_day_def day_number_def days_before_def Let_def)

lemma last_day_bounds:
  assumes "1 \<le> m" and "m \<le> 12"
  shows "28 \<le> last_day y m" "last_day y m \<le> 31"
  using month_cases [OF assms] unfolding last_day_value [OF assms] by (elim disjE; simp)+

lemma day_of_week_plus: "day_of_week y m (d + k) = nat ((int (day_of_week y m d) + k) mod 7)"
  by (simp add: day_of_week_def day_number_def Let_def mod_simps algebra_simps)

lemma day_of_week_less: "day_of_week y m d < 7"
  by (simp add: day_of_week_def)

definition working_day :: "int \<Rightarrow> nat \<Rightarrow> int \<Rightarrow> bool" where
  "working_day y m d \<longleftrightarrow> 1 \<le> d \<and> d \<le> last_day y m \<and> day_of_week y m d \<in> {1..5}"

definition target_day :: "nat \<Rightarrow> nat \<Rightarrow> weekday_day \<Rightarrow> int" where
  "target_day year month weekday = (case weekday of LastWeekday \<Rightarrow> last_day (int year) month | NearDay n \<Rightarrow> int n)"

definition shifted_day :: "int \<Rightarrow> nat \<Rightarrow> int \<Rightarrow> int" where
  "shifted_day y m d =
     (case day_of_week y m d of
        0 \<Rightarrow> if d < last_day y m then d + 1 else d - 2
      | Suc w \<Rightarrow> if w = 5 then (if d > 1 then d - 1 else d + 2) else d)"

lemma getNearestWeekday_shifted:
  "getNearestWeekday year month weekday =
     (if target_day year month weekday > last_day (int year) month then None
      else Some (shifted_day (int year) month (target_day year month weekday)))"
  unfolding getNearestWeekday_def target_day_def shifted_day_def Let_def ..

lemma shifted_day_is_nearest:
  assumes "1 \<le> d" and "d \<le> last_day y m" and "28 \<le> last_day y m"
  shows "working_day y m (shifted_day y m d)"
    and "working_day y m other \<Longrightarrow> other \<noteq> shifted_day y m d \<Longrightarrow> \<bar>shifted_day y m d - d\<bar> < \<bar>other - d\<bar>"
proof -
  let ?w = "day_of_week y m d"
  have week: "day_of_week y m (d + k) = nat ((int ?w + k) mod 7)" for k by (rule day_of_week_plus)
  consider (sunday) "?w = 0" | (saturday) "?w = 6" | (working) "1 \<le> ?w" "?w \<le> 5" using day_of_week_less [of y m d] by linarith
  then have "working_day y m (shifted_day y m d) \<and>
      (working_day y m other \<and> other \<noteq> shifted_day y m d \<longrightarrow> \<bar>shifted_day y m d - d\<bar> < \<bar>other - d\<bar>)"
  proof cases
    case sunday
    have days: "day_of_week y m (d + 1) = 1" "day_of_week y m (d - 2) = 5" "day_of_week y m (d - 1) = 6"
      using week [of 1] week [of "- 2"] week [of "- 1"] sunday by simp_all
    have "\<bar>other - d\<bar> \<le> 1 \<Longrightarrow> other = d - 1 \<or> other = d \<or> other = d + 1" "\<bar>other - d\<bar> \<le> 2 \<Longrightarrow> other = d - 2 \<or> other = d - 1 \<or> other = d \<or> d < other"
      by linarith+
    then show ?thesis using assms days sunday unfolding working_day_def shifted_day_def by (cases "d < last_day y m") fastforce+
  next
    case saturday
    have days: "day_of_week y m (d - 1) = 5" "day_of_week y m (d + 2) = 1" "day_of_week y m (d + 1) = 0"
      using week [of "- 1"] week [of 2] week [of 1] saturday by simp_all
    have "\<bar>other - d\<bar> \<le> 1 \<Longrightarrow> other = d - 1 \<or> other = d \<or> other = d + 1" "\<bar>other - d\<bar> \<le> 2 \<Longrightarrow> other = d + 2 \<or> other = d + 1 \<or> other = d \<or> other < d"
      by linarith+
    moreover have "shifted_day y m d = (if d > 1 then d - 1 else d + 2)" using saturday by (simp add: shifted_day_def)
    ultimately show ?thesis using assms days saturday unfolding working_day_def by (cases "d > 1") fastforce+
  next
    case working
    then have "shifted_day y m d = d" by (simp add: shifted_day_def split: nat.split)
    then show ?thesis using assms working by (simp add: working_day_def)
  qed
  then show "working_day y m (shifted_day y m d)"
    and "working_day y m other \<Longrightarrow> other \<noteq> shifted_day y m d \<Longrightarrow> \<bar>shifted_day y m d - d\<bar> < \<bar>other - d\<bar>" by blast+
qed


section \<open>The runs of a rate\<close>

lemma next_rate_time:
  "0 < i \<Longrightarrow> getNextRateTime (Fin i) (Fin c) (Some (Fin s)) = Fin (if c < s then s else s + (of_int \<lfloor>(c - s) / i\<rfloor> + 1) * i)"
  by (simp add: getNextRateTime_def)

lemma next_rate_run:
  fixes i c s :: int
  assumes "0 < i"
  defines "k \<equiv> if c < s then 0 else nat ((c - s) div i) + 1"
  shows "getNextRateTime (Fin (of_int i)) (Fin (of_int c)) (Some (Fin (of_int s))) = Fin (of_int (s + int k * i))"
    and "c < s + int k * i" and "c < s + int j * i \<Longrightarrow> k \<le> j"
proof -
  let ?q = "(c - s) div i"
  have floor: "\<lfloor>(of_int c - of_int s) / (of_int i :: rat)\<rfloor> = ?q"
    using floor_divide_of_int_eq [of "c - s" i, where 'a = rat] by simp
  have k: "\<not> c < s \<Longrightarrow> int k = ?q + 1" using assms(1) by (simp add: k_def pos_imp_zdiv_nonneg_iff)
  show "getNextRateTime (Fin (of_int i)) (Fin (of_int c)) (Some (Fin (of_int s))) = Fin (of_int (s + int k * i))"
  proof (cases "c < s")
    case False
    then have "(of_int (int k) :: rat) = of_int ?q + 1" by (simp only: k [OF False] of_int_add of_int_1)
    with False show ?thesis using assms(1) by (simp add: next_rate_time floor)
  qed (use assms(1) in \<open>simp add: next_rate_time k_def\<close>)
  have rest: "c - s = i * ?q + (c - s) mod i" "(c - s) mod i < i" "0 \<le> (c - s) mod i" using assms(1) by simp_all
  have "c - s < i * ?q + i" using rest by linarith
  then have "c < s + (?q + 1) * i" by (simp add: algebra_simps)
  then show "c < s + int k * i"
  proof (cases "c < s")
    case False
    from \<open>c < s + (?q + 1) * i\<close> show ?thesis unfolding k [OF False] .
  qed (simp add: k_def)
  show "k \<le> j" if "c < s + int j * i"
  proof (cases "c < s")
    case False
    have "c - s < i * int j" using that by (simp add: algebra_simps)
    then have "i * ?q < i * int j" using rest by linarith
    then have "?q < int j" using assms(1) by (simp only: mult_less_cancel_left_pos)
    then show ?thesis using k [OF False] by linarith
  qed (simp add: k_def)
qed


section \<open>Years\<close>

lemma years_from_set: "0 < n \<Longrightarrow> set (years_from a b n) = {y. a \<le> y \<and> y \<le> b \<and> n dvd y - a}"
proof (induction a b n rule: years_from.induct)
  case (1 a b n)
  show ?case
  proof (cases "a \<le> b")
    case True
    then have "set (years_from a b n) = insert a {y. a + n \<le> y \<and> y \<le> b \<and> n dvd y - (a + n)}"
      using 1 by (subst years_from.simps) simp
    moreover have "a + n \<le> y \<and> n dvd y - (a + n) \<longleftrightarrow> a < y \<and> n dvd y - a" for y
    proof
      assume y: "a < y \<and> n dvd y - a"
      then have "n \<le> y - a" by (simp add: dvd_imp_le)
      then have "y - (a + n) = y - a - n" "a + n \<le> y" using y by linarith+
      then show "a + n \<le> y \<and> n dvd y - (a + n)" using y by (metis dvd_diff_nat dvd_refl)
    next
      assume y: "a + n \<le> y \<and> n dvd y - (a + n)"
      then have "y - a = (y - (a + n)) + n" by linarith
      then have "n dvd y - a" using y by (metis dvd_add dvd_refl)
      then show "a < y \<and> n dvd y - a" using y 1(2) by linarith
    qed
    ultimately show ?thesis using True by (auto simp: le_less)
  qed (subst years_from.simps, auto)
qed

definition year_written :: "string \<Rightarrow> nat \<Rightarrow> bool" where
  "year_written field y \<longleftrightarrow> (\<exists>item \<in> set (split_at (CHR '','') field). \<exists>ys. item_years item = Some ys \<and> y \<in> set ys)"

lemma item_years_bounds: "item_years item = Some ys \<Longrightarrow> y \<in> set ys \<Longrightarrow> MIN_YEAR \<le> y \<and> y \<le> MAX_YEAR"
  by (auto simp: item_years_def Let_def years_from_set split: option.splits if_splits prod.splits)

lemma parseYears_years:
  assumes "parseYears field = Some years"
  shows "sorted years" "distinct years" "set years = Collect (year_written field)" "set years \<subseteq> {MIN_YEAR..MAX_YEAR}"
proof -
  have years: "years = sort (remdups (concat (map the (map item_years (split_at (CHR '','') field)))))"
    and known: "None \<notin> set (map item_years (split_at (CHR '','') field))"
    using assms by (simp_all add: parseYears_def Let_def split: if_splits)
  show "sorted years" "distinct years" unfolding years by simp_all
  show members: "set years = Collect (year_written field)" using known unfolding years year_written_def by force
  show "set years \<subseteq> {MIN_YEAR..MAX_YEAR}" using item_years_bounds unfolding members year_written_def by fastforce
qed

section \<open>The search for the next run\<close>

type_synonym calendar_date = "nat \<times> nat \<times> nat"

fun date_le :: "calendar_date \<Rightarrow> calendar_date \<Rightarrow> bool" where
  "date_le (y, m, d) (y', m', d') = (y < y' \<or> y = y' \<and> (m < m' \<or> m = m' \<and> d \<le> d'))"

definition is_date :: "calendar_date \<Rightarrow> bool" where
  "is_date = (\<lambda>(y, m, d). MIN_YEAR \<le> y \<and> 1 \<le> m \<and> m \<le> 12 \<and> 1 \<le> d \<and> int d \<le> last_day (int y) m)"

text \<open>
  What the cron library does for one expression in one time zone: it gives the first time after another at which the
  expression fires, with its date, and the time a day begins; no day comes twice.
\<close>

definition library_ok :: "schedule_library \<Rightarrow> string \<Rightarrow> string \<Rightarrow> (int \<Rightarrow> bool) \<Rightarrow> (int \<Rightarrow> calendar_date) \<Rightarrow> bool" where
  "library_ok lib value timezone fires date_of \<longleftrightarrow>
     (\<forall>from c. sl_next lib value timezone (Fin (of_int from)) = Some c \<longleftrightarrow>
        fires (cd_time c) \<and> from < cd_time c \<and> (\<forall>u. fires u \<and> from < u \<longrightarrow> cd_time c \<le> u) \<and>
        (cd_year c, cd_month c, cd_day c) = date_of (cd_time c)) \<and>
     (\<forall>t. case date_of t of (y, m, d) \<Rightarrow> 1 \<le> m \<and> m \<le> 12 \<and> 1 \<le> d \<and> int d \<le> last_day (int y) m) \<and>
     (\<forall>y m d. is_date (y, m, d) \<longrightarrow>
        (\<exists>t. sl_zoned lib (midnight y m d) timezone = Some t \<and> (\<forall>u. t \<le> u \<longleftrightarrow> date_le (y, m, d) (date_of u))))"

lemma library_next:
  assumes "library_ok lib value timezone fires date_of" and "getNextCronCandidate lib value timezone (Fin (of_int from)) = Some c"
  shows "fires (cd_time c)" "from < cd_time c" "fires u \<Longrightarrow> from < u \<Longrightarrow> cd_time c \<le> u" "date_of (cd_time c) = (cd_year c, cd_month c, cd_day c)"
  using assms unfolding library_ok_def getNextCronCandidate_def by simp_all

lemma library_none:
  assumes "library_ok lib value timezone fires date_of" and "getNextCronCandidate lib value timezone (Fin (of_int from)) = None"
  shows "\<not> (fires u \<and> from < u)"
proof
  assume u: "fires u \<and> from < u"
  define k where "k = (LEAST k. fires (from + 1 + int k))"
  have at: "from + 1 + int (nat (u - from - 1)) = u" using u by simp
  have fires: "fires (from + 1 + int k)" unfolding k_def by (rule LeastI [of _ "nat (u - from - 1)"]) (use at u in simp)
  have least: "from + 1 + int k \<le> v" if "fires v" "from < v" for v
    using Least_le [of "\<lambda>k. fires (from + 1 + int k)" "nat (v - from - 1)"] that unfolding k_def by simp
  obtain y m d where date: "date_of (from + 1 + int k) = (y, m, d)" by (rule prod_cases3)
  have "sl_next lib value timezone (Fin (of_int from)) = Some \<lparr>cd_time = from + 1 + int k, cd_year = y, cd_month = m, cd_day = d\<rparr>"
    using assms(1) fires least date unfolding library_ok_def by simp
  with assms(2) show False by (simp add: getNextCronCandidate_def)
qed

lemma library_day:
  assumes "library_ok lib value timezone fires date_of" and "is_date (y, m, d)"
  obtains t where "getZonedTime lib y m d timezone = Some t" "\<And>u. t \<le> u \<longleftrightarrow> date_le (y, m, d) (date_of u)"
  using assms unfolding library_ok_def getZonedTime_def by blast

text \<open>The times at which a schedule runs, and the first of them after a time.\<close>

definition runs_at :: "cron_schedule \<Rightarrow> (int \<Rightarrow> bool) \<Rightarrow> (int \<Rightarrow> calendar_date) \<Rightarrow> int \<Rightarrow> bool" where
  "runs_at schedule fires date_of t \<longleftrightarrow> fires t \<and>
     (case date_of t of (y, m, d) \<Rightarrow> y \<in> set (cs_years schedule) \<and>
       (\<forall>weekday. cs_weekday schedule = Some weekday \<longrightarrow> getNearestWeekday y m weekday = Some (int d)))"

definition first_run :: "cron_schedule \<Rightarrow> (int \<Rightarrow> bool) \<Rightarrow> (int \<Rightarrow> calendar_date) \<Rightarrow> int \<Rightarrow> int \<Rightarrow> bool" where
  "first_run schedule fires date_of from t \<longleftrightarrow> runs_at schedule fires date_of t \<and> from < t \<and>
     (\<forall>u. runs_at schedule fires date_of u \<and> from < u \<longrightarrow> t \<le> u)"

text \<open>A search that goes on from a later time finds the same run, when no run was in between.\<close>

lemma first_run_later:
  assumes "first_run schedule fires date_of later t" and "from \<le> later" and "\<And>u. runs_at schedule fires date_of u \<Longrightarrow> from < u \<Longrightarrow> later < u"
  shows "first_run schedule fires date_of from t"
  using assms unfolding first_run_def by (meson order_le_less_trans)

definition good_years :: "nat list \<Rightarrow> bool" where
  "good_years years \<longleftrightarrow> sorted years \<and> distinct years \<and> set years \<subseteq> {MIN_YEAR..MAX_YEAR}"

lemma find_year:
  fixes year :: nat
  assumes "sorted years" and "find (\<lambda>y. y \<ge> year) years = Some nextYear"
  shows "nextYear \<in> set years" "year \<le> nextYear" "y \<in> set years \<Longrightarrow> year \<le> y \<Longrightarrow> nextYear \<le> y"
  using assms by (induction years) (auto split: if_splits)

lemma find_year_none: "find (\<lambda>y. y \<ge> (year :: nat)) years = None \<Longrightarrow> y \<in> set years \<Longrightarrow> y < year"
  by (auto simp: find_None_iff not_le)

lemma library_date:
  assumes "library_ok lib value timezone fires date_of" and "date_of t = (y, m, d)"
  shows "1 \<le> m" "m \<le> 12" "1 \<le> d" "int d \<le> last_day (int y) m"
proof -
  have "\<forall>t. case date_of t of (y, m, d) \<Rightarrow> 1 \<le> m \<and> m \<le> 12 \<and> 1 \<le> d \<and> int d \<le> last_day (int y) m"
    using assms(1) unfolding library_ok_def by (rule conjunct1 [OF conjunct2])
  then have "case date_of t of (y, m, d) \<Rightarrow> 1 \<le> m \<and> m \<le> 12 \<and> 1 \<le> d \<and> int d \<le> last_day (int y) m" ..
  then show "1 \<le> m" "m \<le> 12" "1 \<le> d" "int d \<le> last_day (int y) m" unfolding assms(2) by simp_all
qed

lemma date_le_refl: "date_le x x"
  by (cases x) auto

lemma dates_go_on:
  assumes "library_ok lib value timezone fires date_of" and "date_of t = (y, m, d)" and "MIN_YEAR \<le> y" and "t \<le> u"
  shows "date_le (y, m, d) (date_of u)"
proof -
  have "is_date (y, m, d)" using library_date [OF assms(1,2)] assms(3) by (simp add: is_date_def)
  from library_day [OF assms(1) this] obtain s where "\<And>u. s \<le> u \<longleftrightarrow> date_le (y, m, d) (date_of u)" by blast
  with date_le_refl [of "(y, m, d)"] assms(2,4) show ?thesis by (metis order_trans)
qed

lemma first_is_date:
  assumes "MIN_YEAR \<le> y" and "1 \<le> m" and "m \<le> 12"
  shows "is_date (y, m, 1)"
  using assms last_day_bounds(1) [OF assms(2,3), of "int y"] by (simp add: is_date_def)

text \<open>The search skips from a candidate to the start of a day, when every run after the candidate is on that day or later.\<close>

lemma skip_keeps_runs:
  assumes "library_ok lib (cs_value schedule) (cs_timezone schedule) fires date_of" and "is_date (y, m, d)"
    and "getNextCronCandidate lib (cs_value schedule) (cs_timezone schedule) (Fin (of_int from)) = Some c"
    and "\<not> date_le (y, m, d) (date_of (cd_time c))"
    and "\<And>u. runs_at schedule fires date_of u \<Longrightarrow> cd_time c \<le> u \<Longrightarrow> date_le (y, m, d) (date_of u)"
  obtains t where "getZonedTime lib y m d (cs_timezone schedule) = Some t" and "from + 1 < t" and "date_le (y, m, d) (date_of t)"
    and "\<And>u. t \<le> u \<longleftrightarrow> date_le (y, m, d) (date_of u)"
    and "\<And>r. first_run schedule fires date_of (t - 1) r \<Longrightarrow> first_run schedule fires date_of from r"
    and "\<And>u. runs_at schedule fires date_of u \<Longrightarrow> from < u \<Longrightarrow> t - 1 < u"
proof -
  obtain t where t: "getZonedTime lib y m d (cs_timezone schedule) = Some t" "\<And>u. t \<le> u \<longleftrightarrow> date_le (y, m, d) (date_of u)"
    using library_day [OF assms(1,2)] by blast
  note candidate = library_next [OF assms(1,3)]
  have c: "cd_time c < t" using t(2) [of "cd_time c"] assms(4) by linarith
  have later: "t - 1 < u" if u: "runs_at schedule fires date_of u" "from < u" for u
  proof -
    have "fires u" using u(1) by (simp add: runs_at_def)
    then have "cd_time c \<le> u" by (rule candidate(3)) (rule u(2))
    from assms(5) [OF u(1) this] show ?thesis using t(2) [of u] by linarith
  qed
  show thesis
  proof (rule that [OF t(1) _ _ t(2)])
    show "from + 1 < t" using candidate(2) c by linarith
    show "date_le (y, m, d) (date_of t)" using t(2) [of t] by simp
    show "first_run schedule fires date_of from r" if "first_run schedule fires date_of (t - 1) r" for r
      by (rule first_run_later [OF that _ later]) (use candidate(2) c in linarith)
  qed (rule later)
qed

lemma years_ahead_of_candidate:
  assumes "library_ok lib (cs_value schedule) (cs_timezone schedule) fires date_of" and "good_years (cs_years schedule)"
    and "date_of t = (y, m, d)" and "runs_at schedule fires date_of u" and "t \<le> u"
  shows "fst (date_of u) \<in> set (cs_years schedule)" "y \<le> fst (date_of u)"
proof -
  obtain y' m' d' where u: "date_of u = (y', m', d')" by (rule prod_cases3)
  show member: "fst (date_of u) \<in> set (cs_years schedule)" using assms(4) u by (simp add: runs_at_def)
  show "y \<le> fst (date_of u)"
  proof (cases "MIN_YEAR \<le> y")
    case True
    from dates_go_on [OF assms(1,3) this assms(5)] show ?thesis unfolding u by auto
  next
    case False
    have "MIN_YEAR \<le> y'" using member assms(2) u unfolding good_years_def by auto
    with False u show ?thesis by simp
  qed
qed

lemma year_skip:
  assumes "library_ok lib (cs_value schedule) (cs_timezone schedule) fires date_of" and "good_years (cs_years schedule)"
    and "getNextCronCandidate lib (cs_value schedule) (cs_timezone schedule) (Fin (of_int from)) = Some c"
    and "find (\<lambda>allowedYear. allowedYear \<ge> cd_year c) (cs_years schedule) = Some nextYear" and "cd_year c < nextYear"
  shows "is_date (nextYear, 1, 1)" and "\<not> date_le (nextYear, 1, 1) (date_of (cd_time c))"
    and "runs_at schedule fires date_of u \<Longrightarrow> cd_time c \<le> u \<Longrightarrow> date_le (nextYear, 1, 1) (date_of u)"
proof -
  have sorted: "sorted (cs_years schedule)" and years: "set (cs_years schedule) \<subseteq> {MIN_YEAR..MAX_YEAR}"
    using assms(2) unfolding good_years_def by blast+
  note found = find_year [OF sorted assms(4)]
  note date = library_next(4) [OF assms(1,3)]
  show "is_date (nextYear, 1, 1)" using found(1) years by (intro first_is_date) auto
  show "\<not> date_le (nextYear, 1, 1) (date_of (cd_time c))" unfolding date using assms(5) by simp
  assume u: "runs_at schedule fires date_of u" "cd_time c \<le> u"
  obtain y m d where date_u: "date_of u = (y, m, d)" by (rule prod_cases3)
  have "nextYear \<le> y" using years_ahead_of_candidate [OF assms(1,2) date u] found(3) unfolding date_u by simp
  then show "date_le (nextYear, 1, 1) (date_of u)" using library_date [OF assms(1) date_u] unfolding date_u by auto
qed

definition good_weekday :: "weekday_day \<Rightarrow> bool" where
  "good_weekday weekday \<longleftrightarrow> weekday \<noteq> NearDay 0"

lemma nearest_day:
  assumes "getNearestWeekday y m weekday = Some day" and "good_weekday weekday" and "1 \<le> m" and "m \<le> 12"
  shows "1 \<le> day" "day \<le> last_day (int y) m"
proof -
  have "1 \<le> target_day y m weekday"
    using assms(2) last_day_bounds(1) [OF assms(3,4), of "int y"] by (auto simp: target_day_def good_weekday_def split: weekday_day.split)
  then have "working_day (int y) m day"
    using shifted_day_is_nearest(1) last_day_bounds(1) [OF assms(3,4)] assms(1) by (auto simp: getNearestWeekday_shifted split: if_splits)
  then show "1 \<le> day" "day \<le> last_day (int y) m" by (simp_all add: working_day_def)
qed

text \<open>The day a weekday skips to: the first of the next month, or the nearest weekday of this one.\<close>

definition skip_date :: "cron_date \<Rightarrow> weekday_day \<Rightarrow> calendar_date" where
  "skip_date c weekday =
     (let next_month = (if cd_month c < 12 then (cd_year c, cd_month c + 1, 1) else (cd_year c + 1, 1, 1))
      in case getNearestWeekday (cd_year c) (cd_month c) weekday of
           None \<Rightarrow> next_month | Some day \<Rightarrow> if int (cd_day c) > day then next_month else (cd_year c, cd_month c, nat day))"

lemma skip_to_weekday_date:
  "skip_to_weekday lib schedule c weekday = Some time \<Longrightarrow>
    time = (case skip_date c weekday of (y, m, d) \<Rightarrow> getZonedTime lib y m d (cs_timezone schedule)) \<and>
    getNearestWeekday (cd_year c) (cd_month c) weekday \<noteq> Some (int (cd_day c))"
  "skip_to_weekday lib schedule c weekday = None \<Longrightarrow> getNearestWeekday (cd_year c) (cd_month c) weekday = Some (int (cd_day c))"
  by (auto simp: skip_to_weekday_def skip_date_def Let_def split: option.splits if_splits)

lemma weekday_skip:
  assumes "library_ok lib (cs_value schedule) (cs_timezone schedule) fires date_of"
    and "getNextCronCandidate lib (cs_value schedule) (cs_timezone schedule) (Fin (of_int from)) = Some c"
    and "cs_weekday schedule = Some weekday" and "good_weekday weekday" and "MIN_YEAR \<le> cd_year c"
    and "getNearestWeekday (cd_year c) (cd_month c) weekday \<noteq> Some (int (cd_day c))"
  shows "is_date (skip_date c weekday)" and "\<not> date_le (skip_date c weekday) (date_of (cd_time c))"
    and "runs_at schedule fires date_of u \<Longrightarrow> cd_time c \<le> u \<Longrightarrow> date_le (skip_date c weekday) (date_of u)"
proof -
  let ?y = "cd_year c" and ?m = "cd_month c" and ?d = "cd_day c"
  note date = library_next(4) [OF assms(1,2)]
  note month = library_date [OF assms(1) date]
  have near: "1 \<le> day" "day \<le> last_day (int ?y) ?m" if "getNearestWeekday ?y ?m weekday = Some day" for day
    using nearest_day [OF that assms(4) month(1,2)] .
  have next_month: "is_date (if ?m < 12 then (?y, ?m + 1, 1) else (?y + 1, 1, 1))"
    using first_is_date assms(5) month(1,2) by simp
  show "is_date (skip_date c weekday)"
    using next_month near month(1,2) assms(5) unfolding skip_date_def Let_def
    by (auto split: option.splits simp: is_date_def)
  show "\<not> date_le (skip_date c weekday) (date_of (cd_time c))"
    using assms(6) near unfolding date skip_date_def Let_def by (auto split: option.splits)
  assume u: "runs_at schedule fires date_of u" "cd_time c \<le> u"
  obtain y m d where date_u: "date_of u = (y, m, d)" by (rule prod_cases3)
  have after: "date_le (?y, ?m, ?d) (y, m, d)" using dates_go_on [OF assms(1) date assms(5) u(2)] unfolding date_u .
  have same: "getNearestWeekday y m weekday = Some (int d)" using u(1) assms(3) unfolding runs_at_def date_u by simp
  show "date_le (skip_date c weekday) (date_of u)"
  proof (cases "y = ?y \<and> m = ?m")
    case True
    then show ?thesis using after same unfolding date_u skip_date_def Let_def by auto
  next
    case False
    with after have later: "?y < y \<or> ?y = y \<and> ?m < m" by auto
    then show ?thesis using library_date [OF assms(1) date_u] month unfolding date_u skip_date_def Let_def
      by (auto split: option.split)
  qed
qed

text \<open>The years that begin after a time. A search that skips to a year leaves fewer of them.\<close>

definition years_after :: "cron_schedule \<Rightarrow> (int \<Rightarrow> calendar_date) \<Rightarrow> int \<Rightarrow> nat set" where
  "years_after schedule date_of t = {y \<in> set (cs_years schedule). \<not> date_le (y, 1, 1) (date_of t)}"

lemma years_after_skip:
  assumes "library_ok lib (cs_value schedule) (cs_timezone schedule) fires date_of" and "good_years (cs_years schedule)"
    and "y \<in> set (cs_years schedule)" and "\<And>u. t \<le> u \<longleftrightarrow> date_le (y, 1, 1) (date_of u)" and "s < t"
  shows "card (years_after schedule date_of t) < card (years_after schedule date_of s)"
proof (rule psubset_card_mono)
  show "finite (years_after schedule date_of s)" by (simp add: years_after_def)
  have "y' \<in> years_after schedule date_of s" if y': "y' \<in> years_after schedule date_of t" for y'
  proof -
    have "is_date (y', 1, 1)" using y' assms(2) by (intro first_is_date) (auto simp: years_after_def good_years_def)
    from library_day [OF assms(1) this] obtain t' where t': "\<And>u. t' \<le> u \<longleftrightarrow> date_le (y', 1, 1) (date_of u)" by blast
    show ?thesis using t' [of s] t' [of t] y' assms(5) unfolding years_after_def by auto
  qed
  moreover have "y \<in> years_after schedule date_of s" "y \<notin> years_after schedule date_of t"
    using assms(3) assms(4) [of s] assms(4) [of t] \<open>s < t\<close> unfolding years_after_def by simp_all
  ultimately show "years_after schedule date_of t \<subset> years_after schedule date_of s" by blast
qed

text \<open>
  What a search of so many steps answers: the first run, that there is none, or that it gave up, which takes more skips than
  there are years unless the schedule asks for a weekday.
\<close>

definition search_answer :: "cron_schedule \<Rightarrow> (int \<Rightarrow> bool) \<Rightarrow> (int \<Rightarrow> calendar_date) \<Rightarrow> nat \<Rightarrow> int \<Rightarrow> schedule_error + js_date option \<Rightarrow> bool" where
  "search_answer schedule fires date_of steps from answer \<longleftrightarrow>
     (\<exists>t. first_run schedule fires date_of from t \<and> answer = Inr (getBoundedDate (Fin (of_int t)) (cs_endTime schedule))) \<or>
     answer = Inr None \<and> ((\<forall>u. runs_at schedule fires date_of u \<longrightarrow> u \<le> from) \<or>
       cs_weekday schedule \<noteq> None \<or> steps \<le> card (years_after schedule date_of (from + 1)))"

lemma search_answer_later:
  assumes "search_answer schedule fires date_of steps (t - 1) answer"
    and "\<And>r. first_run schedule fires date_of (t - 1) r \<Longrightarrow> first_run schedule fires date_of from r"
    and "\<And>u. runs_at schedule fires date_of u \<Longrightarrow> from < u \<Longrightarrow> t - 1 < u"
    and "cs_weekday schedule \<noteq> None \<or> card (years_after schedule date_of t) < card (years_after schedule date_of (from + 1))"
  shows "search_answer schedule fires date_of (Suc steps) from answer"
proof -
  have "(\<forall>u. runs_at schedule fires date_of u \<longrightarrow> u \<le> t - 1) \<Longrightarrow> \<forall>u. runs_at schedule fires date_of u \<longrightarrow> u \<le> from"
    using assms(3) by (meson not_le)
  then show ?thesis using assms(1,2,4) unfolding search_answer_def by auto
qed

lemma candidate_year:
  assumes "good_years (cs_years schedule)" and "find (\<lambda>allowedYear. allowedYear \<ge> year) (cs_years schedule) = Some nextYear"
  shows "nextYear \<in> set (cs_years schedule)" "MIN_YEAR \<le> nextYear" "year \<le> nextYear"
proof -
  have sorted: "sorted (cs_years schedule)" using assms(1) by (simp add: good_years_def)
  show member: "nextYear \<in> set (cs_years schedule)" by (rule find_year(1) [OF sorted assms(2)])
  show "year \<le> nextYear" by (rule find_year(2) [OF sorted assms(2)])
  show "MIN_YEAR \<le> nextYear" using member assms(1) unfolding good_years_def by auto
qed

lemma answer_no_year:
  assumes "library_ok lib (cs_value schedule) (cs_timezone schedule) fires date_of" and "good_years (cs_years schedule)"
    and "getNextCronCandidate lib (cs_value schedule) (cs_timezone schedule) (Fin (of_int since)) = Some c"
    and "find (\<lambda>allowedYear. allowedYear \<ge> cd_year c) (cs_years schedule) = None"
  shows "search_answer schedule fires date_of steps since (Inr None)"
proof -
  have "u \<le> since" if "runs_at schedule fires date_of u" for u
  proof (rule ccontr)
    assume "\<not> u \<le> since"
    then have "cd_time c \<le> u" using library_next(3) [OF assms(1,3)] that by (simp add: runs_at_def)
    from years_ahead_of_candidate [OF assms(1,2) library_next(4) [OF assms(1,3)] that this]
    show False using find_year_none [OF assms(4)] by fastforce
  qed
  then show ?thesis by (simp add: search_answer_def)
qed

lemma answer_after_year:
  assumes "library_ok lib (cs_value schedule) (cs_timezone schedule) fires date_of" and "good_years (cs_years schedule)"
    and "getNextCronCandidate lib (cs_value schedule) (cs_timezone schedule) (Fin (of_int since)) = Some c"
    and "find (\<lambda>allowedYear. allowedYear \<ge> cd_year c) (cs_years schedule) = Some nextYear" and "cd_year c < nextYear"
  obtains t where "getZonedTime lib nextYear 1 1 (cs_timezone schedule) = Some t"
    and "\<And>answer. search_answer schedule fires date_of steps (t - 1) answer \<Longrightarrow> search_answer schedule fires date_of (Suc steps) since answer"
proof -
  note skip = year_skip [OF assms]
  show thesis
  proof (rule skip_keeps_runs [OF assms(1) skip(1) assms(3) skip(2,3)])
    fix t
    assume t: "getZonedTime lib nextYear 1 1 (cs_timezone schedule) = Some t" "since + 1 < t"
        "\<And>u. t \<le> u \<longleftrightarrow> date_le (nextYear, 1, 1) (date_of u)"
      and keeps: "\<And>r. first_run schedule fires date_of (t - 1) r \<Longrightarrow> first_run schedule fires date_of since r"
        "\<And>u. runs_at schedule fires date_of u \<Longrightarrow> since < u \<Longrightarrow> t - 1 < u"
    have "card (years_after schedule date_of t) < card (years_after schedule date_of (since + 1))"
      by (rule years_after_skip [OF assms(1,2) candidate_year(1) [OF assms(2,4)] t(3,2)])
    then show thesis by (intro that [OF t(1)] search_answer_later [OF _ keeps]) auto
  qed auto
qed

lemma answer_after_weekday:
  assumes "library_ok lib (cs_value schedule) (cs_timezone schedule) fires date_of"
    and "getNextCronCandidate lib (cs_value schedule) (cs_timezone schedule) (Fin (of_int since)) = Some c"
    and "cs_weekday schedule = Some weekday" and "good_weekday weekday" and "MIN_YEAR \<le> cd_year c"
    and "skip_to_weekday lib schedule c weekday = Some time"
  obtains t where "time = Some t"
    and "\<And>answer. search_answer schedule fires date_of steps (t - 1) answer \<Longrightarrow> search_answer schedule fires date_of (Suc steps) since answer"
proof -
  obtain y m d where target: "skip_date c weekday = (y, m, d)" by (rule prod_cases3)
  have time: "time = getZonedTime lib y m d (cs_timezone schedule)" and away: "getNearestWeekday (cd_year c) (cd_month c) weekday \<noteq> Some (int (cd_day c))"
    using skip_to_weekday_date(1) [OF assms(6)] by (simp_all add: target)
  note skip = weekday_skip [OF assms(1-5) away, unfolded target]
  show thesis
  proof (rule skip_keeps_runs [OF assms(1) skip(1) assms(2) skip(2,3)])
    fix t
    assume t: "getZonedTime lib y m d (cs_timezone schedule) = Some t"
      and keeps: "\<And>r. first_run schedule fires date_of (t - 1) r \<Longrightarrow> first_run schedule fires date_of since r"
        "\<And>u. runs_at schedule fires date_of u \<Longrightarrow> since < u \<Longrightarrow> t - 1 < u"
    show thesis by (intro that [of t] search_answer_later [OF _ keeps]) (auto simp: time t assms(3))
  qed auto
qed

lemma answer_found:
  assumes "library_ok lib (cs_value schedule) (cs_timezone schedule) fires date_of"
    and "getNextCronCandidate lib (cs_value schedule) (cs_timezone schedule) (Fin (of_int since)) = Some c"
    and "cd_year c \<in> set (cs_years schedule)"
    and "\<And>weekday. cs_weekday schedule = Some weekday \<Longrightarrow> skip_to_weekday lib schedule c weekday = None"
  shows "search_answer schedule fires date_of steps since (Inr (getBoundedDate (Fin (of_int (cd_time c))) (cs_endTime schedule)))"
proof -
  note candidate = library_next [OF assms(1,2)]
  have "runs_at schedule fires date_of (cd_time c)"
    using candidate(1) assms(3) skip_to_weekday_date(2) [OF assms(4)] by (simp add: runs_at_def candidate(4))
  then have "first_run schedule fires date_of since (cd_time c)" using candidate(2,3) by (simp add: first_run_def runs_at_def)
  then show ?thesis unfolding search_answer_def by blast
qed

lemma cron_search_answers:
  assumes "library_ok lib (cs_value schedule) (cs_timezone schedule) fires date_of" and "good_years (cs_years schedule)"
    and "\<forall>weekday. cs_weekday schedule = Some weekday \<longrightarrow> good_weekday weekday"
  shows "search_answer schedule fires date_of steps since (cron_search lib schedule steps (Fin (of_int since)))"
proof (induction steps arbitrary: since)
  case 0
  then show ?case by (simp add: search_answer_def)
next
  case (Suc steps)
  show ?case
  proof (cases "getNextCronCandidate lib (cs_value schedule) (cs_timezone schedule) (Fin (of_int since))")
    case None
    have "\<forall>u. runs_at schedule fires date_of u \<longrightarrow> u \<le> since"
      using library_none [OF assms(1) None] unfolding runs_at_def by (metis not_le)
    with None show ?thesis by (simp add: search_answer_def)
  next
    case (Some c)
    show ?thesis
    proof (cases "find (\<lambda>allowedYear. allowedYear \<ge> cd_year c) (cs_years schedule)")
      case None
      with answer_no_year [OF assms(1,2) Some None] Some show ?thesis by simp
    next
      case found: (Some nextYear)
      note year = candidate_year [OF assms(2) found]
      consider (skip_year) "cd_year c < nextYear"
        | (skip_day) weekday time where "nextYear = cd_year c" "cs_weekday schedule = Some weekday" "skip_to_weekday lib schedule c weekday = Some time"
        | (run) "nextYear = cd_year c" "\<And>weekday. cs_weekday schedule = Some weekday \<Longrightarrow> skip_to_weekday lib schedule c weekday = None"
        using year(3) by (metis le_neq_implies_less not_Some_eq)
      then show ?thesis
      proof cases
        case skip_year
        obtain t where t: "getZonedTime lib nextYear 1 1 (cs_timezone schedule) = Some t"
            "\<And>answer. search_answer schedule fires date_of steps (t - 1) answer \<Longrightarrow> search_answer schedule fires date_of (Suc steps) since answer"
          by (rule answer_after_year [OF assms(1,2) Some found skip_year, where steps = steps]) blast
        show ?thesis using t(2) [OF Suc] Some found skip_year t(1) by simp
      next
        case (skip_day weekday time)
        have day: "good_weekday weekday" "MIN_YEAR \<le> cd_year c" using assms(3) skip_day(1,2) year(2) by simp_all
        obtain t where t: "time = Some t"
            "\<And>answer. search_answer schedule fires date_of steps (t - 1) answer \<Longrightarrow> search_answer schedule fires date_of (Suc steps) since answer"
          by (rule answer_after_weekday [OF assms(1) Some skip_day(2) day skip_day(3), where steps = steps]) blast
        show ?thesis using t(2) [OF Suc] Some found skip_day t(1) by simp
      next
        case run
        have "search_answer schedule fires date_of (Suc steps) since (Inr (getBoundedDate (Fin (of_int (cd_time c))) (cs_endTime schedule)))"
          by (rule answer_found [OF assms(1) Some _ run(2)]) (use year(1) run(1) in simp)
        moreover have "cron_search lib schedule (Suc steps) (Fin (of_int since)) = Inr (getBoundedDate (Fin (of_int (cd_time c))) (cs_endTime schedule))"
          using Some found run by (cases "cs_weekday schedule") simp_all
        ultimately show ?thesis by simp
      qed
    qed
  qed
qed

section \<open>The next run of a cron expression\<close>

text \<open>When an expression runs: its fields fire, its years have the year, and the day is the weekday it asks for.\<close>

definition cron_runs :: "string \<Rightarrow> string \<Rightarrow> (int \<Rightarrow> bool) \<Rightarrow> (int \<Rightarrow> calendar_date) \<Rightarrow> int \<Rightarrow> bool" where
  "cron_runs dayOfMonth year fires date_of t \<longleftrightarrow> fires t \<and>
     (case date_of t of (y, m, d) \<Rightarrow> year_written year y \<and>
       (\<forall>weekday. parseWeekdayDay dayOfMonth = Some weekday \<longrightarrow> getNearestWeekday y m weekday = Some (int d)))"

lemma parsed_weekday: "parseWeekdayDay dayOfMonth = Some weekday \<Longrightarrow> good_weekday weekday"
  by (auto simp: parseWeekdayDay_def good_weekday_def Let_def split: if_splits)

lemma few_years: "good_years (cs_years schedule) \<Longrightarrow> card (years_after schedule date_of t) < MAX_CRON_STEPS"
proof -
  assume "good_years (cs_years schedule)"
  then have "years_after schedule date_of t \<subseteq> {MIN_YEAR..MAX_YEAR}" by (auto simp: years_after_def good_years_def)
  then have "card (years_after schedule date_of t) \<le> card {MIN_YEAR..MAX_YEAR}" by (rule card_mono [rotated]) simp
  then show ?thesis by (simp add: MIN_YEAR_def MAX_YEAR_def MAX_CRON_STEPS_def)
qed


text \<open>A rate with a unit in upper case is accepted, but its interval is not a number, and its next date is not a date.\<close>

lemma upper_case_rate_has_no_date:
  assumes "match_rate input = Some (number, unit)" and "map_of TimeUnits unit = None"
    and "getOptionalTime lib (eo_startDate options) = Inr None" and "getOptionalTime lib (eo_endDate options) = Inr None"
  shows "\<exists>er. parseRateExpression lib input options = Inr (Some er) \<and> er_getNextDate er (Some current) = Inr (Some None)"
  using assms by (simp add: parseRateExpression_def rate_interval_def getNextRateTime_def getTime_def getBoundedDate_def new_Date_def)

lemma upper_case_rate: "match_rate ''rate(5 MINUTES)'' = Some (''5'', ''MINUTES'') \<and> map_of TimeUnits ''MINUTES'' = None"
  by code_simp

section \<open>Examples\<close>


text \<open>
  A library in which a millisecond is a day, a month has thirty-one of them, of which those after its last day belong to that day, and
  every time fires.
\<close>

definition sample_date :: "int \<Rightarrow> calendar_date" where
  "sample_date t =
     (if t < 0 then (1969, 12, 31)
      else let y = 1970 + nat (t div 372); m = nat (t mod 372 div 31) + 1
           in (y, m, min (nat (t mod 31) + 1) (nat (last_day (int y) m))))"

definition sample_time :: "calendar_date \<Rightarrow> int" where
  "sample_time = (\<lambda>(y, m, d). (int y - 1970) * 372 + (int m - 1) * 31 + (int d - 1))"

definition read_numbers :: "string \<Rightarrow> calendar_date" where
  "read_numbers s =
     (let number = (\<lambda>s. dec_value (takeWhile is_digit_char s)); rest = (\<lambda>s. drop 1 (dropWhile is_digit_char s))
      in (number s, number (rest s), number (rest (rest s))))"

definition sample_library :: schedule_library where
  "sample_library = \<lparr>sl_accepts = (\<lambda>value timezone. True),
     sl_next = (\<lambda>value timezone n. case n of
        Fin r \<Rightarrow> (case sample_date (\<lfloor>r\<rfloor> + 1) of (y, m, d) \<Rightarrow> Some \<lparr>cd_time = \<lfloor>r\<rfloor> + 1, cd_year = y, cd_month = m, cd_day = d\<rparr>) | _ \<Rightarrow> None),
     sl_zoned = (\<lambda>s timezone. Some (sample_time (read_numbers s))), sl_parse = (\<lambda>s. Fin 1000), sl_number = (\<lambda>s. Fin (of_nat (dec_value s))),
     sl_text = (\<lambda>n. case n of Fin r \<Rightarrow> digits_of (nat \<lfloor>r\<rfloor>) | _ \<Rightarrow> [])\<rparr>"

lemma read_digits:
  assumes "\<not> is_digit_char c"
  shows "takeWhile is_digit_char (digits_of n @ c # s) = digits_of n" "dropWhile is_digit_char (digits_of n @ c # s) = c # s"
    "takeWhile is_digit_char (two_digits n @ c # s) = two_digits n" "dropWhile is_digit_char (two_digits n @ c # s) = c # s"
proof -
  have zero: "is_digit_char (CHR ''0'')" by (simp add: is_digit_char_def)
  have "x \<in> set (two_digits n) \<Longrightarrow> is_digit_char x" for x using digits_of_digit zero by (auto simp: two_digits_def)
  then show "takeWhile is_digit_char (two_digits n @ c # s) = two_digits n" "dropWhile is_digit_char (two_digits n @ c # s) = c # s"
    using assms by (simp_all add: takeWhile_append dropWhile_append)
  show "takeWhile is_digit_char (digits_of n @ c # s) = digits_of n" "dropWhile is_digit_char (digits_of n @ c # s) = c # s"
    using digits_of_digit assms by (simp_all add: takeWhile_append dropWhile_append)
qed

lemma two_digits_value: "dec_value (two_digits n) = n"
proof -
  have "dec_value (replicate k (CHR ''0'') @ s) = dec_value s" for k s by (induction k) (simp_all add: dec_value_def)
  then show ?thesis by (simp add: two_digits_def digits_of_value)
qed

lemma read_midnight: "read_numbers (midnight y m d) = (y, m, d)"
proof -
  have "\<not> is_digit_char (CHR ''-'')" "\<not> is_digit_char (CHR ''T'')" by (simp_all add: is_digit_char_def)
  then show ?thesis by (simp add: read_numbers_def midnight_def Let_def read_digits digits_of_value two_digits_value)
qed

lemma slots:
  fixes a b c a' b' c' :: int
  assumes "0 \<le> b" "b < 12" "0 \<le> c" "c < 31" "0 \<le> b'" "b' < 12" "0 \<le> c'" "c' < 31"
  shows "a * 372 + b * 31 + c \<le> a' * 372 + b' * 31 + c' \<longleftrightarrow> a < a' \<or> a = a' \<and> (b < b' \<or> b = b' \<and> c \<le> c')"
proof -
  consider "a < a'" | "a' < a" | "a = a'" "b < b'" | "a = a'" "b' < b" | "a = a'" "b = b'" by linarith
  then show ?thesis by cases (use assms in linarith)+
qed

lemma sample_slots:
  assumes "0 \<le> u"
  obtains a b c where "u = int a * 372 + int b * 31 + int c" "b < 12" "c < 31" "sample_date u = (1970 + a, b + 1, min (c + 1) (nat (last_day (1970 + int a) (b + 1))))"
proof (rule that [of "nat (u div 372)" "nat (u mod 372 div 31)" "nat (u mod 31)"])
  have parts: "0 \<le> u div 372" "0 \<le> u mod 372 div 31" "0 \<le> u mod 31" using assms by simp_all
  have "u mod 372 div 31 * 31 + u mod 31 = u mod 372"
    using div_mult_mod_eq [of "u mod 372" 31] mod_mod_cancel [of 31 372 u] by simp
  then have "u = u div 372 * 372 + (u mod 372 div 31 * 31 + u mod 31)" by (simp only: div_mult_mod_eq)
  then show "u = int (nat (u div 372)) * 372 + int (nat (u mod 372 div 31)) * 31 + int (nat (u mod 31))"
    by (simp only: int_nat_eq parts if_True add.assoc)
  show "nat (u mod 372 div 31) < 12" "nat (u mod 31) < 31" by simp_all
  show "sample_date u = (1970 + nat (u div 372), nat (u mod 372 div 31) + 1,
      min (nat (u mod 31) + 1) (nat (last_day (1970 + int (nat (u div 372))) (nat (u mod 372 div 31) + 1))))"
    using assms by (simp add: sample_date_def Let_def)
qed

lemma sample_day:
  assumes "is_date (y, m, d)"
  shows "sample_time (y, m, d) \<le> u \<longleftrightarrow> date_le (y, m, d) (sample_date u)"
proof (cases "u < 0")
  case True
  then show ?thesis using assms by (auto simp: is_date_def sample_time_def sample_date_def MIN_YEAR_def)
next
  case False
  have bounds: "1970 \<le> y" "1 \<le> m" "m \<le> 12" "1 \<le> d" "int d \<le> last_day (int y) m" "int d \<le> 31"
    using assms last_day_bounds(2) [of m "int y"] by (auto simp: is_date_def MIN_YEAR_def)
  obtain a b c where u: "u = int a * 372 + int b * 31 + int c" "b < 12" "c < 31"
      "sample_date u = (1970 + a, b + 1, min (c + 1) (nat (last_day (1970 + int a) (b + 1))))"
    using sample_slots [of u] False by auto
  have "sample_time (y, m, d) \<le> u \<longleftrightarrow> int y - 1970 < int a \<or> int y - 1970 = int a \<and>
      (int m - 1 < int b \<or> int m - 1 = int b \<and> int d - 1 \<le> int c)"
    unfolding sample_time_def split u(1) by (rule slots) (use bounds u in simp_all)
  also have "\<dots> \<longleftrightarrow> y < 1970 + a \<or> y = 1970 + a \<and> (m < b + 1 \<or> m = b + 1 \<and> d \<le> c + 1)" using bounds by linarith
  also have "\<dots> \<longleftrightarrow> date_le (y, m, d) (sample_date u)"
    unfolding u(4) using bounds by auto
  finally show ?thesis .
qed

lemma sample_date_day:
  assumes "sample_date t = (y, m, d)"
  shows "1 \<le> m \<and> m \<le> 12 \<and> 1 \<le> d \<and> int d \<le> last_day (int y) m"
proof (cases "t < 0")
  case True
  then show ?thesis using assms last_day_value [of 12 1969] by (auto simp: sample_date_def)
next
  case False
  then obtain a b c where "b < 12" "c < 31" "sample_date t = (1970 + a, b + 1, min (c + 1) (nat (last_day (1970 + int a) (b + 1))))"
    using sample_slots [of t] not_less by metis
  then show ?thesis using assms last_day_bounds(1) [of "b + 1" "1970 + int a"] by auto
qed

lemma sample_library_ok: "library_ok sample_library value timezone (\<lambda>t. True) sample_date"
  unfolding library_ok_def
proof (intro conjI allI impI)
  fix since and c :: cron_date
  obtain y m d where date: "sample_date (since + 1) = (y, m, d)" by (rule prod_cases3)
  have least: "cd_time c = since + 1" if "since < cd_time c" "\<forall>u. since < u \<longrightarrow> cd_time c \<le> u" using that(1) that(2) [rule_format, of "since + 1"] by linarith
  show "sl_next sample_library value timezone (Fin (of_int since)) = Some c \<longleftrightarrow>
      True \<and> since < cd_time c \<and> (\<forall>u. True \<and> since < u \<longrightarrow> cd_time c \<le> u) \<and> (cd_year c, cd_month c, cd_day c) = sample_date (cd_time c)"
    using least date by (auto simp: sample_library_def)
next
  fix t
  show "case sample_date t of (y, m, d) \<Rightarrow> 1 \<le> m \<and> m \<le> 12 \<and> 1 \<le> d \<and> int d \<le> last_day (int y) m"
    using sample_date_day by (auto split: prod.split)
next
  fix y m d
  assume "is_date (y, m, d)"
  then show "\<exists>t. sl_zoned sample_library (midnight y m d) timezone = Some t \<and> (\<forall>u. t \<le> u \<longleftrightarrow> date_le (y, m, d) (sample_date u))"
    using sample_day by (simp add: sample_library_def read_midnight)
qed

definition sample_options :: "string option \<Rightarrow> expression_options" where
  "sample_options start = \<lparr>eo_timezone = None, eo_startDate = start, eo_endDate = None\<rparr>"


lemma sample_runs:
  "cron_runs ''1'' ''1971'' (\<lambda>t. True) sample_date t \<longleftrightarrow> fst (sample_date t) = 1971"
proof -
  have years: "parseYears ''1971'' = Some [1971]" and "parseWeekdayDay ''1'' = None" by code_simp+
  moreover have "year_written ''1971'' y \<longleftrightarrow> y = 1971" for y using parseYears_years(3) [OF years] by auto
  ultimately show ?thesis by (simp add: cron_runs_def split_beta)
qed


end
