(* ===== verification/Object_Merge.thy ===== *)
theory Object_Merge
  imports Object_Equal
begin

text \<open>
  Copies of objects: \<open>deepMerge\<close> and \<open>deepClone\<close> of \<open>foundation/utils/src/object/merge.ts\<close> and \<open>clone.ts\<close>, with
  \<open>array/unique.ts\<close>. The objects and arrays they create have the reference 0.

  A merge has, for every property, what the values of its operands merge to, and a clone of data is deeply equal to it.
\<close>

section \<open>Unique elements\<close>

text \<open>The equality of the elements of a \<open>Set\<close>.\<close>

definition same_value :: "js_value \<Rightarrow> js_value \<Rightarrow> bool" where
  "same_value a b = (strict_equal a b \<or> a = Num NaN \<and> b = Num NaN)"

definition add_value :: "js_value \<Rightarrow> js_value list \<Rightarrow> js_value list" where
  "add_value v xs = (if v = Undefined \<or> list_ex (same_value v) xs then xs else xs @ [v])"

definition arrayUnique :: "js_value list \<Rightarrow> js_value list" where
  "arrayUnique values = fold (\<lambda>v xs. case v of Arr _ elements \<Rightarrow> fold add_value elements xs | _ \<Rightarrow> add_value v xs) values []"

section \<open>Merging\<close>

record merge_options =
  mo_select :: select_options
  mo_array :: bool
  mo_replace :: bool

definition default_merge :: merge_options where
  "default_merge = \<lparr>mo_select = no_options, mo_array = False, mo_replace = True\<rparr>"

text \<open>A property is set unless its value is \<open>undefined\<close>.\<close>

definition set_values :: "(string \<times> js_value) list \<Rightarrow> (string \<times> js_value) list" where
  "set_values values = fold (\<lambda>(k, v) object. if v = Undefined then object else obj_set k v object) values []"

fun merge_measure ::
  "bool \<times> bool \<times> bool \<times> states \<times> int option \<times> (string \<times> js_value) list \<times> (string \<times> js_value) list +
   bool \<times> bool \<times> bool \<times> partial_properties option \<times> int option \<times> js_value \<times> js_value \<Rightarrow> nat" where
  "merge_measure (Inl (_, _, _, _, _, tf, sf)) = 2 * (fields_size tf + fields_size sf) + 1"
| "merge_measure (Inr (_, _, _, _, _, t, s)) = 2 * (size t + size s)"

function (sequential)
  mergeFields :: "bool \<Rightarrow> bool \<Rightarrow> bool \<Rightarrow> states \<Rightarrow> int option \<Rightarrow> (string \<times> js_value) list \<Rightarrow> (string \<times> js_value) list \<Rightarrow> (string \<times> js_value) list" and
  mergeProperty :: "bool \<Rightarrow> bool \<Rightarrow> bool \<Rightarrow> partial_properties option \<Rightarrow> int option \<Rightarrow> js_value \<Rightarrow> js_value \<Rightarrow> js_value"
where
  "mergeFields array replace incl st d tf sf =
     set_values (map (\<lambda>k. (k, if skipped incl (obj_get st k) then Undefined
                              else mergeProperty array replace incl (obj_get st k) d (js_prop tf k) (js_prop sf k))) (all_keys tf sf))"
| "mergeProperty array replace incl keyState d (Obj i True tf) (Obj j True sf) =
     (if depth_left d
      then Obj 0 True (mergeFields array replace (fst (nested_selection incl keyState)) (snd (nested_selection incl keyState)) (depth_pred d) tf sf)
      else Obj 0 True (obj_spread sf tf))"
| "mergeProperty array replace incl keyState d t s =
     (if t \<noteq> Undefined \<and> \<not> replace then t
      else case (array, s, t) of
             (True, Arr _ ys, Arr _ xs) \<Rightarrow> Arr 0 (arrayUnique (ys @ xs))
           | _ \<Rightarrow> if s = Undefined \<or> s = Null then t else s)"
  by pat_completeness auto

termination
proof (relation "measure merge_measure")
  fix array replace incl :: bool and st :: states and d :: "int option" and tf sf :: "(string \<times> js_value) list" and k :: string
  show "(Inr (array, replace, incl, obj_get st k, d, js_prop tf k, js_prop sf k), Inl (array, replace, incl, st, d, tf, sf)) \<in> measure merge_measure"
    using js_prop_size_le [of tf k] js_prop_size_le [of sf k] by simp
qed auto

declare mergeFields.simps [simp del]

definition deepMerge ::
  "(string \<times> js_value) list \<Rightarrow> (string \<times> js_value) list \<Rightarrow> merge_options \<Rightarrow> js_error + (string \<times> js_value) list" where
  "deepMerge target source opts =
     (let select = mo_select opts
      in if sel_include select \<noteq> None \<and> sel_exclude select \<noteq> None
         then Inl (TypeError ''Can't specify include and exclude at the same time for merge options.'')
         else Inr (mergeFields (mo_array opts) (mo_replace opts) (isInclude select) (allStates select) (sel_depth select) target source))"

section \<open>Cloning\<close>

fun height :: "js_value \<Rightarrow> nat" where
  "height (Arr _ xs) = Suc (Max (insert 0 (set (map height xs))))"
| "height (Obj _ _ fs) = Suc (Max (insert 0 (set (map (\<lambda>f. height (snd f)) fs))))"
| "height v = 0"

definition fields_height :: "(string \<times> js_value) list \<Rightarrow> nat" where
  "fields_height fs = Max (insert 0 (set (map (\<lambda>f. height (snd f)) fs)))"

definition indexed :: "js_value list \<Rightarrow> (string \<times> js_value) list" where
  "indexed xs = map (\<lambda>(k, x). (digits_of k, x)) (List.enumerate 0 xs)"

fun clone_measure ::
  "(bool \<times> states \<times> int option \<times> (string \<times> js_value) list) + (bool \<times> partial_properties option \<times> int option \<times> js_value) +
   (bool \<times> states \<times> int option \<times> js_value) \<Rightarrow> nat" where
  "clone_measure (Inl (_, _, _, fs)) = 2 * fields_height fs + 1"
| "clone_measure (Inr (Inl (_, _, _, v))) = 2 * height v"
| "clone_measure (Inr (Inr (_, _, _, v))) = 2 * height v"

lemma height_field: "f \<in> set fs \<Longrightarrow> height (snd f) \<le> fields_height fs"
  unfolding fields_height_def by (rule Max_ge) auto

lemma height_element: "x \<in> set xs \<Longrightarrow> height x < height (Arr i xs)"
  by (auto simp: less_Suc_eq_le intro: Max_ge)

lemma height_indexed: "fields_height (indexed xs) = Max (insert 0 (set (map height xs)))"
proof -
  have "map (\<lambda>f. height (snd f)) (indexed xs) = map height (map snd (List.enumerate 0 xs))" by (simp add: indexed_def split_def comp_def del: map_snd_enumerate)
  then show ?thesis unfolding fields_height_def by (simp only: map_snd_enumerate)
qed

text \<open>
  A clone lists the properties of its source in their order. An element of an array that is cloned with a selection may be
  any value: the loop visits the indices of an array or a text, and nothing of any other value.
\<close>

function (sequential)
  cloneFields :: "bool \<Rightarrow> states \<Rightarrow> int option \<Rightarrow> (string \<times> js_value) list \<Rightarrow> (string \<times> js_value) list" and
  cloneValue :: "bool \<Rightarrow> partial_properties option \<Rightarrow> int option \<Rightarrow> js_value \<Rightarrow> js_value" and
  cloneElement :: "bool \<Rightarrow> states \<Rightarrow> int option \<Rightarrow> js_value \<Rightarrow> (string \<times> js_value) list"
where
  "cloneFields incl st d fs =
     map (\<lambda>f. (fst f, cloneValue incl (obj_get st (fst f)) d (snd f))) (filter (\<lambda>f. \<not> skipped incl (obj_get st (fst f))) fs)"
| "cloneValue incl keyState d v =
     (if depth_left d then
        (case v of
           Obj i plain fs \<Rightarrow>
             if plain then Obj 0 True (cloneFields (fst (nested_selection incl keyState)) (snd (nested_selection incl keyState)) (depth_pred d) fs) else v
         | Arr i xs \<Rightarrow>
             (case keyState of
                Some (Props st) \<Rightarrow> Arr 0 (map (\<lambda>x. Obj 0 True (cloneElement incl st (depth_pred d) x)) xs)
              | _ \<Rightarrow> Arr 0 xs)
         | _ \<Rightarrow> v)
      else v)"
| "cloneElement incl st d (Obj i plain fs) = cloneFields incl st d fs"
| "cloneElement incl st d (Arr i xs) = cloneFields incl st d (indexed xs)"
| "cloneElement incl st d (Str s) = filter (\<lambda>f. \<not> skipped incl (obj_get st (fst f))) (indexed (map (\<lambda>c. Str [c]) s))"
| "cloneElement incl st d v = []"
  by pat_completeness auto

termination
proof (relation "measure clone_measure")
  fix incl st d and fs :: "(string \<times> js_value) list" and f
  assume "f \<in> set (filter (\<lambda>f. \<not> skipped incl (obj_get st (fst f))) fs)"
  then show "(Inr (Inl (incl, obj_get st (fst f), d, snd f)), Inl (incl, st, d, fs)) \<in> measure clone_measure"
    using height_field [of f fs] by simp
next
  fix incl st d x xs i keyState and v :: js_value
  assume "v = Arr i xs" "x \<in> set xs"
  then show "(Inr (Inr (incl, st, depth_pred d, x)), Inr (Inl (incl, keyState, d, v))) \<in> measure clone_measure"
    using height_element [of x xs i] by simp
next
  fix incl st d i xs
  show "(Inl (incl, st, d, indexed xs), Inr (Inr (incl, st, d, Arr i xs))) \<in> measure clone_measure"
    using height_indexed [of xs] by simp
qed (auto simp: fields_height_def)

declare cloneFields.simps [simp del] cloneValue.simps [simp del]

definition deepClone :: "(string \<times> js_value) list \<Rightarrow> select_options \<Rightarrow> js_error + (string \<times> js_value) list" where
  "deepClone source opts =
     (if sel_include opts \<noteq> None \<and> sel_exclude opts \<noteq> None
      then Inl (TypeError ''Can't specify include and exclude for clone options together.'')
      else Inr (cloneFields (isInclude opts) (allStates opts) (sel_depth opts) source))"

section \<open>What a merge has\<close>

lemma get_set_values:
  "distinct (map fst xs) \<Longrightarrow> js_prop (fold (\<lambda>(k, v) object. if v = Undefined then object else obj_set k v object) xs object) k =
     (case map_of xs k of None \<Rightarrow> js_prop object k | Some v \<Rightarrow> if v = Undefined then js_prop object k else v)"
proof (induction xs arbitrary: object)
  case (Cons f xs)
  obtain k' v where f: "f = (k', v)" by (cases f)
  have "map_of xs k = None" if "k = k'" using Cons.prems that by (simp add: f map_of_eq_None_iff)
  then show ?case using Cons by (auto simp: f js_prop_def split: option.splits)
qed simp

lemma mergeProperty_undefined: "mergeProperty array replace incl keyState d Undefined Undefined = Undefined"
  by (simp split: bool.split)

lemma merged_property:
  "js_prop (mergeFields array replace incl st d tf sf) k =
     (if skipped incl (obj_get st k) then Undefined
      else mergeProperty array replace incl (obj_get st k) d (js_prop tf k) (js_prop sf k))"
proof -
  let ?at = "\<lambda>k. if skipped incl (obj_get st k) then Undefined else mergeProperty array replace incl (obj_get st k) d (js_prop tf k) (js_prop sf k)"
  have keys: "distinct (map fst (map (\<lambda>k. (k, ?at k)) (all_keys tf sf)))" by (simp add: all_keys_def comp_def)
  have none: "?at k = Undefined" if "k \<notin> set (all_keys tf sf)"
    using that by (simp add: all_keys_def obj_keys_get js_prop_def split: bool.split)
  have "map_of (map (\<lambda>k. (k, ?at k)) (all_keys tf sf)) k = (if k \<in> set (all_keys tf sf) then Some (?at k) else None)"
    by (simp add: map_of_map_restrict restrict_map_def)
  moreover have "js_prop [] k = Undefined" by (simp add: js_prop_def)
  ultimately have "js_prop (mergeFields array replace incl st d tf sf) k = (if k \<in> set (all_keys tf sf) then ?at k else Undefined)"
    unfolding mergeFields.simps set_values_def get_set_values [OF keys] by simp
  then show ?thesis using none by (cases "k \<in> set (all_keys tf sf)") (simp_all only: if_True if_False simp_thms)
qed

text \<open>With the default options a value of the source takes the place of that of the target, unless both are plain objects, which are merged.\<close>

lemma deepMerge_property:
  assumes "deepMerge target source default_merge = Inr merged"
  shows "js_prop merged k =
    (case (js_prop target k, js_prop source k) of
       (Obj i True tf, Obj j True sf) \<Rightarrow> Obj 0 True (mergeFields False True False [] None tf sf)
     | (t, s) \<Rightarrow> if s = Undefined \<or> s = Null then t else s)"
  using assms
  by (auto simp: deepMerge_def default_merge_def no_options_def isInclude_def allStates_def Let_def merged_property skipped_def depth_left_def
      nested_selection_def depth_pred_def split: js_value.split bool.split)

section \<open>A clone is equal\<close>

lemma clone_prop:
  "js_prop (cloneFields False [] d fs) k = (if obj_get fs k = None then Undefined else cloneValue False None d (js_prop fs k))"
proof -
  have "map_of (map (\<lambda>f. (fst f, cloneValue False None d (snd f))) fs) k = map_option (cloneValue False None d) (map_of fs k)"
    by (induction fs) auto
  then show ?thesis by (auto simp: cloneFields.simps skipped_def js_prop_def obj_get_def split: option.split)
qed

lemma clone_keys: "obj_keys (cloneFields False [] d fs) = obj_keys fs"
  by (simp add: cloneFields.simps skipped_def obj_keys_def comp_def)

lemma equal_same: "plain_data v \<Longrightarrow> equalProperty False None None v v"
  using equal_refl_aux(4) [of v v False None None] by simp

lemma clone_value_equal: "plain_data v \<Longrightarrow> equalProperty False None None (cloneValue False None None v) v"
proof (induction v rule: measure_induct_rule [where f = height])
  case (less v)
  show ?case
  proof (cases "\<exists>i fs. v = Obj i True fs")
    case True
    then obtain i fs where v: "v = Obj i True fs" by blast
    have "equalProperty False None None (js_prop (cloneFields False [] None fs) k) (js_prop fs k)" if k: "k \<in> set (obj_keys fs)" for k
    proof -
      obtain w where w: "obj_get fs k = Some w" using k by (auto simp: obj_keys_get)
      then have member: "(k, w) \<in> set fs" by (simp add: obj_get_def map_of_SomeD)
      have "height w < height v" using height_field [OF member] by (simp add: v fields_height_def less_Suc_eq_le)
      moreover have "plain_data w" using less.prems member by (auto simp: v list_all_iff)
      moreover have "js_prop fs k = w" using w by (simp add: js_prop_def)
      ultimately show ?thesis using less.IH w by (simp add: clone_prop)
    qed
    then have "equalFields False [] None (cloneFields False [] None fs) fs"
      by (simp add: equalFields.simps list_all_iff all_keys_def clone_keys)
    then show ?thesis by (simp add: v cloneValue.simps equalProperty.simps depth_left_def nested_selection_def depth_pred_def)
  next
    case False
    show ?thesis
    proof (cases "\<exists>i xs. v = Arr i xs")
      case True
      then show ?thesis using less.prems equal_refl_aux(1)
        by (auto simp: cloneValue.simps equalProperty.simps depth_left_def)
    next
      case False
      with \<open>\<not> (\<exists>i fs. v = Obj i True fs)\<close> have "cloneValue False None None v = v"
        by (cases v) (auto simp: cloneValue.simps depth_left_def)
      then show ?thesis using equal_same [OF less.prems] by simp
    qed
  qed
qed

lemma clone_is_equal:
  assumes "plain_data (Obj i True source)" and "deepClone source no_options = Inr copy"
  shows "deepEqualObject copy source no_options = Inr True"
proof -
  have "copy = cloneFields False [] None source" using assms(2) by (simp add: deepClone_def no_options_def isInclude_def allStates_def)
  then show ?thesis using clone_value_equal [OF assms(1)]
    by (simp add: deepEqualObject_def no_options_def isInclude_def allStates_def cloneValue.simps equalProperty.simps depth_left_def nested_selection_def depth_pred_def)
qed

end
