(* ===== verification/Sql_Text.thy ===== *)
theory Sql_Text
  imports Text_Case "HOL-Library.Sublist"
begin

text \<open>
  Texts of SQL statements: escaping (\<open>libraries/pgsql/src/utils/escape.ts\<close>) and the pattern of
  \<open>operations/utils.ts\<close>, with readers of what PostgreSQL makes of them: quoted tokens, text arrays
  and \<open>LIKE\<close> patterns. What is escaped is read back as it was.
\<close>

section \<open>Escaping\<close>

definition doubled :: "char \<Rightarrow> string \<Rightarrow> string" where
  "doubled q s = concat (map (\<lambda>c. if c = q then [q, q] else [c]) s)"

definition escapeSqlName :: "string \<Rightarrow> string" where
  "escapeSqlName name = (if name = ''*'' then name else [CHR 34] @ doubled (CHR 34) name @ [CHR 34])"

definition escapeSqlNames :: "string list \<Rightarrow> string" where
  "escapeSqlNames names = join '', '' (map escapeSqlName names)"

definition escapeSqlText :: "string \<Rightarrow> string" where
  "escapeSqlText text = [CHR 39] @ doubled (CHR 39) text @ [CHR 39]"

definition backslashed :: "char set \<Rightarrow> string \<Rightarrow> string" where
  "backslashed cs s = concat (map (\<lambda>c. if c \<in> cs then [CHR 92, c] else [c]) s)"

definition getSqlTextArray :: "string list \<Rightarrow> string" where
  "getSqlTextArray items =
     ''{'' @ join '','' (map (\<lambda>item. [CHR 34] @ backslashed {CHR 92, CHR 34} item @ [CHR 34]) items) @ ''}''"

fun split_backslash :: "string \<Rightarrow> string list" where
  "split_backslash [] = [[]]"
| "split_backslash (c # s) =
     (if c = CHR 92 then [] # split_backslash s
      else case split_backslash s of [] \<Rightarrow> [[c]] | p # ps \<Rightarrow> (c # p) # ps)"

text \<open>The tokens of a key: what the loop pushes for the parts between its backslashes.\<close>

definition part_tokens :: "string \<Rightarrow> string list" where
  "part_tokens part = (if part = [] then [] else [escapeSqlText part])"

fun key_tokens :: "string list \<Rightarrow> string list" where
  "key_tokens [] = []"
| "key_tokens [part] = part_tokens part"
| "key_tokens (part # parts) = part_tokens part @ [''chr(92)''] @ key_tokens parts"

definition escapeSqlKey :: "string \<Rightarrow> string" where
  "escapeSqlKey key =
     (if CHR 92 \<notin> set key then escapeSqlText key
      else ''('' @ join '' || '' (key_tokens (split_backslash key)) @ '')'')"

text \<open>The escape of a text that is matched literally, in \<open>getOperandPattern\<close>.\<close>

definition escape_pattern :: "string \<Rightarrow> string" where
  "escape_pattern s = backslashed {CHR 92, CHR ''%'', CHR ''_''} s"

section \<open>Quoted tokens\<close>

text \<open>What follows an opening quote: the content up to the closing quote, where a doubled quote
  stands for itself, and the rest of the statement.\<close>

fun read_quoted :: "char \<Rightarrow> string \<Rightarrow> (string \<times> string) option" where
  "read_quoted q [] = None"
| "read_quoted q [c] = (if c = q then Some ([], []) else None)"
| "read_quoted q (c # d # s) =
     (if c \<noteq> q then map_option (\<lambda>(t, r). (c # t, r)) (read_quoted q (d # s))
      else if d = q then map_option (\<lambda>(t, r). (q # t, r)) (read_quoted q s)
      else Some ([], d # s))"

definition read_token :: "char \<Rightarrow> string \<Rightarrow> (string \<times> string) option" where
  "read_token q s = (case s of [] \<Rightarrow> None | c # r \<Rightarrow> if c = q then read_quoted q r else None)"

lemma doubled_simps [simp]: "doubled q [] = []" "doubled q (c # s) = (if c = q then [q, q] else [c]) @ doubled q s"
  by (simp_all add: doubled_def)

lemma read_quoted_plain: "c \<noteq> q \<Longrightarrow> s \<noteq> [] \<Longrightarrow> read_quoted q (c # s) = map_option (\<lambda>(t, r). (c # t, r)) (read_quoted q s)"
  by (cases s) auto

lemma read_quoted_doubled:
  assumes "rest = [] \<or> hd rest \<noteq> q"
  shows "read_quoted q (doubled q s @ q # rest) = Some (s, rest)"
proof (induction s)
  case Nil
  from assms show ?case by (cases rest) auto
next
  case (Cons c s)
  then show ?case by (cases "c = q") (simp_all add: read_quoted_plain)
qed

text \<open>A list of tokens with a separator between them, at most as many as the number given.\<close>

fun read_list :: "(string \<Rightarrow> (string \<times> string) option) \<Rightarrow> string \<Rightarrow> nat \<Rightarrow> string \<Rightarrow> string list option" where
  "read_list read sep 0 s = None"
| "read_list read sep (Suc n) s =
     (case read s of
        None \<Rightarrow> None
      | Some (t, []) \<Rightarrow> Some [t]
      | Some (t, r) \<Rightarrow>
          if prefix sep r then map_option ((#) t) (read_list read sep n (drop (length sep) r)) else None)"

text \<open>
  What a list of tokens needs of the way a token is quoted: a token is read back at the end and in
  front of a separator. Then the list is read back.
\<close>

locale quoted_list =
  fixes quote :: "string \<Rightarrow> string" and read_one :: "string \<Rightarrow> (string \<times> string) option" and sep :: string
    and quotable :: "string \<Rightarrow> bool"
  assumes read_last: "quotable s \<Longrightarrow> read_one (quote s) = Some (s, [])"
    and read_next: "quotable s \<Longrightarrow> read_one (quote s @ sep @ rest) = Some (s, sep @ rest)"
    and sep_nonempty: "sep \<noteq> []"
begin

lemma read_list_back:
  "list_all quotable xs \<Longrightarrow> xs \<noteq> [] \<Longrightarrow> length xs \<le> n \<Longrightarrow> read_list read_one sep n (join sep (map quote xs)) = Some xs"
proof (induction xs arbitrary: n rule: induct_list012)
  case (2 x)
  then show ?case by (cases n) (simp_all add: read_last)
next
  case (3 x y zs)
  then obtain m where n: "n = Suc m" by (cases n) simp_all
  from 3 have "read_list read_one sep m (join sep (map quote (y # zs))) = Some (y # zs)" by (simp add: n)
  moreover have "read_one (join sep (map quote (x # y # zs))) = Some (x, sep @ join sep (map quote (y # zs)))"
    using 3(3) read_next [of x] by simp
  moreover obtain c r where "sep = c # r" using sep_nonempty by (cases sep) simp_all
  ultimately show ?case by (simp add: n)
qed simp

lemma list_length: "xs \<noteq> [] \<Longrightarrow> length xs \<le> Suc (length (join sep (map quote xs)))"
proof (induction xs rule: induct_list012)
  case (3 x y zs)
  with sep_nonempty show ?case by (cases sep) simp_all
qed simp_all

end

lemma read_token_text: "rest = [] \<or> hd rest \<noteq> CHR 39 \<Longrightarrow> read_token (CHR 39) (escapeSqlText s @ rest) = Some (s, rest)"
  using read_quoted_doubled [of rest "CHR 39" s] by (simp add: read_token_def escapeSqlText_def)

lemma read_token_name:
  "s \<noteq> ''*'' \<Longrightarrow> rest = [] \<or> hd rest \<noteq> CHR 34 \<Longrightarrow> read_token (CHR 34) (escapeSqlName s @ rest) = Some (s, rest)"
  using read_quoted_doubled [of rest "CHR 34" s] by (simp add: read_token_def escapeSqlName_def)

interpretation names: quoted_list escapeSqlName "read_token (CHR 34)" "'', ''" "\<lambda>s. s \<noteq> ''*''"
  by unfold_locales (use read_token_name [where rest = "[]"] read_token_name [where rest = "'', '' @ rest" for rest] in simp_all)

text \<open>
  C33. An escaped text or name is read back as one token with its own content, and the rest of the
  statement is untouched: no text, whatever quotes it has, ends its literal early. Only a rest that
  starts with the same quote would go on with the token; the name \<open>*\<close> is not quoted. A list of
  names is read back name by name.
\<close>

theorem escaped_tokens_read_back:
  "(rest = [] \<or> hd rest \<noteq> CHR 39 \<longrightarrow> read_token (CHR 39) (escapeSqlText s @ rest) = Some (s, rest)) \<and>
   (s \<noteq> ''*'' \<and> (rest = [] \<or> hd rest \<noteq> CHR 34) \<longrightarrow> read_token (CHR 34) (escapeSqlName s @ rest) = Some (s, rest)) \<and>
   (list_all (\<lambda>s. s \<noteq> ''*'') columns \<and> columns \<noteq> [] \<longrightarrow>
     read_list (read_token (CHR 34)) '', '' (length columns) (escapeSqlNames columns) = Some columns)"
  using names.read_list_back [of columns "length columns"] read_token_text read_token_name by (simp add: escapeSqlNames_def)

theorem escaped_tokens_read_back_witness:
  "read_token (CHR 39) (escapeSqlText (''it'' @ [CHR 39] @ ''s; --'') @ '' OR true'') = Some (''it'' @ [CHR 39] @ ''s; --'', '' OR true'') \<and>
   read_token (CHR 34) (escapeSqlName [CHR 34] @ '' = 1'') = Some ([CHR 34], '' = 1'') \<and>
   read_list (read_token (CHR 34)) '', '' 2 (escapeSqlNames [''a'' @ [CHR 34], ''b, c'']) = Some [''a'' @ [CHR 34], ''b, c'']"
  using escaped_tokens_read_back [of "'' OR true''" "''it'' @ [CHR 39] @ ''s; --''"]
    escaped_tokens_read_back [of "'' = 1''" "[CHR 34]" "[''a'' @ [CHR 34], ''b, c'']"]
  by (simp add: numeral_2_eq_2)

section \<open>Keys\<close>

text \<open>The value of a token of a key: the backslash, or the content of a literal.\<close>

definition token_value :: "string \<Rightarrow> string option" where
  "token_value t = (if t = ''chr(92)'' then Some [CHR 92]
     else case read_token (CHR 39) t of Some (s, []) \<Rightarrow> Some s | _ \<Rightarrow> None)"

fun joined_value :: "string list \<Rightarrow> string option" where
  "joined_value [] = Some []"
| "joined_value (t # ts) =
     (case (token_value t, joined_value ts) of (Some s, Some r) \<Rightarrow> Some (s @ r) | _ \<Rightarrow> None)"

definition key_expression :: "string \<Rightarrow> string list" where
  "key_expression key = (if CHR 92 \<notin> set key then [escapeSqlText key] else key_tokens (split_backslash key))"

lemma escapeSqlKey_expression:
  "escapeSqlKey key = (if CHR 92 \<notin> set key then join '' || '' (key_expression key) else ''('' @ join '' || '' (key_expression key) @ '')'')"
  by (simp add: escapeSqlKey_def key_expression_def)

lemma token_value_text [simp]: "token_value (escapeSqlText s) = Some s"
  using read_quoted_doubled [of "[]" "CHR 39" s] by (simp add: token_value_def read_token_def escapeSqlText_def)

lemma token_value_backslash [simp]: "token_value ''chr(92)'' = Some [CHR 92]"
  by (simp add: token_value_def)

lemma joined_value_append: "joined_value (xs @ ys) = (case (joined_value xs, joined_value ys) of (Some s, Some r) \<Rightarrow> Some (s @ r) | _ \<Rightarrow> None)"
  by (induction xs) (auto split: option.split)

lemma joined_value_part [simp]: "joined_value (part_tokens p) = Some p"
  by (simp add: part_tokens_def)

fun with_backslashes :: "string list \<Rightarrow> string" where
  "with_backslashes [] = []"
| "with_backslashes [p] = p"
| "with_backslashes (p # q # ps) = p @ [CHR 92] @ with_backslashes (q # ps)"

lemma joined_value_key: "joined_value (key_tokens ps) = Some (with_backslashes ps)"
  by (induction ps rule: with_backslashes.induct) (simp_all add: joined_value_append)

lemma split_backslash_nonempty [simp]: "split_backslash s \<noteq> []"
  by (induction s) (auto split: list.split)

lemma with_backslashes_split: "with_backslashes (split_backslash s) = s"
proof (induction s)
  case (Cons c s)
  then show ?case by (cases "split_backslash s"; cases "tl (split_backslash s)") auto
qed simp

lemma set_join: "set (join sep ws) \<subseteq> set sep \<union> \<Union> (set ` set ws)"
  by (induction sep ws rule: join.induct) auto

lemma split_backslash_free: "p \<in> set (split_backslash s) \<Longrightarrow> CHR 92 \<notin> set p"
  by (induction s arbitrary: p) (auto split: if_splits list.splits)

lemma set_doubled: "set (doubled q s) = set s"
  by (induction s) auto

lemma backslash_free_text: "CHR 92 \<notin> set s \<Longrightarrow> CHR 92 \<notin> set (escapeSqlText s)"
  by (simp add: escapeSqlText_def set_doubled)

lemma key_tokens_free: "(\<And>p. p \<in> set ps \<Longrightarrow> CHR 92 \<notin> set p) \<Longrightarrow> t \<in> set (key_tokens ps) \<Longrightarrow> CHR 92 \<notin> set t"
  by (induction ps rule: key_tokens.induct) (auto simp: part_tokens_def backslash_free_text split: if_splits)

text \<open>
  A JSON key written into a statement puts no backslash there, and the expression it is written
  as has the key as its value: the literals and the characters \<open>chr(92)\<close> joined by \<open>||\<close>.
\<close>

theorem escaped_key_has_value:
  "CHR 92 \<notin> set (escapeSqlKey key) \<and> joined_value (key_expression key) = Some key"
proof (cases "CHR 92 \<in> set key")
  case True
  have "CHR 92 \<notin> set t" if "t \<in> set (key_tokens (split_backslash key))" for t
    using that split_backslash_free by (rule key_tokens_free [rotated])
  then have "CHR 92 \<notin> set (join '' || '' (key_tokens (split_backslash key)))"
    using set_join [of "'' || ''" "key_tokens (split_backslash key)"] by auto
  with True show ?thesis by (simp add: escapeSqlKey_def key_expression_def joined_value_key with_backslashes_split)
next
  case False
  then show ?thesis by (simp add: escapeSqlKey_def key_expression_def backslash_free_text)
qed

section \<open>Patterns\<close>

text \<open>\<open>LIKE\<close> with its default escape character.\<close>

function like :: "string \<Rightarrow> string \<Rightarrow> bool" where
  "like [] t = (t = [])"
| "like (c # p) t =
     (if c = CHR ''%'' then like p t \<or> (case t of [] \<Rightarrow> False | x # t' \<Rightarrow> like (c # p) t')
      else if c = CHR ''_'' then (case t of [] \<Rightarrow> False | x # t' \<Rightarrow> like p t')
      else if c = CHR 92 then (case (p, t) of (d # p', x # t') \<Rightarrow> x = d \<and> like p' t' | _ \<Rightarrow> False)
      else (case t of [] \<Rightarrow> False | x # t' \<Rightarrow> x = c \<and> like p t'))"
  by pat_completeness auto
termination
  by (relation "measures [\<lambda>(p, t). length p + length t]") auto

declare like.simps [simp del]

lemma like_escaped_char:
  "like (backslashed {CHR 92, CHR ''%'', CHR ''_''} [c] @ p) t = (case t of [] \<Rightarrow> False | x # t' \<Rightarrow> x = c \<and> like p t')"
  by (cases t) (auto simp: backslashed_def like.simps(2))

lemma like_escaped: "like (escape_pattern s @ p) t \<longleftrightarrow> (\<exists>r. t = s @ r \<and> like p r)"
proof (induction s arbitrary: t)
  case Nil
  then show ?case by (simp add: escape_pattern_def backslashed_def)
next
  case (Cons c s)
  have "escape_pattern (c # s) @ p = backslashed {CHR 92, CHR ''%'', CHR ''_''} [c] @ escape_pattern s @ p"
    by (simp add: escape_pattern_def backslashed_def)
  then show ?case by (simp only: like_escaped_char) (auto simp: Cons.IH split: list.splits)
qed

lemma like_any: "like [CHR ''%''] t"
  by (induction t) (auto simp: like.simps)

lemma like_before: "like (CHR ''%'' # p) t \<longleftrightarrow> (\<exists>l r. t = l @ r \<and> like p r)"
proof (induction t)
  case Nil
  then show ?case by (simp add: like.simps(2) [of "CHR ''%''" p])
next
  case (Cons x t)
  have "like (CHR ''%'' # p) (x # t) \<longleftrightarrow> like p (x # t) \<or> like (CHR ''%'' # p) t"
    by (simp add: like.simps(2) [of "CHR ''%''" p])
  also have "\<dots> \<longleftrightarrow> (\<exists>l r. x # t = l @ r \<and> like p r)"
    unfolding Cons.IH by (metis append_Cons append_Nil list.exhaust list.inject)
  finally show ?case .
qed

text \<open>
  Text operands match literally: \<open>startsWith\<close>, which compares with the escaped text and a trailing
  \<open>%\<close>, holds of exactly the texts that start with the operand, and \<open>contains\<close>, which also puts a
  \<open>%\<close> in front, of exactly the texts the operand is a part of.
\<close>

theorem patterns_match_literally:
  "(like (escape_pattern s @ ''%'') t \<longleftrightarrow> prefix s t) \<and> (like (''%'' @ escape_pattern s @ ''%'') t \<longleftrightarrow> sublist s t)"
proof -
  have "like (escape_pattern s @ ''%'') r \<longleftrightarrow> prefix s r" for r
    using like_escaped [of s "''%''" r] by (auto simp: like_any prefix_def)
  moreover from this have "like (''%'' @ escape_pattern s @ ''%'') t \<longleftrightarrow> (\<exists>l r. t = l @ r \<and> prefix s r)"
    using like_before [of "escape_pattern s @ ''%''" t] by simp
  ultimately show ?thesis by (auto simp: sublist_def prefix_def)
qed

section \<open>Text arrays\<close>

text \<open>What follows the opening quote of an item: its content and the rest.\<close>

fun read_item :: "string \<Rightarrow> (string \<times> string) option" where
  "read_item [] = None"
| "read_item (c # s) =
     (if c = CHR 34 then Some ([], s)
      else if c = CHR 92 then (case s of [] \<Rightarrow> None | d # s' \<Rightarrow> map_option (\<lambda>(t, r). (d # t, r)) (read_item s'))
      else map_option (\<lambda>(t, r). (c # t, r)) (read_item s))"

definition read_quoted_item :: "string \<Rightarrow> (string \<times> string) option" where
  "read_quoted_item s = (case s of [] \<Rightarrow> None | c # r \<Rightarrow> if c = CHR 34 then read_item r else None)"

definition quoted_item :: "string \<Rightarrow> string" where
  "quoted_item item = [CHR 34] @ backslashed {CHR 92, CHR 34} item @ [CHR 34]"

text \<open>The items between the braces.\<close>

definition read_array :: "string \<Rightarrow> string list option" where
  "read_array s =
     (if s = ''{}'' then Some []
      else if s \<noteq> [] \<and> hd s = CHR ''{'' \<and> last s = CHR ''}'' then read_list read_quoted_item '','' (length s) (butlast (tl s))
      else None)"

lemma read_item_backslashed: "read_item (backslashed {CHR 92, CHR 34} s @ CHR 34 # r) = Some (s, r)"
  by (induction s) (simp_all add: backslashed_def)

interpretation items: quoted_list quoted_item read_quoted_item "'',''" "\<lambda>s. True"
  by unfold_locales (simp_all add: quoted_item_def read_quoted_item_def read_item_backslashed)

lemma getSqlTextArray_items: "getSqlTextArray items = ''{'' @ join '','' (map quoted_item items) @ ''}''"
  by (simp add: getSqlTextArray_def quoted_item_def [abs_def])

text \<open>
  The literal of a text array has its items: commas, braces, quotes and backslashes stay in the
  item they are part of.
\<close>

theorem text_array_round_trip: "read_array (getSqlTextArray items) = Some items"
proof (cases items)
  case Nil
  then show ?thesis by (simp add: getSqlTextArray_def read_array_def)
next
  case (Cons a rest)
  let ?written = "join '','' (map quoted_item items)"
  have "?written \<noteq> []" unfolding Cons by (cases rest) (simp_all add: quoted_item_def)
  moreover have "read_list read_quoted_item '','' (Suc (Suc (length ?written))) ?written = Some items"
    by (rule items.read_list_back) (use items.list_length [of items] Cons in \<open>simp_all add: list_all_iff\<close>)
  ultimately show ?thesis unfolding getSqlTextArray_items read_array_def by (simp add: butlast_append)
qed

end
