(* ===== verification/Sql_Builder.thy ===== *)
theory Sql_Builder
  imports Schema_Types Sql_Text
begin

text \<open>
  What the SQL builder of \<open>libraries/pgsql/src\<close> works on: the values of filters and records, the
  statements with their clauses, and the references the statements of one builder share
  (\<open>builder.ts\<close>, \<open>common/source.ts\<close>, \<open>common/reference.ts\<close>, \<open>common/raw.ts\<close>).

  A statement under construction is a text of pieces, where a placeholder \<open>:k\<close> is a piece of its
  own. The piece also remembers the variable the code pushed when it wrote the placeholder; the
  rendered text has only the index. Everything that builds returns its result together with the
  variables it pushed, in the order of the pushes, and the new references.

  The setters of a statement (\<open>from\<close>, \<open>where\<close>, \<open>join\<close> and so on) only fill its fields, which are the
  arguments of its constructor here. Its alias is the exception: other statements read and
  change it while they build, so it is kept with the references, under the identity of the source.
  Functions a caller passes to the builder get the source they are for; of it they read the alias.
\<close>

section \<open>Texts with placeholders\<close>

datatype raw_value = RawConstant js_value | RawGenerator "string option \<Rightarrow> string"

datatype reference_column = ColumnName string | ColumnGenerator "string option \<Rightarrow> string"

type_synonym source_id = nat

datatype order_direction = Asc | Desc | OtherOrder

datatype join_type = FullJoin | InnerJoin | LeftJoin | RightJoin | CrossJoin

datatype aggregate_function = Count | SumOf | MinOf | MaxOf

text \<open>
  A value of a filter or a record: a scalar, an instance of a class that is none of the builder's
  (a date, a buffer), an array, a plain object, or one of the builder's own objects. The template
  of a raw condition is the text its generator returns, with the calls of its binder by number.
\<close>

datatype template = TemplateText string | TemplateBind nat

datatype sql_value =
    NoValue
  | NullValue
  | BoolValue bool
  | NumberValue js_number
  | TextValue string
  | Instance nat
  | Items "sql_value list"
  | Fields "(string \<times> sql_value) list"
  | RawValue raw_value
  | RawOperation string raw_value
  | RawCondition "(sql_value \<times> any_schema option) list" "template list"
  | ColumnReference source_id reference_column "string option"
  | SelectValue sql_select
and sql_select =
    SqlSelect source_id "any_schema option" "sql_table list" "sql_column list" "sql_join list"
      "(string \<times> sql_value) list option" "string list option" "(string \<times> sql_value) list option"
      "(string \<times> order_direction option) list option" "js_number option" "js_number option" bool
and sql_table =
    TableName string
  | TableRaw raw_value
  | TableReference source_id
  | TableUnion "sql_statement list"
  | TableSelect sql_select
and sql_join =
    SqlJoin source_id "any_schema option" "string + source_id" join_type bool "(string \<times> sql_value) list option"
and sql_column =
    PlainColumn string
  | AliasedColumn string string
  | RawResult raw_value
  | RawColumn raw_value "string option"
  | ReferenceResult source_id reference_column "string option"
  | JsonColumn "(string \<times> json_field) list" "(string \<times> order_direction option) list option" bool "string option" "string option" bool
  | AggregateColumn aggregate_function "string option" bool "(string \<times> sql_value) list option" "(string \<times> string) option" "string option"
  | SelectResult sql_select
and json_field =
    JsonOff
  | JsonOn
  | JsonRaw raw_value
  | JsonReference source_id reference_column "string option"
  | JsonSelect sql_select
  | JsonObject "(string \<times> json_field) list"
and sql_statement =
    SelectStatement sql_select
  | InsertStatement source_id "any_schema option" "string option" "sql_table list option" "(string \<times> sql_value) list list"
      "(string \<times> sql_value) list option" "sql_conflict option" "sql_column list option"
  | UpdateStatement source_id "any_schema option" "string option" "sql_table option" "(string \<times> sql_value) list option"
      "(string \<times> sql_value) list option" "sql_column list option"
  | DeleteStatement source_id "any_schema option" "string option" "(string \<times> sql_value) list option" "sql_column list option"
and sql_conflict =
    SqlConflict "string list option" "(string \<times> sql_value) list option" "(string \<times> sql_value) list option"

type_synonym filters = "(string \<times> sql_value) list"
type_synonym sql_record = "(string \<times> sql_value) list"

datatype piece = Txt string | Bind nat sql_value

type_synonym sql = "piece list"

abbreviation T :: "string \<Rightarrow> sql" where
  "T s \<equiv> [Txt s]"

fun render_piece :: "piece \<Rightarrow> string" where
  "render_piece (Txt s) = s"
| "render_piece (Bind k v) = '':'' @ digits_of k"

definition render :: "sql \<Rightarrow> string" where
  "render x = concat (map render_piece x)"

fun piece_binds :: "piece \<Rightarrow> (nat \<times> sql_value) list" where
  "piece_binds (Txt s) = []"
| "piece_binds (Bind k v) = [(k, v)]"

definition binds :: "sql \<Rightarrow> (nat \<times> sql_value) set" where
  "binds x = set (concat (map piece_binds x))"

fun joined :: "string \<Rightarrow> sql list \<Rightarrow> sql" where
  "joined sep [] = []"
| "joined sep [x] = x"
| "joined sep (x # y # xs) = x @ T sep @ joined sep (y # xs)"

lemma binds_simps [simp]:
  "binds [] = {}" "binds (x @ y) = binds x \<union> binds y" "binds (Txt s # x) = binds x" "binds (Bind k v # x) = insert (k, v) (binds x)"
  by (auto simp: binds_def)

lemma binds_join [simp]: "binds (joined sep xs) = (\<Union>x \<in> set xs. binds x)"
  by (induction sep xs rule: joined.induct) auto

section \<open>References and results\<close>

record builder_options =
  onPrepareVariable :: "(sql_value \<Rightarrow> any_schema option \<Rightarrow> nat \<Rightarrow> bool option \<Rightarrow> sql_value) option"
  onPrepareArray :: "(sql_value list \<Rightarrow> any_schema option \<Rightarrow> nat \<Rightarrow> sql_value option) option"
  textOf :: "sql_value \<Rightarrow> string"
  jsonOf :: "sql_value \<Rightarrow> string"

record builder_references =
  counter :: nat
  aliases :: "(string \<times> nat) list"
  alias_of :: "source_id \<Rightarrow> string option"

text \<open>
  The errors of the builder, those of the language, and a loop without end, which the migrations that use the
  builder have.
\<close>

datatype sql_error =
    UnsupportedSqlDataError
  | MissingOperatorError string
  | InvalidOperandError "string option"
  | InvalidAtomicOperation string
  | MissingColumnAliasError
  | MissingTableAliasError
  | InvalidColumnOrderError string
  | InvalidWhereClauseError
  | MissingConflictTargetError
  | NoStatementsError
  | MissingTableNameError
  | MissingRecordError
  | EmptyRecordError
  | MultipleRecordsError
  | TooManyClausesError
  | MissingClauseError
  | UnsupportedIndexError
  | StackOverflow
  | TypeError
  | NeverReturns

type_synonym 'a build = "builder_references \<Rightarrow> sql_error + 'a \<times> sql_value list \<times> builder_references"

definition give :: "'a \<Rightarrow> 'a build" where
  "give x refs = Inr (x, [], refs)"

definition raise :: "sql_error \<Rightarrow> 'a build" where
  "raise e refs = Inl e"

definition andThen :: "'a build \<Rightarrow> ('a \<Rightarrow> 'b build) \<Rightarrow> 'b build" where
  "andThen m f refs =
     (case m refs of
        Inl e \<Rightarrow> Inl e
      | Inr (x, vs, refs') \<Rightarrow>
          (case f x refs' of Inl e \<Rightarrow> Inl e | Inr (y, ws, refs'') \<Rightarrow> Inr (y, vs @ ws, refs'')))"

fun each :: "('a \<Rightarrow> 'b build) \<Rightarrow> 'a list \<Rightarrow> 'b list build" where
  "each f [] = give []"
| "each f (x # xs) = andThen (f x) (\<lambda>y. andThen (each f xs) (\<lambda>ys. give (y # ys)))"

definition alias_now :: "source_id \<Rightarrow> string option build" where
  "alias_now s refs = Inr (alias_of refs s, [], refs)"

definition set_alias :: "source_id \<Rightarrow> string option \<Rightarrow> unit build" where
  "set_alias s a refs = Inr ((), [], refs\<lparr>alias_of := (alias_of refs)(s := a)\<rparr>)"

text \<open>An empty alias is falsy wherever it is read.\<close>

definition truthy_name :: "string option \<Rightarrow> string option" where
  "truthy_name a = (case a of Some [] \<Rightarrow> None | _ \<Rightarrow> a)"

definition getUniqueAlias :: "string \<Rightarrow> string build" where
  "getUniqueAlias a refs =
     (let n = (case obj_get (aliases refs) a of None \<Rightarrow> 0 | Some n \<Rightarrow> n)
      in Inr (a @ digits_of n, [], refs\<lparr>aliases := obj_set a (Suc n) (aliases refs)\<rparr>))"

text \<open>
  Take the next index, prepare the value and push it: the placeholder of the index. The variable
  of a JSON key is prepared without the flag \<open>json\<close>.
\<close>

definition bind_variable :: "builder_options \<Rightarrow> sql_value \<Rightarrow> any_schema option \<Rightarrow> bool option \<Rightarrow> sql build" where
  "bind_variable opts v s json refs =
     (let k = counter refs;
          prepared = (case onPrepareVariable opts of None \<Rightarrow> v | Some prepare \<Rightarrow> prepare v s k json)
      in Inr ([Bind k prepared], [prepared], refs\<lparr>counter := Suc k\<rparr>))"

definition bind_array :: "builder_options \<Rightarrow> sql_value list \<Rightarrow> any_schema option \<Rightarrow> sql option build" where
  "bind_array opts vs s refs =
     (case onPrepareArray opts of
        None \<Rightarrow> Inr (None, [], refs)
      | Some prepare \<Rightarrow>
          (case prepare vs s (counter refs) of
             None \<Rightarrow> Inr (None, [], refs)
           | Some prepared \<Rightarrow>
               Inr (Some [Bind (counter refs) prepared], [prepared], refs\<lparr>counter := Suc (counter refs)\<rparr>)))"

section \<open>Names and paths\<close>

definition mergeSqlPath :: "string \<Rightarrow> sql \<Rightarrow> sql \<Rightarrow> sql" where
  "mergeSqlPath column path key =
     (if path \<noteq> [] then path @ T ''['' @ key @ T '']'' else T (escapeSqlName column))"

definition mergeSqlJsonPath :: "string \<Rightarrow> sql \<Rightarrow> bool \<Rightarrow> sql \<Rightarrow> sql" where
  "mergeSqlJsonPath column path as_text key =
     (if path \<noteq> [] then path @ T (if as_text then ''->>'' else ''->'') @ key else T (escapeSqlName column))"

definition mergeSqlAlias :: "sql \<Rightarrow> string option \<Rightarrow> sql" where
  "mergeSqlAlias column a = (case truthy_name a of None \<Rightarrow> column | Some n \<Rightarrow> T (escapeSqlName n) @ T ''.'' @ column)"

definition given :: "sql_value \<Rightarrow> bool" where
  "given v = (case v of NoValue \<Rightarrow> False | _ \<Rightarrow> True)"

definition getFields :: "sql_record \<Rightarrow> string list" where
  "getFields record = map fst (filter (\<lambda>p. given (snd p)) record)"

definition getValues :: "sql_record \<Rightarrow> sql_value list" where
  "getValues record = map snd (filter (\<lambda>p. given (snd p)) record)"

text \<open>A raw value as a value: what a generator returns is a text.\<close>

fun js_scalar :: "js_value \<Rightarrow> sql_value" where
  "js_scalar Undefined = NoValue"
| "js_scalar Null = NullValue"
| "js_scalar (Bool b) = BoolValue b"
| "js_scalar (Num n) = NumberValue n"
| "js_scalar (Str s) = TextValue s"
| "js_scalar (Arr r xs) = Items (map js_scalar xs)"
| "js_scalar (Obj r plain fs) = (if plain then Fields (map (\<lambda>f. (fst f, js_scalar (snd f))) fs) else Instance r)"
| "js_scalar (Fun r) = Instance r"

definition build_raw :: "raw_value \<Rightarrow> string option \<Rightarrow> sql_value" where
  "build_raw r a = (case r of RawConstant v \<Rightarrow> js_scalar v | RawGenerator g \<Rightarrow> TextValue (g a))"

definition value_text :: "builder_options \<Rightarrow> sql_value \<Rightarrow> string" where
  "value_text opts v = (case v of TextValue s \<Rightarrow> s | _ \<Rightarrow> textOf opts v)"

definition table_reference :: "source_id \<Rightarrow> sql build" where
  "table_reference s = andThen (alias_now s) (\<lambda>a.
     case truthy_name a of None \<Rightarrow> raise MissingTableAliasError | Some n \<Rightarrow> give (T (escapeSqlName n)))"

definition as_alias :: "sql \<Rightarrow> string option \<Rightarrow> sql" where
  "as_alias x a = (case truthy_name a of None \<Rightarrow> x | Some n \<Rightarrow> x @ T '' AS '' @ T (escapeSqlName n))"

definition column_reference :: "source_id \<Rightarrow> reference_column \<Rightarrow> string option \<Rightarrow> sql build" where
  "column_reference s c a = andThen (alias_now s) (\<lambda>own. give (as_alias
     (case c of ColumnGenerator g \<Rightarrow> T (g own) | ColumnName n \<Rightarrow> mergeSqlAlias (T (escapeSqlName n)) own) a))"

end
