(* ===== verification/Sql_Conditions.thy ===== *)
theory Sql_Conditions
  imports Sql_Builder
begin

text \<open>
  The conditions of a statement: \<open>libraries/pgsql/src/operations\<close> with the operands (\<open>utils.ts\<close>), one
  definition for each operator, and the filters they come from (\<open>conditions.ts\<close>). The clauses
  \<open>WHERE\<close> and \<open>HAVING\<close> of \<open>clauses/query\<close> add their keyword. Filters nest; the recursion takes the
  depth of the call stack, as its overflow is an exception of the language. A subquery is built by
  the argument \<open>sub\<close>.
\<close>

section \<open>Values\<close>

definition any_object :: "sql_value \<Rightarrow> bool" where
  "any_object v =
     (case v of
        NoValue \<Rightarrow> False | NullValue \<Rightarrow> False | BoolValue b \<Rightarrow> False | NumberValue n \<Rightarrow> False | TextValue s \<Rightarrow> False
      | Items xs \<Rightarrow> False | _ \<Rightarrow> True)"

definition truthy_value :: "sql_value \<Rightarrow> bool" where
  "truthy_value v =
     (case v of
        NoValue \<Rightarrow> False | NullValue \<Rightarrow> False | BoolValue b \<Rightarrow> b | NumberValue n \<Rightarrow> n \<noteq> NaN \<and> n \<noteq> Fin 0
      | TextValue s \<Rightarrow> s \<noteq> [] | _ \<Rightarrow> True)"

text \<open>The enumerable properties a loop or \<open>Object.entries\<close> finds.\<close>

definition own_entries :: "sql_value \<Rightarrow> (string \<times> sql_value) list" where
  "own_entries v =
     (case v of
        Fields fs \<Rightarrow> fs
      | Items xs \<Rightarrow> map (\<lambda>(k, x). (digits_of k, x)) (List.enumerate 0 xs)
      | TextValue s \<Rightarrow> map (\<lambda>(k, c). (digits_of k, TextValue [c])) (List.enumerate 0 s)
      | _ \<Rightarrow> [])"

definition field_value :: "(string \<times> sql_value) list \<Rightarrow> string \<Rightarrow> sql_value" where
  "field_value fs k = (case obj_get fs k of None \<Rightarrow> NoValue | Some v \<Rightarrow> v)"

section \<open>Operands\<close>

record operation_flags =
  insensitive :: bool
  of_count :: bool

record operation_context =
  oc_bound :: bool
  oc_source :: "source_id option"
  oc_flags :: "operation_flags option"
  oc_field :: "string option"
  oc_path :: sql

definition source_alias :: "operation_context \<Rightarrow> string option build" where
  "source_alias ctx = (case oc_source ctx of None \<Rightarrow> give None | Some s \<Rightarrow> alias_now s)"

definition escapeSqlData :: "builder_options \<Rightarrow> sql_value \<Rightarrow> sql build" where
  "escapeSqlData opts v =
     (case v of
        NumberValue n \<Rightarrow> give (T (textOf opts v))
      | BoolValue b \<Rightarrow> give (T (textOf opts v))
      | TextValue s \<Rightarrow> give (T (escapeSqlText s))
      | NoValue \<Rightarrow> raise UnsupportedSqlDataError
      | _ \<Rightarrow> give (T (escapeSqlText (jsonOf opts v))))"

definition isJsonOperand :: "any_schema option \<Rightarrow> operation_context \<Rightarrow> bool \<Rightarrow> bool" where
  "isJsonOperand schema ctx encode = (oc_path ctx \<noteq> [] \<and> (encode \<or> schema = None))"

definition getOperandValue :: "builder_options \<Rightarrow> any_schema option \<Rightarrow> sql_value \<Rightarrow> operation_context \<Rightarrow> bool \<Rightarrow> sql build" where
  "getOperandValue opts schema operand ctx encode =
     (case operand of
        RawValue r \<Rightarrow> andThen (source_alias ctx) (\<lambda>a. give (T (value_text opts (build_raw r a))))
      | ColumnReference s c a \<Rightarrow> column_reference s c a
      | _ \<Rightarrow> if \<not> oc_bound ctx then escapeSqlData opts operand
             else bind_variable opts operand schema (Some (isJsonOperand schema ctx encode)))"

definition written_by_caller :: "sql_value \<Rightarrow> bool" where
  "written_by_caller v = (case v of RawValue r \<Rightarrow> True | ColumnReference s c a \<Rightarrow> True | _ \<Rightarrow> False)"

definition getOperandArray :: "builder_options \<Rightarrow> any_schema option \<Rightarrow> sql_value list \<Rightarrow> operation_context \<Rightarrow> sql option build" where
  "getOperandArray opts schema operands ctx =
     (if \<not> oc_bound ctx \<or> list_ex written_by_caller operands \<or> isJsonOperand schema ctx False then give None
      else bind_array opts operands schema)"

definition getOperandPattern :: "builder_options \<Rightarrow> any_schema option \<Rightarrow> sql_value \<Rightarrow> operation_context \<Rightarrow> sql build" where
  "getOperandPattern opts schema operand ctx =
     getOperandValue opts schema (case operand of TextValue s \<Rightarrow> TextValue (escape_pattern s) | _ \<Rightarrow> operand) ctx False"

definition cast_to :: "string \<Rightarrow> sql \<Rightarrow> sql" where
  "cast_to ty column = T ''('' @ column @ T '')::'' @ T ty"

definition getOperandColumn :: "any_schema option \<Rightarrow> sql \<Rightarrow> operation_context \<Rightarrow> sql" where
  "getOperandColumn schema column ctx =
     (if oc_path ctx = [] then column
      else case schema of
             Some (BooleanSchema i d) \<Rightarrow> cast_to ''bool'' column
           | Some (NumberSchema i d format) \<Rightarrow> cast_to (if format = Some ''integer'' then ''int'' else ''dec'') column
           | Some (StringSchema i d format) \<Rightarrow>
               if format = Some ''date-time'' then cast_to ''timestamptz'' column
               else if format = Some ''date'' then cast_to ''date'' column
               else if format = Some ''time'' then cast_to ''time'' column
               else column
           | _ \<Rightarrow> column)"

definition getOperandFunction :: "sql \<Rightarrow> operation_flags \<Rightarrow> sql" where
  "getOperandFunction column flags =
     (if of_count flags then T ''COUNT('' @ column @ T '')''
      else if insensitive flags then T ''LOWER('' @ column @ T '')'' else column)"

definition left_operand :: "any_schema option \<Rightarrow> sql \<Rightarrow> operation_context \<Rightarrow> sql" where
  "left_operand schema column ctx =
     (case oc_flags ctx of
        None \<Rightarrow> getOperandColumn schema column ctx
      | Some flags \<Rightarrow> getOperandFunction (getOperandColumn schema column ctx) flags)"

definition ignores_case :: "operation_context \<Rightarrow> bool" where
  "ignores_case ctx = (case oc_flags ctx of None \<Rightarrow> False | Some flags \<Rightarrow> insensitive flags)"

definition right_operand :: "sql \<Rightarrow> operation_context \<Rightarrow> sql" where
  "right_operand x ctx =
     (case oc_flags ctx of None \<Rightarrow> x | Some flags \<Rightarrow> if insensitive flags then getOperandFunction x flags else x)"

section \<open>Operations\<close>

definition getIsNullOperation :: "sql \<Rightarrow> bool \<Rightarrow> sql" where
  "getIsNullOperation column operand = column @ T (if operand then '' IS null'' else '' IS NOT null'')"

definition getEqualOperation :: "builder_options \<Rightarrow> sql \<Rightarrow> any_schema option \<Rightarrow> sql_value \<Rightarrow> operation_context \<Rightarrow> sql build" where
  "getEqualOperation opts column schema operand ctx =
     (case operand of
        NullValue \<Rightarrow> give (getIsNullOperation column True)
      | _ \<Rightarrow> andThen (getOperandValue opts schema operand ctx False) (\<lambda>rhs.
          give (left_operand schema column ctx @ T '' = '' @ right_operand rhs ctx)))"

definition getNotEqualOperation :: "builder_options \<Rightarrow> sql \<Rightarrow> any_schema option \<Rightarrow> sql_value \<Rightarrow> operation_context \<Rightarrow> sql build" where
  "getNotEqualOperation opts column schema operand ctx =
     (case operand of
        NullValue \<Rightarrow> give (getIsNullOperation column False)
      | _ \<Rightarrow> andThen (getOperandValue opts schema operand ctx False) (\<lambda>rhs.
          give (left_operand schema column ctx @ T '' != '' @ right_operand rhs ctx)))"

text \<open>The four orderings differ in their operator only.\<close>

definition getOrderOperation ::
  "string \<Rightarrow> builder_options \<Rightarrow> sql \<Rightarrow> any_schema option \<Rightarrow> sql_value \<Rightarrow> operation_context \<Rightarrow> sql build" where
  "getOrderOperation operator opts column schema operand ctx =
     andThen (getOperandValue opts schema operand ctx False) (\<lambda>rhs. give (left_operand schema column ctx @ T operator @ rhs))"

definition getGreaterThanOperation :: "builder_options \<Rightarrow> sql \<Rightarrow> any_schema option \<Rightarrow> sql_value \<Rightarrow> operation_context \<Rightarrow> sql build" where
  "getGreaterThanOperation = getOrderOperation '' > ''"

definition getGreaterOrEqualOperation :: "builder_options \<Rightarrow> sql \<Rightarrow> any_schema option \<Rightarrow> sql_value \<Rightarrow> operation_context \<Rightarrow> sql build" where
  "getGreaterOrEqualOperation = getOrderOperation '' >= ''"

definition getLessThanOperation :: "builder_options \<Rightarrow> sql \<Rightarrow> any_schema option \<Rightarrow> sql_value \<Rightarrow> operation_context \<Rightarrow> sql build" where
  "getLessThanOperation = getOrderOperation '' < ''"

definition getLessOrEqualOperation :: "builder_options \<Rightarrow> sql \<Rightarrow> any_schema option \<Rightarrow> sql_value \<Rightarrow> operation_context \<Rightarrow> sql build" where
  "getLessOrEqualOperation = getOrderOperation '' <= ''"

definition json_schema :: "any_schema option \<Rightarrow> bool" where
  "json_schema schema = (case schema of None \<Rightarrow> False | Some s \<Rightarrow> isObjectSchema s \<or> isArraySchema s \<or> isTupleSchema s)"

definition getIsInOperation :: "builder_options \<Rightarrow> sql \<Rightarrow> any_schema option \<Rightarrow> sql_value \<Rightarrow> operation_context \<Rightarrow> sql build" where
  "getIsInOperation opts column schema operand ctx =
     (case operand of
        Items xs \<Rightarrow>
          if list_all (\<lambda>x. \<not> given x) xs then give (T ''false'')
          else if json_schema schema then
            andThen (each (\<lambda>x. getOperandValue opts schema x ctx True) xs) (\<lambda>rhs.
              give (T ''('' @ joined '' OR '' (map (\<lambda>r. getOperandColumn schema column ctx @ T '' <@ '' @ r) rhs) @ T '')''))
          else andThen (getOperandArray opts schema xs ctx) (\<lambda>array.
            case array of
              Some a \<Rightarrow> give (left_operand schema column ctx @ T '' = ANY('' @ a @ T '')'')
            | None \<Rightarrow> andThen (each (\<lambda>x. getOperandValue opts schema x ctx False) xs) (\<lambda>rhs.
                give (left_operand schema column ctx @ T '' IN ('' @ joined '', '' rhs @ T '')'')))
      | _ \<Rightarrow> raise (InvalidOperandError (Some (render column))))"

definition getIsBetweenOperation :: "builder_options \<Rightarrow> sql \<Rightarrow> any_schema option \<Rightarrow> sql_value \<Rightarrow> operation_context \<Rightarrow> sql build" where
  "getIsBetweenOperation opts column schema operand ctx =
     (case operand of
        Items [lo, hi] \<Rightarrow>
          andThen (getOperandValue opts schema lo ctx False) (\<lambda>l. andThen (getOperandValue opts schema hi ctx False) (\<lambda>h.
            give (left_operand schema column ctx @ T '' BETWEEN '' @ l @ T '' AND '' @ h)))
      | _ \<Rightarrow> raise (InvalidOperandError (Some (render column))))"

definition getStartsWithOperation :: "builder_options \<Rightarrow> sql \<Rightarrow> any_schema option \<Rightarrow> sql_value \<Rightarrow> operation_context \<Rightarrow> sql build" where
  "getStartsWithOperation opts column schema operand ctx =
     andThen (getOperandPattern opts schema operand ctx) (\<lambda>rhs.
       give (getOperandColumn schema column ctx @ T (if ignores_case ctx then '' ILIKE '' else '' LIKE '') @ rhs @
         T ('' || '' @ escapeSqlText ''%'')))"

definition getContainsOperation :: "builder_options \<Rightarrow> sql \<Rightarrow> any_schema option \<Rightarrow> sql_value \<Rightarrow> operation_context \<Rightarrow> sql build" where
  "getContainsOperation opts column schema operand ctx =
     (if json_schema schema then
        andThen (getOperandValue opts schema operand ctx True) (\<lambda>rhs. give (column @ T '' @> '' @ rhs))
      else andThen (getOperandPattern opts schema operand ctx) (\<lambda>rhs.
        give (getOperandColumn schema column ctx @
          T ((if ignores_case ctx then '' ILIKE '' else '' LIKE '') @ escapeSqlText ''%'' @ '' || '') @ rhs @
          T ('' || '' @ escapeSqlText ''%''))))"

definition has_key :: "operation_context \<Rightarrow> sql option" where
  "has_key ctx =
     (case truthy_name (oc_field ctx) of
        None \<Rightarrow> None
      | Some f \<Rightarrow> if oc_path ctx = [] then None else Some (oc_path ctx @ T ('' ? '' @ escapeSqlKey f)))"

definition getIsMissingOperation :: "sql \<Rightarrow> sql_value \<Rightarrow> operation_context \<Rightarrow> sql" where
  "getIsMissingOperation column operand ctx =
     (case has_key ctx of
        None \<Rightarrow> getIsNullOperation column (truthy_value operand)
      | Some k \<Rightarrow> if truthy_value operand then T ''NOT ('' @ k @ T '')'' else k)"

definition getIsMissingOrNullOperation :: "sql \<Rightarrow> sql_value \<Rightarrow> operation_context \<Rightarrow> sql" where
  "getIsMissingOrNullOperation column operand ctx =
     (case has_key ctx of
        None \<Rightarrow> getIsNullOperation column (truthy_value operand)
      | Some k \<Rightarrow>
          if truthy_value operand then T ''(NOT ('' @ k @ T '') OR '' @ column @ T '' IS null)''
          else T ''('' @ k @ T '' AND '' @ column @ T '' IS NOT null)'')"

definition getExistsOperation :: "(sql_select \<Rightarrow> sql build) \<Rightarrow> sql_select \<Rightarrow> sql build" where
  "getExistsOperation sub select = andThen (sub select) (\<lambda>st. give (T ''EXISTS ('' @ st @ T '')''))"

section \<open>Filters\<close>

definition all_operators :: "string list" where
  "all_operators = [''equal'', ''not'', ''gt'', ''gte'', ''lt'', ''lte'', ''isIn'', ''isBetween'', ''isMissing'', ''isNull'',
     ''isMissingOrNull'', ''startsWith'', ''contains'']"

definition getFinalOperation ::
  "builder_options \<Rightarrow> sql \<Rightarrow> any_schema option \<Rightarrow> string \<times> sql_value \<Rightarrow> operation_context \<Rightarrow> sql option build" where
  "getFinalOperation opts column schema operation ctx =
     (case operation of (operator, operand) \<Rightarrow>
        let finished = (\<lambda>m. andThen m (\<lambda>x. give (Some x)))
        in if \<not> given operand then give None
           else if operator = ''isNull'' then give (Some (getIsNullOperation column (truthy_value operand)))
           else if operator = ''isMissing'' then give (Some (getIsMissingOperation column operand ctx))
           else if operator = ''isMissingOrNull'' then give (Some (getIsMissingOrNullOperation column operand ctx))
           else if operator = ''equal'' then finished (getEqualOperation opts column schema operand ctx)
           else if operator = ''not'' then finished (getNotEqualOperation opts column schema operand ctx)
           else if operator = ''gt'' then finished (getGreaterThanOperation opts column schema operand ctx)
           else if operator = ''gte'' then finished (getGreaterOrEqualOperation opts column schema operand ctx)
           else if operator = ''lt'' then finished (getLessThanOperation opts column schema operand ctx)
           else if operator = ''lte'' then finished (getLessOrEqualOperation opts column schema operand ctx)
           else if operator = ''isIn'' then finished (getIsInOperation opts column schema operand ctx)
           else if operator = ''isBetween'' then finished (getIsBetweenOperation opts column schema operand ctx)
           else if operator = ''startsWith'' then finished (getStartsWithOperation opts column schema operand ctx)
           else if operator = ''contains'' then finished (getContainsOperation opts column schema operand ctx)
           else give None)"

definition combineOperations :: "sql list \<Rightarrow> sql" where
  "combineOperations operations =
     (case operations of [x] \<Rightarrow> x | _ \<Rightarrow> T ''('' @ joined '' AND '' operations @ T '')'')"

definition combined :: "sql list \<Rightarrow> sql option" where
  "combined operations = (if operations = [] then None else Some (combineOperations operations))"

fun isNestedSchema :: "any_schema \<Rightarrow> bool" where
  "isNestedSchema (UnionSchema i d elements) = list_ex isNestedSchema elements"
| "isNestedSchema s = (isObjectSchema s \<or> isArraySchema s \<or> isTupleSchema s)"

type_synonym filter_builder = "filters \<Rightarrow> any_schema option \<Rightarrow> operation_context \<Rightarrow> sql list build"

definition getSingleOperation ::
  "builder_options \<Rightarrow> filter_builder \<Rightarrow> sql \<Rightarrow> any_schema option \<Rightarrow> string \<times> sql_value \<Rightarrow> operation_context \<Rightarrow> sql option build" where
  "getSingleOperation opts rec column schema operation ctx =
     andThen (getFinalOperation opts column schema operation ctx) (\<lambda>final.
       case final of
         Some x \<Rightarrow> give (Some x)
       | None \<Rightarrow> andThen (rec [operation] schema (ctx\<lparr>oc_path := column\<rparr>)) (\<lambda>ops. give (combined ops)))"

definition getMultipleOperations ::
  "builder_options \<Rightarrow> sql \<Rightarrow> any_schema option \<Rightarrow> (string \<times> sql_value) list \<Rightarrow> operation_context \<Rightarrow> sql list build" where
  "getMultipleOperations opts column schema entries ctx =
     andThen (each (\<lambda>operation. getFinalOperation opts column schema operation ctx) entries) (\<lambda>ops. give (List.map_filter id ops))"

definition getNegateOperations :: "filter_builder \<Rightarrow> sql_value \<Rightarrow> any_schema option \<Rightarrow> operation_context \<Rightarrow> sql option build" where
  "getNegateOperations rec v schema ctx =
     (if \<not> any_object v then raise (InvalidOperandError None)
      else andThen (rec (own_entries v) schema ctx) (\<lambda>ops. give (map_option (\<lambda>x. T ''NOT '' @ x) (combined ops))))"

text \<open>A raw condition binds its values in the order of the calls and puts them into its template.\<close>

definition from_template :: "sql list \<Rightarrow> template \<Rightarrow> sql" where
  "from_template bound t = (case t of TemplateText s \<Rightarrow> T s | TemplateBind k \<Rightarrow> if k < length bound then bound ! k else T ''undefined'')"

definition build_condition ::
  "builder_options \<Rightarrow> (sql_value \<times> any_schema option) list \<Rightarrow> template list \<Rightarrow> operation_context \<Rightarrow> sql build" where
  "build_condition opts values template ctx =
     andThen (each (\<lambda>(v, s). getOperandValue opts s v ctx False) values) (\<lambda>bound.
       give (T ''('' @ concat (map (from_template bound) template) @ T '')''))"

definition logical_operations ::
  "builder_options \<Rightarrow> filter_builder \<Rightarrow> string \<Rightarrow> sql_value \<Rightarrow> any_schema option \<Rightarrow> operation_context \<Rightarrow> sql list build" where
  "logical_operations opts rec field v schema ctx =
     (case v of
        RawCondition values template \<Rightarrow> andThen (build_condition opts values template ctx) (\<lambda>x. give [x])
      | _ \<Rightarrow> andThen (rec (own_entries v) schema ctx) (\<lambda>ops.
          give (if field = ''AND'' then ops else if ops = [] then [] else [combineOperations ops])))"

definition getLogicalOperations ::
  "builder_options \<Rightarrow> filter_builder \<Rightarrow> string \<Rightarrow> sql_value \<Rightarrow> any_schema option \<Rightarrow> operation_context \<Rightarrow> sql option build" where
  "getLogicalOperations opts rec field v schema ctx =
     (case v of
        Items xs \<Rightarrow>
          andThen (each (\<lambda>x. logical_operations opts rec field x schema ctx) xs) (\<lambda>lists.
            give (if concat lists = [] then None
                  else Some (T ''('' @ joined ('' '' @ field @ '' '') (concat lists) @ T '')'')))
      | _ \<Rightarrow> raise (InvalidOperandError None))"

definition object_operation ::
  "builder_options \<Rightarrow> filter_builder \<Rightarrow> sql \<Rightarrow> sql \<Rightarrow> any_schema option \<Rightarrow> (string \<times> sql_value) list \<Rightarrow>
   operation_context \<Rightarrow> sql option build" where
  "object_operation opts rec columnName columnPath schema fs ctx =
     (let entries = filter (\<lambda>p. fst p \<noteq> ''insensitive'' \<and> fst p \<noteq> ''count'') fs;
          flagged = ctx\<lparr>oc_flags := Some \<lparr>insensitive = truthy_value (field_value fs ''insensitive''),
                                           of_count = truthy_value (field_value fs ''count'')\<rparr>\<rparr>
      in case entries of
           [] \<Rightarrow> raise (MissingOperatorError (render columnName))
         | [operation] \<Rightarrow> getSingleOperation opts rec columnPath schema operation flagged
         | _ \<Rightarrow> andThen
             (if schema \<noteq> None \<and> isNestedSchema (the schema) then rec entries schema (ctx\<lparr>oc_path := columnPath\<rparr>)
              else getMultipleOperations opts columnPath schema entries flagged)
             (\<lambda>ops. give (combined ops)))"

definition column_operation ::
  "builder_options \<Rightarrow> (sql_select \<Rightarrow> sql build) \<Rightarrow> filter_builder \<Rightarrow> sql \<Rightarrow> sql \<Rightarrow> any_schema option \<Rightarrow> sql_value \<Rightarrow>
   operation_context \<Rightarrow> sql option build" where
  "column_operation opts sub rec columnName columnPath schema v ctx =
     (case v of
        NullValue \<Rightarrow> give (Some (getIsNullOperation columnPath True))
      | SelectValue select \<Rightarrow> andThen (getExistsOperation sub select) (\<lambda>x. give (Some x))
      | _ \<Rightarrow>
          if written_by_caller v \<or> \<not> any_object v
          then andThen (getEqualOperation opts columnPath schema v ctx) (\<lambda>x. give (Some x))
          else object_operation opts rec columnName columnPath schema (own_entries v) ctx)"

definition getFieldOperation ::
  "builder_options \<Rightarrow> (sql_select \<Rightarrow> sql build) \<Rightarrow> filter_builder \<Rightarrow> string \<Rightarrow> sql_value \<Rightarrow> any_schema option \<Rightarrow>
   operation_context \<Rightarrow> sql option build" where
  "getFieldOperation opts sub rec field v schema ctx =
     (if field = ''AND'' \<or> field = ''OR'' then getLogicalOperations opts rec field v schema ctx
      else if field = ''NOT'' then getNegateOperations rec v schema ctx
      else let columnSchema = (case schema of None \<Rightarrow> None | Some s \<Rightarrow> getSchemaProperty s field);
               key = T (escapeSqlKey field);
               columnName = (if columnSchema \<noteq> None \<and> \<not> isNestedSchema (the columnSchema)
                             then mergeSqlJsonPath field (oc_path ctx) True key else mergeSqlPath field (oc_path ctx) key)
           in andThen (source_alias ctx) (\<lambda>a.
                column_operation opts sub rec columnName
                  (if oc_path ctx \<noteq> [] then columnName else mergeSqlAlias columnName a) columnSchema v ctx))"

definition filter_operations ::
  "builder_options \<Rightarrow> (sql_select \<Rightarrow> sql build) \<Rightarrow> filter_builder \<Rightarrow> filter_builder" where
  "filter_operations opts sub rec filters schema ctx =
     andThen (each (\<lambda>(field, v). getFieldOperation opts sub rec field v schema (ctx\<lparr>oc_field := Some field\<rparr>))
                (filter (\<lambda>p. given (snd p)) filters))
       (\<lambda>ops. give (List.map_filter id ops))"

primrec getFilterOperations :: "builder_options \<Rightarrow> (sql_select \<Rightarrow> sql build) \<Rightarrow> nat \<Rightarrow> filter_builder" where
  "getFilterOperations opts sub 0 = (\<lambda>filters schema ctx. raise StackOverflow)"
| "getFilterOperations opts sub (Suc stack) = filter_operations opts sub (getFilterOperations opts sub stack)"

text \<open>The conditions of a source. Without references the values are written into the text.\<close>

definition build_conditions ::
  "builder_options \<Rightarrow> (sql_select \<Rightarrow> sql build) \<Rightarrow> nat \<Rightarrow> bool \<Rightarrow> source_id option \<Rightarrow> any_schema option \<Rightarrow> filters \<Rightarrow> sql option build" where
  "build_conditions opts sub stack bound source schema filters =
     andThen (getFilterOperations opts sub stack filters schema
       \<lparr>oc_bound = bound, oc_source = source, oc_flags = None, oc_field = None, oc_path = []\<rparr>)
       (\<lambda>ops. give (if ops = [] then None else Some (joined '' AND '' ops)))"

fun isEmptyFilters :: "filters \<Rightarrow> bool" where
  "isEmptyFilters [] = True"
| "isEmptyFilters ((field, v) # fs) =
     ((case v of
         NoValue \<Rightarrow> True
       | Fields inner \<Rightarrow> field \<notin> set all_operators \<and> isEmptyFilters inner
       | _ \<Rightarrow> False) \<and> isEmptyFilters fs)"

text \<open>A clause with its keyword, when there are filters and they have a condition.\<close>

definition build_clause ::
  "string \<Rightarrow> builder_options \<Rightarrow> (sql_select \<Rightarrow> sql build) \<Rightarrow> nat \<Rightarrow> source_id \<Rightarrow> any_schema option \<Rightarrow> filters option \<Rightarrow> sql list build" where
  "build_clause keyword opts sub stack source schema filters =
     (case filters of
        None \<Rightarrow> give []
      | Some fs \<Rightarrow>
          if isEmptyFilters fs then give []
          else andThen (build_conditions opts sub stack True (Some source) schema fs) (\<lambda>clause.
            give (case clause of None \<Rightarrow> [] | Some x \<Rightarrow> [T keyword @ x])))"

end
