(* ===== verification/Sql_Statements.thy ===== *)
theory Sql_Statements
  imports Sql_Conditions
begin

text \<open>
  The statements of \<open>libraries/pgsql/src/statements\<close> (\<open>select.ts\<close>, \<open>insert.ts\<close>, \<open>update.ts\<close>,
  \<open>delete.ts\<close>) with their clauses (\<open>clauses/query\<close>), result columns (\<open>common/results.ts\<close>,
  \<open>common/json.ts\<close>, \<open>common/aggregate.ts\<close>) and helpers (\<open>helpers/select.ts\<close>, \<open>helpers/update.ts\<close>).
  \<open>sub\<close> builds a subquery and \<open>any\<close> a statement of a union, both one call deeper.
\<close>

type_synonym select_builder = "sql_select \<Rightarrow> sql build"

fun select_id :: "sql_select \<Rightarrow> source_id" where
  "select_id (SqlSelect s schema tables columns joins conds grouping having sorting skip limit lock) = s"

fun select_filters :: "sql_select \<Rightarrow> filters option" where
  "select_filters (SqlSelect s schema tables columns joins conds grouping having sorting skip limit lock) = conds"

text \<open>\<open>filters && !filters.empty\<close>\<close>

definition has_filters :: "sql_select \<Rightarrow> bool" where
  "has_filters select = (case select_filters select of None \<Rightarrow> False | Some fs \<Rightarrow> \<not> isEmptyFilters fs)"

text \<open>A subquery that is a column or a member of an object, with an alias of its own when it has filters.\<close>

definition build_scoped :: "select_builder \<Rightarrow> sql_select \<Rightarrow> sql build" where
  "build_scoped sub select =
     andThen (if has_filters select then andThen (getUniqueAlias ''S'') (\<lambda>a. give (Some a)) else give None) (\<lambda>a.
     andThen (set_alias (select_id select) a) (\<lambda>_. sub select))"

section \<open>Order and group\<close>

definition getOrderColumn :: "string \<Rightarrow> order_direction \<Rightarrow> string option \<Rightarrow> sql build" where
  "getOrderColumn column order a =
     (case order of
        Asc \<Rightarrow> give (mergeSqlAlias (T (escapeSqlName column)) a @ T '' ASC'')
      | Desc \<Rightarrow> give (mergeSqlAlias (T (escapeSqlName column)) a @ T '' DESC'')
      | OtherOrder \<Rightarrow> raise (InvalidColumnOrderError column))"

definition isAggregateColumn :: "sql_column list \<Rightarrow> string \<Rightarrow> bool" where
  "isAggregateColumn results column =
     list_ex (\<lambda>c. case c of AggregateColumn f col unique fs format a \<Rightarrow> a = Some column | _ \<Rightarrow> False) results"

definition empty_order :: "(string \<times> order_direction option) list \<Rightarrow> bool" where
  "empty_order columns = list_all (\<lambda>p. snd p = None) columns"

definition build_order ::
  "source_id \<Rightarrow> sql_column list \<Rightarrow> (string \<times> order_direction option) list \<Rightarrow> sql build" where
  "build_order source results columns =
     andThen (alias_now source) (\<lambda>a.
     andThen (each (\<lambda>(column, order). getOrderColumn column (the order) (if isAggregateColumn results column then None else a))
                (filter (\<lambda>p. snd p \<noteq> None) columns)) (\<lambda>cs.
     give (T ''ORDER BY '' @ joined '', '' cs)))"

definition order_clause ::
  "source_id \<Rightarrow> sql_column list \<Rightarrow> (string \<times> order_direction option) list option \<Rightarrow> sql list build" where
  "order_clause source results order =
     (case order of
        None \<Rightarrow> give []
      | Some columns \<Rightarrow> if empty_order columns then give [] else andThen (build_order source results columns) (\<lambda>x. give [x]))"

definition group_clause :: "source_id \<Rightarrow> string list option \<Rightarrow> sql list build" where
  "group_clause source grouping =
     (case grouping of
        None \<Rightarrow> give []
      | Some [] \<Rightarrow> give [[]]
      | Some columns \<Rightarrow> andThen (alias_now source) (\<lambda>a.
          give [T ''GROUP BY '' @ joined '', '' (map (\<lambda>c. mergeSqlAlias (T (escapeSqlName c)) a) columns)]))"

section \<open>Result columns\<close>

text \<open>An entry of a list that is joined: nothing of a missing value.\<close>

definition entry_text :: "builder_options \<Rightarrow> sql_value \<Rightarrow> string" where
  "entry_text opts v = (case v of NoValue \<Rightarrow> [] | NullValue \<Rightarrow> [] | _ \<Rightarrow> value_text opts v)"

type_synonym json_builder = "(string \<times> json_field) list \<Rightarrow> sql \<Rightarrow> string option \<Rightarrow> sql build"

definition json_entry ::
  "builder_options \<Rightarrow> select_builder \<Rightarrow> json_builder \<Rightarrow> bool \<Rightarrow> sql \<Rightarrow> string option \<Rightarrow> string \<times> json_field \<Rightarrow> sql list build" where
  "json_entry opts sub rec raw parent a entry =
     (case entry of (field, v) \<Rightarrow>
        let key = T (escapeSqlKey field);
            columnName = (if raw then mergeSqlJsonPath field parent False key else mergeSqlPath field parent key);
            named = (\<lambda>x. [key @ T '', '' @ x])
        in case v of
             JsonOff \<Rightarrow> give []
           | JsonRaw r \<Rightarrow> give (named (T (value_text opts (build_raw r None))))
           | JsonReference s c own \<Rightarrow> andThen (column_reference s c own) (\<lambda>x. give (named x))
           | JsonSelect select \<Rightarrow> andThen (build_scoped sub select) (\<lambda>x. give (named (T ''('' @ x @ T '')'')))
           | JsonOn \<Rightarrow> give (named (mergeSqlAlias columnName a))
           | JsonObject columnNames \<Rightarrow> andThen (rec columnNames columnName a) (\<lambda>x. give (named x)))"

primrec getJsonObject :: "builder_options \<Rightarrow> select_builder \<Rightarrow> bool \<Rightarrow> nat \<Rightarrow> json_builder" where
  "getJsonObject opts sub raw 0 = (\<lambda>record parent a. raise StackOverflow)"
| "getJsonObject opts sub raw (Suc stack) = (\<lambda>record parent a.
     andThen (each (json_entry opts sub (getJsonObject opts sub raw stack) raw parent a) record) (\<lambda>columnNames.
       give (T ((if raw then ''json'' else ''jsonb'') @ ''_build_object('') @ joined '', '' (concat columnNames) @ T '')'')))"

definition getJsonArray :: "source_id \<Rightarrow> sql_column list \<Rightarrow> sql \<Rightarrow> (string \<times> order_direction option) list option \<Rightarrow> sql build" where
  "getJsonArray source results v order =
     andThen (order_clause source results order) (\<lambda>clause.
       give (T ''COALESCE(json_agg('' @ joined '' '' (v # clause) @ T (''), '' @ escapeSqlText ''[]'' @ ''::json)'')))"

definition build_json_column ::
  "builder_options \<Rightarrow> select_builder \<Rightarrow> nat \<Rightarrow> source_id \<Rightarrow> sql_column list \<Rightarrow> (string \<times> json_field) list \<Rightarrow>
   (string \<times> order_direction option) list option \<Rightarrow> bool \<Rightarrow> string option \<Rightarrow> string option \<Rightarrow> bool \<Rightarrow> sql build" where
  "build_json_column opts sub stack source results record order aggregate column own raw =
     andThen (alias_now source) (\<lambda>a.
     andThen (getJsonObject opts sub raw stack record
                (case truthy_name column of None \<Rightarrow> [] | Some c \<Rightarrow> T (escapeSqlName c)) a) (\<lambda>object.
     andThen (if aggregate then getJsonArray source results object order else give object) (\<lambda>x.
     give (as_alias x (case own of None \<Rightarrow> column | Some n \<Rightarrow> Some n)))))"

fun function_name :: "aggregate_function \<Rightarrow> string" where
  "function_name Count = ''COUNT''"
| "function_name SumOf = ''SUM''"
| "function_name MinOf = ''MIN''"
| "function_name MaxOf = ''MAX''"

definition build_aggregate ::
  "builder_options \<Rightarrow> select_builder \<Rightarrow> nat \<Rightarrow> source_id \<Rightarrow> any_schema option \<Rightarrow> aggregate_function \<Rightarrow> string option \<Rightarrow> bool \<Rightarrow>
   filters option \<Rightarrow> (string \<times> string) option \<Rightarrow> string option \<Rightarrow> sql build" where
  "build_aggregate opts sub stack source schema f column unique filters format own =
     andThen (alias_now source) (\<lambda>a.
     let columnName = (case truthy_name column of None \<Rightarrow> T ''*'' | Some c \<Rightarrow> mergeSqlAlias (T (escapeSqlName c)) a);
         expression = T (function_name f @ ''('' @ (if unique then ''DISTINCT '' else [])) @ columnName @ T '')''
     in andThen (case filters of
                   None \<Rightarrow> give expression
                 | Some fs \<Rightarrow> andThen (build_conditions opts sub stack True (Some source) schema fs) (\<lambda>clause.
                     give (case clause of None \<Rightarrow> expression | Some x \<Rightarrow> expression @ T '' FILTER (WHERE '' @ x @ T '')''))) (\<lambda>x.
        give (as_alias (case format of None \<Rightarrow> x | Some (front, behind) \<Rightarrow> T front @ x @ T behind) own)))"

definition result_column ::
  "builder_options \<Rightarrow> select_builder \<Rightarrow> nat \<Rightarrow> source_id \<Rightarrow> any_schema option \<Rightarrow> sql_column list \<Rightarrow> sql_column \<Rightarrow> sql build" where
  "result_column opts sub stack source schema results column =
     (case column of
        ReferenceResult s c own \<Rightarrow> column_reference s c own
      | RawResult r \<Rightarrow> andThen (alias_now source) (\<lambda>a. give (T (entry_text opts (build_raw r a))))
      | RawColumn r own \<Rightarrow> andThen (alias_now source) (\<lambda>a. give
          (if truthy_name own = None then T (entry_text opts (build_raw r a)) else as_alias (T (value_text opts (build_raw r a))) own))
      | AggregateColumn f col unique filters format own \<Rightarrow>
          build_aggregate opts sub stack source schema f col unique filters format own
      | JsonColumn record order aggregate col own raw \<Rightarrow>
          build_json_column opts sub stack source results record order aggregate col own raw
      | SelectResult select \<Rightarrow> andThen (alias_now (select_id select)) (\<lambda>own.
          case truthy_name own of
            None \<Rightarrow> raise MissingColumnAliasError
          | Some n \<Rightarrow> andThen (build_scoped sub select) (\<lambda>x. give (T ''('' @ x @ T '') AS '' @ T (escapeSqlName n))))
      | PlainColumn n \<Rightarrow> andThen (alias_now source) (\<lambda>a. give (mergeSqlAlias (T (escapeSqlName n)) a))
      | AliasedColumn n own \<Rightarrow> andThen (alias_now source) (\<lambda>a.
          give (mergeSqlAlias (T (escapeSqlName n)) a @
            (if escapeSqlName n \<noteq> escapeSqlName own then T '' AS '' @ T (escapeSqlName own) else []))))"

definition getResultColumns ::
  "builder_options \<Rightarrow> select_builder \<Rightarrow> nat \<Rightarrow> source_id \<Rightarrow> any_schema option \<Rightarrow> sql_column list \<Rightarrow> sql build" where
  "getResultColumns opts sub stack source schema columns =
     andThen (each (result_column opts sub stack source schema columns) columns) (\<lambda>cs. give (joined '', '' cs))"

text \<open>
  The columns of a record of results, when the record is given. A subquery takes the name of
  its column as its alias.
\<close>

datatype result_field =
    NoResult
  | SameName
  | OtherName string
  | RawField raw_value
  | ReferenceField source_id reference_column "string option"
  | SelectField sql_select
  | ObjectField "(string \<times> json_field) list"

definition record_column :: "string \<times> result_field \<Rightarrow> sql_column list build" where
  "record_column entry =
     (case entry of (column, v) \<Rightarrow>
        (case v of
           NoResult \<Rightarrow> give []
         | SameName \<Rightarrow> give [PlainColumn column]
         | OtherName own \<Rightarrow> give [AliasedColumn column own]
         | RawField r \<Rightarrow> give [RawResult r]
         | ReferenceField s c own \<Rightarrow> give [ReferenceResult s c own]
         | SelectField select \<Rightarrow> andThen (set_alias (select_id select) (Some column)) (\<lambda>_. give [SelectResult select])
         | ObjectField record \<Rightarrow> give [JsonColumn record None False (Some column) None False]))"

definition getRecordColumns :: "(string \<times> result_field) list \<Rightarrow> sql_column list build" where
  "getRecordColumns record = andThen (each record_column record) (\<lambda>columns. give (concat columns))"

definition returning_clause ::
  "builder_options \<Rightarrow> select_builder \<Rightarrow> nat \<Rightarrow> source_id \<Rightarrow> any_schema option \<Rightarrow> sql_column list option \<Rightarrow> sql list build" where
  "returning_clause opts sub stack source schema returning =
     (case returning of
        None \<Rightarrow> give []
      | Some [] \<Rightarrow> give []
      | Some columns \<Rightarrow> andThen (getResultColumns opts sub stack source schema columns) (\<lambda>x. give [T ''RETURNING '' @ x]))"

section \<open>Tables and joins\<close>

definition build_union :: "(sql_statement \<Rightarrow> sql build) \<Rightarrow> sql_statement list \<Rightarrow> sql build" where
  "build_union any sources =
     (if sources = [] then raise NoStatementsError
      else andThen (each any sources) (\<lambda>queries. give (joined '' UNION ALL '' queries)))"

text \<open>\<open>plain\<close> tells that the source is a select statement, which names no table of its own when it has an alias.\<close>

definition table_expression ::
  "builder_options \<Rightarrow> select_builder \<Rightarrow> (sql_statement \<Rightarrow> sql build) \<Rightarrow> source_id \<Rightarrow> bool \<Rightarrow> sql_table \<Rightarrow> sql build" where
  "table_expression opts sub any source plain table =
     (case table of
        TableRaw r \<Rightarrow> give (T (entry_text opts (build_raw r None)))
      | TableReference s \<Rightarrow> table_reference s
      | TableName n \<Rightarrow> give (T (escapeSqlName n))
      | TableUnion sources \<Rightarrow> andThen (build_union any sources) (\<lambda>x. andThen (alias_now source) (\<lambda>a.
          if plain \<and> truthy_name a = None
          then andThen (getUniqueAlias ''U'') (\<lambda>u. give (T ''('' @ x @ T '') AS '' @ T (escapeSqlName u)))
          else give (T ''('' @ x @ T '')'')))
      | TableSelect select \<Rightarrow> andThen (getUniqueAlias ''S'') (\<lambda>temporary. andThen (alias_now (select_id select)) (\<lambda>own.
          andThen (set_alias (select_id select) (Some temporary)) (\<lambda>_. andThen (sub select) (\<lambda>x. andThen (alias_now source) (\<lambda>a.
          if \<not> plain \<or> truthy_name a = None
          then give (T ''('' @ x @ T '') AS '' @ T (escapeSqlName (case own of None \<Rightarrow> temporary | Some n \<Rightarrow> n)))
          else give (T ''('' @ x @ T '')'')))))))"

definition getSelectExpressions ::
  "builder_options \<Rightarrow> select_builder \<Rightarrow> (sql_statement \<Rightarrow> sql build) \<Rightarrow> source_id \<Rightarrow> bool \<Rightarrow> sql_table list \<Rightarrow> sql list build" where
  "getSelectExpressions opts sub any source plain tables = each (table_expression opts sub any source plain) tables"

definition alias_clause :: "source_id \<Rightarrow> sql list build" where
  "alias_clause source = andThen (alias_now source) (\<lambda>a.
     give (case truthy_name a of None \<Rightarrow> [] | Some n \<Rightarrow> [T (''AS '' @ escapeSqlName n)]))"

fun join_name :: "join_type \<Rightarrow> string" where
  "join_name FullJoin = ''FULL''"
| "join_name InnerJoin = ''INNER''"
| "join_name LeftJoin = ''LEFT''"
| "join_name RightJoin = ''RIGHT''"
| "join_name CrossJoin = ''CROSS''"

fun build_join :: "builder_options \<Rightarrow> select_builder \<Rightarrow> nat \<Rightarrow> sql_join \<Rightarrow> sql build" where
  "build_join opts sub stack (SqlJoin source schema table kind natural on) =
     andThen (case table of Inl n \<Rightarrow> give (T (escapeSqlName n)) | Inr s \<Rightarrow> table_reference s) (\<lambda>name.
     andThen (alias_clause source) (\<lambda>own.
     andThen (if natural \<or> kind = CrossJoin then give []
              else case on of
                     None \<Rightarrow> give [T ''ON'', T ''TRUE'']
                   | Some fs \<Rightarrow> andThen (build_conditions opts sub stack True (Some source) schema fs) (\<lambda>clause.
                       give [T ''ON'', case clause of None \<Rightarrow> T ''TRUE'' | Some x \<Rightarrow> x])) (\<lambda>condition.
     give (joined '' '' ((if natural then [T ''NATURAL''] else []) @ [T (join_name kind), T ''JOIN'', name] @ own @ condition)))))"

section \<open>Select\<close>

definition number_clause :: "builder_options \<Rightarrow> string \<Rightarrow> js_number option \<Rightarrow> sql list" where
  "number_clause opts keyword amount =
     (case amount of None \<Rightarrow> [] | Some n \<Rightarrow> if n = NaN then [] else [T (keyword @ textOf opts (NumberValue n))])"

fun build_select :: "builder_options \<Rightarrow> select_builder \<Rightarrow> (sql_statement \<Rightarrow> sql build) \<Rightarrow> nat \<Rightarrow> sql_select \<Rightarrow> sql build" where
  "build_select opts sub any stack (SqlSelect source schema tables columns joins conds grouping having sorting skip limit lock) =
     andThen (alias_clause source) (\<lambda>own.
     andThen (getResultColumns opts sub stack source schema columns) (\<lambda>cs.
     andThen (if tables = [] then give []
              else andThen (getSelectExpressions opts sub any source True tables) (\<lambda>ts. give [T ''FROM'', joined '', '' ts])) (\<lambda>from.
     andThen (each (build_join opts sub stack) joins) (\<lambda>js.
     andThen (build_clause ''WHERE '' opts sub stack source schema conds) (\<lambda>wh.
     andThen (group_clause source grouping) (\<lambda>gr.
     andThen (build_clause ''HAVING '' opts sub stack source schema having) (\<lambda>hav.
     andThen (order_clause source columns sorting) (\<lambda>ord.
     give (joined '' '' ([T ''SELECT''] @ (if render cs = [] then [] else [cs]) @ from @ own @ js @ wh @ gr @ hav @ ord @
       number_clause opts ''OFFSET '' skip @ number_clause opts ''LIMIT '' limit @
       (if lock then [T ''FOR UPDATE''] else [])))))))))))"

section \<open>Update columns\<close>

record update_context =
  uc_coalesce :: bool
  uc_parent :: sql
  uc_depth :: nat

definition json_key_schema :: any_schema where
  "json_key_schema = StringSchema plain_info
     \<lparr>def_custom = False, def_types = None, str_minLength = None, str_maxLength = None, trim = False, lower = False, upper = False,
      pattern = None, str_default = None, str_value = None, str_name = None\<rparr> None"

definition bindJsonKey :: "builder_options \<Rightarrow> string \<Rightarrow> sql build" where
  "bindJsonKey opts key = bind_variable opts (TextValue key) (Some json_key_schema) None"

definition isJsonRemoveOperator :: "string \<Rightarrow> bool" where
  "isJsonRemoveOperator operand = (take 2 operand = ''#-'')"

definition isDynamicObjectColumn :: "any_schema \<Rightarrow> bool" where
  "isDynamicObjectColumn s = (isNullishSchema s \<or> isObjectSchema s \<and> isDynamicObjectSchema s)"

definition update_operand :: "any_schema option \<Rightarrow> string \<Rightarrow> sql \<Rightarrow> sql build" where
  "update_operand schema fieldName expression =
     (case schema of
        Some (NumberSchema i d format) \<Rightarrow> give (cast_to (if format = Some ''integer'' then ''int'' else ''dec'') expression)
      | _ \<Rightarrow> raise (InvalidAtomicOperation fieldName))"

definition getOperandCoalesce :: "builder_options \<Rightarrow> any_schema option \<Rightarrow> sql \<Rightarrow> sql" where
  "getOperandCoalesce opts schema column =
     (case schema of
        Some (NumberSchema i d format) \<Rightarrow>
          let dflt = (case num_value d of Some n \<Rightarrow> n | None \<Rightarrow> (case num_default d of Some n \<Rightarrow> n | None \<Rightarrow>
                        (case minValue d of Some n \<Rightarrow> n | None \<Rightarrow> Fin 0)))
          in T ''COALESCE('' @ column @ T ('', '' @ [CHR 39] @ textOf opts (NumberValue dflt) @ [CHR 39] @ '')'')
      | _ \<Rightarrow> column)"

text \<open>A column of the update, or the key and the value of a member when the update is inside an object.\<close>

definition push_update :: "update_context \<Rightarrow> string \<Rightarrow> sql \<Rightarrow> sql \<Rightarrow> sql" where
  "push_update uc fieldName key x =
     (if uc_depth uc \<le> 1 \<and> \<not> uc_coalesce uc then mergeSqlPath fieldName (uc_parent uc) key @ T '' = '' @ x
      else key @ T '', '' @ x)"

type_synonym update_builder = "sql_record \<Rightarrow> any_schema option \<Rightarrow> update_context \<Rightarrow> sql list build"

definition object_schema :: "any_schema option \<Rightarrow> any_schema option" where
  "object_schema schema = (case schema of None \<Rightarrow> None | Some s \<Rightarrow> if isObjectSchema s \<or> isUnionSchema s then Some s else None)"

text \<open>The tokens of the value of an object: what is left of the column, then what is added to it.\<close>

definition update_expression :: "bool \<Rightarrow> nat \<Rightarrow> sql \<Rightarrow> sql list \<Rightarrow> sql list \<Rightarrow> sql list" where
  "update_expression mustCombine depth columnPath removals additions =
     (if mustCombine then (T ''COALESCE('' @ columnPath @ T ('', '' @ escapeSqlText ''{}'' @ ''::jsonb)'')) # removals
      else if removals \<noteq> [] \<or> depth > 0 then columnPath # removals else []) @
     (if additions \<noteq> [] \<and> (mustCombine \<or> depth > 0)
      then [T ''|| jsonb_build_object('' @ joined '', '' additions @ T '')''] else [])"

definition update_object ::
  "update_builder \<Rightarrow> source_id \<Rightarrow> string \<Rightarrow> sql \<Rightarrow> sql_record \<Rightarrow> any_schema option \<Rightarrow> update_context \<Rightarrow> sql list build" where
  "update_object rec source fieldName key fs schema uc =
     (let inner = object_schema schema;
          mustCombine = (uc_coalesce uc \<or> schema = None \<or> inner \<noteq> None \<and> isDynamicObjectColumn (the inner));
          columnName = mergeSqlPath fieldName (uc_parent uc) key
      in andThen (alias_now source) (\<lambda>a. andThen (rec fs inner
           \<lparr>uc_coalesce = mustCombine, uc_parent = columnName, uc_depth = Suc (uc_depth uc)\<rparr>) (\<lambda>values.
           let removals = filter (\<lambda>x. isJsonRemoveOperator (render x)) values;
               additions = filter (\<lambda>x. \<not> isJsonRemoveOperator (render x)) values;
               expression = update_expression mustCombine (uc_depth uc) (mergeSqlAlias columnName a) removals additions
           in give ((if expression \<noteq> [] then [push_update uc fieldName key (joined '' '' expression)] else []) @
                    (if \<not> mustCombine \<and> uc_depth uc = 0 then additions else [])))))"

definition update_value ::
  "builder_options \<Rightarrow> source_id \<Rightarrow> string \<Rightarrow> sql \<Rightarrow> sql_value \<Rightarrow> any_schema option \<Rightarrow> update_context \<Rightarrow> sql list build" where
  "update_value opts source fieldName key v schema uc =
     andThen (alias_now source) (\<lambda>a.
     let json = (uc_parent uc \<noteq> []) in
     case v of
       RawOperation operator r \<Rightarrow>
         let columnPath = mergeSqlAlias (mergeSqlJsonPath fieldName (uc_parent uc) True key) a
         in andThen (bind_variable opts (build_raw r a) schema (Some json)) (\<lambda>x.
            if \<not> json then give [push_update uc fieldName key (T ''('' @ columnPath @ T ('' '' @ operator @ '' '') @ x @ T '')'')]
            else andThen (update_operand schema fieldName (if uc_coalesce uc then getOperandCoalesce opts schema columnPath else columnPath)) (\<lambda>l.
                 andThen (update_operand schema fieldName x) (\<lambda>r.
                 give [push_update uc fieldName key (T ''('' @ l @ T ('' '' @ operator @ '' '') @ r @ T '')::text::jsonb'')])))
     | _ \<Rightarrow> andThen (bind_variable opts (case v of RawValue r \<Rightarrow> build_raw r a | _ \<Rightarrow> v) schema (Some json)) (\<lambda>x.
         give [push_update uc fieldName key x]))"

definition update_field ::
  "builder_options \<Rightarrow> select_builder \<Rightarrow> update_builder \<Rightarrow> source_id \<Rightarrow> any_schema option \<Rightarrow> update_context \<Rightarrow> string \<times> sql_value \<Rightarrow> sql list build" where
  "update_field opts sub rec source schema uc field =
     (case field of (fieldName, v) \<Rightarrow>
        let removal = (case v of RawOperation operator r \<Rightarrow> if isJsonRemoveOperator operator then Some (operator, r) else None | _ \<Rightarrow> None);
            json = (uc_parent uc \<noteq> []);
            fieldSchema = (case schema of None \<Rightarrow> None | Some s \<Rightarrow> getSchemaProperty s fieldName)
        in case removal of
             Some (operator, r) \<Rightarrow>
               andThen (bindJsonKey opts (value_text opts (build_raw r None))) (\<lambda>x. give [T (operator @ '' '') @ x @ T ''::text[]''])
           | None \<Rightarrow>
               andThen (if json then bindJsonKey opts fieldName else give []) (\<lambda>key.
               case v of
                 ColumnReference s c own \<Rightarrow> andThen (column_reference s c own) (\<lambda>x. give [push_update uc fieldName key x])
               | SelectValue select \<Rightarrow> andThen (sub select) (\<lambda>x. give [push_update uc fieldName key (T ''('' @ x @ T '')'')])
               | Fields fs \<Rightarrow> update_object rec source fieldName key fs fieldSchema uc
               | NullValue \<Rightarrow> if json then update_value opts source fieldName key v fieldSchema uc
                              else give [push_update uc fieldName key (T ''null'')]
               | _ \<Rightarrow> update_value opts source fieldName key v fieldSchema uc))"

primrec getUpdateColumns :: "builder_options \<Rightarrow> select_builder \<Rightarrow> source_id \<Rightarrow> nat \<Rightarrow> update_builder" where
  "getUpdateColumns opts sub source 0 = (\<lambda>record schema uc. raise StackOverflow)"
| "getUpdateColumns opts sub source (Suc stack) = (\<lambda>record schema uc.
     andThen (each (update_field opts sub (getUpdateColumns opts sub source stack) source schema uc) (filter (\<lambda>p. given (snd p)) record))
       (\<lambda>columns. give (concat columns)))"

definition top_update :: update_context where
  "top_update = \<lparr>uc_coalesce = False, uc_parent = [], uc_depth = 0\<rparr>"

section \<open>Insert, update and delete\<close>

definition getValueReference ::
  "builder_options \<Rightarrow> select_builder \<Rightarrow> source_id \<Rightarrow> any_schema option \<Rightarrow> sql_record \<Rightarrow> string \<Rightarrow> sql build" where
  "getValueReference opts sub source schema record fieldName =
     (let fieldSchema = (case schema of Some (ObjectSchema i d identity properties additional) \<Rightarrow> obj_get properties fieldName | _ \<Rightarrow> None)
      in case field_value record fieldName of
           NoValue \<Rightarrow> give (T ''DEFAULT'')
         | NullValue \<Rightarrow> give (T ''null'')
         | ColumnReference s c own \<Rightarrow> column_reference s c own
         | SelectValue select \<Rightarrow> andThen (sub select) (\<lambda>x. give (T ''('' @ x @ T '')''))
         | RawValue r \<Rightarrow> andThen (alias_now source) (\<lambda>a. bind_variable opts (build_raw r a) fieldSchema (Some False))
         | v \<Rightarrow> bind_variable opts v fieldSchema (Some False))"

definition getValueReferences ::
  "builder_options \<Rightarrow> select_builder \<Rightarrow> source_id \<Rightarrow> any_schema option \<Rightarrow> sql_record \<Rightarrow> string list \<Rightarrow> sql build" where
  "getValueReferences opts sub source schema record columnNames =
     andThen (each (getValueReference opts sub source schema record) columnNames) (\<lambda>xs. give (joined '', '' xs))"

definition insert_fields :: "sql_record list \<Rightarrow> string list" where
  "insert_fields records = set_of_list (concat (map getFields records))"

fun build_conflict ::
  "builder_options \<Rightarrow> select_builder \<Rightarrow> nat \<Rightarrow> source_id \<Rightarrow> any_schema option \<Rightarrow> sql_conflict \<Rightarrow> sql build" where
  "build_conflict opts sub stack source schema (SqlConflict columns record conds) =
     (let target = T (case columns of None \<Rightarrow> ''ON CONFLICT DO'' | Some cs \<Rightarrow> ''ON CONFLICT ('' @ escapeSqlNames cs @ '') DO'')
      in andThen (case record of None \<Rightarrow> give [] | Some r \<Rightarrow> getUpdateColumns opts sub source stack r schema top_update) (\<lambda>updates.
         if updates = [] then give (joined '' '' [target, T ''NOTHING''])
         else if columns = None then raise MissingConflictTargetError
         else andThen (build_clause ''WHERE '' opts sub stack source schema conds) (\<lambda>wh.
           give (joined '' '' ([target, T ''UPDATE SET '' @ joined '', '' updates] @ wh)))))"

definition conflict_clause ::
  "builder_options \<Rightarrow> select_builder \<Rightarrow> nat \<Rightarrow> source_id \<Rightarrow> any_schema option \<Rightarrow> sql_conflict option \<Rightarrow> sql list build" where
  "conflict_clause opts sub stack source schema conflict =
     (case conflict of
        None \<Rightarrow> give []
      | Some (SqlConflict (Some []) record conds) \<Rightarrow> give []
      | Some c \<Rightarrow> andThen (build_conflict opts sub stack source schema c) (\<lambda>x. give [x]))"

text \<open>The rows of an insert: selected from other tables, or its values.\<close>

definition insert_rows ::
  "builder_options \<Rightarrow> select_builder \<Rightarrow> (sql_statement \<Rightarrow> sql build) \<Rightarrow> nat \<Rightarrow> source_id \<Rightarrow> any_schema option \<Rightarrow> sql_table list option \<Rightarrow>
   sql_record list \<Rightarrow> filters option \<Rightarrow> string list \<Rightarrow> sql list build" where
  "insert_rows opts sub any stack source schema sources records conds columnNames =
     (case sources of
        Some tables \<Rightarrow>
          if length records > 1 then raise MultipleRecordsError
          else andThen (getValueReferences opts sub source schema (case records of [] \<Rightarrow> [] | r # _ \<Rightarrow> r) columnNames) (\<lambda>values.
               andThen (getSelectExpressions opts sub any source False tables) (\<lambda>ts.
               andThen (build_clause ''WHERE '' opts sub stack source schema conds) (\<lambda>wh.
               give ([T ''SELECT'', values] @ (if ts = [] then [] else [T ''FROM'', joined '', '' ts]) @ wh))))
      | None \<Rightarrow>
          andThen (if columnNames = [] then give []
                   else andThen (each (\<lambda>r. andThen (getValueReferences opts sub source schema r columnNames) (\<lambda>x.
                          give (T ''('' @ x @ T '')''))) records) (\<lambda>rows. give [joined '', '' rows])) (\<lambda>rows.
          if conds \<noteq> None then raise InvalidWhereClauseError else give ([T ''VALUES''] @ rows)))"

definition build_insert ::
  "builder_options \<Rightarrow> select_builder \<Rightarrow> (sql_statement \<Rightarrow> sql build) \<Rightarrow> nat \<Rightarrow> source_id \<Rightarrow> any_schema option \<Rightarrow> string option \<Rightarrow>
   sql_table list option \<Rightarrow> sql_record list \<Rightarrow> filters option \<Rightarrow> sql_conflict option \<Rightarrow> sql_column list option \<Rightarrow> sql build" where
  "build_insert opts sub any stack source schema table sources records conds conflict returning =
     (case truthy_name table of
        None \<Rightarrow> raise MissingTableNameError
      | Some name \<Rightarrow>
          let columnNames = insert_fields records
          in andThen (alias_clause source) (\<lambda>own.
             if length records > 1 \<and> columnNames = [] then raise EmptyRecordError
             else andThen (insert_rows opts sub any stack source schema sources records conds columnNames) (\<lambda>rows.
                  andThen (conflict_clause opts sub stack source schema conflict) (\<lambda>cf.
                  andThen (returning_clause opts sub stack source schema returning) (\<lambda>ret.
                  give (joined '' '' ([T ''INSERT'', T ''INTO'', T (escapeSqlName name)] @ own @
                    [if columnNames = [] then T ''DEFAULT'' else T (''('' @ escapeSqlNames columnNames @ '')'')] @ rows @ cf @ ret)))))))"

definition build_update ::
  "builder_options \<Rightarrow> select_builder \<Rightarrow> (sql_statement \<Rightarrow> sql build) \<Rightarrow> nat \<Rightarrow> source_id \<Rightarrow> any_schema option \<Rightarrow> string option \<Rightarrow>
   sql_table option \<Rightarrow> sql_record option \<Rightarrow> filters option \<Rightarrow> sql_column list option \<Rightarrow> sql build" where
  "build_update opts sub any stack source schema table from record conds returning =
     (case truthy_name table of
        None \<Rightarrow> raise MissingTableNameError
      | Some name \<Rightarrow> andThen (alias_clause source) (\<lambda>own.
          case record of
            None \<Rightarrow> raise MissingRecordError
          | Some fs \<Rightarrow> andThen (getUpdateColumns opts sub source stack fs schema top_update) (\<lambda>columns.
              if columns = [] then raise EmptyRecordError
              else andThen (case from of
                              None \<Rightarrow> give []
                            | Some t \<Rightarrow> andThen (table_expression opts sub any source False t) (\<lambda>x. give [T ''FROM'', x])) (\<lambda>tables.
                   andThen (build_clause ''WHERE '' opts sub stack source schema conds) (\<lambda>wh.
                   andThen (returning_clause opts sub stack source schema returning) (\<lambda>ret.
                   give (joined '' '' ([T ''UPDATE'', T ''ONLY'', T (escapeSqlName name)] @ own @ [T ''SET'', joined '', '' columns] @
                     tables @ wh @ ret))))))))"

definition build_delete ::
  "builder_options \<Rightarrow> select_builder \<Rightarrow> nat \<Rightarrow> source_id \<Rightarrow> any_schema option \<Rightarrow> string option \<Rightarrow> filters option \<Rightarrow> sql_column list option \<Rightarrow> sql build" where
  "build_delete opts sub stack source schema table conds returning =
     (case truthy_name table of
        None \<Rightarrow> raise MissingTableNameError
      | Some name \<Rightarrow> andThen (alias_clause source) (\<lambda>own.
          andThen (build_clause ''WHERE '' opts sub stack source schema conds) (\<lambda>wh.
          andThen (returning_clause opts sub stack source schema returning) (\<lambda>ret.
          give (joined '' '' ([T ''DELETE FROM '' @ T (escapeSqlName name)] @ own @ wh @ ret))))))"

primrec build :: "builder_options \<Rightarrow> nat \<Rightarrow> sql_statement \<Rightarrow> sql build" where
  "build opts 0 = (\<lambda>statement. raise StackOverflow)"
| "build opts (Suc stack) = (\<lambda>statement.
     let sub = (\<lambda>select. build opts stack (SelectStatement select)); any = build opts stack
     in case statement of
          SelectStatement select \<Rightarrow> build_select opts sub any stack select
        | InsertStatement source schema table sources records conds conflict returning \<Rightarrow>
            build_insert opts sub any stack source schema table sources records conds conflict returning
        | UpdateStatement source schema table from record conds returning \<Rightarrow>
            build_update opts sub any stack source schema table from record conds returning
        | DeleteStatement source schema table conds returning \<Rightarrow>
            build_delete opts sub stack source schema table conds returning)"

section \<open>With\<close>

fun source_of :: "sql_statement \<Rightarrow> source_id" where
  "source_of (SelectStatement select) = select_id select"
| "source_of (InsertStatement source schema table sources records conds conflict returning) = source"
| "source_of (UpdateStatement source schema table from record conds returning) = source"
| "source_of (DeleteStatement source schema table conds returning) = source"

text \<open>
  The queries in order. A query takes the alias it is known by when the next one is built; the last
  statement of the list is the query itself, wherever it occurs.
\<close>

fun getQueries :: "(sql_statement \<Rightarrow> sql build) \<Rightarrow> string \<Rightarrow> source_id \<Rightarrow> (source_id \<times> string) option \<Rightarrow> sql_statement list \<Rightarrow> sql list build" where
  "getQueries any a final previous [] = give []"
| "getQueries any a final previous (s # ss) =
     andThen (case previous of None \<Rightarrow> give () | Some (p, n) \<Rightarrow> set_alias p (Some n)) (\<lambda>_.
     andThen (any s) (\<lambda>x.
     if source_of s = final then andThen (getQueries any a final previous ss) (\<lambda>xs. give (x # xs))
     else andThen (getUniqueAlias a) (\<lambda>n.
          andThen (getQueries any a final (Some (source_of s, n)) ss) (\<lambda>xs.
          give ((T (escapeSqlName n @ '' AS ('') @ x @ T '')'') # xs)))))"

definition build_with :: "builder_options \<Rightarrow> nat \<Rightarrow> string option \<Rightarrow> sql_statement list \<Rightarrow> sql build" where
  "build_with opts stack own sources =
     (case sources of
        [] \<Rightarrow> raise NoStatementsError
      | [s] \<Rightarrow> build opts stack s
      | _ \<Rightarrow> andThen (getQueries (build opts stack) (case truthy_name own of None \<Rightarrow> ''Q'' | Some n \<Rightarrow> n) (source_of (last sources)) None sources)
          (\<lambda>queries. give (joined '' '' ([T ''WITH''] @ (if butlast queries = [] then [] else [joined '', '' (butlast queries)]) @
            drop (length queries - 1) queries))))"

definition new_references :: builder_references where
  "new_references = \<lparr>counter = 0, aliases = [], alias_of = (\<lambda>s. None)\<rparr>"

end
