(* ===== verification/Sql_Binding.thy ===== *)
theory Sql_Binding
  imports Sql_Statements
begin

text \<open>
  The placeholders of a built statement and its variables: every placeholder stands for the variable
  at its index. The contract of one step is \<open>binding\<close>; it holds of every operation of the builder,
  so it holds of the statements they compose.
\<close>

section \<open>The contract of a step\<close>

definition inside :: "(nat \<times> sql_value) set \<Rightarrow> sql \<Rightarrow> bool" where
  "inside B x = (binds x \<subseteq> B)"

abbreviation all_inside :: "(nat \<times> sql_value) set \<Rightarrow> sql list \<Rightarrow> bool" where
  "all_inside B xs \<equiv> (\<forall>x \<in> set xs. inside B x)"

abbreviation some_inside :: "(nat \<times> sql_value) set \<Rightarrow> sql option \<Rightarrow> bool" where
  "some_inside B x \<equiv> (\<forall>y \<in> set_option x. inside B y)"

abbreviation any_result :: "(nat \<times> sql_value) set \<Rightarrow> 'a \<Rightarrow> bool" where
  "any_result B x \<equiv> True"

text \<open>
  A step that starts at some index advances it by the number of its variables, and the placeholders
  of its result are those it was given (\<open>B\<close>) or stand for its own variables.
\<close>

definition binding :: "(nat \<times> sql_value) set \<Rightarrow> ((nat \<times> sql_value) set \<Rightarrow> 'a \<Rightarrow> bool) \<Rightarrow> 'a build \<Rightarrow> bool" where
  "binding B P m = (\<forall>refs x vs refs'. m refs = Inr (x, vs, refs') \<longrightarrow>
     counter refs' = counter refs + length vs \<and> P (B \<union> set (List.enumerate (counter refs) vs)) x)"

lemma inside_simps [simp]:
  "inside B []" "inside B (x @ y) \<longleftrightarrow> inside B x \<and> inside B y" "inside B (Txt s # x) \<longleftrightarrow> inside B x"
  "inside B (Bind k v # x) \<longleftrightarrow> (k, v) \<in> B \<and> inside B x"
  by (auto simp: inside_def)

lemma inside_joined [simp]: "inside B (joined sep xs) \<longleftrightarrow> all_inside B xs"
  by (auto simp: inside_def)

lemma inside_mono: "inside B x \<Longrightarrow> B \<subseteq> C \<Longrightarrow> inside C x"
  by (auto simp: inside_def)

lemma bindingI:
  "(\<And>refs x vs refs'. m refs = Inr (x, vs, refs') \<Longrightarrow>
     counter refs' = counter refs + length vs \<and> P (B \<union> set (List.enumerate (counter refs) vs)) x) \<Longrightarrow> binding B P m"
  unfolding binding_def by blast

lemma bindingD:
  assumes "binding B P m" and "m refs = Inr (x, vs, refs')"
  shows "counter refs' = counter refs + length vs" and "P (B \<union> set (List.enumerate (counter refs) vs)) x"
  using assms unfolding binding_def by blast+

named_theorems binding_intros

lemma binding_give [binding_intros]: "P B x \<Longrightarrow> binding B P (give x)"
  by (auto simp: binding_def give_def)

lemma binding_raise [binding_intros]: "binding B P (raise e)"
  by (simp add: binding_def raise_def)

lemma binding_andThen:
  assumes "binding B P m" and "\<And>x C. (\<And>y. inside B y \<Longrightarrow> inside C y) \<Longrightarrow> P C x \<Longrightarrow> binding C Q (k x)"
  shows "binding B Q (andThen m k)"
proof (rule bindingI)
  fix refs y us refs2
  assume "andThen m k refs = Inr (y, us, refs2)"
  then obtain x vs refs1 ws where m: "m refs = Inr (x, vs, refs1)" and k: "k x refs1 = Inr (y, ws, refs2)" and us: "us = vs @ ws"
    by (auto simp: andThen_def split: sum.splits prod.splits)
  let ?C = "B \<union> set (List.enumerate (counter refs) vs)"
  note m = bindingD [OF assms(1) m]
  have "binding ?C Q (k x)" by (rule assms(2)) (use m(2) in \<open>auto intro: inside_mono\<close>)
  note k = bindingD [OF this k]
  from m(1) k show "counter refs2 = counter refs + length us \<and> Q (B \<union> set (List.enumerate (counter refs) us)) y"
    by (simp add: us enumerate_append_eq Un_assoc)
qed

text \<open>The type of a result tells what its placeholders are.\<close>

lemmas binding_andThens [binding_intros] =
  binding_andThen [where P = inside]
  binding_andThen [where P = all_inside]
  binding_andThen [where P = some_inside]
  binding_andThen [where P = "\<lambda>B xss. \<forall>xs \<in> set xss. all_inside B xs"]
  binding_andThen [where P = "\<lambda>B xs. \<forall>x \<in> set xs. some_inside B x"]
  binding_andThen [where P = "any_result :: _ \<Rightarrow> string \<Rightarrow> _"]
  binding_andThen [where P = "any_result :: _ \<Rightarrow> string option \<Rightarrow> _"]
  binding_andThen [where P = "any_result :: _ \<Rightarrow> unit \<Rightarrow> _"]

lemma binding_if [binding_intros]:
  "(c \<Longrightarrow> binding B P m) \<Longrightarrow> (\<not> c \<Longrightarrow> binding B P n) \<Longrightarrow> binding B P (if c then m else n)"
  by simp

lemma binding_option [binding_intros]:
  "(x = None \<Longrightarrow> binding B P m) \<Longrightarrow> (\<And>y. x = Some y \<Longrightarrow> binding B P (k y)) \<Longrightarrow> binding B P (case x of None \<Rightarrow> m | Some y \<Rightarrow> k y)"
  by (simp split: option.split)

lemma binding_each:
  assumes "\<And>x C. x \<in> set xs \<Longrightarrow> (\<And>y. inside B y \<Longrightarrow> inside C y) \<Longrightarrow> binding C P (h x)"
    and mono: "\<And>x C D. (\<And>y. inside C y \<Longrightarrow> inside D y) \<Longrightarrow> P C x \<Longrightarrow> P D x"
  shows "binding B (\<lambda>C ys. \<forall>y \<in> set ys. P C y) (each h xs)"
  using assms(1)
proof (induction xs arbitrary: B)
  case Nil
  show ?case by (simp add: binding_give)
next
  case (Cons x xs)
  have "binding C (\<lambda>C ys. \<forall>y \<in> set ys. P C y) (andThen (each h xs) (\<lambda>ys. give (y # ys)))"
    if C: "\<And>z. inside B z \<Longrightarrow> inside C z" "P C y" for y C
  proof (rule binding_andThen)
    show "binding C (\<lambda>C ys. \<forall>y \<in> set ys. P C y) (each h xs)"
      by (rule Cons.IH) (use Cons.prems C(1) in auto)
    show "binding D (\<lambda>C ys. \<forall>y \<in> set ys. P C y) (give (y # ys))"
      if "\<And>z. inside C z \<Longrightarrow> inside D z" "\<forall>y \<in> set ys. P D y" for ys D
      using that mono [OF that(1) C(2)] by (intro binding_give) auto
  qed
  moreover have "binding B P (h x)" using Cons.prems [of x B] by simp
  ultimately show ?case by (auto intro!: binding_andThen [where P = P])
qed

lemma binding_each_sql [binding_intros]:
  "(\<And>x C. x \<in> set xs \<Longrightarrow> (\<And>y. inside B y \<Longrightarrow> inside C y) \<Longrightarrow> binding C inside (h x)) \<Longrightarrow> binding B all_inside (each h xs)"
  by (rule binding_each) auto

lemma binding_each_list [binding_intros]:
  "(\<And>x C. x \<in> set xs \<Longrightarrow> (\<And>y. inside B y \<Longrightarrow> inside C y) \<Longrightarrow> binding C all_inside (h x)) \<Longrightarrow>
   binding B (\<lambda>B xss. \<forall>xs \<in> set xss. all_inside B xs) (each h xs)"
  by (rule binding_each) auto

lemma binding_each_option [binding_intros]:
  "(\<And>x C. x \<in> set xs \<Longrightarrow> (\<And>y. inside B y \<Longrightarrow> inside C y) \<Longrightarrow> binding C some_inside (h x)) \<Longrightarrow>
   binding B (\<lambda>B xs. \<forall>x \<in> set xs. some_inside B x) (each h xs)"
  by (rule binding_each) auto

section \<open>References and variables\<close>

lemma binding_alias_now [binding_intros]: "binding B any_result (alias_now s)"
  by (simp add: binding_def alias_now_def)

lemma binding_set_alias [binding_intros]: "binding B any_result (set_alias s a)"
  by (auto simp: binding_def set_alias_def)

lemma binding_getUniqueAlias [binding_intros]: "binding B any_result (getUniqueAlias a)"
  by (auto simp: binding_def getUniqueAlias_def Let_def)

lemma binding_bind_variable [binding_intros]: "binding B inside (bind_variable opts v s json)"
  by (auto simp: binding_def bind_variable_def Let_def)

lemma binding_bind_array [binding_intros]: "binding B some_inside (bind_array opts vs s)"
  by (auto simp: binding_def bind_array_def split: option.splits)

section \<open>Texts\<close>

lemma inside_mergeSqlPath [simp]: "inside B (mergeSqlPath c p k) \<longleftrightarrow> (p \<noteq> [] \<longrightarrow> inside B p \<and> inside B k)"
  by (simp add: mergeSqlPath_def)

lemma inside_mergeSqlJsonPath [simp]: "inside B (mergeSqlJsonPath c p t k) \<longleftrightarrow> (p \<noteq> [] \<longrightarrow> inside B p \<and> inside B k)"
  by (simp add: mergeSqlJsonPath_def)

lemma inside_mergeSqlAlias [simp]: "inside B (mergeSqlAlias c a) = inside B c"
  by (simp add: mergeSqlAlias_def split: option.split)

lemma inside_as_alias [simp]: "inside B (as_alias x a) = inside B x"
  by (simp add: as_alias_def split: option.split)

lemma inside_cast_to [simp]: "inside B (cast_to ty c) = inside B c"
  by (simp add: cast_to_def)

lemma inside_getOperandColumn [simp]: "inside B (getOperandColumn schema c ctx) = inside B c"
  by (simp add: getOperandColumn_def split: option.split any_schema.split)

lemma inside_getOperandFunction [simp]: "inside B (getOperandFunction c flags) = inside B c"
  by (simp add: getOperandFunction_def)

lemma inside_left_operand [simp]: "inside B (left_operand schema c ctx) = inside B c"
  by (simp add: left_operand_def split: option.split)

lemma inside_right_operand [simp]: "inside B (right_operand x ctx) = inside B x"
  by (simp add: right_operand_def split: option.split)

lemma inside_getIsNullOperation [simp]: "inside B (getIsNullOperation c b) = inside B c"
  by (simp add: getIsNullOperation_def)

lemma inside_combineOperations [simp]: "inside B (combineOperations ops) \<longleftrightarrow> all_inside B ops"
  by (cases ops; cases "tl ops") (auto simp: combineOperations_def)

lemma inside_combined [simp]: "some_inside B (combined ops) \<longleftrightarrow> all_inside B ops"
  by (simp add: combined_def)

lemma combined_SomeD: "combined ops = Some x \<Longrightarrow> x = combineOperations ops"
  by (simp add: combined_def split: if_splits)

lemma set_map_filter_id: "set (List.map_filter id xs) = (\<Union>x \<in> set xs. set_option x)"
  by (induction xs) (auto simp: map_filter_simps split: option.split)

section \<open>Conditions\<close>

lemma binding_column_reference [binding_intros]: "binding B inside (column_reference s c a)"
  unfolding column_reference_def by (intro binding_intros) (auto split: reference_column.split)

lemma binding_table_reference [binding_intros]: "binding B inside (table_reference s)"
  unfolding table_reference_def by (intro binding_intros) auto

lemma binding_source_alias [binding_intros]: "binding B any_result (source_alias ctx)"
  unfolding source_alias_def by (intro binding_intros) auto

lemma binding_escapeSqlData [binding_intros]: "binding B inside (escapeSqlData opts v)"
  by (cases v) (auto simp: escapeSqlData_def intro!: binding_intros)

lemma binding_getOperandValue [binding_intros]: "binding B inside (getOperandValue opts schema v ctx encode)"
  by (cases v) (auto simp: getOperandValue_def intro!: binding_intros)

lemma binding_getOperandArray [binding_intros]: "binding B some_inside (getOperandArray opts schema vs ctx)"
  unfolding getOperandArray_def by (intro binding_intros) auto

lemma binding_getOperandPattern [binding_intros]: "binding B inside (getOperandPattern opts schema v ctx)"
  unfolding getOperandPattern_def by (rule binding_getOperandValue)

lemma binding_getEqualOperation [binding_intros]: "inside B c \<Longrightarrow> binding B inside (getEqualOperation opts c schema v ctx)"
  by (cases v) (auto simp: getEqualOperation_def intro!: binding_intros)

lemma binding_getNotEqualOperation [binding_intros]: "inside B c \<Longrightarrow> binding B inside (getNotEqualOperation opts c schema v ctx)"
  by (cases v) (auto simp: getNotEqualOperation_def intro!: binding_intros)

lemma binding_getOrderOperation: "inside B c \<Longrightarrow> binding B inside (getOrderOperation op opts c schema v ctx)"
  unfolding getOrderOperation_def by (intro binding_intros) auto

lemma binding_orders [binding_intros]:
  "inside B c \<Longrightarrow> binding B inside (getGreaterThanOperation opts c schema v ctx)"
  "inside B c \<Longrightarrow> binding B inside (getGreaterOrEqualOperation opts c schema v ctx)"
  "inside B c \<Longrightarrow> binding B inside (getLessThanOperation opts c schema v ctx)"
  "inside B c \<Longrightarrow> binding B inside (getLessOrEqualOperation opts c schema v ctx)"
  by (simp_all add: getGreaterThanOperation_def getGreaterOrEqualOperation_def getLessThanOperation_def getLessOrEqualOperation_def
      binding_getOrderOperation)

lemma binding_getIsInOperation [binding_intros]: "inside B c \<Longrightarrow> binding B inside (getIsInOperation opts c schema v ctx)"
  by (cases v) (auto simp: getIsInOperation_def intro!: binding_intros)

lemma binding_getIsBetweenOperation [binding_intros]:
  "inside B c \<Longrightarrow> binding B inside (getIsBetweenOperation opts c schema v ctx)"
  unfolding getIsBetweenOperation_def by (auto intro!: binding_intros split: sql_value.split list.split)

lemma binding_getStartsWithOperation [binding_intros]:
  "inside B c \<Longrightarrow> binding B inside (getStartsWithOperation opts c schema v ctx)"
  unfolding getStartsWithOperation_def by (intro binding_intros) auto

lemma binding_getContainsOperation [binding_intros]:
  "inside B c \<Longrightarrow> binding B inside (getContainsOperation opts c schema v ctx)"
  unfolding getContainsOperation_def by (intro binding_intros) auto

lemma inside_has_key: "inside B (oc_path ctx) \<Longrightarrow> has_key ctx = Some k \<Longrightarrow> inside B k"
  by (auto simp: has_key_def split: option.splits if_splits)

lemma inside_missing [simp]:
  assumes "inside B (oc_path ctx)" and "inside B c"
  shows "inside B (getIsMissingOperation c v ctx)" "inside B (getIsMissingOrNullOperation c v ctx)"
  using assms by (auto simp: getIsMissingOperation_def getIsMissingOrNullOperation_def dest: inside_has_key split: option.split)

lemma binding_getFinalOperation [binding_intros]:
  assumes "inside B c" and "inside B (oc_path ctx)"
  shows "binding B some_inside (getFinalOperation opts c schema operation ctx)"
  unfolding getFinalOperation_def Let_def
  by (cases operation, simp only: prod.case, intro binding_intros) (use assms in simp_all)

text \<open>What the operations rely on when they call themselves for nested filters.\<close>

definition binds_filters :: "filter_builder \<Rightarrow> bool" where
  "binds_filters rec = (\<forall>B fs schema ctx. inside B (oc_path ctx) \<longrightarrow> binding B all_inside (rec fs schema ctx))"

lemma binds_filtersI:
  "(\<And>B fs schema ctx. inside B (oc_path ctx) \<Longrightarrow> binding B all_inside (rec fs schema ctx)) \<Longrightarrow> binds_filters rec"
  by (simp add: binds_filters_def)

lemma binds_filtersD:
  "binds_filters rec \<Longrightarrow> inside B (oc_path ctx) \<Longrightarrow> binding B all_inside (rec fs schema ctx)"
  by (simp add: binds_filters_def)

definition binds_selects :: "select_builder \<Rightarrow> bool" where
  "binds_selects sub = (\<forall>B select. binding B inside (sub select))"

lemma binds_selectsD: "binds_selects sub \<Longrightarrow> binding B inside (sub select)"
  by (simp add: binds_selects_def)

lemma binding_getSingleOperation [binding_intros]:
  assumes "binds_filters rec" and "inside B c" and "inside B (oc_path ctx)"
  shows "binding B some_inside (getSingleOperation opts rec c schema operation ctx)"
  using assms unfolding getSingleOperation_def
  by (auto intro!: binding_intros binds_filtersD [OF assms(1)] dest: combined_SomeD)

lemma binding_getMultipleOperations [binding_intros]:
  assumes "inside B c" and "inside B (oc_path ctx)"
  shows "binding B all_inside (getMultipleOperations opts c schema entries ctx)"
  using assms unfolding getMultipleOperations_def by (auto simp: set_map_filter_id simp del: id_def intro!: binding_intros)

lemma binding_getNegateOperations [binding_intros]:
  assumes "binds_filters rec" and "inside B (oc_path ctx)"
  shows "binding B some_inside (getNegateOperations rec v schema ctx)"
  using assms unfolding getNegateOperations_def
  by (auto intro!: binding_intros binds_filtersD [OF assms(1)] dest: combined_SomeD)

lemma inside_template: "all_inside B bound \<Longrightarrow> inside B (concat (map (from_template bound) template))"
  by (induction template) (auto simp: from_template_def split: template.split)

lemma binding_build_condition [binding_intros]: "binding B inside (build_condition opts values template ctx)"
  unfolding build_condition_def by (auto simp: inside_template intro!: binding_intros)

lemma binding_logical_operations [binding_intros]:
  assumes "binds_filters rec" and "inside B (oc_path ctx)"
  shows "binding B all_inside (logical_operations opts rec field v schema ctx)"
  using assms unfolding logical_operations_def
  by (cases v) (auto intro!: binding_intros binds_filtersD [OF assms(1)] split: if_splits)

lemma binding_getLogicalOperations [binding_intros]:
  assumes "binds_filters rec" and "inside B (oc_path ctx)"
  shows "binding B some_inside (getLogicalOperations opts rec field v schema ctx)"
  using assms unfolding getLogicalOperations_def
  by (cases v) (auto intro!: binding_intros split: if_splits)

lemma binding_getExistsOperation [binding_intros]:
  assumes "binds_selects sub" shows "binding B inside (getExistsOperation sub select)"
  unfolding getExistsOperation_def by (intro binding_intros binds_selectsD [OF assms]) auto

lemma binding_object_operation [binding_intros]:
  assumes "binds_filters rec" and "inside B c" and "inside B (oc_path ctx)"
  shows "binding B some_inside (object_operation opts rec name c schema fs ctx)"
  using assms(2,3) unfolding object_operation_def Let_def
  by (auto intro!: binding_intros binds_filtersD [OF assms(1)] assms(1) dest: combined_SomeD split: list.split)

lemma binding_column_operation [binding_intros]:
  assumes "binds_selects sub" and "binds_filters rec" and "inside B c" and "inside B (oc_path ctx)"
  shows "binding B some_inside (column_operation opts sub rec name c schema v ctx)"
  using assms unfolding column_operation_def by (cases v) (auto intro!: binding_intros)

lemma binding_getFieldOperation [binding_intros]:
  assumes "binds_selects sub" and "binds_filters rec" and "inside B (oc_path ctx)"
  shows "binding B some_inside (getFieldOperation opts sub rec field v schema ctx)"
  using assms unfolding getFieldOperation_def Let_def by (auto intro!: binding_intros)

lemma binds_getFilterOperations: "binds_selects sub \<Longrightarrow> binds_filters (getFilterOperations opts sub stack)"
proof (induction stack)
  case 0
  then show ?case by (simp add: binds_filters_def binding_raise)
next
  case (Suc stack)
  note [binding_intros] = Suc.prems Suc.IH [OF Suc.prems]
  show ?case
  proof (rule binds_filtersI)
    fix B fs schema and ctx :: operation_context
    assume "inside B (oc_path ctx)"
    then show "binding B all_inside (getFilterOperations opts sub (Suc stack) fs schema ctx)"
      unfolding getFilterOperations.simps filter_operations_def
      by (auto simp: set_map_filter_id simp del: id_def intro!: binding_intros)
  qed
qed

lemma binding_build_conditions [binding_intros]:
  assumes "binds_selects sub" shows "binding B some_inside (build_conditions opts sub stack bound source schema filters)"
  unfolding build_conditions_def
  by (auto intro!: binding_intros binds_filtersD [OF binds_getFilterOperations [OF assms]] split: if_splits)

lemma binding_build_clause [binding_intros]:
  "binds_selects sub \<Longrightarrow> binding B all_inside (build_clause keyword opts sub stack source schema filters)"
  unfolding build_clause_def by (auto intro!: binding_intros split: option.split)

section \<open>Results and tables\<close>

lemma binding_build_scoped [binding_intros]:
  assumes "binds_selects sub" shows "binding B inside (build_scoped sub select)"
  unfolding build_scoped_def by (auto intro!: binding_intros binds_selectsD [OF assms])

lemma binding_getOrderColumn [binding_intros]: "binding B inside (getOrderColumn column order a)"
  by (cases order) (auto simp: getOrderColumn_def intro!: binding_intros)

lemma binding_build_order [binding_intros]: "binding B inside (build_order source results columns)"
  unfolding build_order_def by (auto intro!: binding_intros)

lemma binding_order_clause [binding_intros]: "binding B all_inside (order_clause source results order)"
  unfolding order_clause_def by (auto intro!: binding_intros)

lemma binding_group_clause [binding_intros]: "binding B all_inside (group_clause source grouping)"
  unfolding group_clause_def by (auto intro!: binding_intros split: list.split)

definition binds_json :: "json_builder \<Rightarrow> bool" where
  "binds_json rec = (\<forall>B record parent a. inside B parent \<longrightarrow> binding B inside (rec record parent a))"

lemma binds_jsonI:
  "(\<And>B record parent a. inside B parent \<Longrightarrow> binding B inside (rec record parent a)) \<Longrightarrow> binds_json rec"
  by (simp add: binds_json_def)

lemma binds_jsonD: "binds_json rec \<Longrightarrow> inside B parent \<Longrightarrow> binding B inside (rec record parent a)"
  by (simp add: binds_json_def)

lemma binding_json_entry [binding_intros]:
  assumes "binds_selects sub" and "binds_json rec" and "inside B parent"
  shows "binding B all_inside (json_entry opts sub rec raw parent a entry)"
  using assms(1,3) unfolding json_entry_def Let_def
  by (cases entry) (auto intro!: binding_intros binds_jsonD [OF assms(2)] split: json_field.split)

lemma binds_getJsonObject: "binds_selects sub \<Longrightarrow> binds_json (getJsonObject opts sub raw stack)"
proof (induction stack arbitrary: raw)
  case 0
  then show ?case by (simp add: binds_json_def binding_raise)
next
  case (Suc stack)
  note [binding_intros] = Suc.prems Suc.IH [OF Suc.prems]
  show ?case by (rule binds_jsonI) (auto intro!: binding_intros)
qed

lemma binding_getJsonArray [binding_intros]: "inside B x \<Longrightarrow> binding B inside (getJsonArray source results x order)"
  unfolding getJsonArray_def by (auto intro!: binding_intros)

lemma binding_build_json_column [binding_intros]:
  assumes "binds_selects sub"
  shows "binding B inside (build_json_column opts sub stack source results record order aggregate column own raw)"
  unfolding build_json_column_def
  by (auto intro!: binding_intros binds_jsonD [OF binds_getJsonObject [OF assms]] split: option.split)

lemma binding_build_aggregate [binding_intros]:
  assumes "binds_selects sub"
  shows "binding B inside (build_aggregate opts sub stack source schema f column unique filters format own)"
  using assms unfolding build_aggregate_def Let_def by (auto intro!: binding_intros split: option.split)

lemma binding_result_column [binding_intros]:
  assumes "binds_selects sub"
  shows "binding B inside (result_column opts sub stack source schema results column)"
  using assms unfolding result_column_def by (cases column) (auto intro!: binding_intros)

lemma binding_getResultColumns [binding_intros]:
  "binds_selects sub \<Longrightarrow> binding B inside (getResultColumns opts sub stack source schema columns)"
  unfolding getResultColumns_def by (auto intro!: binding_intros)

lemma binding_returning_clause [binding_intros]:
  "binds_selects sub \<Longrightarrow> binding B all_inside (returning_clause opts sub stack source schema returning)"
  unfolding returning_clause_def by (auto intro!: binding_intros split: option.split list.split)

definition binds_statements :: "(sql_statement \<Rightarrow> sql build) \<Rightarrow> bool" where
  "binds_statements any = (\<forall>B s. binding B inside (any s))"

lemma binds_statementsI: "(\<And>B s. binding B inside (any s)) \<Longrightarrow> binds_statements any"
  by (simp add: binds_statements_def)

lemma binds_statementsD: "binds_statements any \<Longrightarrow> binding B inside (any s)"
  by (simp add: binds_statements_def)

lemma binding_build_union [binding_intros]:
  assumes "binds_statements any" shows "binding B inside (build_union any sources)"
  unfolding build_union_def by (auto intro!: binding_intros binds_statementsD [OF assms])

lemma binding_table_expression [binding_intros]:
  assumes "binds_selects sub" and "binds_statements any"
  shows "binding B inside (table_expression opts sub any source plain table)"
  using assms(2) unfolding table_expression_def
  by (cases table) (auto intro!: binding_intros binds_selectsD [OF assms(1)])

lemma binding_getSelectExpressions [binding_intros]:
  "binds_selects sub \<Longrightarrow> binds_statements any \<Longrightarrow> binding B all_inside (getSelectExpressions opts sub any source plain tables)"
  unfolding getSelectExpressions_def by (intro binding_intros)

lemma binding_alias_clause [binding_intros]: "binding B all_inside (alias_clause source)"
  unfolding alias_clause_def by (auto intro!: binding_intros split: option.split)

lemma binding_build_join [binding_intros]:
  "binds_selects sub \<Longrightarrow> binding B inside (build_join opts sub stack j)"
  by (cases j) (auto intro!: binding_intros split: sum.split option.split)

lemma inside_number_clause [simp]: "all_inside B (number_clause opts keyword amount)"
  by (cases amount) (simp_all add: number_clause_def)

lemma binding_build_select [binding_intros]:
  assumes "binds_selects sub" and "binds_statements any"
  shows "binding B inside (build_select opts sub any stack select)"
  using assms by (cases select) (auto intro!: binding_intros)

section \<open>Updates\<close>

definition binds_updates :: "update_builder \<Rightarrow> bool" where
  "binds_updates rec = (\<forall>B record schema uc. inside B (uc_parent uc) \<longrightarrow> binding B all_inside (rec record schema uc))"

lemma binds_updatesI:
  "(\<And>B record schema uc. inside B (uc_parent uc) \<Longrightarrow> binding B all_inside (rec record schema uc)) \<Longrightarrow> binds_updates rec"
  by (simp add: binds_updates_def)

lemma binds_updatesD: "binds_updates rec \<Longrightarrow> inside B (uc_parent uc) \<Longrightarrow> binding B all_inside (rec record schema uc)"
  by (simp add: binds_updates_def)

lemma inside_push_update [simp]:
  "inside B (uc_parent uc) \<Longrightarrow> inside B key \<Longrightarrow> inside B x \<Longrightarrow> inside B (push_update uc fieldName key x)"
  by (simp add: push_update_def)

lemma binding_bindJsonKey [binding_intros]: "binding B inside (bindJsonKey opts key)"
  unfolding bindJsonKey_def by (rule binding_bind_variable)

lemma binding_update_operand [binding_intros]: "inside B x \<Longrightarrow> binding B inside (update_operand schema fieldName x)"
  unfolding update_operand_def by (auto intro!: binding_intros split: option.split any_schema.split)

lemma inside_getOperandCoalesce [simp]: "inside B (getOperandCoalesce opts schema c) = inside B c"
  by (simp add: getOperandCoalesce_def Let_def split: option.split any_schema.split)

lemma inside_update_expression:
  assumes "inside B path" and "all_inside B removals" and "all_inside B additions"
  shows "all_inside B (update_expression mustCombine depth path removals additions)"
  using assms by (auto simp: update_expression_def)

lemma binding_update_object [binding_intros]:
  assumes "binds_updates rec" and "inside B (uc_parent uc)" and "inside B key"
  shows "binding B all_inside (update_object rec source fieldName key fs schema uc)"
proof -
  have pushed: "all_inside C ((if e \<noteq> [] then [push_update uc fieldName key (joined '' '' e)] else []) @ (if b then additions else []))"
    if "inside C (uc_parent uc)" "inside C key" "all_inside C e" "all_inside C additions" for C e additions and b :: bool
    using that by auto
  show ?thesis using assms(2,3) unfolding update_object_def Let_def
    by (intro binding_intros binds_updatesD [OF assms(1)] pushed inside_update_expression) auto
qed

lemma binding_update_value [binding_intros]:
  assumes "inside B (uc_parent uc)" and "inside B key"
  shows "binding B all_inside (update_value opts source fieldName key v schema uc)"
  using assms unfolding update_value_def Let_def by (cases v) (auto intro!: binding_intros)

lemma binding_update_field [binding_intros]:
  assumes "binds_selects sub" and "binds_updates rec" and "inside B (uc_parent uc)"
  shows "binding B all_inside (update_field opts sub rec source schema uc field)"
  using assms(2,3) unfolding update_field_def Let_def
  by (cases field; cases "snd field") (auto intro!: binding_intros binds_selectsD [OF assms(1)])

lemma binds_getUpdateColumns: "binds_selects sub \<Longrightarrow> binds_updates (getUpdateColumns opts sub source stack)"
proof (induction stack)
  case 0
  then show ?case by (simp add: binds_updates_def binding_raise)
next
  case (Suc stack)
  note [binding_intros] = Suc.prems Suc.IH [OF Suc.prems]
  show ?case by (rule binds_updatesI) (auto intro!: binding_intros)
qed

section \<open>Statements\<close>

lemma binding_getUpdateColumns [binding_intros]:
  assumes "binds_selects sub" shows "binding B all_inside (getUpdateColumns opts sub source stack record schema top_update)"
  by (rule binds_updatesD [OF binds_getUpdateColumns [OF assms]]) (simp add: top_update_def)

lemma binding_getValueReference [binding_intros]:
  assumes "binds_selects sub" shows "binding B inside (getValueReference opts sub source schema record fieldName)"
  unfolding getValueReference_def Let_def
  by (auto intro!: binding_intros binds_selectsD [OF assms] split: sql_value.split)

lemma binding_getValueReferences [binding_intros]:
  "binds_selects sub \<Longrightarrow> binding B inside (getValueReferences opts sub source schema record columnNames)"
  unfolding getValueReferences_def by (auto intro!: binding_intros)

lemma binding_build_conflict [binding_intros]:
  "binds_selects sub \<Longrightarrow> binding B inside (build_conflict opts sub stack source schema conflict)"
  by (cases conflict) (auto simp: Let_def intro!: binding_intros)

lemma binding_conflict_clause [binding_intros]:
  "binds_selects sub \<Longrightarrow> binding B all_inside (conflict_clause opts sub stack source schema conflict)"
  unfolding conflict_clause_def
  by (auto simp del: build_conflict.simps intro!: binding_intros split: option.split sql_conflict.split list.split)

lemma binding_insert_rows [binding_intros]:
  "binds_selects sub \<Longrightarrow> binds_statements any \<Longrightarrow>
   binding B all_inside (insert_rows opts sub any stack source schema sources records conds columnNames)"
  unfolding insert_rows_def by (auto intro!: binding_intros split: if_splits)

lemma binding_build_insert [binding_intros]:
  "binds_selects sub \<Longrightarrow> binds_statements any \<Longrightarrow>
   binding B inside (build_insert opts sub any stack source schema table sources records conds conflict returning)"
  unfolding build_insert_def Let_def by (auto intro!: binding_intros)

lemma binding_build_update [binding_intros]:
  "binds_selects sub \<Longrightarrow> binds_statements any \<Longrightarrow>
   binding B inside (build_update opts sub any stack source schema table from record conds returning)"
  unfolding build_update_def by (auto intro!: binding_intros)

lemma binding_build_delete [binding_intros]:
  "binds_selects sub \<Longrightarrow> binding B inside (build_delete opts sub stack source schema table conds returning)"
  unfolding build_delete_def by (auto intro!: binding_intros)

lemma binds_build: "binds_statements (build opts stack)"
proof (induction stack)
  case 0
  then show ?case by (simp add: binds_statements_def binding_raise)
next
  case (Suc stack)
  then have "binds_selects (\<lambda>select. build opts stack (SelectStatement select))"
    by (simp add: binds_selects_def binds_statements_def)
  with Suc show ?case
    by (intro binds_statementsI) (auto simp: Let_def intro!: binding_intros split: sql_statement.split)
qed

lemma binding_getQueries [binding_intros]:
  assumes "binds_statements any"
  shows "binding B all_inside (getQueries any a final previous ss)"
proof (induction ss arbitrary: B previous final)
  case (Cons s ss)
  note [binding_intros] = Cons.IH
  show ?case by (auto intro!: binding_intros binds_statementsD [OF assms] split: option.split)
qed (simp add: binding_give)

lemma inside_with:
  assumes "all_inside C q"
  shows "inside C (joined '' '' ([T ''WITH''] @ (if butlast q = [] then [] else [joined '', '' (butlast q)]) @ drop (length q - 1) q))"
proof -
  have "all_inside C (butlast q)" "all_inside C (drop (length q - 1) q)" using assms by (blast dest: in_set_butlastD in_set_dropD)+
  then show ?thesis by simp
qed

lemma binding_build_with: "binding B inside (build_with opts stack own sources)"
proof -
  consider "sources = []" | s where "sources = [s]" | a b rest where "sources = a # b # rest"
    by (cases sources; cases "tl sources") auto
  then show ?thesis
  proof cases
    case 3
    show ?thesis unfolding build_with_def 3 list.case by (intro binding_intros inside_with binds_build)
  qed (simp_all add: build_with_def binding_raise binds_statementsD [OF binds_build])
qed

text \<open>
  C30. Every placeholder of a statement stands for its own variable: a statement of a builder whose
  next index is \<open>n\<close> has its variables from \<open>n\<close> on, one index for each, and wherever it has the placeholder
  the code wrote for a value, the variable at that index is this value. So it is for the queries
  of a \<open>WITH\<close> clause.
\<close>

theorem placeholders_stand_for_variables:
  assumes "build opts stack statement refs = Inr (x, vs, refs') \<or> build_with opts stack own sources refs = Inr (x, vs, refs')"
    and "(k, v) \<in> binds x"
  shows "counter refs' = counter refs + length vs \<and> counter refs \<le> k \<and> k < counter refs' \<and> vs ! (k - counter refs) = v"
proof -
  have b: "binding {} inside (build opts stack statement)" "binding {} inside (build_with opts stack own sources)"
    by (rule binds_statementsD [OF binds_build], rule binding_build_with)
  from assms(1) have c: "counter refs' = counter refs + length vs"
    and i: "inside ({} \<union> set (List.enumerate (counter refs) vs)) x"
    by (auto dest: bindingD [OF b(1)] bindingD [OF b(2)])
  from i assms(2) have "(k, v) \<in> set (List.enumerate (counter refs) vs)" by (auto simp: inside_def)
  with c show ?thesis by (simp add: in_set_enumerate_eq)
qed

end
