(* ===== verification/Sql_Depth.thy ===== *)
theory Sql_Depth
  imports Sql_Binding
begin

text \<open>
  The depth of the call stack a statement needs: one more than its size is enough, so with such a stack
  a build answers with the statement or with one of the errors of the builder. The contract of one
  step is \<open>safe\<close>: it does not overflow.
\<close>

section \<open>The contract of a step\<close>

definition safe :: "'a build \<Rightarrow> bool" where
  "safe m = (\<forall>refs. m refs \<noteq> Inl StackOverflow)"

named_theorems safe_intros

lemma safe_give [safe_intros]: "safe (give x)"
  by (simp add: safe_def give_def)

lemma safe_raise [safe_intros]: "e \<noteq> StackOverflow \<Longrightarrow> safe (raise e)"
  by (simp add: safe_def raise_def)

lemma safe_andThen [safe_intros]: "safe m \<Longrightarrow> (\<And>x. safe (k x)) \<Longrightarrow> safe (andThen m k)"
  by (auto simp: safe_def andThen_def split: sum.splits prod.splits)

lemma safe_if [safe_intros]: "(c \<Longrightarrow> safe m) \<Longrightarrow> (\<not> c \<Longrightarrow> safe n) \<Longrightarrow> safe (if c then m else n)"
  by simp

lemma safe_option [safe_intros]:
  "(x = None \<Longrightarrow> safe m) \<Longrightarrow> (\<And>y. x = Some y \<Longrightarrow> safe (k y)) \<Longrightarrow> safe (case x of None \<Rightarrow> m | Some y \<Rightarrow> k y)"
  by (simp split: option.split)

lemma safe_each [safe_intros]: "(\<And>x. x \<in> set xs \<Longrightarrow> safe (h x)) \<Longrightarrow> safe (each h xs)"
  by (induction xs) (auto intro!: safe_intros)

lemma safe_references [safe_intros]:
  "safe (alias_now s)" "safe (set_alias s a)" "safe (getUniqueAlias n)" "safe (bind_variable opts v schema json)"
  "safe (bind_array opts vs schema)"
  by (auto simp: safe_def alias_now_def set_alias_def getUniqueAlias_def bind_variable_def bind_array_def Let_def split: option.splits)

lemma safe_column_reference [safe_intros]: "safe (column_reference s c a)" "safe (table_reference s)" "safe (source_alias ctx)"
  by (auto simp: column_reference_def table_reference_def source_alias_def intro!: safe_intros)

section \<open>Operands and operations\<close>

lemma safe_escapeSqlData [safe_intros]: "safe (escapeSqlData opts v)"
  by (cases v) (auto simp: escapeSqlData_def intro!: safe_intros)

lemma safe_getOperandValue [safe_intros]: "safe (getOperandValue opts schema v ctx encode)"
  by (cases v) (auto simp: getOperandValue_def intro!: safe_intros)

lemma safe_operands [safe_intros]: "safe (getOperandArray opts schema vs ctx)" "safe (getOperandPattern opts schema v ctx)"
  by (auto simp: getOperandArray_def getOperandPattern_def intro!: safe_intros)

lemma safe_equality [safe_intros]: "safe (getEqualOperation opts c schema v ctx)" "safe (getNotEqualOperation opts c schema v ctx)"
  by (cases v; auto simp: getEqualOperation_def getNotEqualOperation_def intro!: safe_intros)+

lemma safe_orders [safe_intros]:
  "safe (getGreaterThanOperation opts c schema v ctx)" "safe (getGreaterOrEqualOperation opts c schema v ctx)"
  "safe (getLessThanOperation opts c schema v ctx)" "safe (getLessOrEqualOperation opts c schema v ctx)"
  by (auto simp: getGreaterThanOperation_def getGreaterOrEqualOperation_def getLessThanOperation_def getLessOrEqualOperation_def
      getOrderOperation_def intro!: safe_intros)

lemma safe_getIsInOperation [safe_intros]: "safe (getIsInOperation opts c schema v ctx)"
  by (cases v) (auto simp: getIsInOperation_def intro!: safe_intros)

lemma safe_getIsBetweenOperation [safe_intros]: "safe (getIsBetweenOperation opts c schema v ctx)"
  by (auto simp: getIsBetweenOperation_def intro!: safe_intros split: sql_value.split list.split)

lemma safe_patterns [safe_intros]: "safe (getStartsWithOperation opts c schema v ctx)" "safe (getContainsOperation opts c schema v ctx)"
  by (auto simp: getStartsWithOperation_def getContainsOperation_def intro!: safe_intros)

lemma safe_getFinalOperation [safe_intros]: "safe (getFinalOperation opts c schema operation ctx)"
  unfolding getFinalOperation_def Let_def by (cases operation, simp only: prod.case, intro safe_intros)

section \<open>Filters\<close>

text \<open>The members of an object leave room for one more call.\<close>

definition fits :: "nat \<Rightarrow> (string \<times> 'a :: size) list \<Rightarrow> bool" where
  "fits n fs = (0 < n \<and> (\<forall>p \<in> set fs. Suc (size (snd p)) < n))"

definition safe_filters :: "nat \<Rightarrow> filter_builder \<Rightarrow> bool" where
  "safe_filters n rec = (\<forall>fs schema ctx. fits n fs \<longrightarrow> safe (rec fs schema ctx))"

lemma safe_filtersD: "safe_filters n rec \<Longrightarrow> fits n fs \<Longrightarrow> safe (rec fs schema ctx)"
  by (simp add: safe_filters_def)

definition safe_selects :: "nat \<Rightarrow> select_builder \<Rightarrow> bool" where
  "safe_selects n sub = (\<forall>select. Suc (size select) < n \<longrightarrow> safe (sub select))"

lemma safe_selectsD: "safe_selects n sub \<Longrightarrow> Suc (size select) < n \<Longrightarrow> safe (sub select)"
  by (simp add: safe_selects_def)

lemma size_list_member: "x \<in> set xs \<Longrightarrow> f x < size_list f xs"
proof (induction xs)
  case (Cons y ys)
  then show ?case by (cases "x = y") simp_all
qed simp

lemma size_member: "(k, v) \<in> set fs \<Longrightarrow> Suc (size v) < size_list (size_prod (\<lambda>x. 0) size) fs"
  using size_list_member [of "(k, v)" fs "size_prod (\<lambda>x. 0) size"] by simp

lemma fits_members: "size_list (size_prod (\<lambda>x. 0) size) fs \<le> n \<Longrightarrow> 0 < n \<Longrightarrow> fits n fs"
  unfolding fits_def by (auto dest!: size_member)

lemma fits_object: "any_object v \<Longrightarrow> size v < n \<Longrightarrow> fits n (own_entries v)"
  by (cases v) (auto simp: own_entries_def any_object_def fits_def dest: size_member)

lemma fits_entries:
  assumes "Suc (size v) < n" shows "fits n (own_entries v)"
proof (cases v)
  case (Fields fs)
  with assms show ?thesis by (auto simp: own_entries_def intro: fits_members)
next
  case (Items xs)
  have "Suc (size (snd p)) < n" if "p \<in> set (map (\<lambda>(k, x). (digits_of k, x)) (List.enumerate 0 xs))" for p
  proof -
    from that obtain k where "snd p = xs ! k" "k < length xs" by (auto simp: in_set_enumerate_eq)
    then have "snd p \<in> set xs" by simp
    from size_list_member [OF this, of size] Items assms show ?thesis by simp
  qed
  with assms show ?thesis by (simp add: Items own_entries_def fits_def)
next
  case (TextValue s)
  with assms show ?thesis by (auto simp: own_entries_def fits_def)
qed (use assms in \<open>auto simp: own_entries_def fits_def\<close>)

lemma fits_single: "fits n fs \<Longrightarrow> p \<in> set fs \<Longrightarrow> fits n [p]"
  by (simp add: fits_def)

lemma fits_filter: "fits n fs \<Longrightarrow> fits n (filter P fs)"
  by (simp add: fits_def)

lemma safe_getSingleOperation:
  assumes "safe_filters n rec" and "fits n [operation]"
  shows "safe (getSingleOperation opts rec c schema operation ctx)"
  unfolding getSingleOperation_def by (intro safe_intros safe_filtersD [OF assms])

lemma safe_getMultipleOperations [safe_intros]: "safe (getMultipleOperations opts c schema entries ctx)"
  unfolding getMultipleOperations_def by (intro safe_intros)

lemma safe_object_operation:
  assumes "safe_filters n rec" and "fits n fs"
  shows "safe (object_operation opts rec name c schema fs ctx)"
proof -
  let ?entries = "filter (\<lambda>p. fst p \<noteq> ''insensitive'' \<and> fst p \<noteq> ''count'') fs"
  have "fits n ?entries" using assms(2) by (rule fits_filter)
  then show ?thesis unfolding object_operation_def Let_def
    by (auto split: list.split intro!: safe_intros safe_getSingleOperation [OF assms(1)] safe_filtersD [OF assms(1)])
qed

lemma safe_column_operation:
  assumes "safe_selects m sub" and "safe_filters n rec" and "size v < n" and "n < m"
  shows "safe (column_operation opts sub rec name c schema v ctx)"
proof (cases v)
  case (SelectValue select)
  with assms have "safe (sub select)" by (intro safe_selectsD [OF assms(1)]) simp
  then show ?thesis by (simp add: column_operation_def SelectValue getExistsOperation_def safe_intros)
next
  case (Fields fs)
  have "fits n (own_entries v)" by (rule fits_object) (use assms(3) in \<open>simp_all add: Fields any_object_def\<close>)
  from safe_object_operation [OF assms(2) this] show ?thesis
    by (simp add: column_operation_def Fields safe_intros)
qed (auto simp: column_operation_def own_entries_def object_operation_def any_object_def written_by_caller_def intro!: safe_intros)

lemma safe_build_condition [safe_intros]: "safe (build_condition opts values template ctx)"
  unfolding build_condition_def by (auto intro!: safe_intros)

lemma safe_getLogicalOperations:
  assumes "safe_filters n rec" and "size v < n"
  shows "safe (getLogicalOperations opts rec field v schema ctx)"
proof (cases v)
  case (Items xs)
  have "safe (logical_operations opts rec field x schema ctx)" if "x \<in> set xs" for x
  proof -
    from size_list_member [OF that, of size] assms(2) Items have "Suc (size x) < n" by simp
    from safe_filtersD [OF assms(1) fits_entries [OF this]] show ?thesis
      unfolding logical_operations_def by (cases x) (simp_all add: safe_intros)
  qed
  then show ?thesis by (simp add: getLogicalOperations_def Items safe_intros)
qed (simp_all add: getLogicalOperations_def safe_intros)

lemma safe_getNegateOperations:
  assumes "safe_filters n rec" and "size v < n"
  shows "safe (getNegateOperations rec v schema ctx)"
  using assms unfolding getNegateOperations_def by (auto intro!: safe_intros safe_filtersD [OF assms(1)] fits_object)

lemma safe_getFieldOperation:
  assumes "safe_selects m sub" and "safe_filters n rec" and "size v < n" and "n < m"
  shows "safe (getFieldOperation opts sub rec field v schema ctx)"
  unfolding getFieldOperation_def Let_def
  by (intro safe_intros safe_getLogicalOperations safe_getNegateOperations safe_column_operation) (rule assms)+

lemma safe_getFilterOperations:
  assumes "safe_selects m sub" and "n \<le> m"
  shows "safe_filters n (getFilterOperations opts sub n)"
  using assms(2)
proof (induction n)
  case 0
  show ?case by (simp add: safe_filters_def fits_def)
next
  case (Suc n)
  then have rec: "safe_filters n (getFilterOperations opts sub n)" "n < m" by simp_all
  show ?case unfolding safe_filters_def
  proof (intro allI impI)
    fix fs :: filters and schema ctx
    assume "fits (Suc n) fs"
    then have "size v < n" if "(field, v) \<in> set fs" for field v using that by (auto simp: fits_def)
    then show "safe (getFilterOperations opts sub (Suc n) fs schema ctx)"
      unfolding getFilterOperations.simps filter_operations_def
      by (auto intro!: safe_intros safe_getFieldOperation [OF assms(1) rec(1) _ rec(2)])
  qed
qed

lemma safe_build_conditions:
  assumes "safe_selects n sub" and "fits n fs"
  shows "safe (build_conditions opts sub n bound source schema fs)"
  unfolding build_conditions_def
  by (intro safe_intros safe_filtersD [OF safe_getFilterOperations [OF assms(1) order_refl] assms(2)])

lemma safe_build_clause:
  assumes "safe_selects n sub" and "\<And>fs. filters = Some fs \<Longrightarrow> fits n fs"
  shows "safe (build_clause keyword opts sub n source schema filters)"
  unfolding build_clause_def by (intro safe_intros safe_build_conditions [OF assms(1)] assms(2))

section \<open>Result columns\<close>

lemma safe_build_scoped: "safe_selects n sub \<Longrightarrow> Suc (size select) < n \<Longrightarrow> safe (build_scoped sub select)"
  unfolding build_scoped_def by (intro safe_intros safe_selectsD)

lemma safe_getOrderColumn [safe_intros]: "safe (getOrderColumn column order a)"
  unfolding getOrderColumn_def by (auto intro!: safe_intros split: order_direction.split)

lemma safe_build_order [safe_intros]: "safe (build_order source results columns)"
  unfolding build_order_def by (auto intro!: safe_intros)

lemma safe_order_clause [safe_intros]: "safe (order_clause source results order)"
  unfolding order_clause_def by (intro safe_intros)

lemma safe_group_clause [safe_intros]: "safe (group_clause source grouping)"
  unfolding group_clause_def by (auto intro!: safe_intros split: list.split)

lemma safe_getJsonArray [safe_intros]: "safe (getJsonArray source results x order)"
  unfolding getJsonArray_def by (intro safe_intros)

lemma safe_getJsonObject:
  assumes "safe_selects m sub"
  shows "fits n object \<Longrightarrow> n \<le> m \<Longrightarrow> safe (getJsonObject opts sub raw n object parent a)"
proof (induction n arbitrary: object parent)
  case 0
  then show ?case by (simp add: fits_def)
next
  case (Suc n)
  have "safe (json_entry opts sub (getJsonObject opts sub raw n) raw parent a (field, v))" if "(field, v) \<in> set object" for field v
  proof -
    from that Suc.prems(1) have small: "size v < n" by (auto simp: fits_def)
    show ?thesis
    proof (cases v)
      case (JsonSelect select)
      with small Suc.prems(2) have "safe (build_scoped sub select)" by (intro safe_build_scoped [OF assms]) simp
      then show ?thesis by (simp add: json_entry_def JsonSelect safe_intros)
    next
      case (JsonObject inner)
      with small have "fits n inner" by (intro fits_members) simp_all
      with Suc show ?thesis by (simp add: json_entry_def JsonObject Let_def safe_intros)
    qed (simp_all add: json_entry_def Let_def safe_intros)
  qed
  then show ?case by (auto intro!: safe_intros)
qed

lemma safe_result_column:
  assumes "safe_selects n sub" and "size column < n"
  shows "safe (result_column opts sub n source schema results column)"
proof (cases column)
  case (JsonColumn object order aggregate col own raw)
  with assms(2) have "fits n object" by (intro fits_members) simp_all
  from safe_getJsonObject [OF assms(1) this order_refl] show ?thesis
    by (simp add: result_column_def JsonColumn build_json_column_def safe_intros)
next
  case (AggregateColumn f col unique filters format own)
  have "safe (build_conditions opts sub n True (Some source) schema fs)" if "filters = Some fs" for fs
    by (rule safe_build_conditions [OF assms(1)]) (use assms(2) AggregateColumn that in \<open>auto intro: fits_members\<close>)
  then show ?thesis by (auto simp: result_column_def AggregateColumn build_aggregate_def Let_def intro!: safe_intros)
next
  case (SelectResult select)
  with assms have "safe (build_scoped sub select)" by (intro safe_build_scoped) simp_all
  then show ?thesis by (auto simp: result_column_def SelectResult intro!: safe_intros)
qed (auto simp: result_column_def intro!: safe_intros)

lemma safe_getResultColumns:
  assumes "safe_selects n sub" and "size_list size columns \<le> n"
  shows "safe (getResultColumns opts sub n source schema columns)"
  unfolding getResultColumns_def
  by (intro safe_intros safe_result_column [OF assms(1)]) (use assms(2) in \<open>auto dest: size_list_member [where f = size]\<close>)

lemma safe_returning_clause:
  assumes "safe_selects n sub" and "size_option (size_list size) returning \<le> n"
  shows "safe (returning_clause opts sub n source schema returning)"
  using assms(2) safe_getResultColumns [OF assms(1)]
  by (auto simp: returning_clause_def intro!: safe_intros split: option.split list.split)

section \<open>Tables and joins\<close>

definition safe_statements :: "nat \<Rightarrow> (sql_statement \<Rightarrow> sql build) \<Rightarrow> bool" where
  "safe_statements n any = (\<forall>s. size s < n \<longrightarrow> safe (any s))"

lemma safe_statementsD: "safe_statements n any \<Longrightarrow> size s < n \<Longrightarrow> safe (any s)"
  by (simp add: safe_statements_def)

lemma safe_table_expression:
  assumes "safe_selects n sub" and "safe_statements n any" and "size table < n"
  shows "safe (table_expression opts sub any source plain table)"
proof (cases table)
  case (TableUnion sources)
  have "safe (any s)" if "s \<in> set sources" for s
    using size_list_member [OF that, of size] assms(3) TableUnion by (intro safe_statementsD [OF assms(2)]) simp
  then show ?thesis by (auto simp: table_expression_def TableUnion build_union_def intro!: safe_intros)
next
  case (TableSelect select)
  with assms have "safe (sub select)" by (intro safe_selectsD [OF assms(1)]) simp
  then show ?thesis by (auto simp: table_expression_def TableSelect intro!: safe_intros)
qed (auto simp: table_expression_def intro!: safe_intros)

lemma safe_getSelectExpressions:
  assumes "safe_selects n sub" and "safe_statements n any" and "size_list size tables \<le> n"
  shows "safe (getSelectExpressions opts sub any source plain tables)"
  unfolding getSelectExpressions_def
  by (intro safe_intros safe_table_expression [OF assms(1,2)]) (use assms(3) in \<open>auto dest: size_list_member [where f = size]\<close>)

lemma safe_alias_clause [safe_intros]: "safe (alias_clause source)"
  unfolding alias_clause_def by (intro safe_intros)

lemma filters_fit:
  "size_option (size_list (size_prod (\<lambda>x. 0) size)) filters \<le> n \<Longrightarrow> filters = Some fs \<Longrightarrow> fits n fs"
  by (auto intro: fits_members)

lemma safe_clause:
  assumes "safe_selects n sub" and "size_option (size_list (size_prod (\<lambda>x. 0) size)) filters \<le> n"
  shows "safe (build_clause keyword opts sub n source schema filters)"
  by (rule safe_build_clause [OF assms(1) filters_fit [OF assms(2)]])

lemma safe_build_join:
  assumes "safe_selects n sub" and "size j \<le> n"
  shows "safe (build_join opts sub n j)"
proof (cases j)
  case (SqlJoin source schema table kind natural on)
  have "safe (build_conditions opts sub n True (Some source) schema fs)" if "on = Some fs" for fs
    by (rule safe_build_conditions [OF assms(1) filters_fit [OF _ that]]) (use assms(2) SqlJoin in simp)
  then show ?thesis by (auto simp: SqlJoin intro!: safe_intros split: sum.split)
qed

lemma safe_build_select:
  assumes "safe_selects n sub" and "safe_statements n any" and "size select \<le> n"
  shows "safe (build_select opts sub any n select)"
proof (cases select)
  case (SqlSelect source schema tables columns joins conds grouping having sorting skip limit lock)
  have "safe (build_join opts sub n j)" if "j \<in> set joins" for j
    by (rule safe_build_join [OF assms(1)]) (use size_list_member [OF that, of size] assms(3) SqlSelect in simp)
  moreover have "safe (build_clause keyword opts sub n source schema conds)" "safe (build_clause keyword opts sub n source schema having)" for keyword
    by (rule safe_clause [OF assms(1)], use assms(3) SqlSelect in simp)+
  moreover have "safe (getResultColumns opts sub n source schema columns)"
    by (rule safe_getResultColumns [OF assms(1)]) (use assms(3) SqlSelect in simp)
  moreover have "safe (getSelectExpressions opts sub any source True tables)"
    by (rule safe_getSelectExpressions [OF assms(1,2)]) (use assms(3) SqlSelect in simp)
  ultimately show ?thesis unfolding SqlSelect build_select.simps by (intro safe_intros)
qed

section \<open>Updates\<close>

lemma safe_update_operand [safe_intros]: "safe (update_operand schema fieldName x)"
  unfolding update_operand_def by (auto intro!: safe_intros split: option.split any_schema.split)

lemma safe_bindJsonKey [safe_intros]: "safe (bindJsonKey opts key)"
  unfolding bindJsonKey_def by (intro safe_intros)

lemma safe_update_value [safe_intros]: "safe (update_value opts source fieldName key v schema uc)"
  unfolding update_value_def Let_def by (cases v) (auto intro!: safe_intros)

lemma safe_getUpdateColumns:
  assumes "safe_selects m sub"
  shows "fits n fs \<Longrightarrow> n \<le> m \<Longrightarrow> safe (getUpdateColumns opts sub source n fs schema uc)"
proof (induction n arbitrary: fs schema uc)
  case 0
  then show ?case by (simp add: fits_def)
next
  case (Suc n)
  have "safe (update_field opts sub (getUpdateColumns opts sub source n) source schema uc (field, v))" if "(field, v) \<in> set fs" for field v
  proof -
    from that Suc.prems(1) have small: "size v < n" by (auto simp: fits_def)
    show ?thesis
    proof (cases v)
      case (SelectValue select)
      with small Suc.prems(2) have "safe (sub select)" by (intro safe_selectsD [OF assms]) simp
      then show ?thesis by (auto simp: update_field_def SelectValue Let_def intro!: safe_intros)
    next
      case (Fields inner)
      with small have "fits n inner" by (intro fits_members) simp_all
      with Suc show ?thesis by (auto simp: update_field_def Fields Let_def update_object_def intro!: safe_intros)
    qed (auto simp: update_field_def Let_def intro!: safe_intros)
  qed
  then show ?case by (auto intro!: safe_intros)
qed

section \<open>Statements\<close>

lemma safe_getValueReferences:
  assumes "safe_selects n sub" and "fits n fs"
  shows "safe (getValueReferences opts sub source schema fs columnNames)"
proof -
  have "safe (getValueReference opts sub source schema fs fieldName)" for fieldName
  proof (cases "field_value fs fieldName")
    case (SelectValue select)
    then have "(fieldName, SelectValue select) \<in> set fs"
      by (auto simp: field_value_def obj_get_def split: option.splits dest: map_of_SomeD)
    with assms(2) have "safe (sub select)" by (intro safe_selectsD [OF assms(1)]) (auto simp: fits_def)
    then show ?thesis by (simp add: getValueReference_def SelectValue Let_def safe_intros)
  qed (auto simp: getValueReference_def Let_def intro!: safe_intros)
  then show ?thesis unfolding getValueReferences_def by (intro safe_intros)
qed

lemma safe_conflict_clause:
  assumes "safe_selects n sub" and "size_option size conflict \<le> n"
  shows "safe (conflict_clause opts sub n source schema conflict)"
proof -
  have "safe (build_conflict opts sub n source schema c)" if "conflict = Some c" for c
  proof (cases c)
    case (SqlConflict columns fs conds)
    have "safe (getUpdateColumns opts sub source n r schema top_update)" if "fs = Some r" for r
      by (rule safe_getUpdateColumns [OF assms(1) filters_fit [OF _ that] order_refl])
        (use assms(2) \<open>conflict = Some c\<close> SqlConflict in simp)
    moreover have "safe (build_clause ''WHERE '' opts sub n source schema conds)"
      by (rule safe_clause [OF assms(1)]) (use assms(2) \<open>conflict = Some c\<close> SqlConflict in simp)
    ultimately show ?thesis by (auto simp: SqlConflict Let_def intro!: safe_intros)
  qed
  then show ?thesis unfolding conflict_clause_def
    by (auto simp del: build_conflict.simps intro!: safe_intros split: option.split sql_conflict.split list.split)
qed

lemma safe_insert_rows:
  assumes "safe_selects n sub" and "safe_statements n any" and "0 < n"
    and "size_option (size_list size) sources \<le> n" and "\<And>r. r \<in> set records \<Longrightarrow> fits n r"
    and "size_option (size_list (size_prod (\<lambda>x. 0) size)) conds \<le> n"
  shows "safe (insert_rows opts sub any n source schema sources records conds columnNames)"
proof -
  have "fits n (case records of [] \<Rightarrow> [] | r # _ \<Rightarrow> r)"
    using assms(3) assms(5) [of "hd records"] by (cases records) (simp_all add: fits_def)
  moreover have "safe (getSelectExpressions opts sub any source False tables)" if "sources = Some tables" for tables
    by (rule safe_getSelectExpressions [OF assms(1,2)]) (use assms(4) that in simp)
  ultimately show ?thesis unfolding insert_rows_def
    using safe_clause [OF assms(1,6)] by (auto intro!: safe_intros safe_getValueReferences [OF assms(1)] assms(5))
qed

lemma safe_build_insert:
  assumes "safe_selects n sub" and "safe_statements n any"
    and "size (InsertStatement source schema table sources records conds conflict returning) \<le> n"
  shows "safe (build_insert opts sub any n source schema table sources records conds conflict returning)"
proof -
  have "fits n r" if "r \<in> set records" for r
    by (rule fits_members) (use assms(3) size_list_member [OF that, of "size_list (size_prod (\<lambda>x. 0) size)"] in simp_all)
  then have "safe (insert_rows opts sub any n source schema sources records conds columnNames)" for columnNames
    by (intro safe_insert_rows [OF assms(1,2)]) (use assms(3) in simp_all)
  moreover have "safe (conflict_clause opts sub n source schema conflict)"
    by (rule safe_conflict_clause [OF assms(1)]) (use assms(3) in simp)
  moreover have "safe (returning_clause opts sub n source schema returning)"
    by (rule safe_returning_clause [OF assms(1)]) (use assms(3) in simp)
  ultimately show ?thesis unfolding build_insert_def Let_def by (auto intro!: safe_intros)
qed

lemma safe_build_update:
  assumes "safe_selects n sub" and "safe_statements n any"
    and "size (UpdateStatement source schema table tables fs conds returning) \<le> n"
  shows "safe (build_update opts sub any n source schema table tables fs conds returning)"
proof -
  have "safe (getUpdateColumns opts sub source n r schema top_update)" if "fs = Some r" for r
    by (rule safe_getUpdateColumns [OF assms(1) filters_fit [OF _ that] order_refl]) (use assms(3) in simp)
  moreover have "safe (table_expression opts sub any source False t)" if "tables = Some t" for t
    by (rule safe_table_expression [OF assms(1,2)]) (use assms(3) that in simp)
  moreover have "safe (build_clause ''WHERE '' opts sub n source schema conds)"
    by (rule safe_clause [OF assms(1)]) (use assms(3) in simp)
  moreover have "safe (returning_clause opts sub n source schema returning)"
    by (rule safe_returning_clause [OF assms(1)]) (use assms(3) in simp)
  ultimately show ?thesis unfolding build_update_def by (auto intro!: safe_intros)
qed

lemma safe_build_delete:
  assumes "safe_selects n sub" and "size (DeleteStatement source schema table conds returning) \<le> n"
  shows "safe (build_delete opts sub n source schema table conds returning)"
proof -
  have "safe (build_clause ''WHERE '' opts sub n source schema conds)"
    by (rule safe_clause [OF assms(1)]) (use assms(2) in simp)
  moreover have "safe (returning_clause opts sub n source schema returning)"
    by (rule safe_returning_clause [OF assms(1)]) (use assms(2) in simp)
  ultimately show ?thesis unfolding build_delete_def by (auto intro!: safe_intros)
qed

lemma safe_build: "safe_statements n (build opts n)"
proof (induction n)
  case 0
  show ?case by (simp add: safe_statements_def)
next
  case (Suc n)
  define sub where "sub = (\<lambda>select. build opts n (SelectStatement select))"
  have sub: "safe_selects n sub"
    unfolding safe_selects_def sub_def by (auto intro!: safe_statementsD [OF Suc])
  have "safe (build opts (Suc n) s)" if "size s < Suc n" for s
  proof (cases s)
    case (SelectStatement select)
    with that have "safe (build_select opts sub (build opts n) n select)" by (intro safe_build_select [OF sub Suc]) simp
    then show ?thesis by (simp add: SelectStatement sub_def Let_def)
  next
    case (InsertStatement source schema table sources records conds conflict returning)
    with that have "safe (build_insert opts sub (build opts n) n source schema table sources records conds conflict returning)"
      by (intro safe_build_insert [OF sub Suc]) simp
    then show ?thesis by (simp add: InsertStatement sub_def Let_def)
  next
    case (UpdateStatement source schema table tables fs conds returning)
    with that have "safe (build_update opts sub (build opts n) n source schema table tables fs conds returning)"
      by (intro safe_build_update [OF sub Suc]) simp
    then show ?thesis by (simp add: UpdateStatement sub_def Let_def)
  next
    case (DeleteStatement source schema table conds returning)
    with that have "safe (build_delete opts sub n source schema table conds returning)" by (intro safe_build_delete [OF sub]) simp
    then show ?thesis by (simp add: DeleteStatement sub_def Let_def)
  qed
  then show ?case by (simp add: safe_statements_def)
qed

lemma safe_getQueries:
  assumes "safe_statements n any" and "list_all (\<lambda>s. size s < n) ss"
  shows "safe (getQueries any a final previous ss)"
  using assms(2)
proof (induction ss arbitrary: previous)
  case (Cons s ss)
  then show ?case using safe_statementsD [OF assms(1)] by (auto intro!: safe_intros)
qed (simp add: safe_intros)

text \<open>
  C31. A statement is built with a stack that is deeper than the statement is large: no build of it, and none
  of a \<open>WITH\<close> clause of such statements, overflows. What a build answers then is the statement or an error
  of the builder, however its filters, records and subqueries are nested.
\<close>

theorem build_does_not_overflow:
  assumes "list_all (\<lambda>s. size s < stack) (statement # sources)"
  shows "build opts stack statement refs \<noteq> Inl StackOverflow \<and> build_with opts stack own sources refs \<noteq> Inl StackOverflow"
proof -
  have safe: "safe (build opts stack s)" if "size s < stack" for s
    using safe_statementsD [OF safe_build that] .
  have "safe (build_with opts stack own sources)"
    using assms safe unfolding build_with_def
    by (auto intro!: safe_intros safe_getQueries [OF safe_build] split: list.split)
  moreover have "safe (build opts stack statement)" using assms safe by simp
  ultimately show ?thesis by (simp add: safe_def)
qed

end
