(* ===== verification/Sql_Safety.thy ===== *)
theory Sql_Safety
  imports Sql_Depth
begin

text \<open>
  More properties of the SQL builder: filters that restrict keep their clause, the aliases a builder
  hands out differ, and a statement is built with a stack deeper than it is large.
\<close>

section \<open>Filters that restrict\<close>

text \<open>A value that is compared as it is, or the object of one operator with an operand.\<close>

definition restricts :: "string \<times> sql_value \<Rightarrow> bool" where
  "restricts entry =
     (fst entry \<notin> {''AND'', ''OR'', ''NOT''} \<and>
      (case snd entry of
         NoValue \<Rightarrow> False
       | Fields [(operator, operand)] \<Rightarrow> operator \<in> set all_operators \<and> given operand
       | Fields fs \<Rightarrow> False
       | RawOperation operator r \<Rightarrow> False
       | RawCondition values template \<Rightarrow> False
       | Instance r \<Rightarrow> False
       | _ \<Rightarrow> True))"

definition answers_some :: "'a option build \<Rightarrow> bool" where
  "answers_some m = (\<forall>refs x vs refs'. m refs = Inr (x, vs, refs') \<longrightarrow> x \<noteq> None)"

lemma answers_some_intros:
  "answers_some (give (Some x))"
  "(\<And>x. answers_some (k x)) \<Longrightarrow> answers_some (andThen m k)"
  "answers_some (raise e)"
  by (auto simp: answers_some_def give_def andThen_def raise_def split: sum.splits prod.splits)

lemma final_operation_answers:
  "operator \<in> set all_operators \<Longrightarrow> given operand \<Longrightarrow> answers_some (getFinalOperation opts c schema (operator, operand) ctx)"
  by (auto simp: getFinalOperation_def all_operators_def answers_some_intros)

lemma single_operation_answers:
  assumes "answers_some (getFinalOperation opts c schema operation ctx)"
  shows "answers_some (getSingleOperation opts rec c schema operation ctx)"
  using assms unfolding getSingleOperation_def answers_some_def
  by (auto simp: andThen_def give_def split: sum.splits prod.splits option.splits) blast+

lemma operator_not_flag: "operator \<in> set all_operators \<Longrightarrow> operator \<noteq> ''insensitive'' \<and> operator \<noteq> ''count''"
  by (auto simp: all_operators_def)

lemma column_operation_answers:
  assumes "restricts (field, v)"
  shows "answers_some (column_operation opts sub rec name c schema v ctx)"
proof (cases v)
  case (Fields fs)
  with assms obtain operator operand where fs: "fs = [(operator, operand)]" and op: "operator \<in> set all_operators" "given operand"
    by (cases fs; cases "tl fs") (auto simp: restricts_def)
  show ?thesis
    using single_operation_answers [OF final_operation_answers [OF op]] operator_not_flag [OF op(1)]
    by (simp add: column_operation_def Fields fs written_by_caller_def any_object_def own_entries_def object_operation_def Let_def)
qed (use assms in \<open>auto simp: restricts_def column_operation_def written_by_caller_def any_object_def intro!: answers_some_intros\<close>)

lemma field_operation_answers:
  assumes "restricts (field, v)" shows "answers_some (getFieldOperation opts sub rec field v schema ctx)"
  using assms column_operation_answers [OF assms]
  unfolding getFieldOperation_def Let_def by (auto simp: restricts_def intro!: answers_some_intros)

lemma each_answer:
  "each h xs refs = Inr (ys, vs, refs') \<Longrightarrow> x \<in> set xs \<Longrightarrow> \<exists>y \<in> set ys. \<exists>r ws r'. h x r = Inr (y, ws, r')"
proof (induction xs arbitrary: refs ys vs)
  case (Cons a xs)
  from Cons.prems(1) obtain y us refs1 zs ws where "h a refs = Inr (y, us, refs1)" "each h xs refs1 = Inr (zs, ws, refs')" "ys = y # zs"
    by (auto simp: andThen_def give_def split: sum.splits prod.splits)
  with Cons.IH [of refs1 zs ws] Cons.prems(2) show ?case by auto
qed simp

lemma filter_operations_nonempty:
  assumes "filter_operations opts sub rec fs schema ctx refs = Inr (ops, vs, refs')"
    and "(field, v) \<in> set fs" and "restricts (field, v)"
  shows "ops \<noteq> []"
proof -
  let ?h = "\<lambda>(field, v). getFieldOperation opts sub rec field v schema (ctx\<lparr>oc_field := Some field\<rparr>)"
  from assms(1) obtain xs ws where xs: "each ?h (filter (\<lambda>p. given (snd p)) fs) refs = Inr (xs, ws, refs')" and ops: "ops = List.map_filter id xs"
    unfolding filter_operations_def by (auto simp: andThen_def give_def split: sum.splits prod.splits)
  have "(field, v) \<in> set (filter (\<lambda>p. given (snd p)) fs)"
    using assms(2,3) by (auto simp: restricts_def given_def split: sql_value.splits)
  from each_answer [OF xs this] obtain y r us r' where y: "y \<in> set xs" "?h (field, v) r = Inr (y, us, r')" by blast
  then have "y \<noteq> None"
    using field_operation_answers [OF assms(3), of opts sub rec schema "ctx\<lparr>oc_field := Some field\<rparr>"]
    unfolding answers_some_def prod.case by blast
  then obtain z where "y = Some z" by blast
  with y(1) have "z \<in> set ops" unfolding ops set_map_filter_id by force
  then show ?thesis by auto
qed

lemma restricts_not_empty: "(field, v) \<in> set fs \<Longrightarrow> restricts (field, v) \<Longrightarrow> \<not> isEmptyFilters fs"
proof (induction fs)
  case (Cons p fs)
  have "\<not> isEmptyFilters ((field, v) # fs)" if "restricts (field, v)"
  proof (cases v)
    case (Fields inner)
    with that obtain operator operand where "inner = [(operator, operand)]" "given operand"
      and op: "operator \<in> set all_operators" by (cases inner; cases "tl inner") (auto simp: restricts_def)
    with Fields show ?thesis by (cases operand) (simp_all add: given_def)
  qed (use that in \<open>simp_all add: restricts_def\<close>)
  with Cons show ?case by (cases p) auto
qed simp


section \<open>Samples\<close>

definition sample_builder :: builder_options where
  "sample_builder = \<lparr>onPrepareVariable = None, onPrepareArray = None, textOf = (\<lambda>v. ''0''), jsonOf = (\<lambda>v. ''{}'')\<rparr>"

definition sample_filters :: filters where
  "sample_filters = [(''id'', NumberValue (Fin 7)), (''name'', Fields [(''startsWith'', TextValue ''a_'')])]"

definition sample_delete :: sql_statement where
  "sample_delete = DeleteStatement 0 None (Some ''users'') (Some sample_filters) None"

lemma sample_clause:
  "build_clause ''WHERE '' sample_builder sub (Suc (Suc n)) 0 None (Some sample_filters) new_references =
     Inr ([T ''WHERE '' @ T (escapeSqlName ''id'') @ T '' = '' @ [Bind 0 (NumberValue (Fin 7))] @ T '' AND '' @
       T (escapeSqlName ''name'') @ T '' LIKE '' @ [Bind 1 (TextValue (escape_pattern ''a_''))] @ T ('' || '' @ escapeSqlText ''%'')],
       [NumberValue (Fin 7), TextValue (escape_pattern ''a_'')], new_references\<lparr>counter := 2\<rparr>)"
  by (simp add: sample_filters_def sample_builder_def new_references_def build_clause_def build_conditions_def filter_operations_def
      getFieldOperation_def column_operation_def object_operation_def getSingleOperation_def getFinalOperation_def
      getEqualOperation_def getStartsWithOperation_def getOperandPattern_def getOperandValue_def bind_variable_def
      source_alias_def alias_now_def andThen_def give_def given_def written_by_caller_def any_object_def own_entries_def
      field_value_def obj_get_def mergeSqlPath_def mergeSqlAlias_def truthy_name_def left_operand_def right_operand_def
      getOperandColumn_def getOperandFunction_def ignores_case_def truthy_value_def Let_def map_filter_simps
      all_operators_def isNestedSchema.simps numeral_2_eq_2)

lemma sample_build:
  "\<exists>x. build sample_builder 3 sample_delete new_references =
     Inr (x, [NumberValue (Fin 7), TextValue (escape_pattern ''a_'')], new_references\<lparr>counter := 2\<rparr>) \<and>
     (1, TextValue (escape_pattern ''a_'')) \<in> binds x"
proof -
  define sub where "sub = (\<lambda>select. build sample_builder (Suc (Suc 0)) (SelectStatement select))"
  have "build sample_builder 3 sample_delete =
      build_delete sample_builder sub (Suc (Suc 0)) 0 None (Some ''users'') (Some sample_filters) None"
    unfolding numeral_3_eq_3 sample_delete_def build.simps(2) [of _ "Suc (Suc 0)"] Let_def sql_statement.case sub_def ..
  then show ?thesis
    by (simp add: build_delete_def sample_clause truthy_name_def alias_clause_def alias_now_def returning_clause_def
        andThen_def give_def)
qed

theorem placeholders_stand_for_variables_witness:
  "\<exists>x vs refs'. build sample_builder 3 sample_delete new_references = Inr (x, vs, refs') \<and>
     (1, TextValue (escape_pattern ''a_'')) \<in> binds x \<and> vs ! 1 = TextValue (escape_pattern ''a_'')"
proof -
  from sample_build obtain x where x: "build sample_builder 3 sample_delete new_references =
     Inr (x, [NumberValue (Fin 7), TextValue (escape_pattern ''a_'')], new_references\<lparr>counter := 2\<rparr>)"
    "(1, TextValue (escape_pattern ''a_'')) \<in> binds x" by blast
  from placeholders_stand_for_variables [OF disjI1 [OF x(1)] x(2)] x show ?thesis by (auto simp: new_references_def)
qed

theorem build_does_not_overflow_witness:
  "build sample_builder 20 sample_delete new_references \<noteq> Inl StackOverflow \<and>
   build_with sample_builder 20 None [sample_delete, sample_delete] new_references \<noteq> Inl StackOverflow"
  by (rule build_does_not_overflow) (simp add: sample_delete_def sample_filters_def)


section \<open>Aliases\<close>

text \<open>
  A subquery column loses its alias when it is built: the temporary alias, or none, stays, and the
  statement can not be built a second time.
\<close>

lemma subquery_column_builds_once:
  assumes "alias_of refs (select_id select) = Some name" and "name \<noteq> []" and "\<not> has_filters select"
    and "sub select (refs\<lparr>alias_of := (alias_of refs)(select_id select := None)\<rparr>) = Inr (x, vs, refs')"
    and "alias_of refs' (select_id select) = None"
  shows "result_column opts sub stack source schema results (SelectResult select) refs =
      Inr (T ''('' @ x @ T '') AS '' @ T (escapeSqlName name), vs, refs')"
    and "result_column opts sub stack source schema results (SelectResult select) refs' = Inl MissingColumnAliasError"
  using assms
  by (auto simp: result_column_def andThen_def alias_now_def set_alias_def build_scoped_def give_def raise_def truthy_name_def
      split: list.split)

definition ends_in_digit :: "string \<Rightarrow> bool" where
  "ends_in_digit s = (s \<noteq> [] \<and> is_digit_char (last s))"

lemma digits_suffix:
  assumes "\<not> ends_in_digit c"
  shows "takeWhile is_digit_char (rev (c @ digits_of k)) = rev (digits_of k)"
proof -
  have digits: "takeWhile is_digit_char (rev (digits_of k) @ rest) = rev (digits_of k) @ takeWhile is_digit_char rest" for rest
    by (rule takeWhile_append2) (simp add: digits_of_digit)
  have "takeWhile is_digit_char (rev c) = []"
    using assms by (cases c rule: rev_cases) (simp_all add: ends_in_digit_def)
  with digits [of "rev c"] show ?thesis by (simp only: rev_append append_Nil2)
qed

lemma alias_inject:
  assumes "a @ digits_of n = b @ digits_of m" and "\<not> ends_in_digit a" and "\<not> ends_in_digit b"
  shows "a = b \<and> n = m"
proof -
  have "rev (digits_of n) = rev (digits_of m)"
    using digits_suffix [OF assms(2), of n] digits_suffix [OF assms(3), of m] assms(1) by (simp only:)
  then have same: "digits_of n = digits_of m" by (simp only: rev_is_rev_conv)
  from arg_cong [OF this, of dec_value] have "n = m" by (simp only: digits_of_value)
  moreover have "a = b" using assms(1) unfolding same by (simp only: append_same_eq)
  ultimately show ?thesis by (rule conjI [rotated])
qed

definition uses :: "builder_references \<Rightarrow> string \<Rightarrow> nat" where
  "uses refs a = (case obj_get (aliases refs) a of None \<Rightarrow> 0 | Some n \<Rightarrow> n)"

lemma getUniqueAlias_uses:
  "\<exists>refs'. getUniqueAlias a refs = Inr (a @ digits_of (uses refs a), [], refs') \<and>
     (\<forall>b. uses refs' b = (if b = a then Suc (uses refs a) else uses refs b))"
  by (auto simp: getUniqueAlias_def uses_def Let_def)

text \<open>The aliases of a sequence of calls: numbered from the uses before the calls, and no two the same.\<close>

lemma each_alias:
  assumes "\<And>a. a \<in> set names \<Longrightarrow> \<not> ends_in_digit a"
  shows "\<exists>as refs'. each getUniqueAlias names refs = Inr (as, [], refs') \<and> distinct as \<and>
    (\<forall>x \<in> set as. \<exists>a k. x = a @ digits_of k \<and> uses refs a \<le> k \<and> \<not> ends_in_digit a)"
  using assms
proof (induction names arbitrary: refs)
  case Nil
  show ?case by (simp add: give_def)
next
  case (Cons a names)
  obtain refs1 where first: "getUniqueAlias a refs = Inr (a @ digits_of (uses refs a), [], refs1)"
    and count: "\<And>b. uses refs1 b = (if b = a then Suc (uses refs a) else uses refs b)"
    using getUniqueAlias_uses [of a refs] by blast
  from Cons.IH [of refs1] Cons.prems obtain as refs2 where rest: "each getUniqueAlias names refs1 = Inr (as, [], refs2)" "distinct as"
    and later: "\<And>x. x \<in> set as \<Longrightarrow> \<exists>b k. x = b @ digits_of k \<and> uses refs1 b \<le> k \<and> \<not> ends_in_digit b"
    by auto
  have a: "\<not> ends_in_digit a" using Cons.prems by simp
  have "a @ digits_of (uses refs a) \<notin> set as"
  proof
    assume "a @ digits_of (uses refs a) \<in> set as"
    then obtain b k where b: "a @ digits_of (uses refs a) = b @ digits_of k" "uses refs1 b \<le> k" "\<not> ends_in_digit b" using later by blast
    from alias_inject [OF b(1) a b(3)] b(2) count [of b] show False by auto
  qed
  moreover have "\<exists>b k. x = b @ digits_of k \<and> uses refs b \<le> k \<and> \<not> ends_in_digit b" if "x \<in> set as" for x
  proof -
    from later [OF that] obtain b k where b: "x = b @ digits_of k" "uses refs1 b \<le> k" "\<not> ends_in_digit b" by blast
    moreover have "uses refs b \<le> k" using b(2) count [of b] by (auto split: if_splits)
    ultimately show ?thesis by blast
  qed
  ultimately show ?case using first rest a by (auto simp: andThen_def give_def)
qed

text \<open>
  C40. The aliases a builder hands out differ: whatever the names asked for and whatever was handed out
  before, the calls answer with distinct aliases, as long as no name ends in a digit. The
  names of the builder, \<open>S\<close>, \<open>U\<close> and \<open>Q\<close>, do not.
\<close>

theorem unique_aliases:
  assumes "list_all (\<lambda>a. \<not> ends_in_digit a) names"
  shows "\<exists>as refs'. each getUniqueAlias names refs = Inr (as, [], refs') \<and> distinct as"
  using each_alias [of names refs] assms by (auto simp: list_all_iff)

theorem unique_aliases_witness:
  "\<exists>as refs'. each getUniqueAlias [''S'', ''U'', ''S'', ''Q''] new_references = Inr (as, [], refs') \<and> distinct as"
  by (rule unique_aliases) (simp add: ends_in_digit_def is_digit_char_def)

text \<open>A name of the caller that ends in a digit can collide: the eleventh alias of \<open>S\<close> is the first of \<open>S1\<close>.\<close>

lemma aliases_collide:
  assumes "uses refs ''S'' = 10" and "uses refs ''S1'' = 0"
  shows "\<exists>refs' refs''. getUniqueAlias ''S'' refs = Inr (''S10'', [], refs') \<and> getUniqueAlias ''S1'' refs' = Inr (''S10'', [], refs'')"
proof -
  obtain refs' where first: "getUniqueAlias ''S'' refs = Inr (''S'' @ digits_of (uses refs ''S''), [], refs')"
    and count: "\<And>b. uses refs' b = (if b = ''S'' then Suc (uses refs ''S'') else uses refs b)" using getUniqueAlias_uses [of "''S''" refs] by blast
  obtain refs'' where second: "getUniqueAlias ''S1'' refs' = Inr (''S1'' @ digits_of (uses refs' ''S1''), [], refs'')"
    using getUniqueAlias_uses [of "''S1''" refs'] by blast
  have "digits_of 10 = ''10''" "digits_of 0 = ''0''" by (code_simp, code_simp)
  with first second count [of "''S1''"] assms show ?thesis by simp
qed

end
