(* ===== verification/Migration_Text.thy ===== *)
theory Migration_Text
  imports Sql_Safety
begin

text \<open>
  Texts of the migrations of \<open>libraries/pgmigration/src\<close>: the names of keys and constraints
  (\<open>utils/naming.ts\<close>), which PostgreSQL cuts at a number of bytes, and the block that runs a statement
  with a lock timeout (\<open>utils/lock.ts\<close>), which is quoted with a tag.
\<close>

section \<open>Names\<close>

definition MAX_NAME_SIZE :: int where
  "MAX_NAME_SIZE = 63"

text \<open>
  The loop of \<open>clipName\<close> drops the last character until the name is short enough. The empty name
  stays empty, so with a negative size the loop never ends, which is \<open>None\<close>.
\<close>

function clipName :: "string \<Rightarrow> int \<Rightarrow> string option" where
  "clipName name limit =
     (if int (byteLength name) \<le> limit then Some name else if name = [] then None else clipName (butlast name) limit)"
  by pat_completeness auto
termination
  by (relation "measure (length \<circ> fst)") auto

declare clipName.simps [simp del]

definition lastIndexOf :: "char \<Rightarrow> string \<Rightarrow> nat option" where
  "lastIndexOf c s = (if c \<in> set s then Some (length s - 1 - length (takeWhile (\<lambda>x. x \<noteq> c) (rev s))) else None)"

definition getTemporaryName :: "(string \<Rightarrow> string) \<Rightarrow> string \<Rightarrow> string option" where
  "getTemporaryName hashData name =
     (let separator = lastIndexOf (CHR ''_'') name;
          front = (case separator of None \<Rightarrow> [] | Some k \<Rightarrow> take k name);
          suffix = (case separator of None \<Rightarrow> name | Some k \<Rightarrow> drop k name);
          temporaryName = front @ ''_tmp'' @ suffix
      in if int (byteLength temporaryName) \<le> MAX_NAME_SIZE then Some temporaryName
         else let marker = ''_'' @ take 8 (hashData name) @ ''_tmp'' @ suffix
              in map_option (\<lambda>clipped. clipped @ marker) (clipName front (MAX_NAME_SIZE - int (byteLength marker))))"

definition getStoredName :: "string \<Rightarrow> string option" where
  "getStoredName name = clipName name MAX_NAME_SIZE"

text \<open>\<open>name.replaceAll(':', '_')\<close>\<close>

definition getName :: "string \<Rightarrow> string \<Rightarrow> string" where
  "getName table name = table @ ''_'' @ toSnakeCase (map (\<lambda>c. if c = CHR '':'' then CHR ''_'' else c) name)"

definition getPrimaryKeyName :: "string \<Rightarrow> string \<Rightarrow> string" where
  "getPrimaryKeyName table name = getName table name @ ''_pk''"

definition getUniqueKeyName :: "string \<Rightarrow> string \<Rightarrow> string" where
  "getUniqueKeyName table name = getName table name @ ''_uk''"

definition getSecondaryKeyName :: "string \<Rightarrow> string \<Rightarrow> string" where
  "getSecondaryKeyName table name = getName table name @ ''_sk''"

definition getRelationName :: "string \<Rightarrow> string \<Rightarrow> string" where
  "getRelationName table name = getName table name @ ''_fk''"

definition getConstraintName :: "string \<Rightarrow> string \<Rightarrow> string" where
  "getConstraintName table name = getName table name @ ''_ck''"

lemma byteLength_simps [simp]:
  "byteLength [] = 0" "byteLength (s @ t) = byteLength s + byteLength t"
  "byteLength (c # s) = (if (of_char c :: nat) < 128 then 1 else 2) + byteLength s"
  by (simp_all add: byteLength_def)

lemma clipName_fits:
  "clipName name limit = Some t \<Longrightarrow> int (byteLength t) \<le> limit \<and> prefix t name"
proof (induction name rule: length_induct)
  case (1 name)
  show ?case
  proof (cases "int (byteLength name) \<le> limit")
    case True
    with 1(2) show ?thesis by (simp add: clipName.simps [of name])
  next
    case False
    with 1(2) have "name \<noteq> []" "clipName (butlast name) limit = Some t" by (auto simp: clipName.simps [of name] split: if_splits)
    with 1(1) [rule_format, of "butlast name"] have "int (byteLength t) \<le> limit \<and> prefix t (butlast name)" by simp
    then show ?thesis using prefix_order.trans [OF _ prefixeq_butlast] by blast
  qed
qed

lemma clipName_returns: "0 \<le> limit \<Longrightarrow> \<exists>t. clipName name limit = Some t"
proof (induction name rule: length_induct)
  case (1 name)
  then show ?case by (cases "name = []") (auto simp: clipName.simps [of name] clipName.simps [of "[]"])
qed

text \<open>With a size below zero the loop does not end.\<close>

lemma clipName_diverges: "limit < 0 \<Longrightarrow> clipName name limit = None"
proof (induction name rule: length_induct)
  case (1 name)
  then show ?case by (cases "name = []") (simp_all add: clipName.simps [of name] clipName.simps [of "[]"])
qed

lemma lastIndexOf_suffix:
  assumes "CHR ''_'' \<notin> set rest"
  shows "lastIndexOf (CHR ''_'') (front @ ''_'' @ rest) = Some (length front)"
proof -
  have "takeWhile (\<lambda>x. x \<noteq> CHR ''_'') (rev rest @ CHR ''_'' # rev front) = rev rest"
    using assms by (subst takeWhile_append2) auto
  then show ?thesis by (simp add: lastIndexOf_def)
qed

lemma temporary_name_cases:
  assumes "CHR ''_'' \<notin> set kind" and "byteLength kind = 2" and "name = front @ ''_'' @ kind"
    and "byteLength (take 8 (hashData name)) = 8"
  obtains (short) "getTemporaryName hashData name = Some (front @ ''_tmp_'' @ kind)" "byteLength (front @ ''_tmp_'' @ kind) \<le> 63"
  | (long) clipped where "getTemporaryName hashData name = Some (clipped @ ''_'' @ take 8 (hashData name) @ ''_tmp_'' @ kind)"
      "byteLength clipped \<le> 47"
proof -
  have parts: "take (length front) name = front" "drop (length front) name = ''_'' @ kind" by (simp_all add: assms(3))
  define marker where "marker = ''_'' @ take 8 (hashData name) @ ''_tmp'' @ ''_'' @ kind"
  have marker: "byteLength marker = 16" using assms(2,4) by (simp add: marker_def)
  have name: "getTemporaryName hashData name =
      (if int (byteLength (front @ ''_tmp_'' @ kind)) \<le> MAX_NAME_SIZE then Some (front @ ''_tmp_'' @ kind)
       else map_option (\<lambda>clipped. clipped @ marker) (clipName front (MAX_NAME_SIZE - int (byteLength marker))))"
    using lastIndexOf_suffix [OF assms(1), of front, folded assms(3)] parts
    by (simp only: getTemporaryName_def marker_def Let_def option.case append_assoc append_Cons append_Nil)
  show thesis
  proof (cases "byteLength (front @ ''_tmp_'' @ kind) \<le> 63")
    case True
    then show ?thesis by (intro short) (simp_all add: name MAX_NAME_SIZE_def)
  next
    case False
    obtain clipped where c: "clipName front 47 = Some clipped" using clipName_returns [of 47 front] by auto
    with clipName_fits [OF c] False show ?thesis
      by (intro long [of clipped]) (simp_all add: name marker MAX_NAME_SIZE_def, simp add: marker_def)
  qed
qed

lemma stored_short: "byteLength t \<le> 63 \<Longrightarrow> getStoredName t = Some t"
  by (simp add: getStoredName_def clipName.simps [of t] MAX_NAME_SIZE_def)

lemma stored_prefix: "getStoredName name = Some t \<Longrightarrow> prefix t name"
  by (auto simp: getStoredName_def dest: clipName_fits)

lemma temporary_name_stored:
  assumes "name \<in> {getPrimaryKeyName table column, getUniqueKeyName table column, getSecondaryKeyName table column,
      getRelationName table column, getConstraintName table column}"
    and "byteLength (take 8 (hashData name)) = 8" and "\<not> sublist (take 8 (hashData name)) name"
  shows "\<exists>t. getTemporaryName hashData name = Some t \<and> getStoredName t = Some t \<and> getStoredName name \<noteq> Some t"
proof -
  from assms(1) have "\<exists>kind \<in> {''pk'', ''uk'', ''sk'', ''fk'', ''ck''}. name = getName table column @ ''_'' @ kind"
    by (auto simp: getPrimaryKeyName_def getUniqueKeyName_def getSecondaryKeyName_def getRelationName_def getConstraintName_def)
  then obtain front kind where kind: "CHR ''_'' \<notin> set kind" "byteLength kind = 2" "name = front @ ''_'' @ kind" by force
  then show ?thesis
  proof (cases rule: temporary_name_cases [where hashData = hashData, OF kind assms(2)])
    case 1
    then have "getStoredName name = Some name" by (intro stored_short) (simp add: kind(3))
    with 1 show ?thesis by (auto simp: kind(3) intro!: stored_short)
  next
    case (2 clipped)
    let ?t = "clipped @ ''_'' @ take 8 (hashData name) @ ''_tmp_'' @ kind"
    have "sublist (take 8 (hashData name)) ?t" by (auto simp: sublist_def) (metis append.assoc append_Cons append_Nil)
    then have "\<not> prefix ?t name" using assms(3) by (meson prefix_imp_sublist sublist_order.order_trans)
    then have "getStoredName name \<noteq> Some ?t" using stored_prefix by blast
    moreover have "getStoredName ?t = Some ?t" using 2(2) kind(2) assms(2) by (intro stored_short) simp
    ultimately show ?thesis using 2(1) by blast
  qed
qed

text \<open>
  C39. The temporary name of a key or a constraint: the loop that shortens it ends, PostgreSQL stores the name
  as it is, and the stored name is not that of the key it replaces. The hash of the name has eight
  characters of one byte, and is not itself a part of the name.
\<close>

theorem temporary_name_is_stored_apart:
  assumes "name \<in> {getPrimaryKeyName table column, getUniqueKeyName table column, getSecondaryKeyName table column,
      getRelationName table column, getConstraintName table column}"
    and "byteLength (take 8 (hashData name)) = 8" and "\<not> sublist (take 8 (hashData name)) name"
  shows "\<exists>t. getTemporaryName hashData name = Some t \<and> getStoredName t = Some t \<and> getStoredName name \<noteq> Some t"
  using assms by (rule temporary_name_stored)

text \<open>A name without an underscore near its end is never shortened: the loop does not end.\<close>

lemma temporary_name_diverges:
  assumes "CHR ''_'' \<notin> set name" and "63 \<le> byteLength name"
  shows "getTemporaryName hashData name = None"
  using assms by (simp add: getTemporaryName_def lastIndexOf_def Let_def MAX_NAME_SIZE_def clipName_diverges)

theorem temporary_name_is_stored_apart_witness:
  "\<exists>t. getTemporaryName (\<lambda>s. ''0123abcd'') (getConstraintName ''user'' ''status'') = Some t \<and> getStoredName t = Some t \<and>
     getStoredName (getConstraintName ''user'' ''status'') \<noteq> Some t"
proof (rule temporary_name_is_stored_apart [where table = "''user''" and column = "''status''"])
  have name: "getConstraintName ''user'' ''status'' = ''user_status_ck''" by code_simp
  show "\<not> sublist (take 8 ''0123abcd'') (getConstraintName ''user'' ''status'')"
    unfolding name by (auto dest: set_mono_sublist)
qed simp_all

section \<open>Quoting with a tag\<close>

definition tag_at :: "string \<Rightarrow> nat \<Rightarrow> string" where
  "tag_at name k = ''$'' @ name @ (if k = 0 then [] else ''_'' @ digits_of k) @ ''$''"

text \<open>The loop takes the next tag while the text has the current one.\<close>

partial_function (option) tag_loop :: "string \<Rightarrow> string \<Rightarrow> nat \<Rightarrow> string option" where
  [code]: "tag_loop content name k =
     (if sublist (tag_at name k) content then tag_loop content name (Suc k) else Some (tag_at name k))"

definition getDollarQuoteTag :: "string \<Rightarrow> string \<Rightarrow> string option" where
  "getDollarQuoteTag content name = tag_loop content name 0"

definition MIGRATION_LOCK_TIMEOUT :: string where
  "MIGRATION_LOCK_TIMEOUT = ''5s''"

definition lock_body :: "string \<Rightarrow> string \<Rightarrow> string" where
  "lock_body lockTimeout query =
     '' BEGIN PERFORM set_config('' @ [CHR 39] @ ''lock_timeout'' @ [CHR 39] @ '', '' @ [CHR 39] @ lockTimeout @ [CHR 39] @ '', true); '' @
       query @ ''; END ''"

definition getMigrationQuery :: "string \<Rightarrow> bool \<Rightarrow> string \<Rightarrow> string option" where
  "getMigrationQuery query concurrent lockTimeout =
     (if concurrent then Some query
      else map_option (\<lambda>tag. ''DO '' @ tag @ lock_body lockTimeout query @ tag) (getDollarQuoteTag query ''ez4''))"

text \<open>How PostgreSQL reads the text after \<open>DO\<close>: the tag up to the second dollar, then everything up to the next tag.\<close>

fun split_at :: "string \<Rightarrow> string \<Rightarrow> (string \<times> string) option" where
  "split_at tag [] = (if tag = [] then Some ([], []) else None)"
| "split_at tag (c # s) =
     (if prefix tag (c # s) then Some ([], drop (length tag) (c # s))
      else map_option (\<lambda>(a, b). (c # a, b)) (split_at tag s))"

definition read_dollar :: "string \<Rightarrow> (string \<times> string) option" where
  "read_dollar s =
     (case s of
        [] \<Rightarrow> None
      | c # r \<Rightarrow>
          if c = CHR ''$'' \<and> CHR ''$'' \<in> set r
          then let tag = CHR ''$'' # takeWhile (\<lambda>x. x \<noteq> CHR ''$'') r @ ''$''
               in split_at tag (drop (length tag) s)
          else None)"

text \<open>A tag that does not occur in a text is not found before the end of the text.\<close>

lemma split_at_tag:
  assumes "x \<notin> set w" and "x \<noteq> CHR ''$''"
  shows "\<not> sublist (''$'' @ w @ ''$'') (s @ [x]) \<Longrightarrow> split_at (''$'' @ w @ ''$'') (s @ [x] @ ''$'' @ w @ ''$'') = Some (s @ [x], [])"
proof (induction s)
  case Nil
  show ?case using assms(2) by simp
next
  case (Cons c s)
  have "\<not> prefix (''$'' @ w @ ''$'') (c # s @ [x] @ ''$'' @ w @ ''$'')"
  proof
    assume "prefix (''$'' @ w @ ''$'') (c # s @ [x] @ ''$'' @ w @ ''$'')"
    then have c: "c = CHR ''$''" and w: "prefix (w @ ''$'') ((s @ [x]) @ ''$'' @ w @ ''$'')" by auto
    show False
    proof (cases "length (s @ [x]) \<le> length w")
      case True
      from w have "prefix w ((s @ [x]) @ ''$'' @ w @ ''$'')" by (rule append_prefixD)
      with True have "prefix (s @ [x]) w" by (metis prefixI prefix_length_prefix)
      then have "x \<in> set w" by (auto simp: prefix_def)
      with assms(1) show False ..
    next
      case False
      with w have "prefix (w @ ''$'') (s @ [x])" by (intro prefix_length_prefix [OF w]) simp_all
      then have "prefix (''$'' @ w @ ''$'') ((c # s) @ [x])" by (simp add: c)
      with Cons.prems show False using prefix_imp_sublist by blast
    qed
  qed
  moreover have "\<not> sublist (''$'' @ w @ ''$'') (s @ [x])" using Cons.prems sublist_Cons_right by fastforce
  ultimately show ?case using Cons.IH by simp
qed

lemma tag_at_inj: "tag_at name j = tag_at name k \<Longrightarrow> j = k"
proof -
  assume same: "tag_at name j = tag_at name k"
  show "j = k"
  proof (cases "j = 0 \<or> k = 0")
    case True
    with same show ?thesis by (cases "j = 0"; cases "k = 0") (simp_all add: tag_at_def)
  next
    case False
    with same have "digits_of j = digits_of k" by (simp add: tag_at_def)
    from arg_cong [OF this, of dec_value] show ?thesis by (simp only: digits_of_value)
  qed
qed

lemma tag_loop_returns:
  assumes "\<not> sublist (tag_at name (k + d)) content"
  shows "\<exists>j. tag_loop content name k = Some (tag_at name j) \<and> \<not> sublist (tag_at name j) content"
  using assms
proof (induction d arbitrary: k)
  case 0
  then show ?case by (auto simp: tag_loop.simps [of content name k])
next
  case (Suc d)
  then show ?case by (cases "sublist (tag_at name k) content") (auto simp: tag_loop.simps [of content name k])
qed

lemma getDollarQuoteTag_fresh:
  "\<exists>j. getDollarQuoteTag content name = Some (tag_at name j) \<and> \<not> sublist (tag_at name j) content"
proof -
  have "finite {t. sublist t content}" by (metis List.finite_set set_sublists_eq)
  moreover have "infinite (range (tag_at name))"
    using tag_at_inj by (meson finite_imageD infinite_UNIV_nat injI)
  ultimately obtain d where "\<not> sublist (tag_at name d) content" by (metis finite_subset image_subsetI mem_Collect_eq)
  with tag_loop_returns [of name 0 d content] show ?thesis by (simp add: getDollarQuoteTag_def)
qed

lemma sublist_behind: "c \<notin> set a \<Longrightarrow> sublist (c # t) (a @ s) \<longleftrightarrow> sublist (c # t) s"
  by (induction a) (auto simp: sublist_Cons_right)

lemma sublist_between:
  assumes "CHR ''$'' \<notin> set a" and "CHR ''$'' \<notin> set b"
  shows "sublist (''$'' @ w @ ''$'') (a @ s @ b) \<longleftrightarrow> sublist (''$'' @ w @ ''$'') s"
proof -
  have "sublist (''$'' @ w @ ''$'') (s @ b) \<longleftrightarrow> sublist (''$'' @ rev w @ ''$'') (rev b @ rev s)"
    using sublist_rev [of "''$'' @ w @ ''$''" "s @ b"] by simp
  also have "\<dots> \<longleftrightarrow> sublist (''$'' @ rev w @ ''$'') (rev s)" using assms(2) by (simp add: sublist_behind)
  also have "\<dots> \<longleftrightarrow> sublist (''$'' @ w @ ''$'') s" using sublist_rev [of "''$'' @ w @ ''$''" s] by simp
  finally show ?thesis using assms(1) by (simp add: sublist_behind)
qed

definition tag_name :: "string \<Rightarrow> nat \<Rightarrow> string" where
  "tag_name name k = name @ (if k = 0 then [] else ''_'' @ digits_of k)"

lemma tag_at_name: "tag_at name k = ''$'' @ tag_name name k @ ''$''"
  by (simp add: tag_at_def tag_name_def)

lemma tag_name_free: "c \<notin> set name \<Longrightarrow> \<not> is_digit_char c \<Longrightarrow> c \<noteq> CHR ''_'' \<Longrightarrow> c \<notin> set (tag_name name k)"
  using digits_of_digit [of c k] by (auto simp: tag_name_def)

text \<open>A text that is quoted with a tag of its own is read back, with what is put around it.\<close>

lemma quoted_block_read_back:
  assumes "CHR ''$'' \<notin> set name" and "CHR '' '' \<notin> set name" and "CHR ''$'' \<notin> set a" and "CHR ''$'' \<notin> set b"
  shows "\<exists>tag. getDollarQuoteTag content name = Some tag \<and>
    read_dollar (tag @ a @ content @ b @ '' '' @ tag) = Some (a @ content @ b @ '' '', [])"
proof -
  obtain k where tag: "getDollarQuoteTag content name = Some (tag_at name k)" "\<not> sublist (tag_at name k) content"
    using getDollarQuoteTag_fresh by blast
  let ?w = "tag_name name k"
  have w: "CHR ''$'' \<notin> set ?w" "CHR '' '' \<notin> set ?w"
    using assms(1,2) by (simp_all add: tag_name_free is_digit_char_def)
  have "\<not> sublist (''$'' @ ?w @ ''$'') ((a @ content @ b) @ '' '')"
    using tag(2) assms(3,4) sublist_between [of a "b @ '' ''" ?w content] by (simp add: tag_at_name)
  from split_at_tag [OF w(2) _ this]
  have "split_at (''$'' @ ?w @ ''$'') (a @ content @ b @ '' '' @ ''$'' @ ?w @ ''$'') = Some (a @ content @ b @ '' '', [])" by simp
  moreover have "takeWhile (\<lambda>x. x \<noteq> CHR ''$'') (?w @ CHR ''$'' # rest) = ?w" for rest
    using w(1) by (subst takeWhile_append2) auto
  ultimately have "read_dollar (tag_at name k @ a @ content @ b @ '' '' @ tag_at name k) = Some (a @ content @ b @ '' '', [])"
    unfolding read_dollar_def tag_at_name by (simp add: Let_def)
  with tag(1) show ?thesis by blast
qed

text \<open>
  A migration statement that runs inside a block with a lock timeout is read whole: the search for a tag
  ends, and PostgreSQL reads the quoted block back as the statement with the timeout in front, whatever
  tags and quotes the statement has itself.
\<close>

theorem migration_query_is_read_whole:
  "\<exists>tag. getMigrationQuery query False MIGRATION_LOCK_TIMEOUT = Some (''DO '' @ tag @ lock_body MIGRATION_LOCK_TIMEOUT query @ tag) \<and>
     read_dollar (tag @ lock_body MIGRATION_LOCK_TIMEOUT query @ tag) = Some (lock_body MIGRATION_LOCK_TIMEOUT query, [])"
proof -
  let ?a = "'' BEGIN PERFORM set_config('' @ [CHR 39] @ ''lock_timeout'' @ [CHR 39] @ '', '' @ [CHR 39] @ ''5s'' @ [CHR 39] @ '', true); ''"
  obtain tag where "getDollarQuoteTag query ''ez4'' = Some tag"
    "read_dollar (tag @ ?a @ query @ ''; END'' @ '' '' @ tag) = Some (?a @ query @ ''; END'' @ '' '', [])"
    using quoted_block_read_back [of "''ez4''" ?a "''; END''" query] by auto
  then show ?thesis by (auto simp: getMigrationQuery_def lock_body_def MIGRATION_LOCK_TIMEOUT_def)
qed

end
