(* ===== verification/Sql_Tables.thy ===== *)
theory Sql_Tables
  imports Sql_Statements
begin

text \<open>
  The statements that define tables and indexes: \<open>statements/table.ts\<close> and \<open>statements/index.ts\<close> of
  \<open>libraries/pgsql/src\<close> with \<open>clauses/table\<close>, \<open>clauses/column\<close>, \<open>clauses/constraint\<close> and
  \<open>clauses/index\<close>. A method that returns a clause for further calls takes here what these calls
  make of the clause, as a function, and returns the statement with the clause changed.
\<close>

section \<open>Columns\<close>

record add_column =
  ac_check :: bool
  ac_name :: string
  ac_type :: string
  ac_required :: bool
  ac_value :: "string option"

text \<open>The default of a column: left alone, dropped or set.\<close>

record alter_column =
  lc_name :: string
  lc_required :: "bool option"
  lc_value :: "string option option"
  lc_type :: "string option"
  lc_cast :: bool

record drop_column =
  dc_check :: bool
  dc_name :: string
  dc_cascade :: bool

record rename_column =
  rc_name :: string
  rc_to :: string

definition default_tokens :: "string option \<Rightarrow> string list" where
  "default_tokens v = (case truthy_name v of None \<Rightarrow> [] | Some x \<Rightarrow> [''DEFAULT'', x])"

definition build_add_column :: "add_column \<Rightarrow> string" where
  "build_add_column c =
     join '' '' ([''ADD COLUMN''] @ (if ac_check c then [''IF NOT EXISTS''] else []) @ [escapeSqlName (ac_name c), ac_type c] @
       default_tokens (ac_value c) @ (if ac_required c then [''NOT null''] else []))"

definition empty_alter_column :: "alter_column \<Rightarrow> bool" where
  "empty_alter_column c = (truthy_name (lc_type c) = None \<and> lc_value c = None \<and> lc_required c = None)"

definition alter_column_clauses :: "alter_column \<Rightarrow> string list list" where
  "alter_column_clauses c =
     (let columnName = escapeSqlName (lc_name c); base = [''ALTER COLUMN'', columnName]
      in (case truthy_name (lc_type c) of
            None \<Rightarrow> []
          | Some ty \<Rightarrow> [base @ [''TYPE'', ty] @ (if lc_cast c then [''USING'', columnName @ ''::'' @ ty] else [])]) @
         (case lc_value c of
            None \<Rightarrow> []
          | Some None \<Rightarrow> [base @ [''DROP'', ''DEFAULT'']]
          | Some (Some v) \<Rightarrow> if v = [] then [] else [base @ [''SET'', ''DEFAULT'', v]]) @
         (case lc_required c of
            None \<Rightarrow> []
          | Some True \<Rightarrow> [base @ [''SET'', ''NOT'', ''null'']]
          | Some False \<Rightarrow> [base @ [''DROP'', ''NOT'', ''null'']]))"

definition build_alter_column :: "alter_column \<Rightarrow> sql build" where
  "build_alter_column c =
     (if alter_column_clauses c = [] then raise MissingClauseError
      else give (T (join '', '' (map (join '' '') (alter_column_clauses c)))))"

definition build_drop_column :: "drop_column \<Rightarrow> string" where
  "build_drop_column c =
     join '' '' ([''DROP'', ''COLUMN''] @ (if dc_check c then [''IF'', ''EXISTS''] else []) @ [escapeSqlName (dc_name c)] @
       (if dc_cascade c then [''CASCADE''] else []))"

definition build_rename_column :: "rename_column \<Rightarrow> string" where
  "build_rename_column c = join '' '' [''RENAME COLUMN'', escapeSqlName (rc_name c), ''TO'', escapeSqlName (rc_to c)]"

section \<open>Constraints\<close>

datatype constraint_action = Restrict | Cascade | SetNull | NoAction

record key_action =
  ka_action :: "constraint_action option"
  ka_columns :: "string list option"

record foreign_key =
  fk_validate :: "bool option"
  fk_delete :: "key_action option"
  fk_update :: "key_action option"
  fk_targetColumns :: "string list"
  fk_sourceTable :: string
  fk_sourceColumns :: "string list"

datatype constraint_body =
    PrimaryKey "string list" "string option"
  | ForeignKey foreign_key
  | UniqueKey "string list"
  | CheckOf filters "bool option"
  | RenameConstraint string
  | ValidateConstraint
  | DropConstraint bool

record constraint_clause =
  cc_name :: string
  cc_body :: "constraint_body option"

text \<open>A constraint clause keeps what it was made for; another kind takes its place.\<close>

definition constraint_primary :: "string list \<Rightarrow> string option \<Rightarrow> constraint_clause \<Rightarrow> constraint_clause" where
  "constraint_primary columns index c =
     (case cc_body c of
        Some (PrimaryKey cs i) \<Rightarrow> c\<lparr>cc_body := Some (PrimaryKey cs (case index of None \<Rightarrow> i | Some n \<Rightarrow> Some n))\<rparr>
      | _ \<Rightarrow> c\<lparr>cc_body := Some (PrimaryKey columns index)\<rparr>)"

definition constraint_foreign ::
  "string list \<Rightarrow> string \<Rightarrow> string list \<Rightarrow> (foreign_key \<Rightarrow> foreign_key) \<Rightarrow> constraint_clause \<Rightarrow> constraint_clause" where
  "constraint_foreign target source columns f c =
     (case cc_body c of
        Some (ForeignKey k) \<Rightarrow> c\<lparr>cc_body := Some (ForeignKey (f k))\<rparr>
      | _ \<Rightarrow> c\<lparr>cc_body := Some (ForeignKey (f \<lparr>fk_validate = None, fk_delete = None, fk_update = None, fk_targetColumns = target,
               fk_sourceTable = source, fk_sourceColumns = columns\<rparr>))\<rparr>)"

definition constraint_unique :: "string list \<Rightarrow> constraint_clause \<Rightarrow> constraint_clause" where
  "constraint_unique columns c =
     (case cc_body c of Some (UniqueKey cs) \<Rightarrow> c | _ \<Rightarrow> c\<lparr>cc_body := Some (UniqueKey columns)\<rparr>)"

definition constraint_check :: "filters \<Rightarrow> (bool option \<Rightarrow> bool option) \<Rightarrow> constraint_clause \<Rightarrow> constraint_clause" where
  "constraint_check fs validate c =
     (case cc_body c of
        Some (CheckOf old v) \<Rightarrow> c\<lparr>cc_body := Some (CheckOf fs (validate v))\<rparr>
      | _ \<Rightarrow> c\<lparr>cc_body := Some (CheckOf fs (validate None))\<rparr>)"

definition constraint_rename :: "string \<Rightarrow> constraint_clause \<Rightarrow> constraint_clause" where
  "constraint_rename name c =
     (case cc_body c of Some (RenameConstraint n) \<Rightarrow> c | _ \<Rightarrow> c\<lparr>cc_body := Some (RenameConstraint name)\<rparr>)"

definition constraint_validate :: "constraint_clause \<Rightarrow> constraint_clause" where
  "constraint_validate c = c\<lparr>cc_body := Some ValidateConstraint\<rparr>"

definition constraint_drop :: "(bool \<Rightarrow> bool) \<Rightarrow> constraint_clause \<Rightarrow> constraint_clause" where
  "constraint_drop existing c =
     (case cc_body c of
        Some (DropConstraint check) \<Rightarrow> c\<lparr>cc_body := Some (DropConstraint (existing check))\<rparr>
      | _ \<Rightarrow> c\<lparr>cc_body := Some (DropConstraint (existing False))\<rparr>)"

definition build_key_action :: "key_action \<Rightarrow> string option" where
  "build_key_action a =
     (case ka_action a of
        None \<Rightarrow> None
      | Some Restrict \<Rightarrow> Some ''RESTRICT''
      | Some Cascade \<Rightarrow> Some ''CASCADE''
      | Some SetNull \<Rightarrow> Some (case ka_columns a of None \<Rightarrow> ''SET null'' | Some [] \<Rightarrow> ''SET null''
          | Some cs \<Rightarrow> ''SET null ('' @ escapeSqlNames cs @ '')'')
      | Some NoAction \<Rightarrow> Some ''NO ACTION'')"

definition action_tokens :: "string \<Rightarrow> key_action option \<Rightarrow> string list" where
  "action_tokens event a =
     (case a of None \<Rightarrow> [] | Some x \<Rightarrow> (case build_key_action x of None \<Rightarrow> [] | Some t \<Rightarrow> [''ON'', event, t]))"

definition not_valid :: "bool option \<Rightarrow> string list" where
  "not_valid validate = (if validate = Some False then [''NOT'', ''VALID''] else [])"

definition build_foreign_key :: "string \<Rightarrow> foreign_key \<Rightarrow> string" where
  "build_foreign_key name k =
     join '' '' ([''ADD'', ''CONSTRAINT'', escapeSqlName name, ''FOREIGN'', ''KEY'', ''('' @ escapeSqlNames (fk_targetColumns k) @ '')'',
       ''REFERENCES'', escapeSqlName (fk_sourceTable k), ''('' @ escapeSqlNames (fk_sourceColumns k) @ '')''] @
       action_tokens ''DELETE'' (fk_delete k) @ action_tokens ''UPDATE'' (fk_update k) @ not_valid (fk_validate k))"

text \<open>
  The text of a condition that is written without references. Its variables are dropped; there are
  none when the values are literals.
\<close>

definition text_only :: "'a build \<Rightarrow> 'a build" where
  "text_only m refs = (case m refs of Inl e \<Rightarrow> Inl e | Inr (x, vs, refs') \<Rightarrow> Inr (x, [], refs'))"

definition literal_conditions :: "builder_options \<Rightarrow> select_builder \<Rightarrow> nat \<Rightarrow> filters \<Rightarrow> sql option build" where
  "literal_conditions opts sub stack fs =
     text_only (build_conditions (opts\<lparr>onPrepareVariable := None, onPrepareArray := None\<rparr>) sub stack False None None fs)"

definition build_constraint :: "builder_options \<Rightarrow> select_builder \<Rightarrow> nat \<Rightarrow> constraint_clause \<Rightarrow> sql build" where
  "build_constraint opts sub stack c =
     (let name = escapeSqlName (cc_name c)
      in case cc_body c of
           None \<Rightarrow> raise MissingClauseError
         | Some (PrimaryKey columns index) \<Rightarrow> give (T (join '' '' ([''ADD CONSTRAINT'', name, ''PRIMARY KEY''] @
             (case truthy_name index of Some i \<Rightarrow> [''USING INDEX'', escapeSqlName i] | None \<Rightarrow> [''('' @ escapeSqlNames columns @ '')'']))))
         | Some (ForeignKey k) \<Rightarrow> give (T (build_foreign_key (cc_name c) k))
         | Some (UniqueKey columns) \<Rightarrow> give (T (join '' '' [''ADD CONSTRAINT'', name, ''UNIQUE'', ''('' @ escapeSqlNames columns @ '')'']))
         | Some (CheckOf fs validate) \<Rightarrow> andThen (literal_conditions opts sub stack fs) (\<lambda>conditions.
             case conditions of
               None \<Rightarrow> raise MissingClauseError
             | Some x \<Rightarrow> give (joined '' '' ([T ''ADD'', T ''CONSTRAINT'', T name, T ''CHECK'', T ''('' @ x @ T '')''] @
                 map (\<lambda>t. T t) (not_valid validate))))
         | Some (RenameConstraint to_name) \<Rightarrow> give (T (join '' '' [''RENAME'', ''CONSTRAINT'', name, ''TO'', escapeSqlName to_name]))
         | Some ValidateConstraint \<Rightarrow> give (T (join '' '' [''VALIDATE'', ''CONSTRAINT'', name]))
         | Some (DropConstraint check) \<Rightarrow> give (T (join '' '' ([''DROP CONSTRAINT''] @ (if check then [''IF EXISTS''] else []) @ [name]))))"

section \<open>Tables\<close>

datatype change_type = CreateChange | RenameChange | ModifyChange | RemoveChange

datatype modify_clause = ModifyColumn alter_column | ModifyConstraint constraint_clause

record alter_table =
  at_check :: bool
  at_change :: "change_type option"
  at_rename :: "rename_column option"
  at_create :: "add_column list"
  at_modify :: "modify_clause list"
  at_remove :: "drop_column list"

definition new_alter_table :: alter_table where
  "new_alter_table = \<lparr>at_check = False, at_change = None, at_rename = None, at_create = [], at_modify = [], at_remove = []\<rparr>"

text \<open>One statement has changes of one kind.\<close>

definition only_change :: "change_type \<Rightarrow> change_type option \<Rightarrow> bool" where
  "only_change c change = (case change of None \<Rightarrow> True | Some d \<Rightarrow> d = c)"

text \<open>The first element with a property, changed; a new one at the end when there is none.\<close>

fun change_first :: "('a \<Rightarrow> bool) \<Rightarrow> ('a \<Rightarrow> 'a) \<Rightarrow> 'a \<Rightarrow> 'a list \<Rightarrow> 'a list" where
  "change_first P f fresh [] = [f fresh]"
| "change_first P f fresh (x # xs) = (if P x then f x # xs else x # change_first P f fresh xs)"

definition alter_rename :: "string \<Rightarrow> string \<Rightarrow> (rename_column \<Rightarrow> rename_column) \<Rightarrow> alter_table \<Rightarrow> sql_error + alter_table" where
  "alter_rename name to_name f t =
     (if \<not> only_change RenameChange (at_change t) then Inl TooManyClausesError
      else case at_rename t of
             None \<Rightarrow> Inr (t\<lparr>at_rename := Some (f \<lparr>rc_name = name, rc_to = to_name\<rparr>), at_change := Some RenameChange\<rparr>)
           | Some c \<Rightarrow> Inr (t\<lparr>at_rename := Some (f c)\<rparr>))"

text \<open>A column that is there already takes the new type and keeps the rest.\<close>

definition alter_add ::
  "string \<Rightarrow> string \<Rightarrow> bool \<Rightarrow> string option \<Rightarrow> (add_column \<Rightarrow> add_column) \<Rightarrow> alter_table \<Rightarrow> sql_error + alter_table" where
  "alter_add name ty required v f t =
     (if \<not> only_change CreateChange (at_change t) then Inl TooManyClausesError
      else Inr (t\<lparr>at_change := Some CreateChange,
        at_create := change_first (\<lambda>c. ac_name c = name) (\<lambda>c. f (c\<lparr>ac_type := ty\<rparr>))
          \<lparr>ac_check = False, ac_name = name, ac_type = ty, ac_required = required, ac_value = v\<rparr> (at_create t)\<rparr>))"

fun is_column :: "string \<Rightarrow> modify_clause \<Rightarrow> bool" where
  "is_column name (ModifyColumn c) = (lc_name c = name)"
| "is_column name (ModifyConstraint c) = False"

fun is_constraint :: "string \<Rightarrow> modify_clause \<Rightarrow> bool" where
  "is_constraint name (ModifyConstraint c) = (cc_name c = name)"
| "is_constraint name (ModifyColumn c) = False"

fun in_column :: "(alter_column \<Rightarrow> alter_column) \<Rightarrow> modify_clause \<Rightarrow> modify_clause" where
  "in_column f (ModifyColumn c) = ModifyColumn (f c)"
| "in_column f m = m"

fun in_constraint :: "(constraint_clause \<Rightarrow> constraint_clause) \<Rightarrow> modify_clause \<Rightarrow> modify_clause" where
  "in_constraint f (ModifyConstraint c) = ModifyConstraint (f c)"
| "in_constraint f m = m"

definition alter_column_of :: "string \<Rightarrow> (alter_column \<Rightarrow> alter_column) \<Rightarrow> alter_table \<Rightarrow> sql_error + alter_table" where
  "alter_column_of name f t =
     (if \<not> only_change ModifyChange (at_change t) then Inl TooManyClausesError
      else Inr (t\<lparr>at_change := Some ModifyChange,
        at_modify := change_first (is_column name) (in_column f)
          (ModifyColumn \<lparr>lc_name = name, lc_required = None, lc_value = None, lc_type = None, lc_cast = False\<rparr>) (at_modify t)\<rparr>))"

definition alter_drop :: "string \<Rightarrow> (drop_column \<Rightarrow> drop_column) \<Rightarrow> alter_table \<Rightarrow> sql_error + alter_table" where
  "alter_drop name f t =
     (if \<not> only_change RemoveChange (at_change t) then Inl TooManyClausesError
      else Inr (t\<lparr>at_change := Some RemoveChange,
        at_remove := change_first (\<lambda>c. dc_name c = name) f \<lparr>dc_check = False, dc_name = name, dc_cascade = False\<rparr> (at_remove t)\<rparr>))"

definition alter_constraint :: "string \<Rightarrow> (constraint_clause \<Rightarrow> constraint_clause) \<Rightarrow> alter_table \<Rightarrow> sql_error + alter_table" where
  "alter_constraint name f t =
     (if \<not> only_change ModifyChange (at_change t) then Inl TooManyClausesError
      else Inr (t\<lparr>at_change := Some ModifyChange,
        at_modify := change_first (is_constraint name) (in_constraint f)
          (ModifyConstraint \<lparr>cc_name = name, cc_body = None\<rparr>) (at_modify t)\<rparr>))"

definition build_modify :: "builder_options \<Rightarrow> select_builder \<Rightarrow> nat \<Rightarrow> modify_clause \<Rightarrow> sql build" where
  "build_modify opts sub stack m =
     (case m of ModifyColumn c \<Rightarrow> build_alter_column c | ModifyConstraint c \<Rightarrow> build_constraint opts sub stack c)"

definition alter_clause :: "builder_options \<Rightarrow> select_builder \<Rightarrow> nat \<Rightarrow> alter_table \<Rightarrow> sql build" where
  "alter_clause opts sub stack t =
     (case at_change t of
        None \<Rightarrow> raise MissingClauseError
      | Some CreateChange \<Rightarrow> give (T (join '', '' (map build_add_column (at_create t))))
      | Some ModifyChange \<Rightarrow> andThen (each (build_modify opts sub stack) (at_modify t)) (\<lambda>clauses. give (joined '', '' clauses))
      | Some RemoveChange \<Rightarrow> give (T (join '', '' (map build_drop_column (at_remove t))))
      | Some RenameChange \<Rightarrow> (case at_rename t of None \<Rightarrow> raise MissingClauseError | Some c \<Rightarrow> give (T (build_rename_column c))))"

definition build_alter_table :: "builder_options \<Rightarrow> select_builder \<Rightarrow> nat \<Rightarrow> string \<Rightarrow> alter_table \<Rightarrow> sql build" where
  "build_alter_table opts sub stack name t =
     andThen (alter_clause opts sub stack t) (\<lambda>clause.
       give (joined '' '' ([T ''ALTER TABLE''] @ (if at_check t then [T ''IF EXISTS''] else []) @ [T (escapeSqlName name), clause])))"

record column_data =
  cd_name :: string
  cd_type :: string
  cd_required :: bool
  cd_value :: "string option"

record create_table =
  ct_check :: bool
  ct_columns :: "column_data list"

definition getColumnDefinition :: "column_data \<Rightarrow> string" where
  "getColumnDefinition c =
     join '' '' ([escapeSqlName (cd_name c), cd_type c] @ default_tokens (cd_value c) @ (if cd_required c then [''NOT null''] else []))"

definition build_create_table :: "string \<Rightarrow> create_table \<Rightarrow> string" where
  "build_create_table name c =
     join '' '' ([''CREATE TABLE''] @ (if ct_check c then [''IF NOT EXISTS''] else []) @
       [escapeSqlName name, ''('' @ join '', '' (map getColumnDefinition (ct_columns c)) @ '')''])"

record drop_table =
  dt_check :: bool
  dt_cascade :: bool

definition build_drop_table :: "string \<Rightarrow> drop_table \<Rightarrow> string" where
  "build_drop_table name c =
     join '' '' ([''DROP'', ''TABLE''] @ (if dt_check c then [''IF'', ''EXISTS''] else []) @ [escapeSqlName name] @
       (if dt_cascade c then [''CASCADE''] else []))"

record rename_clause =
  rn_check :: bool
  rn_name :: string

definition build_rename :: "string \<Rightarrow> string \<Rightarrow> rename_clause \<Rightarrow> string" where
  "build_rename kind name c =
     join '' '' ([''ALTER'', kind] @ (if rn_check c then [''IF'', ''EXISTS''] else []) @
       [escapeSqlName name, ''RENAME'', ''TO'', escapeSqlName (rn_name c)])"

record table_statement =
  ts_name :: string
  ts_change :: "change_type option"
  ts_create :: "create_table option"
  ts_modify :: "alter_table option"
  ts_rename :: "rename_clause option"
  ts_remove :: "drop_table option"

definition new_table :: "string \<Rightarrow> table_statement" where
  "new_table name = \<lparr>ts_name = name, ts_change = None, ts_create = None, ts_modify = None, ts_rename = None, ts_remove = None\<rparr>"

definition table_create :: "(create_table \<Rightarrow> create_table) \<Rightarrow> table_statement \<Rightarrow> sql_error + table_statement" where
  "table_create f t =
     (if \<not> only_change CreateChange (ts_change t) then Inl TooManyClausesError
      else case ts_create t of
             None \<Rightarrow> Inr (t\<lparr>ts_create := Some (f \<lparr>ct_check = False, ct_columns = []\<rparr>), ts_change := Some CreateChange\<rparr>)
           | Some c \<Rightarrow> Inr (t\<lparr>ts_create := Some (f c)\<rparr>))"

definition table_rename :: "string \<Rightarrow> (rename_clause \<Rightarrow> rename_clause) \<Rightarrow> table_statement \<Rightarrow> sql_error + table_statement" where
  "table_rename name f t =
     (if \<not> only_change RenameChange (ts_change t) then Inl TooManyClausesError
      else case ts_rename t of
             None \<Rightarrow> Inr (t\<lparr>ts_rename := Some (f \<lparr>rn_check = False, rn_name = name\<rparr>), ts_change := Some RenameChange\<rparr>)
           | Some c \<Rightarrow> Inr (t\<lparr>ts_rename := Some (f c)\<rparr>))"

definition table_drop :: "(drop_table \<Rightarrow> drop_table) \<Rightarrow> table_statement \<Rightarrow> sql_error + table_statement" where
  "table_drop f t =
     (if \<not> only_change RemoveChange (ts_change t) then Inl TooManyClausesError
      else case ts_remove t of
             None \<Rightarrow> Inr (t\<lparr>ts_remove := Some (f \<lparr>dt_check = False, dt_cascade = False\<rparr>), ts_change := Some RemoveChange\<rparr>)
           | Some c \<Rightarrow> Inr (t\<lparr>ts_remove := Some (f c)\<rparr>))"

definition table_alter :: "(alter_table \<Rightarrow> sql_error + alter_table) \<Rightarrow> table_statement \<Rightarrow> sql_error + table_statement" where
  "table_alter f t =
     (if \<not> only_change ModifyChange (ts_change t) then Inl TooManyClausesError
      else case f (case ts_modify t of None \<Rightarrow> new_alter_table | Some a \<Rightarrow> a) of
             Inl e \<Rightarrow> Inl e
           | Inr a \<Rightarrow> Inr (t\<lparr>ts_modify := Some a, ts_change := Some ModifyChange\<rparr>))"

definition build_table :: "builder_options \<Rightarrow> select_builder \<Rightarrow> nat \<Rightarrow> table_statement \<Rightarrow> sql option build" where
  "build_table opts sub stack t =
     (case ts_change t of
        None \<Rightarrow> give None
      | Some CreateChange \<Rightarrow> give (map_option (\<lambda>c. T (build_create_table (ts_name t) c)) (ts_create t))
      | Some RenameChange \<Rightarrow> give (map_option (\<lambda>c. T (build_rename ''TABLE'' (ts_name t) c)) (ts_rename t))
      | Some RemoveChange \<Rightarrow> give (map_option (\<lambda>c. T (build_drop_table (ts_name t) c)) (ts_remove t))
      | Some ModifyChange \<Rightarrow> (case ts_modify t of
          None \<Rightarrow> give None
        | Some a \<Rightarrow> andThen (build_alter_table opts sub stack (ts_name t) a) (\<lambda>x. give (Some x))))"

section \<open>Indexes\<close>

record create_index =
  ci_concurrently :: bool
  ci_unique :: bool
  ci_nullsNotDistinct :: bool
  ci_check :: bool
  ci_columns :: "string list"
  ci_include :: "string list option"
  ci_order :: "(string \<times> string) list"
  ci_filters :: "filters option"
  ci_table :: string
  ci_type :: "string option"

definition build_create_index :: "builder_options \<Rightarrow> select_builder \<Rightarrow> nat \<Rightarrow> string \<Rightarrow> create_index \<Rightarrow> sql build" where
  "build_create_index opts sub stack name c =
     andThen (case ci_filters c of None \<Rightarrow> give None | Some fs \<Rightarrow> literal_conditions opts sub stack fs) (\<lambda>conditions.
       give (joined '' '' (map (\<lambda>t. T t) ([''CREATE''] @ (if ci_unique c then [''UNIQUE''] else []) @ [''INDEX''] @
         (if ci_concurrently c then [''CONCURRENTLY''] else []) @ (if ci_check c then [''IF'', ''NOT'', ''EXISTS''] else []) @
         [escapeSqlName name, ''ON'', escapeSqlName (ci_table c)] @
         (case truthy_name (ci_type c) of None \<Rightarrow> [] | Some ty \<Rightarrow> [''USING'', ty]) @
         [''('' @ join '', '' (map (\<lambda>column. if obj_get (ci_order c) column = Some ''desc'' then escapeSqlName column @ '' DESC''
                                     else escapeSqlName column) (ci_columns c)) @ '')''] @
         (case ci_include c of None \<Rightarrow> [] | Some [] \<Rightarrow> [] | Some columns \<Rightarrow> [''INCLUDE'', ''('' @ escapeSqlNames columns @ '')'']) @
         (if ci_nullsNotDistinct c then [''NULLS'', ''NOT'', ''DISTINCT''] else [])) @
         (case conditions of None \<Rightarrow> [] | Some x \<Rightarrow> [T ''WHERE'', x]))))"

record drop_index =
  di_check :: bool
  di_concurrently :: bool

definition build_drop_index :: "string \<Rightarrow> drop_index \<Rightarrow> string" where
  "build_drop_index name c =
     join '' '' ([''DROP'', ''INDEX''] @ (if di_concurrently c then [''CONCURRENTLY''] else []) @
       (if di_check c then [''IF'', ''EXISTS''] else []) @ [escapeSqlName name])"

record index_statement =
  is_name :: string
  is_change :: "change_type option"
  is_create :: "create_index option"
  is_rename :: "rename_clause option"
  is_remove :: "drop_index option"

definition new_index :: "string \<Rightarrow> index_statement" where
  "new_index name = \<lparr>is_name = name, is_change = None, is_create = None, is_rename = None, is_remove = None\<rparr>"

definition index_create :: "string \<Rightarrow> string list \<Rightarrow> (create_index \<Rightarrow> create_index) \<Rightarrow> index_statement \<Rightarrow> sql_error + index_statement" where
  "index_create table columns f t =
     (if \<not> only_change CreateChange (is_change t) then Inl TooManyClausesError
      else case is_create t of
             None \<Rightarrow> Inr (t\<lparr>is_create := Some (f \<lparr>ci_concurrently = False, ci_unique = False, ci_nullsNotDistinct = False, ci_check = False,
               ci_columns = columns, ci_include = None, ci_order = [], ci_filters = None, ci_table = table, ci_type = None\<rparr>),
               is_change := Some CreateChange\<rparr>)
           | Some c \<Rightarrow> Inr (t\<lparr>is_create := Some (f c)\<rparr>))"

definition index_rename :: "string \<Rightarrow> (rename_clause \<Rightarrow> rename_clause) \<Rightarrow> index_statement \<Rightarrow> sql_error + index_statement" where
  "index_rename name f t =
     (if \<not> only_change RenameChange (is_change t) then Inl TooManyClausesError
      else case is_rename t of
             None \<Rightarrow> Inr (t\<lparr>is_rename := Some (f \<lparr>rn_check = False, rn_name = name\<rparr>), is_change := Some RenameChange\<rparr>)
           | Some c \<Rightarrow> Inr (t\<lparr>is_rename := Some (f c)\<rparr>))"

definition index_drop :: "(drop_index \<Rightarrow> drop_index) \<Rightarrow> index_statement \<Rightarrow> sql_error + index_statement" where
  "index_drop f t =
     (if \<not> only_change RemoveChange (is_change t) then Inl TooManyClausesError
      else case is_remove t of
             None \<Rightarrow> Inr (t\<lparr>is_remove := Some (f \<lparr>di_check = False, di_concurrently = False\<rparr>), is_change := Some RemoveChange\<rparr>)
           | Some c \<Rightarrow> Inr (t\<lparr>is_remove := Some (f c)\<rparr>))"

definition build_index :: "builder_options \<Rightarrow> select_builder \<Rightarrow> nat \<Rightarrow> index_statement \<Rightarrow> sql option build" where
  "build_index opts sub stack t =
     (case is_change t of
        Some CreateChange \<Rightarrow> (case is_create t of None \<Rightarrow> give None
          | Some c \<Rightarrow> andThen (build_create_index opts sub stack (is_name t) c) (\<lambda>x. give (Some x)))
      | Some RenameChange \<Rightarrow> give (map_option (\<lambda>c. T (build_rename ''INDEX'' (is_name t) c)) (is_rename t))
      | Some RemoveChange \<Rightarrow> give (map_option (\<lambda>c. T (build_drop_index (is_name t) c)) (is_remove t))
      | _ \<Rightarrow> give None)"

section \<open>One kind of change\<close>

text \<open>The calls on a clause that alters a table.\<close>

datatype alter_call =
    CallRename string string "rename_column \<Rightarrow> rename_column"
  | CallAdd string string bool "string option" "add_column \<Rightarrow> add_column"
  | CallColumn string "alter_column \<Rightarrow> alter_column"
  | CallDrop string "drop_column \<Rightarrow> drop_column"
  | CallConstraint string "constraint_clause \<Rightarrow> constraint_clause"

fun apply_call :: "alter_call \<Rightarrow> alter_table \<Rightarrow> sql_error + alter_table" where
  "apply_call (CallRename name to_name f) = alter_rename name to_name f"
| "apply_call (CallAdd name ty required v f) = alter_add name ty required v f"
| "apply_call (CallColumn name f) = alter_column_of name f"
| "apply_call (CallDrop name f) = alter_drop name f"
| "apply_call (CallConstraint name f) = alter_constraint name f"

fun apply_calls :: "alter_call list \<Rightarrow> alter_table \<Rightarrow> sql_error + alter_table" where
  "apply_calls [] t = Inr t"
| "apply_calls (c # cs) t = (case apply_call c t of Inl e \<Rightarrow> Inl e | Inr t' \<Rightarrow> apply_calls cs t')"

definition clauses_of :: "alter_table \<Rightarrow> change_type \<Rightarrow> bool" where
  "clauses_of t c =
     (case c of CreateChange \<Rightarrow> at_create t \<noteq> [] | RenameChange \<Rightarrow> at_rename t \<noteq> None
      | ModifyChange \<Rightarrow> at_modify t \<noteq> [] | RemoveChange \<Rightarrow> at_remove t \<noteq> [])"

lemma change_first_nonempty [simp]: "change_first P f fresh xs \<noteq> []"
  by (cases xs) simp_all

lemma apply_call_one_kind:
  assumes "apply_call c t = Inr t'" and "\<And>k. clauses_of t k \<longleftrightarrow> at_change t = Some k"
  shows "clauses_of t' k \<longleftrightarrow> at_change t' = Some k"
  using assms(1) assms(2) [of CreateChange] assms(2) [of RenameChange] assms(2) [of ModifyChange] assms(2) [of RemoveChange]
  by (cases c; cases k)
    (auto simp: alter_rename_def alter_add_def alter_column_of_def alter_drop_def alter_constraint_def only_change_def clauses_of_def
      split: if_splits option.splits)

lemma apply_calls_one_kind:
  "apply_calls cs t = Inr t' \<Longrightarrow> (\<And>k. clauses_of t k \<longleftrightarrow> at_change t = Some k) \<Longrightarrow> clauses_of t' k \<longleftrightarrow> at_change t' = Some k"
proof (induction cs arbitrary: t)
  case (Cons c cs)
  from Cons.prems(1) obtain t1 where t1: "apply_call c t = Inr t1" "apply_calls cs t1 = Inr t'" by (auto split: sum.splits)
  show ?case by (rule Cons.IH [OF t1(2)]) (rule apply_call_one_kind [OF t1(1) Cons.prems(2)])
qed simp

text \<open>
  However the clause is filled, it has the clauses of one kind of change, the kind its build writes, so
  no clause that was added is left out.
\<close>

lemma alter_table_one_kind:
  assumes "apply_calls cs new_alter_table = Inr t"
  shows "clauses_of t k \<longleftrightarrow> at_change t = Some k"
  by (rule apply_calls_one_kind [OF assms]) (simp add: new_alter_table_def clauses_of_def split: change_type.split)

text \<open>But a second rename is ignored, and a column added again takes only the type of the second call.\<close>

lemma second_rename_is_ignored:
  "apply_calls [CallRename ''a'' ''b'' id, CallRename ''c'' ''d'' id] new_alter_table = apply_calls [CallRename ''a'' ''b'' id] new_alter_table"
  by (simp add: alter_rename_def only_change_def new_alter_table_def)

end
