(* ===== verification/Migration_Queries.thy ===== *)
theory Migration_Queries
  imports Migration_Text Sql_Tables Object_Compare
begin

text \<open>
  The statements of a migration (\<open>types/query.ts\<close> of \<open>libraries/pgmigration/src\<close>), the queries that tell
  whether a statement has been run (\<open>utils/checks.ts\<close>), and the statements for value constraints
  (\<open>queries/constraints.ts\<close>).

  All statements are built by one SQL builder without options. The texts of numbers and of other
  values are those of the engine, \<open>eng\<close>; \<open>stack\<close> is the depth of the call stack. The sources of the
  queries have no alias, so they share an identity.
\<close>

section \<open>Statements\<close>

record migration_statement =
  ms_name :: "string option"
  ms_check :: "string option"
  ms_assert :: "string option"
  ms_query :: string
  ms_concurrent :: bool
  ms_condition :: "string option"

record validation_statement =
  vs_name :: string
  vs_check :: string
  vs_retry :: string

record migration_queries =
  mq_tables :: "migration_statement list"
  mq_triggers :: "migration_statement list"
  mq_constraints :: "migration_statement list"
  mq_validations :: "validation_statement list"
  mq_relations :: "migration_statement list"
  mq_indexes :: "migration_statement list"

record migration_steps =
  prepare_step :: migration_queries
  rollout_step :: migration_queries
  cleanup_step :: migration_queries

definition getStepQueries :: migration_queries where
  "getStepQueries = \<lparr>mq_tables = [], mq_triggers = [], mq_constraints = [], mq_validations = [], mq_relations = [], mq_indexes = []\<rparr>"

definition combineQueries :: "migration_queries \<Rightarrow> migration_queries \<Rightarrow> migration_queries" where
  "combineQueries target source =
     \<lparr>mq_tables = mq_tables target @ mq_tables source, mq_triggers = mq_triggers target @ mq_triggers source,
      mq_constraints = mq_constraints target @ mq_constraints source, mq_validations = mq_validations target @ mq_validations source,
      mq_relations = mq_relations target @ mq_relations source, mq_indexes = mq_indexes target @ mq_indexes source\<rparr>"

definition no_steps :: migration_steps where
  "no_steps = \<lparr>prepare_step = getStepQueries, rollout_step = getStepQueries, cleanup_step = getStepQueries\<rparr>"

definition combineSteps :: "migration_steps \<Rightarrow> migration_steps \<Rightarrow> migration_steps" where
  "combineSteps target source =
     \<lparr>prepare_step = combineQueries (prepare_step target) (prepare_step source),
      rollout_step = combineQueries (rollout_step target) (rollout_step source),
      cleanup_step = combineQueries (cleanup_step target) (cleanup_step source)\<rparr>"

text \<open>The order in which the statements of a step run.\<close>

definition getStepStatements :: "migration_queries \<Rightarrow> bool \<Rightarrow> migration_statement list" where
  "getStepStatements queries cleanup =
     (if cleanup
      then mq_relations queries @ mq_triggers queries @ mq_tables queries @ mq_constraints queries @ mq_indexes queries
      else mq_tables queries @ mq_triggers queries @ mq_constraints queries @ mq_indexes queries @ mq_relations queries)"

definition only_query :: "string \<Rightarrow> migration_statement" where
  "only_query query = \<lparr>ms_name = None, ms_check = None, ms_assert = None, ms_query = query, ms_concurrent = False, ms_condition = None\<rparr>"

definition checked_query :: "string \<Rightarrow> string \<Rightarrow> migration_statement" where
  "checked_query check query = (only_query query)\<lparr>ms_check := Some check\<rparr>"

section \<open>Checks\<close>

definition raw_string :: "string \<Rightarrow> sql_value" where
  "raw_string s = RawValue (RawConstant (Str (escapeSqlText s)))"

definition raw_text :: "string \<Rightarrow> sql_value" where
  "raw_text s = RawValue (RawConstant (Str s))"

text \<open>\<open>builder.select().rawColumn(1)\<close> with its tables and filters.\<close>

definition find_one :: "sql_table list \<Rightarrow> filters \<Rightarrow> js_number option \<Rightarrow> sql_select" where
  "find_one tables fs amount =
     SqlSelect 0 None tables [RawColumn (RawConstant (Num (Fin 1))) None] [] (Some fs) None None None None amount False"

text \<open>A statement is new when it is built, so it has no alias.\<close>

definition query_text :: "builder_options \<Rightarrow> nat \<Rightarrow> sql_select \<Rightarrow> string build" where
  "query_text eng stack select =
     text_only (andThen (set_alias 0 None) (\<lambda>_. andThen (build eng stack (SelectStatement select)) (\<lambda>x. give (render x))))"

definition getCheckDatabaseExistsQuery :: "builder_options \<Rightarrow> nat \<Rightarrow> string \<Rightarrow> string build" where
  "getCheckDatabaseExistsQuery eng stack database =
     query_text eng stack (find_one [TableName ''pg_database''] [(''datname'', raw_string database)] None)"

definition constraint_named :: "string \<Rightarrow> sql_select" where
  "constraint_named name = find_one [TableName ''pg_constraint''] [(''conname'', raw_string name)] None"

definition getCheckConstraintExistsQuery :: "builder_options \<Rightarrow> nat \<Rightarrow> string \<Rightarrow> string build" where
  "getCheckConstraintExistsQuery eng stack name = query_text eng stack (constraint_named name)"

definition getCheckTriggerExistsQuery :: "builder_options \<Rightarrow> nat \<Rightarrow> string \<Rightarrow> string \<Rightarrow> string build" where
  "getCheckTriggerExistsQuery eng stack table name =
     query_text eng stack (find_one [TableName ''pg_trigger'']
       [(''tgname'', raw_string name), (''tgrelid'', raw_text (''to_regclass('' @ escapeSqlText (escapeSqlName table) @ '')''))] None)"

definition none_of :: "sql_select \<Rightarrow> filters" where
  "none_of select = [(''NOT'', Fields [(''exists'', SelectValue select)])]"

definition getCheckConstraintMissingQuery :: "builder_options \<Rightarrow> nat \<Rightarrow> string \<Rightarrow> string build" where
  "getCheckConstraintMissingQuery eng stack name = query_text eng stack (find_one [] (none_of (constraint_named name)) None)"

definition getCheckColumnExistsQuery :: "builder_options \<Rightarrow> nat \<Rightarrow> string \<Rightarrow> string \<Rightarrow> string build" where
  "getCheckColumnExistsQuery eng stack table column =
     query_text eng stack (find_one [] (none_of (find_one [TableRaw (RawConstant (Str ''information_schema.columns''))]
       [(''column_name'', raw_string column), (''table_name'', raw_string table)] None)) None)"

definition validated :: "string \<Rightarrow> string \<Rightarrow> sql_select" where
  "validated flag name =
     find_one [TableName ''pg_constraint''] [(''convalidated'', raw_text flag), (''conname'', raw_string name)] None"

definition getCheckConstraintInvalidQuery :: "builder_options \<Rightarrow> nat \<Rightarrow> string \<Rightarrow> string build" where
  "getCheckConstraintInvalidQuery eng stack name = query_text eng stack (validated ''false'' name)"

definition getCheckConstraintValidQuery :: "builder_options \<Rightarrow> nat \<Rightarrow> string \<Rightarrow> string build" where
  "getCheckConstraintValidQuery eng stack name = query_text eng stack (validated ''true'' name)"

definition getCheckConstraintRecordsQuery :: "builder_options \<Rightarrow> nat \<Rightarrow> string \<Rightarrow> filters \<Rightarrow> string build" where
  "getCheckConstraintRecordsQuery eng stack table fs =
     query_text eng stack (find_one [TableName table] [(''NOT'', Fields fs)] (Some (Fin 1)))"

definition running_query :: "string \<Rightarrow> js_number option \<Rightarrow> sql_select" where
  "running_query name amount =
     find_one [TableName ''pg_stat_activity'']
       [(''state'', raw_string ''active''), (''pid'', Fields [(''not'', raw_text ''pg_backend_pid()'')]),
        (''query'', Fields [(''contains'', raw_string ([CHR 34] @ name @ [CHR 34])), (''insensitive'', BoolValue True)])] amount"

definition getCheckRunningValidationQuery :: "builder_options \<Rightarrow> nat \<Rightarrow> string \<Rightarrow> string build" where
  "getCheckRunningValidationQuery eng stack name = query_text eng stack (running_query name (Some (Fin 1)))"

definition invalid_index :: "string \<Rightarrow> sql_select" where
  "invalid_index which =
     find_one [TableName ''pg_index''] [(''indexrelid'', raw_text which),
       (''OR'', Items [Fields [(''indisvalid'', raw_text ''false'')], Fields [(''indisready'', raw_text ''false'')]])] None"

definition getIndexInvalidQuery :: "builder_options \<Rightarrow> nat \<Rightarrow> string \<Rightarrow> string build" where
  "getIndexInvalidQuery eng stack name = query_text eng stack (invalid_index (escapeSqlText name @ ''::regclass''))"

definition getCheckIndexRebuildQuery :: "builder_options \<Rightarrow> nat \<Rightarrow> string \<Rightarrow> string build" where
  "getCheckIndexRebuildQuery eng stack name =
     query_text eng stack (find_one []
       [(''OR'', Items [Fields (none_of (invalid_index (''to_regclass('' @ escapeSqlText ([CHR 34] @ name @ [CHR 34]) @ '')''))),
                       Fields [(''exists'', SelectValue (running_query name None))]])] None)"

definition index_named :: "string \<Rightarrow> sql_select" where
  "index_named name = find_one [TableName ''pg_class''] [(''relname'', raw_string name), (''relkind'', raw_string ''i'')] None"

definition getCheckIndexMissingQuery :: "builder_options \<Rightarrow> nat \<Rightarrow> string \<Rightarrow> string build" where
  "getCheckIndexMissingQuery eng stack name = query_text eng stack (find_one [] (none_of (index_named name)) None)"

definition getCheckPrimaryKeySwappedQuery :: "builder_options \<Rightarrow> nat \<Rightarrow> string \<Rightarrow> string build" where
  "getCheckPrimaryKeySwappedQuery eng stack name =
     query_text eng stack (find_one []
       [(''OR'', Items [Fields [(''exists'', SelectValue (constraint_named name))], Fields (none_of (index_named name))])] None)"

definition getCheckUniqueRecordsQuery ::
  "builder_options \<Rightarrow> nat \<Rightarrow> string \<Rightarrow> string list \<Rightarrow> filters option \<Rightarrow> bool \<Rightarrow> string build" where
  "getCheckUniqueRecordsQuery eng stack table columns conds nullsNotDistinct =
     (let columnFilters = (if nullsNotDistinct then []
            else fold (\<lambda>column. obj_set column (Fields [(''isNull'', BoolValue False)])) columns []);
          fs = (case conds of
                  None \<Rightarrow> columnFilters
                | Some w \<Rightarrow> if columnFilters = [] then w else [(''AND'', Items [Fields w, Fields columnFilters])])
      in query_text eng stack (SqlSelect 0 None [TableName table] [RawColumn (RawConstant (Num (Fin 1))) None] [] (Some fs) (Some columns)
           (Some [(''*'', Fields [(''count'', BoolValue True), (''gt'', raw_text ''1'')])]) None None (Some (Fin 1)) False))"

definition either_exists :: "string \<Rightarrow> string list \<Rightarrow> string" where
  "either_exists operator queries = ''SELECT 1 WHERE '' @ join operator (map (\<lambda>query. ''EXISTS ('' @ query @ '')'') queries)"

definition getCheckAnyQuery :: "string option list \<Rightarrow> string option" where
  "getCheckAnyQuery checks =
     (let queries = List.map_filter id checks
      in if length queries > 1 then Some (either_exists '' OR '' queries) else (case queries of [] \<Rightarrow> None | q # _ \<Rightarrow> Some q))"

definition getCheckAllQuery :: "string list \<Rightarrow> string option" where
  "getCheckAllQuery checks =
     (if length checks > 1 then Some (either_exists '' AND '' checks) else (case checks of [] \<Rightarrow> None | q # _ \<Rightarrow> Some q))"

section \<open>Statements that alter a table\<close>

definition alter_query :: "builder_options \<Rightarrow> nat \<Rightarrow> string \<Rightarrow> alter_call list \<Rightarrow> string build" where
  "alter_query eng stack table calls =
     (case apply_calls calls (new_alter_table\<lparr>at_check := True\<rparr>) of
        Inl e \<Rightarrow> raise e
      | Inr t \<Rightarrow> andThen (build_alter_table eng (\<lambda>select. build eng stack (SelectStatement select)) stack table t) (\<lambda>x. give (render x)))"

definition rename_constraint_query :: "builder_options \<Rightarrow> nat \<Rightarrow> string \<Rightarrow> string \<Rightarrow> string \<Rightarrow> string build" where
  "rename_constraint_query eng stack table old_name name =
     alter_query eng stack table [CallConstraint old_name (constraint_rename name)]"

definition getDeleteQuery :: "builder_options \<Rightarrow> nat \<Rightarrow> string \<Rightarrow> string \<Rightarrow> string build" where
  "getDeleteQuery eng stack table name = alter_query eng stack table [CallConstraint name (constraint_drop (\<lambda>_. True))]"

definition getValidateQuery :: "builder_options \<Rightarrow> nat \<Rightarrow> string \<Rightarrow> string \<Rightarrow> string build" where
  "getValidateQuery eng stack table name = alter_query eng stack table [CallConstraint name constraint_validate]"

definition getCreateQuery :: "builder_options \<Rightarrow> nat \<Rightarrow> string \<Rightarrow> string \<Rightarrow> filters \<Rightarrow> string build" where
  "getCreateQuery eng stack table name fs =
     alter_query eng stack table [CallConstraint name (constraint_check fs (\<lambda>_. Some False))]"

section \<open>Value constraints\<close>

fun enum_text :: "builder_options \<Rightarrow> enum_value \<Rightarrow> string" where
  "enum_text eng (StringOption s) = s"
| "enum_text eng (NumberOption n) = textOf eng (NumberValue n)"

text \<open>The allowed values as the literals of the check.\<close>

fun getConstraintValues :: "builder_options \<Rightarrow> any_schema \<Rightarrow> string list option" where
  "getConstraintValues eng (EnumSchema i d options) = Some (map (\<lambda>opt. escapeSqlText (enum_text eng (option_value opt))) options)"
| "getConstraintValues eng (BooleanSchema i d) = map_option (\<lambda>b. [textOf eng (BoolValue b)]) (bool_value d)"
| "getConstraintValues eng (NumberSchema i d f) = map_option (\<lambda>n. [textOf eng (NumberValue n)]) (num_value d)"
| "getConstraintValues eng (StringSchema i d f) = map_option (\<lambda>s. [escapeSqlText s]) (str_value d)"
| "getConstraintValues eng s = None"

fun isConstrainedSchema :: "any_schema \<Rightarrow> bool" where
  "isConstrainedSchema (EnumSchema i d options) = True"
| "isConstrainedSchema (BooleanSchema i d) = (bool_value d \<noteq> None)"
| "isConstrainedSchema (NumberSchema i d f) = (num_value d \<noteq> None)"
| "isConstrainedSchema (StringSchema i d f) = (str_value d \<noteq> None)"
| "isConstrainedSchema s = False"

fun schema_type :: "any_schema \<Rightarrow> string" where
  "schema_type (BooleanSchema i d) = ''boolean''"
| "schema_type (NumberSchema i d f) = ''number''"
| "schema_type (StringSchema i d f) = ''string''"
| "schema_type (ObjectSchema i d identity properties additional) = ''object''"
| "schema_type (ReferenceSchema i d identity) = ''reference''"
| "schema_type (UnionSchema i d elements) = ''union''"
| "schema_type (ArraySchema i d element) = ''array''"
| "schema_type (TupleSchema i d elements) = ''tuple''"
| "schema_type (EnumSchema i d options) = ''enum''"

definition getValueListFilters :: "string \<Rightarrow> string list \<Rightarrow> filters" where
  "getValueListFilters column values = [(column, Fields [(''isIn'', Items (map raw_text values))])]"

definition getConstraintFilters :: "builder_options \<Rightarrow> string \<Rightarrow> any_schema \<Rightarrow> filters" where
  "getConstraintFilters eng column schema =
     (let values = (case getConstraintValues eng schema of None \<Rightarrow> [] | Some vs \<Rightarrow> vs)
      in if isEnumSchema schema then getValueListFilters column values
         else [(column, Fields [(''equal'', RawValue (RawConstant (case values of [] \<Rightarrow> Undefined | v # _ \<Rightarrow> Str v)))])])"

definition getSwitchValues :: "builder_options \<Rightarrow> any_schema \<Rightarrow> any_schema \<Rightarrow> string list option" where
  "getSwitchValues eng sourceSchema targetSchema =
     (case (getConstraintValues eng sourceSchema, getConstraintValues eng targetSchema) of
        (Some sourceValues, Some targetValues) \<Rightarrow>
          if schema_type sourceSchema = schema_type targetSchema then Some (targetValues @ filter (\<lambda>v. v \<notin> set targetValues) sourceValues) else None
      | _ \<Rightarrow> None)"

definition isSameValues :: "string list option \<Rightarrow> string list option \<Rightarrow> bool" where
  "isSameValues values otherValues =
     (case (values, otherValues) of
        (Some xs, Some ys) \<Rightarrow> list_all (\<lambda>x. x \<in> set ys) xs \<and> list_all (\<lambda>y. y \<in> set xs) ys
      | (None, None) \<Rightarrow> True
      | _ \<Rightarrow> False)"

text \<open>The statements of a new check, and those that put it in the place of the current one.\<close>

definition create_check ::
  "builder_options \<Rightarrow> nat \<Rightarrow> string \<Rightarrow> string \<Rightarrow> any_schema \<Rightarrow> migration_queries build" where
  "create_check eng stack table column schema =
     (let fs = getConstraintFilters eng column schema; name = getConstraintName table column
      in andThen (getCheckConstraintExistsQuery eng stack name) (\<lambda>present.
         andThen (getCheckConstraintRecordsQuery eng stack table fs) (\<lambda>records.
         andThen (getCreateQuery eng stack table name fs) (\<lambda>create.
         andThen (getCheckConstraintValidQuery eng stack name) (\<lambda>valid.
         andThen (getValidateQuery eng stack table name) (\<lambda>validate.
         andThen (getCheckConstraintInvalidQuery eng stack name) (\<lambda>invalid.
         andThen (getCheckRunningValidationQuery eng stack name) (\<lambda>running.
         give (getStepQueries\<lparr>mq_constraints := [(checked_query present create)\<lparr>ms_assert := Some records, ms_name := Some name\<rparr>,
                 checked_query valid validate],
               mq_validations := [\<lparr>vs_name = name, vs_check = invalid, vs_retry = running\<rparr>]\<rparr>)))))))))"

definition constraints_prepareCreate ::
  "builder_options \<Rightarrow> nat \<Rightarrow> string \<Rightarrow> (string \<times> any_schema) list \<Rightarrow> migration_queries build" where
  "constraints_prepareCreate eng stack table columns =
     andThen (each (\<lambda>(column, schema). if isConstrainedSchema schema then create_check eng stack table column schema else give getStepQueries)
                columns)
       (\<lambda>qs. give (foldl combineQueries getStepQueries qs))"

text \<open>\<open>hash\<close> is the hash a long temporary name is shortened with; a name that is never shortened is a loop without end.\<close>

definition temporary_name :: "(string \<Rightarrow> string) \<Rightarrow> string \<Rightarrow> string build" where
  "temporary_name hashData name = (case getTemporaryName hashData name of None \<Rightarrow> raise NeverReturns | Some t \<Rightarrow> give t)"

definition prepareSwap ::
  "builder_options \<Rightarrow> nat \<Rightarrow> (string \<Rightarrow> string) \<Rightarrow> string \<Rightarrow> string \<Rightarrow> filters \<Rightarrow> bool \<Rightarrow> migration_queries build" where
  "prepareSwap eng stack hashData table column fs assertRecords =
     (let newName = getConstraintName table column
      in andThen (temporary_name hashData newName) (\<lambda>tmpName.
         andThen (getCheckConstraintExistsQuery eng stack tmpName) (\<lambda>present.
         andThen (if assertRecords then andThen (getCheckConstraintRecordsQuery eng stack table fs) (\<lambda>r. give (Some r)) else give None) (\<lambda>records.
         andThen (getCreateQuery eng stack table tmpName fs) (\<lambda>create.
         andThen (getCheckConstraintValidQuery eng stack tmpName) (\<lambda>valid.
         andThen (getValidateQuery eng stack table tmpName) (\<lambda>validate.
         andThen (getCheckConstraintMissingQuery eng stack tmpName) (\<lambda>missing.
         andThen (getCheckConstraintInvalidQuery eng stack tmpName) (\<lambda>invalid.
         andThen (getDeleteQuery eng stack table newName) (\<lambda>drop_old.
         andThen (rename_constraint_query eng stack table tmpName newName) (\<lambda>rename.
         andThen (getCheckRunningValidationQuery eng stack tmpName) (\<lambda>running.
         give (getStepQueries\<lparr>mq_constraints :=
             [(checked_query present create)\<lparr>ms_assert := records, ms_name := Some newName\<rparr>,
              checked_query valid validate,
              (checked_query missing drop_old)\<lparr>ms_assert := Some invalid, ms_name := Some tmpName\<rparr>,
              (checked_query missing rename)\<lparr>ms_assert := Some invalid, ms_name := Some tmpName\<rparr>],
           mq_validations := [\<lparr>vs_name = newName, vs_check = invalid, vs_retry = running\<rparr>]\<rparr>)))))))))))))"

text \<open>
  The change of one column that stays: the rollout widens the check to the values both versions write, or drops
  it when they can not share one, and the cleanup narrows it to the new values.
\<close>

definition update_check ::
  "builder_options \<Rightarrow> nat \<Rightarrow> (string \<Rightarrow> string) \<Rightarrow> string \<Rightarrow> string \<Rightarrow> any_schema \<Rightarrow> any_schema \<Rightarrow> migration_steps build" where
  "update_check eng stack hashData table column sourceColumn targetColumn =
     (let switchValues = getSwitchValues eng sourceColumn targetColumn
      in andThen (if isSameValues switchValues (getConstraintValues eng sourceColumn) then give getStepQueries
                  else case switchValues of
                         Some values \<Rightarrow> prepareSwap eng stack hashData table column (getValueListFilters column values) False
                       | None \<Rightarrow> andThen (getDeleteQuery eng stack table (getConstraintName table column)) (\<lambda>query.
                           give (getStepQueries\<lparr>mq_constraints := [only_query query]\<rparr>))) (\<lambda>rollout.
         andThen (if isConstrainedSchema targetColumn \<and> \<not> isSameValues (getConstraintValues eng targetColumn) switchValues
                  then prepareSwap eng stack hashData table column (getConstraintFilters eng column targetColumn) True
                  else give getStepQueries) (\<lambda>cleanup.
         give (no_steps\<lparr>rollout_step := rollout, cleanup_step := cleanup\<rparr>))))"

text \<open>A changed column is a column of both schemas.\<close>

definition constraints_prepareUpdate ::
  "builder_options \<Rightarrow> nat \<Rightarrow> (string \<Rightarrow> string) \<Rightarrow> string \<Rightarrow> (string \<times> any_schema) list \<Rightarrow> (string \<times> any_schema) list \<Rightarrow>
   string list \<Rightarrow> migration_steps build" where
  "constraints_prepareUpdate eng stack hashData table targetProperties sourceProperties changed =
     andThen (each (\<lambda>column. case (obj_get sourceProperties column, obj_get targetProperties column) of
                 (Some sourceColumn, Some targetColumn) \<Rightarrow> update_check eng stack hashData table column sourceColumn targetColumn
               | _ \<Rightarrow> raise sql_error.TypeError) changed)
       (\<lambda>steps. give (foldl combineSteps no_steps steps))"

definition rename_checks ::
  "builder_options \<Rightarrow> nat \<Rightarrow> string \<Rightarrow> (string \<times> string) list \<Rightarrow> migration_statement list build" where
  "rename_checks eng stack table names =
     each (\<lambda>(oldName, newName).
       andThen (getCheckConstraintExistsQuery eng stack newName) (\<lambda>present.
       andThen (rename_constraint_query eng stack table oldName newName) (\<lambda>query.
       give (checked_query present query)))) names"

definition constraints_prepareRenameTable ::
  "builder_options \<Rightarrow> nat \<Rightarrow> string \<Rightarrow> string \<Rightarrow> (string \<times> any_schema) list \<Rightarrow> migration_statement list build" where
  "constraints_prepareRenameTable eng stack fromTable toTable columns =
     rename_checks eng stack toTable (map (\<lambda>(column, schema). (getConstraintName fromTable column, getConstraintName toTable column))
       (filter (\<lambda>p. isConstrainedSchema (snd p)) columns))"

definition constraints_prepareRenameColumns ::
  "builder_options \<Rightarrow> nat \<Rightarrow> string \<Rightarrow> (string \<times> any_schema) list \<Rightarrow> (string \<times> string) list \<Rightarrow> migration_statement list build" where
  "constraints_prepareRenameColumns eng stack table properties changes =
     andThen (each (\<lambda>(fromColumn, toColumn). case obj_get properties toColumn of
                 None \<Rightarrow> raise sql_error.TypeError
               | Some schema \<Rightarrow> if isConstrainedSchema schema
                   then rename_checks eng stack table [(getConstraintName table fromColumn, getConstraintName table toColumn)] else give []) changes)
       (\<lambda>statements. give (concat statements))"

definition constraints_prepareDelete ::
  "builder_options \<Rightarrow> nat \<Rightarrow> string \<Rightarrow> (string \<times> any_schema) list \<Rightarrow> migration_statement list build" where
  "constraints_prepareDelete eng stack table columns =
     each (\<lambda>(column, schema). andThen (getDeleteQuery eng stack table (getConstraintName table column)) (\<lambda>query. give (only_query query)))
       (filter (\<lambda>p. isConstrainedSchema (snd p)) columns)"

definition constraints_getNames :: "string \<Rightarrow> (string \<times> any_schema) list \<Rightarrow> string list" where
  "constraints_getNames table columns = map (\<lambda>p. getConstraintName table (fst p)) (filter (\<lambda>p. isConstrainedSchema (snd p)) columns)"

section \<open>The values a check accepts\<close>

text \<open>The literals a check on values accepts: any, when there is no check.\<close>

definition accepts :: "string list option \<Rightarrow> string \<Rightarrow> bool" where
  "accepts values v = (case values of None \<Rightarrow> True | Some vs \<Rightarrow> v \<in> set vs)"

lemma switch_values_accept:
  "accepts (getConstraintValues eng s) v \<Longrightarrow> accepts (getSwitchValues eng s t) v"
  "accepts (getConstraintValues eng t) v \<Longrightarrow> accepts (getSwitchValues eng s t) v"
  by (auto simp: accepts_def getSwitchValues_def split: option.splits)

lemma same_values_accept: "isSameValues xs ys \<Longrightarrow> accepts xs v = accepts ys v"
  by (auto simp: isSameValues_def accepts_def list_all_iff split: option.splits)

lemma constrained_values: "isConstrainedSchema s \<longleftrightarrow> getConstraintValues eng s \<noteq> None"
  by (cases s) auto

end
