(* ===== verification/Migration_Run.thy ===== *)
theory Migration_Run
  imports Migration_Queries
begin

text \<open>
  Running the statements of a migration: \<open>providers/raw/raw-pg/src/migration/client.ts\<close> with \<open>Wait.until\<close> of
  \<open>foundation/utils\<close>. The database is a parameter: a function from its state and a query to an answer and
  the next state, where everything else that happens to the database is part of its state. What PostgreSQL does
  with a statement is stated on the part of the catalog the statement is about.
\<close>

section \<open>The runner\<close>

datatype db_answer = Rows bool | LockTimeout | QueryFailed

datatype run_error = MigrationAssertionFailedError "string option" | MigrationValidationFailedError string | DatabaseError | WaitMaxAttemptsError | EndlessLoop

type_synonym 'w database = "'w \<Rightarrow> string \<Rightarrow> db_answer \<times> 'w"

text \<open>Attempts until one gives a result; \<open>Inr None\<close> asks for another attempt.\<close>

fun wait_until :: "nat \<Rightarrow> ('w \<Rightarrow> (run_error + 'r option) \<times> 'w) \<Rightarrow> 'w \<Rightarrow> (run_error + 'r) \<times> 'w" where
  "wait_until 0 callback w = (Inl WaitMaxAttemptsError, w)"
| "wait_until (Suc attempts) callback w =
     (case callback w of
        (Inl e, w') \<Rightarrow> (Inl e, w')
      | (Inr (Some r), w') \<Rightarrow> (Inr r, w')
      | (Inr None, w') \<Rightarrow> wait_until attempts callback w')"

definition rawQuery :: "'w database \<Rightarrow> string \<Rightarrow> 'w \<Rightarrow> (run_error + bool) \<times> 'w" where
  "rawQuery db query w = (case db w query of (Rows b, w') \<Rightarrow> (Inr b, w') | (_, w') \<Rightarrow> (Inl DatabaseError, w'))"

definition attempt_query :: "'w database \<Rightarrow> string \<Rightarrow> 'w \<Rightarrow> (run_error + bool option) \<times> 'w" where
  "attempt_query db query w =
     (case db w query of (Rows b, w') \<Rightarrow> (Inr (Some b), w') | (LockTimeout, w') \<Rightarrow> (Inr None, w') | (QueryFailed, w') \<Rightarrow> (Inl DatabaseError, w'))"

text \<open>What an optional query finds, before the statement goes on.\<close>

definition when_asked :: "'w database \<Rightarrow> string option \<Rightarrow> 'w \<Rightarrow> (run_error + bool) \<times> 'w" where
  "when_asked db query w = (case truthy_name query of None \<Rightarrow> (Inr False, w) | Some q \<Rightarrow> rawQuery db q w)"

definition runStatement :: "'w database \<Rightarrow> migration_statement \<Rightarrow> 'w \<Rightarrow> (run_error + bool) \<times> 'w" where
  "runStatement db st w =
     (case when_asked db (ms_assert st) w of
        (Inl e, w1) \<Rightarrow> (Inl e, w1)
      | (Inr shouldFail, w1) \<Rightarrow>
          if shouldFail then (Inl (MigrationAssertionFailedError (ms_name st)), w1)
          else case when_asked db (ms_check st) w1 of
                 (Inl e, w2) \<Rightarrow> (Inl e, w2)
               | (Inr shouldSkip, w2) \<Rightarrow>
                   if shouldSkip then (Inr False, w2)
                   else case wait_until 10 (attempt_query db (ms_query st)) w2 of
                          (Inl e, w3) \<Rightarrow> (Inl e, w3)
                        | (Inr b, w3) \<Rightarrow> (Inr True, w3))"

fun runAllStatements :: "'w database \<Rightarrow> migration_statement list \<Rightarrow> 'w \<Rightarrow> (run_error + unit) \<times> 'w" where
  "runAllStatements db [] w = (Inr (), w)"
| "runAllStatements db (st # sts) w =
     (case getMigrationQuery (ms_query st) (ms_concurrent st) MIGRATION_LOCK_TIMEOUT of
        None \<Rightarrow> (Inl EndlessLoop, w)
      | Some query \<Rightarrow>
          (case runStatement db (st\<lparr>ms_query := query\<rparr>) w of
             (Inl e, w') \<Rightarrow> (Inl e, w')
           | (Inr executed, w') \<Rightarrow> runAllStatements db sts w'))"

fun runAllValidations :: "'w database \<Rightarrow> validation_statement list \<Rightarrow> 'w \<Rightarrow> (run_error + unit) \<times> 'w" where
  "runAllValidations db [] w = (Inr (), w)"
| "runAllValidations db (v # vs) w =
     (case rawQuery db (vs_check v) w of
        (Inl e, w') \<Rightarrow> (Inl e, w')
      | (Inr hasError, w') \<Rightarrow> if hasError then (Inl (MigrationValidationFailedError (vs_name v)), w') else runAllValidations db vs w')"

section \<open>What PostgreSQL does with a statement\<close>

text \<open>
  \<open>cof\<close> is what a state has of the catalog that a group of statements is about. A query that only reads finds a row
  exactly when the catalog has a property.
\<close>

definition asks :: "'w database \<Rightarrow> ('w \<Rightarrow> 'c) \<Rightarrow> string \<Rightarrow> ('c \<Rightarrow> bool) \<Rightarrow> bool" where
  "asks db cof query P =
     (\<forall>w. cof (snd (db w query)) = cof w \<and> (case fst (db w query) of Rows b \<Rightarrow> b = P (cof w) | _ \<Rightarrow> True))"

text \<open>A statement that changes the catalog as given when it succeeds, and not at all when it fails.\<close>

definition does :: "'w database \<Rightarrow> ('w \<Rightarrow> 'c) \<Rightarrow> string \<Rightarrow> ('c \<Rightarrow> 'c option) \<Rightarrow> bool" where
  "does db cof query f =
     (\<forall>w. case fst (db w query) of Rows b \<Rightarrow> f (cof w) = Some (cof (snd (db w query))) | _ \<Rightarrow> cof (snd (db w query)) = cof w)"

text \<open>A query that leaves the catalog alone, and finds a row whenever the catalog has a property.\<close>

definition refuses :: "'w database \<Rightarrow> ('w \<Rightarrow> 'c) \<Rightarrow> string \<Rightarrow> ('c \<Rightarrow> bool) \<Rightarrow> bool" where
  "refuses db cof query P = (\<forall>w. cof (snd (db w query)) = cof w \<and> (fst (db w query) = Rows False \<longrightarrow> \<not> P (cof w)))"

text \<open>A statement that may also have had its effect when it fails, as one that runs outside a transaction.\<close>

definition attempts :: "'w database \<Rightarrow> ('w \<Rightarrow> 'c) \<Rightarrow> string \<Rightarrow> ('c \<Rightarrow> 'c option) \<Rightarrow> bool" where
  "attempts db cof query f =
     (\<forall>w. case fst (db w query) of Rows b \<Rightarrow> f (cof w) = Some (cof (snd (db w query)))
        | _ \<Rightarrow> cof (snd (db w query)) \<in> insert (cof w) (set_option (f (cof w))))"

text \<open>
  The effect of a statement: the catalogs it may leave when it has run. A guarded statement has a state in which it
  is refused and one in which it is skipped; of another one it is not known whether it is skipped. A run of statements
  may stop at any statement, before or after its effect.
\<close>

type_synonym 'c effect = "'c \<Rightarrow> 'c set"

definition guarded :: "('c \<Rightarrow> bool) \<Rightarrow> ('c \<Rightarrow> bool) \<Rightarrow> ('c \<Rightarrow> 'c option) \<Rightarrow> 'c effect" where
  "guarded fails skips f c = (if fails c then {} else if skips c then {c} else set_option (f c))"

definition skippable :: "('c \<Rightarrow> 'c option) \<Rightarrow> 'c effect" where
  "skippable f c = insert c (set_option (f c))"

fun outcomes :: "'c effect list \<Rightarrow> 'c \<Rightarrow> (bool \<times> 'c) set" where
  "outcomes [] c = {(True, c)}"
| "outcomes (e # es) c = insert (False, c) (Pair False ` e c \<union> (\<Union>c' \<in> e c. outcomes es c'))"

definition runs_as :: "'w database \<Rightarrow> ('w \<Rightarrow> 'c) \<Rightarrow> migration_statement \<Rightarrow> 'c effect \<Rightarrow> bool" where
  "runs_as db cof st e =
     (\<forall>query w r w'. getMigrationQuery (ms_query st) (ms_concurrent st) MIGRATION_LOCK_TIMEOUT = Some query \<longrightarrow>
        runStatement db (st\<lparr>ms_query := query\<rparr>) w = (r, w') \<longrightarrow> cof w' \<in> (if isl r then insert (cof w) (e (cof w)) else e (cof w)))"

section \<open>The effect of a statement\<close>

lemma wait_until_does:
  assumes "does db cof query f" and "wait_until n (attempt_query db query) w = (r, w')"
  shows "(\<exists>e. r = Inl e) \<and> cof w' = cof w \<or> (\<exists>x. r = Inr x) \<and> f (cof w) = Some (cof w')"
  using assms(2)
proof (induction n arbitrary: w)
  case (Suc n)
  obtain a w1 where a: "db w query = (a, w1)" by fastforce
  with assms(1) have law: "case a of Rows b \<Rightarrow> f (cof w) = Some (cof w1) | _ \<Rightarrow> cof w1 = cof w"
    by (auto simp: does_def split: db_answer.splits dest!: spec [of _ w])
  show ?case
  proof (cases a)
    case LockTimeout
    then have "attempt_query db query w = (Inr None, w1)" by (simp add: attempt_query_def a)
    with Suc.prems have "wait_until n (attempt_query db query) w1 = (r, w')" by simp
    with Suc.IH [OF this] law LockTimeout show ?thesis by simp
  qed (use Suc.prems law a in \<open>auto simp: attempt_query_def\<close>)
qed auto

lemma when_asked_refuses:
  assumes "case query of None \<Rightarrow> \<forall>c. \<not> P c | Some q \<Rightarrow> q \<noteq> [] \<and> refuses db cof q P" and "when_asked db query w = (r, w')"
  shows "cof w' = cof w" and "r = Inr False \<Longrightarrow> \<not> P (cof w)"
  using assms
  by (auto simp: when_asked_def rawQuery_def refuses_def truthy_name_def split: option.splits list.splits db_answer.splits prod.splits
      dest!: spec [of _ w])

lemma when_asked_asks:
  assumes "case query of None \<Rightarrow> \<forall>c. \<not> P c | Some q \<Rightarrow> q \<noteq> [] \<and> asks db cof q P" and "when_asked db query w = (r, w')"
  shows "cof w' = cof w" and "r = Inr b \<Longrightarrow> b = P (cof w)"
  using assms
  by (auto simp: when_asked_def rawQuery_def asks_def truthy_name_def split: option.splits list.splits db_answer.splits prod.splits
      dest!: spec [of _ w])

lemma when_asked_reads:
  assumes "pred_option (\<lambda>q. refuses db cof q (\<lambda>c. False)) query" and "when_asked db query w = (r, w')"
  shows "cof w' = cof w"
  using assms
  by (auto simp: when_asked_def rawQuery_def refuses_def truthy_name_def split: option.splits list.splits db_answer.splits prod.splits
      dest!: spec [of _ w])

lemma wait_until_attempts:
  assumes "attempts db cof query f" and "\<And>c c'. f c = Some c' \<Longrightarrow> f c' = Some c'" and "wait_until n (attempt_query db query) w = (r, w')"
  shows "cof w' \<in> (if isl r then insert (cof w) (set_option (f (cof w))) else set_option (f (cof w)))"
  using assms(3)
proof (induction n arbitrary: w)
  case (Suc n)
  obtain a w1 where a: "db w query = (a, w1)" by fastforce
  have law: "case a of Rows b \<Rightarrow> f (cof w) = Some (cof w1) | _ \<Rightarrow> cof w1 \<in> insert (cof w) (set_option (f (cof w)))"
    using assms(1) [unfolded attempts_def, rule_format, of w] by (cases a) (simp_all add: a)
  show ?case
  proof (cases a)
    case LockTimeout
    then have "attempt_query db query w = (Inr None, w1)" by (simp add: attempt_query_def a)
    with Suc.prems have "wait_until n (attempt_query db query) w1 = (r, w')" by simp
    with Suc.IH [OF this] law LockTimeout assms(2) [of "cof w"] show ?thesis by (auto split: if_splits)
  qed (use Suc.prems law a in \<open>auto simp: attempt_query_def\<close>)
qed auto

lemma run_statement_runs:
  assumes "runStatement db (st\<lparr>ms_query := query\<rparr>) w = (r, w')"
  obtains (asserted) e where "when_asked db (ms_assert st) w = (Inl e, w')" "r = Inl e"
  | (refused) "when_asked db (ms_assert st) w = (Inr True, w')" "isl r"
  | (checked) e w1 where "when_asked db (ms_assert st) w = (Inr False, w1)" "when_asked db (ms_check st) w1 = (Inl e, w')" "r = Inl e"
  | (skipped) w1 where "when_asked db (ms_assert st) w = (Inr False, w1)" "when_asked db (ms_check st) w1 = (Inr True, w')" "\<not> isl r"
  | (executed) w1 w2 r3 where "when_asked db (ms_assert st) w = (Inr False, w1)" "when_asked db (ms_check st) w1 = (Inr False, w2)"
      "wait_until 10 (attempt_query db query) w2 = (r3, w')" "isl r = isl r3"
  using assms by (auto simp: runStatement_def split: sum.splits prod.splits if_splits)

lemma runs_as_guarded:
  assumes law_assert: "case ms_assert st of None \<Rightarrow> \<forall>c. \<not> fails c | Some q \<Rightarrow> q \<noteq> [] \<and> refuses db cof q fails"
    and law_check: "case ms_check st of None \<Rightarrow> \<forall>c. \<not> skips c | Some q \<Rightarrow> q \<noteq> [] \<and> asks db cof q skips"
    and law_query: "pred_option (\<lambda>q. does db cof q f) (getMigrationQuery (ms_query st) (ms_concurrent st) MIGRATION_LOCK_TIMEOUT)"
  shows "runs_as db cof st (guarded fails skips f)"
  unfolding runs_as_def
proof (intro allI impI)
  fix query w r w'
  assume "getMigrationQuery (ms_query st) (ms_concurrent st) MIGRATION_LOCK_TIMEOUT = Some query"
  with law_query have law: "does db cof query f" by simp
  assume "runStatement db (st\<lparr>ms_query := query\<rparr>) w = (r, w')"
  then show "cof w' \<in> (if isl r then insert (cof w) (guarded fails skips f (cof w)) else guarded fails skips f (cof w))"
  proof (cases rule: run_statement_runs)
    case asserted
    then show ?thesis using when_asked_refuses(1) [OF law_assert] by simp
  next
    case refused
    then show ?thesis using when_asked_refuses(1) [OF law_assert] by simp
  next
    case (checked e w1)
    then show ?thesis using when_asked_refuses(1) [OF law_assert] when_asked_asks(1) [OF law_check] by simp
  next
    case (skipped w1)
    then show ?thesis
      using when_asked_refuses [OF law_assert skipped(1)] when_asked_asks [OF law_check skipped(2)] by (simp add: guarded_def)
  next
    case (executed w1 w2 r3)
    from executed(1-2) have c: "cof w2 = cof w" "\<not> fails (cof w)" "\<not> skips (cof w)"
      using when_asked_refuses [OF law_assert executed(1)] when_asked_asks [OF law_check executed(2)] by simp_all
    from wait_until_does [OF law, of 10 w2 r3 w'] executed(3,4) c show ?thesis by (auto simp: guarded_def)
  qed
qed

lemma runs_as_attempted:
  assumes law_assert: "pred_option (\<lambda>q. refuses db cof q (\<lambda>c. False)) (ms_assert st)"
    and law_check: "pred_option (\<lambda>q. refuses db cof q (\<lambda>c. False)) (ms_check st)"
    and law_query: "pred_option (\<lambda>q. attempts db cof q f) (getMigrationQuery (ms_query st) (ms_concurrent st) MIGRATION_LOCK_TIMEOUT)"
    and again: "\<And>c c'. f c = Some c' \<Longrightarrow> f c' = Some c'"
  shows "runs_as db cof st (if ms_check st = None then \<lambda>c. set_option (f c) else skippable f)"
  unfolding runs_as_def
proof (intro allI impI)
  let ?e = "if ms_check st = None then \<lambda>c. set_option (f c) else skippable f"
  fix query w r w'
  assume "getMigrationQuery (ms_query st) (ms_concurrent st) MIGRATION_LOCK_TIMEOUT = Some query"
  with law_query have law: "attempts db cof query f" by simp
  assume "runStatement db (st\<lparr>ms_query := query\<rparr>) w = (r, w')"
  then show "cof w' \<in> (if isl r then insert (cof w) (?e (cof w)) else ?e (cof w))"
  proof (cases rule: run_statement_runs)
    case asserted
    then show ?thesis using when_asked_reads [OF law_assert] by simp
  next
    case refused
    then show ?thesis using when_asked_reads [OF law_assert] by simp
  next
    case (checked e w1)
    then show ?thesis using when_asked_reads [OF law_assert checked(1)] when_asked_reads [OF law_check checked(2)] by simp
  next
    case (skipped w1)
    from skipped(2) have "ms_check st \<noteq> None" by (cases "ms_check st") (simp_all add: when_asked_def truthy_name_def)
    then show ?thesis
      using skipped(3) when_asked_reads [OF law_assert skipped(1)] when_asked_reads [OF law_check skipped(2)] by (auto simp: skippable_def)
  next
    case (executed w1 w2 r3)
    have c: "cof w2 = cof w" using when_asked_reads [OF law_assert executed(1)] when_asked_reads [OF law_check executed(2)] by simp
    have "cof w' \<in> (if isl r3 then insert (cof w2) (set_option (f (cof w2))) else set_option (f (cof w2)))"
      by (rule wait_until_attempts [OF law _ executed(3)]) (rule again)
    then show ?thesis using executed(4) c by (auto simp: skippable_def split: if_splits)
  qed
qed

text \<open>The runner refines the runs on the catalog.\<close>

lemma run_refines_outcomes:
  assumes "list_all2 (runs_as db cof) sts es" and "runAllStatements db sts w = (r, w')"
  shows "(r = Inr (), cof w') \<in> outcomes es (cof w)"
  using assms
proof (induction arbitrary: w rule: list_all2_induct)
  case (Cons st sts e es)
  show ?case
  proof (cases "getMigrationQuery (ms_query st) (ms_concurrent st) MIGRATION_LOCK_TIMEOUT")
    case (Some query)
    obtain r1 w1 where 1: "runStatement db (st\<lparr>ms_query := query\<rparr>) w = (r1, w1)" by fastforce
    have effect: "cof w1 \<in> (if isl r1 then insert (cof w) (e (cof w)) else e (cof w))"
      using Cons.hyps(1) Some 1 unfolding runs_as_def by blast
    show ?thesis
    proof (cases r1)
      case (Inl x)
      with Cons.prems have "r = Inl x" "w' = w1" by (simp_all add: Some 1)
      then show ?thesis using effect Inl by auto
    next
      case (Inr b)
      then have "(r = Inr (), cof w') \<in> outcomes es (cof w1)" using Cons.prems Cons.IH [of w1] by (simp add: Some 1)
      with effect Inr show ?thesis by auto
    qed
  qed (use Cons.prems in auto)
qed auto

text \<open>A property of each stage: what holds before a statement and, when it has run, before the next.\<close>

lemma outcomes_stages:
  assumes "(completed, c') \<in> outcomes es c" and "P 0 c"
    and "\<And>k c d. k < length es \<Longrightarrow> P k c \<Longrightarrow> d \<in> (es ! k) c \<Longrightarrow> P (Suc k) d"
  shows "\<exists>k \<le> length es. P k c' \<and> (completed \<longrightarrow> k = length es)"
  using assms
proof (induction es arbitrary: c P)
  case (Cons e es)
  have first: "P 1 d" if "d \<in> e c" for d using Cons.prems(3) [of 0 c d] Cons.prems(2) that by simp
  have rest: "\<exists>k \<le> length (e # es). P k c' \<and> (completed \<longrightarrow> k = length (e # es))"
    if "(completed, c') \<in> outcomes es d" "P 1 d" for d
    using Cons.IH [OF that(1), of "\<lambda>k. P (Suc k)"] that(2) Cons.prems(3) [of "Suc k" for k] by fastforce
  from Cons.prems(1) consider "\<not> completed" "c' = c" | "\<not> completed" "c' \<in> e c" | d where "(completed, c') \<in> outcomes es d" "d \<in> e c" by auto
  then show ?case
  proof cases
    case 1
    then show ?thesis using Cons.prems(2) by (intro exI [of _ 0]) simp
  next
    case 2
    then show ?thesis using first by (intro exI [of _ 1]) simp
  next
    case (3 d)
    then show ?thesis using first rest by blast
  qed
qed auto

section \<open>Statements of a builder\<close>

text \<open>The text a builder gives, whatever its counter and its aliases are.\<close>

definition builds :: "'a build \<Rightarrow> 'a \<Rightarrow> bool" where
  "builds m x = (\<exists>refs vs refs'. m refs = Inr (x, vs, refs'))"

definition changes_catalog :: "'w database \<Rightarrow> ('w \<Rightarrow> 'c) \<Rightarrow> string build \<Rightarrow> ('c \<Rightarrow> 'c option) \<Rightarrow> bool" where
  "changes_catalog db cof query f =
     (\<forall>q. builds query q \<longrightarrow> pred_option (\<lambda>m. does db cof m f) (getMigrationQuery q False MIGRATION_LOCK_TIMEOUT))"

lemma builds_andThen:
  assumes "builds (andThen m k) x"
  obtains y where "builds m y" and "builds (k y) x"
proof -
  from assms obtain refs vs refs' where run: "andThen m k refs = Inr (x, vs, refs')" by (auto simp: builds_def)
  then obtain y ws refs1 where y: "m refs = Inr (y, ws, refs1)" by (cases "m refs") (auto simp: andThen_def)
  with run obtain xs where "k y refs1 = Inr (x, xs, refs')" by (cases "k y refs1") (auto simp: andThen_def)
  with y that show thesis unfolding builds_def by blast
qed

lemma builds_simps [simp]: "builds (give y) x \<longleftrightarrow> x = y" "\<not> builds (raise e) x"
  by (auto simp: builds_def give_def raise_def)

lemma builds_text_only: "builds (text_only m) x \<Longrightarrow> builds m x"
  unfolding builds_def text_only_def by (elim exE) (auto split: sum.splits prod.splits)

lemma render_simps [simp]: "render (x @ y) = render x @ render y" "render (Txt s # x) = s @ render x" "render [] = []"
  by (simp_all add: render_def)

lemma render_joined: "render (joined sep (x # xs)) = render x @ concat (map (\<lambda>y. sep @ render y) xs)"
  by (induction xs arbitrary: x) simp_all

definition some_text :: "sql build \<Rightarrow> bool" where
  "some_text m = (\<forall>x. builds m x \<longrightarrow> render x \<noteq> [])"

lemma some_text_intros:
  "render x \<noteq> [] \<Longrightarrow> some_text (give x)"
  "(\<And>x. some_text (k x)) \<Longrightarrow> some_text (andThen m k)"
  by (auto simp: some_text_def elim!: builds_andThen)

lemma some_text_select: "some_text (build eng stack (SelectStatement select))"
proof (cases stack)
  case 0
  then show ?thesis by (simp add: some_text_def)
next
  case (Suc n)
  show ?thesis by (cases select) (auto simp: Suc Let_def render_joined intro!: some_text_intros)
qed

lemma query_text_nonempty: "builds (query_text eng stack select) q \<Longrightarrow> q \<noteq> []"
  using some_text_select [of eng stack select]
  by (auto simp: query_text_def some_text_def dest!: builds_text_only elim!: builds_andThen)

lemmas check_nonempty =
  query_text_nonempty [where select = "constraint_named name" for name, folded getCheckConstraintExistsQuery_def]
  query_text_nonempty [where select = "find_one [] (none_of (constraint_named name)) None" for name, folded getCheckConstraintMissingQuery_def]
  query_text_nonempty [where select = "validated ''false'' name" for name, folded getCheckConstraintInvalidQuery_def]
  query_text_nonempty [where select = "validated ''true'' name" for name, folded getCheckConstraintValidQuery_def]
  query_text_nonempty [where select = "find_one [TableName table] [(''NOT'', Fields fs)] (Some (Fin 1))" for table fs,
    folded getCheckConstraintRecordsQuery_def]

lemma asks_refuses: "asks db cof q P \<Longrightarrow> refuses db cof q P"
  by (fastforce simp: asks_def refuses_def split: db_answer.splits)

lemma runs_as_checked:
  assumes "changes_catalog db cof m f" and "builds m q" and "asks db cof check skips" and "check \<noteq> []"
    and "case records of None \<Rightarrow> \<forall>c. \<not> fails c | Some a \<Rightarrow> a \<noteq> [] \<and> refuses db cof a fails"
  shows "runs_as db cof ((checked_query check q)\<lparr>ms_assert := records, ms_name := name\<rparr>) (guarded fails skips f)"
    and "records = None \<Longrightarrow> runs_as db cof (checked_query check q) (guarded fails skips f)"
  using assms by (auto intro!: runs_as_guarded simp: checked_query_def only_query_def changes_catalog_def)

lemma runs_as_optional:
  assumes "changes_catalog db cof m f" and "builds m q"
    and "case check of None \<Rightarrow> \<forall>c. \<not> skips c | Some a \<Rightarrow> a \<noteq> [] \<and> asks db cof a skips"
  shows "runs_as db cof ((only_query q)\<lparr>ms_check := check, ms_condition := cond\<rparr>) (guarded (\<lambda>c. False) skips f)"
  using assms by (intro runs_as_guarded) (simp_all add: only_query_def changes_catalog_def)

section \<open>Constraints of a table\<close>

text \<open>The constraints of a table: what a constraint states, and whether it has been validated.\<close>

type_synonym 'd catalog = "string \<Rightarrow> ('d \<times> bool) option"

text \<open>The statements on one constraint.\<close>

definition add_constraint :: "string \<Rightarrow> 'd \<Rightarrow> 'd catalog \<Rightarrow> 'd catalog option" where
  "add_constraint n fs c = (if c n = None then Some (c(n \<mapsto> (fs, False))) else None)"

definition validate_constraint :: "string \<Rightarrow> 'd catalog \<Rightarrow> 'd catalog option" where
  "validate_constraint n c = (case c n of None \<Rightarrow> None | Some (fs, b) \<Rightarrow> Some (c(n \<mapsto> (fs, True))))"

definition drop_constraint :: "string \<Rightarrow> 'd catalog \<Rightarrow> 'd catalog option" where
  "drop_constraint n c = Some (c(n := None))"

definition rename_constraint :: "string \<Rightarrow> string \<Rightarrow> 'd catalog \<Rightarrow> 'd catalog option" where
  "rename_constraint t n c =
     (case c t of None \<Rightarrow> None | Some x \<Rightarrow> if c n = None then Some (c(t := None, n \<mapsto> x)) else None)"

definition is_invalid :: "string \<Rightarrow> 'd catalog \<Rightarrow> bool" where
  "is_invalid n c = (\<exists>fs. c n = Some (fs, False))"

definition is_valid :: "string \<Rightarrow> 'd catalog \<Rightarrow> bool" where
  "is_valid n c = (\<exists>fs. c n = Some (fs, True))"

lemma validity_code [code]: "is_valid n c = (case c n of None \<Rightarrow> False | Some (fs, b) \<Rightarrow> b)" "is_invalid n c = (case c n of None \<Rightarrow> False | Some (fs, b) \<Rightarrow> \<not> b)"
  by (auto simp: is_valid_def is_invalid_def split: option.splits)

text \<open>
  The behaviour of PostgreSQL on the queries on the catalog, which find a name that is stored as it is.
\<close>

definition finds_constraint :: "'w database \<Rightarrow> ('w \<Rightarrow> 'd catalog) \<Rightarrow> builder_options \<Rightarrow> nat \<Rightarrow> string \<Rightarrow> bool" where
  "finds_constraint db cof eng stack name =
     ((\<forall>q. builds (getCheckConstraintExistsQuery eng stack name) q \<longrightarrow> asks db cof q (\<lambda>c. c name \<noteq> None)) \<and>
      (\<forall>q. builds (getCheckConstraintMissingQuery eng stack name) q \<longrightarrow> asks db cof q (\<lambda>c. c name = None)) \<and>
      (\<forall>q. builds (getCheckConstraintValidQuery eng stack name) q \<longrightarrow> asks db cof q (is_valid name)) \<and>
      (\<forall>q. builds (getCheckConstraintInvalidQuery eng stack name) q \<longrightarrow> asks db cof q (is_invalid name)))"

text \<open>A state in the course of the replacement of a constraint by one under a temporary name, which began with the catalog \<open>c0\<close>.\<close>

definition swapping :: "string \<Rightarrow> string \<Rightarrow> 'd \<Rightarrow> 'd catalog \<Rightarrow> 'd catalog \<Rightarrow> bool" where
  "swapping stored tmp d c0 c =
     (c stored \<in> {c0 stored, None, Some (d, True)} \<and> c tmp \<in> {None, Some (d, False), Some (d, True)} \<and>
      (c stored = None \<longrightarrow> c0 stored = None \<or> c tmp = Some (d, True)))"

section \<open>Runs that stop\<close>

text \<open>Runs of a list of statements that stop at any point, one after the other.\<close>

inductive tried :: "'w database \<Rightarrow> migration_statement list \<Rightarrow> 'w \<Rightarrow> 'w \<Rightarrow> bool" for db sts where
  untried: "tried db sts w w"
| interrupted: "tried db sts w w1 \<Longrightarrow> runAllStatements db (take k sts) w1 = (r, w2) \<Longrightarrow> tried db sts w w2"

lemma tried_invariant:
  assumes "tried db sts w w'" and "list_all2 (runs_as db cof) sts es" and "I (cof w)"
    and "\<And>k c b c'. I c \<Longrightarrow> (b, c') \<in> outcomes (take k es) c \<Longrightarrow> I c'"
  shows "I (cof w')"
  using assms
proof (induction rule: tried.induct)
  case (interrupted w w1 k r w2)
  then have "list_all2 (runs_as db cof) (take k sts) (take k es)" by (simp add: list_all2_takeI)
  from run_refines_outcomes [OF this interrupted.hyps(2)] interrupted.IH interrupted.prems show ?case by blast
qed simp

section \<open>Stages of a run\<close>

text \<open>
  The contract of a list of statements that can be run again at any time: each statement leads from the stage before it
  to the next one, and every stage is one in which the list may start.
\<close>

locale staged =
  fixes es :: "'c effect list" and stage :: "nat \<Rightarrow> 'c \<Rightarrow> bool"
  assumes step: "k < length es \<Longrightarrow> stage k c \<Longrightarrow> d \<in> (es ! k) c \<Longrightarrow> stage (Suc k) d"
    and restart: "stage k c \<Longrightarrow> stage 0 c"
begin

lemma outcome:
  assumes "(completed, c') \<in> outcomes (take n es) c" and "stage 0 c"
  shows "stage 0 c'" and "completed \<Longrightarrow> length es \<le> n \<Longrightarrow> stage (length es) c'"
proof -
  have "\<exists>k \<le> length (take n es). stage k c' \<and> (completed \<longrightarrow> k = length (take n es))"
    by (rule outcomes_stages [where P = stage, OF assms]) (auto intro: step)
  then obtain k where k: "stage k c'" "completed \<longrightarrow> k = length (take n es)" by blast
  then show "stage 0 c'" using restart by blast
  show "stage (length es) c'" if "completed" "length es \<le> n" using k that by simp
qed

lemma tried_keeps:
  assumes "list_all2 (runs_as db cof) sts es" and "tried db sts w w'" and "stage 0 (cof w)"
  shows "stage 0 (cof w')"
  by (rule tried_invariant [OF assms(2,1), where I = "stage 0"]) (use assms(3) outcome(1) in blast)+

lemma run_completes:
  assumes "list_all2 (runs_as db cof) sts es" and "stage 0 (cof w)" and "runAllStatements db sts w = (Inr (), w')"
  shows "stage (length es) (cof w')"
proof -
  from run_refines_outcomes [OF assms(1,3)] have "(True, cof w') \<in> outcomes (take (length es) es) (cof w)" by simp
  from outcome(2) [OF this assms(2)] show ?thesis by simp
qed

end

section \<open>A database for examples\<close>

text \<open>A database whose state is the catalog: it answers the queries of a list, and refuses every other one.\<close>

definition sample_engine :: builder_options where
  "sample_engine = \<lparr>onPrepareVariable = None, onPrepareArray = None, textOf = (\<lambda>_. ''1''), jsonOf = (\<lambda>_. [])\<rparr>"

definition sample_refs :: builder_references where
  "sample_refs = \<lparr>counter = 0, aliases = [], alias_of = (\<lambda>_. None)\<rparr>"

definition sample_hash :: "string \<Rightarrow> string" where
  "sample_hash name = ''01234567''"

definition built_text :: "string build \<Rightarrow> string" where
  "built_text m = (case m sample_refs of Inl e \<Rightarrow> [] | Inr (q, vs, refs) \<Rightarrow> q)"

definition locked_text :: "string build \<Rightarrow> string" where
  "locked_text m = (case getMigrationQuery (built_text m) False MIGRATION_LOCK_TIMEOUT of None \<Rightarrow> [] | Some q \<Rightarrow> q)"

definition found :: "('c \<Rightarrow> bool) \<Rightarrow> 'c \<Rightarrow> db_answer \<times> 'c" where
  "found P c = (Rows (P c), c)"

definition changed :: "('c \<Rightarrow> 'c option) \<Rightarrow> 'c \<Rightarrow> db_answer \<times> 'c" where
  "changed f c = (case f c of None \<Rightarrow> (QueryFailed, c) | Some c' \<Rightarrow> (Rows False, c'))"

lemma built_text_unique:
  assumes "\<And>k a f. case m \<lparr>counter = k, aliases = a, alias_of = f\<rparr> of Inl e \<Rightarrow> True | Inr (q, vs, refs) \<Rightarrow> q = built_text m"
    and "builds m q"
  shows "q = built_text m"
proof -
  from assms(2) obtain refs vs refs' where run: "m refs = Inr (q, vs, refs')" by (auto simp: builds_def)
  obtain k a f where "refs = \<lparr>counter = k, aliases = a, alias_of = f\<rparr>" by (cases refs) auto
  with run assms(1) [of k a f] show ?thesis by simp
qed

definition answering :: "(string \<times> ('c \<Rightarrow> db_answer \<times> 'c)) list \<Rightarrow> 'c database" where
  "answering answers c q = (case map_of answers q of None \<Rightarrow> (QueryFailed, c) | Some answer \<Rightarrow> answer c)"

lemma answering_listed: "distinct (map fst answers) \<Longrightarrow> (q, answer) \<in> set answers \<Longrightarrow> answering answers c q = answer c"
  by (simp add: answering_def)

lemma answering_asks:
  "distinct (map fst answers) \<Longrightarrow> (q, found P) \<in> set answers \<Longrightarrow> asks (answering answers) id q P \<and> refuses (answering answers) id q P"
  by (simp add: asks_def refuses_def answering_listed found_def)

lemma answering_attempts:
  "distinct (map fst answers) \<Longrightarrow> (q, changed f) \<in> set answers \<Longrightarrow> attempts (answering answers) id q f"
  by (simp add: attempts_def answering_listed changed_def split: option.splits)

lemma answering_changes:
  assumes "distinct (map fst answers)" and "(locked_text m, changed f) \<in> set answers" and "\<And>q. builds m q \<Longrightarrow> q = built_text m"
  shows "changes_catalog (answering answers) id m f"
proof -
  have "does (answering answers) id (locked_text m) f"
    by (simp add: does_def answering_listed [OF assms(1,2)] changed_def split: option.splits)
  then have "does (answering answers) id x f" if "builds m q" "getMigrationQuery q False MIGRATION_LOCK_TIMEOUT = Some x" for q x
    using that assms(3) [of q] by (simp add: locked_text_def)
  then show ?thesis by (auto simp: changes_catalog_def option.pred_set)
qed

end
