(* ===== verification/Migration_Swap.thy ===== *)
theory Migration_Swap
  imports Migration_Run
begin

text \<open>
  What a migration makes of the value check of a column (\<open>queries/constraints.ts\<close> of
  \<open>libraries/pgmigration/src\<close> run by \<open>providers/raw/raw-pg/src/migration/client.ts\<close>): the swap of a check may be
  interrupted and run again at any point, and while the old and the new code are live the column takes the
  values of both.
\<close>

section \<open>The swap of a check\<close>

text \<open>
  The behaviour of PostgreSQL on the queries of a swap, for a table that exists. A name is stored shortened: \<open>stored\<close>
  is the name under which the catalog has the constraint \<open>name\<close>.
\<close>

definition swap_laws ::
  "'w database \<Rightarrow> ('w \<Rightarrow> filters catalog) \<Rightarrow> builder_options \<Rightarrow> nat \<Rightarrow> string \<Rightarrow> string \<Rightarrow> string \<Rightarrow> string \<Rightarrow> filters \<Rightarrow> bool" where
  "swap_laws db cof eng stack table name stored tmp fs =
     (finds_constraint db cof eng stack tmp \<and>
      (\<forall>q. builds (getCheckConstraintRecordsQuery eng stack table fs) q \<longrightarrow> refuses db cof q (\<lambda>c. False)) \<and>
      changes_catalog db cof (getCreateQuery eng stack table tmp fs) (add_constraint tmp fs) \<and>
      changes_catalog db cof (getValidateQuery eng stack table tmp) (validate_constraint tmp) \<and>
      changes_catalog db cof (getDeleteQuery eng stack table name) (drop_constraint stored) \<and>
      changes_catalog db cof (rename_constraint_query eng stack table tmp name) (rename_constraint tmp stored))"

definition swap_effects :: "string \<Rightarrow> string \<Rightarrow> filters \<Rightarrow> filters catalog effect list" where
  "swap_effects stored tmp fs =
     [guarded (\<lambda>c. False) (\<lambda>c. c tmp \<noteq> None) (add_constraint tmp fs),
      guarded (\<lambda>c. False) (is_valid tmp) (validate_constraint tmp),
      guarded (is_invalid tmp) (\<lambda>c. c tmp = None) (drop_constraint stored),
      guarded (is_invalid tmp) (\<lambda>c. c tmp = None) (rename_constraint tmp stored)]"

text \<open>What holds before each of the statements, and after all of them.\<close>

definition swap_stage :: "string \<Rightarrow> string \<Rightarrow> filters \<Rightarrow> filters catalog \<Rightarrow> nat \<Rightarrow> filters catalog \<Rightarrow> bool" where
  "swap_stage s t fs c0 k c = (s \<noteq> t \<and> swapping s t fs c0 c \<and> (k = 1 \<longrightarrow> c t \<noteq> None) \<and> (k = 2 \<longrightarrow> c t = Some (fs, True)) \<and>
     (k = 3 \<longrightarrow> c t = Some (fs, True) \<and> c s = None) \<and> (k = 4 \<longrightarrow> c t = None \<and> c s = Some (fs, True)))"

interpretation check_swap: staged "swap_effects s t fs" "swap_stage s t fs c0" for s t fs c0
proof
  fix k c d
  assume "k < length (swap_effects s t fs)" and stage: "swap_stage s t fs c0 k c" and d: "d \<in> (swap_effects s t fs ! k) c"
  then have "k < 4" by (simp add: swap_effects_def)
  then consider "k = 0" | "k = 1" | "k = 2" | "k = 3" by linarith
  then show "swap_stage s t fs c0 (Suc k) d"
    using stage d
    by cases (auto simp: swap_effects_def swap_stage_def guarded_def swapping_def add_constraint_def validate_constraint_def drop_constraint_def
        rename_constraint_def is_valid_def is_invalid_def split: option.splits if_splits)
qed (simp add: swap_stage_def)

lemma swap_runs_as:
  assumes "swap_laws db cof eng stack table (getConstraintName table column) s t fs"
    and "getTemporaryName hashData (getConstraintName table column) = Some t"
    and "builds (prepareSwap eng stack hashData table column fs assertRecords) qs"
  shows "list_all2 (runs_as db cof) (mq_constraints qs) (swap_effects s t fs)"
  using assms(3) unfolding prepareSwap_def Let_def temporary_name_def assms(2) option.case
proof (elim builds_andThen)
  let ?n = "getConstraintName table column"
  fix tmp present records create valid validate missing invalid drop_old rename running
  assume tmp: "builds (give t) tmp"
    and q: "builds (getCheckConstraintExistsQuery eng stack tmp) present"
      "builds (if assertRecords then andThen (getCheckConstraintRecordsQuery eng stack table fs) (\<lambda>r. give (Some r)) else give None) records"
      "builds (getCreateQuery eng stack table tmp fs) create"
      "builds (getCheckConstraintValidQuery eng stack tmp) valid" "builds (getValidateQuery eng stack table tmp) validate"
      "builds (getCheckConstraintMissingQuery eng stack tmp) missing" "builds (getCheckConstraintInvalidQuery eng stack tmp) invalid"
      "builds (getDeleteQuery eng stack table ?n) drop_old" "builds (rename_constraint_query eng stack table tmp ?n) rename"
    and qs: "builds (give (getStepQueries\<lparr>mq_constraints :=
             [(checked_query present create)\<lparr>ms_assert := records, ms_name := Some ?n\<rparr>,
              checked_query valid validate,
              (checked_query missing drop_old)\<lparr>ms_assert := Some invalid, ms_name := Some tmp\<rparr>,
              (checked_query missing rename)\<lparr>ms_assert := Some invalid, ms_name := Some tmp\<rparr>],
           mq_validations := [\<lparr>vs_name = ?n, vs_check = invalid, vs_retry = running\<rparr>]\<rparr>)) qs"
  note q = q [unfolded tmp [simplified]]
  note laws = assms(1) [unfolded swap_laws_def finds_constraint_def]
  have nonempty: "present \<noteq> []" "valid \<noteq> []" "missing \<noteq> []" "invalid \<noteq> []" using q check_nonempty by blast+
  have reads: "asks db cof present (\<lambda>c. c t \<noteq> None)" "asks db cof valid (is_valid t)" "asks db cof missing (\<lambda>c. c t = None)"
    "refuses db cof invalid (is_invalid t)" using laws q asks_refuses by blast+
  have records: "case records of None \<Rightarrow> \<forall>c. \<not> False | Some a \<Rightarrow> a \<noteq> [] \<and> refuses db cof a (\<lambda>c. False)"
    using q(2) laws check_nonempty(5) by (auto split: if_splits elim!: builds_andThen)
  have invalid: "case Some invalid of None \<Rightarrow> \<forall>c. \<not> is_invalid t c | Some a \<Rightarrow> a \<noteq> [] \<and> refuses db cof a (is_invalid t)"
    using reads(4) nonempty(4) by simp
  have "runs_as db cof ((checked_query present create)\<lparr>ms_assert := records, ms_name := Some ?n\<rparr>)
      (guarded (\<lambda>c. False) (\<lambda>c. c t \<noteq> None) (add_constraint t fs))"
    by (rule runs_as_checked(1) [OF _ q(3) reads(1) nonempty(1) records]) (use laws in blast)
  moreover have "runs_as db cof (checked_query valid validate) (guarded (\<lambda>c. False) (is_valid t) (validate_constraint t))"
    by (rule runs_as_checked(2) [OF _ q(5) reads(2) nonempty(2), where records = None]) (use laws in auto)
  moreover have "runs_as db cof ((checked_query missing drop_old)\<lparr>ms_assert := Some invalid, ms_name := Some t\<rparr>)
      (guarded (is_invalid t) (\<lambda>c. c t = None) (drop_constraint s))"
    by (rule runs_as_checked(1) [OF _ q(8) reads(3) nonempty(3) invalid]) (use laws in blast)
  moreover have "runs_as db cof ((checked_query missing rename)\<lparr>ms_assert := Some invalid, ms_name := Some t\<rparr>)
      (guarded (is_invalid t) (\<lambda>c. c t = None) (rename_constraint t s))"
    by (rule runs_as_checked(1) [OF _ q(9) reads(3) nonempty(3) invalid]) (use laws in blast)
  ultimately show "list_all2 (runs_as db cof) (mq_constraints qs) (swap_effects s t fs)"
    using qs tmp by (simp add: swap_effects_def del: not_None_eq)
qed

lemma swap_names_apart:
  assumes "getTemporaryName hashData (getConstraintName table column) = Some t" and "getStoredName (getConstraintName table column) = Some s"
    and "byteLength (take 8 (hashData (getConstraintName table column))) = 8"
    and "\<not> sublist (take 8 (hashData (getConstraintName table column))) (getConstraintName table column)"
  shows "s \<noteq> t"
proof -
  let ?n = "getConstraintName table column"
  have "\<exists>t. getTemporaryName hashData ?n = Some t \<and> getStoredName t = Some t \<and> getStoredName ?n \<noteq> Some t"
    by (rule temporary_name_stored [of ?n table column hashData, OF _ assms(3,4)]) simp
  with assms(1,2) show ?thesis by fastforce
qed

lemma swap_tried:
  assumes "swap_laws db cof eng stack table (getConstraintName table column) s t fs"
    and "getTemporaryName hashData (getConstraintName table column) = Some t"
    and "builds (prepareSwap eng stack hashData table column fs assertRecords) qs" and "s \<noteq> t"
    and "tried db (mq_constraints qs) w w'" and "cof w t = None"
  shows "swapping s t fs (cof w) (cof w')"
    and "runAllStatements db (mq_constraints qs) w' = (Inr (), w'') \<Longrightarrow> cof w'' s = Some (fs, True) \<and> cof w'' t = None"
proof -
  note runs = swap_runs_as [OF assms(1-3)]
  have start: "swap_stage s t fs (cof w) 0 (cof w)" using assms(4,6) by (simp add: swap_stage_def swapping_def)
  note during = check_swap.tried_keeps [OF runs assms(5) start]
  then show "swapping s t fs (cof w) (cof w')" by (simp add: swap_stage_def)
  assume "runAllStatements db (mq_constraints qs) w' = (Inr (), w'')"
  from check_swap.run_completes [OF runs during this] show "cof w'' s = Some (fs, True) \<and> cof w'' t = None"
    by (simp add: swap_stage_def swap_effects_def)
qed

text \<open>
  C38. The check of a column is swapped for another, in runs that stop at any statement, for whatever reason, and are
  tried again: as long as there was a check there is one, the current one or the validated new one, and a run
  that completes leaves the new check, validated, under its name, and no temporary one. The parameters are the
  database, with the behaviour of PostgreSQL on the queries of the swap, and the hash of long names.
\<close>

theorem check_swap_survives_interruption:
  assumes "swap_laws db cof eng stack table (getConstraintName table column) s t fs"
    and "getTemporaryName hashData (getConstraintName table column) = Some t" and "getStoredName (getConstraintName table column) = Some s"
    and "byteLength (take 8 (hashData (getConstraintName table column))) = 8"
    and "\<not> sublist (take 8 (hashData (getConstraintName table column))) (getConstraintName table column)"
    and "prepareSwap eng stack hashData table column fs assertRecords refs = Inr (qs, vs, refs')"
    and "cof w s \<noteq> None" and "cof w t = None" and "tried db (mq_constraints qs) w w'"
  shows "(cof w' s \<noteq> None \<or> cof w' t = Some (fs, True)) \<and>
    (\<forall>w''. runAllStatements db (mq_constraints qs) w' = (Inr (), w'') \<longrightarrow> cof w'' s = Some (fs, True) \<and> cof w'' t = None)"
proof -
  have built: "builds (prepareSwap eng stack hashData table column fs assertRecords) qs" using assms(6) unfolding builds_def by blast
  note swap = swap_tried [OF assms(1,2) built swap_names_apart [OF assms(2-5)] assms(9,8)]
  show ?thesis using swap assms(7) by (auto simp: swapping_def)
qed

section \<open>The values a column takes\<close>

text \<open>The literals a check compares its column with, and the values a column takes with the checks in force.\<close>

definition check_accepts :: "filters \<Rightarrow> string \<Rightarrow> bool" where
  "check_accepts fs v =
     (case fs of
        [(column, Fields [(operator, operand)])] \<Rightarrow>
          if operator = ''isIn'' then (case operand of Items vs \<Rightarrow> raw_text v \<in> set vs | _ \<Rightarrow> False)
          else operator = ''equal'' \<and> operand = raw_text v
      | _ \<Rightarrow> False)"

definition column_accepts :: "string \<Rightarrow> string \<Rightarrow> filters catalog \<Rightarrow> string \<Rightarrow> bool" where
  "column_accepts s t c v =
     (pred_option (\<lambda>check. check_accepts (fst check) v) (c s) \<and> pred_option (\<lambda>check. check_accepts (fst check) v) (c t))"

definition column_checked :: "builder_options \<Rightarrow> any_schema \<Rightarrow> string \<Rightarrow> string \<Rightarrow> filters catalog \<Rightarrow> bool" where
  "column_checked eng schema s t c = (c t = None \<and> (\<forall>v. column_accepts s t c v = accepts (getConstraintValues eng schema) v))"

lemma value_list_accepts: "check_accepts (getValueListFilters column values) v \<longleftrightarrow> v \<in> set values"
  by (auto simp: check_accepts_def getValueListFilters_def raw_text_def)

lemma constraint_filters_accept:
  "isConstrainedSchema schema \<Longrightarrow> check_accepts (getConstraintFilters eng column schema) v = accepts (getConstraintValues eng schema) v"
  by (cases schema) (auto simp: getConstraintFilters_def value_list_accepts accepts_def, auto simp: check_accepts_def raw_text_def)

lemma swapping_accepts:
  assumes "swapping s t fs c0 c" and "column_accepts s t c0 v" and "check_accepts fs v"
  shows "column_accepts s t c v"
  using assms by (auto simp: swapping_def column_accepts_def)

lemma swapped_accepts: "c s = Some (fs, True) \<Longrightarrow> c t = None \<Longrightarrow> column_accepts s t c v = check_accepts fs v"
  by (simp add: column_accepts_def)

text \<open>The statements of a change: none, a swap, or the statement that drops the check.\<close>

lemma no_statements_tried: "tried db [] w w' \<Longrightarrow> w' = w"
  by (induction rule: tried.induct) auto

lemma drop_tried:
  assumes "changes_catalog db cof (getDeleteQuery eng stack table name) (drop_constraint s)" and "builds (getDeleteQuery eng stack table name) query"
    and "tried db [only_query query] w w'" and "s \<noteq> t"
  shows "cof w' s \<in> {cof w s, None} \<and> cof w' t = cof w t"
    and "runAllStatements db [only_query query] w' = (Inr (), w'') \<Longrightarrow> cof w'' s = None \<and> cof w'' t = cof w t"
proof -
  let ?e = "guarded (\<lambda>c. False) (\<lambda>c. False) (drop_constraint s)"
  have runs: "list_all2 (runs_as db cof) [only_query query] [?e]"
    using assms(1,2) by (auto intro!: runs_as_guarded simp: only_query_def changes_catalog_def)
  show during: "cof w' s \<in> {cof w s, None} \<and> cof w' t = cof w t"
    using assms(4)
    by (intro tried_invariant [OF assms(3) runs, where I = "\<lambda>c. c s \<in> {cof w s, None} \<and> c t = cof w t"])
      (auto simp: guarded_def drop_constraint_def take_Cons' split: if_splits)
  assume "runAllStatements db [only_query query] w' = (Inr (), w'')"
  from run_refines_outcomes [OF runs this] during assms(4) show "cof w'' s = None \<and> cof w'' t = cof w t" by (auto simp: guarded_def drop_constraint_def)
qed

definition check_laws ::
  "'w database \<Rightarrow> ('w \<Rightarrow> filters catalog) \<Rightarrow> builder_options \<Rightarrow> nat \<Rightarrow> string \<Rightarrow> string \<Rightarrow> any_schema \<Rightarrow> any_schema \<Rightarrow> string \<Rightarrow> string \<Rightarrow> bool" where
  "check_laws db cof eng stack table column source target s t =
     (swap_laws db cof eng stack table (getConstraintName table column) s t (getConstraintFilters eng column target) \<and>
      pred_option (\<lambda>values. swap_laws db cof eng stack table (getConstraintName table column) s t (getValueListFilters column values))
        (getSwitchValues eng source target))"

lemma rollout_cases:
  assumes "builds (update_check eng stack hashData table column source target) steps"
  obtains (kept) "isSameValues (getSwitchValues eng source target) (getConstraintValues eng source)"
      "mq_constraints (rollout_step steps) = []"
  | (widened) vs where "getSwitchValues eng source target = Some vs"
      "builds (prepareSwap eng stack hashData table column (getValueListFilters column vs) False) (rollout_step steps)"
  | (dropped) query where "getSwitchValues eng source target = None"
      "builds (getDeleteQuery eng stack table (getConstraintName table column)) query"
      "mq_constraints (rollout_step steps) = [only_query query]"
  using assms unfolding update_check_def Let_def
  by (elim builds_andThen) (auto simp: getStepQueries_def split: if_splits option.splits elim!: builds_andThen)

lemma cleanup_cases:
  assumes "builds (update_check eng stack hashData table column source target) steps"
  obtains (kept) "isConstrainedSchema target \<Longrightarrow> isSameValues (getConstraintValues eng target) (getSwitchValues eng source target)"
      "mq_constraints (cleanup_step steps) = []"
  | (narrowed) "isConstrainedSchema target"
      "builds (prepareSwap eng stack hashData table column (getConstraintFilters eng column target) True) (cleanup_step steps)"
  using assms unfolding update_check_def Let_def
  by (elim builds_andThen) (auto simp: getStepQueries_def split: if_splits)

lemma rollout_accepts:
  assumes "builds (update_check eng stack hashData table column source target) steps"
    and laws: "check_laws db cof eng stack table column source target s t"
    and tmp: "getTemporaryName hashData (getConstraintName table column) = Some t" and apart: "s \<noteq> t"
    and start: "column_checked eng source s t (cof w0)" and tried: "tried db (mq_constraints (rollout_step steps)) w0 w"
  shows "accepts (getConstraintValues eng source) v \<Longrightarrow> column_accepts s t (cof w) v"
    and "runAllStatements db (mq_constraints (rollout_step steps)) w = (Inr (), w1) \<Longrightarrow>
      cof w1 t = None \<and> (\<forall>v. column_accepts s t (cof w1) v = accepts (getSwitchValues eng source target) v)"
proof -
  note start' = start [unfolded column_checked_def]
  have "(\<forall>v. accepts (getConstraintValues eng source) v \<longrightarrow> column_accepts s t (cof w) v) \<and>
    (runAllStatements db (mq_constraints (rollout_step steps)) w = (Inr (), w1) \<longrightarrow>
      cof w1 t = None \<and> (\<forall>v. column_accepts s t (cof w1) v = accepts (getSwitchValues eng source target) v))"
    using assms(1)
  proof (cases rule: rollout_cases)
    case kept
    with tried have "w = w0" using no_statements_tried [of db w0 w] by simp
    with kept start' show ?thesis by (auto simp: same_values_accept)
  next
    case (widened vs)
    from laws widened(1) have "swap_laws db cof eng stack table (getConstraintName table column) s t (getValueListFilters column vs)"
      by (simp add: check_laws_def)
    note swap = swap_tried [OF this tmp widened(2) apart tried conjunct1 [OF start']]
    have checks: "check_accepts (getValueListFilters column vs) v = accepts (getSwitchValues eng source target) v" for v
      by (simp add: widened(1) value_list_accepts accepts_def)
    have "column_accepts s t (cof w) v" if "accepts (getConstraintValues eng source) v" for v
      by (rule swapping_accepts [OF swap(1)]) (use that start' switch_values_accept(1) checks in blast)+
    moreover have "column_accepts s t c v = accepts (getSwitchValues eng source target) v"
      if "c s = Some (getValueListFilters column vs, True) \<and> c t = None" for c v
      using that checks by (simp add: swapped_accepts)
    ultimately show ?thesis using swap(2) by blast
  next
    case (dropped query)
    from laws have "changes_catalog db cof (getDeleteQuery eng stack table (getConstraintName table column)) (drop_constraint s)"
      by (simp add: check_laws_def swap_laws_def)
    note drop = drop_tried [OF this dropped(2) tried [unfolded dropped(3)] apart]
    show ?thesis using drop start' dropped by (auto simp: column_accepts_def accepts_def)
  qed
  then show "accepts (getConstraintValues eng source) v \<Longrightarrow> column_accepts s t (cof w) v"
    and "runAllStatements db (mq_constraints (rollout_step steps)) w = (Inr (), w1) \<Longrightarrow>
      cof w1 t = None \<and> (\<forall>v. column_accepts s t (cof w1) v = accepts (getSwitchValues eng source target) v)" by auto
qed

lemma cleanup_accepts:
  assumes "builds (update_check eng stack hashData table column source target) steps"
    and laws: "check_laws db cof eng stack table column source target s t"
    and tmp: "getTemporaryName hashData (getConstraintName table column) = Some t" and apart: "s \<noteq> t"
    and start: "cof w1 t = None" "\<And>v. column_accepts s t (cof w1) v = accepts (getSwitchValues eng source target) v"
    and tried: "tried db (mq_constraints (cleanup_step steps)) w1 w2"
  shows "accepts (getConstraintValues eng target) v \<Longrightarrow> column_accepts s t (cof w2) v"
    and "runAllStatements db (mq_constraints (cleanup_step steps)) w2 = (Inr (), w3) \<Longrightarrow> column_checked eng target s t (cof w3)"
proof -
  have "(\<forall>v. accepts (getConstraintValues eng target) v \<longrightarrow> column_accepts s t (cof w2) v) \<and>
    (runAllStatements db (mq_constraints (cleanup_step steps)) w2 = (Inr (), w3) \<longrightarrow> column_checked eng target s t (cof w3))"
    using assms(1)
  proof (cases rule: cleanup_cases)
    case kept
    have "accepts (getSwitchValues eng source target) v = accepts (getConstraintValues eng target) v" for v
    proof (cases "isConstrainedSchema target")
      case True
      with kept(1) show ?thesis by (simp add: same_values_accept)
    next
      case False
      then show ?thesis by (simp add: constrained_values [of _ eng] getSwitchValues_def accepts_def split: option.splits)
    qed
    moreover from kept tried have "w2 = w1" using no_statements_tried [of db w1 w2] by simp
    ultimately show ?thesis using kept(2) start by (auto simp: column_checked_def)
  next
    case narrowed
    from laws have "swap_laws db cof eng stack table (getConstraintName table column) s t (getConstraintFilters eng column target)"
      by (simp add: check_laws_def)
    note swap = swap_tried [OF this tmp narrowed(2) apart tried start(1)]
    note checks = constraint_filters_accept [OF narrowed(1), of eng column]
    have "column_accepts s t (cof w2) v" if "accepts (getConstraintValues eng target) v" for v
      by (rule swapping_accepts [OF swap(1)]) (use that start(2) switch_values_accept(2) checks in blast)+
    moreover have "column_checked eng target s t c" if "c s = Some (getConstraintFilters eng column target, True) \<and> c t = None" for c
      using that checks by (simp add: swapped_accepts column_checked_def)
    ultimately show ?thesis using swap(2) by blast
  qed
  then show "accepts (getConstraintValues eng target) v \<Longrightarrow> column_accepts s t (cof w2) v"
    and "runAllStatements db (mq_constraints (cleanup_step steps)) w2 = (Inr (), w3) \<Longrightarrow> column_checked eng target s t (cof w3)" by auto
qed

text \<open>
  C34. The check of a column whose allowed values change. While the rollout runs, in however many attempts, the
  column takes every value of the old version; once it has run, it takes the values of both versions; while the
  cleanup runs it takes every value of the new version; and once that has run, it takes exactly the values of the
  new version, so the next migration starts where this one did. The parameters are those of the swap.
\<close>

theorem check_update_accepts_both_versions:
  assumes "check_laws db cof eng stack table column source target s t"
    and "getTemporaryName hashData (getConstraintName table column) = Some t" and "getStoredName (getConstraintName table column) = Some s"
    and "byteLength (take 8 (hashData (getConstraintName table column))) = 8"
    and "\<not> sublist (take 8 (hashData (getConstraintName table column))) (getConstraintName table column)"
    and "update_check eng stack hashData table column source target refs = Inr (steps, vs, refs')"
    and "column_checked eng source s t (cof w0)" and "tried db (mq_constraints (rollout_step steps)) w0 w"
  shows "(\<forall>v. accepts (getConstraintValues eng source) v \<longrightarrow> column_accepts s t (cof w) v) \<and>
    (\<forall>w1. runAllStatements db (mq_constraints (rollout_step steps)) w = (Inr (), w1) \<longrightarrow>
      (\<forall>v. accepts (getConstraintValues eng source) v \<or> accepts (getConstraintValues eng target) v \<longrightarrow> column_accepts s t (cof w1) v) \<and>
      (\<forall>w2. tried db (mq_constraints (cleanup_step steps)) w1 w2 \<longrightarrow>
        (\<forall>v. accepts (getConstraintValues eng target) v \<longrightarrow> column_accepts s t (cof w2) v) \<and>
        (\<forall>w3. runAllStatements db (mq_constraints (cleanup_step steps)) w2 = (Inr (), w3) \<longrightarrow> column_checked eng target s t (cof w3))))"
proof -
  have built: "builds (update_check eng stack hashData table column source target) steps" using assms(6) unfolding builds_def by blast
  note apart = swap_names_apart [OF assms(2-5)]
  note rollout = rollout_accepts [OF built assms(1,2) apart assms(7,8)]
  note cleanup = cleanup_accepts [OF built assms(1,2) apart]
  show ?thesis
  proof (intro conjI allI impI)
    fix w1 assume run: "runAllStatements db (mq_constraints (rollout_step steps)) w = (Inr (), w1)"
    note done_with = rollout(2) [OF run]
    show "column_accepts s t (cof w1) v" if "accepts (getConstraintValues eng source) v \<or> accepts (getConstraintValues eng target) v" for v
      using that done_with switch_values_accept [of eng _ v] by blast
    fix w2 assume tried: "tried db (mq_constraints (cleanup_step steps)) w1 w2"
    show "column_accepts s t (cof w2) v" if "accepts (getConstraintValues eng target) v" for v
      by (rule cleanup(1) [OF _ _ tried that]) (use done_with in auto)
    show "column_checked eng target s t (cof w3)" if "runAllStatements db (mq_constraints (cleanup_step steps)) w2 = (Inr (), w3)" for w3
      by (rule cleanup(2) [OF _ _ tried that]) (use done_with in auto)
  qed (use rollout(1) in blast)
qed

section \<open>An example\<close>

text \<open>
  The table \<open>t\<close> with a column \<open>c\<close> whose values change from \<open>a\<close> to \<open>a\<close> and \<open>b\<close>.
\<close>

definition sample_filters :: filters where
  "sample_filters = getValueListFilters ''c'' [escapeSqlText ''a'', escapeSqlText ''b'']"

definition sample_answers :: "(string \<times> (filters catalog \<Rightarrow> db_answer \<times> filters catalog)) list" where
  "sample_answers =
     (let e = sample_engine; n = ''t_c_ck''; t = ''t_c_tmp_ck''
      in [(built_text (getCheckConstraintExistsQuery e 4 t), found (\<lambda>c. c t \<noteq> None)),
          (built_text (getCheckConstraintMissingQuery e 4 t), found (\<lambda>c. c t = None)),
          (built_text (getCheckConstraintValidQuery e 4 t), found (is_valid t)),
          (built_text (getCheckConstraintInvalidQuery e 4 t), found (is_invalid t)),
          (built_text (getCheckConstraintRecordsQuery e 4 ''t'' sample_filters), found (\<lambda>c. False)),
          (locked_text (getCreateQuery e 4 ''t'' t sample_filters), changed (add_constraint t sample_filters)),
          (locked_text (getValidateQuery e 4 ''t'' t), changed (validate_constraint t)),
          (locked_text (getDeleteQuery e 4 ''t'' n), changed (drop_constraint n)),
          (locked_text (rename_constraint_query e 4 ''t'' t n), changed (rename_constraint t n))])"

definition sample_db :: "filters catalog database" where
  "sample_db = answering sample_answers"

lemma distinct_answers: "distinct (map fst sample_answers)"
  by code_simp

lemma sample_texts:
  "builds (getCheckConstraintExistsQuery sample_engine 4 ''t_c_tmp_ck'') q \<Longrightarrow> q = built_text (getCheckConstraintExistsQuery sample_engine 4 ''t_c_tmp_ck'')"
  "builds (getCheckConstraintMissingQuery sample_engine 4 ''t_c_tmp_ck'') q \<Longrightarrow> q = built_text (getCheckConstraintMissingQuery sample_engine 4 ''t_c_tmp_ck'')"
  "builds (getCheckConstraintValidQuery sample_engine 4 ''t_c_tmp_ck'') q \<Longrightarrow> q = built_text (getCheckConstraintValidQuery sample_engine 4 ''t_c_tmp_ck'')"
  "builds (getCheckConstraintInvalidQuery sample_engine 4 ''t_c_tmp_ck'') q \<Longrightarrow> q = built_text (getCheckConstraintInvalidQuery sample_engine 4 ''t_c_tmp_ck'')"
  "builds (getCheckConstraintRecordsQuery sample_engine 4 ''t'' sample_filters) q \<Longrightarrow> q = built_text (getCheckConstraintRecordsQuery sample_engine 4 ''t'' sample_filters)"
  by (erule built_text_unique [rotated], code_simp)+

lemma sample_statements:
  "builds (getCreateQuery sample_engine 4 ''t'' ''t_c_tmp_ck'' sample_filters) q \<Longrightarrow> q = built_text (getCreateQuery sample_engine 4 ''t'' ''t_c_tmp_ck'' sample_filters)"
  "builds (getValidateQuery sample_engine 4 ''t'' ''t_c_tmp_ck'') q \<Longrightarrow> q = built_text (getValidateQuery sample_engine 4 ''t'' ''t_c_tmp_ck'')"
  "builds (getDeleteQuery sample_engine 4 ''t'' ''t_c_ck'') q \<Longrightarrow> q = built_text (getDeleteQuery sample_engine 4 ''t'' ''t_c_ck'')"
  "builds (rename_constraint_query sample_engine 4 ''t'' ''t_c_tmp_ck'' ''t_c_ck'') q \<Longrightarrow> q = built_text (rename_constraint_query sample_engine 4 ''t'' ''t_c_tmp_ck'' ''t_c_ck'')"
  by (erule built_text_unique [rotated], code_simp)+

lemma sample_laws: "swap_laws sample_db id sample_engine 4 ''t'' ''t_c_ck'' ''t_c_ck'' ''t_c_tmp_ck'' sample_filters"
  unfolding swap_laws_def finds_constraint_def sample_db_def
  by (intro conjI allI impI answering_changes [OF distinct_answers] answering_asks [OF distinct_answers, THEN conjunct1]
      answering_asks [OF distinct_answers, THEN conjunct2];
      (drule sample_texts | rule sample_statements)?; simp add: sample_answers_def Let_def)
definition sample_schema :: "string list \<Rightarrow> any_schema" where
  "sample_schema values = EnumSchema plain_info \<lparr>def_custom = False, def_types = None, enum_default = None\<rparr>
     (map (\<lambda>v. \<lparr>option_value = StringOption v, option_description = None\<rparr>) values)"

definition sample_steps :: migration_steps where
  "sample_steps = (case update_check sample_engine 4 sample_hash ''t'' ''c'' (sample_schema [''a'']) (sample_schema [''a'', ''b'']) sample_refs of
     Inl e \<Rightarrow> no_steps | Inr (steps, vs, refs) \<Rightarrow> steps)"

definition sample_swap :: migration_queries where
  "sample_swap = (case prepareSwap sample_engine 4 sample_hash ''t'' ''c'' sample_filters False sample_refs of
     Inl e \<Rightarrow> getStepQueries | Inr (qs, vs, refs) \<Rightarrow> qs)"

definition sample_catalog :: "filters catalog" where
  "sample_catalog = [''t_c_ck'' \<mapsto> (getConstraintFilters sample_engine ''c'' (sample_schema [''a'']), True)]"

lemma sample_run: "fst (runAllStatements sample_db (mq_constraints sample_swap) sample_catalog) = Inr ()"
  by code_simp

lemma sample_names:
  "getConstraintName ''t'' ''c'' = ''t_c_ck''" "getTemporaryName sample_hash ''t_c_ck'' = Some ''t_c_tmp_ck''"
  "getStoredName ''t_c_ck'' = Some ''t_c_ck''" "byteLength (take 8 (sample_hash ''t_c_ck'')) = 8"
  by code_simp+

lemma sample_hash_apart: "\<not> sublist (take 8 (sample_hash ''t_c_ck'')) ''t_c_ck''"
  by (auto simp: sample_hash_def dest: set_mono_sublist)

lemma sample_built:
  "\<exists>vs refs. prepareSwap sample_engine 4 sample_hash ''t'' ''c'' sample_filters False sample_refs = Inr (sample_swap, vs, refs)"
proof -
  have "\<not> isl (prepareSwap sample_engine 4 sample_hash ''t'' ''c'' sample_filters False sample_refs)" by code_simp
  then show ?thesis by (auto simp: sample_swap_def split: sum.splits prod.splits)
qed

theorem check_swap_survives_interruption_witness:
  "fst (runAllStatements sample_db (mq_constraints sample_swap) sample_catalog) = Inr () \<and>
   snd (runAllStatements sample_db (mq_constraints sample_swap) sample_catalog) ''t_c_ck'' = Some (sample_filters, True) \<and>
   snd (runAllStatements sample_db (mq_constraints sample_swap) sample_catalog) ''t_c_tmp_ck'' = None"
proof -
  obtain vs refs where built: "prepareSwap sample_engine 4 sample_hash ''t'' ''c'' sample_filters False sample_refs = Inr (sample_swap, vs, refs)"
    using sample_built by blast
  obtain w where run: "runAllStatements sample_db (mq_constraints sample_swap) sample_catalog = (Inr (), w)"
    using sample_run by (metis prod.collapse)
  have "w ''t_c_ck'' = Some (sample_filters, True) \<and> w ''t_c_tmp_ck'' = None"
    using check_swap_survives_interruption [where db = sample_db and cof = id and table = "''t''" and column = "''c''", unfolded sample_names(1),
        OF sample_laws sample_names(2-4) sample_hash_apart built, of sample_catalog sample_catalog] run
    by (simp add: sample_catalog_def tried.untried)
  with run show ?thesis by simp
qed

lemma sample_steps_swap: "mq_constraints (rollout_step sample_steps) = mq_constraints sample_swap" "mq_constraints (cleanup_step sample_steps) = []"
  by code_simp+

lemma sample_update:
  "\<exists>vs refs. update_check sample_engine 4 sample_hash ''t'' ''c'' (sample_schema [''a'']) (sample_schema [''a'', ''b'']) sample_refs =
     Inr (sample_steps, vs, refs)"
proof -
  have "\<not> isl (update_check sample_engine 4 sample_hash ''t'' ''c'' (sample_schema [''a'']) (sample_schema [''a'', ''b'']) sample_refs)"
    by code_simp
  then show ?thesis by (auto simp: sample_steps_def split: sum.splits prod.splits)
qed

lemma sample_check_laws:
  "check_laws sample_db id sample_engine 4 ''t'' ''c'' (sample_schema [''a'']) (sample_schema [''a'', ''b'']) ''t_c_ck'' ''t_c_tmp_ck''"
proof -
  have "getConstraintFilters sample_engine ''c'' (sample_schema [''a'', ''b'']) = sample_filters"
    by (simp add: getConstraintFilters_def sample_schema_def sample_filters_def)
  moreover have "getSwitchValues sample_engine (sample_schema [''a'']) (sample_schema [''a'', ''b'']) = Some [escapeSqlText ''a'', escapeSqlText ''b'']"
    by code_simp
  ultimately show ?thesis using sample_laws by (simp add: check_laws_def sample_names(1) sample_filters_def)
qed

lemma sample_start: "column_checked sample_engine (sample_schema [''a'']) ''t_c_ck'' ''t_c_tmp_ck'' sample_catalog"
proof -
  have "isConstrainedSchema (sample_schema [''a''])" by (simp add: sample_schema_def)
  from constraint_filters_accept [OF this] show ?thesis by (simp add: column_checked_def column_accepts_def sample_catalog_def)
qed

theorem check_update_accepts_both_versions_witness:
  "fst (runAllStatements sample_db (mq_constraints (rollout_step sample_steps)) sample_catalog) = Inr () \<and>
   column_checked sample_engine (sample_schema [''a'', ''b'']) ''t_c_ck'' ''t_c_tmp_ck''
     (snd (runAllStatements sample_db (mq_constraints (rollout_step sample_steps)) sample_catalog))"
proof -
  obtain vs refs where built:
    "update_check sample_engine 4 sample_hash ''t'' ''c'' (sample_schema [''a'']) (sample_schema [''a'', ''b'']) sample_refs = Inr (sample_steps, vs, refs)"
    using sample_update by blast
  obtain w where run: "runAllStatements sample_db (mq_constraints (rollout_step sample_steps)) sample_catalog = (Inr (), w)"
    using sample_run unfolding sample_steps_swap by (metis prod.collapse)
  have "column_checked sample_engine (sample_schema [''a'', ''b'']) ''t_c_ck'' ''t_c_tmp_ck'' w"
    using check_update_accepts_both_versions [where db = sample_db and cof = id and table = "''t''" and column = "''c''", unfolded sample_names(1),
        OF sample_check_laws sample_names(2-4) sample_hash_apart built, of sample_catalog sample_catalog] sample_start run
    by (simp add: tried.untried sample_steps_swap(2))
  with run show ?thesis by simp
qed

end
