(* ===== verification/Migration_Columns.thy ===== *)
theory Migration_Columns
  imports Migration_Queries
begin

text \<open>
  The columns of a table in the database (\<open>utils/columns.ts\<close> of \<open>libraries/pgmigration/src\<close>) and the statements
  that create, change, rename and drop tables and columns (\<open>queries/tables.ts\<close>, \<open>queries/columns.ts\<close>).
\<close>

section \<open>Columns\<close>

definition TIMESTAMP_VALUE :: string where
  "TIMESTAMP_VALUE = ''date_trunc('' @ escapeSqlText ''milliseconds'' @ '', statement_timestamp())''"

definition isOptionalColumn :: "any_schema \<Rightarrow> bool" where
  "isOptionalColumn schema = (nullable (info schema) \<or> optional (info schema))"

text \<open>The text of a default that a schema declares; \<open>json_text\<close> is the text \<open>JSON.stringify\<close> gives.\<close>

fun default_text :: "builder_options \<Rightarrow> (js_value \<Rightarrow> string) \<Rightarrow> js_value \<Rightarrow> string option" where
  "default_text eng json_text (Bool b) = Some (textOf eng (BoolValue b))"
| "default_text eng json_text (Num n) = Some (textOf eng (NumberValue n))"
| "default_text eng json_text (Str s) = Some (escapeSqlText s)"
| "default_text eng json_text Null = Some (escapeSqlText (json_text Null))"
| "default_text eng json_text (Arr r xs) = Some (escapeSqlText (json_text (Arr r xs)))"
| "default_text eng json_text (Obj r p fs) = Some (escapeSqlText (json_text (Obj r p fs)))"
| "default_text eng json_text v = None"

fun schema_default :: "any_schema \<Rightarrow> js_value option" where
  "schema_default (BooleanSchema i d) = map_option Bool (bool_default d)"
| "schema_default (NumberSchema i d f) = map_option Num (num_default d)"
| "schema_default (StringSchema i d f) = map_option Str (str_default d)"
| "schema_default (ObjectSchema i d identity properties additional) = obj_default d"
| "schema_default (ArraySchema i d element) = arr_default d"
| "schema_default (TupleSchema i d elements) = tuple_default d"
| "schema_default s = None"

fun enum_declared :: "any_schema \<Rightarrow> enum_value option" where
  "enum_declared (EnumSchema i d options) = enum_default d"
| "enum_declared s = None"

fun primary_default :: "any_schema \<Rightarrow> string option" where
  "primary_default (StringSchema i d f) =
     (if f \<in> {Some ''date-time'', Some ''date'', Some ''time''} then Some ''now()''
      else if f = Some ''uuid'' then Some ''gen_random_uuid()'' else None)"
| "primary_default s = None"

definition or_else :: "'a option \<Rightarrow> 'a option \<Rightarrow> 'a option" where
  "or_else x y = (case x of None \<Rightarrow> y | Some v \<Rightarrow> Some v)"

text \<open>The first of the cases that has a default; an enum default counts when it is truthy.\<close>

definition getColumnDefault :: "builder_options \<Rightarrow> (js_value \<Rightarrow> string) \<Rightarrow> any_schema \<Rightarrow> bool \<Rightarrow> bool \<Rightarrow> string option" where
  "getColumnDefault eng json_text schema primaryIndex timestampColumn =
     (if timestampColumn then Some TIMESTAMP_VALUE
      else or_else (Option.bind (schema_default schema) (default_text eng json_text))
          (or_else (case enum_declared schema of
                      None \<Rightarrow> None
                    | Some v \<Rightarrow> if truthy (enum_js v) then Some (escapeSqlText (enum_text eng v)) else None)
          (or_else (if primaryIndex then primary_default schema else None)
                   (if isOptionalColumn schema then Some ''null'' else None))))"

definition getColumNumberType :: "string option \<Rightarrow> bool \<Rightarrow> string" where
  "getColumNumberType f primaryIndex =
     (if f = Some ''integer'' then if primaryIndex then ''bigserial'' else ''bigint'' else ''decimal'')"

definition getColumnTextType :: "builder_options \<Rightarrow> string_definitions \<Rightarrow> string option \<Rightarrow> string" where
  "getColumnTextType eng d f =
     (case f of
        Some t \<Rightarrow> if t \<in> {''uuid'', ''time'', ''date''} then t
                  else if t = ''date-time'' then ''timestamptz''
                  else (case str_maxLength d of Some n \<Rightarrow> ''varchar('' @ textOf eng (NumberValue n) @ '')'' | None \<Rightarrow> ''text'')
      | None \<Rightarrow> (case str_maxLength d of Some n \<Rightarrow> ''varchar('' @ textOf eng (NumberValue n) @ '')'' | None \<Rightarrow> ''text''))"

fun getColumnType :: "builder_options \<Rightarrow> any_schema \<Rightarrow> bool \<Rightarrow> string" where
  "getColumnType eng (BooleanSchema i d) primaryIndex = ''boolean''"
| "getColumnType eng (EnumSchema i d options) primaryIndex = ''text''"
| "getColumnType eng (NumberSchema i d f) primaryIndex = getColumNumberType f primaryIndex"
| "getColumnType eng (StringSchema i d f) primaryIndex = getColumnTextType eng d f"
| "getColumnType eng s primaryIndex = ''jsonb''"

section \<open>Tables\<close>

record table_timestamps =
  created_in :: "string option"
  updated_in :: "string option"

definition getTimestampColumns :: "table_timestamps option \<Rightarrow> string list" where
  "getTimestampColumns ts = (case ts of None \<Rightarrow> [] | Some t \<Rightarrow> List.map_filter id [created_in t, updated_in t])"

datatype index_type = PrimaryIndex | SecondaryIndex | UniqueIndex | TtlIndex

text \<open>The filters of a partial index are literal values of the language.\<close>

record index_options =
  io_name :: "string option"
  io_where :: "(string \<times> js_value) list option"
  io_include :: "string list option"
  io_order :: "(string \<times> string) list option"
  io_nullsNotDistinct :: "bool option"
  io_method :: "string option"

record table_index =
  ti_name :: string
  ti_columns :: "string list"
  ti_type :: index_type
  ti_options :: "index_options option"

definition is_primary :: "(string \<times> table_index) list \<Rightarrow> string \<Rightarrow> bool" where
  "is_primary indexes column = (map_option ti_type (obj_get indexes column) = Some PrimaryIndex)"

definition table_text :: "builder_options \<Rightarrow> nat \<Rightarrow> sql_error + table_statement \<Rightarrow> string build" where
  "table_text eng stack result =
     (case result of
        Inl e \<Rightarrow> raise e
      | Inr t \<Rightarrow> andThen (build_table eng (\<lambda>select. build eng stack (SelectStatement select)) stack t) (\<lambda>x.
          case x of None \<Rightarrow> raise MissingClauseError | Some s \<Rightarrow> give (render s)))"

definition tables_prepareCreate ::
  "builder_options \<Rightarrow> nat \<Rightarrow> (js_value \<Rightarrow> string) \<Rightarrow> string \<Rightarrow> (string \<times> any_schema) list \<Rightarrow> (string \<times> table_index) list \<Rightarrow>
   table_timestamps option \<Rightarrow> migration_statement build" where
  "tables_prepareCreate eng stack json_text table properties indexes ts =
     (let column = (\<lambda>(key, schema).
            \<lparr>cd_name = key, cd_type = getColumnType eng schema (is_primary indexes key), cd_required = \<not> isOptionalColumn schema,
             cd_value = getColumnDefault eng json_text schema (is_primary indexes key) (key \<in> set (getTimestampColumns ts))\<rparr>)
      in andThen (table_text eng stack (table_create (\<lambda>c. c\<lparr>ct_check := True, ct_columns := ct_columns c @ map column properties\<rparr>) (new_table table)))
           (\<lambda>query. give (only_query query)))"

definition tables_prepareRename :: "builder_options \<Rightarrow> nat \<Rightarrow> string \<Rightarrow> string \<Rightarrow> migration_statement build" where
  "tables_prepareRename eng stack fromTable toTable =
     andThen (table_text eng stack (table_rename toTable (\<lambda>c. c\<lparr>rn_check := True\<rparr>) (new_table fromTable))) (\<lambda>query. give (only_query query))"

definition tables_prepareDelete :: "builder_options \<Rightarrow> nat \<Rightarrow> string \<Rightarrow> migration_statement build" where
  "tables_prepareDelete eng stack table =
     andThen (table_text eng stack (table_drop (\<lambda>c. c\<lparr>dt_check := True, dt_cascade := True\<rparr>) (new_table table))) (\<lambda>query. give (only_query query))"

section \<open>Changes of columns\<close>

definition columns_prepareCreate ::
  "builder_options \<Rightarrow> nat \<Rightarrow> (js_value \<Rightarrow> string) \<Rightarrow> string \<Rightarrow> (string \<times> table_index) list \<Rightarrow> (string \<times> any_schema) list \<Rightarrow>
   table_timestamps option \<Rightarrow> migration_statement build" where
  "columns_prepareCreate eng stack json_text table indexes columns ts =
     andThen (alter_query eng stack table (map (\<lambda>(name, schema).
         CallAdd name (getColumnType eng schema (is_primary indexes name)) (\<not> isOptionalColumn schema)
           (getColumnDefault eng json_text schema (is_primary indexes name) (name \<in> set (getTimestampColumns ts)))
           (\<lambda>c. c\<lparr>ac_check := True\<rparr>)) columns))
       (\<lambda>query. give (only_query query))"

text \<open>
  The changes of the attributes of a schema. A value that is itself compared is an object without the
  attributes that are read here.
\<close>

fun changed_value :: "change \<Rightarrow> js_value" where
  "changed_value (Value v) = v"
| "changed_value c = Obj 0 True []"

definition read_in :: "(string \<times> js_value) list option \<Rightarrow> string \<Rightarrow> js_value" where
  "read_in fields_of k = (case fields_of of None \<Rightarrow> Undefined | Some fs \<Rightarrow> js_prop fs k)"

definition read_field :: "js_value \<Rightarrow> string \<Rightarrow> js_value" where
  "read_field v k = (case v of Obj r p fs \<Rightarrow> js_prop fs k | _ \<Rightarrow> Undefined)"

definition updated_fields :: "object_comparison \<Rightarrow> (string \<times> js_value) list option" where
  "updated_fields c = map_option (map (\<lambda>(k, d). (k, changed_value d))) (oc_update c)"

definition nested_fields :: "object_comparison \<Rightarrow> (string \<times> js_value) list option" where
  "nested_fields c = map_option (map (\<lambda>(k, d). (k, Obj 0 True []))) (oc_nested c)"

definition attribute_changes :: "object_comparison \<Rightarrow> (string \<Rightarrow> js_value) list" where
  "attribute_changes c = [read_in (oc_create c), read_in (updated_fields c), read_in (oc_remove c)]"

definition nested_definitions :: "object_comparison \<Rightarrow> object_comparison option" where
  "nested_definitions c = Option.bind (oc_nested c) (\<lambda>n. obj_get n ''definitions'')"

definition definition_changes :: "object_comparison \<Rightarrow> (string \<Rightarrow> js_value) list" where
  "definition_changes c =
     map (\<lambda>attributes. read_field (attributes ''definitions'')) (attribute_changes c) @
     (case nested_definitions c of
        None \<Rightarrow> []
      | Some d \<Rightarrow> [read_in (oc_create d), read_in (updated_fields d), read_in (oc_remove d), read_in (nested_fields d)])"

definition type_changed :: "object_comparison \<Rightarrow> bool" where
  "type_changed c = list_ex (\<lambda>attributes. truthy (attributes ''type'') \<or> truthy (attributes ''format'')) (attribute_changes c)"

definition nullity_changed :: "object_comparison \<Rightarrow> bool" where
  "nullity_changed c =
     list_ex (\<lambda>attributes. isNotNullish (attributes ''optional'') \<or> isNotNullish (attributes ''nullable'')) (attribute_changes c)"

definition default_changed :: "object_comparison \<Rightarrow> bool" where
  "default_changed c = list_ex (\<lambda>definitions. definitions ''default'' \<noteq> Undefined) (definition_changes c)"

definition length_changed :: "object_comparison \<Rightarrow> bool" where
  "length_changed c = list_ex (\<lambda>definitions. isAnyNumber (definitions ''maxLength'')) (definition_changes c)"

definition default_removed :: "object_comparison \<Rightarrow> bool" where
  "default_removed c =
     (read_field (read_in (oc_remove c) ''definitions'') ''default'' \<noteq> Undefined \<or>
      (case nested_definitions c of None \<Rightarrow> False | Some d \<Rightarrow> read_in (oc_remove d) ''default'' \<noteq> Undefined))"

text \<open>A changed column is a column of both schemas. The calls on its clause: its type, whether it is optional, its default.\<close>

definition column_changes ::
  "builder_options \<Rightarrow> (js_value \<Rightarrow> string) \<Rightarrow> any_schema \<Rightarrow> bool \<Rightarrow> bool \<Rightarrow> object_comparison \<Rightarrow> alter_column \<Rightarrow> alter_column" where
  "column_changes eng json_text schema isPrimary isTimestamp c clause =
     (let columnType = getColumnType eng schema False;
          typed = (if type_changed c \<or> length_changed c
                   then clause\<lparr>lc_type := Some columnType, lc_cast := \<not> prefix ''varchar('' columnType\<rparr> else clause);
          nulled = (if \<not> isPrimary \<and> nullity_changed c then typed\<lparr>lc_required := Some (\<not> isOptionalColumn schema)\<rparr> else typed)
      in if default_changed c
         then nulled\<lparr>lc_value := (if default_removed c \<and> \<not> isTimestamp then Some None
                                 else map_option Some (getColumnDefault eng json_text schema isPrimary isTimestamp))\<rparr>
         else nulled)"

definition new_column_clause :: "string \<Rightarrow> alter_column" where
  "new_column_clause name = \<lparr>lc_name = name, lc_required = None, lc_value = None, lc_type = None, lc_cast = False\<rparr>"

definition columns_prepareUpdate ::
  "builder_options \<Rightarrow> nat \<Rightarrow> (js_value \<Rightarrow> string) \<Rightarrow> string \<Rightarrow> (string \<times> any_schema) list \<Rightarrow> (string \<times> table_index) list \<Rightarrow>
   (string \<times> object_comparison) list \<Rightarrow> table_timestamps option \<Rightarrow> migration_statement list build" where
  "columns_prepareUpdate eng stack json_text table properties indexes changes ts =
     andThen (each (\<lambda>(name, c). case obj_get properties name of
         None \<Rightarrow> raise sql_error.TypeError
       | Some schema \<Rightarrow>
           (let set_all = column_changes eng json_text schema (is_primary indexes name) (name \<in> set (getTimestampColumns ts)) c
            in if empty_alter_column (set_all (new_column_clause name)) then give []
               else andThen (getCheckColumnExistsQuery eng stack table name) (\<lambda>check.
                    andThen (alter_query eng stack table [CallColumn name set_all]) (\<lambda>query.
                    give [checked_query check query])))) changes)
       (\<lambda>statements. give (concat statements))"

definition columns_prepareRename :: "builder_options \<Rightarrow> nat \<Rightarrow> string \<Rightarrow> (string \<times> string) list \<Rightarrow> migration_statement list build" where
  "columns_prepareRename eng stack table changes =
     each (\<lambda>(fromColumn, toColumn).
       andThen (getCheckColumnExistsQuery eng stack table fromColumn) (\<lambda>check.
       andThen (alter_query eng stack table [CallRename fromColumn toColumn id]) (\<lambda>query.
       give (checked_query check query)))) changes"

definition columns_prepareDelete :: "builder_options \<Rightarrow> nat \<Rightarrow> string \<Rightarrow> string list \<Rightarrow> migration_statement build" where
  "columns_prepareDelete eng stack table columns =
     andThen (alter_query eng stack table (map (\<lambda>name. CallDrop name (\<lambda>c. c\<lparr>dc_check := True\<rparr>)) columns)) (\<lambda>query. give (only_query query))"

section \<open>What a change keeps\<close>

text \<open>A timestamp column never loses its default, a column is cut to no shorter text, and a primary key stays required.\<close>

lemma timestamp_keeps_default:
  "lc_value (column_changes eng json_text schema p True c (new_column_clause name)) \<in> {None, Some (Some TIMESTAMP_VALUE)}"
  by (simp add: column_changes_def Let_def new_column_clause_def getColumnDefault_def)

lemma varchar_is_not_cast:
  "lc_type (column_changes eng json_text schema p ts c (new_column_clause name)) = Some ty \<Longrightarrow> prefix ''varchar('' ty \<Longrightarrow>
   \<not> lc_cast (column_changes eng json_text schema p ts c (new_column_clause name))"
  by (auto simp: column_changes_def Let_def new_column_clause_def split: if_splits)

lemma primary_key_stays_required:
  "lc_required (column_changes eng json_text schema True ts c (new_column_clause name)) = None"
  by (simp add: column_changes_def Let_def new_column_clause_def)

text \<open>An enum default that is not truthy, such as the number zero, is left out.\<close>

lemma falsy_enum_default_is_lost:
  assumes "enum_default d = Some v" and "\<not> truthy (enum_js v)" and "\<not> optional i" and "\<not> nullable i"
  shows "getColumnDefault eng json_text (EnumSchema i d options) p False = None"
  using assms by (simp add: getColumnDefault_def or_else_def isOptionalColumn_def)

end
