(* ===== verification/Migration_Indexes.thy ===== *)
theory Migration_Indexes
  imports Migration_Columns Migration_Run
begin

text \<open>
  The indexes of a table in a migration: \<open>queries/indexes.ts\<close> of \<open>libraries/pgmigration/src\<close>. A new index is built
  before the one it replaces goes, and a primary key is swapped in one statement.
\<close>

section \<open>Names, methods and filters\<close>

type_synonym indexes = "(string \<times> table_index) list"

definition option_of :: "(index_options \<Rightarrow> 'a option) \<Rightarrow> table_index \<Rightarrow> 'a option" where
  "option_of f index = Option.bind (ti_options index) f"

definition getIndexName :: "string \<Rightarrow> table_index \<Rightarrow> string" where
  "getIndexName table index =
     (case truthy_name (option_of io_name index) of
        Some name \<Rightarrow> name
      | None \<Rightarrow> (case ti_type index of
            PrimaryIndex \<Rightarrow> getPrimaryKeyName table (ti_name index)
          | UniqueIndex \<Rightarrow> getUniqueKeyName table (ti_name index)
          | _ \<Rightarrow> getSecondaryKeyName table (ti_name index)))"

definition getIndexType :: "string list \<Rightarrow> (string \<times> any_schema) list \<Rightarrow> string" where
  "getIndexType columns properties =
     (case columns of
        [firstColumn] \<Rightarrow> (case obj_get properties firstColumn of
            Some schema \<Rightarrow> if isObjectSchema schema \<or> isUnionSchema schema \<or> isArraySchema schema \<or> isTupleSchema schema then ''GIN'' else ''BTREE''
          | None \<Rightarrow> ''BTREE'')
      | _ \<Rightarrow> ''BTREE'')"

definition getIndexMethod :: "table_index \<Rightarrow> (string \<times> any_schema) list \<Rightarrow> string" where
  "getIndexMethod index properties =
     (case option_of io_method index of Some m \<Rightarrow> map upper_char m | None \<Rightarrow> getIndexType (ti_columns index) properties)"

text \<open>A value of the language as a value of the builder, for the text of a value that is written out.\<close>

fun scalar_value :: "js_value \<Rightarrow> sql_value" where
  "scalar_value (Bool b) = BoolValue b"
| "scalar_value (Num n) = NumberValue n"
| "scalar_value (Str s) = TextValue s"
| "scalar_value Null = NullValue"
| "scalar_value (Fun r) = Instance r"
| "scalar_value v = NoValue"

fun getIndexFilterValue :: "builder_options \<Rightarrow> string \<Rightarrow> js_value \<Rightarrow> sql_value" where
  "getIndexFilterValue eng operator Null = NullValue"
| "getIndexFilterValue eng operator (Arr r xs) = Items (map (getIndexFilterValue eng operator) xs)"
| "getIndexFilterValue eng operator (Obj r p fs) = Fields (map (\<lambda>(k, v). (k, getIndexFilterValue eng k v)) fs)"
| "getIndexFilterValue eng operator (Bool b) = (if operator = ''isNull'' then BoolValue b else raw_text (textOf eng (BoolValue b)))"
| "getIndexFilterValue eng operator (Str s) = raw_text (escapeSqlText s)"
| "getIndexFilterValue eng operator v = raw_text (textOf eng (scalar_value v))"

definition getIndexFilters :: "builder_options \<Rightarrow> (string \<times> js_value) list \<Rightarrow> filters" where
  "getIndexFilters eng fs = map (\<lambda>(k, v). (k, getIndexFilterValue eng k v)) fs"

section \<open>Creating and dropping\<close>

definition index_text :: "builder_options \<Rightarrow> nat \<Rightarrow> sql_error + index_statement \<Rightarrow> string build" where
  "index_text eng stack result =
     (case result of
        Inl e \<Rightarrow> raise e
      | Inr t \<Rightarrow> andThen (build_index eng (\<lambda>select. build eng stack (SelectStatement select)) stack t) (\<lambda>x.
          case x of None \<Rightarrow> raise MissingClauseError | Some s \<Rightarrow> give (render s)))"

definition create_index_query ::
  "builder_options \<Rightarrow> nat \<Rightarrow> string \<Rightarrow> string \<Rightarrow> string list \<Rightarrow> string \<Rightarrow> (create_index \<Rightarrow> create_index) \<Rightarrow> string build" where
  "create_index_query eng stack name table columns kind f =
     index_text eng stack (index_create table columns
       (\<lambda>c. f (c\<lparr>ci_type := Some kind, ci_concurrently := True, ci_check := True\<rparr>)) (new_index name))"

definition drop_index_query :: "builder_options \<Rightarrow> nat \<Rightarrow> string \<Rightarrow> string build" where
  "drop_index_query eng stack name =
     index_text eng stack (index_drop (\<lambda>c. c\<lparr>di_check := True, di_concurrently := True\<rparr>) (new_index name))"

definition rename_index_query :: "builder_options \<Rightarrow> nat \<Rightarrow> string \<Rightarrow> string \<Rightarrow> string build" where
  "rename_index_query eng stack fromName toName =
     index_text eng stack (index_rename toName (\<lambda>c. c\<lparr>rn_check := True\<rparr>) (new_index fromName))"

definition concurrent_query :: "string \<Rightarrow> migration_statement" where
  "concurrent_query query = (only_query query)\<lparr>ms_concurrent := True\<rparr>"

definition getRebuildStatement :: "builder_options \<Rightarrow> nat \<Rightarrow> string \<Rightarrow> migration_statement build" where
  "getRebuildStatement eng stack name =
     andThen (getCheckIndexRebuildQuery eng stack name) (\<lambda>check.
     andThen (drop_index_query eng stack name) (\<lambda>query.
     give ((concurrent_query query)\<lparr>ms_check := Some check, ms_condition := Some ''only when the index is invalid''\<rparr>)))"

definition index_validation :: "builder_options \<Rightarrow> nat \<Rightarrow> string \<Rightarrow> validation_statement build" where
  "index_validation eng stack name =
     andThen (getIndexInvalidQuery eng stack name) (\<lambda>check.
     andThen (getCheckRunningValidationQuery eng stack name) (\<lambda>retry.
     give \<lparr>vs_name = name, vs_check = check, vs_retry = retry\<rparr>))"

definition index_clauses :: "filters option \<Rightarrow> table_index \<Rightarrow> create_index \<Rightarrow> create_index" where
  "index_clauses conds index c =
     (let filtered = (case conds of None \<Rightarrow> c | Some fs \<Rightarrow> c\<lparr>ci_filters := Some fs\<rparr>);
          included = (case option_of io_include index of None \<Rightarrow> filtered | Some cs \<Rightarrow> filtered\<lparr>ci_include := Some cs\<rparr>)
      in case option_of io_order index of None \<Rightarrow> included | Some order \<Rightarrow> included\<lparr>ci_order := order\<rparr>)"

definition prepareIndex ::
  "builder_options \<Rightarrow> nat \<Rightarrow> string \<Rightarrow> (string \<times> any_schema) list \<Rightarrow> table_index \<Rightarrow> string \<Rightarrow> migration_queries build" where
  "prepareIndex eng stack table properties index name =
     (let columns = ti_columns index; method = getIndexMethod index properties;
          conds = map_option (getIndexFilters eng) (option_of io_where index);
          nullsNotDistinct = (option_of io_nullsNotDistinct index = Some True)
      in andThen (getRebuildStatement eng stack name) (\<lambda>rebuild.
         andThen (if ti_type index = UniqueIndex
                  then andThen (getCheckUniqueRecordsQuery eng stack table columns conds nullsNotDistinct) (\<lambda>records.
                       andThen (create_index_query eng stack name table columns method
                         (\<lambda>c. (index_clauses conds index c)\<lparr>ci_nullsNotDistinct := nullsNotDistinct, ci_unique := True\<rparr>)) (\<lambda>query.
                       give ((concurrent_query query)\<lparr>ms_assert := Some records, ms_name := Some name\<rparr>)))
                  else andThen (create_index_query eng stack name table columns method (index_clauses conds index)) (\<lambda>query.
                       give (concurrent_query query))) (\<lambda>statement.
         andThen (index_validation eng stack name) (\<lambda>validation.
         give (getStepQueries\<lparr>mq_indexes := [rebuild, statement], mq_validations := [validation]\<rparr>)))))"

definition primary_key_query :: "builder_options \<Rightarrow> nat \<Rightarrow> string \<Rightarrow> string \<Rightarrow> string list \<Rightarrow> string build" where
  "primary_key_query eng stack table name columns = alter_query eng stack table [CallConstraint name (constraint_primary columns None)]"

definition create_one :: "builder_options \<Rightarrow> nat \<Rightarrow> string \<Rightarrow> (string \<times> any_schema) list \<Rightarrow> table_index \<Rightarrow> migration_queries build" where
  "create_one eng stack table properties index =
     (case ti_type index of
        PrimaryIndex \<Rightarrow>
          (let name = getPrimaryKeyName table (ti_name index)
           in andThen (getCheckConstraintExistsQuery eng stack name) (\<lambda>check.
              andThen (primary_key_query eng stack table name (ti_columns index)) (\<lambda>query.
              give (getStepQueries\<lparr>mq_constraints := [checked_query check query]\<rparr>))))
      | TtlIndex \<Rightarrow> raise UnsupportedIndexError
      | _ \<Rightarrow> prepareIndex eng stack table properties index (getIndexName table index))"

definition combine_all :: "migration_queries list \<Rightarrow> migration_queries" where
  "combine_all qs = foldl combineQueries getStepQueries qs"

definition indexes_prepareCreate ::
  "builder_options \<Rightarrow> nat \<Rightarrow> string \<Rightarrow> (string \<times> any_schema) list \<Rightarrow> indexes \<Rightarrow> migration_queries build" where
  "indexes_prepareCreate eng stack table properties idxs =
     andThen (each (\<lambda>p. create_one eng stack table properties (snd p)) idxs) (\<lambda>qs. give (combine_all qs))"

text \<open>A check that skips the statements, when there is one, is not empty.\<close>

definition prepareDropIndex :: "builder_options \<Rightarrow> nat \<Rightarrow> string \<Rightarrow> table_index \<Rightarrow> string option \<Rightarrow> migration_queries build" where
  "prepareDropIndex eng stack table index skip =
     (let name = getIndexName table index
      in andThen (if ti_type index = UniqueIndex
                  then andThen (getCheckConstraintMissingQuery eng stack name) (\<lambda>missing.
                       andThen (getDeleteQuery eng stack table name) (\<lambda>query.
                       give [(only_query query)\<lparr>ms_check := getCheckAnyQuery [skip, Some missing]\<rparr>]))
                  else give []) (\<lambda>constraints.
         andThen (drop_index_query eng stack name) (\<lambda>query.
         give (getStepQueries\<lparr>mq_constraints := constraints, mq_indexes := [(concurrent_query query)\<lparr>ms_check := truthy_name skip\<rparr>]\<rparr>))))"

definition delete_one :: "builder_options \<Rightarrow> nat \<Rightarrow> string \<Rightarrow> table_index \<Rightarrow> migration_queries build" where
  "delete_one eng stack table index =
     (if ti_type index = PrimaryIndex
      then andThen (getDeleteQuery eng stack table (getIndexName table index)) (\<lambda>query.
           give (getStepQueries\<lparr>mq_constraints := [only_query query]\<rparr>))
      else prepareDropIndex eng stack table index None)"

definition indexes_prepareDelete :: "builder_options \<Rightarrow> nat \<Rightarrow> string \<Rightarrow> indexes \<Rightarrow> migration_queries build" where
  "indexes_prepareDelete eng stack table idxs =
     andThen (each (\<lambda>p. delete_one eng stack table (snd p)) idxs) (\<lambda>qs. give (combine_all qs))"

section \<open>Renaming\<close>

definition prepareRename ::
  "builder_options \<Rightarrow> nat \<Rightarrow> string \<Rightarrow> table_index \<Rightarrow> string \<Rightarrow> string \<Rightarrow> migration_queries build" where
  "prepareRename eng stack table index fromName toName =
     (if fromName = toName then give getStepQueries
      else if ti_type index = PrimaryIndex
      then andThen (getCheckConstraintExistsQuery eng stack toName) (\<lambda>check.
           andThen (rename_constraint_query eng stack table fromName toName) (\<lambda>query.
           give (getStepQueries\<lparr>mq_constraints := [checked_query check query]\<rparr>)))
      else andThen (rename_index_query eng stack fromName toName) (\<lambda>query.
           give (getStepQueries\<lparr>mq_indexes := [only_query query]\<rparr>)))"

definition indexes_prepareRenameTable :: "builder_options \<Rightarrow> nat \<Rightarrow> string \<Rightarrow> string \<Rightarrow> indexes \<Rightarrow> migration_queries build" where
  "indexes_prepareRenameTable eng stack fromTable toTable idxs =
     andThen (each (\<lambda>p. prepareRename eng stack toTable (snd p) (getIndexName fromTable (snd p)) (getIndexName toTable (snd p))) idxs)
       (\<lambda>qs. give (combine_all qs))"

definition indexes_prepareRenameColumns ::
  "builder_options \<Rightarrow> nat \<Rightarrow> string \<Rightarrow> indexes \<Rightarrow> indexes \<Rightarrow> (string \<times> string) list \<Rightarrow> migration_queries build" where
  "indexes_prepareRenameColumns eng stack table sourceIndexes targetIndexes changes =
     andThen (each (\<lambda>(fromIndex, toIndex). case (obj_get sourceIndexes fromIndex, obj_get targetIndexes toIndex) of
         (Some source, Some target) \<Rightarrow> prepareRename eng stack table target (getIndexName table source) (getIndexName table target)
       | _ \<Rightarrow> raise sql_error.TypeError) changes)
       (\<lambda>qs. give (combine_all qs))"

section \<open>Comparing\<close>

definition renameColumn :: "(string \<times> string) list \<Rightarrow> string \<Rightarrow> string" where
  "renameColumn renamedColumns column = (case obj_get renamedColumns column of None \<Rightarrow> column | Some c \<Rightarrow> c)"

text \<open>\<open>Object.fromEntries\<close>: of two entries with one key the later one counts.\<close>

definition renameKeys :: "(string \<times> string) list \<Rightarrow> (string \<times> 'a) list \<Rightarrow> (string \<times> 'a) list" where
  "renameKeys renamedColumns fields_of = fold (\<lambda>(column, v). obj_set (renameColumn renamedColumns column) v) fields_of []"

definition no_index_options :: index_options where
  "no_index_options = \<lparr>io_name = None, io_where = None, io_include = None, io_order = None, io_nullsNotDistinct = None, io_method = None\<rparr>"

definition index_options_of :: "table_index \<Rightarrow> index_options" where
  "index_options_of index = (case ti_options index of None \<Rightarrow> no_index_options | Some opts \<Rightarrow> opts)"

definition strings_js :: "string list \<Rightarrow> js_value" where
  "strings_js xs = Arr 0 (map Str xs)"

text \<open>The options as an object, with the fields that are there.\<close>

definition options_js :: "index_options \<Rightarrow> js_value" where
  "options_js opts = Obj 0 True (List.map_filter (\<lambda>(k, v). map_option (Pair k) v)
     [(''name'', map_option Str (io_name opts)), (''where'', map_option (Obj 0 True) (io_where opts)),
      (''include'', map_option strings_js (io_include opts)),
      (''order'', map_option (\<lambda>o'. Obj 0 True (map (\<lambda>(k, d). (k, Str d)) o')) (io_order opts)),
      (''nullsNotDistinct'', map_option Bool (io_nullsNotDistinct opts)), (''method'', map_option Str (io_method opts))])"

definition isSameIndex :: "table_index \<Rightarrow> table_index \<Rightarrow> (string \<times> string) list \<Rightarrow> bool" where
  "isSameIndex sourceIndex targetIndex renamedColumns =
     (let opts = index_options_of sourceIndex;
          sourceOptions = opts\<lparr>io_order := map_option (renameKeys renamedColumns) (io_order opts),
            io_include := map_option (map (renameColumn renamedColumns)) (io_include opts),
            io_where := map_option (renameKeys renamedColumns) (io_where opts)\<rparr>
      in ti_type sourceIndex = ti_type targetIndex \<and>
         deepEqual (strings_js (map (renameColumn renamedColumns) (ti_columns sourceIndex))) (strings_js (ti_columns targetIndex)) no_options = Inr True \<and>
         deepEqual (options_js sourceOptions) (options_js (index_options_of targetIndex)) no_options = Inr True)"

section \<open>Changes\<close>

definition replaced :: "migration_queries \<Rightarrow> migration_queries \<Rightarrow> migration_steps" where
  "replaced rollout cleanup = no_steps\<lparr>rollout_step := rollout, cleanup_step := cleanup\<rparr>"

definition prepareReplace ::
  "builder_options \<Rightarrow> nat \<Rightarrow> (string \<Rightarrow> string) \<Rightarrow> string \<Rightarrow> (string \<times> any_schema) list \<Rightarrow> table_index \<Rightarrow> table_index \<Rightarrow> migration_steps build" where
  "prepareReplace eng stack hashData table properties sourceIndex targetIndex =
     (let targetName = getIndexName table targetIndex
      in andThen (temporary_name hashData targetName) (\<lambda>temporaryName.
         andThen (prepareIndex eng stack table properties targetIndex temporaryName) (\<lambda>rollout.
         andThen (getCheckIndexMissingQuery eng stack temporaryName) (\<lambda>missing.
         andThen (prepareDropIndex eng stack table sourceIndex (Some missing)) (\<lambda>dropped.
         andThen (rename_index_query eng stack temporaryName targetName) (\<lambda>query.
         give (replaced rollout (combineQueries dropped (getStepQueries\<lparr>mq_indexes := [only_query query]\<rparr>)))))))))"

definition update_index ::
  "builder_options \<Rightarrow> nat \<Rightarrow> (string \<Rightarrow> string) \<Rightarrow> string \<Rightarrow> (string \<times> any_schema) list \<Rightarrow> (string \<times> string) list \<Rightarrow>
   table_index \<Rightarrow> table_index \<Rightarrow> migration_steps build" where
  "update_index eng stack hashData table properties renamedColumns sourceIndex targetIndex =
     (let sourcePrimary = (ti_type sourceIndex = PrimaryIndex); targetPrimary = (ti_type targetIndex = PrimaryIndex)
      in if isSameIndex sourceIndex targetIndex renamedColumns then give no_steps
         else if \<not> targetPrimary \<and> \<not> sourcePrimary \<and> getIndexName table sourceIndex = getIndexName table targetIndex
         then prepareReplace eng stack hashData table properties sourceIndex targetIndex
         else andThen (if targetPrimary then give getStepQueries else create_one eng stack table properties targetIndex) (\<lambda>rollout.
              andThen (if sourcePrimary then give getStepQueries else delete_one eng stack table sourceIndex) (\<lambda>cleanup.
              give (replaced rollout cleanup))))"

definition indexes_prepareUpdate ::
  "builder_options \<Rightarrow> nat \<Rightarrow> (string \<Rightarrow> string) \<Rightarrow> string \<Rightarrow> (string \<times> any_schema) list \<Rightarrow> indexes \<Rightarrow> indexes \<Rightarrow> string list \<Rightarrow>
   (string \<times> string) list \<Rightarrow> migration_steps build" where
  "indexes_prepareUpdate eng stack hashData table properties sourceIndexes targetIndexes updatedKeys renamedColumns =
     andThen (each (\<lambda>key. case (obj_get sourceIndexes key, obj_get targetIndexes key) of
         (Some source, Some target) \<Rightarrow> update_index eng stack hashData table properties renamedColumns source target
       | _ \<Rightarrow> raise sql_error.TypeError) updatedKeys)
       (\<lambda>steps. give (foldl combineSteps no_steps steps))"

text \<open>The statement that drops the current primary key and takes over the index built for the new one.\<close>

definition swap_primary_query ::
  "builder_options \<Rightarrow> nat \<Rightarrow> string \<Rightarrow> string option \<Rightarrow> string \<Rightarrow> string list \<Rightarrow> string build" where
  "swap_primary_query eng stack table sourceName temporaryName columns =
     alter_query eng stack table
       ((case sourceName of None \<Rightarrow> [] | Some name \<Rightarrow> [CallConstraint name (constraint_drop (\<lambda>_. True))]) @
        [CallConstraint temporaryName (constraint_primary columns (Some temporaryName))])"

definition preparePrimaryKey ::
  "builder_options \<Rightarrow> nat \<Rightarrow> (string \<Rightarrow> string) \<Rightarrow> string \<Rightarrow> table_index option \<Rightarrow> table_index option \<Rightarrow> migration_steps build" where
  "preparePrimaryKey eng stack hashData table sourceKey targetKey =
     (let sourceName = map_option (\<lambda>key. getPrimaryKeyName table (ti_name key)) sourceKey
      in case targetKey of
           None \<Rightarrow> (case sourceName of
               None \<Rightarrow> give no_steps
             | Some name \<Rightarrow> andThen (getDeleteQuery eng stack table name) (\<lambda>query.
                 give (replaced getStepQueries (getStepQueries\<lparr>mq_constraints := [only_query query]\<rparr>))))
         | Some key \<Rightarrow>
             (let targetName = getPrimaryKeyName table (ti_name key); columns = ti_columns key
              in andThen (temporary_name hashData targetName) (\<lambda>temporaryName.
                 andThen (getRebuildStatement eng stack temporaryName) (\<lambda>rebuild.
                 andThen (getCheckUniqueRecordsQuery eng stack table columns None False) (\<lambda>records.
                 andThen (create_index_query eng stack temporaryName table columns ''BTREE'' (\<lambda>c. c\<lparr>ci_unique := True\<rparr>)) (\<lambda>create.
                 andThen (index_validation eng stack temporaryName) (\<lambda>validation.
                 andThen (getCheckPrimaryKeySwappedQuery eng stack temporaryName) (\<lambda>swapped.
                 andThen (swap_primary_query eng stack table sourceName temporaryName columns) (\<lambda>swap.
                 andThen (getCheckConstraintMissingQuery eng stack temporaryName) (\<lambda>missing.
                 andThen (rename_constraint_query eng stack table temporaryName targetName) (\<lambda>rename.
                 give (replaced
                   (getStepQueries\<lparr>mq_indexes := [rebuild, (concurrent_query create)\<lparr>ms_assert := Some records, ms_name := Some temporaryName\<rparr>],
                      mq_validations := [validation]\<rparr>)
                   (getStepQueries\<lparr>mq_constraints := [checked_query swapped swap, checked_query missing rename]\<rparr>)))))))))))))"

definition indexes_getNames :: "string \<Rightarrow> indexes \<Rightarrow> string list \<times> string list" where
  "indexes_getNames table idxs =
     (let all_indexes = map snd idxs
      in (map (getIndexName table) (filter (\<lambda>i. ti_type i = PrimaryIndex) all_indexes), map (getIndexName table) all_indexes))"

definition getPrimaryIndex :: "indexes \<Rightarrow> table_index option" where
  "getPrimaryIndex idxs = List.find (\<lambda>i. ti_type i = PrimaryIndex) (map snd idxs)"

text \<open>The keys are keys of the indexes.\<close>

definition getNonPrimaryIndexes :: "indexes \<Rightarrow> string list \<Rightarrow> indexes" where
  "getNonPrimaryIndexes idxs keys =
     fold (\<lambda>key result. case obj_get idxs key of
         None \<Rightarrow> result
       | Some index \<Rightarrow> if ti_type index \<noteq> PrimaryIndex then obj_set key index result else result) keys []"

text \<open>A removed index that is a created one under the new names of its columns is renamed.\<close>

fun match_renames ::
  "indexes \<Rightarrow> indexes \<Rightarrow> (string \<times> string) list \<Rightarrow> string list \<Rightarrow> string list \<Rightarrow> (string \<times> string) list \<Rightarrow>
   string list \<times> string list \<times> (string \<times> string) list" where
  "match_renames sources targets renamedColumns [] created renamedKeys = ([], created, renamedKeys)"
| "match_renames sources targets renamedColumns (removedKey # removed) created renamedKeys =
     (case List.find (\<lambda>key. case (obj_get sources removedKey, obj_get targets key) of
              (Some source, Some target) \<Rightarrow> isSameIndex source target renamedColumns | _ \<Rightarrow> False) created of
        Some createdKey \<Rightarrow>
          match_renames sources targets renamedColumns removed (filter (\<lambda>k. k \<noteq> createdKey) created) (obj_set removedKey createdKey renamedKeys)
      | None \<Rightarrow>
          (case match_renames sources targets renamedColumns removed created renamedKeys of
             (kept, created', renamedKeys') \<Rightarrow> (removedKey # kept, created', renamedKeys')))"

definition type_at :: "indexes \<Rightarrow> string \<Rightarrow> index_type option" where
  "type_at idxs key = map_option ti_type (obj_get idxs key)"

definition indexes_prepareChanges ::
  "builder_options \<Rightarrow> nat \<Rightarrow> (string \<Rightarrow> string) \<Rightarrow> string \<Rightarrow> (string \<times> any_schema) list \<Rightarrow> indexes \<Rightarrow> indexes \<Rightarrow> object_comparison \<Rightarrow>
   (string \<times> string) list \<Rightarrow> migration_steps build" where
  "indexes_prepareChanges eng stack hashData table properties sourceIndexes targetIndexes changes renamedColumns =
     (let keys = (\<lambda>fs. case fs of None \<Rightarrow> [] | Some x \<Rightarrow> obj_keys x);
          updatedKeys = (case oc_nested changes of None \<Rightarrow> [] | Some x \<Rightarrow> obj_keys x);
          (removed, created, renamedKeys) = match_renames sourceIndexes targetIndexes renamedColumns (keys (oc_remove changes))
            (keys (oc_create changes)) (case oc_rename changes of None \<Rightarrow> [] | Some r \<Rightarrow> r);
          hasPrimaryKeyChange = (list_ex (\<lambda>k. type_at targetIndexes k = Some PrimaryIndex) created \<or>
            list_ex (\<lambda>k. type_at sourceIndexes k = Some PrimaryIndex) removed \<or>
            list_ex (\<lambda>k. case (obj_get sourceIndexes k, obj_get targetIndexes k) of
                (Some source, Some target) \<Rightarrow>
                  (ti_type source = PrimaryIndex \<or> ti_type target = PrimaryIndex) \<and> \<not> isSameIndex source target renamedColumns
              | _ \<Rightarrow> False) updatedKeys)
      in andThen (indexes_prepareRenameColumns eng stack table sourceIndexes targetIndexes renamedKeys) (\<lambda>renames.
         andThen (indexes_prepareCreate eng stack table properties (getNonPrimaryIndexes targetIndexes created)) (\<lambda>creates.
         andThen (indexes_prepareUpdate eng stack hashData table properties sourceIndexes targetIndexes updatedKeys renamedColumns) (\<lambda>updates.
         andThen (indexes_prepareDelete eng stack table (getNonPrimaryIndexes sourceIndexes removed)) (\<lambda>deletes.
         andThen (if hasPrimaryKeyChange
                  then preparePrimaryKey eng stack hashData table (getPrimaryIndex sourceIndexes) (getPrimaryIndex targetIndexes)
                  else give no_steps) (\<lambda>primary.
         give (combineSteps (combineSteps (combineSteps (replaced (combineQueries renames creates) getStepQueries) updates)
           (replaced getStepQueries deletes)) primary)))))))"

end
