(* ===== verification/Migration_Keys.thy ===== *)
theory Migration_Keys
  imports Migration_Indexes
begin

text \<open>
  What a migration makes of the primary key of a table (\<open>preparePrimaryKey\<close> of \<open>queries/indexes.ts\<close>, run by
  \<open>providers/raw/raw-pg/src/migration/client.ts\<close>): the table has a primary key all along.
\<close>

section \<open>The swap of a primary key\<close>

text \<open>The primary key of a table, by its name, and the names of its indexes.\<close>

record key_catalog =
  key_name :: "string option"
  index_there :: "string \<Rightarrow> bool"

text \<open>
  A statement that drops the key \<open>source\<close>, with its index, and makes the index \<open>tmp\<close> the key; it fails when there is
  no such index, or when the table has another key. A key is renamed with its index.
\<close>

definition swap_primary :: "string option \<Rightarrow> string \<Rightarrow> key_catalog \<Rightarrow> key_catalog option" where
  "swap_primary source tmp c =
     (if index_there c tmp \<and> key_name c \<in> {None, source}
      then Some \<lparr>key_name = Some tmp, index_there = (\<lambda>i. index_there c i \<and> Some i \<noteq> key_name c)\<rparr> else None)"

definition rename_primary :: "string \<Rightarrow> string \<Rightarrow> key_catalog \<Rightarrow> key_catalog option" where
  "rename_primary tmp name c =
     (if key_name c = Some tmp \<and> \<not> index_there c name
      then Some \<lparr>key_name = Some name, index_there = (index_there c)(tmp := False, name := True)\<rparr> else None)"

definition drop_index_named :: "string \<Rightarrow> key_catalog \<Rightarrow> key_catalog option" where
  "drop_index_named name c = (if key_name c = Some name then None else Some (c\<lparr>index_there := (index_there c)(name := False)\<rparr>))"

definition add_index_named :: "string \<Rightarrow> key_catalog \<Rightarrow> key_catalog option" where
  "add_index_named name c = Some (c\<lparr>index_there := (index_there c)(name := True)\<rparr>)"

text \<open>
  The behaviour of PostgreSQL on the statements of the rollout and of the cleanup. The temporary name is stored as it
  is; \<open>source\<close> and \<open>target\<close> are the names under which the catalog has the keys. An index is built outside a transaction, and
  one that could not be built is there too, so that the statement that would use it fails.
\<close>

definition index_laws ::
  "'w database \<Rightarrow> ('w \<Rightarrow> key_catalog) \<Rightarrow> builder_options \<Rightarrow> nat \<Rightarrow> string \<Rightarrow> string list \<Rightarrow> string \<Rightarrow> bool" where
  "index_laws db cof eng stack table columns tmp =
     ((\<forall>q. builds (getCheckIndexRebuildQuery eng stack tmp) q \<longrightarrow> refuses db cof q (\<lambda>c. False)) \<and>
      (\<forall>q. builds (getCheckUniqueRecordsQuery eng stack table columns None False) q \<longrightarrow> refuses db cof q (\<lambda>c. False)) \<and>
      (\<forall>q. builds (drop_index_query eng stack tmp) q \<longrightarrow> attempts db cof q (drop_index_named tmp)) \<and>
      (\<forall>q. builds (create_index_query eng stack tmp table columns ''BTREE'' (\<lambda>c. c\<lparr>ci_unique := True\<rparr>)) q \<longrightarrow>
        attempts db cof q (add_index_named tmp)))"

definition primary_laws ::
  "'w database \<Rightarrow> ('w \<Rightarrow> key_catalog) \<Rightarrow> builder_options \<Rightarrow> nat \<Rightarrow> string \<Rightarrow> table_index option \<Rightarrow> table_index \<Rightarrow> string option \<Rightarrow> string \<Rightarrow> string \<Rightarrow> bool" where
  "primary_laws db cof eng stack table sourceKey targetKey source tmp target =
     (index_laws db cof eng stack table (ti_columns targetKey) tmp \<and>
      (\<forall>q. builds (getCheckPrimaryKeySwappedQuery eng stack tmp) q \<longrightarrow> asks db cof q (\<lambda>c. key_name c = Some tmp \<or> \<not> index_there c tmp)) \<and>
      (\<forall>q. builds (getCheckConstraintMissingQuery eng stack tmp) q \<longrightarrow> asks db cof q (\<lambda>c. key_name c \<noteq> Some tmp)) \<and>
      changes_catalog db cof (swap_primary_query eng stack table (map_option (\<lambda>key. getPrimaryKeyName table (ti_name key)) sourceKey) tmp
        (ti_columns targetKey)) (swap_primary source tmp) \<and>
      changes_catalog db cof (rename_constraint_query eng stack table tmp (getPrimaryKeyName table (ti_name targetKey))) (rename_primary tmp target))"

text \<open>The statements of the rollout that build the index, and those of the cleanup that swap the keys.\<close>

definition key_statements_of :: "migration_steps \<Rightarrow> migration_statement list" where
  "key_statements_of steps = mq_indexes (rollout_step steps) @ mq_constraints (cleanup_step steps)"

definition primary_effects :: "string option \<Rightarrow> string \<Rightarrow> string \<Rightarrow> key_catalog effect list" where
  "primary_effects source tmp target =
     [skippable (drop_index_named tmp), \<lambda>c. set_option (add_index_named tmp c),
      guarded (\<lambda>c. False) (\<lambda>c. key_name c = Some tmp \<or> \<not> index_there c tmp) (swap_primary source tmp),
      guarded (\<lambda>c. False) (\<lambda>c. key_name c \<noteq> Some tmp) (rename_primary tmp target)]"

text \<open>What holds before each of the statements, and after all of them.\<close>

definition primary_stage :: "string \<Rightarrow> string \<Rightarrow> string \<Rightarrow> nat \<Rightarrow> key_catalog \<Rightarrow> bool" where
  "primary_stage source tmp target k c =
     (tmp \<noteq> target \<and> key_name c \<in> {Some source, Some tmp, Some target} \<and> (k = 2 \<longrightarrow> index_there c tmp) \<and> (k = 3 \<longrightarrow> key_name c = Some tmp) \<and>
      (k = 4 \<longrightarrow> key_name c = Some target \<and> \<not> index_there c tmp))"

interpretation key_swap: staged "primary_effects (Some source) tmp target" "primary_stage source tmp target" for source tmp target
proof
  fix k c d
  assume "k < length (primary_effects (Some source) tmp target)" and stage: "primary_stage source tmp target k c"
    and d: "d \<in> (primary_effects (Some source) tmp target ! k) c"
  then have "k < 4" by (simp add: primary_effects_def)
  then consider "k = 0" | "k = 1" | "k = 2" | "k = 3" by linarith
  then show "primary_stage source tmp target (Suc k) d"
    using stage d
    by cases (auto simp: primary_effects_def primary_stage_def guarded_def skippable_def drop_index_named_def add_index_named_def
        swap_primary_def rename_primary_def split: if_splits)
qed (auto simp: primary_stage_def)

lemmas primary_nonempty =
  query_text_nonempty [where select = "find_one [] [(''OR'', Items [Fields [(''exists'', SelectValue (constraint_named name))],
    Fields (none_of (index_named name))])] None" for name, folded getCheckPrimaryKeySwappedQuery_def]
  check_nonempty(2)

lemma concurrent_runs_as:
  assumes "attempts db cof q f" and "\<And>c c'. f c = Some c' \<Longrightarrow> f c' = Some c'" and "refuses db cof a (\<lambda>c. False)"
  shows "runs_as db cof ((concurrent_query q)\<lparr>ms_assert := Some a, ms_name := name\<rparr>) (\<lambda>c. set_option (f c))"
    and "runs_as db cof ((concurrent_query q)\<lparr>ms_check := Some a, ms_condition := cond\<rparr>) (skippable f)"
proof -
  have q: "getMigrationQuery q True MIGRATION_LOCK_TIMEOUT = Some q" by (simp add: getMigrationQuery_def)
  show "runs_as db cof ((concurrent_query q)\<lparr>ms_assert := Some a, ms_name := name\<rparr>) (\<lambda>c. set_option (f c))"
    using runs_as_attempted [of db cof "(concurrent_query q)\<lparr>ms_assert := Some a, ms_name := name\<rparr>" f] assms q
    by (simp add: concurrent_query_def only_query_def)
  show "runs_as db cof ((concurrent_query q)\<lparr>ms_check := Some a, ms_condition := cond\<rparr>) (skippable f)"
    using runs_as_attempted [of db cof "(concurrent_query q)\<lparr>ms_check := Some a, ms_condition := cond\<rparr>" f] assms q
    by (simp add: concurrent_query_def only_query_def)
qed

lemma index_named_again:
  "drop_index_named t c = Some c' \<Longrightarrow> drop_index_named t c' = Some c'" "add_index_named t c = Some c' \<Longrightarrow> add_index_named t c' = Some c'"
  by (auto simp: drop_index_named_def add_index_named_def split: if_splits)

lemma rebuild_runs_as:
  assumes "index_laws db cof eng stack table columns tmp" and "builds (getRebuildStatement eng stack tmp) st"
  shows "runs_as db cof st (skippable (drop_index_named tmp))"
  using assms(2) unfolding getRebuildStatement_def
proof (elim builds_andThen)
  fix check query
  assume q: "builds (getCheckIndexRebuildQuery eng stack tmp) check" "builds (drop_index_query eng stack tmp) query"
    and st: "builds (give ((concurrent_query query)\<lparr>ms_check := Some check, ms_condition := Some ''only when the index is invalid''\<rparr>)) st"
  from assms(1) q have "refuses db cof check (\<lambda>c. False)" "attempts db cof query (drop_index_named tmp)" by (simp_all add: index_laws_def)
  then show ?thesis using st concurrent_runs_as(2) [OF _ index_named_again(1)] by simp
qed

lemma primary_runs_as:
  assumes laws: "primary_laws db cof eng stack table sourceKey targetKey source tmp target"
    and tmp: "getTemporaryName hashData (getPrimaryKeyName table (ti_name targetKey)) = Some tmp"
    and built: "builds (preparePrimaryKey eng stack hashData table sourceKey (Some targetKey)) steps"
  shows "list_all2 (runs_as db cof) (key_statements_of steps) (primary_effects source tmp target)"
  using built unfolding preparePrimaryKey_def Let_def temporary_name_def option.case tmp
proof (elim builds_andThen)
  let ?s = "map_option (\<lambda>key. getPrimaryKeyName table (ti_name key)) sourceKey" and ?n = "getPrimaryKeyName table (ti_name targetKey)"
  let ?cols = "ti_columns targetKey"
  fix t rebuild records create validation swapped swap missing rename
  assume t: "builds (give tmp) t" and rebuild: "builds (getRebuildStatement eng stack t) rebuild"
    and q: "builds (getCheckUniqueRecordsQuery eng stack table ?cols None False) records"
      "builds (create_index_query eng stack t table ?cols ''BTREE'' (\<lambda>c. c\<lparr>ci_unique := True\<rparr>)) create"
      "builds (getCheckPrimaryKeySwappedQuery eng stack t) swapped" "builds (swap_primary_query eng stack table ?s t ?cols) swap"
      "builds (getCheckConstraintMissingQuery eng stack t) missing" "builds (rename_constraint_query eng stack table t ?n) rename"
    and steps: "builds (give (replaced
      (getStepQueries\<lparr>mq_indexes := [rebuild, (concurrent_query create)\<lparr>ms_assert := Some records, ms_name := Some t\<rparr>],
         mq_validations := [validation]\<rparr>)
      (getStepQueries\<lparr>mq_constraints := [checked_query swapped swap, checked_query missing rename]\<rparr>))) steps"
  note q = q [unfolded t [simplified]]
  note laws = laws [unfolded primary_laws_def]
  have "runs_as db cof rebuild (skippable (drop_index_named tmp))" using rebuild_runs_as laws rebuild t by auto
  moreover have "runs_as db cof ((concurrent_query create)\<lparr>ms_assert := Some records, ms_name := Some tmp\<rparr>) (\<lambda>c. set_option (add_index_named tmp c))"
    using laws q(1,2) by (intro concurrent_runs_as(1) [OF _ index_named_again(2)]) (simp_all add: index_laws_def)
  moreover have "runs_as db cof (checked_query swapped swap)
      (guarded (\<lambda>c. False) (\<lambda>c. key_name c = Some tmp \<or> \<not> index_there c tmp) (swap_primary source tmp))"
    by (rule runs_as_checked(2) [where records = None]) (use laws q primary_nonempty in auto)
  moreover have "runs_as db cof (checked_query missing rename) (guarded (\<lambda>c. False) (\<lambda>c. key_name c \<noteq> Some tmp) (rename_primary tmp target))"
    by (rule runs_as_checked(2) [where records = None]) (use laws q primary_nonempty in auto)
  ultimately show "list_all2 (runs_as db cof) (key_statements_of steps) (primary_effects source tmp target)"
    using steps t by (simp add: primary_effects_def key_statements_of_def replaced_def)
qed

lemma primary_tried:
  assumes "primary_laws db cof eng stack table sourceKey targetKey (Some source) tmp target"
    and "getTemporaryName hashData (getPrimaryKeyName table (ti_name targetKey)) = Some tmp" and "tmp \<noteq> target"
    and "builds (preparePrimaryKey eng stack hashData table sourceKey (Some targetKey)) steps"
    and "key_name (cof w) = Some source" and "tried db (key_statements_of steps) w w'"
  shows "primary_stage source tmp target 0 (cof w')"
    and "runAllStatements db (key_statements_of steps) w' = (Inr (), w'') \<Longrightarrow> primary_stage source tmp target 4 (cof w'')"
proof -
  note runs = primary_runs_as [OF assms(1,2,4)]
  have start: "primary_stage source tmp target 0 (cof w)" using assms(3,5) by (simp add: primary_stage_def)
  show during: "primary_stage source tmp target 0 (cof w')" by (rule key_swap.tried_keeps [OF runs assms(6) start])
  assume "runAllStatements db (key_statements_of steps) w' = (Inr (), w'')"
  from key_swap.run_completes [OF runs during this] show "primary_stage source tmp target 4 (cof w'')" by (simp add: primary_effects_def eval_nat_numeral)
qed

text \<open>
  C36. The primary key of a table is swapped for another in runs of the rollout and the cleanup that stop at any
  statement and are tried again: the table has a primary key all along, and a run that completes leaves the new one
  under its name, without the temporary index.
\<close>

theorem primary_key_stays:
  assumes "primary_laws db cof eng stack table sourceKey targetKey (Some source) tmp target"
    and "getTemporaryName hashData (getPrimaryKeyName table (ti_name targetKey)) = Some tmp" and "tmp \<noteq> target"
    and "preparePrimaryKey eng stack hashData table sourceKey (Some targetKey) refs = Inr (steps, vs, refs')"
    and "key_name (cof w) = Some source" and "tried db (key_statements_of steps) w w'"
  shows "key_name (cof w') \<noteq> None \<and>
    (\<forall>w''. runAllStatements db (key_statements_of steps) w' = (Inr (), w'') \<longrightarrow>
      key_name (cof w'') = Some target \<and> \<not> index_there (cof w'') tmp)"
proof -
  have built: "builds (preparePrimaryKey eng stack hashData table sourceKey (Some targetKey)) steps" using assms(4) unfolding builds_def by blast
  show ?thesis using primary_tried [OF assms(1-3) built assms(5,6)] by (auto simp: primary_stage_def)
qed

lemma swapped_key_is_stuck:
  assumes "key_name c = Some target" and "target \<noteq> source" and "tmp \<noteq> target" and "(completed, c') \<in> outcomes (primary_effects (Some source) tmp target) c"
  shows "\<not> completed"
proof -
  let ?es = "primary_effects (Some source) tmp target"
  let ?P = "\<lambda>(k :: nat) c. k < 3 \<and> key_name c = Some target \<and> (k = 2 \<longrightarrow> index_there c tmp)"
  have step: "?P (Suc k) d" if "k < length ?es" "?P k c" "d \<in> (?es ! k) c" for k c d
  proof -
    from that(2) consider "k = 0" | "k = 1" | "k = 2" by linarith
    then show ?thesis
      using that(2,3) assms(2,3)
      by cases (auto simp: primary_effects_def skippable_def guarded_def drop_index_named_def add_index_named_def swap_primary_def split: if_splits)
  qed
  have "\<exists>k \<le> length ?es. ?P k c' \<and> (completed \<longrightarrow> k = length ?es)"
  proof (rule outcomes_stages [OF assms(4)])
    show "?P 0 c" using assms(1) by simp
  qed (rule step)
  then show ?thesis by (auto simp: primary_effects_def)
qed

text \<open>
  C37. A swap of a primary key that has completed can not be run again, as it is when a later statement of the cleanup
  fails: the rollout builds the temporary index again, and the statement that swaps the keys, finding the index,
  adds a second primary key, which PostgreSQL refuses.
\<close>

theorem primary_key_retry_fails:
  assumes "primary_laws db cof eng stack table sourceKey targetKey (Some source) tmp target"
    and "getTemporaryName hashData (getPrimaryKeyName table (ti_name targetKey)) = Some tmp" and "tmp \<noteq> target" and "target \<noteq> source"
    and "preparePrimaryKey eng stack hashData table sourceKey (Some targetKey) refs = Inr (steps, vs, refs')"
    and "key_name (cof w) = Some source" and "runAllStatements db (key_statements_of steps) w = (Inr (), w1)"
  shows "fst (runAllStatements db (key_statements_of steps) w1) \<noteq> Inr ()"
proof
  have built: "builds (preparePrimaryKey eng stack hashData table sourceKey (Some targetKey)) steps" using assms(5) unfolding builds_def by blast
  have "key_name (cof w1) = Some target"
    using primary_tried(2) [OF assms(1-3) built assms(6) tried.untried assms(7)] by (simp add: primary_stage_def)
  moreover assume "fst (runAllStatements db (key_statements_of steps) w1) = Inr ()"
  then obtain w2 where "runAllStatements db (key_statements_of steps) w1 = (Inr (), w2)" by (metis prod.collapse)
  from run_refines_outcomes [OF primary_runs_as [OF assms(1,2) built] this]
  have "(True, cof w2) \<in> outcomes (primary_effects (Some source) tmp target) (cof w1)" by simp
  ultimately show False using swapped_key_is_stuck [OF _ assms(4,3)] by blast
qed

section \<open>An example\<close>

text \<open>The table \<open>t\<close>, whose key moves from the column \<open>a\<close> to the column \<open>b\<close>.\<close>

definition key_on :: "string \<Rightarrow> table_index" where
  "key_on column = \<lparr>ti_name = column, ti_columns = [column], ti_type = PrimaryIndex, ti_options = None\<rparr>"

definition key_answers :: "(string \<times> (key_catalog \<Rightarrow> db_answer \<times> key_catalog)) list" where
  "key_answers =
     (let e = sample_engine; t = ''t_b_tmp_pk''
      in [(built_text (getCheckIndexRebuildQuery e 5 t), found (\<lambda>c. True)),
          (built_text (getCheckUniqueRecordsQuery e 5 ''t'' [''b''] None False), found (\<lambda>c. False)),
          (built_text (drop_index_query e 5 t), changed (drop_index_named t)),
          (built_text (create_index_query e 5 t ''t'' [''b''] ''BTREE'' (\<lambda>c. c\<lparr>ci_unique := True\<rparr>)), changed (add_index_named t)),
          (built_text (getCheckPrimaryKeySwappedQuery e 5 t), found (\<lambda>c. key_name c = Some t \<or> \<not> index_there c t)),
          (built_text (getCheckConstraintMissingQuery e 5 t), found (\<lambda>c. key_name c \<noteq> Some t)),
          (locked_text (swap_primary_query e 5 ''t'' (Some ''t_a_pk'') t [''b'']), changed (swap_primary (Some ''t_a_pk'') t)),
          (locked_text (rename_constraint_query e 5 ''t'' t ''t_b_pk''), changed (rename_primary t ''t_b_pk''))])"

definition key_steps :: migration_steps where
  "key_steps = (case preparePrimaryKey sample_engine 5 sample_hash ''t'' (Some (key_on ''a'')) (Some (key_on ''b'')) sample_refs of
     Inl e \<Rightarrow> no_steps | Inr (steps, vs, refs) \<Rightarrow> steps)"

definition key_start :: key_catalog where
  "key_start = \<lparr>key_name = Some ''t_a_pk'', index_there = (\<lambda>i. i = ''t_a_pk'')\<rparr>"

lemma key_distinct: "distinct (map fst key_answers)"
  by code_simp

lemma key_texts:
  "builds (getCheckIndexRebuildQuery sample_engine 5 ''t_b_tmp_pk'') q \<Longrightarrow> q = built_text (getCheckIndexRebuildQuery sample_engine 5 ''t_b_tmp_pk'')"
  "builds (getCheckUniqueRecordsQuery sample_engine 5 ''t'' [''b''] None False) q \<Longrightarrow> q = built_text (getCheckUniqueRecordsQuery sample_engine 5 ''t'' [''b''] None False)"
  "builds (getCheckPrimaryKeySwappedQuery sample_engine 5 ''t_b_tmp_pk'') q \<Longrightarrow> q = built_text (getCheckPrimaryKeySwappedQuery sample_engine 5 ''t_b_tmp_pk'')"
  "builds (getCheckConstraintMissingQuery sample_engine 5 ''t_b_tmp_pk'') q \<Longrightarrow> q = built_text (getCheckConstraintMissingQuery sample_engine 5 ''t_b_tmp_pk'')"
  by (erule built_text_unique [rotated], code_simp)+

lemma key_index_statements:
  "builds (drop_index_query sample_engine 5 ''t_b_tmp_pk'') q \<Longrightarrow> q = built_text (drop_index_query sample_engine 5 ''t_b_tmp_pk'')"
  "builds (create_index_query sample_engine 5 ''t_b_tmp_pk'' ''t'' [''b''] ''BTREE'' (\<lambda>c. c\<lparr>ci_unique := True\<rparr>)) q \<Longrightarrow>
   q = built_text (create_index_query sample_engine 5 ''t_b_tmp_pk'' ''t'' [''b''] ''BTREE'' (\<lambda>c. c\<lparr>ci_unique := True\<rparr>))"
  by (erule built_text_unique [rotated], code_simp)+

lemma key_statements:
  "builds (swap_primary_query sample_engine 5 ''t'' (Some ''t_a_pk'') ''t_b_tmp_pk'' [''b'']) q \<Longrightarrow>
   q = built_text (swap_primary_query sample_engine 5 ''t'' (Some ''t_a_pk'') ''t_b_tmp_pk'' [''b''])"
  "builds (rename_constraint_query sample_engine 5 ''t'' ''t_b_tmp_pk'' ''t_b_pk'') q \<Longrightarrow>
   q = built_text (rename_constraint_query sample_engine 5 ''t'' ''t_b_tmp_pk'' ''t_b_pk'')"
  by (erule built_text_unique [rotated], code_simp)+

lemma key_names:
  "getPrimaryKeyName ''t'' (ti_name (key_on ''a'')) = ''t_a_pk''" "getPrimaryKeyName ''t'' (ti_name (key_on ''b'')) = ''t_b_pk''"
  "getTemporaryName sample_hash ''t_b_pk'' = Some ''t_b_tmp_pk''" "ti_columns (key_on ''b'') = [''b'']"
  by code_simp+

lemma key_answer_list:
  "set key_answers =
     {(built_text (getCheckIndexRebuildQuery sample_engine 5 ''t_b_tmp_pk''), found (\<lambda>c. True)),
      (built_text (getCheckUniqueRecordsQuery sample_engine 5 ''t'' [''b''] None False), found (\<lambda>c. False)),
      (built_text (drop_index_query sample_engine 5 ''t_b_tmp_pk''), changed (drop_index_named ''t_b_tmp_pk'')),
      (built_text (create_index_query sample_engine 5 ''t_b_tmp_pk'' ''t'' [''b''] ''BTREE'' (\<lambda>c. c\<lparr>ci_unique := True\<rparr>)), changed (add_index_named ''t_b_tmp_pk'')),
      (built_text (getCheckPrimaryKeySwappedQuery sample_engine 5 ''t_b_tmp_pk''), found (\<lambda>c. key_name c = Some ''t_b_tmp_pk'' \<or> \<not> index_there c ''t_b_tmp_pk'')),
      (built_text (getCheckConstraintMissingQuery sample_engine 5 ''t_b_tmp_pk''), found (\<lambda>c. key_name c \<noteq> Some ''t_b_tmp_pk'')),
      (locked_text (swap_primary_query sample_engine 5 ''t'' (Some ''t_a_pk'') ''t_b_tmp_pk'' [''b'']), changed (swap_primary (Some ''t_a_pk'') ''t_b_tmp_pk'')),
      (locked_text (rename_constraint_query sample_engine 5 ''t'' ''t_b_tmp_pk'' ''t_b_pk''), changed (rename_primary ''t_b_tmp_pk'' ''t_b_pk''))}"
  unfolding key_answers_def Let_def by simp

lemma reads_only: "refuses db cof q P \<Longrightarrow> refuses db cof q (\<lambda>c. False)"
  by (simp add: refuses_def)

lemma key_index_laws: "index_laws (answering key_answers) id sample_engine 5 ''t'' [''b''] ''t_b_tmp_pk''"
proof -
  have "refuses (answering key_answers) id (built_text (getCheckIndexRebuildQuery sample_engine 5 ''t_b_tmp_pk'')) (\<lambda>c. True)"
    using answering_asks [OF key_distinct] key_answer_list by blast
  moreover have "refuses (answering key_answers) id (built_text (getCheckUniqueRecordsQuery sample_engine 5 ''t'' [''b''] None False)) (\<lambda>c. False)"
    using answering_asks [OF key_distinct] key_answer_list by blast
  moreover have "attempts (answering key_answers) id (built_text (drop_index_query sample_engine 5 ''t_b_tmp_pk'')) (drop_index_named ''t_b_tmp_pk'')"
    using answering_attempts [OF key_distinct] key_answer_list by blast
  moreover have "attempts (answering key_answers) id
      (built_text (create_index_query sample_engine 5 ''t_b_tmp_pk'' ''t'' [''b''] ''BTREE'' (\<lambda>c. c\<lparr>ci_unique := True\<rparr>))) (add_index_named ''t_b_tmp_pk'')"
    using answering_attempts [OF key_distinct] key_answer_list by blast
  ultimately show ?thesis
    unfolding index_laws_def using key_texts(1,2) key_index_statements reads_only by metis
qed

lemma key_laws:
  "primary_laws (answering key_answers) id sample_engine 5 ''t'' (Some (key_on ''a'')) (key_on ''b'') (Some ''t_a_pk'') ''t_b_tmp_pk'' ''t_b_pk''"
  unfolding primary_laws_def option.map key_names
  by (intro conjI allI impI key_index_laws answering_changes [OF key_distinct] answering_asks [OF key_distinct, THEN conjunct1];
      (drule key_texts(3,4) | rule key_statements)?; simp add: key_answer_list)

lemma key_built:
  "\<exists>vs refs. preparePrimaryKey sample_engine 5 sample_hash ''t'' (Some (key_on ''a'')) (Some (key_on ''b'')) sample_refs = Inr (key_steps, vs, refs)"
proof -
  have "\<not> isl (preparePrimaryKey sample_engine 5 sample_hash ''t'' (Some (key_on ''a'')) (Some (key_on ''b'')) sample_refs)" by code_simp
  then show ?thesis by (auto simp: key_steps_def split: sum.splits prod.splits)
qed

lemma key_run: "fst (runAllStatements (answering key_answers) (key_statements_of key_steps) key_start) = Inr ()"
  by code_simp

theorem primary_key_stays_witness:
  "key_name (snd (runAllStatements (answering key_answers) (key_statements_of key_steps) key_start)) = Some ''t_b_pk''"
proof -
  obtain vs refs where built:
    "preparePrimaryKey sample_engine 5 sample_hash ''t'' (Some (key_on ''a'')) (Some (key_on ''b'')) sample_refs = Inr (key_steps, vs, refs)"
    using key_built by blast
  obtain w where run: "runAllStatements (answering key_answers) (key_statements_of key_steps) key_start = (Inr (), w)"
    using key_run by (metis prod.collapse)
  have "key_name w = Some ''t_b_pk''"
    using primary_key_stays [where cof = id and table = "''t''" and targetKey = "key_on ''b''", unfolded key_names(2), OF key_laws key_names(3) _ built,
        of key_start key_start] run
    by (simp add: key_start_def tried.untried)
  with run show ?thesis by simp
qed

theorem primary_key_retry_fails_witness:
  "fst (runAllStatements (answering key_answers) (key_statements_of key_steps)
     (snd (runAllStatements (answering key_answers) (key_statements_of key_steps) key_start))) \<noteq> Inr ()"
proof -
  obtain vs refs where built:
    "preparePrimaryKey sample_engine 5 sample_hash ''t'' (Some (key_on ''a'')) (Some (key_on ''b'')) sample_refs = Inr (key_steps, vs, refs)"
    using key_built by blast
  obtain w where run: "runAllStatements (answering key_answers) (key_statements_of key_steps) key_start = (Inr (), w)"
    using key_run by (metis prod.collapse)
  have "fst (runAllStatements (answering key_answers) (key_statements_of key_steps) w) \<noteq> Inr ()"
    by (rule primary_key_retry_fails [where cof = id and table = "''t''" and targetKey = "key_on ''b''", unfolded key_names(2),
          OF key_laws key_names(3) _ _ built _ run]) (simp_all add: key_start_def)
  with run show ?thesis by simp
qed

end
