(* ===== verification/Migration_Relations.thy ===== *)
theory Migration_Relations
  imports Migration_Indexes
begin

text \<open>
  The foreign keys of a table in a migration (\<open>queries/relations.ts\<close> of \<open>libraries/pgmigration/src\<close>), the timestamps the
  database writes (\<open>queries/timestamps.ts\<close>), and the statements for a database (\<open>queries/database.ts\<close>).
\<close>

section \<open>Foreign keys\<close>

datatype delete_action = CascadeDelete | SetNullDelete | RestrictDelete | NoActionDelete

record table_relation =
  tr_sourceTable :: string
  tr_sourceColumn :: string
  tr_sourceIndex :: "index_type option"
  tr_targetColumn :: string
  tr_targetIndex :: "index_type option"
  tr_onDelete :: "delete_action option"
  tr_foreignKey :: "bool option"
  tr_scope :: "string list option"

type_synonym relations = "(string \<times> table_relation) list"

record table_key =
  tk_sourceTable :: string
  tk_sourceColumn :: string
  tk_targetColumn :: string
  tk_onDelete :: delete_action
  tk_scope :: "string list"

definition hasForeignKey :: "table_relation \<Rightarrow> bool" where
  "hasForeignKey relation =
     (case tr_foreignKey relation of
        Some b \<Rightarrow> b
      | None \<Rightarrow> tr_sourceIndex relation \<notin> {None, Some SecondaryIndex} \<and> tr_targetIndex relation \<noteq> Some PrimaryIndex)"

definition getDeleteAction :: "table_relation \<Rightarrow> (string \<times> any_schema) list \<Rightarrow> delete_action" where
  "getDeleteAction relation properties =
     (case tr_onDelete relation of
        Some action \<Rightarrow> action
      | None \<Rightarrow> (case obj_get properties (tr_targetColumn relation) of
            Some schema \<Rightarrow> if isOptionalColumn schema then SetNullDelete else CascadeDelete
          | None \<Rightarrow> CascadeDelete))"

definition getForeignKey :: "table_relation \<Rightarrow> (string \<times> any_schema) list \<Rightarrow> table_key option" where
  "getForeignKey relation properties =
     (if \<not> hasForeignKey relation then None
      else Some \<lparr>tk_sourceTable = tr_sourceTable relation, tk_sourceColumn = tr_sourceColumn relation,
                 tk_targetColumn = tr_targetColumn relation, tk_onDelete = getDeleteAction relation properties,
                 tk_scope = (case tr_scope relation of None \<Rightarrow> [] | Some s \<Rightarrow> s)\<rparr>)"

definition getTableName :: "string \<Rightarrow> string" where
  "getTableName table = toSnakeCase table"

fun delete_action_code :: "delete_action \<Rightarrow> string" where
  "delete_action_code CascadeDelete = ''c''"
| "delete_action_code SetNullDelete = ''n''"
| "delete_action_code RestrictDelete = ''r''"
| "delete_action_code NoActionDelete = ''a''"

record foreign_key_definition =
  fd_columns :: "string list"
  fd_table :: string
  fd_tableColumns :: "string list"
  fd_deleteAction :: string

definition identifiers :: "string list \<Rightarrow> string" where
  "identifiers values = join ('' || '' @ escapeSqlText '', '' @ '' || '') (map (\<lambda>v. ''quote_ident('' @ escapeSqlText v @ '')'') values)"

definition getCheckForeignKeyMatchesQuery :: "string \<Rightarrow> foreign_key_definition \<Rightarrow> string" where
  "getCheckForeignKeyMatchesQuery name d =
     (let keyDefinition = escapeSqlText ''FOREIGN KEY ('' @ '' || '' @ identifiers (fd_columns d) @ '' || '' @ escapeSqlText '') REFERENCES '' @
            '' || '' @ identifiers [fd_table d] @ '' || '' @ escapeSqlText ''('' @ '' || '' @ identifiers (fd_tableColumns d) @ '' || '' @ escapeSqlText '')'';
          quoted = (\<lambda>n. [CHR 34] @ n @ [CHR 34])
      in join '' AND ''
           [''SELECT 1 FROM '' @ quoted ''pg_constraint'' @ '' WHERE '' @ quoted ''conname'' @ '' = '' @ escapeSqlText name,
            quoted ''contype'' @ '' = '' @ escapeSqlText ''f'', quoted ''convalidated'', quoted ''confupdtype'' @ '' = '' @ escapeSqlText ''c'',
            quoted ''confdeltype'' @ '' = '' @ escapeSqlText (fd_deleteAction d),
            ''starts_with(pg_get_constraintdef('' @ quoted ''oid'' @ ''), '' @ keyDefinition @ '')''])"

definition getKeptKeyCheck :: "string \<Rightarrow> table_key \<Rightarrow> string option" where
  "getKeptKeyCheck name key =
     (if tk_scope key \<noteq> [] \<and> tk_onDelete key = SetNullDelete then None
      else Some (getCheckForeignKeyMatchesQuery name
        \<lparr>fd_columns = tk_scope key @ [tk_targetColumn key], fd_table = getTableName (tk_sourceTable key),
         fd_tableColumns = tk_scope key @ [tk_sourceColumn key], fd_deleteAction = delete_action_code (tk_onDelete key)\<rparr>))"

fun delete_clause :: "table_key \<Rightarrow> key_action" where
  "delete_clause key =
     (case tk_onDelete key of
        CascadeDelete \<Rightarrow> \<lparr>ka_action = Some Cascade, ka_columns = None\<rparr>
      | SetNullDelete \<Rightarrow> \<lparr>ka_action = Some SetNull, ka_columns = (if tk_scope key = [] then None else Some [tk_targetColumn key])\<rparr>
      | RestrictDelete \<Rightarrow> \<lparr>ka_action = Some Restrict, ka_columns = None\<rparr>
      | NoActionDelete \<Rightarrow> \<lparr>ka_action = Some NoAction, ka_columns = None\<rparr>)"

definition create_key_query :: "builder_options \<Rightarrow> nat \<Rightarrow> string \<Rightarrow> string \<Rightarrow> table_key \<Rightarrow> string build" where
  "create_key_query eng stack table name key =
     alter_query eng stack table [CallConstraint name (constraint_foreign (tk_scope key @ [tk_targetColumn key])
       (getTableName (tk_sourceTable key)) (tk_scope key @ [tk_sourceColumn key])
       (\<lambda>k. k\<lparr>fk_delete := Some (delete_clause key), fk_update := Some \<lparr>ka_action = Some Cascade, ka_columns = None\<rparr>,
               fk_validate := Some False\<rparr>))]"

definition create_key :: "builder_options \<Rightarrow> nat \<Rightarrow> string \<Rightarrow> string \<Rightarrow> table_key \<Rightarrow> migration_queries build" where
  "create_key eng stack table name key =
     andThen (getCheckConstraintExistsQuery eng stack name) (\<lambda>present.
     andThen (create_key_query eng stack table name key) (\<lambda>create.
     andThen (getCheckConstraintValidQuery eng stack name) (\<lambda>valid.
     andThen (getValidateQuery eng stack table name) (\<lambda>validate.
     andThen (getCheckConstraintInvalidQuery eng stack name) (\<lambda>invalid.
     andThen (getCheckRunningValidationQuery eng stack name) (\<lambda>running.
     give (getStepQueries\<lparr>mq_relations := [checked_query present create, checked_query valid validate],
       mq_validations := [\<lparr>vs_name = name, vs_check = invalid, vs_retry = running\<rparr>]\<rparr>)))))))"

definition relations_prepareCreate ::
  "builder_options \<Rightarrow> nat \<Rightarrow> string \<Rightarrow> (string \<times> any_schema) list \<Rightarrow> relations \<Rightarrow> migration_queries build" where
  "relations_prepareCreate eng stack table properties rels =
     andThen (each (\<lambda>(targetAlias, relation). case getForeignKey relation properties of
         None \<Rightarrow> give getStepQueries
       | Some key \<Rightarrow> create_key eng stack table (getRelationName table targetAlias) key) rels)
       (\<lambda>qs. give (combine_all qs))"

text \<open>
  The statements that replace a key: the new one is built and validated under a temporary name in the rollout and takes
  the place of the current one in the cleanup, unless the current one is already as it should be.
\<close>

definition replace_key :: "builder_options \<Rightarrow> nat \<Rightarrow> (string \<Rightarrow> string) \<Rightarrow> string \<Rightarrow> string \<Rightarrow> table_key \<Rightarrow> migration_steps build" where
  "replace_key eng stack hashData table newName key =
     andThen (temporary_name hashData newName) (\<lambda>tmpName.
     (let keptKey = getKeptKeyCheck newName key;
          condition = (case keptKey of None \<Rightarrow> None | Some _ \<Rightarrow> Some ''unless the foreign key already has this definition'')
      in andThen (getCheckConstraintMissingQuery eng stack tmpName) (\<lambda>missing.
         andThen (getCheckConstraintExistsQuery eng stack tmpName) (\<lambda>present.
         andThen (create_key_query eng stack table tmpName key) (\<lambda>create.
         andThen (getCheckConstraintValidQuery eng stack tmpName) (\<lambda>valid.
         andThen (getValidateQuery eng stack table tmpName) (\<lambda>validate.
         andThen (getCheckConstraintInvalidQuery eng stack tmpName) (\<lambda>invalid.
         andThen (getCheckRunningValidationQuery eng stack tmpName) (\<lambda>running.
         andThen (getDeleteQuery eng stack table newName) (\<lambda>drop_old.
         andThen (rename_constraint_query eng stack table tmpName newName) (\<lambda>rename.
         give (replaced
           (getStepQueries\<lparr>mq_relations :=
               [(only_query create)\<lparr>ms_check := getCheckAnyQuery [Some present, keptKey], ms_condition := condition\<rparr>,
                (only_query validate)\<lparr>ms_check := getCheckAnyQuery [Some valid, keptKey], ms_condition := condition\<rparr>],
              mq_validations := [\<lparr>vs_name = newName, vs_check = invalid, vs_retry = running\<rparr>]\<rparr>)
           (getStepQueries\<lparr>mq_relations :=
               [(only_query drop_old)\<lparr>ms_check := Option.bind keptKey (\<lambda>kept. getCheckAllQuery [kept, missing]), ms_condition := condition\<rparr>,
                (checked_query missing rename)\<lparr>ms_condition := condition\<rparr>]\<rparr>)))))))))))))"

definition update_key ::
  "builder_options \<Rightarrow> nat \<Rightarrow> (string \<Rightarrow> string) \<Rightarrow> string \<Rightarrow> string \<Rightarrow> table_key option \<Rightarrow> table_key option \<Rightarrow> migration_steps build" where
  "update_key eng stack hashData table targetAlias sourceKey targetKey =
     (let newName = getRelationName table targetAlias
      in case targetKey of
           None \<Rightarrow> (case sourceKey of
               None \<Rightarrow> give no_steps
             | Some _ \<Rightarrow> andThen (getDeleteQuery eng stack table newName) (\<lambda>query.
                 give (replaced getStepQueries (getStepQueries\<lparr>mq_relations := [only_query query]\<rparr>))))
         | Some key \<Rightarrow> if sourceKey = Some key then give no_steps else replace_key eng stack hashData table newName key)"

definition relations_prepareUpdate ::
  "builder_options \<Rightarrow> nat \<Rightarrow> (string \<Rightarrow> string) \<Rightarrow> string \<Rightarrow> (string \<times> any_schema) list \<Rightarrow> relations \<Rightarrow> (string \<times> any_schema) list \<Rightarrow>
   relations \<Rightarrow> migration_steps build" where
  "relations_prepareUpdate eng stack hashData table sourceProperties sourceRelations targetProperties targetRelations =
     andThen (each (\<lambda>(targetAlias, relation). case obj_get sourceRelations targetAlias of
         None \<Rightarrow> give no_steps
       | Some sourceRelation \<Rightarrow> update_key eng stack hashData table targetAlias (getForeignKey sourceRelation sourceProperties)
           (getForeignKey relation targetProperties)) targetRelations)
       (\<lambda>steps. give (foldl combineSteps no_steps steps))"

definition keyed :: "relations \<Rightarrow> string list" where
  "keyed rels = map fst (filter (\<lambda>p. hasForeignKey (snd p)) rels)"

definition relations_prepareRename :: "builder_options \<Rightarrow> nat \<Rightarrow> string \<Rightarrow> string \<Rightarrow> relations \<Rightarrow> migration_statement list build" where
  "relations_prepareRename eng stack fromTable toTable rels =
     rename_checks eng stack toTable (map (\<lambda>a. (getRelationName fromTable a, getRelationName toTable a)) (keyed rels))"

definition relations_prepareDelete :: "builder_options \<Rightarrow> nat \<Rightarrow> string \<Rightarrow> relations \<Rightarrow> migration_statement list build" where
  "relations_prepareDelete eng stack table rels =
     each (\<lambda>a. andThen (getDeleteQuery eng stack table (getRelationName table a)) (\<lambda>query. give (only_query query))) (keyed rels)"

definition relations_getNames :: "string \<Rightarrow> relations \<Rightarrow> string list" where
  "relations_getNames table rels = map (getRelationName table) (keyed rels)"

section \<open>Timestamps\<close>

record table_metadata =
  tm_name :: string
  tm_timestamps :: "table_timestamps option"
  tm_relations :: relations
  tm_indexes :: indexes
  tm_properties :: "(string \<times> any_schema) list"

type_synonym tables = "(string \<times> table_metadata) list"

definition getStampName :: "string \<Rightarrow> string" where
  "getStampName column = ''ez4_stamp_'' @ column"

definition updated_of :: "table_metadata \<Rightarrow> string option" where
  "updated_of t = Option.bind (tm_timestamps t) updated_in"

text \<open>A set keeps the order in which its elements came.\<close>

definition getFunctionColumns :: "tables \<Rightarrow> string list" where
  "getFunctionColumns ts = set_of_list (List.map_filter (\<lambda>p. updated_of (snd p)) ts)"

definition function_body :: "string \<Rightarrow> string" where
  "function_body column = ''BEGIN NEW.'' @ escapeSqlName column @ '' := '' @ TIMESTAMP_VALUE @ ''; RETURN NEW; END''"

definition prepareFunctionCreate :: "string \<Rightarrow> migration_statement build" where
  "prepareFunctionCreate column =
     (let body = function_body column
      in case getDollarQuoteTag body ''fn'' of
           None \<Rightarrow> raise NeverReturns
         | Some tag \<Rightarrow> give (only_query (''CREATE OR REPLACE FUNCTION '' @ escapeSqlName (getStampName column) @
             ''() RETURNS trigger LANGUAGE plpgsql AS '' @ tag @ '' '' @ body @ '' '' @ tag)))"

definition prepareFunctionDelete :: "string \<Rightarrow> migration_statement" where
  "prepareFunctionDelete column = only_query (''DROP FUNCTION IF EXISTS '' @ escapeSqlName (getStampName column) @ ''() RESTRICT'')"

definition prepareTriggerCreate :: "builder_options \<Rightarrow> nat \<Rightarrow> string \<Rightarrow> string \<Rightarrow> migration_statement build" where
  "prepareTriggerCreate eng stack table column =
     (let name = getStampName column
      in andThen (getCheckTriggerExistsQuery eng stack table name) (\<lambda>check.
         give (checked_query check (''CREATE TRIGGER '' @ escapeSqlName name @ '' BEFORE UPDATE ON '' @ escapeSqlName table @
           '' FOR EACH ROW EXECUTE FUNCTION '' @ escapeSqlName name @ ''()''))))"

definition prepareTriggerDelete :: "string \<Rightarrow> string \<Rightarrow> migration_statement" where
  "prepareTriggerDelete table column =
     only_query (''DROP TRIGGER IF EXISTS '' @ escapeSqlName (getStampName column) @ '' ON '' @ escapeSqlName table)"

definition prepareDefaults :: "builder_options \<Rightarrow> nat \<Rightarrow> string \<Rightarrow> string list \<Rightarrow> migration_statement build" where
  "prepareDefaults eng stack table columns =
     andThen (alter_query eng stack table (map (\<lambda>column. CallColumn column (\<lambda>c. c\<lparr>lc_value := Some (Some TIMESTAMP_VALUE)\<rparr>)) columns))
       (\<lambda>query. give (only_query query))"

text \<open>The columns are columns of the table.\<close>

definition prepareDefaultsRestore ::
  "builder_options \<Rightarrow> nat \<Rightarrow> (js_value \<Rightarrow> string) \<Rightarrow> string \<Rightarrow> (string \<times> any_schema) list \<Rightarrow> indexes \<Rightarrow> string list \<Rightarrow> migration_statement build" where
  "prepareDefaultsRestore eng stack json_text table properties idxs columns =
     andThen (alter_query eng stack table (map (\<lambda>column. CallColumn column (\<lambda>c. c\<lparr>lc_value :=
         Some (Option.bind (obj_get properties column) (\<lambda>schema. getColumnDefault eng json_text schema (is_primary idxs column) False))\<rparr>)) columns))
       (\<lambda>query. give (only_query query))"

definition timestamps_prepareCreate :: "builder_options \<Rightarrow> nat \<Rightarrow> tables \<Rightarrow> migration_statement list build" where
  "timestamps_prepareCreate eng stack ts =
     andThen (each prepareFunctionCreate (getFunctionColumns ts)) (\<lambda>functions.
     andThen (each (\<lambda>p. case truthy_name (updated_of (snd p)) of
         None \<Rightarrow> give [] | Some column \<Rightarrow> andThen (prepareTriggerCreate eng stack (tm_name (snd p)) column) (\<lambda>st. give [st])) ts) (\<lambda>triggers.
     give (functions @ concat triggers)))"

definition timestamps_of :: "table_metadata \<Rightarrow> table_timestamps" where
  "timestamps_of t = (case tm_timestamps t of None \<Rightarrow> \<lparr>created_in = None, updated_in = None\<rparr> | Some ts \<Rightarrow> ts)"

text \<open>What one table of both repositories gains and loses; the functions that are there already are passed on.\<close>

definition timestamp_changes ::
  "builder_options \<Rightarrow> nat \<Rightarrow> (js_value \<Rightarrow> string) \<Rightarrow> string list \<Rightarrow> table_metadata \<Rightarrow> table_metadata \<Rightarrow>
   (migration_statement list \<times> migration_statement list \<times> string list) build" where
  "timestamp_changes eng stack json_text functions source target =
     (if timestamps_of source = timestamps_of target then give ([], [], functions)
      else
        let sourceUpdated = truthy_name (updated_of source); targetUpdated = truthy_name (updated_of target);
            sourceColumns = getTimestampColumns (tm_timestamps source); targetColumns = getTimestampColumns (tm_timestamps target);
            gained = filter (\<lambda>c. c \<notin> set sourceColumns \<and> obj_get (tm_properties source) c \<noteq> None) targetColumns;
            lost = filter (\<lambda>c. c \<notin> set targetColumns \<and> obj_get (tm_properties target) c \<noteq> None) sourceColumns;
            added = (case targetUpdated of Some c \<Rightarrow> targetUpdated \<noteq> sourceUpdated \<and> c \<notin> set functions | None \<Rightarrow> False)
        in andThen (case targetUpdated of
               Some c \<Rightarrow> if added then andThen (prepareFunctionCreate c) (\<lambda>st. give [st]) else give [] | None \<Rightarrow> give []) (\<lambda>function_made.
           andThen (if gained = [] then give [] else andThen (prepareDefaults eng stack (tm_name source) gained) (\<lambda>st. give [st])) (\<lambda>defaults.
           andThen (case targetUpdated of
               Some c \<Rightarrow> if targetUpdated \<noteq> sourceUpdated then andThen (prepareTriggerCreate eng stack (tm_name source) c) (\<lambda>st. give [st]) else give []
             | None \<Rightarrow> give []) (\<lambda>trigger.
           andThen (if lost = [] then give []
                    else andThen (prepareDefaultsRestore eng stack json_text (tm_name target) (tm_properties target) (tm_indexes target) lost)
                           (\<lambda>st. give [st])) (\<lambda>restored.
           give (function_made @ defaults @ trigger,
                 (case sourceUpdated of Some c \<Rightarrow> if sourceUpdated \<noteq> targetUpdated then [prepareTriggerDelete (tm_name target) c] else [] | None \<Rightarrow> []) @ restored,
                 (case targetUpdated of Some c \<Rightarrow> if added then functions @ [c] else functions | None \<Rightarrow> functions)))))))"

fun timestamp_loop ::
  "builder_options \<Rightarrow> nat \<Rightarrow> (js_value \<Rightarrow> string) \<Rightarrow> tables \<Rightarrow> tables \<Rightarrow> string list \<Rightarrow> (migration_statement list \<times> migration_statement list) build" where
  "timestamp_loop eng stack json_text source [] functions = give ([], [])"
| "timestamp_loop eng stack json_text source ((table, target) # rest) functions =
     (case obj_get source table of
        None \<Rightarrow> timestamp_loop eng stack json_text source rest functions
      | Some sourceTable \<Rightarrow>
          andThen (timestamp_changes eng stack json_text functions sourceTable target) (\<lambda>(prepare, cleanup, functions').
          andThen (timestamp_loop eng stack json_text source rest functions') (\<lambda>(prepares, cleanups).
          give (prepare @ prepares, cleanup @ cleanups))))"

definition timestamps_prepareUpdate ::
  "builder_options \<Rightarrow> nat \<Rightarrow> (js_value \<Rightarrow> string) \<Rightarrow> tables \<Rightarrow> tables \<Rightarrow> tables \<Rightarrow> string list \<Rightarrow>
   (migration_statement list \<times> migration_statement list) build" where
  "timestamps_prepareUpdate eng stack json_text target source removed functions =
     andThen (timestamp_loop eng stack json_text source target functions) (\<lambda>(prepare, cleanup).
     give (prepare, cleanup @
       List.map_filter (\<lambda>p. map_option (prepareTriggerDelete (tm_name (snd p))) (truthy_name (updated_of (snd p)))) removed @
       map prepareFunctionDelete (filter (\<lambda>c. c \<notin> set (getFunctionColumns target)) (getFunctionColumns source))))"

text \<open>The first rename that moves a timestamp column.\<close>

definition validateRenames :: "table_timestamps option \<Rightarrow> table_timestamps option \<Rightarrow> (string \<times> string) list \<Rightarrow> (string \<times> string) option" where
  "validateRenames source target renames =
     List.find (\<lambda>(fromColumn, toColumn). fromColumn \<in> set (getTimestampColumns source) \<or> toColumn \<in> set (getTimestampColumns target)) renames"

section \<open>Databases\<close>

definition database_prepareCreate :: "builder_options \<Rightarrow> nat \<Rightarrow> string \<Rightarrow> migration_statement build" where
  "database_prepareCreate eng stack database_name =
     andThen (getCheckDatabaseExistsQuery eng stack database_name) (\<lambda>check.
     give (checked_query check (''CREATE DATABASE '' @ escapeSqlName database_name)))"

definition database_prepareDelete :: "string \<Rightarrow> migration_statement" where
  "database_prepareDelete database_name = only_query (''DROP DATABASE IF EXISTS '' @ escapeSqlName database_name @ '' WITH (FORCE)'')"

end
