(* ===== verification/Migration_ForeignKeys.thy ===== *)
theory Migration_ForeignKeys
  imports Migration_Relations
begin

text \<open>
  What a migration makes of a foreign key that changes (\<open>prepareUpdate\<close> of \<open>queries/relations.ts\<close>, run by
  \<open>providers/raw/raw-pg/src/migration/client.ts\<close>): the table has the key all along.
\<close>

section \<open>The replacement of a foreign key\<close>

text \<open>The key is already as it should be, and there is a check that finds it so.\<close>

definition is_kept :: "string option \<Rightarrow> string \<Rightarrow> table_key \<Rightarrow> table_key catalog \<Rightarrow> bool" where
  "is_kept kept stored key c = (kept \<noteq> None \<and> c stored = Some (key, True))"

text \<open>
  The behaviour of PostgreSQL on the queries of a replacement, for a table that exists. The temporary name is stored as
  it is; \<open>stored\<close> is the name under which the catalog has the key.
\<close>

definition key_checks ::
  "'w database \<Rightarrow> ('w \<Rightarrow> table_key catalog) \<Rightarrow> builder_options \<Rightarrow> nat \<Rightarrow> string option \<Rightarrow> string \<Rightarrow> string \<Rightarrow> table_key \<Rightarrow> bool" where
  "key_checks db cof eng stack kept stored tmp key =
     ((\<forall>q x. builds (getCheckConstraintExistsQuery eng stack tmp) q \<longrightarrow> getCheckAnyQuery [Some q, kept] = Some x \<longrightarrow>
        asks db cof x (\<lambda>c. c tmp \<noteq> None \<or> is_kept kept stored key c)) \<and>
      (\<forall>q x. builds (getCheckConstraintValidQuery eng stack tmp) q \<longrightarrow> getCheckAnyQuery [Some q, kept] = Some x \<longrightarrow>
        asks db cof x (\<lambda>c. is_valid tmp c \<or> is_kept kept stored key c)) \<and>
      (\<forall>q. builds (getCheckConstraintMissingQuery eng stack tmp) q \<longrightarrow> asks db cof q (\<lambda>c. c tmp = None)) \<and>
      (\<forall>q x. builds (getCheckConstraintMissingQuery eng stack tmp) q \<longrightarrow> Option.bind kept (\<lambda>k. getCheckAllQuery [k, q]) = Some x \<longrightarrow>
        asks db cof x (\<lambda>c. is_kept kept stored key c \<and> c tmp = None)))"

definition foreign_laws ::
  "'w database \<Rightarrow> ('w \<Rightarrow> table_key catalog) \<Rightarrow> builder_options \<Rightarrow> nat \<Rightarrow> string \<Rightarrow> string \<Rightarrow> string \<Rightarrow> string \<Rightarrow> table_key \<Rightarrow> bool" where
  "foreign_laws db cof eng stack table name stored tmp key =
     (key_checks db cof eng stack (getKeptKeyCheck name key) stored tmp key \<and>
      changes_catalog db cof (create_key_query eng stack table tmp key) (add_constraint tmp key) \<and>
      changes_catalog db cof (getValidateQuery eng stack table tmp) (validate_constraint tmp) \<and>
      changes_catalog db cof (getDeleteQuery eng stack table name) (drop_constraint stored) \<and>
      changes_catalog db cof (rename_constraint_query eng stack table tmp name) (rename_constraint tmp stored))"

definition relation_statements :: "migration_steps \<Rightarrow> migration_statement list" where
  "relation_statements steps = mq_relations (rollout_step steps) @ mq_relations (cleanup_step steps)"

definition foreign_effects :: "string option \<Rightarrow> string \<Rightarrow> string \<Rightarrow> table_key \<Rightarrow> table_key catalog effect list" where
  "foreign_effects kept s t key =
     [guarded (\<lambda>c. False) (\<lambda>c. c t \<noteq> None \<or> is_kept kept s key c) (add_constraint t key),
      guarded (\<lambda>c. False) (\<lambda>c. is_valid t c \<or> is_kept kept s key c) (validate_constraint t),
      guarded (\<lambda>c. False) (\<lambda>c. is_kept kept s key c \<and> c t = None) (drop_constraint s),
      guarded (\<lambda>c. False) (\<lambda>c. c t = None) (rename_constraint t s)]"

definition foreign_stage :: "string option \<Rightarrow> string \<Rightarrow> string \<Rightarrow> table_key \<Rightarrow> table_key catalog \<Rightarrow> nat \<Rightarrow> table_key catalog \<Rightarrow> bool" where
  "foreign_stage kept s t key c0 k c =
     (s \<noteq> t \<and> swapping s t key c0 c \<and> (is_kept kept s key c \<longrightarrow> c t = None) \<and> (k = 1 \<longrightarrow> c t \<noteq> None \<or> is_kept kept s key c) \<and>
      (k = 2 \<longrightarrow> c t = Some (key, True) \<or> is_kept kept s key c) \<and> (k = 3 \<longrightarrow> c t = Some (key, True) \<and> c s = None \<or> is_kept kept s key c) \<and>
      (k = 4 \<longrightarrow> c s = Some (key, True) \<and> c t = None))"

interpretation key_replacement: staged "foreign_effects kept s t key" "foreign_stage kept s t key c0" for kept s t key c0
proof
  fix k c d
  assume "k < length (foreign_effects kept s t key)" and stage: "foreign_stage kept s t key c0 k c" and d: "d \<in> (foreign_effects kept s t key ! k) c"
  then have "k < 4" by (simp add: foreign_effects_def)
  then consider "k = 0" | "k = 1" | "k = 2" | "k = 3" by linarith
  then show "foreign_stage kept s t key c0 (Suc k) d"
    using stage d
    by cases (auto simp: foreign_effects_def foreign_stage_def guarded_def swapping_def is_kept_def add_constraint_def validate_constraint_def
        drop_constraint_def rename_constraint_def is_valid_def split: option.splits if_splits)
qed (simp add: foreign_stage_def)

lemma combined_nonempty:
  "q \<noteq> [] \<Longrightarrow> getCheckAnyQuery [Some q, kept] = Some x \<Longrightarrow> x \<noteq> []" "getCheckAllQuery [k, q] = Some x \<Longrightarrow> x \<noteq> []"
  "\<exists>x. getCheckAnyQuery [Some q, kept] = Some x" "\<exists>x. getCheckAllQuery [k, q] = Some x"
  by (auto simp: getCheckAnyQuery_def getCheckAllQuery_def either_exists_def List.map_filter_def Let_def split: option.splits if_splits)

lemma foreign_runs_as:
  assumes laws: "foreign_laws db cof eng stack table name s t key" and tmp: "getTemporaryName hashData name = Some t"
    and built: "builds (replace_key eng stack hashData table name key) steps"
  shows "list_all2 (runs_as db cof) (relation_statements steps) (foreign_effects (getKeptKeyCheck name key) s t key)"
  using built unfolding replace_key_def Let_def temporary_name_def option.case tmp
proof (elim builds_andThen)
  let ?kept = "getKeptKeyCheck name key"
  let ?cond = "case ?kept of None \<Rightarrow> None | Some x \<Rightarrow> Some ''unless the foreign key already has this definition''"
  fix u missing present create valid validate invalid running drop_old rename
  assume u: "builds (give t) u"
    and q: "builds (getCheckConstraintMissingQuery eng stack u) missing" "builds (getCheckConstraintExistsQuery eng stack u) present"
      "builds (create_key_query eng stack table u key) create" "builds (getCheckConstraintValidQuery eng stack u) valid"
      "builds (getValidateQuery eng stack table u) validate" "builds (getDeleteQuery eng stack table name) drop_old"
      "builds (rename_constraint_query eng stack table u name) rename"
    and steps: "builds (give (replaced
           (getStepQueries\<lparr>mq_relations :=
               [(only_query create)\<lparr>ms_check := getCheckAnyQuery [Some present, ?kept], ms_condition := ?cond\<rparr>,
                (only_query validate)\<lparr>ms_check := getCheckAnyQuery [Some valid, ?kept], ms_condition := ?cond\<rparr>],
              mq_validations := [\<lparr>vs_name = name, vs_check = invalid, vs_retry = running\<rparr>]\<rparr>)
           (getStepQueries\<lparr>mq_relations :=
               [(only_query drop_old)\<lparr>ms_check := Option.bind ?kept (\<lambda>kept. getCheckAllQuery [kept, missing]), ms_condition := ?cond\<rparr>,
                (checked_query missing rename)\<lparr>ms_condition := ?cond\<rparr>]\<rparr>))) steps"
  note q = q [unfolded u [simplified]]
  note laws = laws [unfolded foreign_laws_def key_checks_def]
  have texts: "missing \<noteq> []" "present \<noteq> []" "valid \<noteq> []" using q check_nonempty by blast+
  have create_check: "case getCheckAnyQuery [Some present, ?kept] of None \<Rightarrow> \<forall>c. \<not> (c t \<noteq> None \<or> is_kept ?kept s key c)
      | Some a \<Rightarrow> a \<noteq> [] \<and> asks db cof a (\<lambda>c. c t \<noteq> None \<or> is_kept ?kept s key c)"
    using combined_nonempty(3) [of present ?kept] combined_nonempty(1) [OF texts(2)] laws q(2) by fastforce
  have valid_check: "case getCheckAnyQuery [Some valid, ?kept] of None \<Rightarrow> \<forall>c. \<not> (is_valid t c \<or> is_kept ?kept s key c)
      | Some a \<Rightarrow> a \<noteq> [] \<and> asks db cof a (\<lambda>c. is_valid t c \<or> is_kept ?kept s key c)"
    using combined_nonempty(3) [of valid ?kept] combined_nonempty(1) [OF texts(3)] laws q(4) by fastforce
  have drop_check: "case Option.bind ?kept (\<lambda>kept. getCheckAllQuery [kept, missing]) of None \<Rightarrow> \<forall>c. \<not> (is_kept ?kept s key c \<and> c t = None)
      | Some a \<Rightarrow> a \<noteq> [] \<and> asks db cof a (\<lambda>c. is_kept ?kept s key c \<and> c t = None)"
  proof (cases ?kept)
    case None
    then show ?thesis by (simp add: is_kept_def)
  next
    case (Some k)
    obtain x where "getCheckAllQuery [k, missing] = Some x" using combined_nonempty(4) by blast
    then show ?thesis using laws q(1) combined_nonempty(2) by (simp add: Some)
  qed
  have rename_check: "case Some missing of None \<Rightarrow> \<forall>c. \<not> c t = None | Some a \<Rightarrow> a \<noteq> [] \<and> asks db cof a (\<lambda>c. c t = None)"
    using texts laws q(1) by simp
  have "list_all2 (runs_as db cof)
     [(only_query create)\<lparr>ms_check := getCheckAnyQuery [Some present, ?kept], ms_condition := ?cond\<rparr>,
      (only_query validate)\<lparr>ms_check := getCheckAnyQuery [Some valid, ?kept], ms_condition := ?cond\<rparr>,
      (only_query drop_old)\<lparr>ms_check := Option.bind ?kept (\<lambda>kept. getCheckAllQuery [kept, missing]), ms_condition := ?cond\<rparr>,
      (only_query rename)\<lparr>ms_check := Some missing, ms_condition := ?cond\<rparr>]
     (foreign_effects ?kept s t key)"
    unfolding foreign_effects_def list_all2_Cons list_all2_Nil2
    using laws runs_as_optional [OF _ q(3) create_check] runs_as_optional [OF _ q(5) valid_check]
      runs_as_optional [OF _ q(6) drop_check] runs_as_optional [OF _ q(7) rename_check] by blast
  then show "list_all2 (runs_as db cof) (relation_statements steps) (foreign_effects ?kept s t key)"
    using steps by (simp add: relation_statements_def replaced_def checked_query_def)
qed

lemma foreign_tried:
  assumes "foreign_laws db cof eng stack table name s t key" and "getTemporaryName hashData name = Some t" and "s \<noteq> t"
    and "builds (replace_key eng stack hashData table name key) steps" and "cof w t = None" and "tried db (relation_statements steps) w w'"
  shows "foreign_stage (getKeptKeyCheck name key) s t key (cof w) 0 (cof w')"
    and "runAllStatements db (relation_statements steps) w' = (Inr (), w'') \<Longrightarrow>
      foreign_stage (getKeptKeyCheck name key) s t key (cof w) 4 (cof w'')"
proof -
  let ?P = "foreign_stage (getKeptKeyCheck name key) s t key (cof w)"
  note runs = foreign_runs_as [OF assms(1,2,4)]
  have start: "?P 0 (cof w)" using assms(3,5) by (simp add: foreign_stage_def swapping_def)
  show during: "?P 0 (cof w')" by (rule key_replacement.tried_keeps [OF runs assms(6) start])
  assume "runAllStatements db (relation_statements steps) w' = (Inr (), w'')"
  from key_replacement.run_completes [OF runs during this] show "?P 4 (cof w'')" by (simp add: foreign_effects_def eval_nat_numeral)
qed

text \<open>
  C35. A foreign key that changes is replaced in runs of the rollout and the cleanup that stop at any statement and are
  tried again: as long as there was a key there is one, the current one or the validated new one, and a run that
  completes leaves the new key, validated, under its name, and no temporary one. It holds for a key that the
  database already has in its new form, and for one whose form the database can not be asked for.
\<close>

theorem foreign_key_stays:
  assumes "foreign_laws db cof eng stack table (getRelationName table targetAlias) s t key"
    and "getTemporaryName hashData (getRelationName table targetAlias) = Some t"
    and "getStoredName (getRelationName table targetAlias) = Some s"
    and "byteLength (take 8 (hashData (getRelationName table targetAlias))) = 8"
    and "\<not> sublist (take 8 (hashData (getRelationName table targetAlias))) (getRelationName table targetAlias)"
    and "sourceKey \<noteq> Some key" and "update_key eng stack hashData table targetAlias sourceKey (Some key) refs = Inr (steps, vs, refs')"
    and "cof w s \<noteq> None" and "cof w t = None" and "tried db (relation_statements steps) w w'"
  shows "(cof w' s \<noteq> None \<or> cof w' t = Some (key, True)) \<and>
    (\<forall>w''. runAllStatements db (relation_statements steps) w' = (Inr (), w'') \<longrightarrow> cof w'' s = Some (key, True) \<and> cof w'' t = None)"
proof -
  let ?n = "getRelationName table targetAlias"
  have "\<exists>t. getTemporaryName hashData ?n = Some t \<and> getStoredName t = Some t \<and> getStoredName ?n \<noteq> Some t"
    by (rule temporary_name_stored [of ?n table targetAlias hashData, OF _ assms(4,5)]) simp
  with assms(2,3) have "s \<noteq> t" by fastforce
  moreover have "builds (replace_key eng stack hashData table ?n key) steps"
    using assms(6,7) unfolding builds_def by (auto simp: update_key_def)
  ultimately show ?thesis
    using foreign_tried [OF assms(1,2) _ _ assms(9,10)] assms(8) by (auto simp: foreign_stage_def swapping_def)
qed

section \<open>An example\<close>

text \<open>The table \<open>t\<close> with a relation \<open>r\<close>, whose key is cleared on delete where it was deleted with its record.\<close>

definition sample_key :: "delete_action \<Rightarrow> table_key" where
  "sample_key action = \<lparr>tk_sourceTable = ''u'', tk_sourceColumn = ''id'', tk_targetColumn = ''r'', tk_onDelete = action, tk_scope = []\<rparr>"

definition sample_kept :: string where
  "sample_kept = (case getKeptKeyCheck ''t_r_fk'' (sample_key SetNullDelete) of None \<Rightarrow> [] | Some q \<Rightarrow> q)"

definition relation_answers :: "(string \<times> (table_key catalog \<Rightarrow> db_answer \<times> table_key catalog)) list" where
  "relation_answers =
     (let e = sample_engine; s = ''t_r_fk''; t = ''t_r_tmp_fk''; key = sample_key SetNullDelete;
          present = built_text (getCheckConstraintExistsQuery e 5 t); valid = built_text (getCheckConstraintValidQuery e 5 t);
          missing = built_text (getCheckConstraintMissingQuery e 5 t)
      in [(either_exists '' OR '' [present, sample_kept], found (\<lambda>c. c t \<noteq> None \<or> c s = Some (key, True))),
          (either_exists '' OR '' [valid, sample_kept], found (\<lambda>c. is_valid t c \<or> c s = Some (key, True))),
          (missing, found (\<lambda>c. c t = None)),
          (either_exists '' AND '' [sample_kept, missing], found (\<lambda>c. c s = Some (key, True) \<and> c t = None)),
          (locked_text (create_key_query e 5 ''t'' t key), changed (add_constraint t key)),
          (locked_text (getValidateQuery e 5 ''t'' t), changed (validate_constraint t)),
          (locked_text (getDeleteQuery e 5 ''t'' s), changed (drop_constraint s)),
          (locked_text (rename_constraint_query e 5 ''t'' t s), changed (rename_constraint t s))])"

lemma relation_distinct: "distinct (map fst relation_answers)"
  by code_simp

lemma relation_kept: "getKeptKeyCheck ''t_r_fk'' (sample_key SetNullDelete) = Some sample_kept"
  by (simp add: sample_kept_def getKeptKeyCheck_def sample_key_def)

lemma relation_texts:
  "builds (getCheckConstraintExistsQuery sample_engine 5 ''t_r_tmp_fk'') q \<Longrightarrow> q = built_text (getCheckConstraintExistsQuery sample_engine 5 ''t_r_tmp_fk'')"
  "builds (getCheckConstraintValidQuery sample_engine 5 ''t_r_tmp_fk'') q \<Longrightarrow> q = built_text (getCheckConstraintValidQuery sample_engine 5 ''t_r_tmp_fk'')"
  "builds (getCheckConstraintMissingQuery sample_engine 5 ''t_r_tmp_fk'') q \<Longrightarrow> q = built_text (getCheckConstraintMissingQuery sample_engine 5 ''t_r_tmp_fk'')"
  by (erule built_text_unique [rotated], code_simp)+

lemma relation_changes:
  "builds (create_key_query sample_engine 5 ''t'' ''t_r_tmp_fk'' (sample_key SetNullDelete)) q \<Longrightarrow>
   q = built_text (create_key_query sample_engine 5 ''t'' ''t_r_tmp_fk'' (sample_key SetNullDelete))"
  "builds (getValidateQuery sample_engine 5 ''t'' ''t_r_tmp_fk'') q \<Longrightarrow> q = built_text (getValidateQuery sample_engine 5 ''t'' ''t_r_tmp_fk'')"
  "builds (getDeleteQuery sample_engine 5 ''t'' ''t_r_fk'') q \<Longrightarrow> q = built_text (getDeleteQuery sample_engine 5 ''t'' ''t_r_fk'')"
  "builds (rename_constraint_query sample_engine 5 ''t'' ''t_r_tmp_fk'' ''t_r_fk'') q \<Longrightarrow>
   q = built_text (rename_constraint_query sample_engine 5 ''t'' ''t_r_tmp_fk'' ''t_r_fk'')"
  by (erule built_text_unique [rotated], code_simp)+

lemma relation_combined:
  "getCheckAnyQuery [Some q, Some k] = Some (either_exists '' OR '' [q, k])" "getCheckAllQuery [k, q] = Some (either_exists '' AND '' [k, q])"
  by (simp_all add: getCheckAnyQuery_def getCheckAllQuery_def List.map_filter_def)

lemma relation_laws: "foreign_laws (answering relation_answers) id sample_engine 5 ''t'' ''t_r_fk'' ''t_r_fk'' ''t_r_tmp_fk'' (sample_key SetNullDelete)"
proof -
  note asked = answering_asks [OF relation_distinct, THEN conjunct1]
  have "key_checks (answering relation_answers) id sample_engine 5 (Some sample_kept) ''t_r_fk'' ''t_r_tmp_fk'' (sample_key SetNullDelete)"
    unfolding key_checks_def relation_combined bind.simps option.inject is_kept_def
    by (intro conjI allI impI; (drule relation_texts)?; hypsubst; rule asked; simp add: relation_answers_def Let_def)
  moreover have "changes_catalog (answering relation_answers) id (create_key_query sample_engine 5 ''t'' ''t_r_tmp_fk'' (sample_key SetNullDelete))
      (add_constraint ''t_r_tmp_fk'' (sample_key SetNullDelete))"
    by (rule answering_changes [OF relation_distinct _ relation_changes(1)]) (simp_all add: relation_answers_def Let_def)
  moreover have "changes_catalog (answering relation_answers) id (getValidateQuery sample_engine 5 ''t'' ''t_r_tmp_fk'') (validate_constraint ''t_r_tmp_fk'')"
    by (rule answering_changes [OF relation_distinct _ relation_changes(2)]) (simp_all add: relation_answers_def Let_def)
  moreover have "changes_catalog (answering relation_answers) id (getDeleteQuery sample_engine 5 ''t'' ''t_r_fk'') (drop_constraint ''t_r_fk'')"
    by (rule answering_changes [OF relation_distinct _ relation_changes(3)]) (simp_all add: relation_answers_def Let_def)
  moreover have "changes_catalog (answering relation_answers) id (rename_constraint_query sample_engine 5 ''t'' ''t_r_tmp_fk'' ''t_r_fk'')
      (rename_constraint ''t_r_tmp_fk'' ''t_r_fk'')"
    by (rule answering_changes [OF relation_distinct _ relation_changes(4)]) (simp_all add: relation_answers_def Let_def)
  ultimately show ?thesis unfolding foreign_laws_def relation_kept by blast
qed

definition relation_steps :: migration_steps where
  "relation_steps = (case update_key sample_engine 5 sample_hash ''t'' ''r'' (Some (sample_key CascadeDelete)) (Some (sample_key SetNullDelete)) sample_refs of
     Inl e \<Rightarrow> no_steps | Inr (steps, vs, refs) \<Rightarrow> steps)"

definition relation_start :: "table_key catalog" where
  "relation_start = [''t_r_fk'' \<mapsto> (sample_key CascadeDelete, True)]"

lemma relation_run: "fst (runAllStatements (answering relation_answers) (relation_statements relation_steps) relation_start) = Inr ()"
  by code_simp

lemma relation_names:
  "getRelationName ''t'' ''r'' = ''t_r_fk''" "getTemporaryName sample_hash ''t_r_fk'' = Some ''t_r_tmp_fk''"
  "getStoredName ''t_r_fk'' = Some ''t_r_fk''" "byteLength (take 8 (sample_hash ''t_r_fk'')) = 8"
  by code_simp+

lemma relation_hash_apart: "\<not> sublist (take 8 (sample_hash ''t_r_fk'')) ''t_r_fk''"
  by (auto simp: sample_hash_def dest: set_mono_sublist)

lemma relation_built:
  "\<exists>vs refs. update_key sample_engine 5 sample_hash ''t'' ''r'' (Some (sample_key CascadeDelete)) (Some (sample_key SetNullDelete)) sample_refs =
     Inr (relation_steps, vs, refs)"
proof -
  have "\<not> isl (update_key sample_engine 5 sample_hash ''t'' ''r'' (Some (sample_key CascadeDelete)) (Some (sample_key SetNullDelete)) sample_refs)"
    by code_simp
  then show ?thesis by (auto simp: relation_steps_def split: sum.splits prod.splits)
qed

theorem foreign_key_stays_witness:
  "fst (runAllStatements (answering relation_answers) (relation_statements relation_steps) relation_start) = Inr () \<and>
   snd (runAllStatements (answering relation_answers) (relation_statements relation_steps) relation_start) ''t_r_fk'' = Some (sample_key SetNullDelete, True)"
proof -
  obtain vs refs where built:
    "update_key sample_engine 5 sample_hash ''t'' ''r'' (Some (sample_key CascadeDelete)) (Some (sample_key SetNullDelete)) sample_refs =
       Inr (relation_steps, vs, refs)"
    using relation_built by blast
  obtain w where run: "runAllStatements (answering relation_answers) (relation_statements relation_steps) relation_start = (Inr (), w)"
    using relation_run by (metis prod.collapse)
  have "w ''t_r_fk'' = Some (sample_key SetNullDelete, True)"
    using foreign_key_stays [where cof = id and table = "''t''" and targetAlias = "''r''", unfolded relation_names(1),
        OF relation_laws relation_names(2-4) relation_hash_apart _ built, of relation_start relation_start] run
    by (simp add: relation_start_def tried.untried sample_key_def)
  with run show ?thesis by simp
qed

end
