(* ===== verification/Spec2Isabelle.thy ===== *)
theory Spec2Isabelle
  imports Apply_Steps Task_Pool Local_Claims Queue_History Validator_Spec Transform_Spec Queue_Poller Queue_Messages Schedule_Runs Object_Merge
    Migration_Swap Migration_Keys Migration_ForeignKeys
begin

text \<open>
  A verification library for ez4, a framework that derives an infrastructure from TypeScript
  declarations, deploys it step by step, and runs the same services locally.

  \<^bold>\<open>The parts of the program.\<close> Declarations are reflected into entries of a state and into schemas.
  The \<^emph>\<open>state engine\<close> (\<open>foundation/state\<close>) compares the entries of a new state with those of the
  last deployment, plans the steps that lead from one to the other and applies them. The
  \<^emph>\<open>services\<close> that run afterwards receive messages and requests as untyped values; they are
  \<^emph>\<open>validated\<close> (\<open>foundation/validator\<close>) and \<^emph>\<open>transformed\<close> (\<open>foundation/transform\<close>) after their
  schemas (\<open>foundation/schema\<close>). The local providers emulate the services of a cloud: the \<^emph>\<open>local
  queue\<close> (\<open>providers/local/local-queue\<close>) keeps messages, delivers them, and claims the work of
  idempotent subscriptions. Databases are reached through the \<^emph>\<open>SQL builder\<close> (\<open>libraries/pgsql\<close>), which
  writes statements with placeholders and the list of their variables; \<^emph>\<open>migrations\<close>
  (\<open>libraries/pgmigration\<close>) change the tables in steps around a deployment. All of them use the \<^emph>\<open>utilities\<close> (\<open>foundation/utils\<close>).

  \<^bold>\<open>The theories.\<close>

  \<^item> \<open>Ez4_Prelude\<close>: ordered objects of the language (own keys in the order a loop visits them:
    integer keys in ascending order, then the others as inserted), ordered sets, shared facts on lists.
  \<^item> \<open>Js_Value\<close>: the values of the language, with references for objects and arrays, and its strict
    equality; the checks of \<open>utils/*/check.ts\<close>.
  \<^item> \<open>Object_Equal\<close>, \<open>Object_Compare\<close>: \<open>deepEqual\<close> and \<open>deepCompare\<close> of \<open>utils/src/object\<close> and
    \<open>utils/src/array\<close>. A comparison counts no change exactly when the values are deeply equal.
  \<^item> \<open>Worklist_Search\<close>, \<open>Layered_Order\<close>: the contracts of a search with a work list and of a plan in
    layers, as locales; both are interpreted on the operations of the state engine.
  \<^item> \<open>Entry_State\<close>: \<open>state/entry.ts\<close> and \<open>state/hydrate.ts\<close>. Entry maps, their links, their validation,
    the closure over connections and the entries with their dependents.
  \<^item> \<open>Plan_Steps\<close>: \<open>state/plan.ts\<close>. The plan covers every entry once, its order is topological, and
    planning fails exactly on cyclic dependencies.
  \<^item> \<open>Apply_Steps\<close>: \<open>state/apply.ts\<close>. The steps of one order run at the same time, so the handlers
    are a parameter that answers each of them; the post actions run afterwards. The state that is
    left can be loaded again, and exactly which post actions run.
  \<^item> \<open>Task_Pool\<close>: \<open>utils/src/system/tasks.ts\<close>. The interleaving of the workers is a sequence of choices.
  \<^item> \<open>Local_Claims\<close>: \<open>service/claims.ts\<close> of the local queue.
  \<^item> \<open>Local_Queue\<close>, \<open>Queue_History\<close>: \<open>service/queue.ts\<close> of the local queue, operation by operation, and
    the histories of operations with a clock that never goes back. Invariants of a message are one
    locale with the operations as its parameters.
  \<^item> \<open>Queue_Records\<close>: \<open>processRecord\<close> of \<open>handlers/lambda.ts\<close> of the local queue, with \<open>utils\<close> of the queue contract. One message is
    processed in steps between two awaits; what others do to the queue and the claims in between is a parameter, and the
    theorems ask of it only that it leaves the message, or the claim, alone.
  \<^item> \<open>Queue_Batch\<close>: \<open>processAllRecords\<close> and \<open>runBatch\<close> of the same file. The workers of a batch are a step relation.
  \<^item> \<open>Queue_Poller\<close>: \<open>service/poller.ts\<close>, which takes batches from the queue, with its window and its events.
  \<^item> \<open>Queue_Messages\<close>: \<open>utils/message.ts\<close> and \<open>utils/group.ts\<close>, the messages that are sent.
  \<^item> \<open>Schedule_Expression\<close>, \<open>Schedule_Runs\<close>: \<open>utils/expression.ts\<close> of the local scheduler. The times an expression runs at are
    a predicate, and the next date is the first of them; a search without a weekday takes fewer steps than its bound.
  \<^item> \<open>Object_Merge\<close>: \<open>deepMerge\<close>, \<open>deepClone\<close> and \<open>arrayUnique\<close> of the utilities.
  \<^item> \<open>Text_Case\<close>: \<open>utils/src/string/case.ts\<close>, the naming styles.
  \<^item> \<open>Schema_Types\<close>: the schemas and what is derived from them.
  \<^item> \<open>Validator\<close>, \<open>Validator_Spec\<close>: the validation, and the predicate of conformance it decides.
  \<^item> \<open>Transform\<close>, \<open>Transform_Spec\<close>: the transformation, and the shape of its results.

  \<^item> \<open>Sql_Text\<close>: \<open>pgsql/src/utils/escape.ts\<close>. Names, texts, keys, patterns and text arrays are read back as
    they were written; lists of quoted tokens are a locale.
  \<^item> \<open>Sql_Builder\<close>, \<open>Sql_Conditions\<close>, \<open>Sql_Statements\<close>: the values, statements and references of the builder,
    the filters with their operators (\<open>pgsql/src/operations\<close>), and the statements with their clauses
    (\<open>pgsql/src/statements\<close>, \<open>clauses/query\<close>, \<open>common\<close>, \<open>helpers\<close>). A step of a build is a function of the
    references that answers with its result, the variables it pushed and the new references, or an error.
  \<^item> \<open>Sql_Binding\<close>, \<open>Sql_Depth\<close>, \<open>Sql_Safety\<close>: contracts of a step that the combinators keep, so that
    they hold of every operation: its placeholders stand for its variables, and it does not overflow a
    stack that is deeper than its input. Filters that restrict, and unique aliases.
  \<^item> \<open>Sql_Tables\<close>: the statements that define tables and indexes (\<open>statements/table.ts\<close>, \<open>statements/index.ts\<close>,
    \<open>clauses/table\<close>, \<open>column\<close>, \<open>constraint\<close>, \<open>index\<close>). One statement has clauses of one kind.
  \<^item> \<open>Migration_Text\<close>: \<open>utils/naming.ts\<close> and \<open>utils/lock.ts\<close> of the migrations (\<open>libraries/pgmigration\<close>). Names that are
    stored apart, and a quoted block that is read whole.
  \<^item> \<open>Migration_Queries\<close>, \<open>Migration_Columns\<close>: the statements of a migration, the checks that tell whether one has been
    run (\<open>utils/checks.ts\<close>), and those for value constraints, tables and columns (\<open>queries\<close>).
  \<^item> \<open>Migration_Run\<close>, \<open>Migration_Swap\<close>: the runner of \<open>providers/raw/raw-pg\<close> with a database as its parameter. It
    refines the outcomes of a list of effects on a catalog, and the statements of a swap have the effects that
    keep a column checked, with the values of the live versions, however often a step is interrupted. The effects of
    statements that are run again after an interruption are a locale, with what holds before each of them as its laws.
  \<^item> \<open>Migration_Indexes\<close>, \<open>Migration_Keys\<close>: the indexes of a table, and the swap of its primary key.
  \<^item> \<open>Migration_Relations\<close>, \<open>Migration_ForeignKeys\<close>: the relations, the timestamps and the database, and the
    replacement of a foreign key.

  \<^bold>\<open>How code becomes definitions.\<close> An operation is a function of the same name; an inner loop or
  block that is long enough has a definition of its own. State that the code mutates is passed and
  returned: the queue, the claims, the entry map, the references a validation collects. An exception
  is the left side of a sum. An asynchronous operation is atomic between two awaits, and what may run
  in between is another step of the history. The current time and fresh identifiers are arguments.
  Numbers of the language that take part in arithmetic are rationals with the two infinities and the
  value that is not a number; the conversions between numbers and texts, base64 and JSON are
  parameters (\<open>js_engine\<close>), as are regular expressions, handlers, custom validations, formats, the hash of
  a long name and the database, whose documented behaviour is a hypothesis where a theorem needs it.
  Names that clash with the logic carry a suffix.

  \<^bold>\<open>Bounds.\<close> Loops are structural recursions or have a measure, so they always return. The
  recursion of validation and transformation follows references, which may be cyclic, so it takes
  the depth of the call stack, and its overflow is the \<open>RangeError\<close> the language throws; a depth above
  the size of a schema without references is enough, and the theorems say so. The builds of the SQL
  statements take the depth of the stack in the same way, and a depth above the size of the statement is enough. \<open>pollMessages\<close> waits
  in a loop that is bounded by the times the queue wakes it.

  \<^bold>\<open>What the properties show.\<close> Planning and applying: completeness, topological order, termination, a
  state that loads again. Comparison: agreement with equality. Queue: exclusive delivery within the
  visibility timeout, group order, deduplication, bounded attempts, unique identifiers, the
  scheduled wake up. Subscriptions: no message is lost, a key runs once, the order of groups in a batch, batches and polls that
  end, a bounded poller, valid messages. Schedules: the next run of a rate and of a cron expression, the nearest weekday. Claims and tasks: exclusion, results, bounded concurrency. Validation:
  equivalence with conformance, optional schemas, error details. Transformation: the shape of
  results, the branch of a union. SQL: placeholders and variables, restricting filters,
  escaping, aliases. Migrations: interrupted swaps of a check, of a primary key and of a foreign key, the values both
  versions write, temporary names, quoted statements. Names: stability and round trip. Some lemmas record where the
  code falls short of its intention.

  \<^bold>\<open>Not modelled.\<close> Reflection and metadata read the TypeScript compiler. The cloud providers call an
  SDK; to the state engine they are handlers. The command line, bundling, watching, logging and
  generated documents are input and output. The listeners of the local queue are further
  operations of a history, and the timer that abandons a batch is a step that may come at any time; the report of a
  timeout is output. Of the SQL libraries, the comparison of repositories, the
  warnings of a migration and the queries of the client, and of the local providers the gateway routes and
  the events of the scheduler. The cron library and the dates of time zones are parameters.
\<close>

end
